(* ===== verification/Utf8.thy ===== *)
theory Utf8
  imports Prelude "HOL-Library.Sublist"
begin

text \<open>
  The operations of Rust's \<open>str\<close> and \<open>char\<close> that the program calls, on UTF-8 bytes:
  ASCII classes and case folding, \<open>trim\<close> with Unicode white space, \<open>char::is_control\<close>,
  decimal and hexadecimal formatting and \<open>parse::<uN>()\<close>. White space and control characters
  outside ASCII are recognised by their UTF-8 encodings, which is exact on valid UTF-8.
\<close>

subsection \<open>ASCII\<close>

definition code :: "char \<Rightarrow> nat" where
  "code c = of_char c"

definition is_ascii_digit :: "char \<Rightarrow> bool" where
  "is_ascii_digit c \<longleftrightarrow> 48 \<le> code c \<and> code c \<le> 57"

definition is_ascii_upper :: "char \<Rightarrow> bool" where
  "is_ascii_upper c \<longleftrightarrow> 65 \<le> code c \<and> code c \<le> 90"

definition is_ascii_lower :: "char \<Rightarrow> bool" where
  "is_ascii_lower c \<longleftrightarrow> 97 \<le> code c \<and> code c \<le> 122"

definition is_ascii_alphabetic :: "char \<Rightarrow> bool" where
  "is_ascii_alphabetic c \<longleftrightarrow> is_ascii_upper c \<or> is_ascii_lower c"

definition is_ascii_alphanumeric :: "char \<Rightarrow> bool" where
  "is_ascii_alphanumeric c \<longleftrightarrow> is_ascii_alphabetic c \<or> is_ascii_digit c"

definition is_ascii_hexdigit :: "char \<Rightarrow> bool" where
  "is_ascii_hexdigit c \<longleftrightarrow> is_ascii_digit c \<or> (65 \<le> code c \<and> code c \<le> 70)
     \<or> (97 \<le> code c \<and> code c \<le> 102)"

definition ascii_lower :: "char \<Rightarrow> char" where
  "ascii_lower c = (if is_ascii_upper c then char_of (code c + 32) else c)"

definition to_ascii_lowercase :: "string \<Rightarrow> string" where
  "to_ascii_lowercase s = map ascii_lower s"

definition eq_ignore_ascii_case :: "string \<Rightarrow> string \<Rightarrow> bool" where
  "eq_ignore_ascii_case a b \<longleftrightarrow> map ascii_lower a = map ascii_lower b"

lemma eq_ignore_ascii_case_refl [simp]: "eq_ignore_ascii_case a a"
  by (simp add: eq_ignore_ascii_case_def)

lemma eq_ignore_ascii_case_sym: "eq_ignore_ascii_case a b \<longleftrightarrow> eq_ignore_ascii_case b a"
  by (auto simp: eq_ignore_ascii_case_def)

lemma eq_ignore_ascii_case_trans:
  "eq_ignore_ascii_case a b \<Longrightarrow> eq_ignore_ascii_case b c \<Longrightarrow> eq_ignore_ascii_case a c"
  by (simp add: eq_ignore_ascii_case_def)

lemma code_char_of [simp]: "code (char_of n) = n mod 256"
  by (simp add: code_def)

lemma code_less [simp]: "code c < 256"
  by (simp add: code_def)

lemma ascii_lower_idem [simp]: "ascii_lower (ascii_lower c) = ascii_lower c"
  by (auto simp: ascii_lower_def is_ascii_upper_def)

lemma ascii_lower_not_upper: "\<not> is_ascii_upper (ascii_lower c)"
  by (auto simp: ascii_lower_def is_ascii_upper_def)

subsection \<open>White space and control characters\<close>

definition byte_string :: "nat list \<Rightarrow> string" where
  "byte_string ns = map char_of ns"

text \<open>The UTF-8 encodings of the characters with the Unicode property White\_Space.\<close>

definition white_space :: "string list" where
  "white_space = map byte_string
     ([[9], [10], [11], [12], [13], [32], [194, 133], [194, 160], [225, 154, 128]]
      @ map (\<lambda>i. [226, 128, i]) [128..<139]
      @ [[226, 128, 168], [226, 128, 169], [226, 128, 175], [226, 129, 159], [227, 128, 128]])"

fun strip_first :: "string list \<Rightarrow> string \<Rightarrow> string option" where
  "strip_first [] s = None"
| "strip_first (w # ws) s =
     (if w \<noteq> [] \<and> prefix w s then Some (drop (length w) s) else strip_first ws s)"

lemma strip_first_shorter: "strip_first ws s = Some t \<Longrightarrow> length t < length s"
  by (induction ws) (auto split: if_splits simp: prefix_def)

function trim_start_of :: "string list \<Rightarrow> string \<Rightarrow> string" where
  "trim_start_of ws s = (case strip_first ws s of None \<Rightarrow> s | Some t \<Rightarrow> trim_start_of ws t)"
  by pat_completeness auto
termination
  by (relation "measure (\<lambda>(ws, s). length s)") (auto dest: strip_first_shorter)

declare trim_start_of.simps [simp del]

definition trim_start :: "string \<Rightarrow> string" where
  "trim_start s = trim_start_of white_space s"

definition trim_end :: "string \<Rightarrow> string" where
  "trim_end s = rev (trim_start_of (map rev white_space) (rev s))"

definition trim :: "string \<Rightarrow> string" where
  "trim s = trim_end (trim_start s)"

lemma trim_start_of_suffix: "suffix (trim_start_of ws s) s"
proof (induction ws s rule: trim_start_of.induct)
  case (1 ws s)
  show ?case
  proof (cases "strip_first ws s")
    case None
    then show ?thesis by (simp add: trim_start_of.simps)
  next
    case (Some t)
    have "suffix t s"
      using Some by (induction ws) (auto split: if_splits simp: suffix_drop)
    with 1 [OF Some] Some show ?thesis
      by (simp add: trim_start_of.simps [of ws s] suffix_order.trans)
  qed
qed

lemma trim_length: "length (trim s) \<le> length s"
proof -
  have "length (trim s) \<le> length (trim_start s)"
    using trim_start_of_suffix [of "map rev white_space" "rev (trim_start s)"]
    by (auto simp: trim_def trim_end_def dest: suffix_length_le)
  also have "\<dots> \<le> length s"
    using trim_start_of_suffix [of white_space s]
    by (auto simp: trim_start_def dest: suffix_length_le)
  finally show ?thesis .
qed

text \<open>General category Cc: bytes below 32, byte 127, and C2 followed by 80..9F.\<close>

fun has_control :: "string \<Rightarrow> bool" where
  "has_control [] = False"
| "has_control (c # s) =
     (code c < 32 \<or> code c = 127
      \<or> (code c = 194 \<and> (case s of [] \<Rightarrow> False | d # _ \<Rightarrow> 128 \<le> code d \<and> code d < 160))
      \<or> has_control s)"

subsection \<open>Numbers as text\<close>

definition digit_char :: "nat \<Rightarrow> char" where
  "digit_char d = char_of (if d < 10 then 48 + d else 87 + d)"

text \<open>\<open>radix_text b n\<close> is \<open>format!\<close> of an unsigned integer in base \<open>b\<close> (10: \<open>{}\<close>, 16: \<open>{:x}\<close>).\<close>

function radix_text :: "nat \<Rightarrow> nat \<Rightarrow> string" where
  "radix_text b n =
     (if b < 2 \<or> n < b then [digit_char n] else radix_text b (n div b) @ [digit_char (n mod b)])"
  by pat_completeness auto
termination
  by (relation "measure snd") auto

declare radix_text.simps [simp del]

definition dec :: "nat \<Rightarrow> string" where
  "dec n = radix_text 10 n"

definition hex :: "nat \<Rightarrow> string" where
  "hex n = radix_text 16 n"

definition dec_int :: "int \<Rightarrow> string" where
  "dec_int i = (if i < 0 then ''-'' @ dec (nat (- i)) else dec (nat i))"

text \<open>\<open>str::parse\<close> for unsigned integers: an optional plus sign, then one or more digits, with
  a bound check; for signed ones also a minus sign.\<close>

fun digits_val :: "nat \<Rightarrow> string \<Rightarrow> nat option" where
  "digits_val acc [] = Some acc"
| "digits_val acc (c # s) =
     (if is_ascii_digit c then digits_val (10 * acc + (code c - 48)) s else None)"

definition parse_digits :: "string \<Rightarrow> nat option" where
  "parse_digits s = (if s = [] then None else digits_val 0 s)"

definition strip_plus :: "string \<Rightarrow> string" where
  "strip_plus s = (case s of [] \<Rightarrow> [] | c # t \<Rightarrow> if c = CHR ''+'' then t else s)"

definition parse_unsigned :: "nat \<Rightarrow> string \<Rightarrow> nat option" where
  "parse_unsigned w s =
     (case parse_digits (strip_plus s) of
        None \<Rightarrow> None
      | Some n \<Rightarrow> if n < 2 ^ w then Some n else None)"

definition parse_signed :: "nat \<Rightarrow> string \<Rightarrow> int option" where
  "parse_signed w s =
     (case s of
        [] \<Rightarrow> None
      | c # t \<Rightarrow>
          (if c = CHR ''-'' then
             (case parse_digits t of
                None \<Rightarrow> None
              | Some n \<Rightarrow> if n \<le> 2 ^ (w - 1) then Some (- int n) else None)
           else
             (case parse_digits (strip_plus s) of
                None \<Rightarrow> None
              | Some n \<Rightarrow> if n < 2 ^ (w - 1) then Some (int n) else None)))"

lemma dec_step: "dec n = (if n < 10 then [digit_char n] else dec (n div 10) @ [digit_char (n mod 10)])"
  by (subst dec_def, subst radix_text.simps) (simp add: dec_def)

lemma dec_induct [case_names small large]:
  assumes "\<And>n. n < 10 \<Longrightarrow> P n" and "\<And>n. 10 \<le> n \<Longrightarrow> P (n div 10) \<Longrightarrow> P n"
  shows "P (n::nat)"
proof (induction n rule: less_induct)
  case (less n)
  then show ?case
    by (cases "n < 10") (auto intro: assms)
qed

lemma dec_nonempty [simp]: "dec n \<noteq> []"
  by (subst dec_step) simp

lemma digit_char_digit: "d < 10 \<Longrightarrow> is_ascii_digit (digit_char d)"
  by (simp add: digit_char_def is_ascii_digit_def)

lemma dec_digits: "c \<in> set (dec n) \<Longrightarrow> is_ascii_digit c"
proof (induction n rule: dec_induct)
  case (small n)
  then show ?case by (subst (asm) dec_step) (simp add: digit_char_digit)
next
  case (large n)
  then show ?case by (subst (asm) dec_step) (auto simp: digit_char_digit)
qed

lemma digits_val_append:
  "digits_val acc (s @ t) =
     (case digits_val acc s of None \<Rightarrow> None | Some a \<Rightarrow> digits_val a t)"
  by (induction s arbitrary: acc) auto

lemma digits_val_digit: "d < 10 \<Longrightarrow> digits_val acc [digit_char d] = Some (10 * acc + d)"
  by (simp add: digit_char_digit) (simp add: digit_char_def)

lemma digits_val_dec: "digits_val 0 (dec n) = Some n"
proof (induction n rule: dec_induct)
  case (small n)
  then show ?case by (simp add: dec_step [of n] digits_val_digit del: digits_val.simps)
next
  case (large n)
  then have "digits_val 0 (dec n) = Some (10 * (n div 10) + n mod 10)"
    by (simp add: dec_step [of n] digits_val_append digits_val_digit del: digits_val.simps)
  then show ?case by simp
qed

lemma strip_plus_dec [simp]: "strip_plus (dec n) = dec n"
proof -
  have "CHR ''+'' \<notin> set (dec n)"
    using dec_digits [of "CHR ''+''" n] by (auto simp: is_ascii_digit_def code_def)
  then show ?thesis
    by (cases "dec n") (auto simp: strip_plus_def)
qed

lemma parse_unsigned_dec: "n < 2 ^ w \<Longrightarrow> parse_unsigned w (dec n) = Some n"
  by (simp add: parse_unsigned_def parse_digits_def digits_val_dec)

lemma dec_inject: "dec m = dec n \<longleftrightarrow> m = n"
  by (metis digits_val_dec option.inject)

lemma dec_length_bound: "n < 10 ^ k \<Longrightarrow> 0 < k \<Longrightarrow> length (dec n) \<le> k"
proof (induction k arbitrary: n)
  case 0
  then show ?case by simp
next
  case (Suc k)
  show ?case
  proof (cases "n < 10")
    case True
    have "dec n = [digit_char n]"
      by (subst dec_step) (simp only: True if_True)
    then show ?thesis by simp
  next
    case False
    have "n < 10 ^ k * 10"
      using Suc.prems(1) by (simp only: power_Suc mult.commute)
    then have "n div 10 < 10 ^ k"
      by (rule less_mult_imp_div_less)
    moreover from this False have "0 < k"
      by (cases k) auto
    ultimately have "length (dec (n div 10)) \<le> k"
      by (rule Suc.IH)
    moreover have "dec n = dec (n div 10) @ [digit_char (n mod 10)]"
      by (subst dec_step) (simp only: False if_False)
    ultimately show ?thesis by simp
  qed
qed

subsection \<open>Splitting\<close>

text \<open>\<open>str::split\<close> on a one-byte separator: one piece more than separators.\<close>

fun split_on :: "char \<Rightarrow> string \<Rightarrow> string list" where
  "split_on d [] = [[]]"
| "split_on d (c # s) =
     (if c = d then [] # split_on d s
      else (case split_on d s of [] \<Rightarrow> [[c]] | p # ps \<Rightarrow> (c # p) # ps))"

text \<open>\<open>str::split_once\<close> and \<open>str::find\<close> by a pattern of bytes.\<close>

fun split_once :: "char \<Rightarrow> string \<Rightarrow> (string \<times> string) option" where
  "split_once d [] = None"
| "split_once d (c # s) =
     (if c = d then Some ([], s)
      else map_option (\<lambda>(a, b). (c # a, b)) (split_once d s))"

fun find_str :: "string \<Rightarrow> string \<Rightarrow> nat option" where
  "find_str pat [] = (if pat = [] then Some 0 else None)"
| "find_str pat (c # s) =
     (if prefix pat (c # s) then Some 0 else map_option Suc (find_str pat s))"

lemma split_on_no_sep: "d \<notin> set s \<Longrightarrow> split_on d s = [s]"
  by (induction s) auto

lemma split_on_append: "d \<notin> set s \<Longrightarrow> split_on d (s @ d # t) = s # split_on d t"
  by (induction s) auto

lemma split_once_Some:
  "split_once d s = Some (a, b) \<Longrightarrow> s = a @ d # b \<and> d \<notin> set a"
  by (induction s arbitrary: a) (auto split: if_splits)

lemma split_once_append: "d \<notin> set a \<Longrightarrow> split_once d (a @ d # b) = Some (a, b)"
  by (induction a) auto

lemma find_str_Some: "find_str pat s = Some i \<Longrightarrow> prefix pat (drop i s) \<and> i \<le> length s"
  by (induction s arbitrary: i) (auto split: if_splits)

end
