(* ===== verification/Decode.thy ===== *)
theory Decode
  imports Utf8
begin

unbundle bit_operations_syntax

text \<open>
  \<open>crates/netlane-capture/src/decode.rs\<close> and the timestamp and preview functions of its
  \<open>lib.rs\<close>: the summary of one captured frame. Texts outside ASCII are written as their UTF-8
  bytes. The display of IPv4 and IPv6 addresses is that of Rust's standard library.
\<close>

subsection \<open>Timestamps and previews\<close>

record timestamp =
  ticks :: nat
  ts_resolution :: u8
  ts_offset :: int

text \<open>The denominator is \<open>None\<close> exactly when a power of ten leaves \<open>u128\<close>.\<close>

definition ts_denominator :: "u8 \<Rightarrow> nat option" where
  "ts_denominator r =
     (let exponent = unat (r AND 0x7f) in
      if r AND 0x80 = 0 then (if (10::nat) ^ exponent < 2 ^ 128 then Some (10 ^ exponent) else None)
      else Some (2 ^ exponent))"

definition unix_nanos :: "timestamp \<Rightarrow> int" where
  "unix_nanos t =
     (let nanos = (case ts_denominator (ts_resolution t) of
                     None \<Rightarrow> 0 | Some d \<Rightarrow> ticks t * 1000000000 div d) in
      ts_offset t * 1000000000 + int nanos)"

definition pad_left :: "nat \<Rightarrow> string \<Rightarrow> string" where
  "pad_left n s = replicate (n - length s) (CHR ''0'') @ s"

definition clock_label :: "timestamp \<Rightarrow> string" where
  "clock_label t =
     (let nanos = unix_nanos t; seconds = nat ((nanos div 1000000000) mod 86400) in
      pad_left 2 (dec (seconds div 3600)) @ '':'' @ pad_left 2 (dec (seconds div 60 mod 60)) @ '':''
        @ pad_left 2 (dec (seconds mod 60)) @ ''.''
        @ pad_left 6 (dec (nat (nanos mod 1000000000) div 1000)))"

definition printable :: "u8 \<Rightarrow> char" where
  "printable b = (if 32 \<le> unat b \<and> unat b < 127 then char_of (unat b) else CHR ''.'')"

fun chunks_of :: "nat \<Rightarrow> 'a list \<Rightarrow> 'a list list" where
  "chunks_of n [] = []"
| "chunks_of n (x # xs) =
     (if n = 0 then [] else (x # take (n - 1) xs) # chunks_of n (drop (n - 1) xs))"

definition hex_row :: "nat \<Rightarrow> u8 list \<Rightarrow> string" where
  "hex_row row bytes =
     pad_left 4 (hex (row * 16)) @ ''  ''
       @ concat (map (\<lambda>i. if i < length bytes then pad_left 2 (hex (unat (bytes ! i))) @ '' ''
                          else ''   '') [0..<16])
       @ '' '' @ map printable bytes @ [CHR 0x0A]"

definition hex_preview :: "u8 list \<Rightarrow> string" where
  "hex_preview bytes =
     concat (map (\<lambda>(row, c). hex_row row c) (enumerate 0 (chunks_of 16 (take 256 bytes))))
       @ (if 256 < length bytes then (byte_string [226, 128, 166] @ '' pr'' @ byte_string [195, 169] @ ''via limitada a 256 bytes'') @ [CHR 0x0A] else [])"

subsection \<open>Addresses\<close>

definition byte_at :: "u8 list \<Rightarrow> nat \<Rightarrow> nat" where
  "byte_at bytes i = unat (bytes ! i)"

text \<open>\<open>word\<close>: a big-endian \<open>u16\<close> inside the slice.\<close>

definition word_at :: "u8 list \<Rightarrow> nat \<Rightarrow> nat option" where
  "word_at bytes offset =
     (if offset + 2 \<le> length bytes then Some (be_val (take 2 (drop offset bytes))) else None)"

definition ipv4_text :: "u8 list \<Rightarrow> string" where
  "ipv4_text b =
     dec (byte_at b 0) @ ''.'' @ dec (byte_at b 1) @ ''.'' @ dec (byte_at b 2) @ ''.'' @ dec (byte_at b 3)"

definition segments :: "u8 list \<Rightarrow> nat list" where
  "segments b = map (\<lambda>i. 256 * byte_at b (2 * i) + byte_at b (2 * i + 1)) [0..<8]"

text \<open>The scan of \<open>Ipv6Addr::fmt\<close> for the first longest run of zero segments, as
  \<open>(start, len)\<close>.\<close>

fun zero_scan :: "nat \<Rightarrow> nat list \<Rightarrow> nat \<times> nat \<Rightarrow> nat \<times> nat \<Rightarrow> nat \<times> nat" where
  "zero_scan i [] longest current = longest"
| "zero_scan i (s # ss) longest current =
     (if s = 0 then
        (let current' = (if snd current = 0 then i else fst current, snd current + 1);
             longest' = (if snd longest < snd current' then current' else longest)
         in zero_scan (i + 1) ss longest' current')
      else zero_scan (i + 1) ss longest (0, 0))"

fun hex_groups :: "nat list \<Rightarrow> string" where
  "hex_groups [] = []"
| "hex_groups [s] = hex s"
| "hex_groups (s # ss) = hex s @ '':'' @ hex_groups ss"

definition ipv6_text :: "u8 list \<Rightarrow> string" where
  "ipv6_text b =
     (let segs = segments b in
      if take 5 segs = [0, 0, 0, 0, 0] \<and> segs ! 5 = 0xffff
      then ''::ffff:'' @ ipv4_text (drop 12 b)
      else (case zero_scan 0 segs (0, 0) (0, 0) of
        (start, len) \<Rightarrow>
          if 1 < len then hex_groups (take start segs) @ ''::'' @ hex_groups (drop (start + len) segs)
          else hex_groups segs))"

subsection \<open>The summary of a frame\<close>

record summary =
  protocol :: string
  source :: string
  destination :: string
  info :: string
  service :: string
  payload :: "(nat \<times> nat) option"

definition dash :: string where
  "dash = byte_string [226, 128, 148]"

definition raw_preview :: "summary \<Rightarrow> u8 list \<Rightarrow> string" where
  "raw_preview s bytes =
     (case payload s of
        None \<Rightarrow> []
      | Some (start, finish) \<Rightarrow>
          (let last = min finish (length bytes) in
           if start \<le> last then map printable (take 96 (take (last - start) (drop start bytes))) else []))"

definition service_of :: "nat \<Rightarrow> string" where
  "service_of port =
     (if port = 22 then ''ssh'' else if port = 25 then ''smtp'' else if port = 53 then ''dns''
      else if port = 67 \<or> port = 68 then ''dhcp'' else if port = 80 then ''http''
      else if port = 123 then ''ntp'' else if port = 443 then ''https'' else if port = 445 then ''smb''
      else if port = 3389 then ''rdp'' else dash)"

definition undecoded :: "nat \<Rightarrow> summary" where
  "undecoded link =
     \<lparr>protocol = ''OUTRO'', source = dash, destination = dash,
      info = ''Enlace '' @ dec link @ ('' '' @ byte_string [194, 183] @ '' sem decodifica'' @ byte_string [195, 167, 195, 163] @ ''o''), service = dash, payload = None\<rparr>"

text \<open>Up to four VLAN tags; \<open>None\<close> is a truncated one.\<close>

fun skip_vlan :: "nat \<Rightarrow> u8 list \<Rightarrow> nat \<Rightarrow> nat \<Rightarrow> (nat \<times> nat) option" where
  "skip_vlan 0 bytes pos kind = Some (pos, kind)"
| "skip_vlan (Suc n) bytes pos kind =
     (if kind \<notin> {0x8100, 0x88a8, 0x9100} then Some (pos, kind)
      else (case word_at bytes (pos + 2) of
          None \<Rightarrow> None
        | Some next \<Rightarrow> skip_vlan n bytes (pos + 4) next))"

datatype link_result = Undecoded | Vlan_truncated | Network nat nat

definition ip_kind_of_family :: "nat \<Rightarrow> nat \<Rightarrow> nat" where
  "ip_kind_of_family le be =
     (if le = 2 \<or> be = 2 then 0x0800
      else if le \<in> {23, 24, 28, 30} \<or> be \<in> {23, 24, 28, 30} then 0x86dd else 0)"

definition link_layer :: "u8 list \<Rightarrow> nat \<Rightarrow> link_result" where
  "link_layer bytes link =
     (if link = 1 \<and> 14 \<le> length bytes then
        (case skip_vlan 4 bytes 14 (the (word_at bytes 12)) of
           None \<Rightarrow> Vlan_truncated | Some (pos, kind) \<Rightarrow> Network pos kind)
      else if link = 113 \<and> 16 \<le> length bytes then Network 16 (the (word_at bytes 14))
      else if link = 276 \<and> 20 \<le> length bytes then Network 20 (the (word_at bytes 0))
      else if link \<in> {0, 108} \<and> 4 \<le> length bytes then
        Network 4 (ip_kind_of_family (le_val (take 4 bytes)) (be_val (take 4 bytes)))
      else if link \<in> {12, 101, 228, 229} \<and> bytes \<noteq> [] then
        Network 0 (if byte_at bytes 0 div 16 = 4 then 0x0800
                   else if byte_at bytes 0 div 16 = 6 then 0x86dd else 0)
      else Undecoded)"

text \<open>
  The network layer: either the summary returned early, or what the transport layer needs: the
  summary so far, the protocol number, the transport bytes, whether IPv6, whether truncated, the
  offset of the transport bytes in the frame, and whether the length came from send offload.
\<close>

record network =
  net_summary :: summary
  net_protocol :: nat
  net_transport :: "u8 list"
  net_ipv6 :: bool
  net_truncated :: bool
  net_offset :: nat
  net_offloaded :: bool

definition ipv4_layer :: "u8 list \<Rightarrow> nat \<Rightarrow> summary \<Rightarrow> summary + network" where
  "ipv4_layer ip offset s0 =
     (let s = s0\<lparr>protocol := ''IPv4'', source := ipv4_text (take 4 (drop 12 ip)),
                 destination := ipv4_text (take 4 (drop 16 ip))\<rparr>;
          header = byte_at ip 0 mod 16 * 4;
          stated = the (word_at ip 2);
          total = (if stated = 0 then length ip else stated) in
      if header < 20 \<or> total < header \<or> length ip < header
      then Inl (s\<lparr>info := (''Cabe'' @ byte_string [195, 167] @ ''alho IPv4 inv'' @ byte_string [195, 161] @ ''lido/truncado'')\<rparr>)
      else if the (word_at ip 6) mod 0x4000 \<noteq> 0
      then Inl (s\<lparr>info := (''Fragmento IPv4 '' @ byte_string [194, 183] @ '' sem remontagem'')\<rparr>)
      else Inr \<lparr>net_summary = s, net_protocol = byte_at ip 9,
                net_transport = drop header (take (min total (length ip)) ip), net_ipv6 = False,
                net_truncated = length ip < total, net_offset = offset + header,
                net_offloaded = (stated = 0)\<rparr>)"

datatype extension_result = Fragment | Extension_truncated | Extensions_end nat nat

definition extension_numbers :: "nat set" where
  "extension_numbers = {0, 43, 60, 51}"

fun skip_extensions :: "nat \<Rightarrow> u8 list \<Rightarrow> nat \<Rightarrow> nat \<Rightarrow> nat \<Rightarrow> extension_result" where
  "skip_extensions 0 ip finish next pos = Extensions_end next pos"
| "skip_extensions (Suc n) ip finish next pos =
     (if next = 44 then Fragment
      else if next \<notin> extension_numbers then Extensions_end next pos
      else if finish < pos + 2 then Extension_truncated
      else
        (let len = (if next = 51 then (byte_at ip (pos + 1) + 2) * 4
                    else (byte_at ip (pos + 1) + 1) * 8) in
         if finish < pos + len then Extension_truncated
         else skip_extensions n ip finish (byte_at ip pos) (pos + len)))"

definition ipv6_layer :: "u8 list \<Rightarrow> nat \<Rightarrow> summary \<Rightarrow> summary + network" where
  "ipv6_layer ip offset s0 =
     (let s = s0\<lparr>protocol := ''IPv6'', source := ipv6_text (take 16 (drop 8 ip)),
                 destination := ipv6_text (take 16 (drop 24 ip))\<rparr>;
          total = 40 + the (word_at ip 4);
          finish = min total (length ip) in
      case skip_extensions 8 ip finish (byte_at ip 6) 40 of
        Fragment \<Rightarrow> Inl (s\<lparr>info := (''Fragmento IPv6 '' @ byte_string [194, 183] @ '' sem remontagem'')\<rparr>)
      | Extension_truncated \<Rightarrow> Inl (s\<lparr>info := (''Extens'' @ byte_string [195, 163] @ ''o IPv6 truncada'')\<rparr>)
      | Extensions_end next pos \<Rightarrow>
          if next \<in> extension_numbers \<or> next = 44
          then Inl (s\<lparr>info := (''Extens'' @ byte_string [195, 181] @ ''es IPv6 al'' @ byte_string [195, 169] @ ''m do limite'')\<rparr>)
          else Inr \<lparr>net_summary = s, net_protocol = next, net_transport = drop pos (take finish ip),
                    net_ipv6 = True, net_truncated = length ip < total, net_offset = offset + pos,
                    net_offloaded = False\<rparr>)"

definition tcp_flag_names :: "(u8 \<times> string) list" where
  "tcp_flag_names = [(0x02, ''SYN''), (0x10, ''ACK''), (0x01, ''FIN''), (0x04, ''RST''),
     (0x08, ''PSH''), (0x20, ''URG''), (0x40, ''ECE''), (0x80, ''CWR'')]"

definition tcp_labels :: "u8 \<Rightarrow> string list" where
  "tcp_labels flags = map snd (filter (\<lambda>(bit, _). flags AND bit \<noteq> 0) tcp_flag_names)"

fun join :: "string \<Rightarrow> string list \<Rightarrow> string" where
  "join sep [] = []"
| "join sep [x] = x"
| "join sep (x # xs) = x @ sep @ join sep xs"

definition dot_sep :: string where
  "dot_sep = ('' '' @ byte_string [194, 183] @ '' '')"

definition truncated_text :: "bool \<Rightarrow> string" where
  "truncated_text b = (if b then dot_sep @ ''truncado'' else [])"

definition tcp_layer :: "network \<Rightarrow> summary \<Rightarrow> summary option" where
  "tcp_layer n s =
     (let t = net_transport n; header = byte_at t 12 div 16 * 4 in
      if header < 20 \<or> length t < header then None
      else Some (s\<lparr>payload := Some (net_offset n + header, net_offset n + length t),
        info := join '' '' (tcp_labels (t ! 13)) @ dot_sep @ dec (length t - header)
                  @ '' bytes de dados'' @ truncated_text (net_truncated n)\<rparr>))"

definition udp_layer :: "network \<Rightarrow> nat \<Rightarrow> nat \<Rightarrow> summary \<Rightarrow> summary" where
  "udp_layer n sport dport s =
     (let t = net_transport n; len = the (word_at t 4) in
      s\<lparr>payload := (if 8 \<le> len then Some (net_offset n + 8, net_offset n + min len (length t))
                    else payload s),
        info := (if len < 8 then (''Comprimento UDP inv'' @ byte_string [195, 161] @ ''lido'')
                 else ''UDP'' @ dot_sep @ dec (len - 8) @ '' bytes''
                   @ truncated_text (length t < len \<or> net_truncated n))
                @ (if sport = 53 \<or> dport = 53 then ('' '' @ byte_string [194, 183] @ '' porta DNS (estimativa)'') else [])\<rparr>)"

definition endpoint_of :: "bool \<Rightarrow> string \<Rightarrow> nat \<Rightarrow> string" where
  "endpoint_of ipv6 address port =
     (if ipv6 then ''['' @ address @ '']:'' @ dec port else address @ '':'' @ dec port)"

definition transport_layer :: "network \<Rightarrow> summary" where
  "transport_layer n =
     (let p = net_protocol n;
          s1 = (net_summary n)
            \<lparr>protocol := (if p = 6 then ''TCP'' else if p = 17 then ''UDP'' else if p = 1 then ''ICMP''
                         else if p = 58 then ''ICMPv6'' else protocol (net_summary n)),
             info := (if net_truncated n then ''Pacote IP truncado'' else ''Protocolo IP '' @ dec p)\<rparr>;
          t = net_transport n in
      if p \<notin> {6, 17} then s1
      else if length t < (if p = 6 then 20 else 8)
      then s1\<lparr>info := (''Cabe'' @ byte_string [195, 167] @ ''alho de transporte truncado'')\<rparr>
      else
        (let sport = the (word_at t 0);
             dport = the (word_at t 2);
             s2 = s1\<lparr>service := (if service_of dport = dash then service_of sport else service_of dport),
                     source := endpoint_of (net_ipv6 n) (source s1) sport,
                     destination := endpoint_of (net_ipv6 n) (destination s1) dport\<rparr>;
             offload = (\<lambda>s. if net_offloaded n
               then s\<lparr>info := info s @ ('' '' @ byte_string [194, 183] @ '' comprimento IP 0, prov'' @ byte_string [195, 161] @ ''vel segmenta'' @ byte_string [195, 167, 195, 163] @ ''o na placa (TSO)'')\<rparr>
               else s) in
         if p = 6 then
           (case tcp_layer n s2 of
              None \<Rightarrow> s2\<lparr>info := (''Cabe'' @ byte_string [195, 167] @ ''alho TCP inv'' @ byte_string [195, 161] @ ''lido/truncado'')\<rparr>
            | Some s3 \<Rightarrow> offload s3)
         else offload (udp_layer n sport dport s2)))"

definition summarize :: "u8 list \<Rightarrow> nat \<Rightarrow> summary" where
  "summarize bytes link =
     (case link_layer bytes link of
        Undecoded \<Rightarrow> undecoded link
      | Vlan_truncated \<Rightarrow> (undecoded link)\<lparr>info := ''VLAN truncada''\<rparr>
      | Network offset kind \<Rightarrow>
          if length bytes < offset then undecoded link
          else
            (let ip = drop offset bytes; s = undecoded link in
             if kind = 0x0806 then s\<lparr>protocol := ''ARP'', info := ''ARP''\<rparr>
             else if kind = 0x0800 \<and> 20 \<le> length ip \<and> byte_at ip 0 div 16 = 4
             then (case ipv4_layer ip offset s of Inl r \<Rightarrow> r | Inr n \<Rightarrow> transport_layer n)
             else if kind = 0x86dd \<and> 40 \<le> length ip \<and> byte_at ip 0 div 16 = 6
             then (case ipv6_layer ip offset s of Inl r \<Rightarrow> r | Inr n \<Rightarrow> transport_layer n)
             else s))"

subsection \<open>Ranges\<close>

text \<open>The transport bytes are where the offset says they are, inside the frame.\<close>

definition located :: "u8 list \<Rightarrow> network \<Rightarrow> bool" where
  "located bytes n \<longleftrightarrow>
     net_offset n + length (net_transport n) \<le> length bytes \<and>
     net_transport n = take (length (net_transport n)) (drop (net_offset n) bytes) \<and>
     payload (net_summary n) = None"

lemma undecoded_payload [simp]: "payload (undecoded link) = None"
  by (simp add: undecoded_def)

lemma located_slice:
  assumes "off \<le> length bytes" "ip = drop off bytes" "pos \<le> finish" "finish \<le> length ip"
    and "net_transport n = drop pos (take finish ip)" "net_offset n = off + pos"
    and "payload (net_summary n) = None"
  shows "located bytes n"
  using assms by (auto simp: located_def drop_take drop_drop ac_simps)

lemma ipv4_located:
  assumes "ipv4_layer ip off s = Inr n" "ip = drop off bytes" "off \<le> length bytes" "payload s = None"
  shows "located bytes n"
  using assms(1)
  by (intro located_slice [OF assms(3,2), where pos = "byte_at ip 0 mod 16 * 4"
        and finish = "min (if the (word_at ip 2) = 0 then length ip else the (word_at ip 2)) (length ip)"])
     (auto simp: ipv4_layer_def Let_def assms(4) split: if_splits)

lemma skip_extensions_pos:
  "skip_extensions n ip finish next pos = Extensions_end next' pos' \<Longrightarrow> pos \<le> finish \<Longrightarrow>
     pos \<le> pos' \<and> pos' \<le> finish"
  by (induction n ip finish "next" pos rule: skip_extensions.induct)
     (fastforce simp: Let_def split: if_splits)+

lemma ipv6_located:
  assumes "ipv6_layer ip off s = Inr n" "ip = drop off bytes" "off \<le> length bytes" "payload s = None"
    and "40 \<le> length ip"
  shows "located bytes n"
proof -
  define finish where "finish = min (40 + the (word_at ip 4)) (length ip)"
  obtain nx pos where e: "skip_extensions 8 ip finish (byte_at ip 6) 40 = Extensions_end nx pos"
    using assms(1)
    by (cases "skip_extensions 8 ip finish (byte_at ip 6) 40")
       (auto simp: ipv6_layer_def Let_def finish_def)
  have "pos \<le> finish"
    using skip_extensions_pos [OF e] assms(5) by (simp add: finish_def)
  moreover have "net_transport n = drop pos (take finish ip)" "net_offset n = off + pos"
      "payload (net_summary n) = None"
    using assms(1,4) e by (auto simp: ipv6_layer_def Let_def finish_def split: if_splits)
  ultimately show ?thesis
    by (intro located_slice [OF assms(3,2)]) (simp_all add: finish_def)
qed

definition in_range :: "nat \<Rightarrow> summary \<Rightarrow> bool" where
  "in_range n s = (case payload s of None \<Rightarrow> True | Some (a, b) \<Rightarrow> a \<le> b \<and> b \<le> n)"

lemma transport_in_range:
  assumes "located bytes n"
  shows "in_range (length bytes) (transport_layer n)"
  using assms
  by (auto simp: in_range_def transport_layer_def tcp_layer_def udp_layer_def located_def Let_def
      split: option.splits if_splits)

lemma in_range_None: "payload s = None \<Longrightarrow> in_range n s"
  by (simp add: in_range_def)

lemma early_payload:
  "ipv4_layer ip off s = Inl r \<Longrightarrow> payload r = payload s"
  "ipv6_layer ip off s = Inl r \<Longrightarrow> payload r = payload s"
  by (auto simp: ipv4_layer_def ipv6_layer_def Let_def split: if_splits extension_result.splits)

text \<open>C33: whatever the frame and the link type, the payload range of a summary lies inside the
  captured bytes, so the preview of the payload never fails.\<close>

theorem summarize_payload_in_range:
  "in_range (length bytes) (summarize bytes link)"
proof (cases "link_layer bytes link")
  case (Network off kind)
  let ?ip = "drop off bytes" and ?s = "undecoded link"
  have 4: "in_range (length bytes)
      (case ipv4_layer ?ip off ?s of Inl r \<Rightarrow> r | Inr n \<Rightarrow> transport_layer n)" if "off \<le> length bytes"
    using early_payload(1) [of ?ip off ?s] ipv4_located [of ?ip off ?s _ bytes] that
    by (cases "ipv4_layer ?ip off ?s") (auto intro: transport_in_range in_range_None)
  have 6: "in_range (length bytes)
      (case ipv6_layer ?ip off ?s of Inl r \<Rightarrow> r | Inr n \<Rightarrow> transport_layer n)"
    if "off \<le> length bytes" "40 \<le> length ?ip"
    using early_payload(2) [of ?ip off ?s] ipv6_located [of ?ip off ?s _ bytes] that
    by (cases "ipv6_layer ?ip off ?s") (auto intro: transport_in_range in_range_None)
  from Network 4 6 show ?thesis
    by (auto simp: summarize_def Let_def intro: in_range_None)
qed (simp_all add: summarize_def in_range_def)

end
