(* ===== verification/Chars.thy ===== *)
theory Chars
  imports Prelude
begin

text \<open>
  Unicode scalar values (Rust's \<open>char\<close>) and their UTF-8 encoding, with the lossy decoder of the
  standard library (\<open>String::from_utf8_lossy\<close>): every maximal ill-formed prefix becomes one
  U+FFFD. A byte is a natural number below 256 here. Names read from a capture file are
  lists of scalar values.
\<close>

definition is_scalar :: "nat \<Rightarrow> bool" where
  "is_scalar c \<longleftrightarrow> c < 0xD800 \<or> (0xE000 \<le> c \<and> c < 0x110000)"

definition utf8_char :: "nat \<Rightarrow> nat list" where
  "utf8_char c =
     (if c < 0x80 then [c]
      else if c < 0x800 then [192 + c div 64, 128 + c mod 64]
      else if c < 0x10000 then [224 + c div 4096, 128 + c div 64 mod 64, 128 + c mod 64]
      else [240 + c div 262144, 128 + c div 4096 mod 64, 128 + c div 64 mod 64, 128 + c mod 64])"

definition utf8_bytes :: "nat list \<Rightarrow> nat list" where
  "utf8_bytes cs = concat (map utf8_char cs)"

text \<open>\<open>safe_get\<close>: zero beyond the end.\<close>

definition peek :: "nat \<Rightarrow> nat list \<Rightarrow> nat" where
  "peek i bs = (if i < length bs then bs ! i else 0)"

definition is_cont :: "nat \<Rightarrow> bool" where
  "is_cont b \<longleftrightarrow> 128 \<le> b \<and> b < 192"

definition second_of_3 :: "nat \<Rightarrow> nat \<Rightarrow> bool" where
  "second_of_3 b s \<longleftrightarrow>
     (if b = 0xE0 then 0xA0 \<le> s \<and> s < 192 else if b = 0xED then 128 \<le> s \<and> s < 0xA0 else is_cont s)"

definition second_of_4 :: "nat \<Rightarrow> nat \<Rightarrow> bool" where
  "second_of_4 b s \<longleftrightarrow>
     (if b = 0xF0 then 0x90 \<le> s \<and> s < 192 else if b = 0xF4 then 128 \<le> s \<and> s < 0x90 else is_cont s)"

abbreviation replacement :: nat where
  "replacement \<equiv> 0xFFFD"

fun decode_lossy :: "nat list \<Rightarrow> nat list" where
  "decode_lossy [] = []"
| "decode_lossy (b # bs) =
     (if b < 128 then b # decode_lossy bs
      else if 0xC2 \<le> b \<and> b < 0xE0 then
        (if is_cont (peek 0 bs)
         then ((b - 192) * 64 + (peek 0 bs - 128)) # decode_lossy (drop 1 bs)
         else replacement # decode_lossy bs)
      else if 0xE0 \<le> b \<and> b < 0xF0 then
        (if \<not> second_of_3 b (peek 0 bs) then replacement # decode_lossy bs
         else if \<not> is_cont (peek 1 bs) then replacement # decode_lossy (drop 1 bs)
         else ((b - 224) * 4096 + (peek 0 bs - 128) * 64 + (peek 1 bs - 128))
                # decode_lossy (drop 2 bs))
      else if 0xF0 \<le> b \<and> b < 0xF5 then
        (if \<not> second_of_4 b (peek 0 bs) then replacement # decode_lossy bs
         else if \<not> is_cont (peek 1 bs) then replacement # decode_lossy (drop 1 bs)
         else if \<not> is_cont (peek 2 bs) then replacement # decode_lossy (drop 2 bs)
         else ((b - 240) * 262144 + (peek 0 bs - 128) * 4096 + (peek 1 bs - 128) * 64
                 + (peek 2 bs - 128)) # decode_lossy (drop 3 bs))
      else replacement # decode_lossy bs)"

declare decode_lossy.simps(2) [simp del]

text \<open>\<open>char::is_control\<close>, and the bidirectional overrides and isolates the reader drops.\<close>

definition is_control :: "nat \<Rightarrow> bool" where
  "is_control c \<longleftrightarrow> c < 32 \<or> (127 \<le> c \<and> c < 160)"

definition is_bidi :: "nat \<Rightarrow> bool" where
  "is_bidi c \<longleftrightarrow> (0x202a \<le> c \<and> c \<le> 0x202e) \<or> (0x2066 \<le> c \<and> c \<le> 0x2069)"

subsection \<open>Decoding what was encoded\<close>

lemma peek_simps [simp]:
  "peek 0 (b # bs) = b" "peek (Suc i) (b # bs) = peek i bs" "peek 1 (b # c # bs) = c"
  "peek 2 (b # c # d # bs) = d"
  by (auto simp: peek_def)

lemma decode_lossy_char:
  assumes "is_scalar c"
  shows "decode_lossy (utf8_char c @ rest) = c # decode_lossy rest"
proof -
  define q r s where d: "q = c div 4096" "r = c div 64 mod 64" "s = c mod 64"
  have "c = c div 64 * 64 + s" "c div 64 = c div 64 div 64 * 64 + r" "c div 64 div 64 = q"
    by (simp_all add: d div_mult2_eq [of c 64 64, simplified])
  then have "c = 4096 * q + 64 * r + s"
    by linarith
  moreover have "r < 64" "s < 64"
    by (simp_all add: d)
  ultimately have c: "c = 4096 * q + 64 * r + s" "r < 64" "s < 64" .
  consider "c < 0x80" | "0x80 \<le> c" "c < 0x800" | "0x800 \<le> c" "c < 0x10000" | "0x10000 \<le> c"
    by linarith
  then show ?thesis
  proof cases
    case 1
    then show ?thesis by (simp add: utf8_char_def decode_lossy.simps)
  next
    case 2
    define a where a: "a = c div 64"
    have b: "a < 32" "2 \<le> a" "a * 64 + s = c"
      using 2 by (auto simp: a d)
    have "utf8_char c = [192 + a, 128 + s]"
      using 2 by (simp add: utf8_char_def d a)
    then show ?thesis
      using b c(3) by (simp add: decode_lossy.simps is_cont_def)
  next
    case 3
    have q: "q < 16" "q = 0 \<longrightarrow> 32 \<le> r" "q = 13 \<longrightarrow> r < 32"
      using 3 c assms by (auto simp: is_scalar_def)
    have u: "utf8_char c = [224 + q, 128 + r, 128 + s]"
      using 3 by (simp add: utf8_char_def d)
    have s2: "second_of_3 (224 + q) (128 + r)"
      using q c by (auto simp: second_of_3_def is_cont_def)
    have v: "q * 4096 + r * 64 + s = c"
      using c by simp
    show ?thesis
      using q c(2,3) s2 v by (simp add: u decode_lossy.simps is_cont_def)
  next
    case 4
    define p t where e: "p = q div 64" "t = q mod 64"
    have pq: "q = 64 * p + t" "t < 64" by (simp_all add: e)
    have p: "p < 5" "p = 0 \<longrightarrow> 16 \<le> t" "p = 4 \<longrightarrow> t < 16"
      using 4 c pq assms by (auto simp: is_scalar_def)
    have "c div 262144 = p"
      by (simp add: e d div_mult2_eq [of c 4096 64, simplified])
    then have u: "utf8_char c = [240 + p, 128 + t, 128 + r, 128 + s]"
      using 4 by (simp add: utf8_char_def d e)
    have s2: "second_of_4 (240 + p) (128 + t)"
      using p pq by (auto simp: second_of_4_def is_cont_def)
    have v: "p * 262144 + t * 4096 + r * 64 + s = c"
      using c pq by simp
    show ?thesis
      using p pq(2) c(2,3) s2 v by (simp add: u decode_lossy.simps is_cont_def)
  qed
qed

lemma decode_utf8_bytes:
  "list_all is_scalar cs \<Longrightarrow> decode_lossy (utf8_bytes cs) = cs"
  by (induction cs) (simp_all add: utf8_bytes_def decode_lossy_char)

lemma utf8_char_bytes: "is_scalar c \<Longrightarrow> list_all (\<lambda>b. b < 256) (utf8_char c)"
proof -
  assume "is_scalar c"
  then have "c < 0x110000" by (auto simp: is_scalar_def)
  then have "c div 262144 < 16" "c < 0x10000 \<Longrightarrow> c div 4096 < 16" "c < 0x800 \<Longrightarrow> c div 64 < 32"
    by auto
  moreover have "c div 4096 mod 64 < 64" "c div 64 mod 64 < 64" "c mod 64 < 64"
    by simp_all
  ultimately show ?thesis
    by (auto simp: utf8_char_def)
qed

lemma utf8_bytes_range: "list_all is_scalar cs \<Longrightarrow> list_all (\<lambda>b. b < 256) (utf8_bytes cs)"
  by (induction cs) (auto simp: utf8_bytes_def dest: utf8_char_bytes)

lemma utf8_char_length: "length (utf8_char c) \<le> 4"
  by (simp add: utf8_char_def)

lemma utf8_bytes_length: "length (utf8_bytes cs) \<le> 4 * length cs"
  by (induction cs) (auto simp: utf8_bytes_def intro: order_trans [OF add_mono [OF utf8_char_length]])

end
