(* ===== verification/Reader.thy ===== *)
theory Reader
  imports Decode Chars
begin

text \<open>
  \<open>crates/netlane-capture/src/reader.rs\<close>: the bounded reader of PCAP and PCAPNG files. The source
  of bytes is any \<open>Read\<close>: the bytes it still holds, and in the environment a bound on what one call
  at a given position returns, and whether the cancel flag is seen by the call at that position.
  The sink is a pair of callbacks over a state of its own. SHA-256 is the parameter \<open>sha\<close>,
  applied to the bytes consumed. A \<open>context\<close> of an I/O error is a constructor around it.
\<close>

subsection \<open>Data\<close>

definition max_file_bytes :: nat where "max_file_bytes = 128 * 1024 * 1024"
definition max_packet_bytes :: nat where "max_packet_bytes = 1024 * 1024"
definition max_block_bytes :: nat where "max_block_bytes = 4 * 1024 * 1024"
definition max_retained_bytes :: nat where "max_retained_bytes = 32 * 1024 * 1024"
definition max_packets :: nat where "max_packets = 50000"
definition max_interfaces :: nat where "max_interfaces = 1024"

datatype capture_format = Pcap | PcapNg

record capture_interface =
  if_section :: nat
  if_section_id :: nat
  if_link :: nat
  if_snaplen :: nat
  if_name :: "nat list"
  if_resolution :: u8
  if_offset :: int

record packet =
  p_number :: nat
  p_file_offset :: nat
  p_interface :: nat
  p_timestamp :: "timestamp option"
  p_original :: nat
  p_captured :: nat
  p_bytes :: "u8 list"

record capture_file =
  cf_format :: capture_format
  cf_sha256 :: string
  cf_file_bytes :: nat
  cf_interfaces :: "capture_interface list"
  cf_packets :: "packet list"
  cf_total :: nat
  cf_omitted :: nat
  cf_truncated :: nat
  cf_auxiliary :: nat
  cf_retained :: nat

definition capture_limited :: "capture_file \<Rightarrow> bool" where
  "capture_limited c \<longleftrightarrow> cf_omitted c \<noteq> 0"

datatype io_failure = Cancelled | Read_limit | Unexpected_eof

datatype reader_error =
    Io io_failure
  | File_truncated io_failure
  | Header_truncated io_failure
  | Data_truncated io_failure
  | Record_too_long
  | Too_many_records
  | Not_a_capture
  | Pcap_version
  | Pcap_snaplen
  | Pcap_reserved_bits
  | Pcap_record_invalid
  | Option_header_truncated
  | Option_end_invalid
  | Option_value_truncated
  | Too_many_blocks
  | Section_length_mismatch
  | Byte_order_invalid
  | Block_length_invalid
  | Block_beyond_section
  | Block_trailer_mismatch
  | Section_header_invalid
  | Section_length_invalid
  | Section_too_long
  | Too_many_sections
  | Interface_invalid
  | Option_repeated
  | Resolution_invalid
  | Offset_invalid
  | Packet_header_truncated
  | Packet_interface_missing
  | Packet_length_invalid
  | Packet_data_truncated
  | Simple_packet_truncated
  | Simple_packet_without_interface
  | Simple_packet_length
  | Section_truncated
  | Sink_interval_overflow
  | Not_regular
  | Capture_too_large
  | Capture_changed

record limits =
  l_bytes :: nat
  l_records :: nat
  l_retain :: bool

record 's reader_env =
  env_cancel :: "nat \<Rightarrow> bool"
  env_chunk :: "nat \<Rightarrow> nat"
  env_limits :: limits
  env_packet :: "packet \<Rightarrow> capture_interface \<Rightarrow> 's \<Rightarrow> reader_error + 's"
  env_progress :: "nat \<Rightarrow> 's \<Rightarrow> 's"

record 's input =
  unread :: "u8 list"
  in_count :: nat
  in_sink :: 's

subsection \<open>Input\<close>

text \<open>One call of \<open>Input::read\<close> for \<open>n\<close> bytes.\<close>

definition read_once ::
    "'s reader_env \<Rightarrow> nat \<Rightarrow> 's input \<Rightarrow> io_failure + u8 list \<times> 's input" where
  "read_once env n inp =
     (if env_cancel env (in_count inp) then Inl Cancelled
      else
        (let allowed = min n (l_bytes (env_limits env) - in_count inp + 1);
             k = min allowed (min (length (unread inp)) (Suc (env_chunk env (in_count inp))));
             c = in_count inp + k in
         if l_bytes (env_limits env) < c then Inl Read_limit
         else Inr (take k (unread inp),
                   \<lparr>unread = drop k (unread inp), in_count = c,
                    in_sink = env_progress env c (in_sink inp)\<rparr>)))"

text \<open>\<open>Read::read_exact\<close>.\<close>

function read_exact ::
    "'s reader_env \<Rightarrow> nat \<Rightarrow> 's input \<Rightarrow> io_failure + u8 list \<times> 's input" where
  "read_exact env n inp =
     (if n = 0 then Inr ([], inp)
      else (case read_once env n inp of
          Inl e \<Rightarrow> Inl e
        | Inr (bs, inp') \<Rightarrow>
            if bs = [] then Inl Unexpected_eof
            else (case read_exact env (n - length bs) inp' of
                Inl e \<Rightarrow> Inl e
              | Inr (cs, inp'') \<Rightarrow> Inr (bs @ cs, inp''))))"
  by pat_completeness auto
termination
  by (relation "measure (\<lambda>(env, n, inp). n)") (auto simp: length_greater_0_conv)

declare read_exact.simps [simp del]

definition with_context :: "(io_failure \<Rightarrow> reader_error) \<Rightarrow> io_failure + 'a \<Rightarrow> reader_error + 'a" where
  "with_context f m = (case m of Inl e \<Rightarrow> Inl (f e) | Inr x \<Rightarrow> Inr x)"

definition input_exact ::
    "'s reader_env \<Rightarrow> nat \<Rightarrow> 's input \<Rightarrow> reader_error + u8 list \<times> 's input" where
  "input_exact env n inp = with_context File_truncated (read_exact env n inp)"

definition input_next ::
    "'s reader_env \<Rightarrow> nat \<Rightarrow> 's input \<Rightarrow> reader_error + u8 list option \<times> 's input" where
  "input_next env n inp =
     (case read_once env 1 inp of
        Inl e \<Rightarrow> Inl (Io e)
      | Inr (bs, inp') \<Rightarrow>
          if bs = [] then Inr (None, inp')
          else rbind (with_context Header_truncated (read_exact env (n - 1) inp'))
                 (\<lambda>(cs, inp''). Inr (Some (bs @ cs), inp'')))"

definition input_bytes ::
    "'s reader_env \<Rightarrow> nat \<Rightarrow> nat \<Rightarrow> 's input \<Rightarrow> reader_error + u8 list \<times> 's input" where
  "input_bytes env len limit inp =
     rbind (ensure (len \<le> limit) Record_too_long)
       (\<lambda>_. with_context Data_truncated (read_exact env len inp))"

definition e_uint :: "bool \<Rightarrow> nat \<Rightarrow> u8 list \<Rightarrow> nat" where
  "e_uint le n b = (if le then le_val (take n b) else be_val (take n b))"

definition e_u16 :: "bool \<Rightarrow> u8 list \<Rightarrow> nat" where
  "e_u16 le b = e_uint le 2 b"

definition e_u32 :: "bool \<Rightarrow> u8 list \<Rightarrow> nat" where
  "e_u32 le b = e_uint le 4 b"

definition e_i64 :: "bool \<Rightarrow> u8 list \<Rightarrow> int" where
  "e_i64 le b = signed_of 64 (e_uint le 8 b)"

subsection \<open>Packets\<close>

definition retain_packet ::
    "limits \<Rightarrow> packet \<Rightarrow> capture_file \<Rightarrow> capture_file" where
  "retain_packet lim p c =
     (if \<not> l_retain lim \<or> cf_omitted c \<noteq> 0 \<or> max_packets \<le> length (cf_packets c)
         \<or> max_retained_bytes < cf_retained c + length (p_bytes p)
      then c\<lparr>cf_omitted := cf_omitted c + 1\<rparr>
      else c\<lparr>cf_retained := cf_retained c + length (p_bytes p), cf_packets := cf_packets c @ [p]\<rparr>)"

definition retain ::
    "'s reader_env \<Rightarrow> nat \<Rightarrow> nat \<Rightarrow> timestamp option \<Rightarrow> nat \<Rightarrow> u8 list
     \<Rightarrow> capture_file \<times> 's input \<Rightarrow> reader_error + capture_file \<times> 's input" where
  "retain env iface offset ts original bytes st =
     (case st of (c0, inp) \<Rightarrow>
        let c1 = c0\<lparr>cf_total := cf_total c0 + 1\<rparr> in
        rbind (ensure (cf_total c1 \<le> l_records (env_limits env)) Too_many_records)
          (\<lambda>_.
             let c2 = (if length bytes < original then c1\<lparr>cf_truncated := cf_truncated c1 + 1\<rparr> else c1);
                 p = \<lparr>p_number = cf_total c2, p_file_offset = offset, p_interface = iface,
                      p_timestamp = ts, p_original = original, p_captured = length bytes,
                      p_bytes = bytes\<rparr> in
             rbind (env_packet env p (cf_interfaces c2 ! iface) (in_sink inp))
               (\<lambda>s. Inr (retain_packet (env_limits env) p c2, inp\<lparr>in_sink := s\<rparr>))))"

subsection \<open>Classic PCAP\<close>

definition pcap_magic :: "u8 list \<Rightarrow> (bool \<times> nat) option" where
  "pcap_magic magic =
     (if magic = [0xd4, 0xc3, 0xb2, 0xa1] then Some (True, 6)
      else if magic = [0xa1, 0xb2, 0xc3, 0xd4] then Some (False, 6)
      else if magic = [0x4d, 0x3c, 0xb2, 0xa1] then Some (True, 9)
      else if magic = [0xa1, 0xb2, 0x3c, 0x4d] then Some (False, 9)
      else None)"

record pcap_header =
  ph_le :: bool
  ph_resolution :: nat
  ph_snaplen :: nat

definition pcap_units :: "nat \<Rightarrow> nat" where
  "pcap_units resolution = (if resolution = 6 then 1000000 else 1000000000)"

definition ascii_chars :: "string \<Rightarrow> nat list" where
  "ascii_chars s = map of_char s"

definition pcap_start ::
    "'s reader_env \<Rightarrow> u8 list \<Rightarrow> capture_file \<times> 's input
     \<Rightarrow> reader_error + pcap_header \<times> capture_file \<times> 's input" where
  "pcap_start env magic st =
     (case st of (c, inp) \<Rightarrow>
        rbind (ok_or (pcap_magic magic) Not_a_capture) (\<lambda>(le, resolution).
        rbind (input_exact env 20 inp) (\<lambda>(h, inp').
        rbind (ensure (e_u16 le h = 2 \<and> e_u16 le (drop 2 h) = 4) Pcap_version) (\<lambda>_.
        let snaplen = e_u32 le (drop 12 h); link = e_u32 le (drop 16 h) in
        rbind (ensure (0 < snaplen) Pcap_snaplen) (\<lambda>_.
        rbind (ensure ((word_of_nat link :: 32 word) AND 0x0bff0000 = 0) Pcap_reserved_bits) (\<lambda>_.
          Inr (\<lparr>ph_le = le, ph_resolution = resolution, ph_snaplen = snaplen\<rparr>,
               c\<lparr>cf_interfaces := cf_interfaces c @
                  [\<lparr>if_section = 0, if_section_id = 0, if_link = link mod 2 ^ 16, if_snaplen = snaplen,
                    if_name = ascii_chars ''Interface do arquivo'',
                    if_resolution = of_nat resolution, if_offset = 0\<rparr>]\<rparr>,
               inp')))))))"

definition pcap_record ::
    "'s reader_env \<Rightarrow> pcap_header \<Rightarrow> nat \<Rightarrow> u8 list \<Rightarrow> capture_file \<times> 's input
     \<Rightarrow> reader_error + capture_file \<times> 's input" where
  "pcap_record env ph offset h st =
     (case st of (c, inp) \<Rightarrow>
        let le = ph_le ph; seconds = e_u32 le h; fraction = e_u32 le (drop 4 h);
            captured = e_u32 le (drop 8 h); original = e_u32 le (drop 12 h);
            units = pcap_units (ph_resolution ph) in
        rbind (ensure (fraction < units \<and> captured \<le> original \<and> captured \<le> ph_snaplen ph)
                 Pcap_record_invalid) (\<lambda>_.
        rbind (input_bytes env captured max_packet_bytes inp) (\<lambda>(bytes, inp').
          retain env 0 offset
            (Some \<lparr>ticks = seconds * units + fraction, ts_resolution = of_nat (ph_resolution ph),
                   ts_offset = 0\<rparr>)
            original bytes (c, inp'))))"

subsection \<open>How much is left\<close>

lemma read_once_unread:
  assumes "read_once env n inp = Inr (bs, inp')"
  shows "unread inp = bs @ unread inp' \<and> in_count inp' = in_count inp + length bs \<and> length bs \<le> n \<and>
     in_count inp' \<le> l_bytes (env_limits env)"
proof -
  define k where "k = min (min n (l_bytes (env_limits env) - in_count inp + 1))
    (min (length (unread inp)) (Suc (env_chunk env (in_count inp))))"
  have k: "k \<le> n" "k \<le> length (unread inp)"
    by (simp_all add: k_def)
  from assms have "\<not> l_bytes (env_limits env) < in_count inp + k" "bs = take k (unread inp)"
      "unread inp' = drop k (unread inp)" "in_count inp' = in_count inp + k"
    unfolding read_once_def Let_def k_def [symmetric] by (auto split: if_splits)
  with k show ?thesis
    by simp
qed

lemma read_exact_unread:
  "read_exact env n inp = Inr (bs, inp') \<Longrightarrow>
     unread inp = bs @ unread inp' \<and> in_count inp' = in_count inp + length bs \<and> length bs = n"
proof (induction env n inp arbitrary: bs inp' rule: read_exact.induct)
  case (1 env n inp)
  show ?case
  proof (cases "n = 0")
    case True
    with "1.prems" show ?thesis by (simp add: read_exact.simps)
  next
    case False
    obtain b1 i1 where o: "read_once env n inp = Inr (b1, i1)" "b1 \<noteq> []"
      using "1.prems" False
      by (auto simp: read_exact.simps [of env n inp] split: sum.splits prod.splits if_splits)
    obtain b2 i2 where e: "read_exact env (n - length b1) i1 = Inr (b2, i2)" "bs = b1 @ b2" "inp' = i2"
      using "1.prems" False o
      by (auto simp: read_exact.simps [of env n inp] split: sum.splits prod.splits if_splits)
    from "1.IH" [OF False o(1) refl o(2) e(1)] read_once_unread [OF o(1)] e show ?thesis
      by auto
  qed
qed

definition advances :: "'s input \<Rightarrow> 's input \<Rightarrow> bool" where
  "advances inp inp' \<longleftrightarrow>
     (\<exists>bs. unread inp = bs @ unread inp' \<and> in_count inp' = in_count inp + length bs)"

lemma advances_refl [intro, simp]: "advances inp inp"
  by (simp add: advances_def)

lemma advances_sink [simp]: "advances inp (inp'\<lparr>in_sink := s\<rparr>) = advances inp inp'"
  by (simp add: advances_def)

lemma advances_trans [trans]: "advances a b \<Longrightarrow> advances b c \<Longrightarrow> advances a c"
  by (force simp: advances_def)

lemma advances_length: "advances a b \<Longrightarrow> length (unread b) \<le> length (unread a)"
  by (auto simp: advances_def)

lemma read_exact_advances: "read_exact env n inp = Inr (bs, inp') \<Longrightarrow> advances inp inp'"
  using read_exact_unread by (fastforce simp: advances_def)

lemma with_context_Inr [simp]: "with_context f m = Inr x \<longleftrightarrow> m = Inr x"
  by (cases m) (simp_all add: with_context_def)

lemma input_exact_advances: "input_exact env n inp = Inr (bs, inp') \<Longrightarrow> advances inp inp'"
  by (auto simp: input_exact_def dest: read_exact_advances)

lemma input_bytes_advances: "input_bytes env n m inp = Inr (bs, inp') \<Longrightarrow> advances inp inp'"
  by (auto simp: input_bytes_def result_simps dest: read_exact_advances)

lemma input_next_advances:
  assumes "input_next env n inp = Inr (h, inp')"
  shows "advances inp inp' \<and> (h \<noteq> None \<longrightarrow> length (unread inp') < length (unread inp))"
proof -
  obtain bs i1 where o: "read_once env 1 inp = Inr (bs, i1)"
    using assms by (auto simp: input_next_def split: sum.splits)
  have a: "advances inp i1"
    using read_once_unread [OF o] by (auto simp: advances_def)
  show ?thesis
  proof (cases "bs = []")
    case True
    with assms o a show ?thesis by (auto simp: input_next_def)
  next
    case False
    then obtain cs where "read_exact env (n - 1) i1 = Inr (cs, inp')"
      using assms o by (auto simp: input_next_def result_simps)
    note adv = read_exact_advances [OF this]
    from advances_length [OF adv] advances_trans [OF a adv] False read_once_unread [OF o]
    show ?thesis
      by (cases bs) auto
  qed
qed

lemma retain_advances: "retain env i off ts original bytes (c, inp) = Inr (c', inp') \<Longrightarrow> advances inp inp'"
  by (auto simp: retain_def result_simps Let_def)

lemma pcap_record_advances: "pcap_record env ph off h (c, inp) = Inr (c', inp') \<Longrightarrow> advances inp inp'"
  by (auto simp: pcap_record_def result_simps Let_def
      dest!: input_bytes_advances retain_advances intro: advances_trans)

function pcap_loop ::
    "'s reader_env \<Rightarrow> pcap_header \<Rightarrow> capture_file \<times> 's input
     \<Rightarrow> reader_error + capture_file \<times> 's input" where
  "pcap_loop env ph (c, inp) =
     (case input_next env 16 inp of
        Inl e \<Rightarrow> Inl e
      | Inr (None, inp') \<Rightarrow> Inr (c, inp')
      | Inr (Some h, inp') \<Rightarrow>
          (case pcap_record env ph (in_count inp) h (c, inp') of
             Inl e \<Rightarrow> Inl e
           | Inr (c', inp'') \<Rightarrow> pcap_loop env ph (c', inp'')))"
  by pat_completeness auto
termination
  by (relation "measure (\<lambda>(env, ph, c, inp). length (unread inp))")
    (auto dest!: input_next_advances pcap_record_advances dest: advances_length)

declare pcap_loop.simps [simp del]

definition read_pcap ::
    "'s reader_env \<Rightarrow> u8 list \<Rightarrow> capture_file \<times> 's input \<Rightarrow> reader_error + capture_file \<times> 's input" where
  "read_pcap env magic st =
     rbind (pcap_start env magic st) (\<lambda>(ph, c, inp). pcap_loop env ph (c, inp))"

subsection \<open>PCAPNG\<close>

definition round4 :: "nat \<Rightarrow> nat" where
  "round4 n = (n + 3) div 4 * 4"

lemma round4_ge: "n \<le> round4 n"
  unfolding round4_def by linarith

text \<open>\<open>options\<close>, with the closure \<open>visit\<close> over a state.\<close>

function ng_options ::
    "bool \<Rightarrow> (nat \<Rightarrow> u8 list \<Rightarrow> 't \<Rightarrow> reader_error + 't) \<Rightarrow> u8 list \<Rightarrow> 't \<Rightarrow> reader_error + 't" where
  "ng_options le visit data t =
     (if data = [] then Inr t
      else if length data < 4 then Inl Option_header_truncated
      else
        (let opt = e_u16 le data; len = e_u16 le (drop 2 data) in
         if opt = 0 then
           (if len = 0 \<and> list_all (\<lambda>b. b = 0) (drop 4 data) then Inr t else Inl Option_end_invalid)
         else if length data < 4 + round4 len then Inl Option_value_truncated
         else (case visit opt (take len (drop 4 data)) t of
             Inl e \<Rightarrow> Inl e
           | Inr t' \<Rightarrow> ng_options le visit (drop (4 + round4 len) data) t')))"
  by pat_completeness auto
termination
  by (relation "measure (\<lambda>(le, visit, data, t). length data)") auto

declare ng_options.simps [simp del]

definition skip_options :: "bool \<Rightarrow> u8 list \<Rightarrow> reader_error + unit" where
  "skip_options le data = ng_options le (\<lambda>_ _ _. Inr ()) data ()"

record ng_state =
  ng_le :: bool
  ng_section :: nat
  ng_ifaces :: "nat list"
  ng_end :: "nat option"
  ng_blocks :: nat

definition clean_name :: "u8 list \<Rightarrow> nat list" where
  "clean_name value =
     take 128 (filter (\<lambda>c. \<not> is_control c \<and> \<not> is_bidi c)
       (takeWhile (\<lambda>c. c \<noteq> 0) (decode_lossy (map unat value))))"

definition option_index :: "nat \<Rightarrow> nat option" where
  "option_index opt =
     (if opt = 2 then Some 0 else if opt = 9 then Some 1 else if opt = 14 then Some 2 else None)"

definition visit_interface ::
    "bool \<Rightarrow> nat \<Rightarrow> u8 list \<Rightarrow> capture_interface \<times> nat list
     \<Rightarrow> reader_error + capture_interface \<times> nat list" where
  "visit_interface le opt value st =
     (case st of (i, seen) \<Rightarrow>
        rbind (case option_index opt of
                 None \<Rightarrow> Inr seen
               | Some k \<Rightarrow> if k \<in> set seen then Inl Option_repeated else Inr (k # seen))
          (\<lambda>seen'.
             if opt = 2 then Inr (i\<lparr>if_name := clean_name value\<rparr>, seen')
             else if opt = 9 then
               rbind (ensure (length value = 1) Resolution_invalid)
                 (\<lambda>_. Inr (i\<lparr>if_resolution := value ! 0\<rparr>, seen'))
             else if opt = 14 then
               rbind (ensure (length value = 8) Offset_invalid)
                 (\<lambda>_. Inr (i\<lparr>if_offset := e_i64 le value\<rparr>, seen'))
             else Inr (i, seen')))"

text \<open>The Section Header Block; \<open>count\<close> is the position after the block.\<close>

definition ng_section_header ::
    "u8 list \<Rightarrow> nat \<Rightarrow> ng_state \<Rightarrow> reader_error + ng_state" where
  "ng_section_header body count st =
     (let le = ng_le st in
      rbind (ensure (16 \<le> length body \<and> e_u16 le (drop 4 body) = 1
               \<and> e_u16 le (drop 6 body) \<in> {0, 2}) Section_header_invalid) (\<lambda>_.
      let declared = e_i64 le (drop 8 body) in
      rbind (ensure (-1 \<le> declared \<and> (declared = -1 \<or> declared mod 4 = 0))
               Section_length_invalid) (\<lambda>_.
      rbind (if declared = -1 then Inr None
             else if count + nat declared < 2 ^ 64 then Inr (Some (count + nat declared))
             else Inl Section_too_long) (\<lambda>finish.
      rbind (skip_options le (drop 16 body)) (\<lambda>_.
      rbind (ensure (ng_section st + 1 < 2 ^ 32) Too_many_sections) (\<lambda>_.
        Inr (st\<lparr>ng_end := finish, ng_ifaces := [], ng_section := ng_section st + 1\<rparr>)))))))"

definition ng_interface_block ::
    "u8 list \<Rightarrow> ng_state \<Rightarrow> capture_file \<Rightarrow> reader_error + ng_state \<times> capture_file" where
  "ng_interface_block body st c =
     (let le = ng_le st in
      rbind (ensure (8 \<le> length body \<and> length (cf_interfaces c) < max_interfaces)
               Interface_invalid) (\<lambda>_.
      let i = \<lparr>if_section = ng_section st - 1, if_section_id = length (ng_ifaces st),
               if_link = e_u16 le body, if_snaplen = e_u32 le (drop 4 body),
               if_name = ascii_chars (''Interface '' @ dec (length (ng_ifaces st) + 1)),
               if_resolution = 6, if_offset = 0\<rparr> in
      rbind (ng_options le (visit_interface le) (drop 8 body) (i, [])) (\<lambda>(i', _).
        Inr (st\<lparr>ng_ifaces := ng_ifaces st @ [length (cf_interfaces c)]\<rparr>,
             c\<lparr>cf_interfaces := cf_interfaces c @ [i']\<rparr>))))"

definition nth_option :: "'a list \<Rightarrow> nat \<Rightarrow> 'a option" where
  "nth_option xs i = (if i < length xs then Some (xs ! i) else None)"

definition ng_packet_block ::
    "'s reader_env \<Rightarrow> nat \<Rightarrow> nat \<Rightarrow> u8 list \<Rightarrow> ng_state \<Rightarrow> capture_file \<times> 's input
     \<Rightarrow> reader_error + capture_file \<times> 's input" where
  "ng_packet_block env block_type offset body st ci =
     (case ci of (c, inp) \<Rightarrow>
        let le = ng_le st in
        rbind (ensure (20 \<le> length body) Packet_header_truncated) (\<lambda>_.
        let idx = (if block_type = 6 then e_u32 le body else e_u16 le body) in
        rbind (ok_or (nth_option (ng_ifaces st) idx) Packet_interface_missing) (\<lambda>global.
        let iface = cf_interfaces c ! global;
            tk = e_u32 le (drop 4 body) * 2 ^ 32 + e_u32 le (drop 8 body);
            caplen = e_u32 le (drop 12 body);
            original = e_u32 le (drop 16 body) in
        rbind (ensure (caplen \<le> max_packet_bytes \<and> caplen \<le> original
                 \<and> (if_snaplen iface = 0 \<or> caplen \<le> if_snaplen iface)) Packet_length_invalid) (\<lambda>_.
        let finish = 20 + round4 caplen in
        rbind (ensure (finish \<le> length body) Packet_data_truncated) (\<lambda>_.
        rbind (skip_options le (drop finish body)) (\<lambda>_.
          retain env global offset
            (Some \<lparr>ticks = tk, ts_resolution = if_resolution iface, ts_offset = if_offset iface\<rparr>)
            original (take caplen (drop 20 body)) (c, inp)))))))"

definition ng_simple_block ::
    "'s reader_env \<Rightarrow> nat \<Rightarrow> u8 list \<Rightarrow> ng_state \<Rightarrow> capture_file \<times> 's input
     \<Rightarrow> reader_error + capture_file \<times> 's input" where
  "ng_simple_block env offset body st ci =
     (case ci of (c, inp) \<Rightarrow>
        let le = ng_le st in
        rbind (ensure (4 \<le> length body) Simple_packet_truncated) (\<lambda>_.
        rbind (ok_or (nth_option (ng_ifaces st) 0) Simple_packet_without_interface) (\<lambda>global.
        let original = e_u32 le body;
            snap = if_snaplen (cf_interfaces c ! global);
            len = (if snap = 0 then original else min original snap) in
        rbind (ensure (len \<le> max_packet_bytes \<and> length body = 4 + round4 len)
                 Simple_packet_length) (\<lambda>_.
          retain env global offset None original (take len (drop 4 body)) (c, inp)))))"

definition ng_magic :: "u8 list" where
  "ng_magic = [0x0a, 0x0d, 0x0d, 0x0a]"

definition ng_byte_order :: "u8 list \<Rightarrow> bool option" where
  "ng_byte_order b =
     (if b = [0x4d, 0x3c, 0x2b, 0x1a] then Some True
      else if b = [0x1a, 0x2b, 0x3c, 0x4d] then Some False else None)"

text \<open>The first part of one turn of the loop: the framing of a block, from its type to its
  body.\<close>

definition ng_frame ::
    "'s reader_env \<Rightarrow> u8 list \<Rightarrow> ng_state \<Rightarrow> 's input
     \<Rightarrow> reader_error + ng_state \<times> nat \<times> u8 list \<times> 's input" where
  "ng_frame env kind st0 inp =
     (let st1 = st0\<lparr>ng_blocks := ng_blocks st0 + 1\<rparr> in
      rbind (ensure (ng_blocks st1 \<le> l_records (env_limits env)) Too_many_blocks) (\<lambda>_.
      let offset = in_count inp - 4; shb = (kind = ng_magic) in
      rbind (input_exact env 8 inp) (\<lambda>(prefix, inp1).
      rbind (if shb then
               rbind (ensure (case ng_end st1 of None \<Rightarrow> True | Some e \<Rightarrow> offset = e)
                        Section_length_mismatch)
                 (\<lambda>_. rbind (ok_or (ng_byte_order (drop 4 prefix)) Byte_order_invalid)
                    (\<lambda>le. Inr (st1\<lparr>ng_le := le\<rparr>)))
             else Inr st1) (\<lambda>st2.
      let len = e_u32 (ng_le st2) prefix in
      rbind (ensure (12 \<le> len \<and> len \<le> max_block_bytes \<and> len mod 4 = 0) Block_length_invalid) (\<lambda>_.
      rbind (ensure (shb \<or> (case ng_end st2 of None \<Rightarrow> True | Some e \<Rightarrow> offset + len \<le> e))
               Block_beyond_section) (\<lambda>_.
      rbind (input_bytes env (len - 12) max_block_bytes inp1) (\<lambda>(rest, inp2).
      let trailer = (if rest = [] then drop 4 prefix else drop (length rest - 4) rest);
          body = (if rest = [] then [] else drop 4 prefix @ take (length rest - 4) rest) in
      rbind (ensure (e_u32 (ng_le st2) trailer = len) Block_trailer_mismatch) (\<lambda>_.
        Inr (st2, offset, body, inp2)))))))))"

definition ng_block ::
    "'s reader_env \<Rightarrow> u8 list \<Rightarrow> ng_state \<times> capture_file \<times> 's input
     \<Rightarrow> reader_error + ng_state \<times> capture_file \<times> 's input" where
  "ng_block env kind s =
     (case s of (st0, c, inp) \<Rightarrow>
        rbind (ng_frame env kind st0 inp) (\<lambda>(st, offset, body, inp').
        let block_type = e_u32 (ng_le st) kind in
        if block_type = 0x0a0d0d0a then
          rbind (ng_section_header body (in_count inp') st) (\<lambda>st'. Inr (st', c, inp'))
        else if block_type = 1 then
          rbind (ng_interface_block body st c) (\<lambda>(st', c'). Inr (st', c', inp'))
        else if block_type = 6 \<or> block_type = 2 then
          rbind (ng_packet_block env block_type offset body st (c, inp')) (\<lambda>(c', inp''). Inr (st, c', inp''))
        else if block_type = 3 then
          rbind (ng_simple_block env offset body st (c, inp')) (\<lambda>(c', inp''). Inr (st, c', inp''))
        else Inr (st, c\<lparr>cf_auxiliary := cf_auxiliary c + 1\<rparr>, inp')))"

lemma ng_frame_advances: "ng_frame env kind st inp = Inr (st', off, body, inp') \<Longrightarrow> advances inp inp'"
  by (auto simp: ng_frame_def result_simps Let_def
      dest!: input_exact_advances input_bytes_advances intro: advances_trans split: if_splits)

lemma ng_packet_block_advances:
  "ng_packet_block env t off body st (c, inp) = Inr (c', inp') \<Longrightarrow> advances inp inp'"
  by (auto simp: ng_packet_block_def result_simps Let_def dest!: retain_advances)

lemma ng_simple_block_advances:
  "ng_simple_block env off body st (c, inp) = Inr (c', inp') \<Longrightarrow> advances inp inp'"
  by (auto simp: ng_simple_block_def result_simps Let_def dest!: retain_advances)

lemma ng_block_advances:
  "ng_block env kind (st, c, inp) = Inr (st', c', inp') \<Longrightarrow> advances inp inp'"
  by (auto simp: ng_block_def result_simps Let_def
      dest!: ng_frame_advances ng_packet_block_advances ng_simple_block_advances
      intro: advances_trans split: if_splits)

function ng_loop ::
    "'s reader_env \<Rightarrow> u8 list \<Rightarrow> ng_state \<times> capture_file \<times> 's input
     \<Rightarrow> reader_error + ng_state \<times> capture_file \<times> 's input" where
  "ng_loop env kind (st, c, inp) =
     (case ng_block env kind (st, c, inp) of
        Inl e \<Rightarrow> Inl e
      | Inr (st', c', inp') \<Rightarrow>
          (case input_next env 4 inp' of
             Inl e \<Rightarrow> Inl e
           | Inr (None, inp'') \<Rightarrow> Inr (st', c', inp'')
           | Inr (Some kind', inp'') \<Rightarrow> ng_loop env kind' (st', c', inp'')))"
  by pat_completeness auto
termination
  by (relation "measure (\<lambda>(env, kind, st, c, inp). length (unread inp))")
    (auto dest!: input_next_advances ng_block_advances advances_length)

declare ng_loop.simps [simp del]

definition ng_initial :: ng_state where
  "ng_initial = \<lparr>ng_le = True, ng_section = 0, ng_ifaces = [], ng_end = None, ng_blocks = 0\<rparr>"

definition read_ng ::
    "'s reader_env \<Rightarrow> u8 list \<Rightarrow> capture_file \<times> 's input \<Rightarrow> reader_error + capture_file \<times> 's input" where
  "read_ng env first ci =
     (case ci of (c, inp) \<Rightarrow>
        rbind (ng_loop env first (ng_initial, c, inp)) (\<lambda>(st, c', inp').
        rbind (ensure (case ng_end st of None \<Rightarrow> True | Some e \<Rightarrow> in_count inp' = e) Section_truncated)
          (\<lambda>_. Inr (c', inp'))))"

subsection \<open>The whole file\<close>

definition empty_capture :: "capture_format \<Rightarrow> capture_file" where
  "empty_capture f =
     \<lparr>cf_format = f, cf_sha256 = [], cf_file_bytes = 0, cf_interfaces = [], cf_packets = [],
      cf_total = 0, cf_omitted = 0, cf_truncated = 0, cf_auxiliary = 0, cf_retained = 0\<rparr>"

definition read_with ::
    "(u8 list \<Rightarrow> string) \<Rightarrow> 's reader_env \<Rightarrow> u8 list \<Rightarrow> 's \<Rightarrow> reader_error + capture_file \<times> 's" where
  "read_with sha env data s =
     rbind (input_exact env 4 \<lparr>unread = data, in_count = 0, in_sink = s\<rparr>) (\<lambda>(magic, inp).
     rbind (if magic = ng_magic then read_ng env magic (empty_capture PcapNg, inp)
            else read_pcap env magic (empty_capture Pcap, inp)) (\<lambda>(c, inp').
       Inr (c\<lparr>cf_file_bytes := in_count inp', cf_sha256 := sha (take (in_count inp') data)\<rparr>,
            in_sink inp')))"

text \<open>\<open>read\<close>: no sink, 128 MiB, a million records, packets retained.\<close>

definition plain_env :: "(nat \<Rightarrow> bool) \<Rightarrow> (nat \<Rightarrow> nat) \<Rightarrow> unit reader_env" where
  "plain_env cancel chunk =
     \<lparr>env_cancel = cancel, env_chunk = chunk,
      env_limits = \<lparr>l_bytes = max_file_bytes, l_records = 1000000, l_retain = True\<rparr>,
      env_packet = (\<lambda>_ _ _. Inr ()), env_progress = (\<lambda>_ _. ())\<rparr>"

definition read_capture ::
    "(u8 list \<Rightarrow> string) \<Rightarrow> (nat \<Rightarrow> bool) \<Rightarrow> (nat \<Rightarrow> nat) \<Rightarrow> u8 list \<Rightarrow> reader_error + capture_file" where
  "read_capture sha cancel chunk data =
     rbind (read_with sha (plain_env cancel chunk) data ()) (\<lambda>(c, _). Inr c)"

text \<open>\<open>load\<close>: the metadata of the open file before and after, as \<open>(is_file, len, modified)\<close>.\<close>

definition load_capture ::
    "(u8 list \<Rightarrow> string) \<Rightarrow> (nat \<Rightarrow> bool) \<Rightarrow> (nat \<Rightarrow> nat) \<Rightarrow> bool \<times> nat \<times> nat option
     \<Rightarrow> bool \<times> nat \<times> nat option \<Rightarrow> u8 list \<Rightarrow> reader_error + capture_file" where
  "load_capture sha cancel chunk before after data =
     (case (before, after) of ((is_file, blen, bmod), (_, alen, amod)) \<Rightarrow>
        rbind (ensure is_file Not_regular) (\<lambda>_.
        rbind (ensure (blen \<le> max_file_bytes) Capture_too_large) (\<lambda>_.
        rbind (read_capture sha cancel chunk data) (\<lambda>c.
        rbind (ensure (blen = alen \<and> alen = cf_file_bytes c \<and> bmod = amod) Capture_changed)
          (\<lambda>_. Inr c)))))"

end
