(* ===== verification/Reader_Facts.thy ===== *)
theory Reader_Facts
  imports Reader
begin

text \<open>
  What a successful read guarantees: the whole source was consumed and hashed, and the counters,
  the numbering and the bounds of the retained packets hold.
\<close>

subsection \<open>The whole source is consumed\<close>

lemma read_once_empty:
  "read_once env n inp = Inr ([], inp') \<Longrightarrow> 0 < n \<Longrightarrow> unread inp = [] \<and> unread inp' = []"
  by (cases "unread inp") (auto simp: read_once_def Let_def split: if_splits)

definition at_end :: "'s reader_env \<Rightarrow> 's input \<Rightarrow> bool" where
  "at_end env inp \<longleftrightarrow> unread inp = [] \<and> in_count inp \<le> l_bytes (env_limits env)"

lemma input_next_None: "input_next env n inp = Inr (None, inp') \<Longrightarrow> at_end env inp'"
  by (auto simp: input_next_def result_simps at_end_def split: sum.splits if_splits
      dest: read_once_empty read_once_unread)

lemma pcap_loop_end:
  "pcap_loop env ph ci = Inr ci' \<Longrightarrow> advances (snd ci) (snd ci') \<and> at_end env (snd ci')"
proof (induction env ph ci arbitrary: ci' rule: pcap_loop.induct)
  case (1 env ph c inp)
  obtain h i1 where n: "input_next env 16 inp = Inr (h, i1)"
    using "1.prems" by (auto simp: pcap_loop.simps [of env ph c inp] split: sum.splits)
  note a = input_next_advances [OF n]
  show ?case
  proof (cases h)
    case None
    with "1.prems" n a input_next_None show ?thesis
      by (auto simp: pcap_loop.simps [of env ph c inp])
  next
    case (Some hd)
    with "1.prems" n obtain c2 i2 where
      r: "pcap_record env ph (in_count inp) hd (c, i1) = Inr (c2, i2)"
      and l: "pcap_loop env ph (c2, i2) = Inr ci'"
      by (auto simp: pcap_loop.simps [of env ph c inp] split: sum.splits)
    from "1.IH" [OF n refl Some r refl l] pcap_record_advances [OF r] a show ?thesis
      by (auto intro: advances_trans [OF _ advances_trans])
  qed
qed

lemma ng_loop_end:
  "ng_loop env kind s = Inr s' \<Longrightarrow>
     advances (snd (snd s)) (snd (snd s')) \<and> at_end env (snd (snd s'))"
proof (induction env kind s arbitrary: s' rule: ng_loop.induct)
  case (1 env kind st c inp)
  obtain st1 c1 i1 where b: "ng_block env kind (st, c, inp) = Inr (st1, c1, i1)"
    using "1.prems" by (auto simp: ng_loop.simps [of env kind st c inp] split: sum.splits)
  with "1.prems" obtain h i2 where n: "input_next env 4 i1 = Inr (h, i2)"
    by (auto simp: ng_loop.simps [of env kind st c inp] split: sum.splits)
  note a = ng_block_advances [OF b] input_next_advances [OF n]
  show ?case
  proof (cases h)
    case None
    with "1.prems" n b a input_next_None show ?thesis
      by (auto simp: ng_loop.simps [of env kind st c inp] intro: advances_trans)
  next
    case (Some k)
    with "1.prems" n b have l: "ng_loop env k (st1, c1, i2) = Inr s'"
      by (simp add: ng_loop.simps [of env kind st c inp])
    from "1.IH" [OF b refl refl n refl Some l] a show ?thesis
      by (auto intro: advances_trans [OF _ advances_trans])
  qed
qed

lemma advances_from_start:
  "advances \<lparr>unread = data, in_count = 0, in_sink = s\<rparr> i \<Longrightarrow> unread i = [] \<Longrightarrow> in_count i = length data"
  by (auto simp: advances_def)

subsection \<open>Counters and bounds\<close>

definition packet_ok :: "capture_file \<Rightarrow> packet \<Rightarrow> bool" where
  "packet_ok c p \<longleftrightarrow>
     p_interface p < length (cf_interfaces c) \<and> p_captured p = length (p_bytes p) \<and>
     p_captured p \<le> p_original p \<and> p_captured p \<le> max_packet_bytes"

definition numbered :: "packet list \<Rightarrow> bool" where
  "numbered ps \<longleftrightarrow> map p_number ps = [1..<Suc (length ps)]"

lemma numbered_snoc: "numbered ps \<Longrightarrow> p_number p = Suc (length ps) \<Longrightarrow> numbered (ps @ [p])"
  by (simp add: numbered_def)

lemma numbered_Nil [simp]: "numbered []"
  by (simp add: numbered_def)

definition capture_inv :: "limits \<Rightarrow> capture_file \<Rightarrow> bool" where
  "capture_inv lim c \<longleftrightarrow>
     cf_total c = length (cf_packets c) + cf_omitted c \<and> cf_total c \<le> l_records lim \<and>
     numbered (cf_packets c) \<and>
     cf_retained c = (\<Sum>p\<leftarrow>cf_packets c. length (p_bytes p)) \<and>
     length (cf_packets c) \<le> max_packets \<and> cf_retained c \<le> max_retained_bytes \<and>
     cf_truncated c \<le> cf_total c \<and> list_all (packet_ok c) (cf_packets c) \<and>
     (\<not> l_retain lim \<longrightarrow> cf_packets c = [])"

lemma capture_inv_stamp [simp]:
  "capture_inv lim (c\<lparr>cf_file_bytes := n, cf_sha256 := h\<rparr>) = capture_inv lim c"
proof -
  have "packet_ok (c\<lparr>cf_file_bytes := n, cf_sha256 := h\<rparr>) = packet_ok c"
    by (simp add: packet_ok_def fun_eq_iff)
  then show ?thesis by (simp add: capture_inv_def)
qed

lemma packet_ok_mono:
  "length (cf_interfaces c) \<le> length (cf_interfaces c') \<Longrightarrow> packet_ok c p \<Longrightarrow> packet_ok c' p"
  by (auto simp: packet_ok_def)

lemma capture_inv_interfaces:
  assumes "capture_inv lim c"
  shows "capture_inv lim (c\<lparr>cf_interfaces := cf_interfaces c @ is\<rparr>)"
proof -
  have "list_all (packet_ok (c\<lparr>cf_interfaces := cf_interfaces c @ is\<rparr>)) (cf_packets c)"
    using assms unfolding capture_inv_def list_all_iff
    by (auto intro: packet_ok_mono [of c])
  with assms show ?thesis
    by (simp add: capture_inv_def)
qed

lemma retain_inv:
  assumes "retain env i off ts original bytes (c, inp) = Inr (c', inp')"
    and "capture_inv (env_limits env) c" "i < length (cf_interfaces c)"
    and "length bytes \<le> original" "length bytes \<le> max_packet_bytes"
  shows "capture_inv (env_limits env) c' \<and> cf_interfaces c' = cf_interfaces c"
proof -
  define c2 where "c2 = c\<lparr>cf_total := cf_total c + 1,
    cf_truncated := cf_truncated c + (if length bytes < original then 1 else 0)\<rparr>"
  define p where "p = \<lparr>p_number = cf_total c2, p_file_offset = off, p_interface = i,
    p_timestamp = ts, p_original = original, p_captured = length bytes, p_bytes = bytes\<rparr>"
  have c': "c' = retain_packet (env_limits env) p c2" "cf_total c + 1 \<le> l_records (env_limits env)"
    using assms(1) by (auto simp: retain_def result_simps Let_def p_def c2_def split: if_splits)
  have p: "packet_ok (c2\<lparr>cf_retained := n, cf_packets := ps\<rparr>) p" for n ps
    using assms by (simp add: packet_ok_def p_def c2_def)
  have old: "list_all (packet_ok (c2\<lparr>cf_retained := n, cf_packets := ps\<rparr>)) (cf_packets c)"
      "list_all (packet_ok (c2\<lparr>cf_omitted := n\<rparr>)) (cf_packets c)" for n ps
    using assms(2) by (auto simp: capture_inv_def list_all_iff c2_def packet_ok_def)
  show ?thesis
  proof (cases "\<not> l_retain (env_limits env) \<or> cf_omitted c2 \<noteq> 0 \<or> max_packets \<le> length (cf_packets c2)
         \<or> max_retained_bytes < cf_retained c2 + length (p_bytes p)")
    case True
    then have "c' = c2\<lparr>cf_omitted := cf_omitted c2 + 1\<rparr>"
      by (simp only: c' retain_packet_def if_True)
    with assms(2) c'(2) old(2) show ?thesis
      by (simp add: capture_inv_def) (simp add: c2_def)
  next
    case False
    then have eq: "c' = c2\<lparr>cf_retained := cf_retained c2 + length (p_bytes p),
        cf_packets := cf_packets c2 @ [p]\<rparr>"
      by (simp only: c' retain_packet_def if_False)
    have n: "p_number p = Suc (length (cf_packets c))" "cf_omitted c = 0"
      using False assms(2) by (auto simp: p_def c2_def capture_inv_def)
    from False assms(2) c'(2) old(1) p n show ?thesis
      by (simp add: eq capture_inv_def) (simp add: c2_def numbered_snoc)
  qed
qed

lemma input_bytes_length: "input_bytes env n m inp = Inr (bs, inp') \<Longrightarrow> length bs = n \<and> n \<le> m"
  by (auto simp: input_bytes_def result_simps dest: read_exact_unread)

lemma pcap_record_inv:
  assumes "pcap_record env ph off h (c, inp) = Inr (c', inp')"
    and "capture_inv (env_limits env) c" "cf_interfaces c \<noteq> []"
  shows "capture_inv (env_limits env) c' \<and> cf_interfaces c' = cf_interfaces c"
proof -
  obtain bs i1 ts original where b: "input_bytes env (e_u32 (ph_le ph) (drop 8 h)) max_packet_bytes inp = Inr (bs, i1)"
    and r: "retain env 0 off ts (e_u32 (ph_le ph) (drop 12 h)) bs (c, i1) = Inr (c', inp')"
    and l: "e_u32 (ph_le ph) (drop 8 h) \<le> e_u32 (ph_le ph) (drop 12 h)"
    using assms(1) by (auto simp: pcap_record_def result_simps Let_def)
  from retain_inv [OF r assms(2)] assms(3) l input_bytes_length [OF b] show ?thesis
    by simp
qed

lemma pcap_loop_inv:
  "pcap_loop env ph ci = Inr ci' \<Longrightarrow> capture_inv (env_limits env) (fst ci) \<Longrightarrow>
     cf_interfaces (fst ci) \<noteq> [] \<Longrightarrow>
     capture_inv (env_limits env) (fst ci') \<and> cf_interfaces (fst ci') = cf_interfaces (fst ci)"
proof (induction env ph ci arbitrary: ci' rule: pcap_loop.induct)
  case (1 env ph c inp)
  obtain h i1 where n: "input_next env 16 inp = Inr (h, i1)"
    using "1.prems"(1) by (auto simp: pcap_loop.simps [of env ph c inp] split: sum.splits)
  show ?case
  proof (cases h)
    case None
    with "1.prems" n show ?thesis
      by (auto simp: pcap_loop.simps [of env ph c inp])
  next
    case (Some hd)
    with "1.prems"(1) n obtain c2 i2 where
      r: "pcap_record env ph (in_count inp) hd (c, i1) = Inr (c2, i2)"
      and l: "pcap_loop env ph (c2, i2) = Inr ci'"
      by (auto simp: pcap_loop.simps [of env ph c inp] split: sum.splits)
    from pcap_record_inv [OF r] "1.prems"(2,3)
    have c2: "capture_inv (env_limits env) c2" "cf_interfaces c2 = cf_interfaces c"
      by simp_all
    with "1.IH" [OF n refl Some r refl l] "1.prems"(3) show ?thesis
      by simp
  qed
qed

lemma empty_capture_inv [simp]: "capture_inv lim (empty_capture f)"
  by (simp add: capture_inv_def empty_capture_def)

lemma read_pcap_facts:
  assumes "read_pcap env magic (empty_capture f, inp) = Inr (c', inp')"
  shows "capture_inv (env_limits env) c' \<and> length (cf_interfaces c') = 1 \<and> advances inp inp'
    \<and> at_end env inp'"
proof -
  obtain ph c1 i1 i where s: "c1 = (empty_capture f)\<lparr>cf_interfaces := cf_interfaces (empty_capture f) @ [i]\<rparr>"
    and l: "pcap_loop env ph (c1, i1) = Inr (c', inp')" and a: "advances inp i1"
    using assms by (auto simp: read_pcap_def pcap_start_def result_simps Let_def dest!: input_exact_advances)
  have "capture_inv (env_limits env) c1" "length (cf_interfaces c1) = 1"
    using capture_inv_interfaces [OF empty_capture_inv] by (simp_all add: s) (simp add: empty_capture_def)
  then have "capture_inv (env_limits env) c'" "length (cf_interfaces c') = 1"
    using pcap_loop_inv [OF l] by (cases "cf_interfaces c1"; auto)+
  with pcap_loop_end [OF l] a show ?thesis
    by (auto intro: advances_trans)
qed

subsection \<open>PCAPNG\<close>

definition ng_inv :: "limits \<Rightarrow> ng_state \<Rightarrow> capture_file \<Rightarrow> bool" where
  "ng_inv lim st c \<longleftrightarrow> capture_inv lim c \<and>
     list_all (\<lambda>g. g < length (cf_interfaces c)) (ng_ifaces st) \<and>
     length (cf_interfaces c) \<le> max_interfaces"

lemma ng_frame_state:
  "ng_frame env kind st inp = Inr (st', off, body, inp') \<Longrightarrow> ng_ifaces st' = ng_ifaces st"
  by (auto simp: ng_frame_def result_simps Let_def split: if_splits)

lemma nth_option_Some: "nth_option xs i = Some x \<Longrightarrow> x \<in> set xs"
  by (auto simp: nth_option_def split: if_splits)

lemma ng_packet_block_inv:
  assumes "ng_packet_block env t off body st (c, inp) = Inr (c', inp')" "ng_inv (env_limits env) st c"
  shows "ng_inv (env_limits env) st c'"
proof -
  obtain g ts n where g: "g \<in> set (ng_ifaces st)"
    and r: "retain env g off ts (e_u32 (ng_le st) (drop 16 body)) (take n (drop 20 body)) (c, inp)
      = Inr (c', inp')"
    and n: "n \<le> e_u32 (ng_le st) (drop 16 body)" "n \<le> max_packet_bytes"
    using assms(1)
    by (auto simp: ng_packet_block_def result_simps Let_def dest!: nth_option_Some)
  have "g < length (cf_interfaces c)"
    using g assms(2) by (auto simp: ng_inv_def list_all_iff)
  with retain_inv [OF r] n assms(2) show ?thesis
    by (simp add: ng_inv_def)
qed

lemma ng_simple_block_inv:
  assumes "ng_simple_block env off body st (c, inp) = Inr (c', inp')" "ng_inv (env_limits env) st c"
  shows "ng_inv (env_limits env) st c'"
proof -
  obtain g n where g: "g \<in> set (ng_ifaces st)"
    and r: "retain env g off None (e_u32 (ng_le st) body) (take n (drop 4 body)) (c, inp)
      = Inr (c', inp')"
    and n: "n \<le> e_u32 (ng_le st) body" "n \<le> max_packet_bytes"
    using assms(1)
    by (auto simp: ng_simple_block_def result_simps Let_def dest!: nth_option_Some split: if_splits)
  have "g < length (cf_interfaces c)"
    using g assms(2) by (auto simp: ng_inv_def list_all_iff)
  with retain_inv [OF r] n assms(2) show ?thesis
    by (simp add: ng_inv_def)
qed

lemma ng_interface_block_inv:
  assumes "ng_interface_block body st c = Inr (st', c')" "ng_inv lim st c"
  shows "ng_inv lim st' c'"
proof -
  obtain i where c': "c' = c\<lparr>cf_interfaces := cf_interfaces c @ [i]\<rparr>"
      "st' = st\<lparr>ng_ifaces := ng_ifaces st @ [length (cf_interfaces c)]\<rparr>"
      "length (cf_interfaces c) < max_interfaces"
    using assms(1) by (auto simp: ng_interface_block_def result_simps Let_def)
  then show ?thesis
    using assms(2) capture_inv_interfaces [of lim c "[i]"]
    by (auto simp: ng_inv_def list_all_iff)
qed

lemma ng_section_header_inv:
  "ng_section_header body n st = Inr st' \<Longrightarrow> ng_inv lim st c \<Longrightarrow> ng_inv lim st' c"
  by (auto simp: ng_section_header_def result_simps Let_def ng_inv_def split: if_splits)

lemma ng_block_inv:
  assumes "ng_block env kind (st, c, inp) = Inr (st', c', inp')" "ng_inv (env_limits env) st c"
  shows "ng_inv (env_limits env) st' c'"
proof -
  obtain st1 off body i1 where f: "ng_frame env kind st inp = Inr (st1, off, body, i1)"
    using assms(1) by (auto simp: ng_block_def result_simps)
  have inv: "ng_inv (env_limits env) st1 c"
    using assms(2) ng_frame_state [OF f] by (simp add: ng_inv_def)
  have aux: "ng_inv (env_limits env) st1 (c\<lparr>cf_auxiliary := n\<rparr>)" for n
    using inv by (auto simp: ng_inv_def capture_inv_def list_all_iff packet_ok_def)
  from assms(1) f inv aux show ?thesis
    by (auto simp: ng_block_def result_simps Let_def split: if_splits
        intro: ng_packet_block_inv ng_simple_block_inv ng_interface_block_inv ng_section_header_inv)
qed

lemma ng_loop_inv:
  "ng_loop env kind s = Inr s' \<Longrightarrow> ng_inv (env_limits env) (fst s) (fst (snd s)) \<Longrightarrow>
     ng_inv (env_limits env) (fst s') (fst (snd s'))"
proof (induction env kind s arbitrary: s' rule: ng_loop.induct)
  case (1 env kind st c inp)
  obtain st1 c1 i1 where b: "ng_block env kind (st, c, inp) = Inr (st1, c1, i1)"
    using "1.prems"(1) by (auto simp: ng_loop.simps [of env kind st c inp] split: sum.splits)
  with "1.prems"(1) obtain h i2 where n: "input_next env 4 i1 = Inr (h, i2)"
    by (auto simp: ng_loop.simps [of env kind st c inp] split: sum.splits)
  have inv: "ng_inv (env_limits env) st1 c1"
    using ng_block_inv [OF b] "1.prems"(2) by simp
  show ?case
  proof (cases h)
    case None
    with "1.prems"(1) n b inv show ?thesis
      by (auto simp: ng_loop.simps [of env kind st c inp])
  next
    case (Some k)
    with "1.prems"(1) n b have l: "ng_loop env k (st1, c1, i2) = Inr s'"
      by (simp add: ng_loop.simps [of env kind st c inp])
    from "1.IH" [OF b refl refl n refl Some l] inv show ?thesis by simp
  qed
qed

lemma read_ng_facts:
  assumes "read_ng env magic (empty_capture f, inp) = Inr (c', inp')"
  shows "capture_inv (env_limits env) c' \<and> length (cf_interfaces c') \<le> max_interfaces \<and>
    advances inp inp' \<and> at_end env inp'"
proof -
  obtain st where l: "ng_loop env magic (ng_initial, empty_capture f, inp) = Inr (st, c', inp')"
    using assms by (auto simp: read_ng_def result_simps)
  have "ng_inv (env_limits env) ng_initial (empty_capture f)"
    by (simp add: ng_inv_def ng_initial_def) (simp add: empty_capture_def)
  with ng_loop_inv [OF l] ng_loop_end [OF l] show ?thesis
    by (simp add: ng_inv_def)
qed

lemma read_with_facts:
  assumes "read_with sha env data s = Inr (c, s')"
  shows "cf_file_bytes c = length data" "cf_sha256 c = sha data" "capture_inv (env_limits env) c"
    "length (cf_interfaces c) \<le> max_interfaces" "length data \<le> l_bytes (env_limits env)"
proof -
  obtain magic i1 c1 i2 where e: "input_exact env 4 \<lparr>unread = data, in_count = 0, in_sink = s\<rparr> = Inr (magic, i1)"
    and r: "(if magic = ng_magic then read_ng env magic (empty_capture PcapNg, i1)
       else read_pcap env magic (empty_capture Pcap, i1)) = Inr (c1, i2)"
    and c: "c = c1\<lparr>cf_file_bytes := in_count i2, cf_sha256 := sha (take (in_count i2) data)\<rparr>"
    using assms by (auto simp: read_with_def result_simps)
  have f: "capture_inv (env_limits env) c1 \<and> length (cf_interfaces c1) \<le> max_interfaces \<and>
      advances i1 i2 \<and> at_end env i2"
  proof (cases "magic = ng_magic")
    case True
    with r read_ng_facts [of env magic PcapNg i1 c1 i2] show ?thesis by simp
  next
    case False
    with r read_pcap_facts [of env magic Pcap i1 c1 i2] show ?thesis
      by (simp add: max_interfaces_def)
  qed
  then have a: "advances i1 i2" "unread i2 = []" "in_count i2 \<le> l_bytes (env_limits env)"
    by (simp_all add: at_end_def)
  from advances_trans [OF input_exact_advances [OF e] a(1)] a(2)
  have "in_count i2 = length data"
    by (rule advances_from_start)
  then show "cf_file_bytes c = length data" "cf_sha256 c = sha data"
      "length data \<le> l_bytes (env_limits env)"
    using a(3) by (simp_all add: c)
  show "capture_inv (env_limits env) c" "length (cf_interfaces c) \<le> max_interfaces"
    using f by (simp_all add: c)
qed

text \<open>A link type of 16 bits leaves the reserved bits of the PCAP header clear.\<close>

lemma reserved_bits:
  assumes "link < 2 ^ 16"
  shows "(word_of_nat link :: 32 word) AND 0x0bff0000 = 0"
proof -
  have "(word_of_nat link :: 32 word) = take_bit 16 (word_of_nat link)"
    using assms by (simp add: word_unat_eq_iff unsigned_take_bit_eq unat_of_nat take_bit_nat_eq_self)
  then have "(word_of_nat link :: 32 word) = word_of_nat link AND mask 16"
    by (simp only: take_bit_eq_mask)
  then have "(word_of_nat link :: 32 word) AND 0x0bff0000 = word_of_nat link AND (mask 16 AND 0x0bff0000)"
    by (metis and.assoc)
  also have "mask 16 AND (0x0bff0000 :: 32 word) = 0"
    by (simp add: mask_eq_exp_minus_1)
  finally show ?thesis by simp
qed

end
