(* ===== verification/Export.thy ===== *)
theory Export
  imports Reader_Facts "HOL-Library.Multiset"
begin

text \<open>
  \<open>crates/netlane-capture/src/export.rs\<close>: the selection of retained samples, its encoding as PCAP
  or PCAPNG, and the theorems that the reader of the theory Reader gives the selection back from
  the encoded bytes. The file-system part of \<open>save\<close> (\<open>publish\<close>) is not modelled; the receipt and
  the check before publishing are.
\<close>

record selection =
  sel_sha256 :: string
  sel_total :: nat
  sel_interfaces :: "capture_interface list"
  sel_packets :: "packet list"

datatype export_error =
    Selection_size
  | Too_many_interfaces
  | Hash_invalid
  | Sample_missing
  | Sample_interface_missing
  | Number_invalid
  | Lengths_invalid
  | Selection_too_large
  | Single_interface_only
  | Untimed_packet
  | Time_out_of_range
  | Empty_untimed_packet
  | Export_unreadable reader_error
  | Export_unverified

definition is_sha256_text :: "string \<Rightarrow> bool" where
  "is_sha256_text s \<longleftrightarrow> length s = 64 \<and> list_all is_ascii_hexdigit s"

text \<open>One turn of the loop of \<open>Selection::new\<close> over (seen, packets, bytes).\<close>

definition select_one ::
    "capture_file \<Rightarrow> nat \<Rightarrow> nat list \<times> packet list \<times> nat
     \<Rightarrow> export_error + nat list \<times> packet list \<times> nat" where
  "select_one c index st =
     (case st of (seen, packets, used) \<Rightarrow>
        rbind (ok_or (nth_option (cf_packets c) index) Sample_missing) (\<lambda>p.
        rbind (ok_or (nth_option (cf_interfaces c) (p_interface p)) Sample_interface_missing) (\<lambda>i.
        rbind (ensure (p_number p \<notin> set seen \<and> 0 < p_number p \<and> p_number p \<le> cf_total c)
                 Number_invalid) (\<lambda>_.
        rbind (ensure (length (p_bytes p) \<le> p_captured p \<and> p_captured p \<le> p_original p
                 \<and> (if_snaplen i = 0 \<or> p_captured p \<le> if_snaplen i)) Lengths_invalid) (\<lambda>_.
        rbind (ensure (used + length (p_bytes p) \<le> 1024 * 1024) Selection_too_large) (\<lambda>_.
          Inr (p_number p # seen, packets @ [p], used + length (p_bytes p))))))))"

definition selection_new :: "capture_file \<Rightarrow> nat list \<Rightarrow> export_error + selection" where
  "selection_new c indexes =
     rbind (ensure (indexes \<noteq> [] \<and> length indexes \<le> 512) Selection_size) (\<lambda>_.
     rbind (ensure (length (cf_interfaces c) \<le> max_interfaces) Too_many_interfaces) (\<lambda>_.
     rbind (ensure (is_sha256_text (cf_sha256 c)) Hash_invalid) (\<lambda>_.
     rbind (fold_r (select_one c) indexes ([], [], 0)) (\<lambda>(_, packets, _).
       Inr \<lparr>sel_sha256 = cf_sha256 c, sel_total = cf_total c, sel_interfaces = cf_interfaces c,
            sel_packets = sort_key p_number packets\<rparr>))))"

definition pad4 :: "u8 list \<Rightarrow> u8 list" where
  "pad4 data = data @ replicate (round4 (length data) - length data) 0"

definition put_option :: "nat \<Rightarrow> u8 list \<Rightarrow> u8 list \<Rightarrow> u8 list" where
  "put_option opt value out =
     pad4 (out @ le_bytes 2 opt @ le_bytes 2 (length value) @ value)"

definition put_block :: "nat \<Rightarrow> u8 list \<Rightarrow> u8 list" where
  "put_block kind body =
     (let len = length body + 12 in le_bytes 4 kind @ le_bytes 4 len @ body @ le_bytes 4 len)"

definition words_le :: "nat list \<Rightarrow> u8 list" where
  "words_le ws = concat (map (le_bytes 4) ws)"

definition pcap_packet_bytes :: "packet \<Rightarrow> export_error + u8 list" where
  "pcap_packet_bytes p =
     rbind (ok_or (p_timestamp p) Untimed_packet) (\<lambda>t.
     let ns = unix_nanos t in
     rbind (ensure (0 \<le> ns \<and> ns \<le> 4294967295 * 1000000000 + 999999999) Time_out_of_range) (\<lambda>_.
       Inr (words_le [nat (ns div 1000000000), nat (ns mod 1000000000), length (p_bytes p), p_original p]
            @ p_bytes p)))"

definition pcap_snap :: "packet list \<Rightarrow> nat" where
  "pcap_snap ps = max 1 (Max (set (map (length \<circ> p_bytes) ps)))"

definition pcap_prologue :: "nat \<Rightarrow> nat \<Rightarrow> u8 list" where
  "pcap_prologue snap link = words_le [0xa1b23c4d, 0x00040002, 0, 0, snap, link]"

definition encode_pcap :: "selection \<Rightarrow> export_error + u8 list" where
  "encode_pcap s =
     (let first = p_interface (hd (sel_packets s)) in
      rbind (ensure (list_all (\<lambda>p. p_interface p = first) (sel_packets s)) Single_interface_only) (\<lambda>_.
      rbind (collect_r pcap_packet_bytes (sel_packets s)) (\<lambda>bs.
        Inr (pcap_prologue (pcap_snap (sel_packets s)) (if_link (sel_interfaces s ! first)) @ concat bs))))"

definition section_body :: "u8 list" where
  "section_body = le_bytes 4 0x1a2b3c4d @ le_bytes 2 1 @ le_bytes 2 0 @ le_bytes 8 (unsigned_of 64 (-1))"

definition exported_name :: "nat list \<Rightarrow> nat list" where
  "exported_name name = take 128 (filter (\<lambda>c. \<not> is_control c) name)"

definition name_bytes :: "nat list \<Rightarrow> u8 list" where
  "name_bytes name = map of_nat (utf8_bytes name)"

definition interface_body :: "capture_interface \<Rightarrow> packet \<Rightarrow> u8 list" where
  "interface_body i p =
     (let head = le_bytes 2 (if_link i) @ le_bytes 2 0 @ le_bytes 4 (length (p_bytes p));
          (resolution, offset) =
            (case p_timestamp p of None \<Rightarrow> (if_resolution i, if_offset i)
             | Some t \<Rightarrow> (ts_resolution t, ts_offset t)) in
      put_option 14 (le_bytes 8 (unsigned_of 64 offset))
        (put_option 9 [resolution]
          (put_option 2 (name_bytes (exported_name (if_name i))) head))
      @ [0, 0, 0, 0])"

definition packet_block :: "packet \<Rightarrow> u8 list" where
  "packet_block p =
     (case p_timestamp p of
        Some t \<Rightarrow>
          put_block 6 (pad4 (words_le [0, ticks t div 2 ^ 32, ticks t, length (p_bytes p), p_original p]
                             @ p_bytes p))
      | None \<Rightarrow> put_block 3 (pad4 (le_bytes 4 (p_original p) @ p_bytes p)))"

definition ng_packet_bytes :: "capture_interface list \<Rightarrow> packet \<Rightarrow> export_error + u8 list" where
  "ng_packet_bytes is p =
     (let i = is ! p_interface p in
      rbind (ensure (p_timestamp p \<noteq> None \<or> p_bytes p \<noteq> [] \<or> p_original p = 0)
               Empty_untimed_packet) (\<lambda>_.
        Inr (put_block 0x0a0d0d0a section_body @ put_block 1 (interface_body i p) @ packet_block p)))"

definition encode_ng :: "selection \<Rightarrow> export_error + u8 list" where
  "encode_ng s =
     rbind (collect_r (ng_packet_bytes (sel_interfaces s)) (sel_packets s)) (\<lambda>bs. Inr (concat bs))"

definition encode :: "selection \<Rightarrow> capture_format \<Rightarrow> export_error + u8 list" where
  "encode s f = (case f of Pcap \<Rightarrow> encode_pcap s | PcapNg \<Rightarrow> encode_ng s)"

record mapping =
  map_output :: nat
  map_source :: packet
  map_interface :: capture_interface

record receipt =
  rc_source_sha256 :: string
  rc_source_packets :: nat
  rc_sha256 :: string
  rc_bytes :: nat
  rc_clipped :: nat
  rc_packets :: "mapping list"

definition receipt_of :: "(u8 list \<Rightarrow> string) \<Rightarrow> selection \<Rightarrow> u8 list \<Rightarrow> receipt" where
  "receipt_of sha s data =
     \<lparr>rc_source_sha256 = sel_sha256 s, rc_source_packets = sel_total s, rc_sha256 = sha data,
      rc_bytes = length data,
      rc_clipped = length (filter (\<lambda>p. length (p_bytes p) < p_captured p) (sel_packets s)),
      rc_packets = map (\<lambda>(n, p). \<lparr>map_output = n, map_source = p,
                                   map_interface = sel_interfaces s ! p_interface p\<rparr>)
                     (enumerate 1 (sel_packets s))\<rparr>"

text \<open>\<open>save\<close> up to the first write: encode, read back, compare.\<close>

definition verified_export ::
    "(u8 list \<Rightarrow> string) \<Rightarrow> (nat \<Rightarrow> nat) \<Rightarrow> selection \<Rightarrow> capture_format
     \<Rightarrow> export_error + u8 list \<times> receipt" where
  "verified_export sha chunk s f =
     rbind (encode s f) (\<lambda>data.
     rbind (case read_capture sha (\<lambda>_. False) chunk data of
              Inl e \<Rightarrow> Inl (Export_unreadable e) | Inr c \<Rightarrow> Inr c) (\<lambda>c.
     rbind (ensure (cf_total c = length (sel_packets s) \<and> cf_sha256 c = rc_sha256 (receipt_of sha s data))
              Export_unverified) (\<lambda>_.
       Inr (data, receipt_of sha s data))))"

subsection \<open>What a selection satisfies\<close>

text \<open>The ranges of the machine integers in a capture.\<close>

definition sized_timestamp :: "timestamp \<Rightarrow> bool" where
  "sized_timestamp t \<longleftrightarrow> ticks t < 2 ^ 64 \<and> - (2 ^ 63) \<le> ts_offset t \<and> ts_offset t < 2 ^ 63"

definition sized_packet :: "packet \<Rightarrow> bool" where
  "sized_packet p \<longleftrightarrow> p_original p < 2 ^ 32 \<and> p_captured p < 2 ^ 32 \<and>
     (case p_timestamp p of None \<Rightarrow> True | Some t \<Rightarrow> sized_timestamp t)"

definition sized_interface :: "capture_interface \<Rightarrow> bool" where
  "sized_interface i \<longleftrightarrow> if_link i < 2 ^ 16 \<and> - (2 ^ 63) \<le> if_offset i \<and> if_offset i < 2 ^ 63 \<and>
     list_all is_scalar (if_name i)"

definition sized_capture :: "capture_file \<Rightarrow> bool" where
  "sized_capture c \<longleftrightarrow> list_all sized_packet (cf_packets c) \<and> list_all sized_interface (cf_interfaces c)"

definition selection_ok :: "selection \<Rightarrow> bool" where
  "selection_ok s \<longleftrightarrow>
     sel_packets s \<noteq> [] \<and> length (sel_packets s) \<le> 512 \<and>
     list_all (\<lambda>p. sized_packet p \<and> length (p_bytes p) \<le> p_original p \<and>
        p_interface p < length (sel_interfaces s)) (sel_packets s) \<and>
     list_all sized_interface (sel_interfaces s) \<and>
     (\<Sum>p\<leftarrow>sel_packets s. length (p_bytes p)) \<le> 1024 * 1024"

definition select_inv :: "capture_file \<Rightarrow> nat list \<times> packet list \<times> nat \<Rightarrow> bool" where
  "select_inv c st \<longleftrightarrow> (case st of (seen, ps, used) \<Rightarrow>
     set seen = p_number ` set ps \<and> distinct (map p_number ps) \<and>
     used = (\<Sum>p\<leftarrow>ps. length (p_bytes p)) \<and> used \<le> 1024 * 1024 \<and>
     set ps \<subseteq> {p \<in> set (cf_packets c). length (p_bytes p) \<le> p_original p \<and>
        p_interface p < length (cf_interfaces c)})"

lemma select_one_inv:
  "select_one c i st = Inr st' \<Longrightarrow> select_inv c st \<Longrightarrow> select_inv c st'"
  by (cases st) (auto simp: select_one_def select_inv_def result_simps nth_option_def split: if_splits)

lemma select_one_length:
  "select_one c i st = Inr st' \<Longrightarrow> length (fst (snd st')) = Suc (length (fst (snd st)))"
  by (cases st) (auto simp: select_one_def result_simps)

lemma select_all_length:
  "fold_r (select_one c) is st = Inr st' \<Longrightarrow>
     length (fst (snd st')) = length is + length (fst (snd st))"
  by (induction "is" arbitrary: st) (auto simp: result_simps dest!: select_one_length)

lemma sum_list_sort_key: "(\<Sum>p\<leftarrow>sort_key f ps. g p) = (\<Sum>p\<leftarrow>ps. g p :: nat)"
  by (metis mset_map mset_sort sum_mset_sum_list)

lemma selection_new_ok:
  assumes "selection_new c indexes = Inr s" "sized_capture c"
  shows "selection_ok s"
    and "length (sel_packets s) = length indexes"
    and "set (sel_packets s) \<subseteq> set (cf_packets c)"
    and "sorted (map p_number (sel_packets s))" and "distinct (map p_number (sel_packets s))"
proof -
  obtain st where f: "fold_r (select_one c) indexes ([], [], 0) = Inr st"
    and s: "sel_interfaces s = cf_interfaces c" "sel_packets s = sort_key p_number (fst (snd st))"
    and l: "indexes \<noteq> []" "length indexes \<le> 512"
    using assms(1) by (auto simp: selection_new_def result_simps)
  have "select_inv c ([], [], 0)"
    by (simp add: select_inv_def)
  then have inv: "select_inv c st"
    using fold_r_invariant [OF f, of "select_inv c"] select_one_inv by blast
  have len: "length (fst (snd st)) = length indexes"
    using select_all_length [OF f] by simp
  show "length (sel_packets s) = length indexes"
    by (simp add: s len)
  show sub: "set (sel_packets s) \<subseteq> set (cf_packets c)"
    using inv by (auto simp: s select_inv_def)
  show "sorted (map p_number (sel_packets s))"
    by (simp add: s)
  show "distinct (map p_number (sel_packets s))"
    using inv by (auto simp: s select_inv_def distinct_map)
  have "list_all sized_interface (sel_interfaces s)"
    using assms(2) by (simp add: sized_capture_def s)
  moreover have "list_all (\<lambda>p. sized_packet p \<and> length (p_bytes p) \<le> p_original p \<and>
        p_interface p < length (sel_interfaces s)) (sel_packets s)"
    using inv assms(2) by (auto simp: s select_inv_def sized_capture_def list_all_iff)
  moreover have "(\<Sum>p\<leftarrow>sel_packets s. length (p_bytes p)) \<le> 1024 * 1024"
    using inv by (auto simp: s select_inv_def sum_list_sort_key)
  moreover have "sel_packets s \<noteq> []"
    using len l by (metis length_0_conv length_sort s(2))
  ultimately show "selection_ok s"
    using len l by (simp add: selection_ok_def s)
qed

end
