(* ===== verification/Round_Trip.thy ===== *)
theory Round_Trip
  imports Export
begin

text \<open>
  The reader undoes the exporter. The reader runs here without cancellation, over any source that
  returns its bytes in pieces of any size.
\<close>

subsection \<open>Reading known bytes\<close>

abbreviation quiet :: "(nat \<Rightarrow> nat) \<Rightarrow> unit reader_env" where
  "quiet chunk \<equiv> plain_env (\<lambda>_. False) chunk"

abbreviation src :: "u8 list \<Rightarrow> nat \<Rightarrow> unit input" where
  "src d n \<equiv> \<lparr>unread = d, in_count = n, in_sink = ()\<rparr>"

lemma plain_env_simps [simp]:
  "env_cancel (plain_env cancel chunk) = cancel" "env_chunk (plain_env cancel chunk) = chunk"
  "l_bytes (env_limits (plain_env cancel chunk)) = max_file_bytes"
  "l_records (env_limits (plain_env cancel chunk)) = 1000000"
  "l_retain (env_limits (plain_env cancel chunk))"
  "env_packet (plain_env cancel chunk) p i s = Inr ()"
  "env_progress (plain_env cancel chunk) m s = ()"
  by (simp_all add: plain_env_def)

lemma read_once_quiet:
  assumes "n + length d \<le> max_file_bytes"
  shows "\<exists>k. k \<le> m \<and> k \<le> length d \<and> (0 < m \<longrightarrow> d \<noteq> [] \<longrightarrow> 0 < k) \<and>
    read_once (quiet chunk) m (src d n) = Inr (take k d, src (drop k d) (n + k))"
proof -
  let ?k = "min (min m (max_file_bytes - n + 1)) (min (length d) (Suc (chunk n)))"
  have "n + ?k \<le> max_file_bytes"
    using assms by auto
  then show ?thesis
    by (intro exI [where x = ?k]) (auto simp: read_once_def Let_def)
qed

lemma read_exact_quiet:
  "n + length (a @ d) \<le> max_file_bytes \<Longrightarrow>
     read_exact (quiet chunk) (length a) (src (a @ d) n) = Inr (a, src d (n + length a))"
proof (induction a arbitrary: n rule: length_induct)
  case (1 a)
  show ?case
  proof (cases "a = []")
    case True
    then show ?thesis by (simp add: read_exact.simps)
  next
    case False
    obtain k where k: "k \<le> length a" "0 < length a \<longrightarrow> a @ d \<noteq> [] \<longrightarrow> 0 < k"
      and o: "read_once (quiet chunk) (length a) (src (a @ d) n)
        = Inr (take k (a @ d), src (drop k (a @ d)) (n + k))"
      using read_once_quiet [OF "1.prems", of "length a" chunk] by blast
    have "0 < k" using k(2) False by simp
    have t: "take k (a @ d) = take k a" "drop k (a @ d) = drop k a @ d"
      using k by simp_all
    have "read_exact (quiet chunk) (length (drop k a)) (src (drop k a @ d) (n + k))
        = Inr (drop k a, src d (n + k + length (drop k a)))"
      using "1.prems" k \<open>0 < k\<close> by (intro "1.IH" [rule_format]) auto
    moreover have "length a - length (take k a) = length (drop k a)" "take k a \<noteq> []"
      using k \<open>0 < k\<close> False by auto
    ultimately show ?thesis
      using o k False by (simp add: read_exact.simps [of _ "length a"] t)
  qed
qed

lemma read_exact_quiet':
  "n + length (a @ d) \<le> max_file_bytes \<Longrightarrow> m = length a \<Longrightarrow>
     read_exact (quiet chunk) m (src (a @ d) n) = Inr (a, src d (n + m))"
  by (simp add: read_exact_quiet)

lemma input_exact_quiet:
  "n + length (a @ d) \<le> max_file_bytes \<Longrightarrow> m = length a \<Longrightarrow>
     input_exact (quiet chunk) m (src (a @ d) n) = Inr (a, src d (n + m))"
  using read_exact_quiet' [of n a d m] by (simp add: input_exact_def)

lemma input_bytes_quiet:
  "n + length (a @ d) \<le> max_file_bytes \<Longrightarrow> m = length a \<Longrightarrow> m \<le> lim \<Longrightarrow>
     input_bytes (quiet chunk) m lim (src (a @ d) n) = Inr (a, src d (n + m))"
  using read_exact_quiet' [of n a d m] by (simp add: input_bytes_def)

lemma input_next_quiet_end:
  "n \<le> max_file_bytes \<Longrightarrow> input_next (quiet chunk) m (src [] n) = Inr (None, src [] n)"
  using read_once_quiet [of n "[]" 1 chunk] by (auto simp: input_next_def)

lemma input_next_quiet:
  assumes "n + length (a @ d) \<le> max_file_bytes" "m = length a" "a \<noteq> []"
  shows "input_next (quiet chunk) m (src (a @ d) n) = Inr (Some a, src d (n + m))"
proof -
  obtain b a' where a: "a = b # a'" using assms(3) by (cases a) auto
  obtain k where k: "k \<le> 1" "0 < (1::nat) \<longrightarrow> a @ d \<noteq> [] \<longrightarrow> 0 < k"
    and o: "read_once (quiet chunk) 1 (src (a @ d) n)
        = Inr (take k (a @ d), src (drop k (a @ d)) (n + k))"
    using read_once_quiet [OF assms(1), of 1 chunk] by (elim exE conjE) (rule that)
  have "k = 1" using k assms(3) by simp
  with o have "read_once (quiet chunk) 1 (src (a @ d) n) = Inr ([b], src (a' @ d) (n + 1))"
    by (simp add: a)
  moreover have "read_exact (quiet chunk) (m - 1) (src (a' @ d) (n + 1)) = Inr (a', src d (n + m))"
    using read_exact_quiet' [of "n + 1" a' d "m - 1"] assms by (simp add: a)
  ultimately show ?thesis
    by (simp add: input_next_def a with_context_def)
qed

subsection \<open>Fields\<close>

lemma e_u32_le [simp]: "e_u32 True (le_bytes 4 v @ r) = v mod 2 ^ 32"
  by (simp add: e_u32_def e_uint_def)

lemma e_u32_le' [simp]: "e_u32 True (le_bytes 4 v) = v mod 2 ^ 32"
  using e_u32_le [of v "[]"] by simp

lemma e_u16_le [simp]: "e_u16 True (le_bytes 2 v @ r) = v mod 2 ^ 16"
  by (simp add: e_u16_def e_uint_def)

lemma words_le_simps [simp]:
  "words_le [] = []" "words_le (w # ws) = le_bytes 4 w @ words_le ws"
  by (simp_all add: words_le_def)

lemma drop_words:
  "drop 4 (le_bytes 4 v @ r) = r" "drop 8 (le_bytes 4 v @ le_bytes 4 w @ r) = r"
  "drop 12 (le_bytes 4 v @ le_bytes 4 w @ le_bytes 4 x @ r) = r"
  "drop 16 (le_bytes 4 v @ le_bytes 4 w @ le_bytes 4 x @ le_bytes 4 y @ r) = r"
  by simp_all

subsection \<open>Retention\<close>

text \<open>There is room for \<open>k\<close> more packets of \<open>b\<close> bytes together.\<close>

definition room :: "capture_file \<Rightarrow> nat \<Rightarrow> nat \<Rightarrow> bool" where
  "room c k b \<longleftrightarrow> cf_omitted c = 0 \<and> cf_total c + k \<le> 1000000 \<and>
     length (cf_packets c) + k \<le> max_packets \<and> cf_retained c + b \<le> max_retained_bytes"

definition push ::
    "capture_file \<Rightarrow> nat \<Rightarrow> nat \<Rightarrow> timestamp option \<Rightarrow> nat \<Rightarrow> u8 list \<Rightarrow> capture_file" where
  "push c i off ts original bytes =
     c\<lparr>cf_total := cf_total c + 1,
       cf_truncated := cf_truncated c + (if length bytes < original then 1 else 0),
       cf_retained := cf_retained c + length bytes,
       cf_packets := cf_packets c @
         [\<lparr>p_number = cf_total c + 1, p_file_offset = off, p_interface = i, p_timestamp = ts,
           p_original = original, p_captured = length bytes, p_bytes = bytes\<rparr>]\<rparr>"

lemma retain_quiet:
  assumes "room c (Suc k) (length bytes + b)"
  shows "retain (quiet chunk) i off ts original bytes (c, src d n)
    = Inr (push c i off ts original bytes, src d n)"
    and "room (push c i off ts original bytes) k b"
  using assms
  by (auto simp: retain_def retain_packet_def room_def push_def Let_def)

lemma push_fields [simp]:
  "cf_interfaces (push c i off ts original bytes) = cf_interfaces c"
  "cf_total (push c i off ts original bytes) = Suc (cf_total c)"
  "cf_omitted (push c i off ts original bytes) = cf_omitted c"
  "cf_packets (push c i off ts original bytes) = cf_packets c @
     [\<lparr>p_number = Suc (cf_total c), p_file_offset = off, p_interface = i, p_timestamp = ts,
       p_original = original, p_captured = length bytes, p_bytes = bytes\<rparr>]"
  by (simp_all add: push_def)

lemma room_interfaces [simp]: "room (c\<lparr>cf_interfaces := is\<rparr>) k b = room c k b"
  by (simp add: room_def)

lemma room_mono: "room c k b \<Longrightarrow> k' \<le> k \<Longrightarrow> b' \<le> b \<Longrightarrow> room c k' b'"
  by (auto simp: room_def)

subsection \<open>PCAP\<close>

text \<open>What the exporter's PCAP keeps of a packet: bytes, original length and the time floored to
  nanoseconds.\<close>

definition pcap_image :: "packet \<Rightarrow> packet \<Rightarrow> bool" where
  "pcap_image p q \<longleftrightarrow>
     p_bytes q = p_bytes p \<and> p_original q = p_original p \<and> p_captured q = length (p_bytes p) \<and>
     p_interface q = 0 \<and>
     (case (p_timestamp p, p_timestamp q) of
        (Some t, Some u) \<Rightarrow> unix_nanos u = unix_nanos t
      | _ \<Rightarrow> False)"

lemma unix_nanos_ns: "unix_nanos \<lparr>ticks = t, ts_resolution = 9, ts_offset = 0\<rparr> = int t"
proof -
  have "(10::nat) ^ 9 < 2 ^ 128" by simp
  then show ?thesis
    by (simp add: unix_nanos_def ts_denominator_def Let_def)
qed

lemma seconds_split:
  assumes "0 \<le> ns" "ns \<le> 4294967295 * 1000000000 + 999999999"
  shows "nat (ns div 1000000000) < 2 ^ 32" "nat (ns mod 1000000000) < 1000000000"
    "int (nat (ns div 1000000000) * 1000000000 + nat (ns mod 1000000000)) = ns"
  using assms by (auto simp: nat_less_iff)

text \<open>What the exporter needs of a packet of its selection.\<close>

definition exportable :: "nat \<Rightarrow> packet \<Rightarrow> bool" where
  "exportable snap p \<longleftrightarrow> length (p_bytes p) \<le> p_original p \<and> p_original p < 2 ^ 32 \<and>
     length (p_bytes p) \<le> snap \<and> length (p_bytes p) \<le> max_packet_bytes"

abbreviation nano_header :: "nat \<Rightarrow> pcap_header" where
  "nano_header snap \<equiv> \<lparr>ph_le = True, ph_resolution = 9, ph_snaplen = snap\<rparr>"

lemma pcap_record_quiet:
  assumes "exportable snap p" "s < 2 ^ 32" "f < 1000000000" "room c (Suc k) (length (p_bytes p) + b)"
    and "n + length (p_bytes p @ d) \<le> max_file_bytes"
  shows "pcap_record (quiet chunk) (nano_header snap) off
      (words_le [s, f, length (p_bytes p), p_original p]) (c, src (p_bytes p @ d) n)
    = Inr (push c 0 off (Some \<lparr>ticks = s * 1000000000 + f, ts_resolution = 9, ts_offset = 0\<rparr>)
             (p_original p) (p_bytes p), src d (n + length (p_bytes p)))"
proof -
  have "length (p_bytes p) < 2 ^ 32" "f < 2 ^ 32"
    using assms(1,3) by (auto simp: exportable_def)
  moreover have "input_bytes (quiet chunk) (length (p_bytes p)) max_packet_bytes (src (p_bytes p @ d) n)
      = Inr (p_bytes p, src d (n + length (p_bytes p)))"
    using assms(1,5) by (intro input_bytes_quiet) (auto simp: exportable_def)
  ultimately show ?thesis
    using assms(1-3) retain_quiet(1) [OF assms(4)]
    by (simp add: pcap_record_def exportable_def pcap_units_def drop_words Let_def)
qed

lemma pcap_loop_quiet:
  assumes "collect_r pcap_packet_bytes ps = Inr bs" "list_all (exportable snap) ps"
    and "room c (length ps) (\<Sum>p\<leftarrow>ps. length (p_bytes p))"
    and "n + length (concat bs) \<le> max_file_bytes"
  shows "\<exists>c' new. pcap_loop (quiet chunk) (nano_header snap) (c, src (concat bs) n)
      = Inr (c', src [] (n + length (concat bs))) \<and>
    cf_packets c' = cf_packets c @ new \<and> list_all2 pcap_image ps new \<and>
    cf_total c' = cf_total c + length ps \<and> cf_omitted c' = 0"
  using assms
proof (induction ps arbitrary: bs c n)
  case Nil
  then show ?case
    by (auto simp: pcap_loop.simps input_next_quiet_end room_def)
next
  case (Cons p ps)
  obtain b bs' where bs: "bs = b # bs'" "pcap_packet_bytes p = Inr b" "collect_r pcap_packet_bytes ps = Inr bs'"
    using Cons.prems(1) by (auto simp: result_simps)
  obtain t where t: "p_timestamp p = Some t" "0 \<le> unix_nanos t"
      "unix_nanos t \<le> 4294967295 * 1000000000 + 999999999"
    and b: "b = words_le [nat (unix_nanos t div 1000000000), nat (unix_nanos t mod 1000000000),
        length (p_bytes p), p_original p] @ p_bytes p"
    using bs(2) by (auto simp: pcap_packet_bytes_def result_simps Let_def simp del: words_le_simps)
  define s f where sf: "s = nat (unix_nanos t div 1000000000)" "f = nat (unix_nanos t mod 1000000000)"
  define h where "h = words_le [s, f, length (p_bytes p), p_original p]"
  have h: "length h = 16" "b = h @ p_bytes p" "h \<noteq> []"
    by (auto simp: h_def b sf dest: arg_cong [where f = length])
  note sec = seconds_split [OF t(2,3), folded sf]
  have rm: "room c (Suc (length ps)) (length (p_bytes p) + (\<Sum>p\<leftarrow>ps. length (p_bytes p)))"
    using Cons.prems(3) by simp
  let ?c = "push c 0 n (Some \<lparr>ticks = s * 1000000000 + f, ts_resolution = 9, ts_offset = 0\<rparr>)
    (p_original p) (p_bytes p)"
  have len: "n + length (h @ (p_bytes p @ concat bs')) \<le> max_file_bytes"
    using Cons.prems(4) by (simp add: bs h)
  have nx: "input_next (quiet chunk) 16 (src (concat bs) n)
      = Inr (Some h, src (p_bytes p @ concat bs') (n + 16))"
    using input_next_quiet [OF len, of 16 chunk] h by (auto simp: bs)
  have rc: "pcap_record (quiet chunk) (nano_header snap) n h (c, src (p_bytes p @ concat bs') (n + 16))
      = Inr (?c, src (concat bs') (n + 16 + length (p_bytes p)))"
    unfolding h_def
    using Cons.prems(2) sec(1,2) rm len h(1) by (intro pcap_record_quiet) auto
  have rm2: "room ?c (length ps) (\<Sum>p\<leftarrow>ps. length (p_bytes p))"
    by (rule retain_quiet(2) [OF rm])
  have ex: "list_all (exportable snap) ps"
    using Cons.prems(2) by simp
  have len2: "n + 16 + length (p_bytes p) + length (concat bs') \<le> max_file_bytes"
    using len h(1) by simp
  from Cons.IH [OF bs(3) ex rm2 len2] obtain c' new where
    ih: "pcap_loop (quiet chunk) (nano_header snap) (?c, src (concat bs') (n + 16 + length (p_bytes p)))
      = Inr (c', src [] (n + 16 + length (p_bytes p) + length (concat bs')))"
    "cf_packets c' = cf_packets ?c @ new" "list_all2 pcap_image ps new"
    "cf_total c' = cf_total ?c + length ps" "cf_omitted c' = 0"
    by blast
  have "pcap_loop (quiet chunk) (nano_header snap) (c, src (concat bs) n)
      = Inr (c', src [] (n + length (concat bs)))"
    using nx rc ih(1) h(1) by (simp add: pcap_loop.simps [of _ _ c] bs h(2))
  moreover have "pcap_image p \<lparr>p_number = Suc (cf_total c), p_file_offset = n, p_interface = 0,
      p_timestamp = Some \<lparr>ticks = s * 1000000000 + f, ts_resolution = 9, ts_offset = 0\<rparr>,
      p_original = p_original p, p_captured = length (p_bytes p), p_bytes = p_bytes p\<rparr>"
    using sec(3) by (simp add: pcap_image_def t(1) unix_nanos_ns)
  ultimately show ?case
    using ih(2-) by auto
qed

lemma pcap_snap_bound: "p \<in> set ps \<Longrightarrow> length (p_bytes p) \<le> pcap_snap ps"
  by (auto simp: pcap_snap_def intro!: max.coboundedI2 Max_ge)

lemma pcap_snap_le: "ps \<noteq> [] \<Longrightarrow> (\<And>p. p \<in> set ps \<Longrightarrow> length (p_bytes p) \<le> m) \<Longrightarrow> 1 \<le> m \<Longrightarrow> pcap_snap ps \<le> m"
  by (auto simp: pcap_snap_def)

lemma member_le_sum: "p \<in> set ps \<Longrightarrow> g p \<le> (\<Sum>p\<leftarrow>ps. g p :: nat)"
  by (simp add: member_le_sum_list)

definition pcap_iface :: "nat \<Rightarrow> nat \<Rightarrow> capture_interface" where
  "pcap_iface snap link =
     \<lparr>if_section = 0, if_section_id = 0, if_link = link, if_snaplen = snap,
      if_name = ascii_chars ''Interface do arquivo'', if_resolution = 9, if_offset = 0\<rparr>"

lemma pcap_start_quiet:
  assumes "0 < snap" "snap < 2 ^ 32" "link < 2 ^ 16" "n + length (drop 4 (pcap_prologue snap link) @ d) \<le> max_file_bytes"
  shows "pcap_start (quiet chunk) (take 4 (pcap_prologue snap link))
      (c, src (drop 4 (pcap_prologue snap link) @ d) n)
    = Inr (nano_header snap, c\<lparr>cf_interfaces := cf_interfaces c @ [pcap_iface snap link]\<rparr>,
           src d (n + 20))"
proof -
  define h where "h = drop 4 (pcap_prologue snap link)"
  have h: "h = words_le [0x00040002, 0, 0, snap, link]"
    by (simp add: h_def pcap_prologue_def)
  have m: "take 4 (pcap_prologue snap link) = [0x4d, 0x3c, 0xb2, 0xa1]"
    by (simp add: pcap_prologue_def) (simp add: le_bytes_4)
  have "input_exact (quiet chunk) 20 (src (h @ d) n) = Inr (h, src d (n + 20))"
    using assms(4) by (intro input_exact_quiet) (simp_all add: h h_def [symmetric])
  moreover have "e_u16 True h = 2" "e_u16 True (drop 2 h) = 4"
    by (simp_all add: h le_bytes_4 e_u16_def e_uint_def)
  moreover have "e_u32 True (drop 12 h) = snap" "e_u32 True (drop 16 h) = link"
    using assms(2,3) by (simp_all add: h drop_words)
  ultimately show ?thesis
    using assms(1,3) reserved_bits [OF assms(3)]
    by (simp add: pcap_start_def m pcap_magic_def h_def [symmetric] Let_def pcap_iface_def)
qed

lemma read_pcap_quiet:
  assumes ok: "selection_ok s" and e: "encode_pcap s = Inr data"
  shows "length data \<le> max_file_bytes \<Longrightarrow> \<exists>c. read_capture sha (\<lambda>_. False) chunk data = Inr c \<and>
    cf_total c = length (sel_packets s) \<and> cf_omitted c = 0 \<and>
    length (cf_interfaces c) = 1 \<and>
    if_link (cf_interfaces c ! 0) = if_link (sel_interfaces s ! p_interface (hd (sel_packets s))) \<and>
    list_all2 pcap_image (sel_packets s) (cf_packets c)"
proof -
  assume bound: "length data \<le> max_file_bytes"
  define ps where "ps = sel_packets s"
  define link where "link = if_link (sel_interfaces s ! p_interface (hd ps))"
  define pro where "pro = pcap_prologue (pcap_snap ps) link"
  obtain bs where bs: "collect_r pcap_packet_bytes ps = Inr bs" "data = pro @ concat bs"
    using e by (auto simp: encode_pcap_def result_simps Let_def ps_def link_def pro_def)
  have ps: "ps \<noteq> []" "\<And>p. p \<in> set ps \<Longrightarrow> length (p_bytes p) \<le> 1024 * 1024"
    using ok member_le_sum [of _ ps "\<lambda>p. length (p_bytes p)"]
    by (fastforce simp: selection_ok_def ps_def)+
  have snap: "0 < pcap_snap ps" "pcap_snap ps \<le> 1024 * 1024"
    using ps by (auto simp: pcap_snap_def intro!: pcap_snap_le)
  have ex: "list_all (exportable (pcap_snap ps)) ps"
    using ok ps(2) pcap_snap_bound
    by (auto simp: exportable_def list_all_iff selection_ok_def ps_def sized_packet_def max_packet_bytes_def)
  have "p_interface (hd ps) < length (sel_interfaces s)" "list_all sized_interface (sel_interfaces s)"
    using ok ps(1) by (auto simp: selection_ok_def ps_def list_all_iff)
  then have link: "link < 2 ^ 16"
    by (auto simp: link_def list_all_iff sized_interface_def)
  have lp: "length pro = 24"
    by (simp add: pro_def pcap_prologue_def)
  let ?c = "(empty_capture Pcap)\<lparr>cf_interfaces := [pcap_iface (pcap_snap ps) link]\<rparr>"
  have "data = take 4 pro @ (drop 4 pro @ concat bs)"
    by (simp add: bs(2))
  then have a: "input_exact (quiet chunk) 4 (src data 0) = Inr (take 4 pro, src (drop 4 pro @ concat bs) 4)"
    using input_exact_quiet [of 0 "take 4 pro" "drop 4 pro @ concat bs" 4 chunk] bound lp by simp
  have "4 + length (drop 4 pro @ concat bs) \<le> max_file_bytes"
    using bound bs(2) lp by simp
  then have st: "pcap_start (quiet chunk) (take 4 pro)
      (empty_capture Pcap, src (drop 4 pro @ concat bs) 4)
    = Inr (nano_header (pcap_snap ps), ?c, src (concat bs) 24)"
    unfolding pro_def using snap link
    by (subst pcap_start_quiet) (auto simp: empty_capture_def)
  have "room ?c (length ps) (\<Sum>p\<leftarrow>ps. length (p_bytes p))"
    using ok by (auto simp: selection_ok_def room_def empty_capture_def max_packets_def
        max_retained_bytes_def ps_def)
  moreover have "24 + length (concat bs) \<le> max_file_bytes"
    using bound bs(2) lp by simp
  ultimately obtain c' new where l: "pcap_loop (quiet chunk) (nano_header (pcap_snap ps)) (?c, src (concat bs) 24)
      = Inr (c', src [] (24 + length (concat bs)))"
    "cf_packets c' = cf_packets ?c @ new" "list_all2 pcap_image ps new"
    "cf_total c' = cf_total ?c + length ps" "cf_omitted c' = 0"
    using pcap_loop_quiet [OF bs(1) ex] by metis
  have i: "cf_interfaces c' = [pcap_iface (pcap_snap ps) link]"
  proof -
    have "capture_inv (env_limits (quiet chunk)) ?c"
      using capture_inv_interfaces [OF empty_capture_inv, of _ Pcap "[pcap_iface (pcap_snap ps) link]"]
      by (simp add: empty_capture_def)
    then show ?thesis using pcap_loop_inv [OF l(1)] by simp
  qed
  have m: "take 4 pro \<noteq> ng_magic"
    by (simp add: pro_def pcap_prologue_def le_bytes_4 ng_magic_def)
  have "read_capture sha (\<lambda>_. False) chunk data
      = Inr (c'\<lparr>cf_file_bytes := length data, cf_sha256 := sha data\<rparr>)"
    using a st l(1) m lp bs(2)
    by (simp add: read_capture_def read_with_def read_pcap_def)
  with l i show ?thesis
    by (auto simp: ps_def [symmetric] link_def [symmetric] empty_capture_def pcap_iface_def)
qed

lemma pcap_packet_bytes_length:
  "pcap_packet_bytes p = Inr b \<Longrightarrow> length b = 16 + length (p_bytes p)"
  by (auto simp: pcap_packet_bytes_def result_simps Let_def)

lemma collect_length:
  assumes "collect_r f ps = Inr bs" "\<And>p b. p \<in> set ps \<Longrightarrow> f p = Inr b \<Longrightarrow> length b \<le> k + g p"
  shows "length (concat bs) \<le> k * length ps + (\<Sum>p\<leftarrow>ps. g p)"
  using assms
proof (induction ps arbitrary: bs)
  case Nil
  then show ?case by simp
next
  case (Cons p ps)
  obtain b bs' where "bs = b # bs'" "f p = Inr b" "collect_r f ps = Inr bs'"
    using Cons.prems(1) by (auto simp: result_simps)
  with Cons.IH [of bs'] Cons.prems(2) show ?case
    by (fastforce)
qed

lemma encode_pcap_length:
  assumes "selection_ok s" "encode_pcap s = Inr data"
  shows "length data \<le> max_file_bytes"
proof -
  obtain pre bs where d: "collect_r pcap_packet_bytes (sel_packets s) = Inr bs"
      "data = pre @ concat bs" "length pre = 24"
    using assms(2) by (auto simp: encode_pcap_def result_simps Let_def pcap_prologue_def)
  have "length (concat bs) \<le> 16 * length (sel_packets s) + (\<Sum>p\<leftarrow>sel_packets s. length (p_bytes p))"
    by (rule collect_length [OF d(1)]) (simp add: pcap_packet_bytes_length)
  also have "\<dots> \<le> 16 * 512 + 1024 * 1024"
    using assms(1) by (intro add_mono mult_mono) (auto simp: selection_ok_def)
  finally show ?thesis
    using d by (simp add: max_file_bytes_def)
qed

subsection \<open>PCAPNG blocks\<close>

definition le_state :: "ng_state \<Rightarrow> bool" where
  "le_state st \<longleftrightarrow> ng_le st \<and> ng_end st = None"

definition block_rest :: "u8 list \<Rightarrow> u8 list" where
  "block_rest body = le_bytes 4 (length body + 12) @ body @ le_bytes 4 (length body + 12)"

lemma put_block_split: "put_block kind body = le_bytes 4 kind @ block_rest body"
  by (simp add: put_block_def block_rest_def Let_def)

lemma block_rest_length [simp]: "length (block_rest body) = length body + 8"
  by (simp add: block_rest_def)

lemma ng_frame_quiet:
  assumes "4 \<le> length body" "length body mod 4 = 0" "length body + 12 \<le> max_block_bytes"
    and "ng_blocks st < 1000000" "n + length (block_rest body @ d) \<le> max_file_bytes"
    and "ng_end st = None"
    and "if kind = ng_magic then take 4 body = [0x4d, 0x3c, 0x2b, 0x1a] else ng_le st"
  shows "ng_frame (quiet chunk) kind st (src (block_rest body @ d) n)
    = Inr (st\<lparr>ng_blocks := ng_blocks st + 1, ng_le := True\<rparr>, n - 4, body,
           src d (n + length (block_rest body)))"
proof -
  let ?L = "length body + 12"
  define pre rest where pr: "pre = le_bytes 4 ?L @ take 4 body" "rest = drop 4 body @ le_bytes 4 ?L"
  have split: "block_rest body @ d = pre @ (rest @ d)"
    by (simp add: block_rest_def pr)
  have L: "?L < 2 ^ 32" "?L mod 4 = 0"
    using assms(2,3) by (simp add: max_block_bytes_def, presburger)
  have len: "length pre = 8" "length rest = length body" "rest \<noteq> []"
    using assms(1) by (auto simp: pr dest: arg_cong [where f = length])
  have tot: "n + length (pre @ (rest @ d)) \<le> max_file_bytes"
    using assms(5) by (simp only: split)
  have p: "input_exact (quiet chunk) 8 (src (block_rest body @ d) n) = Inr (pre, src (rest @ d) (n + 8))"
    unfolding split using tot len(1) by (intro input_exact_quiet) auto
  have r: "input_bytes (quiet chunk) (length body) max_block_bytes (src (rest @ d) (n + 8))
      = Inr (rest, src d (n + 8 + length body))"
    using tot len assms(3) by (intro input_bytes_quiet) auto
  have u: "e_u32 True pre = ?L" "e_u32 True (drop (length rest - 4) rest) = ?L"
    using L assms(1) by (simp_all add: pr)
  have b: "drop 4 pre @ take (length rest - 4) rest = body"
    using assms(1) by (simp add: pr)
  have same: "st\<lparr>ng_blocks := Suc (ng_blocks st), ng_le := True\<rparr> = st\<lparr>ng_blocks := Suc (ng_blocks st)\<rparr>"
    if "ng_le st"
    using that by (cases st) simp
  show ?thesis
  proof (cases "kind = ng_magic")
    case True
    then have "ng_byte_order (drop 4 pre) = Some True"
      using assms(7) by (simp add: ng_byte_order_def pr)
    with assms(1,3,4,6) True L len(3) u b show ?thesis
      by (simp add: ng_frame_def Let_def p r)
  next
    case False
    then have le: "ng_le st" using assms(7) by simp
    with assms(1,3,4,6) False L len(3) u b same show ?thesis
      by (simp add: ng_frame_def Let_def p r)
  qed
qed

subsection \<open>Options\<close>

definition opt_bytes :: "nat \<Rightarrow> u8 list \<Rightarrow> u8 list" where
  "opt_bytes opt v = le_bytes 2 opt @ le_bytes 2 (length v) @ v @ replicate (round4 (length v) - length v) 0"

lemma round4_mod [simp]: "round4 n mod 4 = 0"
  by (simp add: round4_def)

lemma round4_add: "m mod 4 = 0 \<Longrightarrow> round4 (m + n) = m + round4 n"
  unfolding round4_def by presburger

lemma round4_le: "round4 n \<le> n + 3"
  unfolding round4_def by linarith

lemma opt_bytes_length: "length (opt_bytes opt v) = 4 + round4 (length v)"
  using round4_ge [of "length v"] by (simp add: opt_bytes_def)

lemma opt_bytes_mod: "length (opt_bytes opt v) mod 4 = 0"
  unfolding opt_bytes_length using round4_mod [of "length v"] by presburger

lemma put_option_eq: "length out mod 4 = 0 \<Longrightarrow> put_option opt v out = out @ opt_bytes opt v"
proof -
  assume a: "length out mod 4 = 0"
  have r: "round4 (length out + 4 + length v) = length out + 4 + round4 (length v)"
    by (rule round4_add) (use a in presburger)
  have "length (out @ le_bytes 2 opt @ le_bytes 2 (length v) @ v) = length out + 4 + length v"
    by simp
  then have "round4 (length (out @ le_bytes 2 opt @ le_bytes 2 (length v) @ v))
      - length (out @ le_bytes 2 opt @ le_bytes 2 (length v) @ v) = round4 (length v) - length v"
    by (simp only: r)
  then show ?thesis
    by (simp only: put_option_def pad4_def opt_bytes_def append_assoc)
qed

lemma ng_options_step:
  assumes "0 < opt" "opt < 2 ^ 16" "length v < 2 ^ 16"
  shows "ng_options True visit (opt_bytes opt v @ r) t
    = (case visit opt v t of Inl e \<Rightarrow> Inl e | Inr t' \<Rightarrow> ng_options True visit r t')"
proof -
  define data where "data = opt_bytes opt v @ r"
  have len: "length data = 4 + round4 (length v) + length r"
    by (simp add: data_def opt_bytes_length)
  have d2: "drop 2 data = le_bytes 2 (length v) @ v @ replicate (round4 (length v) - length v) 0 @ r"
      "drop 4 data = v @ replicate (round4 (length v) - length v) 0 @ r"
    by (simp_all add: data_def opt_bytes_def)
  have o: "e_u16 True data = opt"
    using assms(2) by (simp add: data_def opt_bytes_def)
  have l: "e_u16 True (drop 2 data) = length v"
    using assms(3) by (simp add: d2)
  have v: "take (length v) (drop 4 data) = v" "drop (4 + round4 (length v)) data = r"
    by (simp add: d2) (simp add: data_def opt_bytes_length)
  have ne: "data \<noteq> []" "\<not> length data < 4" "\<not> length data < 4 + round4 (length v)"
    using len by auto
  show ?thesis
    unfolding data_def [symmetric]
    using assms(1)
    by (subst ng_options.simps) (simp only: ne o l v if_False Let_def gr_implies_not_zero)
qed

lemma ng_options_end: "ng_options True visit [0, 0, 0, 0] t = Inr t"
  by (subst ng_options.simps) (simp add: e_u16_def e_uint_def)

lemma skip_options_Nil [simp]: "skip_options le [] = Inr ()"
  by (simp add: skip_options_def ng_options.simps)

subsection \<open>The three blocks of a packet\<close>

lemma section_body_facts:
  "length section_body = 16" "take 4 section_body = [0x4d, 0x3c, 0x2b, 0x1a]"
  "e_u16 True (drop 4 section_body) = 1" "e_u16 True (drop 6 section_body) = 0"
  "e_i64 True (drop 8 section_body) = -1" "drop 16 section_body = []"
proof -
  show "length section_body = 16" "drop 16 section_body = []"
    by (simp_all add: section_body_def)
  show "take 4 section_body = [0x4d, 0x3c, 0x2b, 0x1a]"
    by (simp add: section_body_def) (simp add: le_bytes_4)
  show "e_u16 True (drop 4 section_body) = 1" "e_u16 True (drop 6 section_body) = 0"
    by (simp_all add: section_body_def)
  have "e_uint True 8 (drop 8 section_body) = unsigned_of 64 (-1) mod 2 ^ 64"
    by (simp add: section_body_def e_uint_def)
  also have "\<dots> = unsigned_of 64 (-1)"
    by (simp add: unsigned_of_def)
  finally show "e_i64 True (drop 8 section_body) = -1"
    using signed_unsigned [of 64 "-1"] by (simp add: e_i64_def)
qed

lemma e_i64_le:
  assumes "- (2 ^ 63) \<le> i" "i < 2 ^ 63"
  shows "e_i64 True (le_bytes 8 (unsigned_of 64 i)) = i"
proof -
  have "unsigned_of 64 i < 2 ^ 64"
    by (simp add: unsigned_of_def nat_less_iff)
  then show ?thesis
    using assms signed_unsigned [of 64 i] by (simp add: e_i64_def e_uint_def)
qed

lemma ng_section_quiet:
  "ng_le st \<Longrightarrow> ng_section st + 1 < 2 ^ 32 \<Longrightarrow> ng_section_header section_body n st
     = Inr (st\<lparr>ng_end := None, ng_ifaces := [], ng_section := ng_section st + 1\<rparr>)"
  using section_body_facts by (simp add: ng_section_header_def Let_def)

lemma exported_name_scalar: "list_all is_scalar name \<Longrightarrow> list_all is_scalar (exported_name name)"
  by (auto simp: exported_name_def list_all_iff dest!: in_set_takeD)

lemma exported_name_control: "c \<in> set (exported_name name) \<Longrightarrow> \<not> is_control c"
  by (auto simp: exported_name_def dest!: in_set_takeD)

lemma name_bytes_length: "length (name_bytes (exported_name name)) \<le> 512"
proof -
  have "length (exported_name name) \<le> 128"
    by (simp add: exported_name_def)
  with utf8_bytes_length [of "exported_name name"] show ?thesis
    by (simp add: name_bytes_def)
qed

lemma clean_exported:
  assumes "list_all is_scalar name"
  shows "clean_name (name_bytes (exported_name name)) = filter (\<lambda>c. \<not> is_bidi c) (exported_name name)"
proof -
  let ?n = "exported_name name"
  have "map unat (name_bytes ?n) = utf8_bytes ?n"
    using utf8_bytes_range [OF exported_name_scalar [OF assms]]
    by (auto simp: name_bytes_def list_all_iff unat_of_nat intro!: map_idI)
  then have d: "decode_lossy (map unat (name_bytes ?n)) = ?n"
    by (simp add: decode_utf8_bytes exported_name_scalar assms)
  have w: "takeWhile (\<lambda>c. c \<noteq> 0) ?n = ?n"
    by (auto simp: is_control_def dest: exported_name_control)
  have "filter (\<lambda>c. \<not> is_control c \<and> \<not> is_bidi c) ?n = filter (\<lambda>c. \<not> is_bidi c) ?n"
    by (rule filter_cong) (auto dest: exported_name_control)
  moreover have "length (filter (\<lambda>c. \<not> is_bidi c) ?n) \<le> 128"
    by (rule order_trans [OF length_filter_le]) (simp add: exported_name_def)
  ultimately show ?thesis
    unfolding clean_name_def d w by simp
qed

lemma ng_loop_next:
  assumes "ng_block (quiet chunk) kind (st, c, inp) = Inr (st1, c1, src (a @ d) n)" "length a = 4"
    and "n + length (a @ d) \<le> max_file_bytes"
  shows "ng_loop (quiet chunk) kind (st, c, inp) = ng_loop (quiet chunk) a (st1, c1, src d (n + 4))"
proof -
  have "input_next (quiet chunk) 4 (src (a @ d) n) = Inr (Some a, src d (n + 4))"
    using assms(2,3) by (intro input_next_quiet) auto
  with assms(1) show ?thesis
    by (simp add: ng_loop.simps [of _ kind])
qed

lemma ng_loop_stop:
  assumes "ng_block (quiet chunk) kind (st, c, inp) = Inr (st1, c1, src [] n)" "n \<le> max_file_bytes"
  shows "ng_loop (quiet chunk) kind (st, c, inp) = Inr (st1, c1, src [] n)"
  using assms input_next_quiet_end [OF assms(2), of chunk 4] by (simp add: ng_loop.simps [of _ kind])

text \<open>The description of the interface written for a packet, as it is read back.\<close>

definition derived_interface :: "nat \<Rightarrow> capture_interface \<Rightarrow> packet \<Rightarrow> capture_interface" where
  "derived_interface section i p =
     \<lparr>if_section = section, if_section_id = 0, if_link = if_link i, if_snaplen = length (p_bytes p),
      if_name = filter (\<lambda>c. \<not> is_bidi c) (exported_name (if_name i)),
      if_resolution = (case p_timestamp p of None \<Rightarrow> if_resolution i | Some t \<Rightarrow> ts_resolution t),
      if_offset = (case p_timestamp p of None \<Rightarrow> if_offset i | Some t \<Rightarrow> ts_offset t)\<rparr>"

lemma interface_body_split:
  fixes i p
  defines "r \<equiv> (case p_timestamp p of None \<Rightarrow> if_resolution i | Some t \<Rightarrow> ts_resolution t)"
    and "off \<equiv> (case p_timestamp p of None \<Rightarrow> if_offset i | Some t \<Rightarrow> ts_offset t)"
  shows "interface_body i p =
    (le_bytes 2 (if_link i) @ le_bytes 2 0 @ le_bytes 4 (length (p_bytes p)))
    @ opt_bytes 2 (name_bytes (exported_name (if_name i))) @ opt_bytes 9 [r]
    @ opt_bytes 14 (le_bytes 8 (unsigned_of 64 off)) @ [0, 0, 0, 0]" (is "_ = ?h @ ?a @ ?b @ ?c @ _")
proof -
  have m: "length ?h mod 4 = 0" "length (?h @ ?a) mod 4 = 0" "length (?h @ ?a @ ?b) mod 4 = 0"
    using opt_bytes_mod [of 2 "name_bytes (exported_name (if_name i))"] opt_bytes_mod [of 9 "[r]"]
    by (simp_all del: mod_add_self1) presburger+
  have "interface_body i p = put_option 14 (le_bytes 8 (unsigned_of 64 off))
      (put_option 9 [r] (put_option 2 (name_bytes (exported_name (if_name i))) ?h)) @ [0, 0, 0, 0]"
    by (simp add: interface_body_def r_def off_def Let_def split: option.splits)
  also have "put_option 2 (name_bytes (exported_name (if_name i))) ?h = ?h @ ?a"
    by (rule put_option_eq [OF m(1)])
  also have "put_option 9 [r] (?h @ ?a) = ?h @ ?a @ ?b"
    using put_option_eq [OF m(2)] by simp
  also have "put_option 14 (le_bytes 8 (unsigned_of 64 off)) (?h @ ?a @ ?b) = ?h @ ?a @ ?b @ ?c"
    using put_option_eq [OF m(3)] by simp
  finally show ?thesis by simp
qed

lemma interface_body_length:
  "length (interface_body i p) \<le> 560" "length (interface_body i p) mod 4 = 0" "8 \<le> length (interface_body i p)"
proof -
  let ?r = "case p_timestamp p of None \<Rightarrow> if_resolution i | Some t \<Rightarrow> ts_resolution t"
  let ?o = "case p_timestamp p of None \<Rightarrow> if_offset i | Some t \<Rightarrow> ts_offset t"
  let ?n = "length (name_bytes (exported_name (if_name i)))"
  have l: "length (interface_body i p) = 8 + (4 + round4 ?n) + 8 + 12 + 4"
    unfolding interface_body_split
    by (simp add: opt_bytes_length) (simp add: round4_def)
  have "round4 ?n \<le> 515"
    using name_bytes_length [of "if_name i"] round4_le [of ?n] by linarith
  with l show "length (interface_body i p) \<le> 560" "8 \<le> length (interface_body i p)"
    by simp_all
  show "length (interface_body i p) mod 4 = 0"
    unfolding l using round4_mod [of ?n] by presburger
qed

lemma ng_interface_quiet:
  assumes "ng_le st" "ng_ifaces st = []" "length (cf_interfaces c) < max_interfaces"
    and "sized_interface i" "sized_packet p" "length (p_bytes p) < 2 ^ 32"
  shows "ng_interface_block (interface_body i p) st c =
    Inr (st\<lparr>ng_ifaces := [length (cf_interfaces c)]\<rparr>,
         c\<lparr>cf_interfaces := cf_interfaces c @ [derived_interface (ng_section st - 1) i p]\<rparr>)"
proof -
  define r off where ro: "r = (case p_timestamp p of None \<Rightarrow> if_resolution i | Some t \<Rightarrow> ts_resolution t)"
    "off = (case p_timestamp p of None \<Rightarrow> if_offset i | Some t \<Rightarrow> ts_offset t)"
  define nb where "nb = name_bytes (exported_name (if_name i))"
  note split = interface_body_split [where i = i and p = p, folded ro nb_def]
  have d8: "drop 8 (interface_body i p) = opt_bytes 2 nb @ opt_bytes 9 [r]
      @ opt_bytes 14 (le_bytes 8 (unsigned_of 64 off)) @ [0, 0, 0, 0]"
    by (simp add: split)
  have l: "e_u16 True (interface_body i p) = if_link i" "e_u32 True (drop 4 (interface_body i p)) = length (p_bytes p)"
    using assms(4,6) by (simp_all add: split sized_interface_def)
  have nb: "length nb < 2 ^ 16" "clean_name nb = filter (\<lambda>c. \<not> is_bidi c) (exported_name (if_name i))"
    using name_bytes_length [of "if_name i"] clean_exported assms(4)
    by (simp_all add: nb_def sized_interface_def)
  have o: "e_i64 True (le_bytes 8 (unsigned_of 64 off)) = off"
    using assms(4,5)
    by (intro e_i64_le) (auto simp: ro sized_interface_def sized_packet_def sized_timestamp_def split: option.splits)
  show ?thesis
    using assms(1-3) interface_body_length(3) [of i p] nb(1)
    by (simp add: ng_interface_block_def Let_def l d8 ng_options_step ng_options_end visit_interface_def
        option_index_def nb(2) o derived_interface_def ro [symmetric])
qed

text \<open>The body of the last block of a packet.\<close>

definition packet_kind :: "packet \<Rightarrow> nat" where
  "packet_kind p = (case p_timestamp p of None \<Rightarrow> 3 | Some _ \<Rightarrow> 6)"

definition packet_head :: "packet \<Rightarrow> u8 list" where
  "packet_head p =
     (case p_timestamp p of
        None \<Rightarrow> le_bytes 4 (p_original p)
      | Some t \<Rightarrow> words_le [0, ticks t div 2 ^ 32, ticks t, length (p_bytes p), p_original p])"

definition packet_body :: "packet \<Rightarrow> u8 list" where
  "packet_body p =
     packet_head p @ p_bytes p @ replicate (round4 (length (p_bytes p)) - length (p_bytes p)) 0"

lemma packet_head_length:
  "length (packet_head p) = (case p_timestamp p of None \<Rightarrow> 4 | Some _ \<Rightarrow> 20)"
  by (simp add: packet_head_def split: option.splits)

lemma packet_body_length: "length (packet_body p) = length (packet_head p) + round4 (length (p_bytes p))"
  using round4_ge [of "length (p_bytes p)"] by (simp add: packet_body_def)

lemma packet_body_mod: "length (packet_body p) mod 4 = 0" "4 \<le> length (packet_body p)"
proof -
  have "length (packet_head p) mod 4 = 0" "4 \<le> length (packet_head p)"
    by (simp_all add: packet_head_length split: option.splits)
  with round4_mod [of "length (p_bytes p)"]
  show "length (packet_body p) mod 4 = 0" "4 \<le> length (packet_body p)"
    by (simp_all add: packet_body_length mod_add_eq [symmetric])
qed

lemma packet_block_eq: "packet_block p = put_block (packet_kind p) (packet_body p)"
proof -
  have "pad4 (packet_head p @ p_bytes p) = packet_body p"
  proof -
    have "round4 (length (packet_head p) + length (p_bytes p))
        = length (packet_head p) + round4 (length (p_bytes p))"
      by (rule round4_add) (simp add: packet_head_length split: option.splits)
    then show ?thesis
      by (simp add: pad4_def packet_body_def)
  qed
  then show ?thesis
    by (auto simp: packet_block_def packet_kind_def packet_head_def split: option.splits)
qed

text \<open>What the last block adds to the capture.\<close>

definition ng_pushed :: "capture_file \<Rightarrow> nat \<Rightarrow> nat \<Rightarrow> packet \<Rightarrow> capture_file" where
  "ng_pushed c g off p = push c g off (p_timestamp p) (p_original p) (p_bytes p)"

lemma ng_packet_quiet:
  assumes st: "ng_le st" "ng_ifaces st = [g]"
    and p: "p_timestamp p = Some t" "exportable (length (p_bytes p)) p" "sized_packet p"
    and i: "cf_interfaces c ! g = derived_interface s i p"
    and room: "room c (Suc k) (length (p_bytes p) + b)"
  shows "ng_packet_block (quiet chunk) 6 off (packet_body p) st (c, src d n)
    = Inr (ng_pushed c g off p, src d n)"
proof -
  have h: "packet_body p = le_bytes 4 0 @ le_bytes 4 (ticks t div 2 ^ 32) @ le_bytes 4 (ticks t)
      @ le_bytes 4 (length (p_bytes p)) @ le_bytes 4 (p_original p) @ p_bytes p
      @ replicate (round4 (length (p_bytes p)) - length (p_bytes p)) 0"
    by (simp add: packet_body_def packet_head_def p(1))
  have tk: "ticks t div 2 ^ 32 mod 2 ^ 32 * 2 ^ 32 + ticks t mod 2 ^ 32 = ticks t"
  proof -
    have "ticks t div 2 ^ 32 < 2 ^ 32"
      using p(1,3) by (auto simp: sized_packet_def sized_timestamp_def less_mult_imp_div_less)
    then show ?thesis by simp
  qed
  have f: "e_u32 True (packet_body p) = 0" "e_u32 True (drop 4 (packet_body p)) = ticks t div 2 ^ 32 mod 2 ^ 32"
      "e_u32 True (drop 8 (packet_body p)) = ticks t mod 2 ^ 32"
      "e_u32 True (drop 12 (packet_body p)) = length (p_bytes p)"
      "e_u32 True (drop 16 (packet_body p)) = p_original p"
    using p(2) by (simp_all add: h drop_words exportable_def)
  have l: "length (packet_body p) = 20 + round4 (length (p_bytes p))"
    by (simp add: packet_body_length packet_head_length p(1))
  have b: "take (length (p_bytes p)) (drop 20 (packet_body p)) = p_bytes p"
      "drop (20 + round4 (length (p_bytes p))) (packet_body p) = []"
    by (simp add: h) (simp add: l)
  have eta: "\<lparr>ticks = ticks t, ts_resolution = ts_resolution t, ts_offset = ts_offset t\<rparr> = t"
    by simp
  show ?thesis
    using st p(1,2) room tk retain_quiet(1) [OF room]
    by (simp add: eta ng_packet_block_def Let_def f l b nth_option_def i derived_interface_def exportable_def
        ng_pushed_def)
qed

lemma ng_simple_quiet:
  assumes st: "ng_le st" "ng_ifaces st = [g]"
    and p: "p_timestamp p = None" "exportable (length (p_bytes p)) p" "p_bytes p \<noteq> [] \<or> p_original p = 0"
    and i: "cf_interfaces c ! g = derived_interface s i p"
    and room: "room c (Suc k) (length (p_bytes p) + b)"
  shows "ng_simple_block (quiet chunk) off (packet_body p) st (c, src d n)
    = Inr (ng_pushed c g off p, src d n)"
proof -
  have h: "packet_body p = le_bytes 4 (p_original p) @ p_bytes p
      @ replicate (round4 (length (p_bytes p)) - length (p_bytes p)) 0"
    by (simp add: packet_body_def packet_head_def p(1))
  have l: "length (packet_body p) = 4 + round4 (length (p_bytes p))"
    by (simp add: packet_body_length packet_head_length p(1))
  have f: "e_u32 True (packet_body p) = p_original p" "take (length (p_bytes p)) (drop 4 (packet_body p)) = p_bytes p"
    using p(2) by (simp_all add: h exportable_def)
  have n: "(if length (p_bytes p) = 0 then p_original p else min (p_original p) (length (p_bytes p)))
      = length (p_bytes p)"
    using p(2,3) by (auto simp: exportable_def)
  show ?thesis
  proof (cases "p_bytes p = []")
    case True
    then show ?thesis
      using st p room retain_quiet(1) [OF room] f
      by (simp add: ng_simple_block_def Let_def l nth_option_def i derived_interface_def exportable_def
          ng_pushed_def)
  next
    case False
    then show ?thesis
      using st p(1,2) room retain_quiet(1) [OF room] n
      by (simp add: ng_simple_block_def Let_def f l nth_option_def i derived_interface_def exportable_def
          ng_pushed_def)
  qed
qed

lemma ng_magic_le: "ng_magic = le_bytes 4 0x0a0d0d0a"
  by (simp add: ng_magic_def le_bytes_4)

lemma not_magic: "k < 2 ^ 32 \<Longrightarrow> k \<noteq> 0x0a0d0d0a \<Longrightarrow> le_bytes 4 k \<noteq> ng_magic"
proof
  assume k: "k < 2 ^ 32" "k \<noteq> 0x0a0d0d0a" and "le_bytes 4 k = ng_magic"
  then have "le_val (le_bytes 4 k) = le_val (le_bytes 4 0x0a0d0d0a)"
    by (simp only: ng_magic_le)
  then show False
    using k by simp
qed

definition after_section :: "ng_state \<Rightarrow> ng_state" where
  "after_section st =
     \<lparr>ng_le = True, ng_section = ng_section st + 1, ng_ifaces = [], ng_end = None,
      ng_blocks = ng_blocks st + 1\<rparr>"

lemma ng_block_section:
  assumes "ng_end st = None" "ng_blocks st < 1000000" "ng_section st + 1 < 2 ^ 32"
    and "n + length (block_rest section_body @ d) \<le> max_file_bytes"
  shows "ng_block (quiet chunk) ng_magic (st, c, src (block_rest section_body @ d) n)
    = Inr (after_section st, c, src d (n + length (block_rest section_body)))"
proof -
  let ?st = "st\<lparr>ng_blocks := ng_blocks st + 1, ng_le := True\<rparr>"
  have f: "ng_frame (quiet chunk) ng_magic st (src (block_rest section_body @ d) n)
    = Inr (?st, n - 4, section_body, src d (n + length (block_rest section_body)))"
    using assms section_body_facts by (intro ng_frame_quiet) (auto simp: max_block_bytes_def)
  have h: "ng_section_header section_body m ?st
      = Inr (?st\<lparr>ng_end := None, ng_ifaces := [], ng_section := ng_section ?st + 1\<rparr>)" for m
    using assms(3) by (intro ng_section_quiet) simp_all
  have t: "e_u32 True ng_magic = 0x0a0d0d0a"
    by (simp add: ng_magic_le)
  have s: "?st\<lparr>ng_end := None, ng_ifaces := [], ng_section := ng_section ?st + 1\<rparr> = after_section st"
    by (cases st) (simp add: after_section_def)
  show ?thesis
    unfolding ng_block_def prod.case f rbind_Inr Let_def
    using h t s by simp
qed

lemma ng_block_interface:
  assumes "ng_le st" "ng_end st = None" "ng_blocks st < 1000000" "ng_ifaces st = []"
    and "length (cf_interfaces c) < max_interfaces" "sized_interface i" "sized_packet p"
    and "length (p_bytes p) < 2 ^ 32"
    and "n + length (block_rest (interface_body i p) @ d) \<le> max_file_bytes"
  shows "ng_block (quiet chunk) (le_bytes 4 1) (st, c, src (block_rest (interface_body i p) @ d) n)
    = Inr (st\<lparr>ng_blocks := ng_blocks st + 1, ng_ifaces := [length (cf_interfaces c)]\<rparr>,
        c\<lparr>cf_interfaces := cf_interfaces c @ [derived_interface (ng_section st - 1) i p]\<rparr>,
        src d (n + length (block_rest (interface_body i p))))"
proof -
  let ?st = "st\<lparr>ng_blocks := ng_blocks st + 1, ng_le := True\<rparr>"
  have st: "?st = st\<lparr>ng_blocks := ng_blocks st + 1\<rparr>"
    using assms(1) by (cases st) simp
  have f: "ng_frame (quiet chunk) (le_bytes 4 1) st (src (block_rest (interface_body i p) @ d) n)
    = Inr (?st, n - 4, interface_body i p, src d (n + length (block_rest (interface_body i p))))"
    using assms(1-3,9) interface_body_length [of i p] not_magic [of 1]
    by (intro ng_frame_quiet) (auto simp: max_block_bytes_def)
  have h: "ng_interface_block (interface_body i p) (st\<lparr>ng_blocks := ng_blocks st + 1\<rparr>) c
    = Inr (st\<lparr>ng_blocks := ng_blocks st + 1, ng_ifaces := [length (cf_interfaces c)]\<rparr>,
        c\<lparr>cf_interfaces := cf_interfaces c @ [derived_interface (ng_section st - 1) i p]\<rparr>)"
    using assms by (subst ng_interface_quiet) simp_all
  show ?thesis
    unfolding ng_block_def prod.case f rbind_Inr Let_def st
    using assms(1) h by simp
qed

lemma ng_block_packet:
  assumes "ng_le st" "ng_end st = None" "ng_blocks st < 1000000" "ng_ifaces st = [g]"
    and p: "exportable (length (p_bytes p)) p" "sized_packet p"
      "p_timestamp p \<noteq> None \<or> p_bytes p \<noteq> [] \<or> p_original p = 0"
    and "cf_interfaces c ! g = derived_interface s i p" "room c (Suc k) (length (p_bytes p) + b)"
    and "n + length (block_rest (packet_body p) @ d) \<le> max_file_bytes"
  shows "ng_block (quiet chunk) (le_bytes 4 (packet_kind p)) (st, c, src (block_rest (packet_body p) @ d) n)
    = Inr (st\<lparr>ng_blocks := ng_blocks st + 1\<rparr>, ng_pushed c g (n - 4) p,
        src d (n + length (block_rest (packet_body p))))"
proof -
  let ?st = "st\<lparr>ng_blocks := ng_blocks st + 1, ng_le := True\<rparr>"
  have st: "?st = st\<lparr>ng_blocks := ng_blocks st + 1\<rparr>"
    using assms(1) by (cases st) simp
  have k: "packet_kind p = 3 \<or> packet_kind p = 6"
    by (simp add: packet_kind_def split: option.splits)
  have len: "length (packet_body p) + 12 \<le> max_block_bytes"
    using p(1) round4_le [of "length (p_bytes p)"]
    by (auto simp: packet_body_length packet_head_length exportable_def max_packet_bytes_def
        max_block_bytes_def split: option.splits)
  have f: "ng_frame (quiet chunk) (le_bytes 4 (packet_kind p)) st (src (block_rest (packet_body p) @ d) n)
    = Inr (?st, n - 4, packet_body p, src d (n + length (block_rest (packet_body p))))"
    using assms(1-3,10) packet_body_mod [of p] len k not_magic [of 3] not_magic [of 6]
    by (intro ng_frame_quiet) auto
  show ?thesis
  proof (cases "p_timestamp p")
    case None
    then have "ng_simple_block (quiet chunk) (n - 4) (packet_body p) (st\<lparr>ng_blocks := ng_blocks st + 1\<rparr>)
        (c, src d (n + length (block_rest (packet_body p))))
      = Inr (ng_pushed c g (n - 4) p, src d (n + length (block_rest (packet_body p))))"
      using assms p(3) by (intro ng_simple_quiet) auto
    with None show ?thesis
      unfolding ng_block_def prod.case f rbind_Inr Let_def st
      using assms(1) by (simp add: packet_kind_def)
  next
    case (Some t)
    then have "ng_packet_block (quiet chunk) 6 (n - 4) (packet_body p) (st\<lparr>ng_blocks := ng_blocks st + 1\<rparr>)
        (c, src d (n + length (block_rest (packet_body p))))
      = Inr (ng_pushed c g (n - 4) p, src d (n + length (block_rest (packet_body p))))"
      using assms by (intro ng_packet_quiet) auto
    with Some show ?thesis
      unfolding ng_block_def prod.case f rbind_Inr Let_def st
      using assms(1) by (simp add: packet_kind_def)
  qed
qed

subsection \<open>Whole files\<close>

text \<open>The loop between two blocks.\<close>

definition run_blocks ::
    "(nat \<Rightarrow> nat) \<Rightarrow> ng_state \<Rightarrow> capture_file \<Rightarrow> u8 list \<Rightarrow> nat
     \<Rightarrow> reader_error + ng_state \<times> capture_file \<times> unit input" where
  "run_blocks chunk st c d n =
     (if d = [] then Inr (st, c, src [] n)
      else ng_loop (quiet chunk) (take 4 d) (st, c, src (drop 4 d) (n + 4)))"

lemma run_blocks_step:
  assumes "ng_block (quiet chunk) kind (st, c, inp) = Inr (st1, c1, src d n)"
    and "d = [] \<or> 4 \<le> length d" "n + length d \<le> max_file_bytes"
  shows "ng_loop (quiet chunk) kind (st, c, inp) = run_blocks chunk st1 c1 d n"
proof (cases "d = []")
  case True
  with assms ng_loop_stop show ?thesis by (auto simp: run_blocks_def)
next
  case False
  then have "d = take 4 d @ drop 4 d" "length (take 4 d) = 4"
    using assms(2) by auto
  with False assms ng_loop_next [of chunk kind st c inp st1 c1 "take 4 d" "drop 4 d" n] show ?thesis
    by (simp add: run_blocks_def)
qed

definition packet_image :: "capture_interface list \<Rightarrow> capture_interface list \<Rightarrow> packet \<Rightarrow> packet \<Rightarrow> bool" where
  "packet_image ifs ifs' p q \<longleftrightarrow>
     p_bytes q = p_bytes p \<and> p_original q = p_original p \<and> p_captured q = length (p_bytes p) \<and>
     p_timestamp q = p_timestamp p \<and> p_interface q < length ifs' \<and>
     (\<exists>section. ifs' ! p_interface q = derived_interface section (ifs ! p_interface p) p)"

lemma packet_image_mono: "packet_image ifs ifs' p q \<Longrightarrow> packet_image ifs (ifs' @ extra) p q"
  by (auto simp: packet_image_def nth_append)

text \<open>What the packets still to be read need.\<close>

definition ng_exportable :: "capture_interface list \<Rightarrow> packet \<Rightarrow> bool" where
  "ng_exportable ifs p \<longleftrightarrow> exportable (length (p_bytes p)) p \<and> sized_packet p \<and>
     (p_timestamp p \<noteq> None \<or> p_bytes p \<noteq> [] \<or> p_original p = 0) \<and> sized_interface (ifs ! p_interface p)"

lemma le_bytes_4_cases: "take 4 (le_bytes 4 v @ d) = le_bytes 4 v" "drop 4 (le_bytes 4 v @ d) = d"
  "le_bytes 4 v @ d \<noteq> []" "4 \<le> length (le_bytes 4 v @ d)"
  by (auto dest: arg_cong [where f = length])

lemma run_block:
  assumes "ng_block (quiet chunk) (le_bytes 4 kind) (st, c, src (block_rest body @ d) (n + 4))
      = Inr (st1, c1, src d (n + 4 + length (block_rest body)))"
    and "d = [] \<or> 4 \<le> length d" "n + length (put_block kind body @ d) \<le> max_file_bytes"
  shows "run_blocks chunk st c (put_block kind body @ d) n
    = run_blocks chunk st1 c1 d (n + length (put_block kind body))"
proof -
  have "run_blocks chunk st c (put_block kind body @ d) n
      = ng_loop (quiet chunk) (le_bytes 4 kind) (st, c, src (block_rest body @ d) (n + 4))"
    unfolding run_blocks_def put_block_split append_assoc le_bytes_4_cases(1,2)
    by (rule if_not_P [OF le_bytes_4_cases(3)])
  also have "\<dots> = run_blocks chunk st1 c1 d (n + 4 + length (block_rest body))"
    using assms by (intro run_blocks_step) (auto simp: put_block_split)
  finally show ?thesis
    by (simp add: put_block_split add.assoc)
qed

lemma run_packet:
  assumes st: "ng_end st = None" "ng_blocks st + 3 \<le> 1000000" "ng_section st + 1 < 2 ^ 32"
    and i: "i = ifs ! p_interface p" "length (cf_interfaces c) < max_interfaces"
    and p: "ng_exportable ifs p" and room: "room c (Suc k) (length (p_bytes p) + b)"
    and B: "ng_packet_bytes ifs p = Inr B" and d: "d = [] \<or> 4 \<le> length d"
    and n: "n + length (B @ d) \<le> max_file_bytes"
  shows "\<exists>st' c' q. run_blocks chunk st c (B @ d) n = run_blocks chunk st' c' d (n + length B) \<and>
    ng_end st' = None \<and> ng_blocks st' = ng_blocks st + 3 \<and> ng_section st' = ng_section st + 1 \<and>
    cf_interfaces c' = cf_interfaces c @ [derived_interface (ng_section st) i p] \<and>
    cf_packets c' = cf_packets c @ [q] \<and> cf_total c' = Suc (cf_total c) \<and> room c' k b \<and>
    packet_image ifs (cf_interfaces c') p q"
proof -
  let ?ib = "interface_body i p"
  define c1 where "c1 = c\<lparr>cf_interfaces := cf_interfaces c @ [derived_interface (ng_section st) i p]\<rparr>"
  define g where "g = length (cf_interfaces c)"
  define st1 where "st1 = after_section st"
  define st2 where "st2 = st1\<lparr>ng_blocks := ng_blocks st1 + 1, ng_ifaces := [g]\<rparr>"
  have Bq: "B = put_block 0x0a0d0d0a section_body @ put_block 1 ?ib @ put_block (packet_kind p) (packet_body p)"
    using B by (simp add: ng_packet_bytes_def result_simps Let_def i packet_block_eq)
  define d2 where "d2 = put_block (packet_kind p) (packet_body p) @ d"
  define d1 where "d1 = put_block 1 ?ib @ d2"
  have Bd: "B @ d = put_block 0x0a0d0d0a section_body @ d1"
    by (simp add: Bq d1_def d2_def)
  have len: "4 \<le> length d1" "4 \<le> length d2"
    by (simp_all add: d1_def d2_def put_block_split)
  note n' = n [unfolded Bd]
  have s1: "run_blocks chunk st c (B @ d) n
      = run_blocks chunk st1 c d1 (n + length (put_block 0x0a0d0d0a section_body))"
    unfolding Bd
    by (rule run_block)
       (use ng_block_section [of st "n + 4" d1 chunk c] st n' len section_body_facts(1) in
         \<open>auto simp: st1_def ng_magic_le put_block_split\<close>)
  let ?n1 = "n + 28"
  have n1: "n + length (put_block 0x0a0d0d0a section_body) = ?n1"
    using section_body_facts(1) by (simp add: put_block_split)
  have s2: "run_blocks chunk st1 c d1 ?n1 = run_blocks chunk st2 c1 d2 (?n1 + length (put_block 1 ?ib))"
    unfolding d1_def
    by (rule run_block)
       (use ng_block_interface [of st1 c i p "?n1 + 4" d2 chunk] st i p n' len section_body_facts(1) in
         \<open>auto simp: st1_def st2_def c1_def g_def after_section_def ng_exportable_def exportable_def
            put_block_split d1_def max_packet_bytes_def\<close>)
  let ?n2 = "?n1 + length (put_block 1 ?ib)"
  define c2 where "c2 = ng_pushed c1 g ?n2 p"
  have g: "cf_interfaces c1 ! g = derived_interface (ng_section st) i p"
    by (simp add: c1_def g_def)
  have room1: "room c1 (Suc k) (length (p_bytes p) + b)"
    using room by (simp add: c1_def)
  have s3: "run_blocks chunk st2 c1 d2 ?n2
      = run_blocks chunk (st2\<lparr>ng_blocks := ng_blocks st2 + 1\<rparr>) c2 d
          (?n2 + length (put_block (packet_kind p) (packet_body p)))"
    unfolding d2_def
    by (rule run_block)
       (use ng_block_packet [where st = st2 and g = g and p = p and c = c1 and s = "ng_section st"
          and i = i and k = k and b = b and n = "?n2 + 4" and d = d and chunk = chunk] st p g room1 n' d
          section_body_facts(1) in
         \<open>auto simp: st1_def st2_def c2_def after_section_def ng_exportable_def put_block_split d1_def d2_def\<close>)
  have nB: "?n2 + length (put_block (packet_kind p) (packet_body p)) = n + length B"
    using section_body_facts(1) by (simp add: Bq put_block_split)
  define q where "q = \<lparr>p_number = Suc (cf_total c1), p_file_offset = ?n2, p_interface = g,
    p_timestamp = p_timestamp p, p_original = p_original p, p_captured = length (p_bytes p),
    p_bytes = p_bytes p\<rparr>"
  have c2: "cf_interfaces c2 = cf_interfaces c1" "cf_packets c2 = cf_packets c1 @ [q]"
      "cf_total c2 = Suc (cf_total c1)" "room c2 k b"
    using retain_quiet(2) [OF room1] by (simp_all add: c2_def ng_pushed_def q_def)
  have im: "packet_image ifs (cf_interfaces c2) p q"
    using g c2(1) i(1) by (auto simp: packet_image_def q_def c1_def g_def)
  have "run_blocks chunk st c (B @ d) n
      = run_blocks chunk (st2\<lparr>ng_blocks := ng_blocks st2 + 1\<rparr>) c2 d (n + length B)"
    by (simp only: s1 [unfolded n1] s2 s3 [unfolded nB])
  with c2 im show ?thesis
    by (intro exI [where x = "st2\<lparr>ng_blocks := ng_blocks st2 + 1\<rparr>"] exI [where x = c2] exI [where x = q])
       (simp add: st2_def st1_def after_section_def c1_def)
qed

lemma ng_packet_bytes_length:
  assumes "ng_packet_bytes ifs p = Inr B"
  shows "length B \<le> 700 + length (p_bytes p)" "4 \<le> length B"
proof -
  have B: "B = put_block 0x0a0d0d0a section_body @ put_block 1 (interface_body (ifs ! p_interface p) p)
      @ put_block (packet_kind p) (packet_body p)"
    using assms by (simp add: ng_packet_bytes_def result_simps Let_def packet_block_eq)
  have h: "length (packet_head p) \<le> 20"
    by (simp add: packet_head_length split: option.splits)
  show "length B \<le> 700 + length (p_bytes p)" "4 \<le> length B"
    using interface_body_length(1) [of "ifs ! p_interface p" p] section_body_facts(1)
      round4_le [of "length (p_bytes p)"] h
    by (simp_all add: B put_block_split packet_body_length)
qed

lemma run_packets:
  assumes "collect_r (ng_packet_bytes ifs) ps = Inr bs" "list_all (ng_exportable ifs) ps"
    and "ng_end st = None" "ng_blocks st + 3 * length ps \<le> 1000000"
    and "ng_section st + length ps < 2 ^ 32" "length (cf_interfaces c) + length ps \<le> max_interfaces"
    and "room c (length ps) (\<Sum>p\<leftarrow>ps. length (p_bytes p))" "n + length (concat bs) \<le> max_file_bytes"
  shows "\<exists>st' c' new. run_blocks chunk st c (concat bs) n
      = Inr (st', c', src [] (n + length (concat bs))) \<and> ng_end st' = None \<and>
    (\<exists>extra. cf_interfaces c' = cf_interfaces c @ extra) \<and>
    cf_packets c' = cf_packets c @ new \<and> list_all2 (packet_image ifs (cf_interfaces c')) ps new \<and>
    cf_total c' = cf_total c + length ps \<and> cf_omitted c' = 0"
  using assms
proof (induction ps arbitrary: bs st c n)
  case Nil
  then show ?case
    by (auto simp: run_blocks_def room_def)
next
  case (Cons p ps)
  obtain B bs' where bs: "bs = B # bs'" "ng_packet_bytes ifs p = Inr B"
      "collect_r (ng_packet_bytes ifs) ps = Inr bs'"
    using Cons.prems(1) by (auto simp: result_simps)
  have d: "concat bs' = [] \<or> 4 \<le> length (concat bs')"
  proof (cases ps)
    case Nil
    with bs(3) show ?thesis by simp
  next
    case (Cons p' ps')
    then obtain B' bs'' where "bs' = B' # bs''" "ng_packet_bytes ifs p' = Inr B'"
      using bs(3) by (auto simp: result_simps)
    with ng_packet_bytes_length(2) [of ifs p' B'] show ?thesis by simp
  qed
  have len: "n + length (B @ concat bs') \<le> max_file_bytes"
    using Cons.prems(8) by (simp add: bs)
  have rm: "room c (Suc (length ps)) (length (p_bytes p) + (\<Sum>p\<leftarrow>ps. length (p_bytes p)))"
    using Cons.prems(7) by simp
  from Cons.prems have "ng_exportable ifs p" "list_all (ng_exportable ifs) ps" by simp_all
  from run_packet [OF Cons.prems(3) _ _ refl _ this(1) rm bs(2) d len, of chunk] Cons.prems(4-6)
  obtain st1 c1 q where s: "run_blocks chunk st c (B @ concat bs') n
        = run_blocks chunk st1 c1 (concat bs') (n + length B)"
      "ng_end st1 = None" "ng_blocks st1 = ng_blocks st + 3" "ng_section st1 = ng_section st + 1"
      "cf_interfaces c1 = cf_interfaces c @ [derived_interface (ng_section st) (ifs ! p_interface p) p]"
      "cf_packets c1 = cf_packets c @ [q]" "cf_total c1 = Suc (cf_total c)"
      "room c1 (length ps) (\<Sum>p\<leftarrow>ps. length (p_bytes p))"
      "packet_image ifs (cf_interfaces c1) p q"
    by auto
  have "ng_blocks st1 + 3 * length ps \<le> 1000000" "ng_section st1 + length ps < 2 ^ 32"
      "length (cf_interfaces c1) + length ps \<le> max_interfaces"
      "n + length B + length (concat bs') \<le> max_file_bytes"
    using Cons.prems(4-6) s(3-5) len by simp_all
  from Cons.IH [OF bs(3) \<open>list_all (ng_exportable ifs) ps\<close> s(2) this(1-3) s(8) this(4)]
  obtain st' c' new extra where r: "run_blocks chunk st1 c1 (concat bs') (n + length B)
        = Inr (st', c', src [] (n + length B + length (concat bs')))" "ng_end st' = None"
      "cf_interfaces c' = cf_interfaces c1 @ extra" "cf_packets c' = cf_packets c1 @ new"
      "list_all2 (packet_image ifs (cf_interfaces c')) ps new"
      "cf_total c' = cf_total c1 + length ps" "cf_omitted c' = 0"
    by blast
  have "run_blocks chunk st c (concat bs) n = Inr (st', c', src [] (n + length (concat bs)))"
    using s(1) r(1) by (simp add: bs(1) add.assoc)
  moreover have "packet_image ifs (cf_interfaces c') p q"
    unfolding r(3) by (rule packet_image_mono [OF s(9)])
  ultimately show ?case
    using r s(5-7) by auto
qed

lemma read_ng_quiet:
  assumes ok: "selection_ok s" and e: "encode_ng s = Inr data"
  shows "\<exists>c. read_capture sha (\<lambda>_. False) chunk data = Inr c \<and>
    cf_total c = length (sel_packets s) \<and> cf_omitted c = 0 \<and>
    list_all2 (packet_image (sel_interfaces s) (cf_interfaces c)) (sel_packets s) (cf_packets c)"
proof -
  define ps where "ps = sel_packets s"
  obtain bs where bs: "collect_r (ng_packet_bytes (sel_interfaces s)) ps = Inr bs" "data = concat bs"
    using e by (auto simp: encode_ng_def result_simps ps_def)
  have ps: "ps \<noteq> []" "length ps \<le> 512" "(\<Sum>p\<leftarrow>ps. length (p_bytes p)) \<le> 1024 * 1024"
    using ok by (auto simp: selection_ok_def ps_def)
  have bound: "length data \<le> max_file_bytes"
  proof -
    have "length (concat bs) \<le> 700 * length ps + (\<Sum>p\<leftarrow>ps. length (p_bytes p))"
      by (rule collect_length [OF bs(1)]) (rule ng_packet_bytes_length(1))
    with ps show ?thesis by (simp add: bs(2) max_file_bytes_def)
  qed
  have le: "length (p_bytes p) \<le> max_packet_bytes" if "p \<in> set ps" for p
    using member_le_sum [OF that, of "\<lambda>p. length (p_bytes p)"] ps(3) by (simp add: max_packet_bytes_def)
  have nonempty: "p_timestamp p \<noteq> None \<or> p_bytes p \<noteq> [] \<or> p_original p = 0" if "p \<in> set ps" for p
  proof -
    from bs(1) have "map (ng_packet_bytes (sel_interfaces s)) ps = map Inr bs"
      by (simp add: collect_r_Inr_iff)
    with that have "is_ok (ng_packet_bytes (sel_interfaces s) p)"
      by (metis (no_types, lifting) imageE is_ok_simps(1) list.set_map image_eqI)
    then show ?thesis
      by (auto simp: ng_packet_bytes_def is_ok_iff result_simps Let_def)
  qed
  have ex: "list_all (ng_exportable (sel_interfaces s)) ps"
    unfolding list_all_iff ng_exportable_def exportable_def
    using ok le nonempty
    by (auto simp: selection_ok_def ps_def list_all_iff sized_packet_def)
  obtain p0 ps' where p0: "ps = p0 # ps'" using ps(1) by (cases ps) auto
  obtain B0 bs' where B0: "bs = B0 # bs'" "ng_packet_bytes (sel_interfaces s) p0 = Inr B0"
    using bs(1) p0 by (auto simp: result_simps)
  have m: "take 4 data = ng_magic" "4 \<le> length data"
    using B0 by (auto simp: bs(2) ng_packet_bytes_def result_simps Let_def put_block_split ng_magic_le)
  let ?c = "empty_capture PcapNg"
  have "room ?c (length ps) (\<Sum>p\<leftarrow>ps. length (p_bytes p))"
    using ps by (simp add: room_def empty_capture_def max_packets_def max_retained_bytes_def)
  then have "\<exists>st' c' new. run_blocks chunk ng_initial ?c (concat bs) 0
      = Inr (st', c', src [] (0 + length (concat bs))) \<and> ng_end st' = None \<and>
    (\<exists>extra. cf_interfaces c' = cf_interfaces ?c @ extra) \<and>
    cf_packets c' = cf_packets ?c @ new \<and>
    list_all2 (packet_image (sel_interfaces s) (cf_interfaces c')) ps new \<and>
    cf_total c' = cf_total ?c + length ps \<and> cf_omitted c' = 0"
    using bound ps
    by (intro run_packets [OF bs(1) ex])
       (auto simp: ng_initial_def empty_capture_def max_interfaces_def bs(2))
  then obtain st' c' new where r: "run_blocks chunk ng_initial ?c data 0 = Inr (st', c', src [] (length data))"
      "ng_end st' = None" "cf_packets c' = new"
      "list_all2 (packet_image (sel_interfaces s) (cf_interfaces c')) ps new"
      "cf_total c' = length ps" "cf_omitted c' = 0"
    by (auto simp: bs(2) empty_capture_def)
  have a: "input_exact (quiet chunk) 4 (src data 0) = Inr (ng_magic, src (drop 4 data) 4)"
  proof -
    have "data = ng_magic @ drop 4 data"
      using m(1) by (metis append_take_drop_id)
    moreover have "input_exact (quiet chunk) 4 (src (ng_magic @ drop 4 data) 0)
        = Inr (ng_magic, src (drop 4 data) (0 + 4))"
      using bound m(2) by (intro input_exact_quiet) (auto simp: ng_magic_def)
    ultimately show ?thesis by simp
  qed
  have l: "ng_loop (quiet chunk) ng_magic (ng_initial, ?c, src (drop 4 data) 4)
      = Inr (st', c', src [] (length data))"
  proof -
    have "data \<noteq> []" using m(2) by auto
    with r(1) m(1) show ?thesis by (simp add: run_blocks_def)
  qed
  have "read_capture sha (\<lambda>_. False) chunk data
      = Inr (c'\<lparr>cf_file_bytes := length data, cf_sha256 := sha data\<rparr>)"
    using a l r(2) by (simp add: read_capture_def read_with_def read_ng_def)
  with r show ?thesis by (simp add: ps_def)
qed
text \<open>
  C7: a selection exported as PCAPNG is read back packet by packet: the same bytes, lengths and
  timestamp (missing ones stay missing), each on an interface with the link type of its source.
  The reader returns it whatever the sizes of the pieces in which it gets the file.
\<close>

theorem pcapng_round_trip:
  assumes "selection_new cap indexes = Inr s" "sized_capture cap" "encode s PcapNg = Inr data"
  shows "\<exists>c. read_capture sha (\<lambda>_. False) chunk data = Inr c \<and>
    cf_total c = length indexes \<and> cf_omitted c = 0 \<and>
    list_all2 (packet_image (sel_interfaces s) (cf_interfaces c)) (sel_packets s) (cf_packets c)"
  using read_ng_quiet [OF selection_new_ok(1) [OF assms(1,2)], of data sha chunk] assms(3)
    selection_new_ok(2) [OF assms(1,2)]
  by (simp add: encode_def)

definition sample_packet :: "nat \<Rightarrow> timestamp option \<Rightarrow> packet" where
  "sample_packet n t =
     \<lparr>p_number = n, p_file_offset = 24, p_interface = 0, p_timestamp = t, p_original = 9,
      p_captured = 3, p_bytes = [1, 2, 3]\<rparr>"

definition sample_time :: timestamp where
  "sample_time = \<lparr>ticks = 1500000, ts_resolution = 6, ts_offset = 0\<rparr>"

definition sample_capture :: "timestamp option \<Rightarrow> capture_file" where
  "sample_capture t =
     \<lparr>cf_format = Pcap, cf_sha256 = replicate 64 (CHR ''A''), cf_file_bytes = 60,
      cf_interfaces = [\<lparr>if_section = 0, if_section_id = 0, if_link = 1, if_snaplen = 65535,
        if_name = [0x65, 0xE9], if_resolution = 6, if_offset = 0\<rparr>],
      cf_packets = [sample_packet 1 (Some sample_time), sample_packet 2 t], cf_total = 2, cf_omitted = 0,
      cf_truncated = 2, cf_auxiliary = 0, cf_retained = 6\<rparr>"

definition sample_selection :: "timestamp option \<Rightarrow> selection" where
  "sample_selection t =
     \<lparr>sel_sha256 = replicate 64 (CHR ''A''), sel_total = 2,
      sel_interfaces = cf_interfaces (sample_capture t),
      sel_packets = [sample_packet 1 (Some sample_time), sample_packet 2 t]\<rparr>"

lemma sample_selected: "selection_new (sample_capture t) [1, 0] = Inr (sample_selection t)"
proof -
  have "is_sha256_text (replicate 64 (CHR ''A''))"
    by (simp add: is_sha256_text_def is_ascii_hexdigit_def is_ascii_digit_def code_def list_all_iff)
  then show ?thesis
    by (simp add: selection_new_def sample_capture_def sample_selection_def select_one_def
        nth_option_def sample_packet_def max_interfaces_def)
qed

lemma sample_sized:
  "(case t of None \<Rightarrow> True | Some u \<Rightarrow> sized_timestamp u) \<Longrightarrow> sized_capture (sample_capture t)"
  by (simp add: sized_capture_def sample_capture_def sized_packet_def sample_packet_def
      sized_interface_def is_scalar_def sample_time_def sized_timestamp_def)

theorem pcapng_round_trip_witness:
  "\<exists>data. encode (sample_selection None) PcapNg = Inr data \<and>
    (\<exists>c. read_capture (\<lambda>_. []) (\<lambda>_. False) (\<lambda>_. 5) data = Inr c \<and>
      cf_total c = length [1, 0 :: nat] \<and> cf_omitted c = 0 \<and>
      list_all2 (packet_image (sel_interfaces (sample_selection None)) (cf_interfaces c))
        (sel_packets (sample_selection None)) (cf_packets c))"
proof -
  obtain data where d: "encode (sample_selection None) PcapNg = Inr data"
    by (simp add: encode_def encode_ng_def sample_selection_def ng_packet_bytes_def sample_packet_def)
  from pcapng_round_trip [OF sample_selected _ this] sample_sized [of None] d show ?thesis
    by auto
qed

text \<open>
  A selection exported as classic PCAP is read back packet by packet with the same bytes and
  lengths and the same time in nanoseconds, on one interface with the source's link type.
\<close>

theorem pcap_round_trip:
  assumes "selection_new cap indexes = Inr s" "sized_capture cap" "encode s Pcap = Inr data"
  shows "\<exists>c. read_capture sha (\<lambda>_. False) chunk data = Inr c \<and>
    cf_total c = length indexes \<and> cf_omitted c = 0 \<and> length (cf_interfaces c) = 1 \<and>
    if_link (cf_interfaces c ! 0) = if_link (sel_interfaces s ! p_interface (hd (sel_packets s))) \<and>
    list_all2 pcap_image (sel_packets s) (cf_packets c)"
  using read_pcap_quiet [OF selection_new_ok(1) [OF assms(1,2)], of data sha chunk] assms(3)
    selection_new_ok(2) [OF assms(1,2)]
    encode_pcap_length [OF selection_new_ok(1) [OF assms(1,2)], of data]
  by (simp add: encode_def)

theorem pcap_round_trip_witness:
  "\<exists>data. encode (sample_selection (Some sample_time)) Pcap = Inr data \<and>
    (\<exists>c. read_capture (\<lambda>_. []) (\<lambda>_. False) (\<lambda>_. 5) data = Inr c \<and>
      cf_total c = length [1, 0 :: nat] \<and> cf_omitted c = 0 \<and> length (cf_interfaces c) = 1 \<and>
      if_link (cf_interfaces c ! 0) = if_link (sel_interfaces (sample_selection (Some sample_time))
        ! p_interface (hd (sel_packets (sample_selection (Some sample_time))))) \<and>
      list_all2 pcap_image (sel_packets (sample_selection (Some sample_time))) (cf_packets c))"
proof -
  have "unix_nanos sample_time = 1500000000"
    by (simp add: unix_nanos_def sample_time_def ts_denominator_def Let_def)
  then obtain data where d: "encode (sample_selection (Some sample_time)) Pcap = Inr data"
    by (auto simp: encode_def encode_pcap_def sample_selection_def pcap_packet_bytes_def
        sample_packet_def sample_time_def [symmetric] Let_def)
  from pcap_round_trip [OF sample_selected _ this] sample_sized [of "Some sample_time"] d show ?thesis
    by (auto simp: sample_time_def sized_timestamp_def)
qed

lemma encode_reads_back:
  assumes "selection_ok s" "encode s f = Inr data"
  shows "\<exists>c. read_capture sha (\<lambda>_. False) chunk data = Inr c \<and> cf_total c = length (sel_packets s)"
  using assms read_ng_quiet [OF assms(1), of data sha chunk] read_pcap_quiet [OF assms(1), of data sha chunk]
    encode_pcap_length [OF assms(1), of data]
  by (cases f) (auto simp: encode_def)

text \<open>
  The check of \<open>save\<close> before publishing never refuses what the exporter itself encoded: when
  the encoding succeeds, so does the export, and its receipt lists the hash of those bytes.
\<close>

theorem verified_export_succeeds:
  assumes "selection_new cap indexes = Inr s" "sized_capture cap" "encode s f = Inr data"
  shows "verified_export sha chunk s f = Inr (data, receipt_of sha s data)"
proof -
  obtain c where c: "read_capture sha (\<lambda>_. False) chunk data = Inr c" "cf_total c = length (sel_packets s)"
    using encode_reads_back [OF selection_new_ok(1) [OF assms(1,2)] assms(3)] by blast
  then obtain t where "read_with sha (quiet chunk) data () = Inr (c, t)"
    by (auto simp: read_capture_def result_simps)
  from read_with_facts(2) [OF this] c assms(3) show ?thesis
    by (simp add: verified_export_def receipt_of_def)
qed

theorem verified_export_succeeds_witness:
  "\<exists>data. verified_export (\<lambda>_. []) (\<lambda>_. 5) (sample_selection None) PcapNg
    = Inr (data, receipt_of (\<lambda>_. []) (sample_selection None) data)"
proof -
  obtain data where d: "encode (sample_selection None) PcapNg = Inr data"
    by (simp add: encode_def encode_ng_def sample_selection_def ng_packet_bytes_def sample_packet_def)
  from verified_export_succeeds [OF sample_selected _ this] sample_sized [of None] show ?thesis
    by auto
qed

subsection \<open>What a successful read guarantees\<close>

text \<open>
  A read that succeeds has consumed its whole source: the recorded size is the number of bytes
  and the recorded hash is that of all of them, whatever the pieces they came in and whenever the
  cancel flag was looked at; and the source was within the limit of 128 MiB.
\<close>

theorem read_capture_complete:
  assumes "read_capture sha cancel chunk data = Inr c"
  shows "cf_file_bytes c = length data \<and> cf_sha256 c = sha data \<and> length data \<le> max_file_bytes"
proof -
  obtain t where "read_with sha (plain_env cancel chunk) data () = Inr (c, t)"
    using assms by (auto simp: read_capture_def result_simps)
  from read_with_facts [OF this] show ?thesis by simp
qed

lemma sample_readable:
  "\<exists>data c. read_capture (\<lambda>_. []) (\<lambda>_. False) (\<lambda>_. 5) data = Inr c \<and> cf_total c = 2"
proof -
  have ok: "selection_ok (sample_selection None)"
    using selection_new_ok(1) [OF sample_selected sample_sized] by simp
  obtain data where d: "encode (sample_selection None) PcapNg = Inr data"
    by (simp add: encode_def encode_ng_def sample_selection_def ng_packet_bytes_def sample_packet_def)
  from encode_reads_back [OF ok d, of "\<lambda>_. []" "\<lambda>_. 5"]
  obtain c where "read_capture (\<lambda>_. []) (\<lambda>_. False) (\<lambda>_. 5) data = Inr c"
      "cf_total c = length (sel_packets (sample_selection None))"
    by blast
  then show ?thesis
    by (intro exI [where x = data] exI [where x = c]) (simp add: sample_selection_def)
qed

theorem read_capture_complete_witness:
  "\<exists>data c. read_capture (\<lambda>_. []) (\<lambda>_. False) (\<lambda>_. 5) data = Inr c \<and> cf_total c = 2 \<and>
    cf_file_bytes c = length data \<and> cf_sha256 c = [] \<and> length data \<le> max_file_bytes"
proof -
  obtain data c where d: "read_capture (\<lambda>_. []) (\<lambda>_. False) (\<lambda>_. 5) data = Inr c" "cf_total c = 2"
    using sample_readable by blast
  from read_capture_complete [OF d(1)] d show ?thesis by auto
qed

text \<open>
  C32: what a successful read retains is a bounded prefix: the retained packets are numbered from 1
  without gaps, they and the omitted ones add up to the total, their bytes to the retained count,
  both within their limits; every packet has at most its original length and 1 MiB of bytes and
  belongs to one of the at most 1024 interfaces.
\<close>

theorem read_capture_inv:
  assumes "read_capture sha cancel chunk data = Inr c"
  shows "capture_inv \<lparr>l_bytes = max_file_bytes, l_records = 1000000, l_retain = True\<rparr> c \<and>
    length (cf_interfaces c) \<le> max_interfaces"
proof -
  obtain t where "read_with sha (plain_env cancel chunk) data () = Inr (c, t)"
    using assms by (auto simp: read_capture_def result_simps)
  from read_with_facts [OF this] show ?thesis by (simp add: plain_env_def)
qed

theorem read_capture_inv_witness:
  "\<exists>data c. read_capture (\<lambda>_. []) (\<lambda>_. False) (\<lambda>_. 5) data = Inr c \<and> cf_total c = 2 \<and>
    capture_inv \<lparr>l_bytes = max_file_bytes, l_records = 1000000, l_retain = True\<rparr> c \<and>
    length (cf_interfaces c) \<le> max_interfaces"
proof -
  obtain data c where d: "read_capture (\<lambda>_. []) (\<lambda>_. False) (\<lambda>_. 5) data = Inr c" "cf_total c = 2"
    using sample_readable by blast
  from read_capture_inv [OF d(1)] d show ?thesis by auto
qed

end
