(* ===== verification/Sink.thy ===== *)
theory Sink
  imports Reader_Facts
begin

text \<open>
  What a packet sink sees of a read: \<open>fed env s0 seen s\<close> holds when the callbacks of \<open>env\<close>, called
  on the packets \<open>seen\<close> in order with any progress reports in between, take the sink from \<open>s0\<close> to
  \<open>s\<close>. Every successful read is such a run, with the packets numbered from 1; what a sink computes
  is proved by rule induction over it.
\<close>

inductive fed ::
    "'s reader_env \<Rightarrow> 's \<Rightarrow> (packet \<times> capture_interface) list \<Rightarrow> 's \<Rightarrow> bool"
  for env :: "'s reader_env" and s0 :: 's where
  start: "fed env s0 [] s0"
| progress: "fed env s0 seen s \<Longrightarrow> fed env s0 seen (env_progress env n s)"
| packet: "fed env s0 seen s \<Longrightarrow> env_packet env p i s = Inr s' \<Longrightarrow>
    p_number p = Suc (length seen) \<Longrightarrow> p_captured p = length (p_bytes p) \<Longrightarrow>
    fed env s0 (seen @ [(p, i)]) s'"

text \<open>A reader state whose sink has been fed every packet counted so far.\<close>

definition fed_to :: "'s reader_env \<Rightarrow> 's \<Rightarrow> nat \<Rightarrow> 's \<Rightarrow> bool" where
  "fed_to env s0 k s \<longleftrightarrow> (\<exists>seen. fed env s0 seen s \<and> length seen = k)"

lemma fed_to_progress: "fed_to env s0 k s \<Longrightarrow> fed_to env s0 k (env_progress env n s)"
  by (auto simp: fed_to_def intro: fed.progress)

lemma fed_to_packet:
  "fed_to env s0 k s \<Longrightarrow> env_packet env p i s = Inr s' \<Longrightarrow> p_number p = Suc k \<Longrightarrow>
     p_captured p = length (p_bytes p) \<Longrightarrow> fed_to env s0 (Suc k) s'"
  by (fastforce simp: fed_to_def intro: fed.packet)

lemma read_once_fed:
  "read_once env n inp = Inr (bs, inp') \<Longrightarrow> fed_to env s0 k (in_sink inp) \<Longrightarrow>
     fed_to env s0 k (in_sink inp')"
  by (auto simp: read_once_def Let_def split: if_splits intro: fed_to_progress)

lemma read_exact_fed:
  "read_exact env n inp = Inr (bs, inp') \<Longrightarrow> fed_to env s0 k (in_sink inp) \<Longrightarrow>
     fed_to env s0 k (in_sink inp')"
proof (induction env n inp arbitrary: bs inp' rule: read_exact.induct)
  case (1 env n inp)
  show ?case
  proof (cases "n = 0")
    case True
    with "1.prems" show ?thesis by (simp add: read_exact.simps)
  next
    case False
    obtain b1 i1 where o: "read_once env n inp = Inr (b1, i1)" "b1 \<noteq> []"
      using "1.prems"(1) False
      by (auto simp: read_exact.simps [of env n inp] split: sum.splits prod.splits if_splits)
    obtain b2 where e: "read_exact env (n - length b1) i1 = Inr (b2, inp')"
      using "1.prems"(1) False o
      by (auto simp: read_exact.simps [of env n inp] split: sum.splits prod.splits if_splits)
    from "1.IH" [OF False o(1) refl o(2) e read_once_fed [OF o(1) "1.prems"(2)]] show ?thesis .
  qed
qed

lemma input_exact_fed:
  "input_exact env n inp = Inr (bs, inp') \<Longrightarrow> fed_to env s0 k (in_sink inp) \<Longrightarrow>
     fed_to env s0 k (in_sink inp')"
  by (auto simp: input_exact_def intro: read_exact_fed)

lemma input_bytes_fed:
  "input_bytes env n m inp = Inr (bs, inp') \<Longrightarrow> fed_to env s0 k (in_sink inp) \<Longrightarrow>
     fed_to env s0 k (in_sink inp')"
  by (auto simp: input_bytes_def result_simps intro: read_exact_fed)

lemma input_next_fed:
  "input_next env n inp = Inr (h, inp') \<Longrightarrow> fed_to env s0 k (in_sink inp) \<Longrightarrow>
     fed_to env s0 k (in_sink inp')"
  by (auto simp: input_next_def result_simps split: sum.splits if_splits
      dest!: read_exact_fed [where ?s0.0 = s0 and k = k] read_once_fed [where ?s0.0 = s0 and k = k])

lemma retain_fed:
  assumes "retain env i off ts original bytes (c, inp) = Inr (c', inp')"
    and "fed_to env s0 (cf_total c) (in_sink inp)"
  shows "fed_to env s0 (cf_total c') (in_sink inp')"
proof -
  define p where "p = \<lparr>p_number = Suc (cf_total c), p_file_offset = off, p_interface = i,
    p_timestamp = ts, p_original = original, p_captured = length bytes, p_bytes = bytes\<rparr>"
  obtain s where "env_packet env p (cf_interfaces c ! i) (in_sink inp) = Inr s" "in_sink inp' = s"
      "cf_total c' = Suc (cf_total c)"
    using assms(1)
    by (auto simp: retain_def result_simps Let_def p_def retain_packet_def split: if_splits)
  with fed_to_packet [OF assms(2)] show ?thesis by (auto simp: p_def)
qed

lemma pcap_record_fed:
  "pcap_record env ph off h (c, inp) = Inr (c', inp') \<Longrightarrow> fed_to env s0 (cf_total c) (in_sink inp) \<Longrightarrow>
     fed_to env s0 (cf_total c') (in_sink inp')"
  by (auto simp: pcap_record_def result_simps Let_def elim!: retain_fed input_bytes_fed)

lemma pcap_loop_fed:
  "pcap_loop env ph ci = Inr ci' \<Longrightarrow> fed_to env s0 (cf_total (fst ci)) (in_sink (snd ci)) \<Longrightarrow>
     fed_to env s0 (cf_total (fst ci')) (in_sink (snd ci'))"
proof (induction env ph ci arbitrary: ci' rule: pcap_loop.induct)
  case (1 env ph c inp)
  obtain h i1 where n: "input_next env 16 inp = Inr (h, i1)"
    using "1.prems"(1) by (auto simp: pcap_loop.simps [of env ph c inp] split: sum.splits)
  have i1: "fed_to env s0 (cf_total c) (in_sink i1)"
    using input_next_fed [OF n] "1.prems"(2) by simp
  show ?case
  proof (cases h)
    case None
    with "1.prems"(1) n i1 show ?thesis
      by (auto simp: pcap_loop.simps [of env ph c inp])
  next
    case (Some hd)
    with "1.prems"(1) n obtain c2 i2 where
      r: "pcap_record env ph (in_count inp) hd (c, i1) = Inr (c2, i2)"
      and l: "pcap_loop env ph (c2, i2) = Inr ci'"
      by (auto simp: pcap_loop.simps [of env ph c inp] split: sum.splits)
    from "1.IH" [OF n refl Some r refl l] pcap_record_fed [OF r i1] show ?thesis
      by simp
  qed
qed

lemma ng_frame_fed:
  "ng_frame env kind st inp = Inr (st', off, body, inp') \<Longrightarrow> fed_to env s0 k (in_sink inp) \<Longrightarrow>
     fed_to env s0 k (in_sink inp')"
  by (auto simp: ng_frame_def result_simps Let_def elim!: input_exact_fed input_bytes_fed split: if_splits)

lemma ng_block_fed:
  assumes "ng_block env kind (st, c, inp) = Inr (st', c', inp')"
    and "fed_to env s0 (cf_total c) (in_sink inp)"
  shows "fed_to env s0 (cf_total c') (in_sink inp')"
proof -
  obtain st1 off body i1 where f: "ng_frame env kind st inp = Inr (st1, off, body, i1)"
    using assms(1) by (auto simp: ng_block_def result_simps)
  note i1 = ng_frame_fed [OF f assms(2)]
  have p: "fed_to env s0 (cf_total c2) (in_sink i2)"
    if "ng_packet_block env t off body st1 (c, i1) = Inr (c2, i2)" for t c2 i2
    using that i1 by (auto simp: ng_packet_block_def result_simps Let_def elim!: retain_fed)
  have s: "fed_to env s0 (cf_total c2) (in_sink i2)"
    if "ng_simple_block env off body st1 (c, i1) = Inr (c2, i2)" for c2 i2
    using that i1 by (auto simp: ng_simple_block_def result_simps Let_def elim!: retain_fed)
  have i: "cf_total c2 = cf_total c" if "ng_interface_block body st1 c = Inr (st2, c2)" for st2 c2
    using that by (auto simp: ng_interface_block_def result_simps Let_def)
  from assms(1) f i1 p s i show ?thesis
    by (auto simp: ng_block_def result_simps Let_def split: if_splits)
qed

lemma ng_loop_fed:
  "ng_loop env kind s = Inr s' \<Longrightarrow> fed_to env s0 (cf_total (fst (snd s))) (in_sink (snd (snd s))) \<Longrightarrow>
     fed_to env s0 (cf_total (fst (snd s'))) (in_sink (snd (snd s')))"
proof (induction env kind s arbitrary: s' rule: ng_loop.induct)
  case (1 env kind st c inp)
  obtain st1 c1 i1 where b: "ng_block env kind (st, c, inp) = Inr (st1, c1, i1)"
    using "1.prems"(1) by (auto simp: ng_loop.simps [of env kind st c inp] split: sum.splits)
  with "1.prems"(1) obtain h i2 where n: "input_next env 4 i1 = Inr (h, i2)"
    by (auto simp: ng_loop.simps [of env kind st c inp] split: sum.splits)
  have i2: "fed_to env s0 (cf_total c1) (in_sink i2)"
    using input_next_fed [OF n] ng_block_fed [OF b] "1.prems"(2) by simp
  show ?case
  proof (cases h)
    case None
    with "1.prems"(1) n b i2 show ?thesis
      by (auto simp: ng_loop.simps [of env kind st c inp])
  next
    case (Some k)
    with "1.prems"(1) n b have l: "ng_loop env k (st1, c1, i2) = Inr s'"
      by (simp add: ng_loop.simps [of env kind st c inp])
    from "1.IH" [OF b refl refl n refl Some l] i2 show ?thesis by simp
  qed
qed

lemma read_with_fed:
  assumes "read_with sha env data s = Inr (c, s')"
  shows "\<exists>seen. fed env s seen s' \<and> length seen = cf_total c"
proof -
  obtain magic i1 c1 i2 where e: "input_exact env 4 \<lparr>unread = data, in_count = 0, in_sink = s\<rparr> = Inr (magic, i1)"
    and r: "(if magic = ng_magic then read_ng env magic (empty_capture PcapNg, i1)
       else read_pcap env magic (empty_capture Pcap, i1)) = Inr (c1, i2)"
    and c: "cf_total c = cf_total c1" "s' = in_sink i2"
    using assms by (auto simp: read_with_def result_simps)
  have "fed_to env s 0 s"
    by (auto simp: fed_to_def intro: fed.start)
  then have i1: "fed_to env s 0 (in_sink i1)"
    using input_exact_fed [OF e] by simp
  have "fed_to env s (cf_total c1) (in_sink i2)"
  proof (cases "magic = ng_magic")
    case True
    then obtain st where "ng_loop env magic (ng_initial, empty_capture PcapNg, i1) = Inr (st, c1, i2)"
      using r by (auto simp: read_ng_def result_simps)
    from ng_loop_fed [OF this] i1 show ?thesis by (simp add: empty_capture_def)
  next
    case False
    then obtain ph c0 i0 where p: "pcap_start env magic (empty_capture Pcap, i1) = Inr (ph, c0, i0)"
      and l: "pcap_loop env ph (c0, i0) = Inr (c1, i2)"
      using r by (auto simp: read_pcap_def result_simps)
    have "fed_to env s 0 (in_sink i0)" "cf_total c0 = 0"
      using p i1 by (auto simp: pcap_start_def result_simps Let_def empty_capture_def elim!: input_exact_fed)
    with pcap_loop_fed [OF l] show ?thesis by simp
  qed
  then show ?thesis
    by (simp add: fed_to_def c)
qed

end
