(* ===== verification/Btree.thy ===== *)
theory Btree
  imports Main
begin

text \<open>
  \<open>BTreeMap\<close>: an association list with strictly increasing keys. Lookup is \<^const>\<open>map_of\<close>,
  iteration is the list itself.
\<close>

fun bt_put :: "'k::linorder \<Rightarrow> 'v \<Rightarrow> ('k \<times> 'v) list \<Rightarrow> ('k \<times> 'v) list" where
  "bt_put k v [] = [(k, v)]"
| "bt_put k v ((k', v') # m) =
     (if k < k' then (k, v) # (k', v') # m
      else if k = k' then (k, v) # m
      else (k', v') # bt_put k v m)"

definition bt_remove :: "'k \<Rightarrow> ('k \<times> 'v) list \<Rightarrow> ('k \<times> 'v) list" where
  "bt_remove k m = filter (\<lambda>kv. fst kv \<noteq> k) m"

text \<open>\<open>entry(k).or_insert(d)\<close> followed by an update.\<close>

definition bt_update :: "'k::linorder \<Rightarrow> 'v \<Rightarrow> ('v \<Rightarrow> 'v) \<Rightarrow> ('k \<times> 'v) list \<Rightarrow> ('k \<times> 'v) list" where
  "bt_update k d f m = bt_put k (f (case map_of m k of None \<Rightarrow> d | Some v \<Rightarrow> v)) m"

definition bt_ok :: "('k::linorder \<times> 'v) list \<Rightarrow> bool" where
  "bt_ok m \<longleftrightarrow> sorted_wrt (<) (map fst m)"

lemma keys_map_of: "fst ` set m = dom (map_of m)"
  by (simp add: dom_map_of_conv_image_fst)

lemma bt_ok_simps [simp]:
  "bt_ok []" "bt_ok ((k, v) # m) \<longleftrightarrow> (\<forall>k' \<in> dom (map_of m). k < k') \<and> bt_ok m"
  by (simp_all add: bt_ok_def keys_map_of [symmetric])

lemma map_of_bt_put [simp]: "map_of (bt_put k v m) = (map_of m)(k \<mapsto> v)"
  by (induction m) auto

lemma bt_ok_put [simp]: "bt_ok m \<Longrightarrow> bt_ok (bt_put k v m)"
proof (induction m)
  case Nil
  then show ?case by simp
next
  case (Cons kv m)
  obtain k' v' where kv: "kv = (k', v')" by force
  consider "k < k'" | "k = k'" | "k' < k" by (rule linorder_cases)
  then show ?case
    using Cons kv by cases (auto dest: bspec less_trans)
qed

lemma map_of_smaller: "\<forall>k' \<in> dom (map_of m). k < k' \<Longrightarrow> map_of m (k::'k::linorder) = None"
  by (cases "map_of m k") auto

lemma length_bt_put:
  "bt_ok m \<Longrightarrow> length (bt_put k v m) = (if map_of m k = None then Suc (length m) else length m)"
proof (induction m)
  case Nil
  then show ?case by simp
next
  case (Cons kv m)
  obtain k' v' where kv: "kv = (k', v')" by force
  show ?case
  proof (cases "k < k'")
    case True
    then have "map_of m k = None"
      using Cons.prems kv by (intro map_of_smaller) (auto dest!: bspec intro: less_trans)
    with True kv show ?thesis by auto
  next
    case False
    with Cons kv show ?thesis by auto
  qed
qed

lemma sum_bt_put:
  fixes f :: "'v \<Rightarrow> nat"
  shows "bt_ok m \<Longrightarrow> (\<Sum>kv\<leftarrow>bt_put k v m. f (snd kv)) + (case map_of m k of None \<Rightarrow> 0 | Some w \<Rightarrow> f w)
    = (\<Sum>kv\<leftarrow>m. f (snd kv)) + f v"
proof (induction m)
  case Nil
  then show ?case by simp
next
  case (Cons kv m)
  obtain k' v' where kv: "kv = (k', v')" by force
  show ?case
  proof (cases "k < k'")
    case True
    then have "map_of m k = None"
      using Cons.prems kv by (intro map_of_smaller) (auto dest!: bspec intro: less_trans)
    with True kv show ?thesis by auto
  next
    case False
    with Cons kv show ?thesis by auto
  qed
qed

lemma bt_ok_update [simp]: "bt_ok m \<Longrightarrow> bt_ok (bt_update k d f m)"
  by (simp add: bt_update_def)

lemma length_bt_update:
  "bt_ok m \<Longrightarrow> length (bt_update k d f m) = (if map_of m k = None then Suc (length m) else length m)"
  by (simp add: bt_update_def length_bt_put)

text \<open>An update that adds \<open>n\<close> to a measure of the value adds \<open>n\<close> to the total.\<close>

lemma sum_bt_update:
  fixes g :: "'v \<Rightarrow> nat"
  assumes "bt_ok m" "g d = 0" "\<And>v. g (f v) = g v + n"
  shows "(\<Sum>kv\<leftarrow>bt_update k d f m. g (snd kv)) = (\<Sum>kv\<leftarrow>m. g (snd kv)) + n"
  using sum_bt_put [OF assms(1), of g k "f (case map_of m k of None \<Rightarrow> d | Some v \<Rightarrow> v)"] assms(2,3)
  by (auto simp: bt_update_def split: option.splits)

lemma bt_ok_remove [simp]: "bt_ok m \<Longrightarrow> bt_ok (bt_remove k m)"
  unfolding bt_ok_def bt_remove_def by (induction m) auto

lemma map_of_bt_remove: "map_of (bt_remove k m) = (map_of m)(k := None)"
  by (induction m) (auto simp: bt_remove_def)

lemma length_bt_remove:
  "bt_ok m \<Longrightarrow> map_of m k \<noteq> None \<Longrightarrow> Suc (length (bt_remove k m)) = length m"
proof (induction m)
  case Nil
  then show ?case by simp
next
  case (Cons kv m)
  obtain k' v' where kv: "kv = (k', v')" by force
  show ?case
  proof (cases "k = k'")
    case True
    then have "bt_remove k m = m"
      using Cons.prems kv by (auto simp: bt_remove_def filter_id_conv keys_map_of [symmetric])
    with True kv show ?thesis by (simp add: bt_remove_def)
  next
    case False
    with Cons kv show ?thesis by (auto simp: bt_remove_def)
  qed
qed

lemma bt_length_card: "bt_ok m \<Longrightarrow> length m = card (dom (map_of m))"
proof -
  assume "bt_ok m"
  then have "distinct (map fst m)"
    by (simp add: bt_ok_def strict_sorted_iff)
  then show ?thesis
    using distinct_card [of "map fst m"] by (simp add: keys_map_of [symmetric])
qed

end
