(* ===== verification/Analysis.thy ===== *)
theory Analysis
  imports Sink Btree "HOL-Library.List_Lexorder" "HOL-Library.Char_ord" "HOL-Library.Product_Lexorder"
begin

text \<open>
  \<open>crates/netlane-capture/src/analysis.rs\<close>: the incremental analysis of a whole dump as a packet
  sink, with its bounded inventory of destinations, coarsening time windows and deterministic
  reservoir of samples. \<open>BTreeMap\<close>s are the ordered association lists of the theory Btree; the
  \<open>BinaryHeap\<close> of priorities is an ascending list whose last element is its greatest. The
  comparison of two reports (floating point) and its texts are not modelled.
\<close>

definition max_dump_bytes :: nat where "max_dump_bytes = 64 * 1024 * 1024 * 1024"
definition max_dump_records :: nat where "max_dump_records = 100000000"
definition max_samples :: nat where "max_samples = 512"
definition sample_bytes :: nat where "sample_bytes = 2048"
definition max_destinations :: nat where "max_destinations = 4096"
definition max_windows :: nat where "max_windows = 1024"

record dump_progress =
  pg_bytes :: nat
  pg_packets :: nat
  pg_resets :: nat

record dump_destination =
  dd_packets :: nat
  dd_first :: nat
  dd_offset :: nat

record dump_window =
  dw_packets :: nat
  dw_bytes :: nat
  dw_resets :: nat
  dw_first :: nat
  dw_last :: nat

record dump_report =
  dr_sha256 :: string
  dr_packets :: nat
  dr_captured :: nat
  dr_timed :: nat
  dr_timed_bytes :: nat
  dr_untimed :: nat
  dr_first :: "string option"
  dr_last :: "string option"
  dr_tcp :: nat
  dr_resets :: nat
  dr_protocols :: "(string \<times> nat) list"
  dr_destinations :: "(string \<times> dump_destination) list"
  dr_overflow :: nat
  dr_window_seconds :: nat
  dr_windows :: "(string \<times> dump_window) list"
  dr_samples :: nat

type_synonym dump_sample = "packet \<times> summary"

record analyzer =
  an_progress :: dump_progress
  an_report :: dump_report
  an_windows :: "(int \<times> dump_window) list"
  an_samples :: "(nat \<times> dump_sample) list"
  an_ranks :: "(u64 \<times> nat) list"
  an_first :: "dump_sample option"
  an_last :: "dump_sample option"
  an_first_time :: "int option"
  an_last_time :: "int option"

record scan =
  sc_capture :: capture_file
  sc_summaries :: "summary list"
  sc_report :: dump_report

definition sample_of :: "packet \<Rightarrow> summary \<Rightarrow> dump_sample" where
  "sample_of p s = (p\<lparr>p_bytes := take sample_bytes (p_bytes p)\<rparr>, s)"

text \<open>\<open>rank\<close>: the finaliser of splitmix64.\<close>

definition rank :: "u64 \<Rightarrow> u64" where
  "rank n0 =
     (let n1 = n0 + 0x9e3779b97f4a7c15;
          n2 = (n1 XOR drop_bit 30 n1) * 0xbf58476d1ce4e5b9;
          n3 = (n2 XOR drop_bit 27 n2) * 0x94d049bb133111eb
      in n3 XOR drop_bit 31 n3)"

definition host :: "string \<Rightarrow> string" where
  "host endpoint =
     (if endpoint \<noteq> [] \<and> hd endpoint = CHR ''['' then takeWhile (\<lambda>c. c \<noteq> CHR '']'') (tl endpoint)
      else if length (filter (\<lambda>c. c = CHR '':'') endpoint) = 1
      then takeWhile (\<lambda>c. c \<noteq> CHR '':'') endpoint
      else endpoint)"

definition merge_window :: "dump_window \<Rightarrow> dump_window \<Rightarrow> dump_window" where
  "merge_window t s =
     t\<lparr>dw_packets := dw_packets t + dw_packets s, dw_bytes := dw_bytes t + dw_bytes s,
       dw_resets := dw_resets t + dw_resets s,
       dw_first := (if dw_first t = 0 \<or> dw_first s < dw_first t then dw_first s else dw_first t),
       dw_last := max (dw_last t) (dw_last s)\<rparr>"

definition window_default :: dump_window where
  "window_default = \<lparr>dw_packets = 0, dw_bytes = 0, dw_resets = 0, dw_first = 0, dw_last = 0\<rparr>"

text \<open>\<open>str::split_whitespace\<close>.\<close>

function split_ws :: "string \<Rightarrow> string \<Rightarrow> string list" where
  "split_ws cur [] = (if cur = [] then [] else [cur])"
| "split_ws cur (c # s) =
     (case strip_first white_space (c # s) of
        Some t \<Rightarrow> (if cur = [] then [] else [cur]) @ split_ws [] t
      | None \<Rightarrow> split_ws (cur @ [c]) s)"
  by pat_completeness auto
termination
  by (relation "measure (\<lambda>(cur, s). length s)") (auto dest: strip_first_shorter)

definition is_reset :: "summary \<Rightarrow> bool" where
  "is_reset s \<longleftrightarrow> protocol s = ''TCP'' \<and> ''RST'' \<in> set (split_ws [] (info s))"

text \<open>One coarsening of the windows, and the loop of coarsenings; see \<open>coarsen_fuel\<close> for its
  bound.\<close>

definition halve_windows :: "(int \<times> dump_window) list \<Rightarrow> (int \<times> dump_window) list" where
  "halve_windows ws =
     fold (\<lambda>(key, w) acc. bt_update (key div 2) window_default (\<lambda>t. merge_window t w) acc) ws []"

fun coarsen ::
    "nat \<Rightarrow> nat \<Rightarrow> (int \<times> dump_window) list \<Rightarrow> reader_error + nat \<times> (int \<times> dump_window) list" where
  "coarsen fuel seconds ws =
     (if length ws \<le> max_windows then Inr (seconds, ws)
      else if 2 ^ 64 \<le> seconds * 2 then Inl Sink_interval_overflow
      else (case fuel of 0 \<Rightarrow> Inl Sink_interval_overflow
            | Suc fuel' \<Rightarrow> coarsen fuel' (seconds * 2) (halve_windows ws)))"

definition count_destination :: "packet \<Rightarrow> summary \<Rightarrow> dump_report \<Rightarrow> dump_report" where
  "count_destination p s r =
     (let d = host (destination s) in
      if d = dash then r
      else if map_of (dr_destinations r) d \<noteq> None \<or> length (dr_destinations r) < max_destinations
      then r\<lparr>dr_destinations :=
             bt_update d \<lparr>dd_packets = 0, dd_first = p_number p, dd_offset = p_file_offset p\<rparr>
               (\<lambda>x. x\<lparr>dd_packets := dd_packets x + 1\<rparr>) (dr_destinations r)\<rparr>
      else r\<lparr>dr_overflow := dr_overflow r + 1\<rparr>)"

definition count_packet :: "packet \<Rightarrow> summary \<Rightarrow> dump_report \<Rightarrow> dump_report" where
  "count_packet p s r =
     count_destination p s
       (r\<lparr>dr_packets := dr_packets r + 1, dr_captured := dr_captured r + p_captured p,
          dr_tcp := dr_tcp r + (if protocol s = ''TCP'' then 1 else 0),
          dr_resets := dr_resets r + (if is_reset s then 1 else 0),
          dr_protocols := bt_update (protocol s) 0 (\<lambda>n. n + 1) (dr_protocols r)\<rparr>)"

definition packet_window :: "packet \<Rightarrow> summary \<Rightarrow> dump_window" where
  "packet_window p s =
     \<lparr>dw_packets = 1, dw_bytes = p_captured p, dw_resets = (if is_reset s then 1 else 0),
      dw_first = p_number p, dw_last = p_number p\<rparr>"

definition count_time :: "packet \<Rightarrow> summary \<Rightarrow> analyzer \<Rightarrow> reader_error + analyzer" where
  "count_time p s a =
     (let r = an_report a in
      case p_timestamp p of
        None \<Rightarrow> Inr (a\<lparr>an_report := r\<lparr>dr_untimed := dr_untimed r + 1\<rparr>\<rparr>)
      | Some t \<Rightarrow>
          (let ns = unix_nanos t;
               key = ns div (int (dr_window_seconds r) * 1000000000);
               ws = bt_update key window_default (\<lambda>w. merge_window w (packet_window p s)) (an_windows a)
           in rbind (coarsen 64 (dr_window_seconds r) ws) (\<lambda>(seconds, ws').
                Inr (a\<lparr>an_first_time := Some (case an_first_time a of None \<Rightarrow> ns | Some f \<Rightarrow> min f ns),
                       an_last_time := Some (case an_last_time a of None \<Rightarrow> ns | Some l \<Rightarrow> max l ns),
                       an_report := r\<lparr>dr_timed := dr_timed r + 1,
                                     dr_timed_bytes := dr_timed_bytes r + p_captured p,
                                     dr_window_seconds := seconds\<rparr>,
                       an_windows := ws'\<rparr>))))"

text \<open>The reservoir: \<open>insort\<close> pushes to the heap, \<open>last\<close> peeks and \<open>butlast\<close> pops.\<close>

definition keep_sample :: "packet \<Rightarrow> summary \<Rightarrow> analyzer \<Rightarrow> analyzer" where
  "keep_sample p s a =
     (let priority = (rank (of_nat (p_number p)), p_number p);
          full = (max_samples - 2 \<le> length (an_samples a)) in
      if \<not> full \<or> (an_ranks a \<noteq> [] \<and> priority < last (an_ranks a)) then
        (let (ranks, samples) =
               (if full then (butlast (an_ranks a), bt_remove (snd (last (an_ranks a))) (an_samples a))
                else (an_ranks a, an_samples a))
         in a\<lparr>an_ranks := insort priority ranks,
              an_samples := bt_put (p_number p) (sample_of p s) samples\<rparr>)
      else a)"

definition analyze_packet ::
    "packet \<Rightarrow> capture_interface \<Rightarrow> analyzer \<Rightarrow> reader_error + analyzer" where
  "analyze_packet p i a =
     (let s = summarize (p_bytes p) (if_link i) in
      rbind (count_time p s (a\<lparr>an_report := count_packet p s (an_report a)\<rparr>)) (\<lambda>a1.
      let a2 = a1\<lparr>an_first := (case an_first a1 of None \<Rightarrow> Some (sample_of p s) | Some f \<Rightarrow> Some f),
                  an_last := Some (sample_of p s)\<rparr>;
          a3 = keep_sample p s a2 in
      Inr (a3\<lparr>an_progress := (an_progress a3)\<lparr>pg_packets := dr_packets (an_report a3),
                                             pg_resets := dr_resets (an_report a3)\<rparr>\<rparr>)))"

definition analyzer_env :: "(nat \<Rightarrow> bool) \<Rightarrow> (nat \<Rightarrow> nat) \<Rightarrow> analyzer reader_env" where
  "analyzer_env cancel chunk =
     \<lparr>env_cancel = cancel, env_chunk = chunk,
      env_limits = \<lparr>l_bytes = max_dump_bytes, l_records = max_dump_records, l_retain = False\<rparr>,
      env_packet = analyze_packet,
      env_progress = (\<lambda>n a. a\<lparr>an_progress := (an_progress a)\<lparr>pg_bytes := n\<rparr>\<rparr>)\<rparr>"

definition analyzer_initial :: analyzer where
  "analyzer_initial =
     \<lparr>an_progress = \<lparr>pg_bytes = 0, pg_packets = 0, pg_resets = 0\<rparr>,
      an_report = \<lparr>dr_sha256 = [], dr_packets = 0, dr_captured = 0, dr_timed = 0, dr_timed_bytes = 0,
        dr_untimed = 0, dr_first = None, dr_last = None, dr_tcp = 0, dr_resets = 0,
        dr_protocols = [], dr_destinations = [], dr_overflow = 0, dr_window_seconds = 60,
        dr_windows = [], dr_samples = 0\<rparr>,
      an_windows = [], an_samples = [], an_ranks = [], an_first = None, an_last = None,
      an_first_time = None, an_last_time = None\<rparr>"

definition final_samples :: "analyzer \<Rightarrow> (nat \<times> dump_sample) list" where
  "final_samples a =
     fold (\<lambda>v. bt_put (p_number (fst v)) v)
       ((case an_first a of None \<Rightarrow> [] | Some v \<Rightarrow> [v]) @ (case an_last a of None \<Rightarrow> [] | Some v \<Rightarrow> [v]))
       (an_samples a)"

definition finish_scan :: "capture_file \<Rightarrow> analyzer \<Rightarrow> scan" where
  "finish_scan c a =
     (let samples = final_samples a;
          r = (an_report a)
            \<lparr>dr_sha256 := cf_sha256 c, dr_samples := length samples,
             dr_first := map_option dec_int (an_first_time a),
             dr_last := map_option dec_int (an_last_time a),
             dr_windows := map (\<lambda>(key, w). (dec_int (key * int (dr_window_seconds (an_report a))), w))
                             (an_windows a)\<rparr>;
          packets = map (fst \<circ> snd) samples;
          c1 = c\<lparr>cf_retained := cf_retained c + (\<Sum>p\<leftarrow>packets. length (p_bytes p)),
                 cf_packets := cf_packets c @ packets\<rparr> in
      \<lparr>sc_capture = c1\<lparr>cf_omitted := cf_total c1 - length (cf_packets c1)\<rparr>,
       sc_summaries = map (snd \<circ> snd) samples, sc_report = r\<rparr>)"

definition read_dump ::
    "(u8 list \<Rightarrow> string) \<Rightarrow> (nat \<Rightarrow> bool) \<Rightarrow> (nat \<Rightarrow> nat) \<Rightarrow> u8 list \<Rightarrow> reader_error + scan" where
  "read_dump sha cancel chunk data =
     rbind (read_with sha (analyzer_env cancel chunk) data analyzer_initial)
       (\<lambda>(c, a). Inr (finish_scan c a))"

text \<open>\<open>load_dump\<close>: the metadata before and after, as \<open>(is_file, len, modified)\<close>.\<close>

definition load_dump ::
    "(u8 list \<Rightarrow> string) \<Rightarrow> (nat \<Rightarrow> bool) \<Rightarrow> (nat \<Rightarrow> nat) \<Rightarrow> bool \<times> nat \<times> nat option
     \<Rightarrow> bool \<times> nat \<times> nat option \<Rightarrow> u8 list \<Rightarrow> reader_error + scan" where
  "load_dump sha cancel chunk before after data =
     (case (before, after) of ((is_file, blen, bmod), (_, alen, amod)) \<Rightarrow>
        rbind (ensure (is_file \<and> blen \<le> max_dump_bytes) Not_regular) (\<lambda>_.
        rbind (read_dump sha cancel chunk data) (\<lambda>sc.
        rbind (ensure (blen = alen \<and> alen = cf_file_bytes (sc_capture sc) \<and> bmod = amod) Capture_changed)
          (\<lambda>_. Inr sc))))"

end
