(* ===== verification/Analysis_Facts.thy ===== *)
theory Analysis_Facts
  imports Analysis
begin

text \<open>
  What the analysis of a dump computes: the totals count every packet, the bounded tables never
  exceed their bounds and lose nothing silently, and the samples are a function of the number of
  packets alone.
\<close>

subsection \<open>Coarsening\<close>

text \<open>The bound on the coarsenings is never what stops them: the interval overflows first.\<close>

lemma coarsen_fuel:
  "0 < seconds \<Longrightarrow> 2 ^ 64 \<le> seconds * 2 ^ n \<Longrightarrow> n \<le> m \<Longrightarrow>
     coarsen m seconds ws = coarsen n seconds ws"
proof (induction n arbitrary: m seconds ws)
  case 0
  then have "2 ^ 64 \<le> seconds * 2" by simp
  then show ?case by (cases m) simp_all
next
  case (Suc n)
  obtain m' where m: "m = Suc m'" "n \<le> m'"
    using Suc.prems(3) by (cases m) auto
  have "coarsen m' (seconds * 2) (halve_windows ws) = coarsen n (seconds * 2) (halve_windows ws)"
    using Suc.prems(1,2) m(2) by (intro Suc.IH) (simp_all add: ac_simps)
  then show ?case by (simp add: m(1))
qed

definition window_sum :: "(dump_window \<Rightarrow> nat) \<Rightarrow> (int \<times> dump_window) list \<Rightarrow> nat" where
  "window_sum g ws = (\<Sum>kv\<leftarrow>ws. g (snd kv))"

text \<open>A measure of windows that merging adds up.\<close>

definition additive :: "(dump_window \<Rightarrow> nat) \<Rightarrow> bool" where
  "additive g \<longleftrightarrow> g window_default = 0 \<and> (\<forall>t s. g (merge_window t s) = g t + g s)"

lemma additive_fields: "additive dw_packets" "additive dw_bytes" "additive dw_resets"
  by (simp_all add: additive_def merge_window_def window_default_def)

lemma window_sum_simps [simp]:
  "window_sum g [] = 0" "window_sum g (kv # ws) = g (snd kv) + window_sum g ws"
  by (simp_all add: window_sum_def)

lemma window_sum_update:
  "bt_ok ws \<Longrightarrow> additive g \<Longrightarrow>
     window_sum g (bt_update key window_default (\<lambda>t. merge_window t w) ws) = window_sum g ws + g w"
  unfolding window_sum_def by (rule sum_bt_update) (simp_all add: additive_def)

lemma halve_windows_fold:
  "bt_ok acc \<Longrightarrow> additive g \<Longrightarrow>
     (let r = fold (\<lambda>(key, w) acc. bt_update (key div 2) window_default (\<lambda>t. merge_window t w) acc) ws acc in
      bt_ok r \<and> window_sum g r = window_sum g acc + window_sum g ws)"
  by (induction ws arbitrary: acc) (auto simp: Let_def window_sum_update)

lemma halve_windows_facts:
  assumes "additive g"
  shows "bt_ok (halve_windows ws)" "window_sum g (halve_windows ws) = window_sum g ws"
  using halve_windows_fold [OF _ assms, of "[]" ws]
  by (simp_all add: halve_windows_def Let_def)

lemma coarsen_facts:
  "coarsen n seconds ws = Inr (seconds', ws') \<Longrightarrow> bt_ok ws \<Longrightarrow> additive g \<Longrightarrow>
     bt_ok ws' \<and> window_sum g ws' = window_sum g ws \<and> length ws' \<le> max_windows \<and>
     (0 < seconds \<longrightarrow> 0 < seconds')"
proof (induction n arbitrary: seconds ws)
  case 0
  then show ?case by (auto split: if_splits)
next
  case (Suc n)
  show ?case
  proof (cases "length ws \<le> max_windows")
    case True
    with Suc.prems show ?thesis by auto
  next
    case False
    with Suc.prems(1) have "coarsen n (seconds * 2) (halve_windows ws) = Inr (seconds', ws')"
      by (auto split: if_splits)
    from Suc.IH [OF this] halve_windows_facts [OF Suc.prems(3)] Suc.prems(3) show ?thesis
      by auto
  qed
qed

declare coarsen.simps [simp del]

subsection \<open>Totals\<close>

abbreviation seen_summary :: "packet \<times> capture_interface \<Rightarrow> summary" where
  "seen_summary pi \<equiv> summarize (p_bytes (fst pi)) (if_link (snd pi))"

abbreviation tally :: "('a \<Rightarrow> bool) \<Rightarrow> 'a list \<Rightarrow> nat" where
  "tally P xs \<equiv> length (filter P xs)"

definition counts_inv :: "(packet \<times> capture_interface) list \<Rightarrow> dump_report \<Rightarrow> bool" where
  "counts_inv seen r \<longleftrightarrow>
     dr_packets r = length seen \<and>
     dr_captured r = (\<Sum>pi\<leftarrow>seen. p_captured (fst pi)) \<and>
     dr_tcp r = tally (\<lambda>pi. protocol (seen_summary pi) = ''TCP'') seen \<and>
     dr_resets r = tally (\<lambda>pi. is_reset (seen_summary pi)) seen \<and>
     bt_ok (dr_protocols r) \<and> (\<Sum>kv\<leftarrow>dr_protocols r. snd kv) = length seen \<and>
     bt_ok (dr_destinations r) \<and> length (dr_destinations r) \<le> max_destinations \<and>
     (\<Sum>kv\<leftarrow>dr_destinations r. dd_packets (snd kv)) + dr_overflow r
       = tally (\<lambda>pi. host (destination (seen_summary pi)) \<noteq> dash) seen"

definition times_inv :: "(packet \<times> capture_interface) list \<Rightarrow> analyzer \<Rightarrow> bool" where
  "times_inv seen a \<longleftrightarrow>
     dr_timed (an_report a) = tally (\<lambda>pi. p_timestamp (fst pi) \<noteq> None) seen \<and>
     dr_timed (an_report a) + dr_untimed (an_report a) = length seen \<and>
     0 < dr_window_seconds (an_report a) \<and>
     bt_ok (an_windows a) \<and> length (an_windows a) \<le> max_windows \<and>
     window_sum dw_packets (an_windows a) = dr_timed (an_report a) \<and>
     window_sum dw_bytes (an_windows a) = dr_timed_bytes (an_report a) \<and>
     window_sum dw_resets (an_windows a)
       = tally (\<lambda>pi. p_timestamp (fst pi) \<noteq> None \<and> is_reset (seen_summary pi)) seen"

definition report_fields :: "dump_report \<Rightarrow> _" where
  "report_fields r = (dr_packets r, dr_captured r, dr_tcp r, dr_resets r, dr_protocols r,
     dr_destinations r, dr_overflow r)"

lemma counts_inv_cong:
  "report_fields r = report_fields r' \<Longrightarrow> counts_inv seen r = counts_inv seen r'"
  by (simp add: counts_inv_def report_fields_def)

lemma bt_update_counts:
  "bt_ok m \<Longrightarrow> (\<Sum>kv\<leftarrow>bt_update k 0 (\<lambda>n. n + 1) m. snd kv) = (\<Sum>kv\<leftarrow>m. snd kv) + (1::nat)"
  by (rule sum_bt_update [where g = "\<lambda>n. n"]) simp_all

lemma count_destination_facts:
  assumes "bt_ok (dr_destinations r)" "length (dr_destinations r) \<le> max_destinations"
  shows "bt_ok (dr_destinations (count_destination p s r))"
    "length (dr_destinations (count_destination p s r)) \<le> max_destinations"
    "(\<Sum>kv\<leftarrow>dr_destinations (count_destination p s r). dd_packets (snd kv))
        + dr_overflow (count_destination p s r)
      = (\<Sum>kv\<leftarrow>dr_destinations r. dd_packets (snd kv)) + dr_overflow r
        + (if host (destination s) \<noteq> dash then 1 else 0)"
proof -
  let ?b = "bt_update (host (destination s)) \<lparr>dd_packets = 0, dd_first = p_number p, dd_offset = p_file_offset p\<rparr>
        (\<lambda>x. x\<lparr>dd_packets := dd_packets x + 1\<rparr>) (dr_destinations r)"
  have "(\<Sum>kv\<leftarrow>?b. dd_packets (snd kv)) = (\<Sum>kv\<leftarrow>dr_destinations r. dd_packets (snd kv)) + 1"
    using assms(1) by (intro sum_bt_update) auto
  moreover have "bt_ok ?b" using assms(1) by simp
  ultimately show "bt_ok (dr_destinations (count_destination p s r))"
    "length (dr_destinations (count_destination p s r)) \<le> max_destinations"
    "(\<Sum>kv\<leftarrow>dr_destinations (count_destination p s r). dd_packets (snd kv))
        + dr_overflow (count_destination p s r)
      = (\<Sum>kv\<leftarrow>dr_destinations r. dd_packets (snd kv)) + dr_overflow r
        + (if host (destination s) \<noteq> dash then 1 else 0)"
    using assms by (auto simp: count_destination_def Let_def length_bt_update)
qed

lemma count_destination_fields [simp]:
  "dr_packets (count_destination p s r) = dr_packets r"
  "dr_captured (count_destination p s r) = dr_captured r"
  "dr_tcp (count_destination p s r) = dr_tcp r"
  "dr_resets (count_destination p s r) = dr_resets r"
  "dr_protocols (count_destination p s r) = dr_protocols r"
  by (simp_all add: count_destination_def Let_def)

lemma count_packet_inv:
  assumes "counts_inv seen r"
  shows "counts_inv (seen @ [(p, i)]) (count_packet p (seen_summary (p, i)) r)"
proof -
  define s where "s = seen_summary (p, i)"
  define r1 where "r1 = r\<lparr>dr_packets := dr_packets r + 1, dr_captured := dr_captured r + p_captured p,
          dr_tcp := dr_tcp r + (if protocol s = ''TCP'' then 1 else 0),
          dr_resets := dr_resets r + (if is_reset s then 1 else 0),
          dr_protocols := bt_update (protocol s) 0 (\<lambda>n. n + 1) (dr_protocols r)\<rparr>"
  have d1: "dr_destinations r1 = dr_destinations r" "dr_overflow r1 = dr_overflow r"
    by (simp_all add: r1_def)
  have ok: "bt_ok (dr_destinations r)" "length (dr_destinations r) \<le> max_destinations"
    "bt_ok (dr_protocols r)"
    using assms by (simp_all add: counts_inv_def)
  have r: "dr_packets r1 = length seen + 1" "dr_captured r1 = dr_captured r + p_captured p"
    "dr_tcp r1 = dr_tcp r + (if protocol s = ''TCP'' then 1 else 0)"
    "dr_resets r1 = dr_resets r + (if is_reset s then 1 else 0)"
    "bt_ok (dr_protocols r1)" "(\<Sum>kv\<leftarrow>dr_protocols r1. snd kv) = length seen + 1"
    using assms bt_update_counts [OF ok(3), of "protocol s"]
    by (simp_all add: counts_inv_def r1_def)
  note d = count_destination_facts [of r1 p s, unfolded d1, OF ok(1,2)]
  have "count_packet p s r = count_destination p s r1"
    by (simp add: count_packet_def r1_def)
  then show ?thesis
    using assms r d unfolding counts_inv_def s_def by simp
qed

lemma count_packet_times:
  "dr_timed (count_packet p s r) = dr_timed r" "dr_timed_bytes (count_packet p s r) = dr_timed_bytes r"
  "dr_untimed (count_packet p s r) = dr_untimed r"
  "dr_window_seconds (count_packet p s r) = dr_window_seconds r"
  by (simp_all add: count_packet_def count_destination_def Let_def)

lemma keep_sample_report [simp]:
  "an_report (keep_sample p s a) = an_report a" "an_windows (keep_sample p s a) = an_windows a"
  by (simp_all add: keep_sample_def Let_def split: prod.splits)

lemma count_time_facts:
  assumes "count_time p s a = Inr a'"
  shows "report_fields (an_report a') = report_fields (an_report a)"
    "an_ranks a' = an_ranks a" "an_samples a' = an_samples a" "an_first a' = an_first a"
    "an_last a' = an_last a"
  using assms
  by (auto simp: count_time_def Let_def result_simps report_fields_def split: option.splits)

lemma analyze_cases:
  assumes "analyze_packet p i a = Inr a'"
  obtains a1 where "count_time p (seen_summary (p, i))
      (a\<lparr>an_report := count_packet p (seen_summary (p, i)) (an_report a)\<rparr>) = Inr a1"
    and "an_report a' = an_report a1" "an_windows a' = an_windows a1"
  using assms by (auto simp: analyze_packet_def Let_def result_simps)

lemma analyze_counts:
  assumes "analyze_packet p i a = Inr a'" "counts_inv seen (an_report a)"
  shows "counts_inv (seen @ [(p, i)]) (an_report a')"
proof -
  obtain a1 where a1: "count_time p (seen_summary (p, i))
      (a\<lparr>an_report := count_packet p (seen_summary (p, i)) (an_report a)\<rparr>) = Inr a1"
    "an_report a' = an_report a1"
    using assms(1) by (rule analyze_cases)
  from count_time_facts(1) [OF a1(1)]
  have "counts_inv (seen @ [(p, i)]) (an_report a1)
      = counts_inv (seen @ [(p, i)]) (count_packet p (seen_summary (p, i)) (an_report a))"
    by (intro counts_inv_cong) simp
  with count_packet_inv [OF assms(2)] a1(2) show ?thesis by simp
qed

lemma count_time_None:
  "p_timestamp p = None \<Longrightarrow> count_time p s b = Inr a' \<Longrightarrow>
     a' = b\<lparr>an_report := (an_report b)\<lparr>dr_untimed := dr_untimed (an_report b) + 1\<rparr>\<rparr>"
  by (simp add: count_time_def Let_def)

lemma count_time_Some:
  assumes "p_timestamp p = Some t" "count_time p s b = Inr a'"
  obtains key where "coarsen 64 (dr_window_seconds (an_report b))
      (bt_update key window_default (\<lambda>w. merge_window w (packet_window p s)) (an_windows b))
        = Inr (dr_window_seconds (an_report a'), an_windows a')"
    and "dr_timed (an_report a') = dr_timed (an_report b) + 1"
    and "dr_untimed (an_report a') = dr_untimed (an_report b)"
    and "dr_timed_bytes (an_report a') = dr_timed_bytes (an_report b) + p_captured p"
proof -
  define key where "key = unix_nanos t div (int (dr_window_seconds (an_report b)) * 1000000000)"
  define ws where "ws = bt_update key window_default (\<lambda>w. merge_window w (packet_window p s)) (an_windows b)"
  obtain seconds ws' where c: "coarsen 64 (dr_window_seconds (an_report b)) ws = Inr (seconds, ws')"
    using assms
    by (auto simp: count_time_def Let_def result_simps key_def [symmetric] ws_def [symmetric]
       )
  show ?thesis
  proof (rule that [of key])
    have "an_windows a' = ws' \<and> dr_window_seconds (an_report a') = seconds"
      using assms c by (auto simp: count_time_def Let_def key_def [symmetric] ws_def [symmetric])
    then show "coarsen 64 (dr_window_seconds (an_report b))
        (bt_update key window_default (\<lambda>w. merge_window w (packet_window p s)) (an_windows b))
          = Inr (dr_window_seconds (an_report a'), an_windows a')"
      using c by (simp add: ws_def)
  qed (use assms c in \<open>auto simp: count_time_def Let_def key_def [symmetric] ws_def [symmetric]\<close>)
qed

lemma analyze_times:
  assumes "analyze_packet p i a = Inr a'" "times_inv seen a"
  shows "times_inv (seen @ [(p, i)]) a'"
proof -
  let ?s = "seen_summary (p, i)"
  let ?b = "a\<lparr>an_report := count_packet p ?s (an_report a)\<rparr>"
  obtain a1 where a1: "count_time p ?s ?b = Inr a1" "an_report a' = an_report a1" "an_windows a' = an_windows a1"
    using assms(1) by (rule analyze_cases)
  show ?thesis
  proof (cases "p_timestamp p")
    case None
    from count_time_None [OF None a1(1)] None a1(2,3) assms(2) show ?thesis
      unfolding times_inv_def by (simp add: count_packet_times)
  next
    case (Some t)
    obtain key where c: "coarsen 64 (dr_window_seconds (an_report ?b))
        (bt_update key window_default (\<lambda>w. merge_window w (packet_window p ?s)) (an_windows ?b))
          = Inr (dr_window_seconds (an_report a1), an_windows a1)"
      and r: "dr_timed (an_report a1) = dr_timed (an_report ?b) + 1"
        "dr_untimed (an_report a1) = dr_untimed (an_report ?b)"
        "dr_timed_bytes (an_report a1) = dr_timed_bytes (an_report ?b) + p_captured p"
      using count_time_Some [OF Some a1(1)] .
    have b: "an_windows ?b = an_windows a" "dr_window_seconds (an_report ?b) = dr_window_seconds (an_report a)"
      by (simp_all add: count_packet_times)
    note c = c [unfolded b]
    have ok: "bt_ok (an_windows a)" using assms(2) by (simp add: times_inv_def)
    have sum: "bt_ok (an_windows a1)
        \<and> window_sum g (an_windows a1) = window_sum g (an_windows a) + g (packet_window p ?s) \<and>
        length (an_windows a1) \<le> max_windows \<and>
        (0 < dr_window_seconds (an_report a) \<longrightarrow> 0 < dr_window_seconds (an_report a1))"
      if "additive g" for g
      using coarsen_facts [OF c bt_ok_update [OF ok] that] window_sum_update [OF ok that] by simp
    define rs where "rs = is_reset ?s"
    from sum [OF additive_fields(1)] sum [OF additive_fields(2)] sum [OF additive_fields(3)]
      assms(2) r a1(2,3) Some show ?thesis
      unfolding times_inv_def packet_window_def by (simp add: count_packet_times)
  qed
qed

lemma analyzer_env_simps [simp]:
  "env_packet (analyzer_env cancel chunk) = analyze_packet"
  "env_progress (analyzer_env cancel chunk) n a = a\<lparr>an_progress := (an_progress a)\<lparr>pg_bytes := n\<rparr>\<rparr>"
  by (simp_all add: analyzer_env_def)

lemma take_insort_less:
  "sorted xs \<Longrightarrow> n < length xs \<Longrightarrow> x < xs ! n \<Longrightarrow>
     take (Suc n) (insort x xs) = insort x (take n xs)"
proof (induction xs arbitrary: n)
  case Nil
  then show ?case by simp
next
  case (Cons y ys)
  then show ?case by (cases n) (auto)
qed

lemma take_insort_greater:
  "sorted xs \<Longrightarrow> n < length xs \<Longrightarrow> xs ! n < x \<Longrightarrow> take (Suc n) (insort x xs) = take (Suc n) xs"
proof (induction xs arbitrary: n)
  case Nil
  then show ?case by simp
next
  case (Cons y ys)
  have "y \<le> (y # ys) ! n" using Cons.prems(1,2) by (cases n) auto
  then have "y < x" using Cons.prems(3) by (rule le_less_trans)
  with Cons show ?case by (cases n) auto
qed

lemma take_insort:
  assumes "sorted xs" "x \<notin> set xs" "0 < m"
  shows "take m (insort x xs) =
    (if length (take m xs) < m then insort x (take m xs)
     else if x < last (take m xs) then insort x (butlast (take m xs)) else take m xs)"
proof -
  obtain n where m: "m = Suc n" using assms(3) by (cases m) auto
  show ?thesis
  proof (cases "n < length xs")
    case False
    then show ?thesis by (simp add: m)
  next
    case True
    then have l: "last (take m xs) = xs ! n" "butlast (take m xs) = take n xs" "length (take m xs) = m"
      by (simp_all add: m take_Suc_conv_app_nth butlast_take)
    have "xs ! n \<noteq> x" using assms(2) True by auto
    then show ?thesis
      using take_insort_less [OF assms(1) True] take_insort_greater [OF assms(1) True]
      unfolding l by (auto simp: m not_less)
  qed
qed

lemma sort_snoc: "sort (xs @ [x]) = insort x (sort (xs :: 'a::linorder list))"
  by (induction xs) (simp_all add: insort_left_comm)

definition priority :: "nat \<Rightarrow> u64 \<times> nat" where
  "priority n = (rank (of_nat n), n)"

definition reservoir :: "nat \<Rightarrow> (u64 \<times> nat) list" where
  "reservoir k = take (max_samples - 2) (sort (map priority [1..<Suc k]))"

lemma snd_priority [simp]: "snd (priority n) = n"
  by (simp add: priority_def)

lemma reservoir_Suc:
  "reservoir (Suc k) =
    (if length (reservoir k) < max_samples - 2 then insort (priority (Suc k)) (reservoir k)
     else if priority (Suc k) < last (reservoir k) then insort (priority (Suc k)) (butlast (reservoir k))
     else reservoir k)"
proof -
  have n: "priority (Suc k) \<notin> set (sort (map priority [1..<Suc k]))"
    by (auto simp: priority_def)
  have u: "[1..<Suc (Suc k)] = [1..<Suc k] @ [Suc k]" by simp
  have "0 < max_samples - 2" by (simp add: max_samples_def)
  from take_insort [OF sorted_sort n this] show ?thesis
    unfolding reservoir_def u map_append list.map sort_snoc .
qed

lemma length_reservoir: "length (reservoir k) = min k (max_samples - 2)"
  by (simp add: reservoir_def)

lemma in_reservoir: "x \<in> set (reservoir k) \<Longrightarrow> x = priority (snd x) \<and> 0 < snd x \<and> snd x \<le> k"
  by (auto simp: reservoir_def dest!: in_set_takeD simp del: upt_Suc)

lemma inj_snd_reservoir: "inj_on snd (set (reservoir k))"
  using in_reservoir by (intro inj_onI) metis

lemma distinct_reservoir: "distinct (reservoir k)"
  unfolding reservoir_def by (intro distinct_take) (simp add: distinct_map inj_on_def priority_def del: upt_Suc)

lemma card_reservoir: "card (snd ` set (reservoir k)) = length (reservoir k)"
  using inj_snd_reservoir distinct_reservoir by (simp add: card_image distinct_card)

subsection \<open>The tables\<close>

abbreviation target :: "packet \<times> capture_interface \<Rightarrow> string" where
  "target pi \<equiv> host (destination (seen_summary pi))"

definition protocols_inv :: "(packet \<times> capture_interface) list \<Rightarrow> dump_report \<Rightarrow> bool" where
  "protocols_inv seen r \<longleftrightarrow>
     (\<forall>k. map_of (dr_protocols r) k =
       (if k \<in> set (map (protocol \<circ> seen_summary) seen)
        then Some (tally (\<lambda>pi. protocol (seen_summary pi) = k) seen) else None))"

definition destination_ok :: "(packet \<times> capture_interface) list \<Rightarrow> string \<Rightarrow> dump_destination \<Rightarrow> bool" where
  "destination_ok seen d x \<longleftrightarrow>
     (let ps = filter (\<lambda>pi. target pi = d) seen in
      d \<noteq> dash \<and> ps \<noteq> [] \<and> dd_packets x = length ps \<and> dd_first x = p_number (fst (hd ps)) \<and>
      dd_offset x = p_file_offset (fst (hd ps)))"

definition destinations_inv :: "(packet \<times> capture_interface) list \<Rightarrow> dump_report \<Rightarrow> bool" where
  "destinations_inv seen r \<longleftrightarrow>
     bt_ok (dr_destinations r) \<and> length (dr_destinations r) \<le> max_destinations \<and>
     (\<forall>d x. map_of (dr_destinations r) d = Some x \<longrightarrow> destination_ok seen d x) \<and>
     (length (dr_destinations r) < max_destinations \<longrightarrow>
        (\<forall>pi \<in> set seen. target pi \<noteq> dash \<longrightarrow> map_of (dr_destinations r) (target pi) \<noteq> None)) \<and>
     dr_overflow r = tally (\<lambda>pi. target pi \<noteq> dash \<and> map_of (dr_destinations r) (target pi) = None) seen"

lemma protocols_step:
  assumes "protocols_inv seen r" "s = seen_summary (p, i)"
  shows "protocols_inv (seen @ [(p, i)]) (count_packet p s r)"
proof -
  have "dr_protocols (count_packet p s r) = bt_update (protocol s) 0 (\<lambda>n. n + 1) (dr_protocols r)"
    by (simp add: count_packet_def)
  moreover have "tally (\<lambda>pi. protocol (seen_summary pi) = protocol s) seen = 0"
    if "protocol s \<notin> set (map (protocol \<circ> seen_summary) seen)"
    using that by (fastforce simp: filter_empty_conv image_iff)
  ultimately show ?thesis
    using assms unfolding protocols_inv_def by (auto simp: bt_update_def)
qed

lemma destination_ok_snoc:
  assumes "destination_ok seen d x" "target pi \<noteq> d"
  shows "destination_ok (seen @ [pi]) d x"
  using assms by (simp add: destination_ok_def Let_def)

lemma destination_ok_again:
  assumes "destination_ok seen d x" "target pi = d"
  shows "destination_ok (seen @ [pi]) d (x\<lparr>dd_packets := dd_packets x + 1\<rparr>)"
  using assms by (simp add: destination_ok_def Let_def hd_append)

lemma destinations_present:
  assumes inv: "destinations_inv seen r" and x: "map_of (dr_destinations r) (target pi) = Some x"
    and eq: "dr_destinations r' = bt_put (target pi) (x\<lparr>dd_packets := dd_packets x + 1\<rparr>) (dr_destinations r)"
      "dr_overflow r' = dr_overflow r"
  shows "destinations_inv (seen @ [pi]) r'"
proof -
  have ok: "destination_ok seen (target pi) x"
    using inv x by (simp add: destinations_inv_def)
  have len: "length (dr_destinations r') = length (dr_destinations r)"
    using inv x by (simp add: eq length_bt_put destinations_inv_def)
  have dom: "map_of (dr_destinations r') d = None \<longleftrightarrow> map_of (dr_destinations r) d = None" for d
    using x by (simp add: eq)
  have oks: "destination_ok (seen @ [pi]) d y" if "map_of (dr_destinations r') d = Some y" for d y
  proof (cases "d = target pi")
    case True
    with that have "y = x\<lparr>dd_packets := dd_packets x + 1\<rparr>" by (simp add: eq)
    with destination_ok_again [OF ok refl] True show ?thesis by simp
  next
    case False
    with that have "map_of (dr_destinations r) d = Some y" by (simp add: eq)
    with inv have "destination_ok seen d y" by (simp add: destinations_inv_def)
    from destination_ok_snoc [OF this] False show ?thesis by metis
  qed
  show ?thesis
    unfolding destinations_inv_def len dom
  proof (intro conjI allI impI oks)
    show "bt_ok (dr_destinations r')" using inv by (simp add: eq destinations_inv_def)
  qed (use inv x eq(2) in \<open>auto simp: destinations_inv_def\<close>)
qed

lemma destinations_new:
  assumes inv: "destinations_inv seen r" and x: "map_of (dr_destinations r) (target pi) = None"
    and room: "length (dr_destinations r) < max_destinations" and d: "target pi \<noteq> dash"
    and eq: "dr_destinations r' = bt_put (target pi)
        \<lparr>dd_packets = 1, dd_first = p_number (fst pi), dd_offset = p_file_offset (fst pi)\<rparr> (dr_destinations r)"
      "dr_overflow r' = dr_overflow r"
  shows "destinations_inv (seen @ [pi]) r'"
proof -
  have all: "\<forall>pj \<in> set seen. target pj \<noteq> dash \<longrightarrow> map_of (dr_destinations r) (target pj) \<noteq> None"
    using inv room by (simp add: destinations_inv_def)
  then have none: "filter (\<lambda>pj. target pj = target pi) seen = []"
    using x d by (metis (mono_tags, lifting) filter_empty_conv)
  have over: "dr_overflow r = 0"
    using inv all by (auto simp: destinations_inv_def filter_empty_conv)
  have len: "length (dr_destinations r') = Suc (length (dr_destinations r))"
    using inv x by (simp add: eq length_bt_put destinations_inv_def)
  have oks: "destination_ok (seen @ [pi]) e y" if "map_of (dr_destinations r') e = Some y" for e y
  proof (cases "e = target pi")
    case True
    with that none d show ?thesis by (auto simp: eq destination_ok_def Let_def)
  next
    case False
    with that have "map_of (dr_destinations r) e = Some y" by (simp add: eq)
    with inv have "destination_ok seen e y" by (simp add: destinations_inv_def)
    from destination_ok_snoc [OF this] False show ?thesis by metis
  qed
  have known: "map_of (dr_destinations r') (target pj) \<noteq> None"
    if "pj \<in> set (seen @ [pi])" "target pj \<noteq> dash" for pj
    using that all by (auto simp: eq)
  show ?thesis
    unfolding destinations_inv_def
  proof (intro conjI allI impI ballI oks)
    show "bt_ok (dr_destinations r')" using inv by (simp add: eq destinations_inv_def)
    show "length (dr_destinations r') \<le> max_destinations" using room len by simp
    show "dr_overflow r' = tally (\<lambda>pi. target pi \<noteq> dash \<and> map_of (dr_destinations r') (target pi) = None) (seen @ [pi])"
      using known over eq(2) by (metis (mono_tags, lifting) filter_False list.size(3))
  qed (use known in blast)+
qed

lemma destinations_same:
  assumes inv: "destinations_inv seen r" and eq: "dr_destinations r' = dr_destinations r"
    and no: "map_of (dr_destinations r) (target pi) = None"
    and over: "dr_overflow r' = dr_overflow r + (if target pi \<noteq> dash then 1 else 0)"
    and room: "target pi = dash \<or> max_destinations \<le> length (dr_destinations r)"
  shows "destinations_inv (seen @ [pi]) r'"
proof -
  have oks: "destination_ok (seen @ [pi]) e y" if "map_of (dr_destinations r) e = Some y" for e y
  proof -
    from inv that have "destination_ok seen e y" by (simp add: destinations_inv_def)
    moreover have "target pi \<noteq> e" using that no by auto
    ultimately show ?thesis by (rule destination_ok_snoc)
  qed
  show ?thesis
    unfolding destinations_inv_def eq
    by (intro conjI allI impI oks) (use inv over no room in \<open>auto simp: destinations_inv_def\<close>)
qed

lemma destinations_step:
  assumes inv: "destinations_inv seen r" and s: "s = seen_summary (p, i)"
  shows "destinations_inv (seen @ [(p, i)]) (count_destination p s r)"
proof -
  have t: "target (p, i) = host (destination s)" using s by simp
  have dash: "map_of (dr_destinations r) dash = None"
    using inv by (cases "map_of (dr_destinations r) dash") (auto simp: destinations_inv_def destination_ok_def Let_def)
  let ?d = "host (destination s)"
  consider "?d = dash" | x where "?d \<noteq> dash" "map_of (dr_destinations r) ?d = Some x"
    | "?d \<noteq> dash" "map_of (dr_destinations r) ?d = None" "length (dr_destinations r) < max_destinations"
    | "?d \<noteq> dash" "map_of (dr_destinations r) ?d = None" "max_destinations \<le> length (dr_destinations r)"
    by (cases "map_of (dr_destinations r) ?d"; cases "length (dr_destinations r) < max_destinations")
      (auto simp: not_less)
  then show ?thesis
  proof cases
    case 1
    show ?thesis
      by (rule destinations_same [OF inv]) (use 1 dash in \<open>simp_all only: t, simp_all add: count_destination_def\<close>)
  next
    case 2
    show ?thesis
      by (rule destinations_present [OF inv, of "(p, i)" x])
        (use 2 in \<open>simp_all only: t, simp_all add: count_destination_def bt_update_def Let_def\<close>)
  next
    case 3
    show ?thesis
      by (rule destinations_new [OF inv, of "(p, i)"])
        (use 3 in \<open>simp_all only: t, simp_all add: count_destination_def bt_update_def Let_def\<close>)
  next
    case 4
    show ?thesis
      by (rule destinations_same [OF inv])
        (use 4 in \<open>simp_all only: t, simp_all add: count_destination_def Let_def\<close>)
  qed
qed

subsection \<open>Samples\<close>

definition shown :: "packet \<times> capture_interface \<Rightarrow> dump_sample" where
  "shown pi = sample_of (fst pi) (seen_summary pi)"

definition samples_inv :: "(packet \<times> capture_interface) list \<Rightarrow> analyzer \<Rightarrow> bool" where
  "samples_inv seen a \<longleftrightarrow>
     an_ranks a = reservoir (length seen) \<and> bt_ok (an_samples a) \<and>
     map_of (an_samples a) = (\<lambda>n. if n \<in> snd ` set (reservoir (length seen)) then Some (shown (seen ! (n - 1))) else None) \<and>
     an_first a = (if seen = [] then None else Some (shown (hd seen))) \<and>
     an_last a = (if seen = [] then None else Some (shown (last seen)))"

lemma keep_sample_cases:
  assumes "an_ranks a = reservoir k" "length (an_samples a) = length (reservoir k)"
    and "p_number p = Suc k"
  obtains "length (reservoir k) < max_samples - 2" "reservoir (Suc k) = insort (priority (Suc k)) (reservoir k)"
      "keep_sample p s a = a\<lparr>an_ranks := reservoir (Suc k), an_samples := bt_put (Suc k) (sample_of p s) (an_samples a)\<rparr>"
    | m where "reservoir k \<noteq> []" "m = last (reservoir k)"
      "reservoir (Suc k) = insort (priority (Suc k)) (butlast (reservoir k))"
      "keep_sample p s a = a\<lparr>an_ranks := reservoir (Suc k),
         an_samples := bt_put (Suc k) (sample_of p s) (bt_remove (snd m) (an_samples a))\<rparr>"
    | "reservoir (Suc k) = reservoir k" "keep_sample p s a = a"
proof (cases "length (reservoir k) < max_samples - 2")
  case True
  with assms show ?thesis
    by (intro that(1)) (simp_all add: keep_sample_def reservoir_Suc priority_def)
next
  case False
  then have ne: "reservoir k \<noteq> []" by (auto simp: max_samples_def)
  show ?thesis
  proof (cases "priority (Suc k) < last (reservoir k)")
    case True
    with False ne assms show ?thesis
      by (intro that(2) [of "last (reservoir k)"])
        (simp_all add: keep_sample_def reservoir_Suc priority_def)
  next
    case less: False
    with False ne assms show ?thesis
      by (intro that(3)) (simp_all add: keep_sample_def reservoir_Suc priority_def)
  qed
qed

lemma keep_sample_samples:
  assumes "an_ranks a = reservoir (length seen)" "bt_ok (an_samples a)"
    and "map_of (an_samples a) =
      (\<lambda>n. if n \<in> snd ` set (reservoir (length seen)) then Some (shown (seen ! (n - 1))) else None)"
    and "p_number p = Suc (length seen)"
  shows "an_ranks (keep_sample p (seen_summary (p, i)) a) = reservoir (Suc (length seen)) \<and>
    bt_ok (an_samples (keep_sample p (seen_summary (p, i)) a)) \<and>
    map_of (an_samples (keep_sample p (seen_summary (p, i)) a)) =
      (\<lambda>n. if n \<in> snd ` set (reservoir (Suc (length seen))) then Some (shown ((seen @ [(p, i)]) ! (n - 1))) else None)"
proof -
  let ?k = "length seen"
  have "dom (map_of (an_samples a)) = snd ` set (reservoir ?k)"
    unfolding assms(3) by (auto simp: dom_def split: if_splits)
  then have len: "length (an_samples a) = length (reservoir ?k)"
    using bt_length_card [OF assms(2)] by (simp add: card_reservoir)
  have new: "sample_of p (seen_summary (p, i)) = shown ((seen @ [(p, i)]) ! (Suc ?k - 1))"
    by (simp add: shown_def)
  have old: "shown ((seen @ [(p, i)]) ! (n - 1)) = shown (seen ! (n - 1))"
    if "n \<in> snd ` set (reservoir ?k)" for n
    using that in_reservoir by (fastforce simp: nth_append)
  have fresh: "Suc ?k \<notin> snd ` set (reservoir ?k)"
    using in_reservoir by fastforce
  show ?thesis
  proof (cases rule: keep_sample_cases [OF assms(1) len assms(4), of "seen_summary (p, i)"])
    case 1
    then have "snd ` set (reservoir (Suc ?k)) = insert (Suc ?k) (snd ` set (reservoir ?k))"
      by (simp add: set_insort_key)
    with 1 assms(2,3) show ?thesis
      using new old fresh by (auto simp: fun_eq_iff)
  next
    case (2 m)
    have b: "reservoir ?k = butlast (reservoir ?k) @ [m]"
      using 2(1,2) by simp
    have "m \<notin> set (butlast (reservoir ?k))"
      using distinct_reservoir [of ?k] by (subst (asm) b) simp
    then have "snd ` set (butlast (reservoir ?k)) = snd ` set (reservoir ?k) - {snd m}"
      using inj_snd_reservoir [of ?k] by (subst (2) b, subst (asm) b) (auto simp: inj_on_def)
    moreover have "snd ` set (reservoir (Suc ?k)) = insert (Suc ?k) (snd ` set (butlast (reservoir ?k)))"
      using 2(3) by (simp add: set_insort_key)
    ultimately have s: "snd ` set (reservoir (Suc ?k)) = insert (Suc ?k) (snd ` set (reservoir ?k) - {snd m})"
      by simp
    show ?thesis
      using 2(4) assms(2,3) new old fresh unfolding s by (auto simp: fun_eq_iff map_of_bt_remove)
  next
    case 3
    with assms(1,2,3) old show ?thesis by (auto simp: fun_eq_iff)
  qed
qed

lemma analyze_samples:
  assumes "analyze_packet p i a = Inr a'" "samples_inv seen a" "p_number p = Suc (length seen)"
  shows "samples_inv (seen @ [(p, i)]) a'"
proof -
  define s where "s = summarize (p_bytes p) (if_link i)"
  let ?b = "a\<lparr>an_report := count_packet p s (an_report a)\<rparr>"
  obtain a1 where a1: "count_time p s ?b = Inr a1"
    using assms(1) by (auto simp: analyze_packet_def Let_def result_simps s_def)
  define a2 where "a2 = a1\<lparr>an_first := (case an_first a1 of None \<Rightarrow> Some (sample_of p s) | Some f \<Rightarrow> Some f),
                  an_last := Some (sample_of p s)\<rparr>"
  define a3 where "a3 = keep_sample p s a2"
  have a': "a' = a3\<lparr>an_progress := (an_progress a3)\<lparr>pg_packets := dr_packets (an_report a3),
                                             pg_resets := dr_resets (an_report a3)\<rparr>\<rparr>"
    using assms(1) a1 unfolding analyze_packet_def s_def [symmetric] by (simp add: Let_def a2_def a3_def)
  note k = count_time_facts(2-5) [OF a1]
  have fl: "an_first a3 = an_first a2" "an_last a3 = an_last a2"
    by (simp_all add: a3_def keep_sample_def Let_def split: prod.splits)
  have "an_first a1 = (if seen = [] then None else Some (shown (hd seen)))"
    using assms(2) k by (simp add: samples_inv_def)
  then have f: "an_first a2 = Some (shown (hd (seen @ [(p, i)])))" "an_last a2 = Some (shown (p, i))"
    by (auto simp: a2_def shown_def hd_append s_def)
  have "an_ranks a3 = reservoir (Suc (length seen)) \<and> bt_ok (an_samples a3) \<and>
    map_of (an_samples a3) =
      (\<lambda>n. if n \<in> snd ` set (reservoir (Suc (length seen))) then Some (shown ((seen @ [(p, i)]) ! (n - 1))) else None)"
    unfolding a3_def s_def fst_conv snd_conv
    by (rule keep_sample_samples [unfolded fst_conv snd_conv]) (use assms(2,3) k in \<open>simp_all add: a2_def samples_inv_def\<close>)
  with f fl show ?thesis
    by (simp add: samples_inv_def a')
qed

lemma final_samples_facts:
  assumes "samples_inv seen a" "bt_ok (an_samples a)"
  shows "bt_ok (final_samples a) \<and> dom (map_of (final_samples a)) =
      snd ` set (reservoir (length seen)) \<union>
      (if seen = [] then {} else {p_number (fst (hd seen)), p_number (fst (last seen))})"
proof -
  have d: "dom (map_of (an_samples a)) = snd ` set (reservoir (length seen))"
    using assms(1) unfolding samples_inv_def by (auto simp: dom_def split: if_splits)
  have fl: "an_first a = (if seen = [] then None else Some (shown (hd seen)))"
      "an_last a = (if seen = [] then None else Some (shown (last seen)))"
    using assms(1) by (simp_all add: samples_inv_def)
  show ?thesis
  proof (cases "seen = []")
    case True
    with fl d assms(2) show ?thesis by (simp add: final_samples_def)
  next
    case False
    have "final_samples a = bt_put (p_number (fst (last seen))) (shown (last seen))
        (bt_put (p_number (fst (hd seen))) (shown (hd seen)) (an_samples a))"
      using fl False by (simp add: final_samples_def) (simp add: shown_def sample_of_def)
    with d False assms(2) show ?thesis by auto
  qed
qed

subsection \<open>Whole runs\<close>

definition dump_inv :: "(packet \<times> capture_interface) list \<Rightarrow> analyzer \<Rightarrow> bool" where
  "dump_inv seen a \<longleftrightarrow>
     map (p_number \<circ> fst) seen = [1..<Suc (length seen)] \<and>
     counts_inv seen (an_report a) \<and> protocols_inv seen (an_report a) \<and>
     destinations_inv seen (an_report a) \<and> times_inv seen a \<and> samples_inv seen a"

lemma dump_inv_initial: "dump_inv [] analyzer_initial"
  by (simp add: dump_inv_def analyzer_initial_def counts_inv_def times_inv_def protocols_inv_def
      destinations_inv_def samples_inv_def reservoir_def)

lemma dump_inv_progress: "dump_inv seen a \<Longrightarrow> dump_inv seen (a\<lparr>an_progress := x\<rparr>)"
  by (simp add: dump_inv_def times_inv_def samples_inv_def)

lemma protocols_inv_cong:
  "report_fields r = report_fields r' \<Longrightarrow> protocols_inv seen r = protocols_inv seen r'"
  by (simp add: protocols_inv_def report_fields_def)

lemma destinations_inv_cong:
  "report_fields r = report_fields r' \<Longrightarrow> destinations_inv seen r = destinations_inv seen r'"
  by (simp add: destinations_inv_def report_fields_def)

lemma count_packet_destinations:
  assumes "destinations_inv seen r"
  shows "destinations_inv (seen @ [(p, i)]) (count_packet p (seen_summary (p, i)) r)"
proof -
  define r1 where "r1 = r\<lparr>dr_packets := dr_packets r + 1, dr_captured := dr_captured r + p_captured p,
          dr_tcp := dr_tcp r + (if protocol (seen_summary (p, i)) = ''TCP'' then 1 else 0),
          dr_resets := dr_resets r + (if is_reset (seen_summary (p, i)) then 1 else 0),
          dr_protocols := bt_update (protocol (seen_summary (p, i))) 0 (\<lambda>n. n + 1) (dr_protocols r)\<rparr>"
  have "destinations_inv seen r1"
    using assms by (simp add: destinations_inv_def r1_def)
  from destinations_step [OF this refl] show ?thesis
    by (simp only: count_packet_def r1_def)
qed

lemma analyze_tables:
  assumes "analyze_packet p i a = Inr a'"
    and "protocols_inv seen (an_report a)" "destinations_inv seen (an_report a)"
  shows "protocols_inv (seen @ [(p, i)]) (an_report a') \<and> destinations_inv (seen @ [(p, i)]) (an_report a')"
proof -
  obtain a1 where a1: "count_time p (seen_summary (p, i))
      (a\<lparr>an_report := count_packet p (seen_summary (p, i)) (an_report a)\<rparr>) = Inr a1"
    "an_report a' = an_report a1"
    using assms(1) by (rule analyze_cases)
  have "report_fields (an_report a1) = report_fields (count_packet p (seen_summary (p, i)) (an_report a))"
    using count_time_facts(1) [OF a1(1)] by simp
  from protocols_inv_cong [OF this] destinations_inv_cong [OF this] show ?thesis
    using protocols_step [OF assms(2) refl] count_packet_destinations [OF assms(3)] a1(2) by simp
qed

lemma fed_dump:
  "fed (analyzer_env cancel chunk) analyzer_initial seen a \<Longrightarrow> dump_inv seen a"
proof (induction rule: fed.induct)
  case start
  then show ?case by (rule dump_inv_initial)
next
  case (progress seen s n)
  then show ?case by (simp add: dump_inv_progress)
next
  case (packet seen s p i s')
  then have st: "analyze_packet p i s = Inr s'" and inv: "dump_inv seen s" by simp_all
  from inv show ?case
    unfolding dump_inv_def
    using analyze_counts [OF st] analyze_times [OF st] analyze_tables [OF st] analyze_samples [OF st]
      packet(3) by simp
qed

lemma read_dump_run:
  assumes "read_dump sha cancel chunk data = Inr sc"
  obtains seen a c where "dump_inv seen a" "length seen = cf_total c" "sc = finish_scan c a"
    and "cf_packets c = []" "cf_retained c = 0" "cf_sha256 c = sha data" "cf_file_bytes c = length data"
proof -
  obtain c a where r: "read_with sha (analyzer_env cancel chunk) data analyzer_initial = Inr (c, a)"
    and sc: "sc = finish_scan c a"
    using assms by (auto simp: read_dump_def result_simps)
  obtain seen where s: "fed (analyzer_env cancel chunk) analyzer_initial seen a" "length seen = cf_total c"
    using read_with_fed [OF r] by auto
  note f = read_with_facts [OF r]
  have "cf_packets c = []" "cf_retained c = 0"
    using f(3) by (auto simp: capture_inv_def analyzer_env_def)
  with that fed_dump [OF s(1)] s(2) sc f(1,2) show ?thesis by simp
qed

end
