(* ===== verification/Dump.thy ===== *)
theory Dump
  imports Analysis_Facts
begin

text \<open>
  What reading a whole dump guarantees: the properties of the analysis as its callers see them, and
  one dump read by evaluation.
\<close>

subsection \<open>A dump that is read\<close>

definition analyzed :: "packet \<Rightarrow> capture_interface \<Rightarrow> analyzer \<Rightarrow> analyzer" where
  "analyzed p i a = projr (analyze_packet p i a)"

lemma analyze_succeeds:
  assumes "bt_ok (an_windows a)" "length (an_windows a) < max_windows"
  shows "analyze_packet p i a = Inr (analyzed p i a)"
proof -
  have "\<exists>a1. count_time p s b = Inr a1" if "an_windows b = an_windows a" for s b
    using assms that
    by (cases "p_timestamp p") (simp_all add: count_time_def Let_def coarsen.simps length_bt_update)
  then obtain a' where "analyze_packet p i a = Inr a'"
    by (fastforce simp: analyze_packet_def Let_def result_simps)
  then show ?thesis by (simp add: analyzed_def)
qed

text \<open>A classic PCAP of one packet of two bytes, little-endian, in microseconds.\<close>

definition tiny_dump :: "u8 list" where
  "tiny_dump =
     [0xd4, 0xc3, 0xb2, 0xa1, 2, 0, 4, 0, 0, 0, 0, 0, 0, 0, 0, 0, 64, 0, 0, 0, 1, 0, 0, 0,
      7, 0, 0, 0, 0, 0, 0, 0, 2, 0, 0, 0, 2, 0, 0, 0, 0xaa, 0xbb]"

lemma tiny_reads:
  "\<exists>sc. read_dump (\<lambda>_. []) (\<lambda>_. False) (\<lambda>_. 100) tiny_dump = Inr sc \<and> cf_total (sc_capture sc) = 1"
  by (simp add: read_dump_def read_with_def tiny_dump_def input_exact_def read_exact.simps
      read_once_def analyzer_env_def max_dump_bytes_def with_context_def ng_magic_def
      read_pcap_def pcap_start_def pcap_magic_def e_u16_def e_u32_def e_uint_def
      pcap_loop.simps input_next_def pcap_record_def pcap_units_def input_bytes_def
      max_packet_bytes_def retain_def max_dump_records_def empty_capture_def
      analyze_succeeds analyzer_initial_def max_windows_def Let_def retain_packet_def finish_scan_def)

subsection \<open>Counts\<close>

lemma finish_scan_report: "report_fields (sc_report (finish_scan c a)) = report_fields (an_report a)"
  by (simp add: finish_scan_def Let_def report_fields_def)

lemma finish_scan_fields [simp]:
  "dr_timed (sc_report (finish_scan c a)) = dr_timed (an_report a)"
  "dr_untimed (sc_report (finish_scan c a)) = dr_untimed (an_report a)"
  "cf_total (sc_capture (finish_scan c a)) = cf_total c"
  by (simp_all add: finish_scan_def Let_def)

text \<open>
  The report of a dump that reads counts exactly its packets, numbered from 1: the total, the
  captured bytes, the TCP packets and the resets, one counter per protocol that occurs, and the
  packets with and without a timestamp add up to the total.
\<close>

theorem read_dump_counts:
  assumes "read_dump sha cancel chunk data = Inr sc"
  shows "\<exists>seen. map (p_number \<circ> fst) seen = [1..<Suc (cf_total (sc_capture sc))] \<and>
    counts_inv seen (sc_report sc) \<and> protocols_inv seen (sc_report sc) \<and>
    dr_timed (sc_report sc) + dr_untimed (sc_report sc) = cf_total (sc_capture sc)"
  using read_dump_run [OF assms]
  by cases (auto simp: dump_inv_def times_inv_def counts_inv_cong [OF finish_scan_report]
      protocols_inv_cong [OF finish_scan_report] simp del: upt_Suc intro!: exI)

theorem read_dump_counts_witness:
  "\<exists>sc seen. read_dump (\<lambda>_. []) (\<lambda>_. False) (\<lambda>_. 100) tiny_dump = Inr sc \<and>
    map (p_number \<circ> fst) seen = [1] \<and>
    counts_inv seen (sc_report sc) \<and> protocols_inv seen (sc_report sc) \<and>
    dr_timed (sc_report sc) + dr_untimed (sc_report sc) = 1"
proof -
  obtain sc where r: "read_dump (\<lambda>_. []) (\<lambda>_. False) (\<lambda>_. 100) tiny_dump = Inr sc"
      "cf_total (sc_capture sc) = 1"
    using tiny_reads by blast
  from read_dump_counts [OF r(1)] r show ?thesis by auto
qed

text \<open>
  The inventory of destinations has at most 4096 of them; the counter of each is the number of
  its packets and its first number and offset are those of the first of them; a destination is
  missing only when the inventory is full, and the overflow counts exactly the packets to missing
  destinations.
\<close>

theorem read_dump_destinations:
  assumes "read_dump sha cancel chunk data = Inr sc"
  shows "\<exists>seen. length seen = cf_total (sc_capture sc) \<and> destinations_inv seen (sc_report sc)"
  using read_dump_run [OF assms]
  by cases (auto simp: dump_inv_def destinations_inv_cong [OF finish_scan_report] intro!: exI)

theorem read_dump_destinations_witness:
  "\<exists>sc seen. read_dump (\<lambda>_. []) (\<lambda>_. False) (\<lambda>_. 100) tiny_dump = Inr sc \<and>
    length seen = 1 \<and> destinations_inv seen (sc_report sc)"
proof -
  obtain sc where r: "read_dump (\<lambda>_. []) (\<lambda>_. False) (\<lambda>_. 100) tiny_dump = Inr sc"
      "cf_total (sc_capture sc) = 1"
    using tiny_reads by blast
  from read_dump_destinations [OF r(1)] r show ?thesis by auto
qed

subsection \<open>Windows\<close>

text \<open>
  Coarsening loses nothing: the report has at most 1024 time windows, and their packets and
  bytes add up to the packets that have a timestamp and to their bytes.
\<close>

theorem read_dump_windows:
  assumes "read_dump sha cancel chunk data = Inr sc"
  shows "length (dr_windows (sc_report sc)) \<le> max_windows \<and>
    (\<Sum>kw\<leftarrow>dr_windows (sc_report sc). dw_packets (snd kw)) = dr_timed (sc_report sc) \<and>
    (\<Sum>kw\<leftarrow>dr_windows (sc_report sc). dw_bytes (snd kw)) = dr_timed_bytes (sc_report sc) \<and>
    0 < dr_window_seconds (sc_report sc)"
  using read_dump_run [OF assms]
  by cases (auto simp: dump_inv_def times_inv_def finish_scan_def Let_def window_sum_def comp_def
      case_prod_unfold)

theorem read_dump_windows_witness:
  "\<exists>sc. read_dump (\<lambda>_. []) (\<lambda>_. False) (\<lambda>_. 100) tiny_dump = Inr sc \<and>
    length (dr_windows (sc_report sc)) \<le> max_windows \<and>
    (\<Sum>kw\<leftarrow>dr_windows (sc_report sc). dw_packets (snd kw)) = dr_timed (sc_report sc) \<and>
    (\<Sum>kw\<leftarrow>dr_windows (sc_report sc). dw_bytes (snd kw)) = dr_timed_bytes (sc_report sc) \<and>
    0 < dr_window_seconds (sc_report sc)"
proof -
  obtain sc where r: "read_dump (\<lambda>_. []) (\<lambda>_. False) (\<lambda>_. 100) tiny_dump = Inr sc"
    using tiny_reads by blast
  from read_dump_windows [OF r] r show ?thesis by blast
qed

subsection \<open>Samples\<close>

text \<open>The numbers of the samples of a dump of \<open>n\<close> packets.\<close>

definition sample_numbers :: "nat \<Rightarrow> nat set" where
  "sample_numbers n = snd ` set (reservoir n) \<union> (if n = 0 then {} else {1, n})"

lemma numbers_nth:
  "map (p_number \<circ> fst) seen = [1..<Suc (length seen)] \<Longrightarrow> n < length seen \<Longrightarrow>
     p_number (fst (seen ! n)) = Suc n"
  using nth_map [of n seen "p_number \<circ> fst"] by (simp del: upt_Suc)

lemma card_sample_numbers: "card (sample_numbers n) \<le> max_samples"
proof -
  have "card (snd ` set (reservoir n)) \<le> max_samples - 2"
    by (simp add: card_reservoir length_reservoir)
  moreover have "card (if n = 0 then {} else {1, n}) \<le> 2"
    by (simp add: card_insert_if)
  ultimately show ?thesis
    using card_Un_le [of "snd ` set (reservoir n)" "if n = 0 then {} else {1, n}"]
    unfolding sample_numbers_def by (simp add: max_samples_def)
qed

lemma final_samples_values:
  assumes inv: "samples_inv seen a" and nums: "map (p_number \<circ> fst) seen = [1..<Suc (length seen)]"
    and v: "map_of (final_samples a) n = Some v"
  shows "0 < n \<and> n \<le> length seen \<and> v = shown (seen ! (n - 1))"
proof (cases "seen = []")
  case True
  with inv v show ?thesis
    by (simp add: final_samples_def samples_inv_def reservoir_def)
next
  case False
  then have ends: "p_number (fst (hd seen)) = 1" "p_number (fst (last seen)) = length seen"
    using numbers_nth [OF nums, of 0] numbers_nth [OF nums, of "length seen - 1"]
    by (simp_all add: hd_conv_nth last_conv_nth)
  have "an_first a = Some (shown (hd seen))" "an_last a = Some (shown (last seen))"
    using inv False by (simp_all add: samples_inv_def)
  then have "final_samples a = bt_put (length seen) (shown (last seen)) (bt_put 1 (shown (hd seen)) (an_samples a))"
    using ends by (simp add: final_samples_def) (simp add: shown_def sample_of_def)
  then have "map_of (final_samples a) n = (if n = length seen then Some (shown (last seen))
      else if n = 1 then Some (shown (hd seen)) else map_of (an_samples a) n)"
    by simp
  then consider "n = length seen" "shown (last seen) = v" | "n = 1" "shown (hd seen) = v"
    | "map_of (an_samples a) n = Some v"
    unfolding v by (metis option.inject)
  then show ?thesis
  proof cases
    case 1
    with False show ?thesis unfolding last_conv_nth [OF False] by (simp add: Suc_le_eq)
  next
    case 2
    with False show ?thesis unfolding hd_conv_nth [OF False] by (simp add: Suc_le_eq)
  next
    case 3
    with inv have m: "n \<in> snd ` set (reservoir (length seen))" "v = shown (seen ! (n - 1))"
      by (auto simp: samples_inv_def split: if_splits)
    obtain x where "x \<in> set (reservoir (length seen))" "n = snd x" using m(1) by blast
    with in_reservoir [of x "length seen"] m(2) show ?thesis by simp
  qed
qed

lemma sorted_map_of:
  assumes "bt_ok m" "(k, v) \<in> set m"
  shows "map_of m k = Some v"
  using assms by (intro map_of_is_SomeI) (simp_all add: bt_ok_def strict_sorted_iff)

text \<open>
  The samples of a dump are a function of its size alone: their numbers, in increasing order,
  are those of the 510 lowest priorities with the first and the last, at most 512; each is the
  packet of that number cut to 2048 bytes, with the summary of all of its bytes.
\<close>

theorem read_dump_samples:
  assumes "read_dump sha cancel chunk data = Inr sc"
  shows "\<exists>seen. length seen = cf_total (sc_capture sc) \<and>
    map (p_number \<circ> fst) seen = [1..<Suc (length seen)] \<and>
    (let ps = cf_packets (sc_capture sc) in
      map p_number ps = sorted_list_of_set (sample_numbers (length seen)) \<and>
      length ps \<le> max_samples \<and> cf_omitted (sc_capture sc) = length seen - length ps \<and>
      zip ps (sc_summaries sc) = map (\<lambda>p. shown (seen ! (p_number p - 1))) ps \<and>
      length (sc_summaries sc) = length ps)"
proof -
  obtain seen a c where inv: "dump_inv seen a" and n: "length seen = cf_total c" and sc: "sc = finish_scan c a"
    and c: "cf_packets c = []"
    using read_dump_run [OF assms] by metis
  from inv have si: "samples_inv seen a" and nums: "map (p_number \<circ> fst) seen = [1..<Suc (length seen)]"
    unfolding dump_inv_def by blast+
  let ?m = "final_samples a"
  have ok: "bt_ok ?m" and dom: "dom (map_of ?m) = snd ` set (reservoir (length seen)) \<union>
      (if seen = [] then {} else {p_number (fst (hd seen)), p_number (fst (last seen))})"
    using final_samples_facts [OF si] si by (auto simp: samples_inv_def)
  have dom: "dom (map_of ?m) = sample_numbers (length seen)"
    unfolding dom sample_numbers_def
    using numbers_nth [OF nums, of 0] numbers_nth [OF nums, of "length seen - 1"]
    by (cases "seen = []") (simp_all add: hd_conv_nth last_conv_nth)
  have val: "0 < fst kv \<and> fst kv \<le> length seen \<and> snd kv = shown (seen ! (fst kv - 1))" if "kv \<in> set ?m" for kv
    using final_samples_values [OF si nums sorted_map_of [OF ok, of "fst kv" "snd kv"]] that by simp
  have num: "p_number (fst (snd kv)) = fst kv" if "kv \<in> set ?m" for kv
    using val [OF that] numbers_nth [OF nums, of "fst kv - 1"] by (auto simp: shown_def sample_of_def)
  have ps: "cf_packets (sc_capture sc) = map (fst \<circ> snd) ?m" "sc_summaries sc = map (snd \<circ> snd) ?m"
      "cf_omitted (sc_capture sc) = cf_total c - length ?m" "cf_total (sc_capture sc) = cf_total c"
    using c by (simp_all add: sc finish_scan_def Let_def)
  have keys: "map p_number (map (fst \<circ> snd) ?m) = map fst ?m"
    using num by simp
  have sorted: "map fst ?m = sorted_list_of_set (sample_numbers (length seen))"
    using ok unfolding dom [symmetric] keys_map_of [symmetric] set_map [symmetric] bt_ok_def strict_sorted_iff
    by (metis list.set_map sorted_list_of_set.idem_if_sorted_distinct)
  have len: "length ?m = card (sample_numbers (length seen))"
    using bt_length_card [OF ok] dom by simp
  have zip: "zip (map (fst \<circ> snd) ?m) (map (snd \<circ> snd) ?m)
      = map (\<lambda>p. shown (seen ! (p_number p - 1))) (map (fst \<circ> snd) ?m)"
    using val num by (auto simp: zip_map_map zip_same_conv_map)
  show ?thesis
    using n nums sorted len zip card_sample_numbers [of "length seen"] keys
    by (intro exI [where x = seen]) (simp add: ps Let_def)
qed

theorem read_dump_samples_witness:
  "\<exists>sc. read_dump (\<lambda>_. []) (\<lambda>_. False) (\<lambda>_. 100) tiny_dump = Inr sc \<and>
    map p_number (cf_packets (sc_capture sc)) = sorted_list_of_set (sample_numbers 1) \<and>
    length (cf_packets (sc_capture sc)) \<le> max_samples"
proof -
  obtain sc where r: "read_dump (\<lambda>_. []) (\<lambda>_. False) (\<lambda>_. 100) tiny_dump = Inr sc"
      "cf_total (sc_capture sc) = 1"
    using tiny_reads by blast
  from read_dump_samples [OF r(1)] r show ?thesis by (auto simp: Let_def)
qed

end
