(* ===== verification/Delivered.thy ===== *)
theory Delivered
  imports Sink
begin

text \<open>
  The packets of a file, whoever reads them: \<open>delivered\<close> reads the file a byte at a time, without
  cancellation, into a sink that only collects. A read by any other sink that succeeds hands its
  callback the same packets, whatever the pieces of its source and its cancel flag.
\<close>

definition collect_env :: "limits \<Rightarrow> (packet \<times> capture_interface) list reader_env" where
  "collect_env lim =
     \<lparr>env_cancel = (\<lambda>_. False), env_chunk = (\<lambda>_. 0), env_limits = lim,
      env_packet = (\<lambda>p i seen. Inr (seen @ [(p, i)])), env_progress = (\<lambda>_ seen. seen)\<rparr>"

definition delivered :: "limits \<Rightarrow> u8 list \<Rightarrow> (packet \<times> capture_interface) list option" where
  "delivered lim data =
     (case read_with (\<lambda>_. []) (collect_env lim) data [] of Inl _ \<Rightarrow> None | Inr (c, seen) \<Rightarrow> Some seen)"

lemma collect_env_simps [simp]:
  "env_cancel (collect_env lim) k = False" "env_chunk (collect_env lim) k = 0"
  "env_limits (collect_env lim) = lim"
  "env_packet (collect_env lim) p i seen = Inr (seen @ [(p, i)])"
  "env_progress (collect_env lim) k seen = seen"
  by (simp_all add: collect_env_def)

subsection \<open>The same bytes\<close>

text \<open>The same place in the file, with the sink of the collector.\<close>

definition twin :: "'t \<Rightarrow> 's input \<Rightarrow> 't input" where
  "twin seen inp = \<lparr>unread = unread inp, in_count = in_count inp, in_sink = seen\<rparr>"

lemma twin_simps [simp]:
  "unread (twin seen inp) = unread inp" "in_count (twin seen inp) = in_count inp"
  "in_sink (twin seen inp) = seen" "(twin seen inp)\<lparr>in_sink := seen'\<rparr> = twin seen' inp"
  "twin seen (inp\<lparr>in_sink := s\<rparr>) = twin seen inp"
  by (simp_all add: twin_def)

lemma read_exact_limit:
  "read_exact env n inp = Inr (bs, inp') \<Longrightarrow> n = 0 \<or> in_count inp' \<le> l_bytes (env_limits env)"
proof (induction env n inp arbitrary: bs inp' rule: read_exact.induct)
  case (1 env n inp)
  show ?case
  proof (cases "n = 0")
    case False
    obtain b1 i1 where o: "read_once env n inp = Inr (b1, i1)" "b1 \<noteq> []"
      using "1.prems" False
      by (auto simp: read_exact.simps [of env n inp] split: sum.splits prod.splits if_splits)
    obtain b2 where e: "read_exact env (n - length b1) i1 = Inr (b2, inp')"
      using "1.prems" False o
      by (auto simp: read_exact.simps [of env n inp] split: sum.splits prod.splits if_splits)
    show ?thesis
    proof (cases "n - length b1 = 0")
      case True
      with e have "inp' = i1" by (simp add: read_exact.simps [of env 0])
      with read_once_unread [OF o(1)] show ?thesis by simp
    next
      case n: False
      from "1.IH" [OF False o(1) refl o(2) e] n show ?thesis by blast
    qed
  qed simp
qed

lemma collect_once:
  assumes "0 < n" "unread inp = b # rest" "in_count inp < l_bytes lim"
  shows "read_once (collect_env lim) n inp =
    Inr ([b], \<lparr>unread = rest, in_count = Suc (in_count inp), in_sink = in_sink inp\<rparr>)"
proof -
  have "min (min n (l_bytes lim - in_count inp + 1)) (min (length (unread inp)) (Suc 0)) = 1"
    using assms by simp
  with assms show ?thesis by (simp add: read_once_def Let_def)
qed

lemma collect_exact:
  "unread inp = bs @ rest \<Longrightarrow> in_count inp + length bs \<le> l_bytes lim \<Longrightarrow>
     read_exact (collect_env lim) (length bs) inp =
       Inr (bs, \<lparr>unread = rest, in_count = in_count inp + length bs, in_sink = in_sink inp\<rparr>)"
proof (induction bs arbitrary: inp)
  case Nil
  then show ?case by (cases inp) (simp add: read_exact.simps [of _ 0])
next
  case (Cons b bs)
  let ?next = "\<lparr>unread = bs @ rest, in_count = Suc (in_count inp), in_sink = in_sink inp\<rparr>"
  have "read_once (collect_env lim) (Suc (length bs)) inp = Inr ([b], ?next)"
    using Cons.prems by (intro collect_once) simp_all
  moreover have "read_exact (collect_env lim) (length bs) ?next =
      Inr (bs, \<lparr>unread = rest, in_count = in_count inp + length (b # bs), in_sink = in_sink inp\<rparr>)"
    using Cons.IH [of ?next] Cons.prems by simp
  ultimately show ?case
    by (simp add: read_exact.simps [of _ "Suc (length bs)"])
qed

lemma read_exact_twin:
  assumes "read_exact env n inp = Inr (bs, inp')"
  shows "read_exact (collect_env (env_limits env)) n (twin seen inp) = Inr (bs, twin seen inp')"
proof (cases "n = 0")
  case True
  with assms show ?thesis by (simp add: read_exact.simps [of _ 0])
next
  case False
  with read_exact_unread [OF assms] read_exact_limit [OF assms]
    collect_exact [of "twin seen inp" bs "unread inp'" "env_limits env"]
  show ?thesis by (simp add: twin_def)
qed

lemma read_byte_twin:
  assumes "read_once env 1 inp = Inr (bs, inp')"
  shows "read_once (collect_env (env_limits env)) 1 (twin seen inp) = Inr (bs, twin seen inp')"
  using assms by (cases "unread inp") (auto simp: read_once_def Let_def twin_def min_def split: if_splits)

lemma input_exact_twin:
  "input_exact env n inp = Inr (bs, inp') \<Longrightarrow>
     input_exact (collect_env (env_limits env)) n (twin seen inp) = Inr (bs, twin seen inp')"
  by (auto simp: input_exact_def dest: read_exact_twin)

lemma input_bytes_twin:
  "input_bytes env n m inp = Inr (bs, inp') \<Longrightarrow>
     input_bytes (collect_env (env_limits env)) n m (twin seen inp) = Inr (bs, twin seen inp')"
  by (auto simp: input_bytes_def result_simps dest: read_exact_twin)

lemma input_next_twin:
  assumes "input_next env n inp = Inr (h, inp')"
  shows "input_next (collect_env (env_limits env)) n (twin seen inp) = Inr (h, twin seen inp')"
proof -
  obtain bs i1 where o: "read_once env 1 inp = Inr (bs, i1)"
    using assms by (auto simp: input_next_def split: sum.splits)
  with assms read_byte_twin [OF o, of seen] show ?thesis
    by (auto simp: input_next_def result_simps split: if_splits dest!: read_exact_twin [where env = env and seen = seen])
qed

lemma ng_frame_twin:
  assumes "ng_frame env kind st inp = Inr (st', off, body, inp')"
  shows "ng_frame (collect_env (env_limits env)) kind st (twin seen inp) = Inr (st', off, body, twin seen inp')"
proof -
  obtain prefix i1 where e: "input_exact env 8 inp = Inr (prefix, i1)"
    using assms by (auto simp: ng_frame_def result_simps Let_def)
  obtain n rest i2 where y: "input_bytes env n max_block_bytes i1 = Inr (rest, i2)"
      "n = e_u32 (ng_le st') prefix - 12" "i2 = inp'"
    using assms e by (auto simp: ng_frame_def result_simps Let_def)
  note t = input_exact_twin [OF e, of seen] input_bytes_twin [OF y(1), of seen]
  show ?thesis
  proof (cases "kind = ng_magic")
    case True
    with assms e y t show ?thesis
      by (auto simp: ng_frame_def result_simps Let_def intro!: exI [where x = rest])
  next
    case False
    with assms e y t show ?thesis
      by (auto simp: ng_frame_def result_simps Let_def intro!: exI [where x = rest])
  qed
qed

lemma pcap_start_twin:
  "pcap_start env magic (c, inp) = Inr (ph, c', inp') \<Longrightarrow>
     pcap_start (collect_env (env_limits env)) magic (c, twin seen inp) = Inr (ph, c', twin seen inp')"
  by (auto simp: pcap_start_def result_simps Let_def dest!: input_exact_twin [where env = env and seen = seen])

subsection \<open>The same packets\<close>

text \<open>The collector has what the sink \<open>s0\<close> was fed to get where it is.\<close>

definition follows ::
    "'s reader_env \<Rightarrow> 's \<Rightarrow> capture_file \<Rightarrow> 's input \<Rightarrow> (packet \<times> capture_interface) list \<Rightarrow> bool" where
  "follows env s0 c inp seen \<longleftrightarrow> fed env s0 seen (in_sink inp) \<and> length seen = cf_total c"

lemma read_once_follows:
  "read_once env n inp = Inr (bs, inp') \<Longrightarrow> follows env s0 c inp seen \<Longrightarrow> follows env s0 c inp' seen"
  by (auto simp: read_once_def Let_def follows_def split: if_splits intro: fed.progress)

lemma read_exact_follows:
  "read_exact env n inp = Inr (bs, inp') \<Longrightarrow> follows env s0 c inp seen \<Longrightarrow> follows env s0 c inp' seen"
proof (induction env n inp arbitrary: bs inp' rule: read_exact.induct)
  case (1 env n inp)
  show ?case
  proof (cases "n = 0")
    case True
    with "1.prems" show ?thesis by (simp add: read_exact.simps)
  next
    case False
    obtain b1 i1 where o: "read_once env n inp = Inr (b1, i1)" "b1 \<noteq> []"
      using "1.prems"(1) False
      by (auto simp: read_exact.simps [of env n inp] split: sum.splits prod.splits if_splits)
    obtain b2 where e: "read_exact env (n - length b1) i1 = Inr (b2, inp')"
      using "1.prems"(1) False o
      by (auto simp: read_exact.simps [of env n inp] split: sum.splits prod.splits if_splits)
    from "1.IH" [OF False o(1) refl o(2) e read_once_follows [OF o(1) "1.prems"(2)]] show ?thesis .
  qed
qed

lemma input_exact_follows:
  "input_exact env n inp = Inr (bs, inp') \<Longrightarrow> follows env s0 c inp seen \<Longrightarrow> follows env s0 c inp' seen"
  by (auto simp: input_exact_def intro: read_exact_follows)

lemma input_bytes_follows:
  "input_bytes env n m inp = Inr (bs, inp') \<Longrightarrow> follows env s0 c inp seen \<Longrightarrow> follows env s0 c inp' seen"
  by (auto simp: input_bytes_def result_simps intro: read_exact_follows)

lemma input_next_follows:
  "input_next env n inp = Inr (h, inp') \<Longrightarrow> follows env s0 c inp seen \<Longrightarrow> follows env s0 c inp' seen"
  by (auto simp: input_next_def result_simps split: sum.splits if_splits
      dest!: read_exact_follows [where ?s0.0 = s0 and c = c and seen = seen]
        read_once_follows [where ?s0.0 = s0 and c = c and seen = seen])

lemma ng_frame_follows:
  "ng_frame env kind st inp = Inr (st', off, body, inp') \<Longrightarrow> follows env s0 c inp seen \<Longrightarrow>
     follows env s0 c inp' seen"
  by (auto simp: ng_frame_def result_simps Let_def elim!: input_exact_follows input_bytes_follows split: if_splits)

lemma follows_cong:
  "follows env s0 c inp seen \<Longrightarrow> cf_total c' = cf_total c \<Longrightarrow> follows env s0 c' inp seen"
  by (simp add: follows_def)

lemma retain_twin:
  assumes "retain env i off ts original bytes (c, inp) = Inr (c', inp')" "follows env s0 c inp seen"
  shows "\<exists>seen'. retain (collect_env (env_limits env)) i off ts original bytes (c, twin seen inp) =
      Inr (c', twin seen' inp') \<and> follows env s0 c' inp' seen'"
proof -
  define p where "p = \<lparr>p_number = Suc (cf_total c), p_file_offset = off, p_interface = i,
    p_timestamp = ts, p_original = original, p_captured = length bytes, p_bytes = bytes\<rparr>"
  obtain s where p: "env_packet env p (cf_interfaces c ! i) (in_sink inp) = Inr s" "inp' = inp\<lparr>in_sink := s\<rparr>"
      "cf_total c' = Suc (cf_total c)"
    using assms(1)
    by (auto simp: retain_def result_simps Let_def p_def retain_packet_def split: if_splits)
  have "fed env s0 (seen @ [(p, cf_interfaces c ! i)]) s"
    using assms(2) p(1) by (intro fed.packet [where s = "in_sink inp"]) (simp_all add: follows_def p_def)
  then have "follows env s0 c' inp' (seen @ [(p, cf_interfaces c ! i)])"
    using assms(2) p(2,3) by (simp add: follows_def)
  moreover have "retain (collect_env (env_limits env)) i off ts original bytes (c, twin seen inp) =
      Inr (c', twin (seen @ [(p, cf_interfaces c ! i)]) inp')"
    using assms(1) p(2)
    by (auto simp: retain_def result_simps Let_def p_def split: if_splits)
  ultimately show ?thesis by blast
qed

lemma pcap_record_twin:
  assumes "pcap_record env ph off h (c, inp) = Inr (c', inp')" "follows env s0 c inp seen"
  shows "\<exists>seen'. pcap_record (collect_env (env_limits env)) ph off h (c, twin seen inp) =
      Inr (c', twin seen' inp') \<and> follows env s0 c' inp' seen'"
proof -
  obtain bytes i1 ts original n where b: "input_bytes env n max_packet_bytes inp = Inr (bytes, i1)"
    and n: "n = e_u32 (ph_le ph) (drop 8 h)"
    and r: "retain env 0 off ts original bytes (c, i1) = Inr (c', inp')"
    and d: "original = e_u32 (ph_le ph) (drop 12 h)"
      "ts = Some \<lparr>ticks = e_u32 (ph_le ph) h * pcap_units (ph_resolution ph) + e_u32 (ph_le ph) (drop 4 h),
        ts_resolution = of_nat (ph_resolution ph), ts_offset = 0\<rparr>"
    using assms(1) by (auto simp: pcap_record_def result_simps Let_def)
  obtain seen' where "retain (collect_env (env_limits env)) 0 off ts original bytes (c, twin seen i1) =
      Inr (c', twin seen' inp')" "follows env s0 c' inp' seen'"
    using retain_twin [OF r input_bytes_follows [OF b assms(2)]] by blast
  moreover note input_bytes_twin [OF b, of seen]
  ultimately show ?thesis
    using assms(1) n d by (auto simp: pcap_record_def result_simps Let_def)
qed

lemma pcap_loop_twin:
  "pcap_loop env ph ci = Inr ci' \<Longrightarrow> follows env s0 (fst ci) (snd ci) seen \<Longrightarrow>
     \<exists>seen'. pcap_loop (collect_env (env_limits env)) ph (fst ci, twin seen (snd ci)) =
       Inr (fst ci', twin seen' (snd ci')) \<and> follows env s0 (fst ci') (snd ci') seen'"
proof (induction env ph ci arbitrary: ci' seen rule: pcap_loop.induct)
  case (1 env ph c inp)
  let ?B = "collect_env (env_limits env)"
  obtain h i1 where n: "input_next env 16 inp = Inr (h, i1)"
    using "1.prems"(1) by (auto simp: pcap_loop.simps [of env ph c inp] split: sum.splits)
  have i1: "follows env s0 c i1 seen"
    using input_next_follows [OF n] "1.prems"(2) by simp
  note t = input_next_twin [OF n, of seen]
  show ?case
  proof (cases h)
    case None
    with "1.prems"(1) n i1 t show ?thesis
      by (auto simp: pcap_loop.simps [of env ph c inp] pcap_loop.simps [of ?B ph c "twin seen inp"])
  next
    case (Some hd)
    with "1.prems"(1) n obtain c2 i2 where
      r: "pcap_record env ph (in_count inp) hd (c, i1) = Inr (c2, i2)"
      and l: "pcap_loop env ph (c2, i2) = Inr ci'"
      by (auto simp: pcap_loop.simps [of env ph c inp] split: sum.splits)
    obtain s2 where s2: "pcap_record ?B ph (in_count inp) hd (c, twin seen i1) = Inr (c2, twin s2 i2)"
        "follows env s0 c2 i2 s2"
      using pcap_record_twin [OF r i1] by blast
    from "1.IH" [OF n refl Some r refl l, of s2] s2 t Some show ?thesis
      by (simp add: pcap_loop.simps [of ?B ph c "twin seen inp"])
  qed
qed

lemma ng_packet_block_twin:
  assumes "ng_packet_block env t off body st (c, inp) = Inr (c', inp')" "follows env s0 c inp seen"
  shows "\<exists>seen'. ng_packet_block (collect_env (env_limits env)) t off body st (c, twin seen inp) =
      Inr (c', twin seen' inp') \<and> follows env s0 c' inp' seen'"
proof -
  from assms(1) obtain g ts original bytes where r: "retain env g off ts original bytes (c, inp) = Inr (c', inp')"
    and same: "\<And>s. ng_packet_block (collect_env (env_limits env)) t off body st (c, twin s inp) =
      retain (collect_env (env_limits env)) g off ts original bytes (c, twin s inp)"
    by (auto simp: ng_packet_block_def result_simps Let_def)
  from retain_twin [OF r assms(2)] show ?thesis by (simp add: same)
qed

lemma ng_simple_block_twin:
  assumes "ng_simple_block env off body st (c, inp) = Inr (c', inp')" "follows env s0 c inp seen"
  shows "\<exists>seen'. ng_simple_block (collect_env (env_limits env)) off body st (c, twin seen inp) =
      Inr (c', twin seen' inp') \<and> follows env s0 c' inp' seen'"
proof -
  from assms(1) obtain g ts original bytes where r: "retain env g off ts original bytes (c, inp) = Inr (c', inp')"
    and same: "\<And>s. ng_simple_block (collect_env (env_limits env)) off body st (c, twin s inp) =
      retain (collect_env (env_limits env)) g off ts original bytes (c, twin s inp)"
    by (auto simp: ng_simple_block_def result_simps Let_def)
  from retain_twin [OF r assms(2)] show ?thesis by (simp add: same)
qed

lemma ng_block_framed:
  assumes "ng_frame env kind st inp = Inr (st1, off, body, i1)"
  shows "ng_block env kind (st, c, inp) =
    (if e_u32 (ng_le st1) kind = 0x0a0d0d0a then
       rbind (ng_section_header body (in_count i1) st1) (\<lambda>st'. Inr (st', c, i1))
     else if e_u32 (ng_le st1) kind = 1 then
       rbind (ng_interface_block body st1 c) (\<lambda>(st', c'). Inr (st', c', i1))
     else if e_u32 (ng_le st1) kind = 6 \<or> e_u32 (ng_le st1) kind = 2 then
       rbind (ng_packet_block env (e_u32 (ng_le st1) kind) off body st1 (c, i1)) (\<lambda>(c', i2). Inr (st1, c', i2))
     else if e_u32 (ng_le st1) kind = 3 then
       rbind (ng_simple_block env off body st1 (c, i1)) (\<lambda>(c', i2). Inr (st1, c', i2))
     else Inr (st1, c\<lparr>cf_auxiliary := cf_auxiliary c + 1\<rparr>, i1))"
  by (simp add: ng_block_def assms Let_def)

lemma ng_block_twin:
  assumes "ng_block env kind (st, c, inp) = Inr (st', c', inp')" "follows env s0 c inp seen"
  shows "\<exists>seen'. ng_block (collect_env (env_limits env)) kind (st, c, twin seen inp) =
      Inr (st', c', twin seen' inp') \<and> follows env s0 c' inp' seen'"
proof -
  let ?B = "collect_env (env_limits env)"
  obtain st1 off body i1 where f: "ng_frame env kind st inp = Inr (st1, off, body, i1)"
    using assms(1) by (auto simp: ng_block_def result_simps)
  note i1 = ng_frame_follows [OF f assms(2)]
    and t = ng_block_framed [OF ng_frame_twin [OF f, of seen], of c]
  define k where "k = e_u32 (ng_le st1) kind"
  note run = assms(1) [unfolded ng_block_framed [OF f], folded k_def] and twin = t [folded k_def]
  have iface: "cf_total c2 = cf_total c" if "ng_interface_block body st1 c = Inr (st2, c2)" for st2 c2
    using that by (auto simp: ng_interface_block_def result_simps Let_def)
  consider "k = 0x0a0d0d0a" | "k = 1" | "k = 6 \<or> k = 2" | "k = 3" | "k \<noteq> 0x0a0d0d0a" "k \<noteq> 1" "k \<noteq> 6" "k \<noteq> 2" "k \<noteq> 3"
    by blast
  then show ?thesis
  proof cases
    case 1
    then have "ng_section_header body (in_count i1) st1 = Inr st'" "c' = c" "inp' = i1"
      using run by (auto simp: result_simps)
    with 1 i1 show ?thesis
      by (intro exI [where x = seen]) (simp add: twin)
  next
    case 2
    then have "ng_interface_block body st1 c = Inr (st', c')" "inp' = i1"
      using run by (auto simp: result_simps)
    with 2 follows_cong [OF i1 iface] show ?thesis
      by (intro exI [where x = seen]) (simp add: twin)
  next
    case 3
    then have "ng_packet_block env k off body st1 (c, i1) = Inr (c', inp')" "st' = st1"
      using run by (auto simp: result_simps)
    from ng_packet_block_twin [OF this(1) i1] this(2) 3 show ?thesis
      by (elim exE conjE, intro exI conjI, simp_all add: twin) auto
  next
    case 4
    then have "ng_simple_block env off body st1 (c, i1) = Inr (c', inp')" "st' = st1"
      using run by (auto simp: result_simps)
    from ng_simple_block_twin [OF this(1) i1] this(2) 4 show ?thesis
      by (elim exE conjE, intro exI conjI, simp_all add: twin)
  next
    case 5
    then have "c' = c\<lparr>cf_auxiliary := cf_auxiliary c + 1\<rparr>" "st' = st1" "inp' = i1"
      using run by simp_all
    with 5 follows_cong [OF i1, of c'] show ?thesis
      by (intro exI [where x = seen]) (simp add: twin)
  qed
qed

lemma ng_loop_twin:
  "ng_loop env kind s = Inr s' \<Longrightarrow> follows env s0 (fst (snd s)) (snd (snd s)) seen \<Longrightarrow>
     \<exists>seen'. ng_loop (collect_env (env_limits env)) kind (fst s, fst (snd s), twin seen (snd (snd s))) =
       Inr (fst s', fst (snd s'), twin seen' (snd (snd s'))) \<and> follows env s0 (fst (snd s')) (snd (snd s')) seen'"
proof (induction env kind s arbitrary: s' seen rule: ng_loop.induct)
  case (1 env kind st c inp)
  let ?B = "collect_env (env_limits env)"
  obtain st1 c1 i1 where b: "ng_block env kind (st, c, inp) = Inr (st1, c1, i1)"
    using "1.prems"(1) by (auto simp: ng_loop.simps [of env kind st c inp] split: sum.splits)
  with "1.prems"(1) obtain h i2 where n: "input_next env 4 i1 = Inr (h, i2)"
    by (auto simp: ng_loop.simps [of env kind st c inp] split: sum.splits)
  obtain s1 where s1: "ng_block ?B kind (st, c, twin seen inp) = Inr (st1, c1, twin s1 i1)" "follows env s0 c1 i1 s1"
    using ng_block_twin [OF b] "1.prems"(2) by auto
  note i2 = input_next_follows [OF n s1(2)] and t = input_next_twin [OF n, of s1]
  show ?case
  proof (cases h)
    case None
    with "1.prems"(1) n b i2 t s1(1) show ?thesis
      by (auto simp: ng_loop.simps [of env kind st c inp] ng_loop.simps [of ?B kind st c "twin seen inp"])
  next
    case (Some k)
    with "1.prems"(1) n b have l: "ng_loop env k (st1, c1, i2) = Inr s'"
      by (simp add: ng_loop.simps [of env kind st c inp])
    from "1.IH" [OF b refl refl n refl Some l, of s1] i2 t s1(1) Some show ?thesis
      by (simp add: ng_loop.simps [of ?B kind st c "twin seen inp"])
  qed
qed

lemma read_pcap_twin:
  assumes "read_pcap env magic (c, inp) = Inr (c', inp')" "follows env s0 c inp seen"
  shows "\<exists>seen'. read_pcap (collect_env (env_limits env)) magic (c, twin seen inp) = Inr (c', twin seen' inp') \<and>
     follows env s0 c' inp' seen'"
proof -
  obtain ph c0 i0 where p: "pcap_start env magic (c, inp) = Inr (ph, c0, i0)"
    and l: "pcap_loop env ph (c0, i0) = Inr (c', inp')"
    using assms(1) by (auto simp: read_pcap_def result_simps)
  have "follows env s0 c0 i0 seen"
    using p assms(2) by (auto simp: pcap_start_def result_simps Let_def elim!: input_exact_follows intro: follows_cong)
  with pcap_loop_twin [OF l, of s0 seen] pcap_start_twin [OF p, of seen] show ?thesis
    by (auto simp: read_pcap_def result_simps)
qed

lemma read_ng_twin:
  assumes "read_ng env magic (c, inp) = Inr (c', inp')" "follows env s0 c inp seen"
  shows "\<exists>seen'. read_ng (collect_env (env_limits env)) magic (c, twin seen inp) = Inr (c', twin seen' inp') \<and>
     follows env s0 c' inp' seen'"
proof -
  obtain st where l: "ng_loop env magic (ng_initial, c, inp) = Inr (st, c', inp')"
    and e: "case ng_end st of None \<Rightarrow> True | Some e \<Rightarrow> in_count inp' = e"
    using assms(1) by (auto simp: read_ng_def result_simps)
  obtain seen' where "ng_loop (collect_env (env_limits env)) magic (ng_initial, c, twin seen inp) =
      Inr (st, c', twin seen' inp')" "follows env s0 c' inp' seen'"
    using ng_loop_twin [OF l, of s0 seen] assms(2) by auto
  with e show ?thesis
    by (intro exI [where x = seen']) (cases "ng_end st"; simp add: read_ng_def)
qed

text \<open>What a read has fed to its sink are the packets of the file.\<close>

lemma read_with_delivers:
  assumes "read_with sha env data s = Inr (c, s')"
  shows "\<exists>seen. delivered (env_limits env) data = Some seen \<and> fed env s seen s' \<and> length seen = cf_total c"
proof -
  let ?B = "collect_env (env_limits env)" and ?in = "\<lparr>unread = data, in_count = 0, in_sink = s\<rparr>"
  obtain magic i1 c1 i2 where e: "input_exact env 4 ?in = Inr (magic, i1)"
    and r: "(if magic = ng_magic then read_ng env magic (empty_capture PcapNg, i1)
       else read_pcap env magic (empty_capture Pcap, i1)) = Inr (c1, i2)"
    and c: "cf_total c = cf_total c1" "s' = in_sink i2"
    using assms by (auto simp: read_with_def result_simps)
  have "follows env s (empty_capture f) ?in []" for f
    by (simp add: follows_def empty_capture_def fed.start)
  note f = input_exact_follows [OF e this] and t = input_exact_twin [OF e, of "[]"]
  obtain seen where seen: "(if magic = ng_magic then read_ng ?B magic (empty_capture PcapNg, twin [] i1)
       else read_pcap ?B magic (empty_capture Pcap, twin [] i1)) = Inr (c1, twin seen i2)" "follows env s c1 i2 seen"
    using r read_ng_twin [OF _ f, of magic PcapNg c1 i2] read_pcap_twin [OF _ f, of magic Pcap c1 i2] that
    by (cases "magic = ng_magic") auto
  have "delivered (env_limits env) data = Some seen"
    using t seen(1) by (auto simp: delivered_def read_with_def twin_def)
  with seen(2) c show ?thesis by (simp add: follows_def)
qed

end
