(* ===== verification/Lookup.thy ===== *)
theory Lookup
  imports Dump Delivered
begin

text \<open>
  \<open>crates/netlane-capture/src/lookup.rs\<close>: the recovery of one packet by its number from a dump whose
  hash, size and number of packets are already known, as a packet sink over the whole file.
\<close>

datatype lookup_error =
    Reading reader_error
  | Anchor_hash
  | Anchor_limits
  | Anchor_number
  | Dump_differs
  | Lookup_cancelled
  | Packet_not_found
  | Dump_unavailable
  | Dump_changed

record packet_anchor =
  pa_sha256 :: string
  pa_file_bytes :: nat
  pa_total_packets :: nat
  pa_number :: nat

record recovered_packet =
  rp_sha256 :: string
  rp_packet :: packet
  rp_interface :: capture_interface
  rp_summary :: summary

record packet_lookup =
  lk_number :: nat
  lk_progress :: dump_progress
  lk_recovered :: "recovered_packet option"

definition anchor_validate :: "packet_anchor \<Rightarrow> lookup_error + unit" where
  "anchor_validate an =
     rbind (ensure (length (pa_sha256 an) = 64 \<and> list_all is_ascii_hexdigit (pa_sha256 an)) Anchor_hash) (\<lambda>_.
     rbind (ensure (pa_file_bytes an \<le> max_dump_bytes \<and> pa_total_packets an \<le> max_dump_records)
              Anchor_limits) (\<lambda>_.
     ensure (0 < pa_number an \<and> pa_number an \<le> pa_total_packets an) Anchor_number))"

definition anchor_new :: "capture_file \<Rightarrow> nat \<Rightarrow> lookup_error + packet_anchor" where
  "anchor_new c n =
     (let an = \<lparr>pa_sha256 = cf_sha256 c, pa_file_bytes = cf_file_bytes c,
                pa_total_packets = cf_total c, pa_number = n\<rparr>
      in rbind (anchor_validate an) (\<lambda>_. Inr an))"

text \<open>\<open>Lookup::packet\<close> and \<open>Lookup::progress\<close>.\<close>

definition lookup_packet ::
    "packet \<Rightarrow> capture_interface \<Rightarrow> packet_lookup \<Rightarrow> reader_error + packet_lookup" where
  "lookup_packet p i lk =
     (let lk1 = lk\<lparr>lk_progress := (lk_progress lk)\<lparr>pg_packets := p_number p\<rparr>\<rparr> in
      Inr (if p_number p = lk_number lk1
           then lk1\<lparr>lk_recovered := Some
                  \<lparr>rp_sha256 = [], rp_packet = p\<lparr>p_bytes := take sample_bytes (p_bytes p)\<rparr>,
                   rp_interface = i, rp_summary = summarize (p_bytes p) (if_link i)\<rparr>\<rparr>
           else lk1))"

definition lookup_env :: "(nat \<Rightarrow> bool) \<Rightarrow> (nat \<Rightarrow> nat) \<Rightarrow> packet_lookup reader_env" where
  "lookup_env cancel chunk =
     \<lparr>env_cancel = cancel, env_chunk = chunk,
      env_limits = \<lparr>l_bytes = max_dump_bytes, l_records = max_dump_records, l_retain = False\<rparr>,
      env_packet = lookup_packet,
      env_progress = (\<lambda>n lk. lk\<lparr>lk_progress := (lk_progress lk)\<lparr>pg_bytes := n\<rparr>\<rparr>)\<rparr>"

definition lift_reading :: "reader_error + 'a \<Rightarrow> lookup_error + 'a" where
  "lift_reading m = (case m of Inl e \<Rightarrow> Inl (Reading e) | Inr x \<Rightarrow> Inr x)"

text \<open>\<open>stopped\<close> is the cancel flag as \<open>read_packet\<close> reads it after the file.\<close>

definition read_packet ::
    "(u8 list \<Rightarrow> string) \<Rightarrow> (nat \<Rightarrow> bool) \<Rightarrow> bool \<Rightarrow> (nat \<Rightarrow> nat) \<Rightarrow> dump_progress \<Rightarrow> packet_anchor
     \<Rightarrow> u8 list \<Rightarrow> lookup_error + recovered_packet" where
  "read_packet sha cancel stopped chunk progress an data =
     rbind (anchor_validate an) (\<lambda>_.
     rbind (lift_reading (read_with sha (lookup_env cancel chunk) data
              \<lparr>lk_number = pa_number an, lk_progress = progress, lk_recovered = None\<rparr>)) (\<lambda>(c, lk).
     rbind (ensure (eq_ignore_ascii_case (cf_sha256 c) (pa_sha256 an) \<and>
                    cf_file_bytes c = pa_file_bytes an \<and> cf_total c = pa_total_packets an)
              Dump_differs) (\<lambda>_.
     rbind (ensure (\<not> stopped) Lookup_cancelled) (\<lambda>_.
     rbind (ok_or (lk_recovered lk) Packet_not_found) (\<lambda>r.
       Inr (r\<lparr>rp_sha256 := cf_sha256 c\<rparr>))))))"

text \<open>\<open>load_packet\<close>: the metadata before and after, as \<open>(is_file, len, modified)\<close>.\<close>

definition load_packet ::
    "(u8 list \<Rightarrow> string) \<Rightarrow> (nat \<Rightarrow> bool) \<Rightarrow> bool \<Rightarrow> (nat \<Rightarrow> nat) \<Rightarrow> dump_progress \<Rightarrow> packet_anchor
     \<Rightarrow> bool \<times> nat \<times> nat option \<Rightarrow> bool \<times> nat \<times> nat option \<Rightarrow> u8 list
     \<Rightarrow> lookup_error + recovered_packet" where
  "load_packet sha cancel stopped chunk progress an before after data =
     (case (before, after) of ((is_file, blen, bmod), (_, alen, amod)) \<Rightarrow>
        rbind (anchor_validate an) (\<lambda>_.
        rbind (ensure (is_file \<and> blen = pa_file_bytes an \<and> blen \<le> max_dump_bytes) Dump_unavailable) (\<lambda>_.
        rbind (read_packet sha cancel stopped chunk progress an data) (\<lambda>r.
        rbind (ensure (blen = alen \<and> bmod = amod) Dump_changed) (\<lambda>_. Inr r)))))"

subsection \<open>What is recovered\<close>

definition recovered_from :: "packet \<times> capture_interface \<Rightarrow> string \<Rightarrow> recovered_packet" where
  "recovered_from pi h =
     (case pi of (p, i) \<Rightarrow>
        \<lparr>rp_sha256 = h, rp_packet = p\<lparr>p_bytes := take sample_bytes (p_bytes p)\<rparr>,
         rp_interface = i, rp_summary = summarize (p_bytes p) (if_link i)\<rparr>)"

definition dump_limits :: limits where
  "dump_limits = \<lparr>l_bytes = max_dump_bytes, l_records = max_dump_records, l_retain = False\<rparr>"

lemma lookup_env_simps [simp]:
  "env_limits (lookup_env cancel chunk) = dump_limits"
  "env_packet (lookup_env cancel chunk) = lookup_packet"
  "env_progress (lookup_env cancel chunk) n lk = lk\<lparr>lk_progress := (lk_progress lk)\<lparr>pg_bytes := n\<rparr>\<rparr>"
  by (simp_all add: lookup_env_def dump_limits_def)

lemma fed_lookup:
  "fed (lookup_env cancel chunk) lk0 seen lk \<Longrightarrow> lk_recovered lk0 = None \<Longrightarrow> 0 < lk_number lk0 \<Longrightarrow>
     lk_number lk = lk_number lk0 \<and> map (p_number \<circ> fst) seen = [1..<Suc (length seen)] \<and>
     lk_recovered lk =
       (if lk_number lk0 \<le> length seen then Some (recovered_from (seen ! (lk_number lk0 - 1)) []) else None)"
proof (induction rule: fed.induct)
  case start
  then show ?case by simp
next
  case (progress seen s n)
  then show ?case by simp
next
  case (packet seen s p i s')
  from packet(2) have s': "lk_number s' = lk_number s"
      "lk_recovered s' = (if Suc (length seen) = lk_number s then Some (recovered_from (p, i) []) else lk_recovered s)"
    using packet(3) by (auto simp: lookup_packet_def Let_def recovered_from_def)
  from packet.IH [OF packet.prems] packet(3) packet.prems s' show ?case
    by (auto simp: nth_append)
qed

text \<open>
  C35: a packet that is recovered is the one the anchor names: the file has the anchor's hash (up to
  the case of its letters), size and number of packets, and what is returned is the packet of that
  number among those that any reader of the file is handed: its timestamp, lengths and interface
  unchanged, its bytes cut to 2048, with the summary of all of them.
\<close>

theorem read_packet_recovers:
  assumes "read_packet sha cancel stopped chunk progress an data = Inr r"
  shows "\<exists>seen. delivered dump_limits data = Some seen \<and> map (p_number \<circ> fst) seen = [1..<Suc (length seen)] \<and>
    length seen = pa_total_packets an \<and> length data = pa_file_bytes an \<and>
    eq_ignore_ascii_case (sha data) (pa_sha256 an) \<and> \<not> stopped \<and>
    0 < pa_number an \<and> pa_number an \<le> length seen \<and>
    r = recovered_from (seen ! (pa_number an - 1)) (sha data) \<and>
    p_number (rp_packet r) = pa_number an \<and> length (p_bytes (rp_packet r)) \<le> sample_bytes"
proof -
  define lk0 where "lk0 = \<lparr>lk_number = pa_number an, lk_progress = progress, lk_recovered = None\<rparr>"
  obtain c lk r0 where v: "0 < pa_number an" "pa_number an \<le> pa_total_packets an"
    and rd: "read_with sha (lookup_env cancel chunk) data lk0 = Inr (c, lk)"
    and m: "eq_ignore_ascii_case (cf_sha256 c) (pa_sha256 an)" "cf_file_bytes c = pa_file_bytes an"
      "cf_total c = pa_total_packets an" "\<not> stopped"
    and r: "lk_recovered lk = Some r0" "r = r0\<lparr>rp_sha256 := cf_sha256 c\<rparr>"
    using assms unfolding read_packet_def lk0_def [symmetric]
    by (auto simp: result_simps anchor_validate_def lift_reading_def split: sum.splits)
  obtain seen where s: "fed (lookup_env cancel chunk) lk0 seen lk" "length seen = cf_total c"
    and d: "delivered dump_limits data = Some seen"
    using read_with_delivers [OF rd] by auto
  have lk0: "lk_recovered lk0 = None" "0 < lk_number lk0" "lk_number lk0 = pa_number an"
    using v by (simp_all add: lk0_def)
  note f = fed_lookup [OF s(1) lk0(1,2)]
  note rf = read_with_facts [OF rd]
  have r0: "r0 = recovered_from (seen ! (pa_number an - 1)) []"
    using f r(1) v s(2) m(3) lk0(3) by simp
  have n: "p_number (fst (seen ! (pa_number an - 1))) = pa_number an"
    using numbers_nth [of seen "pa_number an - 1"] f v s(2) m(3) by simp
  show ?thesis
    using f v s(2) m r(2) r0 rf(1,2) n d
    by (intro exI [where x = seen])
      (simp add: recovered_from_def case_prod_unfold del: upt_Suc)
qed

lemma tiny_lookup:
  "\<exists>r. read_packet (\<lambda>_. replicate 64 (CHR ''A'')) (\<lambda>_. False) False (\<lambda>_. 100)
     \<lparr>pg_bytes = 0, pg_packets = 0, pg_resets = 0\<rparr>
     \<lparr>pa_sha256 = replicate 64 (CHR ''a''), pa_file_bytes = 42, pa_total_packets = 1, pa_number = 1\<rparr>
     tiny_dump = Inr r"
proof -
  have h: "list_all is_ascii_hexdigit (replicate 64 (CHR ''a''))"
    "eq_ignore_ascii_case (replicate 64 (CHR ''A'')) (replicate 64 (CHR ''a''))"
    by code_simp+
  show ?thesis
    by (simp add: read_packet_def anchor_validate_def h lift_reading_def
      read_with_def tiny_dump_def input_exact_def read_exact.simps
      read_once_def lookup_env_def max_dump_bytes_def with_context_def ng_magic_def
      read_pcap_def pcap_start_def pcap_magic_def e_u16_def e_u32_def e_uint_def
      pcap_loop.simps input_next_def pcap_record_def pcap_units_def input_bytes_def
      max_packet_bytes_def retain_def max_dump_records_def empty_capture_def
      lookup_packet_def Let_def retain_packet_def)
qed

theorem read_packet_recovers_witness:
  "\<exists>r. read_packet (\<lambda>_. replicate 64 (CHR ''A'')) (\<lambda>_. False) False (\<lambda>_. 100)
     \<lparr>pg_bytes = 0, pg_packets = 0, pg_resets = 0\<rparr>
     \<lparr>pa_sha256 = replicate 64 (CHR ''a''), pa_file_bytes = 42, pa_total_packets = 1, pa_number = 1\<rparr>
     tiny_dump = Inr r \<and> p_number (rp_packet r) = 1"
proof -
  obtain r where r: "read_packet (\<lambda>_. replicate 64 (CHR ''A'')) (\<lambda>_. False) False (\<lambda>_. 100)
     \<lparr>pg_bytes = 0, pg_packets = 0, pg_resets = 0\<rparr>
     \<lparr>pa_sha256 = replicate 64 (CHR ''a''), pa_file_bytes = 42, pa_total_packets = 1, pa_number = 1\<rparr>
     tiny_dump = Inr r"
    using tiny_lookup by blast
  from read_packet_recovers [OF r] r show ?thesis by auto
qed

end
