(* ===== verification/Effects.thy ===== *)
theory Effects
  imports Prelude
begin

text \<open>
  Fallible operations that act on a state: the result and the state they leave, a failing one as
  well. \<open>sbind\<close> is Rust's \<open>?\<close> in a function with effects.
\<close>

type_synonym ('s, 'e, 'a) action = "'s \<Rightarrow> ('e + 'a) \<times> 's"

definition sbind :: "('s, 'e, 'a) action \<Rightarrow> ('a \<Rightarrow> ('s, 'e, 'b) action) \<Rightarrow> ('s, 'e, 'b) action" where
  "sbind m f s = (case m s of (Inl e, s') \<Rightarrow> (Inl e, s') | (Inr x, s') \<Rightarrow> f x s')"

definition spure :: "'e + 'a \<Rightarrow> ('s, 'e, 'a) action" where
  "spure r s = (r, s)"

definition sget :: "('s \<Rightarrow> 'a) \<Rightarrow> ('s, 'e, 'a) action" where
  "sget f s = (Inr (f s), s)"

definition smap_error :: "('e \<Rightarrow> 'f) \<Rightarrow> ('s, 'e, 'a) action \<Rightarrow> ('s, 'f, 'a) action" where
  "smap_error g m s = (case m s of (Inl e, s') \<Rightarrow> (Inl (g e), s') | (Inr x, s') \<Rightarrow> (Inr x, s'))"

lemma spure_apply [simp]: "spure r s = (r, s)"
  by (simp add: spure_def)

lemma sget_apply [simp]: "sget f s = (Inr (f s), s)"
  by (simp add: sget_def)

lemma sbind_Inr_simp [simp]: "m s = (Inr x, s') \<Longrightarrow> sbind m f s = f x s'"
  by (simp add: sbind_def)

lemma sbind_Inl_simp [simp]: "m s = (Inl e, s') \<Longrightarrow> sbind m f s = (Inl e, s')"
  by (simp add: sbind_def)

lemma sbind_eq_Inr [result_simps]:
  "sbind m f s = (Inr y, t) \<longleftrightarrow> (\<exists>x s'. m s = (Inr x, s') \<and> f x s' = (Inr y, t))"
  by (auto simp: sbind_def split: prod.splits sum.splits)

lemma sbind_eq_Inl [result_simps]:
  "sbind m f s = (Inl e, t) \<longleftrightarrow>
     m s = (Inl e, t) \<or> (\<exists>x s'. m s = (Inr x, s') \<and> f x s' = (Inl e, t))"
  by (auto simp: sbind_def split: prod.splits sum.splits)

text \<open>A relation between the states before and after that every step keeps.\<close>

lemma sbind_keeps:
  assumes "\<And>r s'. m s = (r, s') \<Longrightarrow> R s s'"
    and "\<And>x s' r t. m s = (Inr x, s') \<Longrightarrow> f x s' = (r, t) \<Longrightarrow> R s s' \<Longrightarrow> R s t"
    and "sbind m f s = (r, t)"
  shows "R s t"
  using assms(3) assms(1,2) by (auto simp: sbind_def split: prod.splits sum.splits)

end
