(* ===== verification/Model.thy ===== *)
theory Model
  imports Utf8 "HOL-Library.List_Lexorder" "HOL-Library.Char_ord" "HOL-Library.Option_ord"
begin

text \<open>
  \<open>crates/netlane-core/src/model.rs\<close>: routing policies and their JSON form, adapters,
  path and identifier helpers, policy validation and the choice of the adapter a policy uses.

  Two functions are parameters: \<open>lower\<close> stands for \<open>str::to_lowercase\<close> (the Unicode case
  tables), \<open>uuid\<close> for \<open>Uuid::parse_str\<close> of the uuid crate (\<open>None\<close> is its error).
\<close>

subsection \<open>Modes, policies, adapters\<close>

datatype route_mode = Automatic | Ethernet | WiFi | Blocked

definition route_modes_all :: "route_mode list" where
  "route_modes_all = [Automatic, Ethernet, WiFi, Blocked]"

text \<open>A JSON value; a number is kept as the text \<open>Number::to_string\<close> gives, an object as the
  entries of its map in key order.\<close>

datatype json =
    JNull
  | JBool bool
  | JNum string
  | JStr string
  | JArr "json list"
  | JObj "(string \<times> json) list"

datatype policy_error =
    Invalid_mode
  | Invalid_rule
  | Duplicate_field
  | Wrong_field_type
  | Too_many_rules
  | Unnamed_rule
  | Duplicate_rule string
  | Invalid_interface_id string

definition route_mode_name :: "route_mode \<Rightarrow> string" where
  "route_mode_name m = (case m of Automatic \<Rightarrow> ''Automatic'' | Ethernet \<Rightarrow> ''Ethernet''
     | WiFi \<Rightarrow> ''WiFi'' | Blocked \<Rightarrow> ''Blocked'')"

definition route_mode_of_json :: "json \<Rightarrow> policy_error + route_mode" where
  "route_mode_of_json v =
     (let text = (case v of JStr s \<Rightarrow> to_ascii_lowercase s | JNum n \<Rightarrow> n | _ \<Rightarrow> []) in
      if text = ''automatic'' \<or> text = ''0'' then Inr Automatic
      else if text = ''ethernet'' \<or> text = ''1'' then Inr Ethernet
      else if text = ''wifi'' \<or> text = ''2'' then Inr WiFi
      else if text = ''blocked'' \<or> text = ''3'' then Inr Blocked
      else Inl Invalid_mode)"

record routing_policy =
  application_id :: string
  executable_path :: "string option"
  interface_id :: "string option"
  interface_type_hint :: "string option"
  route_mode :: route_mode
  fallback_interface_id :: "string option"
  enabled :: bool
  include_related_executables :: bool
  additional_data :: "(string \<times> json) list"

text \<open>\<open>path.rsplit(['\\', '/']).next()\<close>: what follows the last separator.\<close>

definition is_separator :: "char \<Rightarrow> bool" where
  "is_separator c \<longleftrightarrow> c = CHR 0x5C \<or> c = CHR ''/''"

definition file_name :: "string \<Rightarrow> string" where
  "file_name path = rev (takeWhile (\<lambda>c. \<not> is_separator c) (rev path))"

definition policy_new :: "string \<Rightarrow> routing_policy" where
  "policy_new path = \<lparr>application_id = file_name path, executable_path = Some path,
     interface_id = None, interface_type_hint = None, route_mode = Automatic,
     fallback_interface_id = None, enabled = True, include_related_executables = True,
     additional_data = []\<rparr>"

record adapter =
  a_id :: string
  a_name :: string
  a_kind :: string
  a_addresses :: "string list"
  a_connected :: bool
  a_has_gateway :: bool
  a_luid :: nat
  a_ipv4 :: bool
  a_ipv6 :: bool
  a_received :: "nat option"
  a_sent :: "nat option"

definition adapter_mode :: "adapter \<Rightarrow> route_mode option" where
  "adapter_mode a =
     (if a_kind a = ''Wireless80211'' then Some WiFi
      else if a_kind a \<in> set [''Ethernet'', ''Ethernet3Megabit'', ''FastEthernetT'',
        ''FastEthernetFx'', ''GigabitEthernet''] then Some Ethernet
      else None)"

subsection \<open>Policies as JSON\<close>

text \<open>The derived \<open>Serialize\<close> and the hand-written \<open>Deserialize\<close> of \<open>RoutingPolicy\<close>. An
  object is looked up by key; renaming a key removes the entry and inserts the canonical one.\<close>

definition canonical_fields :: "string list" where
  "canonical_fields = [''applicationId'', ''executablePath'', ''interfaceId'',
     ''interfaceTypeHint'', ''routeMode'', ''fallbackInterfaceId'', ''enabled'',
     ''includeRelatedExecutables'']"

definition obj_remove :: "string \<Rightarrow> (string \<times> json) list \<Rightarrow> (string \<times> json) list" where
  "obj_remove k obj = filter (\<lambda>(k', _). k' \<noteq> k) obj"

definition canonicalise_field ::
    "string \<Rightarrow> (string \<times> json) list \<Rightarrow> policy_error + (string \<times> json) list" where
  "canonicalise_field canonical obj =
     (let keys = filter (\<lambda>k. eq_ignore_ascii_case k canonical) (map fst obj) in
      if 1 < length keys then Inl Duplicate_field
      else (case keys of
          [] \<Rightarrow> Inr obj
        | key # _ \<Rightarrow>
            if key \<noteq> canonical
            then (case map_of obj key of
                None \<Rightarrow> Inr obj
              | Some v \<Rightarrow> Inr ((canonical, v) # obj_remove key obj))
            else Inr obj))"

definition field_string :: "(string \<times> json) list \<Rightarrow> string \<Rightarrow> policy_error + string" where
  "field_string obj k = (case map_of obj k of None \<Rightarrow> Inr [] | Some (JStr s) \<Rightarrow> Inr s
     | Some _ \<Rightarrow> Inl Wrong_field_type)"

definition field_option :: "(string \<times> json) list \<Rightarrow> string \<Rightarrow> policy_error + string option" where
  "field_option obj k = (case map_of obj k of None \<Rightarrow> Inr None | Some JNull \<Rightarrow> Inr None
     | Some (JStr s) \<Rightarrow> Inr (Some s) | Some _ \<Rightarrow> Inl Wrong_field_type)"

definition field_bool :: "(string \<times> json) list \<Rightarrow> string \<Rightarrow> policy_error + bool" where
  "field_bool obj k = (case map_of obj k of None \<Rightarrow> Inr True | Some (JBool b) \<Rightarrow> Inr b
     | Some _ \<Rightarrow> Inl Wrong_field_type)"

definition field_mode :: "(string \<times> json) list \<Rightarrow> string \<Rightarrow> policy_error + route_mode" where
  "field_mode obj k = (case map_of obj k of None \<Rightarrow> Inr Automatic | Some v \<Rightarrow> route_mode_of_json v)"

definition wire_policy :: "(string \<times> json) list \<Rightarrow> policy_error + routing_policy" where
  "wire_policy obj =
     rbind (field_string obj ''applicationId'') (\<lambda>app.
     rbind (field_option obj ''executablePath'') (\<lambda>exe.
     rbind (field_option obj ''interfaceId'') (\<lambda>iface.
     rbind (field_option obj ''interfaceTypeHint'') (\<lambda>hint.
     rbind (field_mode obj ''routeMode'') (\<lambda>mode.
     rbind (field_option obj ''fallbackInterfaceId'') (\<lambda>fallback.
     rbind (field_bool obj ''enabled'') (\<lambda>on.
     rbind (field_bool obj ''includeRelatedExecutables'') (\<lambda>related.
       Inr \<lparr>application_id = app, executable_path = exe, interface_id = iface,
         interface_type_hint = hint, route_mode = mode, fallback_interface_id = fallback,
         enabled = on, include_related_executables = related,
         additional_data = filter (\<lambda>(k, _). k \<notin> set canonical_fields) obj\<rparr>))))))))"

definition policy_of_json :: "json \<Rightarrow> policy_error + routing_policy" where
  "policy_of_json v =
     (case v of
        JObj obj \<Rightarrow> rbind (fold_r canonicalise_field canonical_fields obj) wire_policy
      | _ \<Rightarrow> Inl Invalid_rule)"

definition json_option :: "string option \<Rightarrow> json" where
  "json_option x = (case x of None \<Rightarrow> JNull | Some s \<Rightarrow> JStr s)"

definition json_of_policy :: "routing_policy \<Rightarrow> json" where
  "json_of_policy p = JObj
     ([(''applicationId'', JStr (application_id p)),
       (''executablePath'', json_option (executable_path p)),
       (''interfaceId'', json_option (interface_id p)),
       (''interfaceTypeHint'', json_option (interface_type_hint p)),
       (''routeMode'', JStr (route_mode_name (route_mode p))),
       (''fallbackInterfaceId'', json_option (fallback_interface_id p)),
       (''enabled'', JBool (enabled p)),
       (''includeRelatedExecutables'', JBool (include_related_executables p))]
      @ additional_data p)"

subsection \<open>Validation, paths and identifiers\<close>

definition max_policies :: nat where
  "max_policies = 4096"

fun validate_from ::
    "(string \<Rightarrow> string) \<Rightarrow> (string \<Rightarrow> nat option) \<Rightarrow> string list \<Rightarrow> routing_policy list
     \<Rightarrow> policy_error + unit" where
  "validate_from lower uuid names [] = Inr ()"
| "validate_from lower uuid names (p # ps) =
     (if trim (application_id p) = [] then Inl Unnamed_rule
      else if lower (trim (application_id p)) \<in> set names
        then Inl (Duplicate_rule (application_id p))
      else (case interface_id p of
          Some i \<Rightarrow>
            if trim i \<noteq> [] \<and> uuid i = None then Inl (Invalid_interface_id (application_id p))
            else validate_from lower uuid (lower (trim (application_id p)) # names) ps
        | None \<Rightarrow> validate_from lower uuid (lower (trim (application_id p)) # names) ps))"

definition validate_policies ::
    "(string \<Rightarrow> string) \<Rightarrow> (string \<Rightarrow> nat option) \<Rightarrow> routing_policy list \<Rightarrow> policy_error + unit" where
  "validate_policies lower uuid ps =
     (if max_policies < length ps then Inl Too_many_rules else validate_from lower uuid [] ps)"

definition is_local_path :: "string \<Rightarrow> bool" where
  "is_local_path path \<longleftrightarrow> 3 \<le> length path \<and> is_ascii_alphabetic (path ! 0) \<and> path ! 1 = CHR '':''
     \<and> is_separator (path ! 2) \<and> CHR 0x00 \<notin> set path"

definition same_interface :: "(string \<Rightarrow> nat option) \<Rightarrow> string \<Rightarrow> string \<Rightarrow> bool" where
  "same_interface uuid a b =
     (case (uuid a, uuid b) of
        (Some x, Some y) \<Rightarrow> x = y
      | _ \<Rightarrow> eq_ignore_ascii_case (trim a) (trim b))"

definition resolve_interface ::
    "(string \<Rightarrow> string) \<Rightarrow> (string \<Rightarrow> nat option) \<Rightarrow> routing_policy \<Rightarrow> adapter list \<Rightarrow> adapter option" where
  "resolve_interface lower uuid p adapters =
     (let matching = filter (\<lambda>a. a_connected a \<and> adapter_mode a = Some (route_mode p)) adapters;
          by_name = (case sort_key (\<lambda>a. lower (a_name a)) matching of [] \<Rightarrow> None | a # _ \<Rightarrow> Some a)
      in case interface_id p of
          Some i \<Rightarrow> if trim i \<noteq> [] then find (\<lambda>a. same_interface uuid (a_id a) i) matching else by_name
        | None \<Rightarrow> by_name)"

definition endpoint_text :: "string \<Rightarrow> nat \<Rightarrow> string" where
  "endpoint_text address port =
     (if CHR '':'' \<in> set address then ''['' @ address @ '']:'' @ dec port
      else address @ '':'' @ dec port)"

definition remote_endpoint :: "string \<Rightarrow> nat \<Rightarrow> string option" where
  "remote_endpoint address port = (if port \<noteq> 0 then Some (endpoint_text address port) else None)"

subsection \<open>Lemmas\<close>

lemma sort_key_nonempty: "sort_key f xs = [] \<longleftrightarrow> xs = []"
  by (metis length_0_conv length_sort)

lemma resolve_interface_sound:
  assumes "resolve_interface lower uuid p adapters = Some a"
  shows "a \<in> set adapters \<and> a_connected a \<and> adapter_mode a = Some (route_mode p)"
proof -
  let ?m = "filter (\<lambda>a. a_connected a \<and> adapter_mode a = Some (route_mode p)) adapters"
  have "a \<in> set ?m"
  proof (cases "\<exists>i. interface_id p = Some i \<and> trim i \<noteq> []")
    case True
    with assms show ?thesis
      by (auto simp: resolve_interface_def simp del: set_filter split: if_splits dest: find_SomeD)
  next
    case False
    then have "(case sort_key (\<lambda>a. lower (a_name a)) ?m of [] \<Rightarrow> None | a # _ \<Rightarrow> Some a) = Some a"
      using assms by (auto simp: resolve_interface_def Let_def split: option.splits if_splits)
    then have "a \<in> set (sort_key (\<lambda>a. lower (a_name a)) ?m)"
      by (auto simp del: set_sort set_filter split: list.splits)
    then show ?thesis by (simp only: set_sort)
  qed
  then show ?thesis by simp
qed

lemma resolve_interface_None_automatic:
  "route_mode p = Automatic \<or> route_mode p = Blocked \<Longrightarrow> resolve_interface lower uuid p adapters = None"
proof -
  assume "route_mode p = Automatic \<or> route_mode p = Blocked"
  then have "filter (\<lambda>a. a_connected a \<and> adapter_mode a = Some (route_mode p)) adapters = []"
    by (auto simp: adapter_mode_def filter_empty_conv)
  then show ?thesis
    by (auto simp: resolve_interface_def split: option.splits)
qed

lemma is_local_path_shape:
  "is_local_path p \<longleftrightarrow>
     (\<exists>d s r. p = d # CHR '':'' # s # r \<and> is_ascii_alphabetic d \<and> is_separator s \<and> CHR 0x00 \<notin> set p)"
proof
  assume *: "is_local_path p"
  then obtain a b c r where "p = a # b # c # r"
    by (cases p rule: list.exhaust; cases "tl p"; cases "tl (tl p)") (auto simp: is_local_path_def)
  with * show "\<exists>d s r. p = d # CHR '':'' # s # r \<and> is_ascii_alphabetic d \<and> is_separator s \<and> CHR 0x00 \<notin> set p"
    by (auto simp: is_local_path_def)
qed (auto simp: is_local_path_def)

lemma set_head_sort_key:
  assumes "sort_key f xs = y # ys"
  shows "y \<in> set xs" and "x \<in> set xs \<Longrightarrow> f y \<le> f x"
proof -
  have "set (y # ys) = set xs"
    using set_sort [of f xs] assms by simp
  moreover have "sorted (map f (y # ys))"
    using sorted_sort_key [of f xs] assms by simp
  ultimately show "y \<in> set xs" and "x \<in> set xs \<Longrightarrow> f y \<le> f x"
    by auto
qed

definition candidates :: "routing_policy \<Rightarrow> adapter list \<Rightarrow> adapter set" where
  "candidates p adapters =
     {a \<in> set adapters. a_connected a \<and> adapter_mode a = Some (route_mode p)}"

definition wanted_id :: "routing_policy \<Rightarrow> string option" where
  "wanted_id p = (case interface_id p of Some i \<Rightarrow> if trim i \<noteq> [] then Some i else None | None \<Rightarrow> None)"

lemma resolve_interface_wanted:
  "wanted_id p = Some i \<Longrightarrow> resolve_interface lower uuid p adapters =
     find (\<lambda>a. same_interface uuid (a_id a) i)
       (filter (\<lambda>a. a_connected a \<and> adapter_mode a = Some (route_mode p)) adapters)"
  by (auto simp: wanted_id_def resolve_interface_def Let_def split: option.splits if_splits)

lemma resolve_interface_by_name:
  "wanted_id p = None \<Longrightarrow> resolve_interface lower uuid p adapters =
     (case sort_key (\<lambda>a. lower (a_name a))
        (filter (\<lambda>a. a_connected a \<and> adapter_mode a = Some (route_mode p)) adapters)
      of [] \<Rightarrow> None | a # _ \<Rightarrow> Some a)"
  by (auto simp: wanted_id_def resolve_interface_def Let_def split: option.splits if_splits)

text \<open>
  The adapter chosen for a policy is a connected adapter of the policy's mode; when the
  policy names an interface it is that one, otherwise one whose lower-cased name is least; and
  no adapter is chosen exactly when there is no such candidate.\<close>

theorem resolve_interface_correct:
  "case resolve_interface lower uuid p adapters of
     Some a \<Rightarrow> a \<in> candidates p adapters \<and>
       (case wanted_id p of
          Some i \<Rightarrow> same_interface uuid (a_id a) i
        | None \<Rightarrow> candidates p adapters \<subseteq> {b. lower (a_name a) \<le> lower (a_name b)})
   | None \<Rightarrow>
       (case wanted_id p of
          Some i \<Rightarrow> candidates p adapters \<inter> {a. same_interface uuid (a_id a) i} = {}
        | None \<Rightarrow> candidates p adapters = {})"
proof (cases "wanted_id p")
  case None
  let ?m = "filter (\<lambda>a. a_connected a \<and> adapter_mode a = Some (route_mode p)) adapters"
  have m: "set ?m = candidates p adapters"
    by (auto simp: candidates_def)
  show ?thesis
  proof (cases "sort_key (\<lambda>a. lower (a_name a)) ?m")
    case Nil
    then have "?m = []" by (simp only: sort_key_nonempty)
    then have "candidates p adapters = {}" using m by simp
    then show ?thesis
      using None Nil by (simp add: resolve_interface_by_name)
  next
    case (Cons a as)
    then show ?thesis
      using None set_head_sort_key [OF Cons] m by (auto simp: resolve_interface_by_name simp del: set_filter)
  qed
next
  case (Some i)
  then show ?thesis
    by (auto simp: resolve_interface_wanted candidates_def find_None_iff
        split: option.splits dest!: find_SomeD)
qed

lemma validate_from_iff:
  "validate_from lower uuid names ps = Inr () \<longleftrightarrow>
     (\<forall>p \<in> set ps. trim (application_id p) \<noteq> [] \<and>
        (\<forall>i. interface_id p = Some i \<longrightarrow> trim i = [] \<or> uuid i \<noteq> None)) \<and>
     distinct (map (\<lambda>p. lower (trim (application_id p))) ps) \<and>
     set names \<inter> set (map (\<lambda>p. lower (trim (application_id p))) ps) = {}"
  by (induction ps arbitrary: names) (auto split: option.splits)

text \<open>What one rule must satisfy on its own.\<close>

definition policy_valid :: "(string \<Rightarrow> nat option) \<Rightarrow> routing_policy \<Rightarrow> bool" where
  "policy_valid uuid p \<longleftrightarrow> trim (application_id p) \<noteq> [] \<and>
     (case interface_id p of None \<Rightarrow> True | Some i \<Rightarrow> trim i = [] \<or> uuid i \<noteq> None)"

text \<open>
  Validation accepts a rule list exactly when it has at most 4096 rules, every rule names
  an application, no two names agree after trimming and lower-casing, and every non-blank
  interface identifier is a UUID.\<close>

theorem validate_policies_iff:
  "validate_policies lower uuid ps = Inr () \<longleftrightarrow>
     length ps \<le> 4096 \<and> list_all (policy_valid uuid) ps \<and>
     distinct (map (\<lambda>p. lower (trim (application_id p))) ps)"
  by (auto simp: validate_policies_def validate_from_iff max_policies_def list_all_iff policy_valid_def
      split: option.splits)

subsection \<open>The JSON form\<close>

definition foreign_field :: "string \<Rightarrow> bool" where
  "foreign_field k \<longleftrightarrow> (\<forall>c \<in> set canonical_fields. \<not> eq_ignore_ascii_case k c)"

lemma canonical_fields_lengths: "map length canonical_fields = [13, 14, 11, 17, 9, 19, 7, 25]"
  by (simp add: canonical_fields_def)

lemma canonical_fields_separate:
  assumes "c \<in> set canonical_fields"
  shows "filter (\<lambda>k. eq_ignore_ascii_case k c) canonical_fields = [c]"
proof -
  have d: "distinct (map length canonical_fields)"
    unfolding canonical_fields_lengths by simp
  have "eq_ignore_ascii_case k c \<longleftrightarrow> k = c" if "k \<in> set canonical_fields" for k
  proof
    assume "eq_ignore_ascii_case k c"
    then have "length k = length c"
      unfolding eq_ignore_ascii_case_def by (rule map_eq_imp_length_eq)
    with d that assms show "k = c"
      unfolding distinct_map by (blast dest: inj_onD)
  qed simp
  then have "filter (\<lambda>k. eq_ignore_ascii_case k c) canonical_fields = filter (\<lambda>k. k = c) canonical_fields"
    by (rule filter_cong [OF refl])
  also have "\<dots> = [c]"
    using assms d by (intro filter_eq_single) (simp_all add: distinct_map)
  finally show ?thesis .
qed

lemma canonicalise_canonical:
  assumes "c \<in> set canonical_fields" "map fst obj = canonical_fields @ ks" "\<forall>k \<in> set ks. foreign_field k"
  shows "canonicalise_field c obj = Inr obj"
proof -
  have "filter (\<lambda>k. eq_ignore_ascii_case k c) ks = []"
    using assms(1,3) by (auto simp: filter_empty_conv foreign_field_def)
  then have "filter (\<lambda>k. eq_ignore_ascii_case k c) (map fst obj) = [c]"
    using assms canonical_fields_separate by simp
  then show ?thesis
    by (simp add: canonicalise_field_def)
qed

lemma fold_canonicalise:
  assumes "set cs \<subseteq> set canonical_fields" "map fst obj = canonical_fields @ ks"
    "\<forall>k \<in> set ks. foreign_field k"
  shows "fold_r canonicalise_field cs obj = Inr obj"
  using assms(1) by (induction cs) (auto simp: canonicalise_canonical [OF _ assms(2,3)])

lemma route_mode_round_trip [simp]: "route_mode_of_json (JStr (route_mode_name m)) = Inr m"
proof -
  have "list_all (\<lambda>m. route_mode_of_json (JStr (route_mode_name m)) = Inr m) route_modes_all"
    by code_simp
  then show ?thesis
    by (cases m) (simp_all add: route_modes_all_def)
qed

lemma field_option_json [simp]:
  "map_of obj k = Some (json_option x) \<Longrightarrow> field_option obj k = Inr x"
  by (cases x) (auto simp: field_option_def json_option_def)

definition policy_fields :: "routing_policy \<Rightarrow> (string \<times> json) list" where
  "policy_fields p = zip canonical_fields
     [JStr (application_id p), json_option (executable_path p), json_option (interface_id p),
      json_option (interface_type_hint p), JStr (route_mode_name (route_mode p)),
      json_option (fallback_interface_id p), JBool (enabled p),
      JBool (include_related_executables p)]"

lemma json_of_policy_fields: "json_of_policy p = JObj (policy_fields p @ additional_data p)"
  by (simp add: json_of_policy_def policy_fields_def canonical_fields_def)

lemma map_fst_policy_fields [simp]: "map fst (policy_fields p) = canonical_fields"
  by (simp add: policy_fields_def canonical_fields_def)

lemma filter_policy_fields: "filter (\<lambda>(k, _). k \<notin> set canonical_fields) (policy_fields p) = []"
  by (auto simp: filter_empty_conv policy_fields_def dest: set_zip_leftD)

lemma map_of_policy_fields:
  "map_of (policy_fields p @ ds) ''applicationId'' = Some (JStr (application_id p))"
  "map_of (policy_fields p @ ds) ''executablePath'' = Some (json_option (executable_path p))"
  "map_of (policy_fields p @ ds) ''interfaceId'' = Some (json_option (interface_id p))"
  "map_of (policy_fields p @ ds) ''interfaceTypeHint'' = Some (json_option (interface_type_hint p))"
  "map_of (policy_fields p @ ds) ''routeMode'' = Some (JStr (route_mode_name (route_mode p)))"
  "map_of (policy_fields p @ ds) ''fallbackInterfaceId'' = Some (json_option (fallback_interface_id p))"
  "map_of (policy_fields p @ ds) ''enabled'' = Some (JBool (enabled p))"
  "map_of (policy_fields p @ ds) ''includeRelatedExecutables'' = Some (JBool (include_related_executables p))"
  by (simp_all add: policy_fields_def canonical_fields_def del: map_of_append)

lemma policy_json_back:
  assumes "\<forall>(k, v) \<in> set (additional_data p). foreign_field k"
  shows "policy_of_json (json_of_policy p) = Inr p"
proof -
  let ?obj = "policy_fields p @ additional_data p"
  have "k \<notin> set canonical_fields" if "(k, v) \<in> set (additional_data p)" for k v
    using assms that eq_ignore_ascii_case_refl [of k] unfolding foreign_field_def by blast
  then have "filter (\<lambda>(k, _). k \<notin> set canonical_fields) (additional_data p) = additional_data p"
    by (intro filter_True) auto
  then have "filter (\<lambda>(k, _). k \<notin> set canonical_fields) ?obj = additional_data p"
    by (simp add: filter_policy_fields)
  moreover have "fold_r canonicalise_field canonical_fields ?obj = Inr ?obj"
    using assms by (intro fold_canonicalise [where ks = "map fst (additional_data p)"]) auto
  ultimately show ?thesis
    by (simp add: policy_of_json_def json_of_policy_fields wire_policy_def field_string_def
        field_bool_def field_mode_def map_of_policy_fields map_add_def del: map_of_append)
qed

text \<open>C30: a policy survives the trip through JSON, with the fields of newer versions it carries, when
  none of those is spelled like one of the policy's own fields.\<close>

theorem policy_json_round_trip:
  assumes "\<forall>(k, v) \<in> set (additional_data p). foreign_field k"
  shows "policy_of_json (json_of_policy p) = Inr p"
  using assms by (rule policy_json_back)

theorem policy_json_round_trip_witness:
  "policy_of_json (json_of_policy (policy_new ''a.exe''\<lparr>additional_data := [(''futureField'', JNull)]\<rparr>))
     = Inr (policy_new ''a.exe''\<lparr>additional_data := [(''futureField'', JNull)]\<rparr>)"
  by (rule policy_json_round_trip)
    (simp add: foreign_field_def canonical_fields_def eq_ignore_ascii_case_def ascii_lower_def
      is_ascii_upper_def code_def)

end
