(* ===== verification/Priority.thy ===== *)
theory Priority
  imports Effects Utf8 Model "HOL-Library.Product_Lexorder"
begin

text \<open>
  \<open>crates/netlane-core/src/default_connection.rs\<close>: choosing the default IPv4 connection by interface
  metrics. The snapshot of interfaces and routes and its validation, the plan, the request that is
  checked again under elevation, the application with its rollback, and the journal that can restore
  the original metrics. An \<open>Uuid\<close> is the number of its 128 bits. The trait \<open>Settings\<close> is the record
  \<open>settings_ops\<close> of actions on a state. The journal's file is in the theory Journal_Store.
\<close>

type_synonym uuid = nat

definition inventory_limit :: nat where "inventory_limit = 64"
definition max_journal :: nat where "max_journal = 65536"

datatype link_kind = Cable | Wifi

record net_interface =
  ni_id :: uuid
  ni_name :: string
  ni_kind :: link_kind
  ni_index :: nat
  ni_connected :: bool
  ni_automatic :: bool
  ni_metric :: nat
  ni_default_route :: "nat option"
  ni_saved :: "nat option"

record net_route =
  nr_index :: nat
  nr_name :: string
  nr_interface_metric :: nat
  nr_route_metric :: nat

definition route_total :: "net_route \<Rightarrow> nat" where
  "route_total r = nr_interface_metric r + nr_route_metric r"

record net_snapshot =
  ns_interfaces :: "net_interface list"
  ns_routes :: "net_route list"

definition empty_snapshot :: net_snapshot where
  "empty_snapshot = \<lparr>ns_interfaces = [], ns_routes = []\<rparr>"

datatype dc_error =
    Inventory_limit
  | Inventory_invalid
  | Route_invalid
  | Reading_inconsistent
  | Routes_inconsistent
  | Interface_unavailable
  | Metrics_invalid
  | Not_connected
  | Saved_differs
  | Not_adjustable
  | Other_has_priority
  | Not_confirmed
  | Not_default
  | Routes_changed
  | Configuration_changed
  | Change_mismatch
  | Identity_changed
  | Changed_externally
  | Window_closed
  | Priority_changed
  | Journal_incomplete
  | Changed_outside
  | Application_unconfirmed
  | Settings_failure string

text \<open>The messages, as \<open>e.to_string()\<close> gives them.\<close>

fun dc_text :: "dc_error \<Rightarrow> string" where
  "dc_text Inventory_limit = (''Invent'' @ byte_string [195, 161] @ ''rio de conex'' @ byte_string [195, 181] @ ''es excede o limite.'')"
| "dc_text Inventory_invalid = (''Invent'' @ byte_string [195, 161] @ ''rio de conex'' @ byte_string [195, 181] @ ''es inv'' @ byte_string [195, 161] @ ''lido.'')"
| "dc_text Route_invalid = (''Rota padr'' @ byte_string [195, 163] @ ''o inv'' @ byte_string [195, 161] @ ''lida.'')"
| "dc_text Reading_inconsistent = ''Leitura inconsistente da prioridade IPv4. Atualize a leitura.''"
| "dc_text Routes_inconsistent = (''Leitura inconsistente das rotas padr'' @ byte_string [195, 163] @ ''o. Atualize a leitura.'')"
| "dc_text Interface_unavailable =
     (''Uma interface anterior est'' @ byte_string [195, 161] @ '' indispon'' @ byte_string [195, 173] @ ''vel. Reconecte-a antes de continuar.'')"
| "dc_text Metrics_invalid = (''Lista de prioridades inv'' @ byte_string [195, 161] @ ''lida.'')"
| "dc_text Not_connected = (''Conecte a interface escolhida '' @ byte_string [195, 160] @ '' rede antes de aplicar.'')"
| "dc_text Saved_differs =
     (''A prioridade ativa difere da configura'' @ byte_string [195, 167, 195, 163] @ ''o salva no Windows. Essa configura'' @ byte_string [195, 167, 195, 163] @ ''o foi preservada; confira antes de aplicar.'')"
| "dc_text Not_adjustable = (''A prioridade dessa rota n'' @ byte_string [195, 163] @ ''o pode ser ajustada.'')"
| "dc_text Other_has_priority =
     (''Outra conex'' @ byte_string [195, 163] @ ''o, como uma VPN, tem prioridade. Ajuste essa conex'' @ byte_string [195, 163] @ ''o antes de escolher o padr'' @ byte_string [195, 163] @ ''o.'')"
| "dc_text Not_confirmed = (''O Windows n'' @ byte_string [195, 163] @ ''o confirmou a identidade e as prioridades solicitadas.'')"
| "dc_text Not_default = (''A conex'' @ byte_string [195, 163] @ ''o escolhida n'' @ byte_string [195, 163] @ ''o se tornou a rota padr'' @ byte_string [195, 163] @ ''o IPv4.'')"
| "dc_text Routes_changed = ''As rotas mudaram. Atualize a leitura e tente novamente.''"
| "dc_text Configuration_changed = (''A configura'' @ byte_string [195, 167, 195, 163] @ ''o mudou. Atualize a leitura e tente novamente.'')"
| "dc_text Change_mismatch = (''Altera'' @ byte_string [195, 167, 195, 163] @ ''o n'' @ byte_string [195, 163] @ ''o corresponde '' @ byte_string [195, 160] @ '' conex'' @ byte_string [195, 163] @ ''o escolhida.'')"
| "dc_text Identity_changed = (''A identidade da interface mudou durante a opera'' @ byte_string [195, 167, 195, 163] @ ''o.'')"
| "dc_text Changed_externally = (''Prioridade alterada externamente durante a opera'' @ byte_string [195, 167, 195, 163] @ ''o.'')"
| "dc_text Window_closed = (''A janela controladora encerrou a opera'' @ byte_string [195, 167, 195, 163] @ ''o.'')"
| "dc_text Priority_changed =
     (''A prioridade mudou durante a opera'' @ byte_string [195, 167, 195, 163] @ ''o. A configura'' @ byte_string [195, 167, 195, 163] @ ''o externa foi preservada.'')"
| "dc_text Journal_incomplete = (''Registro de restaura'' @ byte_string [195, 167, 195, 163] @ ''o incompleto.'')"
| "dc_text Changed_outside =
     (''A prioridade foi alterada fora do NetLane. A configura'' @ byte_string [195, 167, 195, 163] @ ''o externa foi preservada; confira antes de restaurar.'')"
| "dc_text Application_unconfirmed = (''A aplica'' @ byte_string [195, 167, 195, 163] @ ''o n'' @ byte_string [195, 163] @ ''o foi confirmada; recupera'' @ byte_string [195, 167, 195, 163] @ ''o preservada.'')"
| "dc_text (Settings_failure s) = s"

subsection \<open>Snapshots\<close>

definition valid_name :: "string \<Rightarrow> bool" where
  "valid_name s \<longleftrightarrow> s \<noteq> [] \<and> length s \<le> 1024 \<and> \<not> has_control s"

text \<open>The loop over the interfaces with the sets \<open>ids\<close> and \<open>indices\<close>.\<close>

fun validate_interfaces :: "uuid set \<Rightarrow> nat set \<Rightarrow> net_interface list \<Rightarrow> dc_error + unit" where
  "validate_interfaces ids indices [] = Inr ()"
| "validate_interfaces ids indices (i # is) =
     rbind (ensure (ni_id i \<noteq> 0 \<and> ni_index i \<noteq> 0 \<and> valid_name (ni_name i) \<and> ni_id i \<notin> ids \<and>
                    ni_index i \<notin> indices) Inventory_invalid)
       (\<lambda>_. validate_interfaces (insert (ni_id i) ids) (insert (ni_index i) indices) is)"

definition validate_route :: "net_snapshot \<Rightarrow> net_route \<Rightarrow> dc_error + unit" where
  "validate_route s r =
     rbind (ensure (nr_index r \<noteq> 0 \<and> valid_name (nr_name r)) Route_invalid) (\<lambda>_.
     case find (\<lambda>i. ni_index i = nr_index r) (ns_interfaces s) of
       None \<Rightarrow> Inr ()
     | Some i \<Rightarrow> ensure (ni_connected i \<and> ni_metric i = nr_interface_metric r) Reading_inconsistent)"

text \<open>\<open>Iterator::min\<close>, and \<open>min_by_key\<close>: the first of the least.\<close>

fun min_of :: "nat list \<Rightarrow> nat option" where
  "min_of [] = None"
| "min_of (x # xs) = Some (case min_of xs of None \<Rightarrow> x | Some y \<Rightarrow> min x y)"

fun min_by_key :: "('a \<Rightarrow> nat) \<Rightarrow> 'a list \<Rightarrow> 'a option" where
  "min_by_key f [] = None"
| "min_by_key f (x # xs) =
     Some (case min_by_key f xs of None \<Rightarrow> x | Some y \<Rightarrow> if f x \<le> f y then x else y)"

definition validate_connected :: "net_snapshot \<Rightarrow> net_interface \<Rightarrow> dc_error + unit" where
  "validate_connected s i =
     ensure (ni_default_route i =
         min_of (map nr_route_metric (filter (\<lambda>r. nr_index r = ni_index i) (ns_routes s))))
       Routes_inconsistent"

definition snapshot_validate :: "net_snapshot \<Rightarrow> dc_error + unit" where
  "snapshot_validate s =
     rbind (ensure (length (ns_interfaces s) \<le> inventory_limit \<and> length (ns_routes s) \<le> 256)
              Inventory_limit) (\<lambda>_.
     rbind (validate_interfaces {} {} (ns_interfaces s)) (\<lambda>_.
     rbind (check_all (validate_route s) (ns_routes s)) (\<lambda>_.
     check_all (validate_connected s) (filter ni_connected (ns_interfaces s)))))"

definition current_label :: "net_snapshot \<Rightarrow> string" where
  "current_label s =
     (case min_by_key route_total (ns_routes s) of
        None \<Rightarrow> (''Sem rota padr'' @ byte_string [195, 163] @ ''o IPv4 dispon'' @ byte_string [195, 173] @ ''vel'')
      | Some best \<Rightarrow>
          if list_ex (\<lambda>r. nr_index r \<noteq> nr_index best \<and> route_total r = route_total best) (ns_routes s)
          then (''Prioridades iguais '' @ byte_string [226, 128, 148] @ '' Windows decide'')
          else ''Atual: '' @ nr_name best)"

definition snapshot_interface :: "net_snapshot \<Rightarrow> uuid \<Rightarrow> dc_error + net_interface" where
  "snapshot_interface s u = ok_or (find (\<lambda>i. ni_id i = u) (ns_interfaces s)) Interface_unavailable"

subsection \<open>Metrics and the plan\<close>

record metric =
  mt_id :: uuid
  mt_automatic :: bool
  mt_metric :: nat

definition metric_of :: "net_interface \<Rightarrow> metric" where
  "metric_of i = \<lparr>mt_id = ni_id i, mt_automatic = ni_automatic i, mt_metric = ni_metric i\<rparr>"

definition metric_matches :: "metric \<Rightarrow> net_interface \<Rightarrow> bool" where
  "metric_matches m i \<longleftrightarrow>
     mt_id m = ni_id i \<and> mt_automatic m = ni_automatic i \<and>
     (if mt_automatic m then ni_saved i = None \<or> ni_saved i = Some 0
      else mt_metric m = ni_metric i \<and> ni_saved i = Some (mt_metric m))"

fun all_new :: "uuid set \<Rightarrow> metric list \<Rightarrow> bool" where
  "all_new ids [] = True"
| "all_new ids (m # ms) \<longleftrightarrow>
     mt_id m \<noteq> 0 \<and> (mt_automatic m \<or> 0 < mt_metric m) \<and> mt_id m \<notin> ids \<and>
     all_new (insert (mt_id m) ids) ms"

definition validate_metrics :: "metric list \<Rightarrow> bool \<Rightarrow> dc_error + unit" where
  "validate_metrics ms nonempty =
     ensure (length ms \<le> inventory_limit \<and> (\<not> nonempty \<or> ms \<noteq> []) \<and> all_new {} ms) Metrics_invalid"

definition affected :: "net_snapshot \<Rightarrow> uuid \<Rightarrow> uuid list \<Rightarrow> net_interface list" where
  "affected s preferred managed =
     filter (\<lambda>i. ni_id i = preferred \<or> ni_default_route i \<noteq> None \<or> ni_id i \<in> set managed)
       (ns_interfaces s)"

definition planned_metric :: "uuid \<Rightarrow> nat \<Rightarrow> net_interface \<Rightarrow> metric" where
  "planned_metric preferred goal_total i =
     \<lparr>mt_id = ni_id i, mt_automatic = False,
      mt_metric = (if ni_id i = preferred then 5 else goal_total + 50)\<rparr>"

definition plan :: "net_snapshot \<Rightarrow> uuid \<Rightarrow> uuid list \<Rightarrow> dc_error + metric list" where
  "plan s preferred managed =
     rbind (snapshot_validate s) (\<lambda>_.
     rbind (snapshot_interface s preferred) (\<lambda>selected.
     rbind (ensure (ni_connected selected \<and> ni_default_route selected \<noteq> None) Not_connected) (\<lambda>_.
     let aff = affected s preferred managed in
     rbind (ensure (list_all (\<lambda>i. metric_matches (metric_of i) i) aff) Saved_differs) (\<lambda>_.
     let goal_total = the (ni_default_route selected) + 5 in
     rbind (ensure (goal_total + 50 \<le> 2 ^ 32 - 1) Not_adjustable) (\<lambda>_.
     rbind (ensure (\<not> list_ex (\<lambda>r. \<not> list_ex (\<lambda>i. ni_index i = nr_index r) aff \<and> route_total r \<le> goal_total)
                        (ns_routes s)) Other_has_priority) (\<lambda>_.
       Inr (map (planned_metric preferred goal_total) aff)))))))"

subsection \<open>Requests\<close>

record priority_request =
  rq_expected :: net_snapshot
  rq_changes :: "metric list"
  rq_preferred :: "uuid option"

definition verify_change :: "priority_request \<Rightarrow> net_snapshot \<Rightarrow> metric \<Rightarrow> dc_error + unit" where
  "verify_change rq after c =
     rbind (snapshot_interface (rq_expected rq) (mt_id c)) (\<lambda>original.
     rbind (snapshot_interface after (mt_id c)) (\<lambda>actual.
     ensure (ni_index actual = ni_index original \<and> ni_kind actual = ni_kind original \<and>
             metric_matches c actual) Not_confirmed))"

definition is_default :: "net_snapshot \<Rightarrow> net_interface \<Rightarrow> bool" where
  "is_default s i \<longleftrightarrow>
     ni_connected i \<and>
     (case min_by_key route_total (ns_routes s) of
        None \<Rightarrow> False
      | Some r \<Rightarrow> nr_index r = ni_index i \<and>
          \<not> list_ex (\<lambda>x. nr_index x \<noteq> ni_index i \<and> route_total x \<le> route_total r) (ns_routes s))"

definition verify_after :: "priority_request \<Rightarrow> net_snapshot \<Rightarrow> dc_error + unit" where
  "verify_after rq after =
     rbind (snapshot_validate after) (\<lambda>_.
     rbind (check_all (verify_change rq after) (rq_changes rq)) (\<lambda>_.
     case rq_preferred rq of
       None \<Rightarrow> Inr ()
     | Some p \<Rightarrow>
         rbind (snapshot_interface after p) (\<lambda>i. ensure (is_default after i) Not_default)))"

text \<open>The rows of \<open>validate_against\<close>, sorted.\<close>

definition route_row :: "net_route \<Rightarrow> nat \<times> nat \<times> nat" where
  "route_row r = (nr_index r, nr_interface_metric r, nr_route_metric r)"

definition route_rows :: "net_snapshot \<Rightarrow> (nat \<times> nat \<times> nat) list" where
  "route_rows s = sort (map route_row (ns_routes s))"

definition validate_change ::
    "net_snapshot \<Rightarrow> priority_request \<Rightarrow> metric \<Rightarrow> dc_error + unit" where
  "validate_change actual rq c =
     rbind (snapshot_interface actual (mt_id c)) (\<lambda>a.
     rbind (snapshot_interface (rq_expected rq) (mt_id c)) (\<lambda>e.
     ensure (ni_index a = ni_index e \<and> ni_kind a = ni_kind e \<and> ni_connected a = ni_connected e \<and>
             ni_default_route a = ni_default_route e \<and> metric_matches (metric_of e) a)
       Configuration_changed))"

definition validate_against :: "priority_request \<Rightarrow> net_snapshot \<Rightarrow> dc_error + unit" where
  "validate_against rq actual =
     rbind (snapshot_validate actual) (\<lambda>_.
     rbind (snapshot_validate (rq_expected rq)) (\<lambda>_.
     rbind (validate_metrics (rq_changes rq) True) (\<lambda>_.
     rbind (ensure (route_rows actual = route_rows (rq_expected rq)) Routes_changed) (\<lambda>_.
     rbind (check_all (validate_change actual rq) (rq_changes rq)) (\<lambda>_.
     case rq_preferred rq of
       None \<Rightarrow> Inr ()
     | Some selected \<Rightarrow>
         rbind (plan actual selected (map mt_id (rq_changes rq))) (\<lambda>expected.
         ensure (sort_key mt_id expected = sort_key mt_id (rq_changes rq)) Change_mismatch))))))"

subsection \<open>Application and rollback\<close>

record operation_result =
  or_snapshot :: net_snapshot
  or_success :: bool
  or_detail :: string
  or_rollback_confirmed :: bool

record 's settings_ops =
  st_read :: "('s, dc_error, net_snapshot) action"
  st_write :: "metric \<Rightarrow> ('s, dc_error, unit) action"

record priority_receipt =
  rc_result :: operation_result
  rc_original :: "net_interface list"
  rc_changes :: "metric list"

text \<open>\<open>active_matches\<close> and \<open>saved_matches\<close> of \<open>revert\<close>.\<close>

definition active_matches :: "net_interface \<Rightarrow> metric \<Rightarrow> bool" where
  "active_matches i m \<longleftrightarrow> mt_automatic m = ni_automatic i \<and> (mt_automatic m \<or> mt_metric m = ni_metric i)"

definition saved_matches :: "net_interface \<Rightarrow> metric \<Rightarrow> bool" where
  "saved_matches i m \<longleftrightarrow>
     (if mt_automatic m then ni_saved i = None \<or> ni_saved i = Some 0 else ni_saved i = Some (mt_metric m))"

text \<open>A read whose snapshot is validated.\<close>

definition read_valid :: "'s settings_ops \<Rightarrow> ('s, dc_error, net_snapshot) action" where
  "read_valid ops = sbind (st_read ops) (\<lambda>now. sbind (spure (snapshot_validate now)) (\<lambda>_. spure (Inr now)))"

text \<open>One attempt of \<open>revert\<close>. The \<open>expect\<close> cannot fail: a touched interface has its change.\<close>

definition revert_one :: "'s settings_ops \<Rightarrow> metric list \<Rightarrow> net_interface \<Rightarrow> ('s, dc_error, unit) action" where
  "revert_one ops changes original =
     sbind (read_valid ops) (\<lambda>now.
     sbind (spure (snapshot_interface now (ni_id original))) (\<lambda>i.
     let m = metric_of original in
     sbind (spure (ensure (ni_index i = ni_index original \<and> ni_kind i = ni_kind original)
                     Identity_changed)) (\<lambda>_.
     if metric_matches m i then spure (Inr ())
     else
       (let change = the (find (\<lambda>c. mt_id c = ni_id original) changes) in
        sbind (spure (ensure ((active_matches i m \<or> active_matches i change) \<and>
                              (saved_matches i m \<or> saved_matches i change)) Changed_externally)) (\<lambda>_.
        st_write ops m)))))"

fun revert_all ::
    "'s settings_ops \<Rightarrow> metric list \<Rightarrow> net_interface list \<Rightarrow> 's \<Rightarrow> string list \<times> 's" where
  "revert_all ops changes [] s = ([], s)"
| "revert_all ops changes (orig # origs) s =
     (case revert_one ops changes orig s of
        (Inl e, s') \<Rightarrow> (case revert_all ops changes origs s' of (es, t) \<Rightarrow> (dc_text e # es, t))
      | (Inr _, s') \<Rightarrow> revert_all ops changes origs s')"

definition restored :: "net_snapshot \<Rightarrow> net_interface \<Rightarrow> bool" where
  "restored s m \<longleftrightarrow>
     (case snapshot_interface s (ni_id m) of
        Inl _ \<Rightarrow> False
      | Inr i \<Rightarrow> ni_index i = ni_index m \<and> ni_kind i = ni_kind m \<and> metric_matches (metric_of m) i)"

fun join_errors :: "string list \<Rightarrow> string" where
  "join_errors [] = []"
| "join_errors [e] = e"
| "join_errors (e # es) = e @ '' | '' @ join_errors es"

definition revert_detail :: "string list \<Rightarrow> string" where
  "revert_detail errors =
     (if errors = [] then ('' Altera'' @ byte_string [195, 167, 195, 163] @ ''o revertida.'')
      else ('' Restaura'' @ byte_string [195, 167, 195, 163] @ ''o incompleta: '') @ join_errors errors)"

definition revert ::
    "'s settings_ops \<Rightarrow> priority_receipt \<Rightarrow> 's \<Rightarrow> priority_receipt \<times> 's" where
  "revert ops rc s =
     (case revert_all ops (rc_changes rc) (rev (rc_original rc)) s of (errors, s1) \<Rightarrow>
      case read_valid ops s1 of (r, s2) \<Rightarrow>
      let (snap, errors') =
            (case r of
               Inr now \<Rightarrow>
                 (now, errors @ (if list_all (restored now) (rc_original rc) then []
                                 else [(''Restaura'' @ byte_string [195, 167, 195, 163] @ ''o n'' @ byte_string [195, 163] @ ''o confirmada.'')]))
             | Inl e \<Rightarrow>
                 (empty_snapshot, errors @ [(''N'' @ byte_string [195, 163] @ ''o foi poss'' @ byte_string [195, 173] @ ''vel conferir a restaura'' @ byte_string [195, 167, 195, 163] @ ''o: '') @ dc_text e]))
      in (\<lparr>rc_result = (rc_result rc)
              \<lparr>or_snapshot := snap, or_success := False, or_rollback_confirmed := (errors' = []),
               or_detail := or_detail (rc_result rc) @ revert_detail errors'\<rparr>,
           rc_original = [], rc_changes = rc_changes rc\<rparr>, s2))"

text \<open>
  The loop of \<open>apply\<close>: the interfaces touched so far are returned with the outcome, since a failure
  leaves them in the receipt. \<open>alive\<close> is the callback, which may see the state.
\<close>

fun apply_changes ::
    "'s settings_ops \<Rightarrow> ('s \<Rightarrow> bool) \<Rightarrow> net_snapshot \<Rightarrow> metric list \<Rightarrow> net_interface list \<Rightarrow> 's
     \<Rightarrow> (dc_error + unit) \<times> net_interface list \<times> 's" where
  "apply_changes ops alive before [] touched s = (Inr (), touched, s)"
| "apply_changes ops alive before (m # ms) touched s =
     (case sbind (spure (ensure (alive s) Window_closed)) (\<lambda>_.
           sbind (spure (snapshot_interface before (mt_id m))) (\<lambda>original.
           sbind (read_valid ops) (\<lambda>current.
           sbind (spure (snapshot_interface current (mt_id m))) (\<lambda>actual.
           sbind (spure (ensure (ni_index actual = ni_index original \<and> ni_kind actual = ni_kind original \<and>
                                 metric_matches (metric_of original) actual) Priority_changed)) (\<lambda>_.
           sbind (sget alive) (\<lambda>still.
           sbind (spure (ensure still Window_closed)) (\<lambda>_. spure (Inr original)))))))) s of
        (Inl e, s1) \<Rightarrow> (Inl e, touched, s1)
      | (Inr original, s1) \<Rightarrow>
          (case st_write ops m s1 of
             (Inl e, s2) \<Rightarrow> (Inl e, touched @ [original], s2)
           | (Inr _, s2) \<Rightarrow> apply_changes ops alive before ms (touched @ [original]) s2))"

text \<open>The preferred interface comes last.\<close>

definition ordered_changes :: "priority_request \<Rightarrow> metric list" where
  "ordered_changes rq = sort_key (\<lambda>m. if Some (mt_id m) = rq_preferred rq then 1 else 0 :: nat) (rq_changes rq)"

definition confirm_changes ::
    "'s settings_ops \<Rightarrow> ('s \<Rightarrow> bool) \<Rightarrow> priority_request \<Rightarrow> ('s, dc_error, net_snapshot) action" where
  "confirm_changes ops alive rq =
     sbind (sget alive) (\<lambda>still.
     sbind (spure (ensure still Window_closed)) (\<lambda>_.
     sbind (st_read ops) (\<lambda>after.
     sbind (spure (verify_after rq after)) (\<lambda>_. spure (Inr after)))))"

definition applied_text :: "priority_request \<Rightarrow> string" where
  "applied_text rq =
     (if rq_preferred rq \<noteq> None
      then (''Conex'' @ byte_string [195, 163] @ ''o padr'' @ byte_string [195, 163] @ ''o IPv4 aplicada. A escolha permanece ap'' @ byte_string [195, 179] @ ''s fechar o NetLane.'')
      else (''Configura'' @ byte_string [195, 167, 195, 163] @ ''o anterior restaurada.''))"

definition priority_apply ::
    "'s settings_ops \<Rightarrow> ('s \<Rightarrow> bool) \<Rightarrow> priority_request \<Rightarrow> ('s, dc_error, priority_receipt) action" where
  "priority_apply ops alive rq =
     sbind (st_read ops) (\<lambda>before.
     sbind (spure (validate_against rq before)) (\<lambda>_. \<lambda>s.
       (case apply_changes ops alive before (ordered_changes rq) [] s of (r, touched, s1) \<Rightarrow>
        let base = \<lparr>or_snapshot = before, or_success = False, or_detail = [],
                    or_rollback_confirmed = False\<rparr>;
            fail = (\<lambda>e s2. case revert ops \<lparr>rc_result = base\<lparr>or_detail := dc_text e\<rparr>,
                                            rc_original = touched, rc_changes = rq_changes rq\<rparr> s2
                           of (rc, s3) \<Rightarrow> (Inr rc, s3))
        in (case r of
              Inl e \<Rightarrow> fail e s1
            | Inr _ \<Rightarrow>
                (case confirm_changes ops alive rq s1 of
                   (Inl e, s2) \<Rightarrow> fail e s2
                 | (Inr after, s2) \<Rightarrow>
                     (Inr \<lparr>rc_result = base\<lparr>or_snapshot := after, or_success := True,
                                            or_detail := applied_text rq\<rparr>,
                           rc_original = touched, rc_changes = rq_changes rq\<rparr>, s2))))))"

subsection \<open>The journal\<close>

record journal =
  jn_original :: "metric list"
  jn_applied :: "metric list"
  jn_previous :: "metric list"
  jn_extra :: "(string \<times> json) list"

definition empty_journal :: journal where
  "empty_journal = \<lparr>jn_original = [], jn_applied = [], jn_previous = [], jn_extra = []\<rparr>"

definition journal_validate :: "journal \<Rightarrow> dc_error + unit" where
  "journal_validate j =
     rbind (validate_metrics (jn_original j) True) (\<lambda>_.
     rbind (validate_metrics (jn_applied j) False) (\<lambda>_.
     rbind (validate_metrics (jn_previous j) False) (\<lambda>_.
     ensure (list_all (\<lambda>m. list_ex (\<lambda>x. mt_id x = mt_id m) (jn_original j)) (jn_applied j @ jn_previous j))
       Journal_incomplete)))"

definition known_interface :: "journal \<Rightarrow> net_snapshot \<Rightarrow> metric \<Rightarrow> dc_error + unit" where
  "known_interface j s original =
     rbind (snapshot_interface s (mt_id original)) (\<lambda>i.
     ensure (list_ex (\<lambda>m. mt_id m = mt_id original \<and> metric_matches m i)
               (jn_applied j @ jn_previous j @ jn_original j)) Changed_outside)"

definition check_known :: "journal \<Rightarrow> net_snapshot \<Rightarrow> dc_error + unit" where
  "check_known j s =
     rbind (journal_validate j) (\<lambda>_.
     rbind (snapshot_validate s) (\<lambda>_.
     check_all (known_interface j s) (jn_original j)))"

definition upsert :: "metric list \<Rightarrow> metric \<Rightarrow> metric list" where
  "upsert ms m = sort_key mt_id (filter (\<lambda>x. mt_id x \<noteq> mt_id m) ms @ [m])"

text \<open>The two loops of \<open>prepare\<close>.\<close>

definition add_original :: "net_snapshot \<Rightarrow> metric \<Rightarrow> journal \<Rightarrow> dc_error + journal" where
  "add_original s c j =
     rbind (snapshot_interface s (mt_id c)) (\<lambda>i.
     Inr (if list_ex (\<lambda>x. mt_id x = mt_id c) (jn_original j) then j
          else j\<lparr>jn_original := jn_original j @ [metric_of i]\<rparr>))"

definition record_change :: "net_snapshot \<Rightarrow> metric \<Rightarrow> journal \<Rightarrow> dc_error + journal" where
  "record_change s c j =
     rbind (snapshot_interface s (mt_id c)) (\<lambda>i.
     Inr (j\<lparr>jn_previous := upsert (jn_previous j) (metric_of i), jn_applied := upsert (jn_applied j) c\<rparr>))"

definition prepare ::
    "net_snapshot \<Rightarrow> uuid \<Rightarrow> journal option \<Rightarrow> dc_error + journal \<times> priority_request" where
  "prepare s preferred existing =
     rbind (case existing of None \<Rightarrow> Inr () | Some j \<Rightarrow> check_known j s) (\<lambda>_.
     let j = (case existing of None \<Rightarrow> empty_journal | Some j \<Rightarrow> j) in
     rbind (plan s preferred (map mt_id (jn_original j))) (\<lambda>changes.
     rbind (fold_r (add_original s) changes j) (\<lambda>j1.
     rbind (fold_r (record_change s) changes (j1\<lparr>jn_previous := jn_applied j1\<rparr>)) (\<lambda>j2.
     rbind (journal_validate j2) (\<lambda>_.
       Inr (j2, \<lparr>rq_expected = s, rq_changes = changes, rq_preferred = Some preferred\<rparr>))))))"

definition restoration :: "journal \<Rightarrow> net_snapshot \<Rightarrow> dc_error + priority_request option" where
  "restoration j s =
     rbind (check_known j s) (\<lambda>_.
     let changes = filter (\<lambda>m. \<not> metric_matches m (projr (snapshot_interface s (mt_id m)))) (jn_original j) in
     Inr (if changes = [] then None
          else Some \<lparr>rq_expected = s, rq_changes = changes, rq_preferred = None\<rparr>))"

definition confirmed :: "journal \<Rightarrow> net_snapshot \<Rightarrow> dc_error + journal" where
  "confirmed j s =
     rbind (snapshot_validate s) (\<lambda>_.
     rbind (ensure (list_all (\<lambda>m. case snapshot_interface s (mt_id m) of
                                    Inl _ \<Rightarrow> False | Inr i \<Rightarrow> metric_matches m i) (jn_applied j))
              Application_unconfirmed) (\<lambda>_.
     Inr (j\<lparr>jn_previous := []\<rparr>)))"

end
