(* ===== verification/Priority_Facts.thy ===== *)
theory Priority_Facts
  imports Priority
begin

text \<open>
  What the plan for a default connection achieves and what its application guarantees.
\<close>

subsection \<open>Snapshots\<close>

lemma validate_interfaces_ok:
  "validate_interfaces ids indices is = Inr u \<longleftrightarrow>
     (\<forall>i \<in> set is. ni_id i \<noteq> 0 \<and> ni_index i \<noteq> 0 \<and> valid_name (ni_name i) \<and> ni_id i \<notin> ids \<and>
        ni_index i \<notin> indices) \<and> distinct (map ni_id is) \<and> distinct (map ni_index is)"
  by (induction "is" arbitrary: ids indices) (auto simp: result_simps image_iff)

lemma all_new_iff:
  "all_new ids ms \<longleftrightarrow>
     (\<forall>m \<in> set ms. mt_id m \<noteq> 0 \<and> (mt_automatic m \<or> 0 < mt_metric m) \<and> mt_id m \<notin> ids) \<and>
     distinct (map mt_id ms)"
  by (induction ms arbitrary: ids) (auto simp: image_iff)

lemma validate_metrics_ok [result_simps]:
  "validate_metrics ms ne = Inr u \<longleftrightarrow>
     length ms \<le> inventory_limit \<and> (ne \<longrightarrow> ms \<noteq> []) \<and> distinct (map mt_id ms) \<and>
     (\<forall>m \<in> set ms. mt_id m \<noteq> 0 \<and> (mt_automatic m \<or> 0 < mt_metric m))"
  by (auto simp: validate_metrics_def result_simps all_new_iff)

lemma find_by_key:
  "distinct (map f xs) \<Longrightarrow> find (\<lambda>x. f x = k) xs = Some y \<longleftrightarrow> y \<in> set xs \<and> f y = k"
  by (induction xs) auto

lemma find_by_key_None: "find (\<lambda>x. f x = k) xs = None \<longleftrightarrow> k \<notin> f ` set xs"
  by (induction xs) auto

lemma min_by_key_Some:
  "min_by_key f xs = Some x \<Longrightarrow> x \<in> set xs \<and> (\<forall>y \<in> set xs. f x \<le> f y)"
proof (induction xs arbitrary: x)
  case Nil
  then show ?case by simp
next
  case (Cons a xs)
  show ?case
  proof (cases "min_by_key f xs")
    case None
    with Cons.prems show ?thesis by (cases xs) auto
  next
    case (Some y)
    with Cons.IH [OF Some] Cons.prems show ?thesis by (auto split: if_splits)
  qed
qed

lemma min_by_key_None [simp]: "min_by_key f xs = None \<longleftrightarrow> xs = []"
  by (cases xs) simp_all

lemma min_of_Some: "min_of xs = Some x \<Longrightarrow> x \<in> set xs \<and> (\<forall>y \<in> set xs. x \<le> y)"
proof (induction xs arbitrary: x)
  case Nil
  then show ?case by simp
next
  case (Cons a xs)
  show ?case
  proof (cases "min_of xs")
    case None
    with Cons.prems show ?thesis by (cases xs) auto
  next
    case (Some y)
    with Cons.IH [OF Some] Cons.prems show ?thesis by (auto simp: min_def split: if_splits)
  qed
qed

lemma min_of_None [simp]: "min_of xs = None \<longleftrightarrow> xs = []"
  by (cases xs) simp_all

text \<open>A valid snapshot.\<close>

definition snapshot_ok :: "net_snapshot \<Rightarrow> bool" where
  "snapshot_ok s \<longleftrightarrow> snapshot_validate s = Inr ()"

lemma snapshot_okD:
  assumes "snapshot_ok s"
  shows "distinct (map ni_id (ns_interfaces s))" "distinct (map ni_index (ns_interfaces s))"
    "i \<in> set (ns_interfaces s) \<Longrightarrow> ni_id i \<noteq> 0 \<and> ni_index i \<noteq> 0"
    "i \<in> set (ns_interfaces s) \<Longrightarrow> ni_connected i \<Longrightarrow>
       ni_default_route i = min_of (map nr_route_metric (filter (\<lambda>r. nr_index r = ni_index i) (ns_routes s)))"
    "r \<in> set (ns_routes s) \<Longrightarrow> i \<in> set (ns_interfaces s) \<Longrightarrow> ni_index i = nr_index r \<Longrightarrow>
       ni_connected i \<and> ni_metric i = nr_interface_metric r"
    "length (ns_interfaces s) \<le> inventory_limit" "length (ns_routes s) \<le> 256"
    "r \<in> set (ns_routes s) \<Longrightarrow> nr_index r \<noteq> 0 \<and> valid_name (nr_name r)"
    "i \<in> set (ns_interfaces s) \<Longrightarrow> valid_name (ni_name i)"
  using assms
  by (auto simp: snapshot_ok_def snapshot_validate_def result_simps validate_interfaces_ok
      validate_connected_def validate_route_def find_by_key split: option.splits)

lemma snapshot_interface_Inr:
  "snapshot_ok s \<Longrightarrow> snapshot_interface s u = Inr i \<longleftrightarrow> i \<in> set (ns_interfaces s) \<and> ni_id i = u"
  using snapshot_okD(1) [of s] by (simp add: snapshot_interface_def result_simps find_by_key)

lemma interface_at_index:
  "snapshot_ok s \<Longrightarrow> i \<in> set (ns_interfaces s) \<Longrightarrow> j \<in> set (ns_interfaces s) \<Longrightarrow> ni_index i = ni_index j \<Longrightarrow> i = j"
  using snapshot_okD(2) by (metis distinct_map inj_onD)

lemma interface_of_id:
  "snapshot_ok s \<Longrightarrow> i \<in> set (ns_interfaces s) \<Longrightarrow> j \<in> set (ns_interfaces s) \<Longrightarrow> ni_id i = ni_id j \<Longrightarrow> i = j"
  using snapshot_okD(1) by (metis distinct_map inj_onD)

subsection \<open>What Windows does with metrics\<close>

text \<open>
  The snapshot after the metrics \<open>ms\<close> are active and saved: an interface has its new metric, and so
  do its routes; nothing else moves.
\<close>

definition set_metric :: "metric list \<Rightarrow> net_interface \<Rightarrow> net_interface" where
  "set_metric ms i =
     (case find (\<lambda>m. mt_id m = ni_id i) ms of
        None \<Rightarrow> i
      | Some m \<Rightarrow> i\<lparr>ni_automatic := False, ni_metric := mt_metric m, ni_saved := Some (mt_metric m)\<rparr>)"

definition reroute :: "net_interface list \<Rightarrow> net_route \<Rightarrow> net_route" where
  "reroute is r =
     (case find (\<lambda>i. ni_index i = nr_index r) is of
        None \<Rightarrow> r | Some i \<Rightarrow> r\<lparr>nr_interface_metric := ni_metric i\<rparr>)"

definition carried_out :: "metric list \<Rightarrow> net_snapshot \<Rightarrow> net_snapshot" where
  "carried_out ms s =
     \<lparr>ns_interfaces = map (set_metric ms) (ns_interfaces s),
      ns_routes = map (reroute (map (set_metric ms) (ns_interfaces s))) (ns_routes s)\<rparr>"

lemma set_metric_fields [simp]:
  "ni_id (set_metric ms i) = ni_id i" "ni_name (set_metric ms i) = ni_name i"
  "ni_kind (set_metric ms i) = ni_kind i" "ni_index (set_metric ms i) = ni_index i"
  "ni_connected (set_metric ms i) = ni_connected i"
  "ni_default_route (set_metric ms i) = ni_default_route i"
  by (simp_all add: set_metric_def split: option.splits)

lemma reroute_fields [simp]:
  "nr_index (reroute is r) = nr_index r" "nr_name (reroute is r) = nr_name r"
  "nr_route_metric (reroute is r) = nr_route_metric r"
  by (simp_all add: reroute_def split: option.splits)

lemma carried_out_ok:
  assumes "snapshot_ok s"
  shows "snapshot_ok (carried_out ms s)"
proof -
  let ?is = "map (set_metric ms) (ns_interfaces s)"
  have d: "distinct (map ni_id ?is)" "distinct (map ni_index ?is)"
    using snapshot_okD(1,2) [OF assms] by (simp_all add: comp_def)
  have r: "validate_route (carried_out ms s) (reroute ?is r) = Inr ()" if "r \<in> set (ns_routes s)" for r
  proof (cases "find (\<lambda>i. ni_index i = nr_index r) ?is")
    case None
    with snapshot_okD(8) [OF assms that] show ?thesis
      by (simp add: validate_route_def carried_out_def)
  next
    case (Some j)
    then obtain i where i: "i \<in> set (ns_interfaces s)" "j = set_metric ms i" "ni_index i = nr_index r"
      using find_by_key [OF d(2)] by auto
    with snapshot_okD(5,8) [OF assms that] Some show ?thesis
      by (simp add: validate_route_def carried_out_def reroute_def)
  qed
  have c: "validate_connected (carried_out ms s) (set_metric ms i) = Inr ()"
    if "i \<in> set (ns_interfaces s)" "ni_connected i" for i
    using snapshot_okD(4) [OF assms that]
    by (simp add: validate_connected_def carried_out_def filter_map comp_def)
  from r c d snapshot_okD(6,7) [OF assms] snapshot_okD(3,9) [OF assms] show ?thesis
    unfolding snapshot_ok_def snapshot_validate_def
    by (auto simp: result_simps validate_interfaces_ok carried_out_def)
qed

lemma carried_out_interface:
  assumes "snapshot_ok s" "snapshot_interface s u = Inr i"
  shows "snapshot_interface (carried_out ms s) u = Inr (set_metric ms i)"
  using assms carried_out_ok [OF assms(1), of ms]
  by (auto simp: snapshot_interface_Inr) (simp add: carried_out_def)

subsection \<open>The plan\<close>

lemma plan_Inr:
  assumes "plan s p managed = Inr ms"
  obtains i d where "snapshot_ok s" "snapshot_interface s p = Inr i" "ni_connected i"
    "ni_default_route i = Some d" "d + 55 \<le> 2 ^ 32 - 1"
    "ms = map (planned_metric p (d + 5)) (affected s p managed)"
    "\<forall>j \<in> set (affected s p managed). metric_matches (metric_of j) j"
    "\<forall>r \<in> set (ns_routes s). (\<exists>j \<in> set (affected s p managed). ni_index j = nr_index r) \<or> d + 5 < route_total r"
proof -
  obtain i d where i: "snapshot_ok s" "snapshot_interface s p = Inr i" "ni_connected i" "ni_default_route i = Some d"
    using assms by (auto simp: plan_def result_simps Let_def snapshot_ok_def)
  moreover have "ms = map (planned_metric p (d + 5)) (affected s p managed)" "d + 55 \<le> 2 ^ 32 - 1"
      "\<forall>j \<in> set (affected s p managed). metric_matches (metric_of j) j"
      "\<forall>r \<in> set (ns_routes s). (\<exists>j \<in> set (affected s p managed). ni_index j = nr_index r) \<or> d + 5 < route_total r"
    using assms i by (auto simp: plan_def result_simps Let_def list_ex_iff list_all_iff not_le snapshot_ok_def)
  ultimately show ?thesis using that by blast
qed

lemma affected_distinct: "snapshot_ok s \<Longrightarrow> distinct (map ni_id (affected s p managed))"
  using snapshot_okD(1) by (auto simp: affected_def distinct_map_filter)

lemma set_metric_affected:
  assumes "snapshot_ok s" "j \<in> set (affected s p managed)"
  shows "set_metric (map (planned_metric p n) (affected s p managed)) j =
    j\<lparr>ni_automatic := False, ni_metric := (if ni_id j = p then 5 else n + 50),
      ni_saved := Some (if ni_id j = p then 5 else n + 50)\<rparr>"
proof -
  let ?ms = "map (planned_metric p n) (affected s p managed)"
  have d: "distinct (map mt_id ?ms)"
    using affected_distinct [OF assms(1)] by (simp add: comp_def planned_metric_def)
  have "find (\<lambda>m. mt_id m = ni_id j) ?ms = Some (planned_metric p n j)"
    unfolding find_by_key [OF d] using assms(2) by (simp add: planned_metric_def)
  then show ?thesis by (simp add: set_metric_def planned_metric_def)
qed

lemma affected_routes:
  assumes "snapshot_ok s" "r \<in> set (ns_routes s)" "j \<in> set (ns_interfaces s)" "ni_index j = nr_index r"
  shows "j \<in> set (affected s p managed)"
proof -
  have "ni_connected j" using snapshot_okD(5) [OF assms] by simp
  with snapshot_okD(4) [OF assms(1,3)]
  have "ni_default_route j = min_of (map nr_route_metric (filter (\<lambda>r. nr_index r = ni_index j) (ns_routes s)))"
    by simp
  moreover have "filter (\<lambda>r. nr_index r = ni_index j) (ns_routes s) \<noteq> []"
    using assms(2,4) by (auto simp: filter_empty_conv)
  ultimately have "ni_default_route j \<noteq> None" by simp
  with assms(3) show ?thesis by (simp add: affected_def)
qed

lemma plan_routes_after:
  assumes "plan s p managed = Inr ms" "snapshot_interface s p = Inr i" "ni_default_route i = Some d"
    and "r \<in> set (ns_routes (carried_out ms s))"
  shows "if nr_index r = ni_index i then route_total r = nr_route_metric r + 5 else d + 5 < route_total r"
proof -
  from assms(1) obtain i' d' where p: "snapshot_ok s" "snapshot_interface s p = Inr i'" "ni_connected i'"
    "ni_default_route i' = Some d'" "ms = map (planned_metric p (d' + 5)) (affected s p managed)"
    "\<forall>r \<in> set (ns_routes s). (\<exists>j \<in> set (affected s p managed). ni_index j = nr_index r) \<or> d' + 5 < route_total r"
    by (rule plan_Inr) blast
  have same: "i' = i" "d' = d" using p assms(2,3) by simp_all
  have i: "i \<in> set (ns_interfaces s)" "ni_id i = p"
    using p(1,2) same by (simp_all add: snapshot_interface_Inr)
  let ?is = "map (set_metric ms) (ns_interfaces s)"
  have dist: "distinct (map ni_index ?is)"
    using snapshot_okD(2) [OF p(1)] by (simp add: comp_def)
  obtain r0 where r0: "r0 \<in> set (ns_routes s)" "r = reroute ?is r0"
    using assms(4) by (auto simp: carried_out_def)
  show ?thesis
  proof (cases "find (\<lambda>j. ni_index j = nr_index r0) ?is")
    case None
    then have none: "nr_index r0 \<notin> ni_index ` set (ns_interfaces s)"
      by (auto simp: find_None_iff)
    with i have "nr_index r0 \<noteq> ni_index i" by auto
    moreover have "d + 5 < route_total r0"
      using bspec [OF p(6) r0(1)] none same unfolding affected_def by force
    ultimately show ?thesis using None r0(2) by (simp add: reroute_def)
  next
    case (Some j')
    then obtain j where j: "j \<in> set (ns_interfaces s)" "j' = set_metric ms j" "ni_index j = nr_index r0"
      using find_by_key [OF dist] by auto
    have aff: "j \<in> set (affected s p managed)"
      using affected_routes [OF p(1) r0(1) j(1) j(3)] .
    have m: "ni_metric j' = (if ni_id j = p then 5 else d + 55)"
      using set_metric_affected [OF p(1) aff, of "d + 5"] by (simp add: j(2) p(5) same)
    have "ni_id j = p \<longleftrightarrow> nr_index r0 = ni_index i"
      using interface_of_id [OF p(1) j(1) i(1)] interface_at_index [OF p(1) j(1) i(1)] i(2) j(3) by auto
    with m Some show ?thesis
      by (auto simp: r0(2) reroute_def route_total_def)
  qed
qed

lemma plan_default:
  assumes "plan s p managed = Inr ms" "snapshot_interface s p = Inr i"
  shows "is_default (carried_out ms s) (set_metric ms i)"
proof -
  from assms(1) obtain i' d where p: "snapshot_ok s" "snapshot_interface s p = Inr i'" "ni_connected i'"
    "ni_default_route i' = Some d"
    by (rule plan_Inr) blast
  have same: "i' = i" using p(2) assms(2) by simp
  note p = p [unfolded same]
  have i: "i \<in> set (ns_interfaces s)" "ni_id i = p" using p(1,2) by (simp_all add: snapshot_interface_Inr)
  let ?t = "carried_out ms s"
  note after = plan_routes_after [OF assms p(4)]
  have "min_of (map nr_route_metric (filter (\<lambda>r. nr_index r = ni_index i) (ns_routes s))) = Some d"
    using snapshot_okD(4) [OF p(1) i(1) p(3)] p(4) by simp
  from min_of_Some [OF this] obtain r0 where r0: "r0 \<in> set (ns_routes s)" "nr_index r0 = ni_index i" "nr_route_metric r0 = d"
    by auto
  define r1 where "r1 = reroute (map (set_metric ms) (ns_interfaces s)) r0"
  have r1: "r1 \<in> set (ns_routes ?t)" "nr_index r1 = ni_index i" "nr_route_metric r1 = d"
    using r0 by (simp_all add: r1_def carried_out_def)
  have t1: "route_total r1 = d + 5"
    using after [OF r1(1)] r1(2,3) by simp
  obtain b where b: "min_by_key route_total (ns_routes ?t) = Some b"
    using r1(1) by (cases "min_by_key route_total (ns_routes ?t)") auto
  note bm = min_by_key_Some [OF b]
  have le: "route_total b \<le> d + 5" using bm r1(1) t1 by force
  have "nr_index b = ni_index i"
    using after [of b] bm le by (cases "nr_index b = ni_index i") auto
  moreover have "\<not> list_ex (\<lambda>x. nr_index x \<noteq> ni_index i \<and> route_total x \<le> route_total b) (ns_routes ?t)"
    using after le by (force simp: list_ex_iff)
  ultimately show ?thesis
    using b p(3) by (simp add: is_default_def)
qed

lemma carried_out_matches:
  assumes "snapshot_ok s" "distinct (map mt_id ms)" "m \<in> set ms" "\<not> mt_automatic m"
    and "snapshot_interface s (mt_id m) = Inr i"
  shows "metric_matches m (set_metric ms i)"
proof -
  have "ni_id i = mt_id m" using assms(1,5) by (simp add: snapshot_interface_Inr)
  then have "find (\<lambda>m. mt_id m = ni_id i) ms = Some m"
    using find_by_key [OF assms(2)] assms(3) by simp
  then show ?thesis
    using assms(4) \<open>ni_id i = mt_id m\<close> by (simp add: set_metric_def metric_matches_def)
qed

lemma plan_metrics:
  assumes "plan s p managed = Inr ms"
  shows "snapshot_ok s" "distinct (map mt_id ms)"
    "m \<in> set ms \<Longrightarrow> \<not> mt_automatic m \<and> 0 < mt_metric m \<and> mt_id m \<noteq> 0"
    "m \<in> set ms \<Longrightarrow> \<exists>i \<in> set (affected s p managed). mt_id m = ni_id i \<and> metric_matches (metric_of i) i"
    "mt_id ` set ms = ni_id ` set (affected s p managed)" "length ms \<le> inventory_limit" "ms \<noteq> []"
proof -
  from assms obtain i d where p: "snapshot_ok s" "snapshot_interface s p = Inr i"
    "ms = map (planned_metric p (d + 5)) (affected s p managed)"
    "\<forall>j \<in> set (affected s p managed). metric_matches (metric_of j) j"
    by (rule plan_Inr) blast
  show "snapshot_ok s" by (rule p(1))
  show "distinct (map mt_id ms)"
    using affected_distinct [OF p(1)] by (simp add: p(3) comp_def planned_metric_def)
  show "m \<in> set ms \<Longrightarrow> \<not> mt_automatic m \<and> 0 < mt_metric m \<and> mt_id m \<noteq> 0"
    using snapshot_okD(3) [OF p(1)] by (auto simp: p(3) planned_metric_def affected_def)
  show "m \<in> set ms \<Longrightarrow> \<exists>i \<in> set (affected s p managed). mt_id m = ni_id i \<and> metric_matches (metric_of i) i"
    using p(4) by (auto simp: p(3) planned_metric_def)
  show "mt_id ` set ms = ni_id ` set (affected s p managed)"
    by (simp add: p(3) planned_metric_def image_image)
  have "length (affected s p managed) \<le> length (ns_interfaces s)"
    unfolding affected_def by (rule length_filter_le)
  then show "length ms \<le> inventory_limit"
    using snapshot_okD(6) [OF p(1)] by (simp add: p(3))
  show "ms \<noteq> []"
    using p(1,2) by (auto simp: p(3) affected_def filter_empty_conv snapshot_interface_Inr)
qed

lemma plan_verified:
  assumes "plan s p managed = Inr ms"
    and "rq_preferred rq = Some p" "set (rq_changes rq) \<subseteq> set ms"
    and "\<And>m i. m \<in> set (rq_changes rq) \<Longrightarrow> snapshot_interface s (mt_id m) = Inr i \<Longrightarrow>
      \<exists>e. snapshot_interface (rq_expected rq) (mt_id m) = Inr e \<and> ni_index e = ni_index i \<and> ni_kind e = ni_kind i"
  shows "verify_after rq (carried_out ms s) = Inr ()"
proof -
  note pm = plan_metrics [OF assms(1)]
  from assms(1) obtain i where i: "snapshot_interface s p = Inr i" by (rule plan_Inr)
  have "snapshot_validate (carried_out ms s) = Inr ()"
    using carried_out_ok [OF pm(1)] by (simp add: snapshot_ok_def)
  moreover have "verify_change rq (carried_out ms s) m = Inr ()" if m: "m \<in> set (rq_changes rq)" for m
  proof -
    have ms: "m \<in> set ms" using m assms(3) by blast
    from pm(4) [OF ms] obtain j where j: "j \<in> set (ns_interfaces s)" "mt_id m = ni_id j"
      by (auto simp: affected_def)
    then have sj: "snapshot_interface s (mt_id m) = Inr j"
      by (simp add: snapshot_interface_Inr [OF pm(1)])
    obtain e where e: "snapshot_interface (rq_expected rq) (mt_id m) = Inr e" "ni_index e = ni_index j" "ni_kind e = ni_kind j"
      using assms(4) [OF m sj] by blast
    have "metric_matches m (set_metric ms j)"
      using carried_out_matches [OF pm(1,2) ms _ sj] pm(3) [OF ms] by simp
    with e carried_out_interface [OF pm(1) sj, of ms] show ?thesis
      by (simp add: verify_change_def)
  qed
  ultimately show ?thesis
    using assms(2) carried_out_interface [OF pm(1) i, of ms] plan_default [OF assms(1) i]
    by (simp add: verify_after_def result_simps)
qed

subsection \<open>Requests that validate\<close>

lemma matches_self: "metric_matches m i \<Longrightarrow> metric_matches (metric_of i) i"
  by (auto simp: metric_matches_def metric_of_def split: if_splits)

lemma validate_self:
  assumes "snapshot_ok s" "validate_metrics (rq_changes rq) True = Inr ()" "rq_expected rq = s"
    and "\<And>m. m \<in> set (rq_changes rq) \<Longrightarrow> \<exists>i \<in> set (ns_interfaces s). ni_id i = mt_id m \<and> metric_matches (metric_of i) i"
    and "\<And>p. rq_preferred rq = Some p \<Longrightarrow> plan s p (map mt_id (rq_changes rq)) = Inr (rq_changes rq)"
  shows "validate_against rq s = Inr ()"
proof -
  have "validate_change s rq m = Inr ()" if m: "m \<in> set (rq_changes rq)" for m
  proof -
    obtain i where "i \<in> set (ns_interfaces s)" "ni_id i = mt_id m" "metric_matches (metric_of i) i"
      using assms(4) [OF m] by blast
    then show ?thesis
      using snapshot_interface_Inr [OF assms(1), of "mt_id m" i] assms(3)
      by (simp add: validate_change_def)
  qed
  with assms(1-3,5) show ?thesis
    by (auto simp: validate_against_def result_simps snapshot_ok_def split: option.splits)
qed

lemma affected_again:
  assumes "snapshot_ok s" "set ids = ni_id ` set (affected s p managed)" 
  shows "affected s p ids = affected s p managed"
proof -
  have "ni_id i = p \<or> ni_default_route i \<noteq> None \<or> ni_id i \<in> set ids \<longleftrightarrow>
      ni_id i = p \<or> ni_default_route i \<noteq> None \<or> ni_id i \<in> set managed" if "i \<in> set (ns_interfaces s)" for i
    using that interface_of_id [OF assms(1) that] unfolding assms(2)
    by (auto simp: affected_def)
  then show ?thesis
    unfolding affected_def by (intro filter_cong) auto
qed

lemma plan_again:
  assumes "plan s p managed = Inr ms"
  shows "plan s p (map mt_id ms) = Inr ms"
proof -
  note pm = plan_metrics [OF assms]
  have "affected s p (map mt_id ms) = affected s p managed"
    using pm(1,5) by (intro affected_again) simp_all
  with assms show ?thesis by (simp add: plan_def)
qed

lemma plan_request_valid:
  assumes "plan s p managed = Inr ms"
  shows "validate_against \<lparr>rq_expected = s, rq_changes = ms, rq_preferred = Some p\<rparr> s = Inr ()"
proof (rule validate_self)
  note pm = plan_metrics [OF assms]
  show "snapshot_ok s" by (rule pm(1))
  show "validate_metrics (rq_changes \<lparr>rq_expected = s, rq_changes = ms, rq_preferred = Some p\<rparr>) True = Inr ()"
    using pm(2,3,6,7) by (auto simp: result_simps)
  show "\<exists>i\<in>set (ns_interfaces s). ni_id i = mt_id m \<and> metric_matches (metric_of i) i"
    if "m \<in> set (rq_changes \<lparr>rq_expected = s, rq_changes = ms, rq_preferred = Some p\<rparr>)" for m
    using pm(4) [of m] that by (force simp: affected_def)
qed (use plan_again [OF assms] in auto)

lemma prepare_Inr:
  assumes "prepare s p existing = Inr (j, rq)"
  shows "\<exists>managed. plan s p managed = Inr (rq_changes rq)" "rq_expected rq = s" "rq_preferred rq = Some p"
    "journal_validate j = Inr ()"
  using assms by (auto simp: prepare_def result_simps Let_def split: option.splits)

lemma restoration_Inr:
  assumes "restoration j s = Inr (Some rq)"
  shows "validate_against rq s = Inr ()"
proof (rule validate_self)
  have k: "check_known j s = Inr ()"
    and rq: "rq = \<lparr>rq_expected = s,
      rq_changes = filter (\<lambda>m. \<not> metric_matches m (projr (snapshot_interface s (mt_id m)))) (jn_original j),
      rq_preferred = None\<rparr>" "rq_changes rq \<noteq> []"
    using assms by (auto simp: restoration_def result_simps Let_def split: if_splits)
  show ok: "snapshot_ok s"
    using k by (simp add: check_known_def result_simps snapshot_ok_def)
  have "validate_metrics (jn_original j) True = Inr ()"
    using k by (simp add: check_known_def journal_validate_def result_simps)
  with rq show "validate_metrics (rq_changes rq) True = Inr ()"
    by (auto simp: result_simps distinct_map_filter intro: order_trans [OF length_filter_le])
  show "rq_expected rq = s" by (simp add: rq)
  show "\<exists>i\<in>set (ns_interfaces s). ni_id i = mt_id m \<and> metric_matches (metric_of i) i"
    if m: "m \<in> set (rq_changes rq)" for m
  proof -
    have "m \<in> set (jn_original j)" using m by (auto simp: rq(1))
    with k have "known_interface j s m = Inr ()"
      by (simp add: check_known_def result_simps)
    then obtain i m' where "snapshot_interface s (mt_id m) = Inr i" "metric_matches m' i"
      by (auto simp: known_interface_def result_simps list_ex_iff)
    with matches_self show ?thesis by (auto simp: snapshot_interface_Inr [OF ok])
  qed
  show "plan s p (map mt_id (rq_changes rq)) = Inr (rq_changes rq)" if "rq_preferred rq = Some p" for p
    using that by (simp add: rq(1))
qed

subsection \<open>The journal\<close>

lemma upsert_ids: "mt_id ` set (upsert ms m) = insert (mt_id m) (mt_id ` set ms)"
  by (auto simp: upsert_def)

lemma add_original_keeps:
  "fold_r (add_original s) cs j = Inr j' \<Longrightarrow>
     (\<exists>extra. jn_original j' = jn_original j @ extra \<and>
        set extra \<subseteq> metric_of ` set (ns_interfaces s)) \<and>
     mt_id ` set cs \<subseteq> mt_id ` set (jn_original j') \<and>
     jn_applied j' = jn_applied j \<and> jn_extra j' = jn_extra j"
proof (induction cs arbitrary: j)
  case Nil
  then show ?case by simp
next
  case (Cons c cs)
  obtain i where i: "find (\<lambda>i. ni_id i = mt_id c) (ns_interfaces s) = Some i"
    and r: "fold_r (add_original s) cs
      (if list_ex (\<lambda>x. mt_id x = mt_id c) (jn_original j) then j
       else j\<lparr>jn_original := jn_original j @ [metric_of i]\<rparr>) = Inr j'"
    using Cons.prems by (auto simp: result_simps add_original_def [of s c] snapshot_interface_def)
  have m: "i \<in> set (ns_interfaces s)" "mt_id (metric_of i) = mt_id c"
    using find_SomeD [OF i] by (simp_all add: metric_of_def)
  show ?case
  proof (cases "list_ex (\<lambda>x. mt_id x = mt_id c) (jn_original j)")
    case True
    then have "mt_id c \<in> mt_id ` set (jn_original j)" by (auto simp: list_ex_iff image_iff eq_commute)
    with Cons.IH [OF r] True show ?thesis by auto
  next
    case False
    with Cons.IH [OF r] obtain extra where e: "jn_original j' = jn_original j @ metric_of i # extra"
        "set extra \<subseteq> metric_of ` set (ns_interfaces s)" "mt_id ` set cs \<subseteq> mt_id ` set (jn_original j')"
        "jn_applied j' = jn_applied j" "jn_extra j' = jn_extra j"
      by auto
    have "mt_id c \<in> mt_id ` set (jn_original j')"
      unfolding e(1) by (rule rev_image_eqI [of "metric_of i"]) (simp_all add: m)
    with e m show ?thesis by auto
  qed
qed

lemma record_change_keeps:
  "fold_r (record_change s) cs j = Inr j' \<Longrightarrow> jn_original j' = jn_original j \<and> jn_extra j' = jn_extra j"
  by (induction cs arbitrary: j) (auto simp: result_simps record_change_def)

lemma record_change_applied:
  "fold_r (record_change s) cs j = Inr j' \<Longrightarrow> distinct (map mt_id cs) \<Longrightarrow>
     set (jn_applied j') = {m \<in> set (jn_applied j). mt_id m \<notin> mt_id ` set cs} \<union> set cs"
proof (induction cs arbitrary: j)
  case Nil
  then show ?case by simp
next
  case (Cons c cs)
  obtain i where r: "fold_r (record_change s) cs
      (j\<lparr>jn_previous := upsert (jn_previous j) (metric_of i), jn_applied := upsert (jn_applied j) c\<rparr>) = Inr j'"
    using Cons.prems(1) by (auto simp: result_simps record_change_def [of s c])
  from Cons.IH [OF r] Cons.prems(2) show ?case
    by (auto simp: upsert_def image_iff)
qed

end
