(* ===== verification/Priority_Apply.thy ===== *)
theory Priority_Apply
  imports Priority_Facts
begin

text \<open>
  The application of a request to the settings of the system, with a log of the writes: what is
  written, what a receipt may claim, and that an undisturbed application reaches its goal. What the
  client needs of settings that only it changes is the locale \<open>settings_store\<close>, interpreted on the
  in-memory settings of the agent's tests.
\<close>

subsection \<open>Writes\<close>

definition logged :: "'s settings_ops \<Rightarrow> ('s \<times> metric list) settings_ops" where
  "logged ops =
     \<lparr>st_read = (\<lambda>(s, ws). case st_read ops s of (r, s') \<Rightarrow> (r, s', ws)),
      st_write = (\<lambda>m (s, ws). case st_write ops m s of (r, s') \<Rightarrow> (r, s', ws @ [m]))\<rparr>"

lemma logged_read [simp]:
  "st_read (logged ops) (s, ws) = (r, t) \<longleftrightarrow> (\<exists>s'. t = (s', ws) \<and> st_read ops s = (r, s'))"
  by (auto simp: logged_def split: prod.splits)

lemma logged_write [simp]:
  "st_write (logged ops) m (s, ws) = (r, t) \<longleftrightarrow> (\<exists>s'. t = (s', ws @ [m]) \<and> st_write ops m s = (r, s'))"
  by (auto simp: logged_def split: prod.splits)

text \<open>Actions that write nothing.\<close>

definition silent :: "('s \<times> metric list, 'e, 'a) action \<Rightarrow> bool" where
  "silent m \<longleftrightarrow> (\<forall>s ws r s' ws'. m (s, ws) = (r, s', ws') \<longrightarrow> ws' = ws)"

named_theorems silent_intros

lemma silentD: "silent m \<Longrightarrow> m (s, ws) = (r, s', ws') \<Longrightarrow> ws' = ws"
  by (auto simp: silent_def)

lemma silent_bind [silent_intros]:
  "silent m \<Longrightarrow> (\<And>x. silent (f x)) \<Longrightarrow> silent (sbind m f)"
  unfolding silent_def sbind_def by (fastforce split: prod.splits sum.splits)

lemma silent_pure [silent_intros]: "silent (spure r)"
  by (simp add: silent_def)

lemma silent_get [silent_intros]: "silent (sget f)"
  by (simp add: silent_def)

lemma silent_read [silent_intros]: "silent (st_read (logged ops))"
  by (simp add: silent_def)

lemma silent_read_valid [silent_intros]: "silent (read_valid (logged ops))"
  unfolding read_valid_def by (intro silent_intros)

lemma silent_confirm: "silent (confirm_changes (logged ops) alive rq)"
  unfolding confirm_changes_def by (intro silent_intros)

lemma revert_one_writes:
  assumes "revert_one (logged ops) changes i (s, ws) = (r, s', ws')"
  shows "ws' = ws \<or> ws' = ws @ [metric_of i]"
proof -
  have *: "ws' = ws" if "sbind (read_valid (logged ops)) f (s, ws) = (r, s', ws')"
    "\<And>x s1 ws1. f x (s1, ws1) = (r, s', ws') \<Longrightarrow> ws' = ws1" for f
    using that silentD [OF silent_read_valid, of ops s ws]
    by (auto simp: sbind_def split: prod.splits sum.splits)
  from assms silentD [OF silent_read_valid, of ops s ws] show ?thesis
    unfolding revert_one_def
    by (auto simp: sbind_def [of "read_valid (logged ops)"] sbind_def [of "spure _"] Let_def
        split: prod.splits sum.splits if_splits)
qed

lemma revert_all_writes:
  "revert_all (logged ops) changes is (s, ws) = (es, s', ws') \<Longrightarrow>
     \<exists>restores. ws' = ws @ restores \<and> set restores \<subseteq> metric_of ` set is"
proof (induction "is" arbitrary: s ws es)
  case Nil
  then show ?case by simp
next
  case (Cons i "is")
  obtain r s1 ws1 where o: "revert_one (logged ops) changes i (s, ws) = (r, s1, ws1)"
    by (metis prod_cases3)
  obtain es' where r: "revert_all (logged ops) changes is (s1, ws1) = (es', s', ws')"
    using Cons.prems o by (auto split: sum.splits prod.splits)
  from Cons.IH [OF r] revert_one_writes [OF o] show ?case
    by auto
qed

text \<open>The loop: it touches a prefix of the changes, and has written exactly those.\<close>

definition originals :: "net_snapshot \<Rightarrow> metric list \<Rightarrow> net_interface list" where
  "originals before ms = map (\<lambda>m. projr (snapshot_interface before (mt_id m))) ms"

lemma apply_changes_Cons:
  assumes "apply_changes (logged ops) alive before (m # ms) touched (s, ws) = (r, touched', s', ws')"
  obtains e where "r = Inl e" "touched' = touched" "ws' = ws"
  | e i where "r = Inl e" "snapshot_interface before (mt_id m) = Inr i" "touched' = touched @ [i]" "ws' = ws @ [m]"
  | i s1 where "snapshot_interface before (mt_id m) = Inr i"
      "apply_changes (logged ops) alive before ms (touched @ [i]) (s1, ws @ [m]) = (r, touched', s', ws')"
proof -
  define guard where "guard = sbind (spure (ensure (alive (s, ws)) Window_closed)) (\<lambda>_.
           sbind (spure (snapshot_interface before (mt_id m))) (\<lambda>original.
           sbind (read_valid (logged ops)) (\<lambda>current.
           sbind (spure (snapshot_interface current (mt_id m))) (\<lambda>actual.
           sbind (spure (ensure (ni_index actual = ni_index original \<and> ni_kind actual = ni_kind original \<and>
                                 metric_matches (metric_of original) actual) Priority_changed)) (\<lambda>_.
           sbind (sget alive) (\<lambda>still.
           sbind (spure (ensure still Window_closed)) (\<lambda>_. spure (Inr original))))))))"
  have "silent guard" unfolding guard_def by (intro silent_intros)
  obtain g s1 ws1 where g: "guard (s, ws) = (g, s1, ws1)" by (metis prod_cases3)
  then have ws1: "ws1 = ws" using silentD [OF \<open>silent guard\<close>] by blast
  show ?thesis
  proof (cases g)
    case (Inl e)
    with assms g ws1 have "r = Inl e" "touched' = touched" "ws' = ws"
      by (auto simp: guard_def)
    then show ?thesis by (rule that(1))
  next
    case (Inr i)
    then have i: "snapshot_interface before (mt_id m) = Inr i"
      using g by (auto simp: guard_def result_simps)
    obtain w s2 where w: "st_write ops m s1 = (w, s2)" by force
    have e: "apply_changes (logged ops) alive before (m # ms) touched (s, ws)
      = (case st_write (logged ops) m (s1, ws) of
             (Inl e, s2) \<Rightarrow> (Inl e, touched @ [i], s2)
           | (Inr _, s2) \<Rightarrow> apply_changes (logged ops) alive before ms (touched @ [i]) s2)"
      using g [unfolded guard_def] Inr ws1 by simp
    have "st_write (logged ops) m (s1, ws) = (w, s2, ws @ [m])" by (simp add: w)
    with e assms i that(2,3) show ?thesis by (cases w) auto
  qed
qed

lemma apply_changes_writes:
  "apply_changes (logged ops) alive before ms touched (s, ws) = (r, touched', s', ws') \<Longrightarrow>
     \<exists>k. touched' = touched @ originals before (take k ms) \<and> ws' = ws @ take k ms \<and>
       (\<forall>m \<in> set (take k ms). \<exists>i. snapshot_interface before (mt_id m) = Inr i) \<and>
       (r = Inr () \<longrightarrow> length ms \<le> k)"
proof (induction ms arbitrary: touched s ws)
  case Nil
  then show ?case by (simp add: originals_def)
next
  case (Cons m ms)
  from Cons.prems show ?case
  proof (cases rule: apply_changes_Cons)
    case (1 e)
    then show ?thesis by (intro exI [where x = 0]) (simp add: originals_def)
  next
    case (2 e i)
    then show ?thesis by (intro exI [where x = 1]) (simp add: originals_def)
  next
    case (3 i s1)
    from Cons.IH [OF 3(2)] obtain k where
      k: "touched' = touched @ [i] @ originals before (take k ms)" "ws' = ws @ [m] @ take k ms"
        "\<forall>m \<in> set (take k ms). \<exists>i. snapshot_interface before (mt_id m) = Inr i"
        "r = Inr () \<longrightarrow> length ms \<le> k"
      by auto
    with 3(1) show ?thesis by (intro exI [where x = "Suc k"]) (simp add: originals_def)
  qed
qed

subsection \<open>What a receipt claims\<close>

text \<open>
  The log is a prefix of the requested changes and then original metrics of touched interfaces. A
  success is one the last read verified, of all changes and nothing else; a confirmed rollback is
  one where the last read shows every touched interface with its original metric.
\<close>

definition receipt_truthful ::
    "'s settings_ops \<Rightarrow> priority_request \<Rightarrow> 's \<Rightarrow> priority_receipt \<Rightarrow> 's \<Rightarrow> metric list \<Rightarrow> bool" where
  "receipt_truthful ops rq s rc s' ws \<longleftrightarrow>
     (\<exists>before s0 k restores.
        st_read ops s = (Inr before, s0) \<and> validate_against rq before = Inr () \<and>
        ws = take k (ordered_changes rq) @ restores \<and>
        set restores \<subseteq> metric_of ` set (originals before (take k (ordered_changes rq))) \<and>
        (if or_success (rc_result rc)
         then ws = ordered_changes rq \<and> verify_after rq (or_snapshot (rc_result rc)) = Inr () \<and>
           (\<exists>s1. st_read ops s1 = (Inr (or_snapshot (rc_result rc)), s'))
         else if or_rollback_confirmed (rc_result rc)
         then snapshot_ok (or_snapshot (rc_result rc)) \<and>
           (\<exists>s1. st_read ops s1 = (Inr (or_snapshot (rc_result rc)), s')) \<and>
           list_all (restored (or_snapshot (rc_result rc))) (originals before (take k (ordered_changes rq)))
         else True))"

lemma read_valid_Inr:
  "read_valid (logged ops) (s, ws) = (Inr now, t) \<longleftrightarrow>
     (\<exists>s'. t = (s', ws) \<and> st_read ops s = (Inr now, s') \<and> snapshot_ok now)"
  by (auto simp: read_valid_def result_simps snapshot_ok_def)

lemma revert_facts:
  assumes "revert (logged ops) rc (s, ws) = (rc', s', ws')"
  shows "\<exists>restores. ws' = ws @ restores \<and> set restores \<subseteq> metric_of ` set (rc_original rc)"
    "\<not> or_success (rc_result rc')"
    "or_rollback_confirmed (rc_result rc') \<Longrightarrow>
       snapshot_ok (or_snapshot (rc_result rc')) \<and>
       (\<exists>s1. st_read ops s1 = (Inr (or_snapshot (rc_result rc')), s')) \<and>
       list_all (restored (or_snapshot (rc_result rc'))) (rc_original rc)"
proof -
  obtain es s1 ws1 where a: "revert_all (logged ops) (rc_changes rc) (rev (rc_original rc)) (s, ws) = (es, s1, ws1)"
    by (metis prod_cases3)
  obtain r s2 ws2 where v: "read_valid (logged ops) (s1, ws1) = (r, s2, ws2)"
    by (metis prod_cases3)
  have ws2: "ws2 = ws1" using silentD [OF silent_read_valid v] .
  have e: "s' = s2" "ws' = ws2" "\<not> or_success (rc_result rc')"
    "or_rollback_confirmed (rc_result rc') \<Longrightarrow> \<exists>now. r = Inr now \<and> or_snapshot (rc_result rc') = now \<and>
       list_all (restored now) (rc_original rc)"
    using assms a v by (auto simp: revert_def Let_def split: sum.splits if_splits)
  show "\<exists>restores. ws' = ws @ restores \<and> set restores \<subseteq> metric_of ` set (rc_original rc)"
    using revert_all_writes [OF a] e ws2 by auto
  show "\<not> or_success (rc_result rc')" by (rule e(3))
  show "snapshot_ok (or_snapshot (rc_result rc')) \<and>
       (\<exists>s1. st_read ops s1 = (Inr (or_snapshot (rc_result rc')), s')) \<and>
       list_all (restored (or_snapshot (rc_result rc'))) (rc_original rc)"
    if "or_rollback_confirmed (rc_result rc')"
    using e(4) [OF that] v e(1) by (auto simp: read_valid_Inr)
qed

lemma set_take_ordered: "set (take k (ordered_changes rq)) \<subseteq> set (rq_changes rq)"
  using set_take_subset [of k "ordered_changes rq"] by (simp add: ordered_changes_def)

text \<open>
  C4: whatever the settings do, an application that is refused has written nothing, and a receipt is
  truthful: only requested changes are written, each at most once and in order, and then only
  original metrics of interfaces it touched; success means that the last read verified all of them;
  a confirmed rollback means that the last read shows every touched interface as it was.
\<close>

theorem apply_truthful:
  "case priority_apply (logged ops) alive rq (s, []) of
     (Inl e, s', ws) \<Rightarrow> ws = []
   | (Inr rc, s', ws) \<Rightarrow> receipt_truthful ops rq s rc s' ws"
proof -
  obtain b s0 where b: "st_read ops s = (b, s0)" by force
  then have lb: "st_read (logged ops) (s, []) = (b, s0, [])" by simp
  show ?thesis
  proof (cases b)
    case (Inl e)
    then show ?thesis by (simp add: priority_apply_def sbind_def lb)
  next
    case (Inr before)
    show ?thesis
    proof (cases "validate_against rq before")
      case (Inl e)
      with Inr show ?thesis by (simp add: priority_apply_def sbind_def lb)
    next
      case valid: (Inr u)
      obtain r touched s1 ws1 where a: "apply_changes (logged ops) alive before (ordered_changes rq) [] (s0, [])
          = (r, touched, s1, ws1)"
        by (metis prod_cases4)
      from apply_changes_writes [OF a] obtain k where k:
        "touched = originals before (take k (ordered_changes rq))" "ws1 = take k (ordered_changes rq)"
        "r = Inr () \<longrightarrow> length (ordered_changes rq) \<le> k"
        by auto
      define base where "base = \<lparr>or_snapshot = before, or_success = False, or_detail = [],
                    or_rollback_confirmed = False\<rparr>"
      have run: "priority_apply (logged ops) alive rq (s, []) =
         (case r of
              Inl e \<Rightarrow> (case revert (logged ops) \<lparr>rc_result = base\<lparr>or_detail := dc_text e\<rparr>,
                             rc_original = touched, rc_changes = rq_changes rq\<rparr> (s1, ws1) of (rc, s3) \<Rightarrow> (Inr rc, s3))
            | Inr _ \<Rightarrow>
                (case confirm_changes (logged ops) alive rq (s1, ws1) of
                   (Inl e, s2) \<Rightarrow> (case revert (logged ops) \<lparr>rc_result = base\<lparr>or_detail := dc_text e\<rparr>,
                             rc_original = touched, rc_changes = rq_changes rq\<rparr> s2 of (rc, s3) \<Rightarrow> (Inr rc, s3))
                 | (Inr after, s2) \<Rightarrow>
                     (Inr \<lparr>rc_result = base\<lparr>or_snapshot := after, or_success := True,
                                            or_detail := applied_text rq\<rparr>,
                           rc_original = touched, rc_changes = rq_changes rq\<rparr>, s2)))"
        using Inr valid a unfolding base_def by (simp add: priority_apply_def Let_def sbind_def lb)
      have fail: "case (case revert (logged ops) \<lparr>rc_result = base\<lparr>or_detail := dc_text e\<rparr>,
                rc_original = touched, rc_changes = rq_changes rq\<rparr> (s2, ws1) of (rc, s3) \<Rightarrow> (Inr rc, s3)) of
            (Inl e, s', ws) \<Rightarrow> ws = []
          | (Inr rc, s', ws) \<Rightarrow> receipt_truthful ops rq s rc s' ws" for e s2
      proof -
        obtain rc s3 ws3 where v: "revert (logged ops) \<lparr>rc_result = base\<lparr>or_detail := dc_text e\<rparr>,
                rc_original = touched, rc_changes = rq_changes rq\<rparr> (s2, ws1) = (rc, s3, ws3)"
          by (metis prod_cases3)
        from revert_facts [OF v] b Inr valid k(1,2) have "receipt_truthful ops rq s rc s3 ws3"
          by (auto simp: receipt_truthful_def)
        then show ?thesis by (simp add: v)
      qed
      show ?thesis
      proof (cases r)
        case (Inl e)
        then show ?thesis using fail run by simp
      next
        case (Inr u)
        obtain c s2 ws2 where c: "confirm_changes (logged ops) alive rq (s1, ws1) = (c, s2, ws2)"
          by (metis prod_cases3)
        have ws2: "ws2 = ws1" using silentD [OF silent_confirm c] .
        show ?thesis
        proof (cases c)
          case (Inl e)
          then show ?thesis using fail run c Inr ws2 by simp
        next
          case ok: (Inr after)
          have "verify_after rq after = Inr ()" "\<exists>s1. st_read ops s1 = (Inr after, s2)"
            using c ok by (auto simp: confirm_changes_def result_simps)
          moreover have "ws2 = ordered_changes rq"
            using k Inr ws2 by simp
          ultimately show ?thesis
            using run c ok Inr b \<open>b = Inr before\<close> valid k
            by (simp add: receipt_truthful_def base_def) (intro exI [where x = k]; simp)
        qed
      qed
    qed
  qed
qed

subsection \<open>Settings nobody else changes\<close>

lemma find_append: "find P (xs @ ys) = (case find P xs of None \<Rightarrow> find P ys | Some x \<Rightarrow> Some x)"
  by (induction xs) auto

lemma set_metric_append:
  "distinct (map mt_id (ms @ [m])) \<Longrightarrow> set_metric (ms @ [m]) i = set_metric [m] (set_metric ms i)"
proof (cases "mt_id m = ni_id i")
  case True
  assume "distinct (map mt_id (ms @ [m]))"
  then have "find (\<lambda>m. mt_id m = ni_id i) ms = None"
    using True by (force simp: find_None_iff)
  with True show ?thesis
    by (simp add: set_metric_def find_append)
next
  case False
  then show ?thesis
    by (simp add: set_metric_def find_append split: option.splits)
qed

lemma reroute_twice:
  assumes "map ni_index is = map ni_index js"
  shows "reroute js (reroute is r) = reroute js r"
proof -
  have "(find (\<lambda>i. ni_index i = nr_index r) is = None) = (find (\<lambda>i. ni_index i = nr_index r) js = None)"
    using arg_cong [OF assms, of set] by (force simp: find_by_key_None)
  then show ?thesis
    by (auto simp: reroute_def split: option.splits)
qed

lemma carried_out_append:
  assumes "distinct (map mt_id (ms @ [m]))"
  shows "carried_out (ms @ [m]) s = carried_out [m] (carried_out ms s)"
proof -
  let ?is = "map (set_metric ms) (ns_interfaces s)"
  have e: "map (set_metric (ms @ [m])) (ns_interfaces s) = map (set_metric [m]) ?is"
    using set_metric_append [OF assms] by simp
  have "reroute (map (set_metric [m]) ?is) (reroute ?is r) = reroute (map (set_metric [m]) ?is) r" for r
    by (rule reroute_twice) (simp add: comp_def)
  then show ?thesis
    unfolding carried_out_def e by (simp del: map_map) (simp only: map_map comp_def)
qed

lemma carried_out_Nil [simp]:
  assumes "snapshot_ok s"
  shows "carried_out [] s = s"
proof -
  have "reroute (ns_interfaces s) r = r" if "r \<in> set (ns_routes s)" for r
    using snapshot_okD(5) [OF assms that] by (cases "find (\<lambda>i. ni_index i = nr_index r) (ns_interfaces s)")
      (auto simp: reroute_def dest: find_SomeD)
  then have "map (reroute (ns_interfaces s)) (ns_routes s) = ns_routes s"
    by (simp add: map_idI)
  moreover have "set_metric [] = (\<lambda>i. i)"
    by (simp add: set_metric_def fun_eq_iff)
  ultimately show ?thesis
    by (simp add: carried_out_def)
qed

lemma carried_out_perm:
  assumes "distinct (map mt_id ms)" "set ms = set ms'" "distinct (map mt_id ms')"
  shows "carried_out ms s = carried_out ms' s"
proof -
  have "find (\<lambda>m. mt_id m = u) ms = find (\<lambda>m. mt_id m = u) ms'" for u
  proof (cases "find (\<lambda>m. mt_id m = u) ms")
    case None
    then have "find (\<lambda>m. mt_id m = u) ms' = None"
      using assms(2) by (simp add: find_by_key_None)
    with None show ?thesis by simp
  next
    case (Some m)
    then have "find (\<lambda>m. mt_id m = u) ms' = Some m"
      using assms(2) find_by_key [OF assms(1)] find_by_key [OF assms(3)] by simp
    with Some show ?thesis by simp
  qed
  then have "set_metric ms = set_metric ms'"
    by (simp add: set_metric_def fun_eq_iff)
  then show ?thesis by (simp add: carried_out_def)
qed

locale settings_store =
  fixes ops :: "'s settings_ops"
    and view :: "'s \<Rightarrow> net_snapshot"
  assumes read_view: "st_read ops s = (Inr (view s), s)"
    and write_view: "\<not> mt_automatic m \<Longrightarrow> mt_id m \<in> ni_id ` set (ns_interfaces (view s)) \<Longrightarrow>
      \<exists>s'. st_write ops m s = (Inr (), s') \<and> view s' = carried_out [m] (view s)"
begin

lemma read_valid_view: "snapshot_ok (view s) \<Longrightarrow> read_valid ops s = (Inr (view s), s)"
  by (simp add: read_valid_def read_view sbind_def snapshot_ok_def)

lemma apply_changes_all:
  assumes "snapshot_ok before" "distinct (map mt_id (ds @ ms))"
    and "\<And>m. m \<in> set ms \<Longrightarrow> \<not> mt_automatic m"
    and "\<And>m. m \<in> set ms \<Longrightarrow> \<exists>i \<in> set (ns_interfaces before). ni_id i = mt_id m \<and> metric_matches (metric_of i) i"
    and "view s = carried_out ds before"
  shows "\<exists>touched' s'. apply_changes ops (\<lambda>_. True) before ms touched s = (Inr (), touched', s') \<and>
    view s' = carried_out (ds @ ms) before"
  using assms
proof (induction ms arbitrary: ds touched s)
  case Nil
  then show ?case by simp
next
  case (Cons m ms)
  obtain i where i: "i \<in> set (ns_interfaces before)" "ni_id i = mt_id m" "metric_matches (metric_of i) i"
    using Cons.prems(4) [of m] by auto
  have si: "snapshot_interface before (mt_id m) = Inr i"
    using i(1,2) by (simp add: snapshot_interface_Inr [OF Cons.prems(1)])
  have ok: "snapshot_ok (view s)"
    using carried_out_ok [OF Cons.prems(1)] by (simp add: Cons.prems(5))
  have "find (\<lambda>m. mt_id m = ni_id i) ds = None"
    using Cons.prems(2) i(2) by (auto simp: find_by_key_None)
  then have same: "set_metric ds i = i" by (simp add: set_metric_def)
  then have si': "snapshot_interface (view s) (mt_id m) = Inr i"
    using carried_out_interface [OF Cons.prems(1) si, of ds] by (simp add: Cons.prems(5))
  then have "mt_id m \<in> ni_id ` set (ns_interfaces (view s))"
    by (force simp: snapshot_interface_Inr [OF ok])
  then obtain s1 where w: "st_write ops m s = (Inr (), s1)" "view s1 = carried_out [m] (view s)"
    using write_view [of m s] Cons.prems(3) by auto
  have v1: "view s1 = carried_out (ds @ [m]) before"
    using w(2) Cons.prems(2,5) carried_out_append [of ds m before] by simp
  have step: "apply_changes ops (\<lambda>_. True) before (m # ms) touched s
      = apply_changes ops (\<lambda>_. True) before ms (touched @ [i]) s1"
    using si si' i(3) w(1) by (simp add: sbind_def read_valid_view [OF ok])
  have "\<exists>touched' s'. apply_changes ops (\<lambda>_. True) before ms (touched @ [i]) s1 = (Inr (), touched', s') \<and>
      view s' = carried_out ((ds @ [m]) @ ms) before"
    using Cons.prems v1 by (intro Cons.IH) simp_all
  then show ?case
    by (simp only: step append.assoc append.simps)
qed

lemma apply_reaches:
  assumes valid: "validate_against rq (view s) = Inr ()" and pref: "rq_preferred rq = Some p"
  shows "\<exists>rc s'. priority_apply ops (\<lambda>_. True) rq s = (Inr rc, s') \<and> or_success (rc_result rc) \<and>
    or_snapshot (rc_result rc) = view s' \<and> view s' = carried_out (rq_changes rq) (view s) \<and>
    verify_after rq (view s') = Inr ()"
proof -
  from valid pref obtain ex where plan: "plan (view s) p (map mt_id (rq_changes rq)) = Inr ex"
    and sorted: "sort_key mt_id ex = sort_key mt_id (rq_changes rq)"
    and ms: "distinct (map mt_id (rq_changes rq))"
    and ch: "\<forall>m \<in> set (rq_changes rq). validate_change (view s) rq m = Inr ()"
    by (auto simp: validate_against_def result_simps)
  note pm = plan_metrics [OF plan]
  have set: "set ex = set (rq_changes rq)"
    using arg_cong [OF sorted, of set] by simp
  let ?or = "ordered_changes rq"
  have o: "set ?or = set (rq_changes rq)" "distinct (map mt_id ?or)"
    using ms by (auto simp: ordered_changes_def distinct_map)
  have i: "\<exists>i \<in> set (ns_interfaces (view s)). ni_id i = mt_id m \<and> metric_matches (metric_of i) i"
    if "m \<in> set ?or" for m
    using pm(4) [of m] that o(1) set by (force simp: affected_def)
  obtain touched s1 where a: "apply_changes ops (\<lambda>_. True) (view s) ?or [] s = (Inr (), touched, s1)"
    and v: "view s1 = carried_out ?or (view s)"
    using apply_changes_all [of "view s" "[]" ?or s "[]"] pm(1,3) o i set by auto
  have cex: "carried_out ?or (view s) = carried_out ex (view s)" "carried_out ?or (view s) = carried_out (rq_changes rq) (view s)"
    using o ms pm(2) set by (intro carried_out_perm; simp)+
  have "verify_after rq (carried_out ex (view s)) = Inr ()"
  proof (rule plan_verified [OF plan pref])
    show "\<exists>e. snapshot_interface (rq_expected rq) (mt_id m) = Inr e \<and> ni_index e = ni_index i \<and> ni_kind e = ni_kind i"
      if "m \<in> set (rq_changes rq)" "snapshot_interface (view s) (mt_id m) = Inr i" for m i
      using bspec [OF ch that(1)] that(2) by (auto simp: validate_change_def result_simps)
  qed (simp add: set)
  then have ver: "verify_after rq (view s1) = Inr ()" by (simp add: v cex(1))
  then have "confirm_changes ops (\<lambda>_. True) rq s1 = (Inr (view s1), s1)"
    by (simp add: confirm_changes_def sbind_def read_view)
  with a valid ver v cex(2) show ?thesis
    by (simp add: priority_apply_def sbind_def read_view Let_def)
qed

end

text \<open>The in-memory settings of the agent's tests, for any number of interfaces and routes.\<close>

definition memory_interface :: "metric \<Rightarrow> net_interface \<Rightarrow> net_interface" where
  "memory_interface m i =
     (if ni_id i = mt_id m
      then i\<lparr>ni_automatic := mt_automatic m,
             ni_metric := (if mt_automatic m then 25 else mt_metric m),
             ni_saved := (if mt_automatic m then None else Some (mt_metric m))\<rparr>
      else i)"

definition memory_ops :: "net_snapshot settings_ops" where
  "memory_ops =
     \<lparr>st_read = (\<lambda>s. (Inr s, s)),
      st_write = (\<lambda>m s. let is = map (memory_interface m) (ns_interfaces s) in
        (Inr (), \<lparr>ns_interfaces = is, ns_routes = map (reroute is) (ns_routes s)\<rparr>))\<rparr>"

interpretation memory: settings_store memory_ops "\<lambda>s. s"
proof
  fix m :: metric and s
  assume m: "\<not> mt_automatic m"
  have "memory_interface m = set_metric [m]"
    using m by (auto simp: memory_interface_def set_metric_def fun_eq_iff)
  then show "\<exists>s'. st_write memory_ops m s = (Inr (), s') \<and> s' = carried_out [m] s"
    by (simp add: memory_ops_def carried_out_def Let_def)
qed (simp add: memory_ops_def)

subsection \<open>The whole operation\<close>

text \<open>Two connected interfaces, the wired one preferred by Windows.\<close>

definition two_interfaces :: net_snapshot where
  "two_interfaces =
     \<lparr>ns_interfaces =
        [\<lparr>ni_id = 1, ni_name = ''E'', ni_kind = Cable, ni_index = 1, ni_connected = True, ni_automatic = True,
          ni_metric = 25, ni_default_route = Some 0, ni_saved = None\<rparr>,
         \<lparr>ni_id = 2, ni_name = ''W'', ni_kind = Wifi, ni_index = 2, ni_connected = True, ni_automatic = True,
          ni_metric = 50, ni_default_route = Some 0, ni_saved = None\<rparr>],
      ns_routes =
        [\<lparr>nr_index = 1, nr_name = ''E'', nr_interface_metric = 25, nr_route_metric = 0\<rparr>,
         \<lparr>nr_index = 2, nr_name = ''W'', nr_interface_metric = 50, nr_route_metric = 0\<rparr>]\<rparr>"

definition wifi_first :: "metric list" where
  "wifi_first = [\<lparr>mt_id = 1, mt_automatic = False, mt_metric = 55\<rparr>, \<lparr>mt_id = 2, mt_automatic = False, mt_metric = 5\<rparr>]"

lemma two_interfaces_valid: "snapshot_validate two_interfaces = Inr ()"
  by (simp add: two_interfaces_def snapshot_validate_def inventory_limit_def valid_name_def code_def
      validate_route_def validate_connected_def)

lemma two_interfaces_plan: "plan two_interfaces 2 [] = Inr wifi_first"
  by (simp add: plan_def two_interfaces_valid)
    (simp add: two_interfaces_def wifi_first_def snapshot_interface_def affected_def metric_matches_def
      metric_of_def planned_metric_def route_total_def)

text \<open>
  C10: a plan does what it is for: its request validates against the snapshot it was made from, and
  if Windows carries its metrics out, the verification accepts the result: the chosen interface has
  the only best default route.
\<close>

theorem plan_achieves_default:
  assumes "plan s p managed = Inr ms" "rq = \<lparr>rq_expected = s, rq_changes = ms, rq_preferred = Some p\<rparr>"
  shows "validate_against rq s = Inr () \<and> verify_after rq (carried_out ms s) = Inr ()"
  using plan_request_valid [OF assms(1)] plan_verified [OF assms(1), of rq] by (auto simp: assms(2))

theorem plan_achieves_default_witness:
  "verify_after \<lparr>rq_expected = two_interfaces, rq_changes = wifi_first, rq_preferred = Some 2\<rparr>
     (carried_out wifi_first two_interfaces) = Inr ()"
  using plan_achieves_default [OF two_interfaces_plan refl] by blast

lemma prepare_journal:
  assumes "prepare s p existing = Inr (j, rq)"
  defines "j0 \<equiv> (case existing of None \<Rightarrow> empty_journal | Some j \<Rightarrow> j)"
  shows "\<exists>extra. jn_original j = jn_original j0 @ extra \<and> set extra \<subseteq> metric_of ` set (ns_interfaces s)"
    "set (jn_applied j) = set (rq_changes rq)" "jn_extra j = jn_extra j0"
proof -
  from assms(1) obtain j1 where known: "existing \<noteq> None \<longrightarrow> check_known j0 s = Inr ()"
    and plan: "plan s p (map mt_id (jn_original j0)) = Inr (rq_changes rq)"
    and j1: "fold_r (add_original s) (rq_changes rq) j0 = Inr j1"
    and j: "fold_r (record_change s) (rq_changes rq) (j1\<lparr>jn_previous := jn_applied j1\<rparr>) = Inr j"
    by (auto simp: prepare_def result_simps Let_def j0_def split: option.splits)
  note pm = plan_metrics [OF plan]
  note a = add_original_keeps [OF j1]
  note r = record_change_keeps [OF j]
  show "\<exists>extra. jn_original j = jn_original j0 @ extra \<and> set extra \<subseteq> metric_of ` set (ns_interfaces s)"
    using a r by auto
  show "jn_extra j = jn_extra j0" using a r by simp
  have "mt_id m \<in> mt_id ` set (rq_changes rq)" if m: "m \<in> set (jn_applied j0)" for m
  proof -
    have "existing \<noteq> None" using m by (cases existing) (auto simp: j0_def empty_journal_def)
    with known have k: "journal_validate j0 = Inr ()" "check_all (known_interface j0 s) (jn_original j0) = Inr ()"
      by (simp_all add: check_known_def result_simps)
    from k(1) have "\<forall>m \<in> set (jn_applied j0). \<exists>x \<in> set (jn_original j0). mt_id x = mt_id m"
      by (auto simp: journal_validate_def result_simps list_all_iff list_ex_iff)
    with m obtain x where x: "x \<in> set (jn_original j0)" "mt_id x = mt_id m" by blast
    with k(2) obtain i where "snapshot_interface s (mt_id m) = Inr i"
      by (auto simp: result_simps known_interface_def)
    then have "i \<in> set (ns_interfaces s)" "ni_id i = mt_id m"
      using snapshot_interface_Inr [OF pm(1)] by auto
    with x have "i \<in> set (affected s p (map mt_id (jn_original j0)))"
      by (auto simp: affected_def image_iff eq_commute)
    then show ?thesis unfolding pm(5) using \<open>ni_id i = mt_id m\<close> by (metis imageI)
  qed
  then show "set (jn_applied j) = set (rq_changes rq)"
    using record_change_applied [OF j pm(2)] a by auto
qed

text \<open>
  Preparing, applying and confirming fit together on settings that nobody else changes: what
  \<open>prepare\<close> requests is applied with success, the settings end as requested with the chosen
  interface verified as the default, the journal confirms, and the original metrics recorded by
  earlier operations are never replaced.
\<close>

theorem prepare_apply_confirm:
  assumes "prepare s p existing = Inr (j, rq)"
  shows "\<exists>rc s'. priority_apply memory_ops (\<lambda>_. True) rq s = (Inr rc, s') \<and> or_success (rc_result rc) \<and>
    s' = carried_out (rq_changes rq) s \<and> verify_after rq s' = Inr () \<and>
    confirmed j s' = Inr (j\<lparr>jn_previous := []\<rparr>) \<and>
    (\<exists>extra. jn_original j = (case existing of None \<Rightarrow> [] | Some j0 \<Rightarrow> jn_original j0) @ extra)"
proof -
  note p = prepare_Inr [OF assms]
  from p(1) obtain managed where plan: "plan s p managed = Inr (rq_changes rq)" by blast
  note pm = plan_metrics [OF plan]
  have rq: "rq = \<lparr>rq_expected = s, rq_changes = rq_changes rq, rq_preferred = Some p\<rparr>"
    using p(2,3) by simp
  have valid: "validate_against rq s = Inr ()"
    using plan_request_valid [OF plan] by (subst rq)
  from memory.apply_reaches [OF valid p(3)] obtain rc s' where
    a: "priority_apply memory_ops (\<lambda>_. True) rq s = (Inr rc, s')" "or_success (rc_result rc)"
      "s' = carried_out (rq_changes rq) s" "verify_after rq s' = Inr ()"
    by blast
  have "case snapshot_interface s' (mt_id m) of Inl _ \<Rightarrow> False | Inr i \<Rightarrow> metric_matches m i"
    if "m \<in> set (jn_applied j)" for m
  proof -
    have m: "m \<in> set (rq_changes rq)" using that prepare_journal(2) [OF assms] by simp
    from pm(4) [OF m] obtain i where "i \<in> set (ns_interfaces s)" "mt_id m = ni_id i"
      by (auto simp: affected_def)
    then have i: "snapshot_interface s (mt_id m) = Inr i"
      by (simp add: snapshot_interface_Inr [OF pm(1)])
    show ?thesis
      using carried_out_interface [OF pm(1) i] carried_out_matches [OF pm(1,2) m _ i] pm(3) [OF m]
      by (simp add: a(3))
  qed
  then have "confirmed j s' = Inr (j\<lparr>jn_previous := []\<rparr>)"
    using carried_out_ok [OF pm(1)] by (simp add: confirmed_def a(3) snapshot_ok_def list_all_iff)
  with a prepare_journal(1) [OF assms] show ?thesis
    by (cases existing) (auto simp: empty_journal_def)
qed

lemma two_interfaces_prepare:
  "\<exists>j. prepare two_interfaces 2 None = Inr (j, \<lparr>rq_expected = two_interfaces, rq_changes = wifi_first, rq_preferred = Some 2\<rparr>)
    \<and> jn_original j = [metric_of (hd (ns_interfaces two_interfaces)), metric_of (ns_interfaces two_interfaces ! 1)]
    \<and> jn_applied j = wifi_first \<and> journal_validate j = Inr ()"
  by (simp add: prepare_def two_interfaces_plan empty_journal_def)
    (simp add: two_interfaces_def wifi_first_def add_original_def record_change_def snapshot_interface_def
      journal_validate_def validate_metrics_def inventory_limit_def metric_of_def upsert_def)

theorem prepare_apply_confirm_witness:
  "\<exists>j rc s'. priority_apply memory_ops (\<lambda>_. True)
      \<lparr>rq_expected = two_interfaces, rq_changes = wifi_first, rq_preferred = Some 2\<rparr> two_interfaces = (Inr rc, s') \<and>
    or_success (rc_result rc) \<and> s' = carried_out wifi_first two_interfaces \<and>
    confirmed j s' = Inr (j\<lparr>jn_previous := []\<rparr>)"
proof -
  obtain j where j: "prepare two_interfaces 2 None
      = Inr (j, \<lparr>rq_expected = two_interfaces, rq_changes = wifi_first, rq_preferred = Some 2\<rparr>)"
    using two_interfaces_prepare by blast
  from prepare_apply_confirm [OF j] show ?thesis by auto
qed

text \<open>
  A restoration asks only for original metrics that are not in force, and its request validates
  against the snapshot it was made from.
\<close>

theorem restoration_valid:
  assumes "restoration j s = Inr (Some rq)"
  shows "validate_against rq s = Inr () \<and> rq_preferred rq = None \<and>
    list_all (\<lambda>m. m \<in> set (jn_original j) \<and>
      (case snapshot_interface s (mt_id m) of Inl _ \<Rightarrow> False | Inr i \<Rightarrow> \<not> metric_matches m i)) (rq_changes rq)"
proof -
  have k: "check_known j s = Inr ()"
    and rq: "rq = \<lparr>rq_expected = s,
      rq_changes = filter (\<lambda>m. \<not> metric_matches m (projr (snapshot_interface s (mt_id m)))) (jn_original j),
      rq_preferred = None\<rparr>"
    using assms by (auto simp: restoration_def result_simps Let_def split: if_splits)
  have "\<exists>i. snapshot_interface s (mt_id m) = Inr i" if "m \<in> set (jn_original j)" for m
    using k that by (auto simp: check_known_def result_simps known_interface_def)
  then show ?thesis
    using restoration_Inr [OF assms] rq by (fastforce simp: list_all_iff)
qed

definition applied_journal :: journal where
  "applied_journal =
     \<lparr>jn_original = [\<lparr>mt_id = 2, mt_automatic = True, mt_metric = 50\<rparr>],
      jn_applied = [\<lparr>mt_id = 2, mt_automatic = False, mt_metric = 5\<rparr>], jn_previous = [], jn_extra = []\<rparr>"

lemma applied_journal_restores:
  "\<exists>rq. restoration applied_journal (carried_out wifi_first two_interfaces) = Inr (Some rq)"
proof -
  have ok: "snapshot_validate (carried_out wifi_first two_interfaces) = Inr ()"
    using carried_out_ok two_interfaces_valid by (simp add: snapshot_ok_def)
  show ?thesis
    by (simp add: restoration_def check_known_def ok)
      (simp add: applied_journal_def journal_validate_def validate_metrics_def inventory_limit_def
        carried_out_def two_interfaces_def wifi_first_def set_metric_def known_interface_def snapshot_interface_def
        metric_matches_def Let_def)
qed

theorem restoration_valid_witness:
  "\<exists>rq. restoration applied_journal (carried_out wifi_first two_interfaces) = Inr (Some rq) \<and>
    validate_against rq (carried_out wifi_first two_interfaces) = Inr ()"
proof -
  obtain rq where "restoration applied_journal (carried_out wifi_first two_interfaces) = Inr (Some rq)"
    using applied_journal_restores by blast
  from restoration_valid [OF this] this show ?thesis by blast
qed

end
