(* ===== verification/Planning.thy ===== *)
theory Planning
  imports Model
begin

text \<open>
  \<open>crates/netlane-core/src/planning.rs\<close>: the rules planned for a list of policies, the
  retirement of rules whose executable is missing, and the expansion of a Steam policy to the
  helper executables beside it. \<open>ex\<close> is the file-system test the caller passes in. The
  texts of \<open>PlannedRule::detail\<close> are the constructors of \<open>rule_detail\<close>.
\<close>

datatype rule_detail =
    Windows_decides
  | Block_requested
  | Exit_requested string
  | Interface_missing
  | Executable_missing

record planned_rule =
  r_application :: string
  r_executable :: "string option"
  r_mode :: route_mode
  r_interface_id :: "string option"
  r_luid :: nat
  r_ipv4 :: bool
  r_ipv6 :: bool
  r_detail :: rule_detail

definition actionable :: "routing_policy \<Rightarrow> bool" where
  "actionable p \<longleftrightarrow> enabled p \<and> route_mode p \<noteq> Automatic"

definition plan_rule ::
    "(string \<Rightarrow> string) \<Rightarrow> (string \<Rightarrow> nat option) \<Rightarrow> adapter list \<Rightarrow> routing_policy \<Rightarrow> planned_rule" where
  "plan_rule lower uuid adapters p =
     (let target = resolve_interface lower uuid p adapters in
      \<lparr>r_application = application_id p,
       r_executable = executable_path p,
       r_mode = (if actionable p \<and> (route_mode p = Blocked \<or> target \<noteq> None)
                 then route_mode p else Automatic),
       r_interface_id = map_option a_id target,
       r_luid = (case target of None \<Rightarrow> 0 | Some a \<Rightarrow> a_luid a),
       r_ipv4 = (case target of None \<Rightarrow> True | Some a \<Rightarrow> a_ipv4 a),
       r_ipv6 = (case target of None \<Rightarrow> True | Some a \<Rightarrow> a_ipv6 a),
       r_detail =
         (if \<not> actionable p then Windows_decides
          else if route_mode p = Blocked then Block_requested
          else (case target of Some a \<Rightarrow> Exit_requested (a_name a) | None \<Rightarrow> Interface_missing))\<rparr>)"

definition plan_routes ::
    "(string \<Rightarrow> string) \<Rightarrow> (string \<Rightarrow> nat option) \<Rightarrow> routing_policy list \<Rightarrow> adapter list
     \<Rightarrow> planned_rule list" where
  "plan_routes lower uuid policies adapters = map (plan_rule lower uuid adapters) policies"

definition executable_present :: "(string \<Rightarrow> bool) \<Rightarrow> string option \<Rightarrow> bool" where
  "executable_present ex e = (case e of None \<Rightarrow> False | Some p \<Rightarrow> is_local_path p \<and> ex p)"

definition retire_rule :: "(string \<Rightarrow> bool) \<Rightarrow> planned_rule \<Rightarrow> planned_rule" where
  "retire_rule ex r =
     (if r_mode r \<noteq> Automatic \<and> \<not> executable_present ex (r_executable r)
      then r\<lparr>r_mode := Automatic, r_detail := Executable_missing\<rparr> else r)"

definition retire_missing :: "(string \<Rightarrow> bool) \<Rightarrow> planned_rule list \<Rightarrow> planned_rule list" where
  "retire_missing ex rules = map (retire_rule ex) rules"

subsection \<open>Steam helpers\<close>

definition bsl :: string where
  "bsl = [CHR 0x5C]"

text \<open>\<open>path.rsplit_once(['\\', '/']).map(|p| p.0)\<close>: what precedes the last separator.\<close>

definition parent_of :: "string \<Rightarrow> string option" where
  "parent_of path =
     (case dropWhile (\<lambda>c. \<not> is_separator c) (rev path) of
        [] \<Rightarrow> None
      | _ # before \<Rightarrow> Some (rev before))"

definition helper_names :: "string list" where
  "helper_names = [''steamwebhelper.exe'', ''steamservice.exe'', ''steamerrorreporter.exe'',
     ''gameoverlayui.exe'']"

definition helper_folders :: "string \<Rightarrow> string list" where
  "helper_folders name =
     [[], ''bin'', ''cef'', ''bin'' @ bsl @ ''cef'']
     @ (if name = ''steamwebhelper.exe''
        then [''bin'' @ bsl @ ''cef'' @ bsl @ ''cef.win64'',
              ''bin'' @ bsl @ ''cef'' @ bsl @ ''cef.win7x64'',
              ''bin'' @ bsl @ ''cef'' @ bsl @ ''cef.win7'']
        else [])"

definition helper_path :: "string \<Rightarrow> string \<Rightarrow> string \<Rightarrow> string" where
  "helper_path root name folder =
     (if folder = [] then root @ bsl @ name else root @ bsl @ folder @ bsl @ name)"

definition expand_name ::
    "(string \<Rightarrow> bool) \<Rightarrow> routing_policy \<Rightarrow> string \<Rightarrow> string
     \<Rightarrow> routing_policy list \<times> string list \<Rightarrow> routing_policy list \<times> string list" where
  "expand_name ex p root name st =
     (case st of (result, explicit) \<Rightarrow>
        if name \<in> set explicit then (result, explicit)
        else (case find ex (map (helper_path root name) (helper_folders name)) of
            None \<Rightarrow> (result, explicit)
          | Some candidate \<Rightarrow>
              (result @ [p\<lparr>application_id := name, executable_path := Some candidate,
                           include_related_executables := False, additional_data := []\<rparr>],
               name # explicit)))"

definition steam_root :: "routing_policy \<Rightarrow> string option" where
  "steam_root p =
     (case executable_path p of
        None \<Rightarrow> None
      | Some path \<Rightarrow>
          if \<not> enabled p \<or> \<not> include_related_executables p \<or> route_mode p = Automatic
             \<or> \<not> eq_ignore_ascii_case (file_name path) ''steam.exe'' then None
          else if \<not> is_local_path path then None
          else parent_of path)"

definition expand_policy ::
    "(string \<Rightarrow> bool) \<Rightarrow> routing_policy
     \<Rightarrow> routing_policy list \<times> string list \<Rightarrow> routing_policy list \<times> string list" where
  "expand_policy ex p st =
     (case steam_root p of None \<Rightarrow> st | Some root \<Rightarrow> fold (expand_name ex p root) helper_names st)"

definition explicit_names :: "(string \<Rightarrow> string) \<Rightarrow> routing_policy list \<Rightarrow> string list" where
  "explicit_names lower policies = concat (map (\<lambda>p. [lower (application_id p),
     lower (file_name (case executable_path p of Some e \<Rightarrow> e | None \<Rightarrow> application_id p))]) policies)"

definition expand_related ::
    "(string \<Rightarrow> string) \<Rightarrow> routing_policy list \<Rightarrow> (string \<Rightarrow> bool) \<Rightarrow> routing_policy list" where
  "expand_related lower policies ex =
     fst (fold (expand_policy ex) policies (policies, explicit_names lower policies))"

subsection \<open>Planned rules\<close>

text \<open>
  A rule acts exactly when its policy is enabled, asks for a mode other than automatic,
  and either blocks or found an adapter; a rule that routes carries the identity of a connected
  adapter of that mode, and a rule without an adapter covers both families with LUID 0.\<close>

theorem plan_rule_correct:
  "let r = plan_rule lower uuid adapters p; target = resolve_interface lower uuid p adapters in
   (r_mode r \<noteq> Automatic \<longleftrightarrow> actionable p \<and> (route_mode p = Blocked \<or> (\<exists>a. target = Some a))) \<and>
   (r_mode r = Automatic \<or> r_mode r = route_mode p) \<and>
   (case target of
      Some a \<Rightarrow> a \<in> candidates p adapters \<and> r_interface_id r = Some (a_id a) \<and> r_luid r = a_luid a
        \<and> r_ipv4 r = a_ipv4 a \<and> r_ipv6 r = a_ipv6 a
    | None \<Rightarrow> r_interface_id r = None \<and> r_luid r = 0 \<and> r_ipv4 r \<and> r_ipv6 r
        \<and> r_mode r \<in> {Automatic, Blocked})"
proof (cases "resolve_interface lower uuid p adapters")
  case None
  then show ?thesis
    by (auto simp: plan_rule_def actionable_def Let_def)
next
  case (Some a)
  then have "a \<in> candidates p adapters"
    using resolve_interface_sound [OF Some] by (simp add: candidates_def)
  with Some show ?thesis
    by (auto simp: plan_rule_def actionable_def Let_def)
qed

lemma retire_rule_fields:
  "r_application (retire_rule ex r) = r_application r" "r_executable (retire_rule ex r) = r_executable r"
  "r_interface_id (retire_rule ex r) = r_interface_id r" "r_luid (retire_rule ex r) = r_luid r"
  "r_ipv4 (retire_rule ex r) = r_ipv4 r" "r_ipv6 (retire_rule ex r) = r_ipv6 r"
  by (simp_all add: retire_rule_def)

lemma retire_rule_acts:
  "r_mode (retire_rule ex r) \<noteq> Automatic \<longleftrightarrow>
     r_mode r \<noteq> Automatic \<and> executable_present ex (r_executable r)"
  by (simp add: retire_rule_def)

lemma retire_rule_idle: "r_mode (retire_rule ex r) \<noteq> Automatic \<Longrightarrow> retire_rule ex r = r"
  by (auto simp: retire_rule_def split: if_splits)

subsection \<open>The file system is asked about local paths only\<close>

lemma parent_of_Some:
  assumes "parent_of path = Some root"
  shows "\<exists>s name. path = root @ s # name \<and> is_separator s \<and> (\<forall>c \<in> set name. \<not> is_separator c)"
proof -
  let ?d = "dropWhile (\<lambda>c. \<not> is_separator c) (rev path)"
  from assms obtain s before where d: "?d = s # before" and root: "root = rev before"
    by (auto simp: parent_of_def split: list.splits)
  have "rev path = takeWhile (\<lambda>c. \<not> is_separator c) (rev path) @ s # before"
    using d by (metis takeWhile_dropWhile_id)
  then have "path = rev before @ s # rev (takeWhile (\<lambda>c. \<not> is_separator c) (rev path))"
    by (metis append.assoc append_Cons append_Nil rev.simps(2) rev_append rev_rev_ident)
  moreover have "is_separator s"
    using d by (metis (mono_tags, lifting) hd_dropWhile list.distinct(1) list.sel(1))
  moreover have "\<forall>c \<in> set (rev (takeWhile (\<lambda>c. \<not> is_separator c) (rev path))). \<not> is_separator c"
    by (auto dest: set_takeWhileD)
  ultimately show ?thesis
    using root by blast
qed

lemma local_root:
  assumes "is_local_path path" "parent_of path = Some root"
  shows "\<exists>d t. root = d # CHR '':'' # t \<and> is_ascii_alphabetic d \<and> CHR 0x00 \<notin> set root
     \<and> (t = [] \<or> is_separator (hd t))"
proof -
  obtain d s r where p: "path = d # CHR '':'' # s # r" "is_ascii_alphabetic d" "is_separator s"
      "CHR 0x00 \<notin> set path"
    using assms(1) by (auto simp: is_local_path_shape)
  obtain s' name where q: "path = root @ s' # name" "is_separator s'"
      "\<forall>c \<in> set name. \<not> is_separator c"
    using parent_of_Some [OF assms(2)] by auto
  have nul: "CHR 0x00 \<notin> set root"
    using p(4) q(1) by auto
  have nsep: "\<not> is_separator d" "\<not> is_separator (CHR '':'')"
    using p(2) by (auto simp: is_separator_def is_ascii_alphabetic_def is_ascii_upper_def
        is_ascii_lower_def code_def)
  consider "root = []" | a where "root = [a]" | a b t where "root = a # b # t"
    by (cases root rule: list.exhaust; cases "tl root") auto
  then show ?thesis
  proof cases
    case 1
    with p(1) q nsep show ?thesis by simp
  next
    case 2
    with p(1) q nsep show ?thesis by auto
  next
    case (3 a b t)
    with p(1,3) q(1,2) have "a = d" "b = CHR '':''" "t @ s' # name = s # r"
      by simp_all
    moreover from this(3) p(3) have "t = [] \<or> is_separator (hd t)"
      by (cases t) auto
    ultimately show ?thesis
      using 3 p(2) nul by auto
  qed
qed

lemma helper_path_local:
  assumes "is_local_path path" "parent_of path = Some root" "name \<in> set helper_names"
    "folder \<in> set (helper_folders name)"
  shows "is_local_path (helper_path root name folder)"
proof -
  obtain d t where r: "root = d # CHR '':'' # t" "is_ascii_alphabetic d" "CHR 0x00 \<notin> set root"
      "t = [] \<or> is_separator (hd t)"
    using local_root [OF assms(1,2)] by auto
  have n: "CHR 0x00 \<notin> set name"
    using assms(3) by (auto simp: helper_names_def)
  have f: "CHR 0x00 \<notin> set folder"
    using assms(4) by (auto simp: helper_folders_def bsl_def split: if_splits)
  show ?thesis
    unfolding is_local_path_shape using r n f
    by (cases t) (auto simp: helper_path_def bsl_def is_separator_def)
qed

lemma find_cong: "(\<And>x. x \<in> set xs \<Longrightarrow> P x = Q x) \<Longrightarrow> find P xs = find Q xs"
  by (induction xs) auto

lemma expand_name_cong:
  assumes "steam_root p = Some root" "name \<in> set helper_names"
    "\<And>q. is_local_path q \<Longrightarrow> ex q = ex' q"
  shows "expand_name ex p root name st = expand_name ex' p root name st"
proof -
  obtain path where path: "is_local_path path" "parent_of path = Some root"
    using assms(1) by (auto simp: steam_root_def split: option.splits if_splits)
  have "find ex (map (helper_path root name) (helper_folders name)) =
    find ex' (map (helper_path root name) (helper_folders name))"
    using helper_path_local [OF path assms(2)] assms(3) by (intro find_cong) auto
  then show ?thesis
    by (simp add: expand_name_def split: prod.splits)
qed

lemma expand_policy_cong:
  assumes "\<And>q. is_local_path q \<Longrightarrow> ex q = ex' q"
  shows "expand_policy ex p st = expand_policy ex' p st"
proof (cases "steam_root p")
  case (Some root)
  have "fold (expand_name ex p root) helper_names st = fold (expand_name ex' p root) helper_names st"
    by (rule fold_cong [OF refl refl], rule ext) (rule expand_name_cong [OF Some _ assms])
  with Some show ?thesis by (simp add: expand_policy_def)
qed (simp add: expand_policy_def)

lemma expand_related_cong:
  "(\<And>q. is_local_path q \<Longrightarrow> ex q = ex' q) \<Longrightarrow> expand_related lower ps ex = expand_related lower ps ex'"
proof -
  assume "\<And>q. is_local_path q \<Longrightarrow> ex q = ex' q"
  then have "expand_policy ex = expand_policy ex'"
    by (intro ext expand_policy_cong)
  then show ?thesis by (simp add: expand_related_def)
qed

lemma retire_missing_cong:
  "(\<And>q. is_local_path q \<Longrightarrow> ex q = ex' q) \<Longrightarrow> retire_missing ex rules = retire_missing ex' rules"
  by (auto simp: retire_missing_def retire_rule_def executable_present_def split: option.splits)

subsection \<open>What the expansion adds\<close>

text \<open>\<open>related_to ex p q\<close>: \<open>q\<close> is a helper of the Steam policy \<open>p\<close> that exists on disk.\<close>

definition related_to :: "(string \<Rightarrow> bool) \<Rightarrow> routing_policy \<Rightarrow> routing_policy \<Rightarrow> bool" where
  "related_to ex p q \<longleftrightarrow>
     (\<exists>root. steam_root p = Some root \<and> application_id q \<in> set helper_names \<and>
        (\<exists>e folder. executable_path q = Some e \<and> folder \<in> set (helper_folders (application_id q)) \<and>
           e = helper_path root (application_id q) folder \<and> ex e)) \<and>
     route_mode q = route_mode p \<and> interface_id q = interface_id p \<and> enabled q \<and>
     \<not> include_related_executables q \<and> additional_data q = []"

definition expansion_inv ::
    "(string \<Rightarrow> bool) \<Rightarrow> routing_policy list \<Rightarrow> string list
     \<Rightarrow> routing_policy list \<times> string list \<Rightarrow> bool" where
  "expansion_inv ex policies names st \<longleftrightarrow>
     (case st of (result, explicit) \<Rightarrow>
        \<exists>added. result = policies @ added \<and>
          explicit = rev (map application_id added) @ names \<and>
          distinct (map application_id added) \<and>
          set (map application_id added) \<inter> set names = {} \<and>
          (\<forall>q \<in> set added. \<exists>p \<in> set policies. related_to ex p q))"

lemma expand_name_inv:
  assumes "expansion_inv ex policies names st" "p \<in> set policies" "steam_root p = Some root"
    "name \<in> set helper_names"
  shows "expansion_inv ex policies names (expand_name ex p root name st)"
proof -
  obtain added where st: "st = (policies @ added, rev (map application_id added) @ names)"
    and inv: "distinct (map application_id added)" "set (map application_id added) \<inter> set names = {}"
      "\<forall>q \<in> set added. \<exists>p \<in> set policies. related_to ex p q"
    using assms(1) by (auto simp: expansion_inv_def)
  show ?thesis
  proof (cases "name \<in> set (rev (map application_id added) @ names)
      \<or> find ex (map (helper_path root name) (helper_folders name)) = None")
    case True
    then have "expand_name ex p root name st = st"
      by (auto simp: st expand_name_def)
    with assms(1) show ?thesis by simp
  next
    case False
    then obtain cand where c: "find ex (map (helper_path root name) (helper_folders name)) = Some cand"
      by auto
    let ?q = "p\<lparr>application_id := name, executable_path := Some cand,
      include_related_executables := False, additional_data := []\<rparr>"
    have "enabled p"
      using assms(3) by (auto simp: steam_root_def split: option.splits if_splits)
    then have "related_to ex p ?q"
      using find_SomeD [OF c] assms(3,4) by (auto simp: related_to_def)
    moreover have "expand_name ex p root name st =
        (policies @ (added @ [?q]), rev (map application_id (added @ [?q])) @ names)"
      using False c by (simp add: st expand_name_def)
    ultimately show ?thesis
      unfolding expansion_inv_def using inv False assms(2)
      by (auto intro!: exI [of _ "added @ [?q]"])
  qed
qed

lemma expand_policy_inv:
  assumes "expansion_inv ex policies names st" "p \<in> set policies"
  shows "expansion_inv ex policies names (expand_policy ex p st)"
proof (cases "steam_root p")
  case (Some root)
  have "expansion_inv ex policies names (fold (expand_name ex p root) ns st)"
    if "set ns \<subseteq> set helper_names" "expansion_inv ex policies names st" for ns st
    by (rule fold_invariant [where Q = "\<lambda>n. n \<in> set helper_names"
          and P = "expansion_inv ex policies names"])
      (use that in \<open>auto intro: expand_name_inv [OF _ assms(2) Some]\<close>)
  with assms Some show ?thesis by (simp add: expand_policy_def)
qed (simp add: expand_policy_def assms)

lemma expand_related_inv:
  "expansion_inv ex policies (explicit_names lower policies)
     (fold (expand_policy ex) policies (policies, explicit_names lower policies))"
proof -
  have "expansion_inv ex policies names (fold (expand_policy ex) ps st)"
    if "set ps \<subseteq> set policies" "expansion_inv ex policies names st" for ps st names
    by (rule fold_invariant [where Q = "\<lambda>p. p \<in> set policies"
          and P = "expansion_inv ex policies names"]) (use that in \<open>auto intro: expand_policy_inv\<close>)
  moreover have "expansion_inv ex policies (explicit_names lower policies)
      (policies, explicit_names lower policies)"
    by (simp add: expansion_inv_def)
  ultimately show ?thesis by simp
qed

lemma related_added_bound: "set (map application_id added) \<subseteq> set helper_names \<Longrightarrow>
  distinct (map application_id added) \<Longrightarrow> length added \<le> 4"
proof -
  assume *: "set (map application_id added) \<subseteq> set helper_names" "distinct (map application_id added)"
  then have "card (set (map application_id added)) \<le> card (set helper_names)"
    by (intro card_mono) simp_all
  also have "\<dots> \<le> length helper_names"
    by (rule card_length)
  finally show ?thesis
    using distinct_card [OF *(2)] by (simp add: helper_names_def)
qed

text \<open>
  Expansion keeps every policy in place and only appends, at most four, rules for helpers
  that exist beside an enabled local Steam executable, copying its mode and interface; an
  application that already has a rule is never added.\<close>

theorem expand_related_correct:
  "\<exists>added. expand_related lower policies ex = policies @ added \<and> length added \<le> 4 \<and>
     distinct (map application_id added) \<and>
     set (map application_id added) \<inter> set (explicit_names lower policies) = {} \<and>
     set added \<subseteq> {q. \<exists>p \<in> set policies. related_to ex p q}"
proof -
  obtain added where r: "expand_related lower policies ex = policies @ added"
      "distinct (map application_id added)"
      "set (map application_id added) \<inter> set (explicit_names lower policies) = {}"
      "\<forall>q \<in> set added. \<exists>p \<in> set policies. related_to ex p q"
    using expand_related_inv [of ex policies lower]
    by (auto simp: expansion_inv_def expand_related_def split: prod.splits)
  have "set (map application_id added) \<subseteq> set helper_names"
    using r(4) by (auto simp: related_to_def)
  then have "length added \<le> 4"
    using r(2) by (rule related_added_bound)
  with r show ?thesis by auto
qed

end
