(* ===== verification/Protocol.thy ===== *)
theory Protocol
  imports Priority Planning
begin

text \<open>
  \<open>crates/netlane-windows/src/protocol.rs\<close>: the messages between the panel and its elevated
  components, their frames on the pipe, and the inbox that reads them until the first failure. The
  JSON that \<open>serde\<close> derives for a message is a parameter. A stream is the bytes up to where it is
  closed. Above the frames a channel is what one end receives (\<open>None\<close> is a receive that fails or
  times out), whether its sends succeed, and what it has sent.
\<close>

datatype message =
    Default_hello nat
  | Default_apply priority_request
  | Default_result operation_result
  | Default_ack
  | Default_finished bool
  | Hello nat
  | Start_session string "routing_policy list" bool
  | Update_rules "routing_policy list"
  | Ping
  | Stop
  | Session_snapshot nat string "string option" "planned_rule list" string
  | Error_message string
  | Stopped bool string

definition max_message_bytes :: nat where "max_message_bytes = 8 * 1024 * 1024"

definition protocol_version :: nat where "protocol_version = 2"

subsection \<open>Frames\<close>

record message_text =
  mt_print :: "message \<Rightarrow> u8 list"
  mt_parse :: "u8 list \<Rightarrow> message option"

datatype frame_error = Message_too_large | Closed | Bad_length | Bad_message

definition frame :: "message_text \<Rightarrow> message \<Rightarrow> frame_error + u8 list" where
  "frame t m =
     (let bytes = mt_print t m in
      rbind (ensure (length bytes \<le> max_message_bytes) Message_too_large) (\<lambda>_.
        Inr (le_bytes 4 (length bytes) @ bytes)))"

definition read_frame :: "message_text \<Rightarrow> u8 list \<Rightarrow> (frame_error + message) \<times> u8 list" where
  "read_frame t s =
     (if length s < 4 then (Inl Closed, [])
      else
        (let n = le_val (take 4 s); rest = drop 4 s in
         if n = 0 \<or> max_message_bytes < n then (Inl Bad_length, rest)
         else if length rest < n then (Inl Closed, [])
         else (ok_or (mt_parse t (take n rest)) Bad_message, drop n rest)))"

lemma read_frame_consumes: "read_frame t s = (Inr m, s') \<Longrightarrow> length s' < length s"
  by (auto simp: read_frame_def Let_def split: if_splits)

function inbox :: "message_text \<Rightarrow> u8 list \<Rightarrow> message list \<times> frame_error" where
  "inbox t s =
     (case read_frame t s of
        (Inl e, _) \<Rightarrow> ([], e)
      | (Inr m, s') \<Rightarrow> (case inbox t s' of (ms, e) \<Rightarrow> (m # ms, e)))"
  by pat_completeness auto
termination
  by (relation "measure (\<lambda>(t, s). length s)") (auto dest: sym [THEN read_frame_consumes])

declare inbox.simps [simp del]

text \<open>A message that the library prints and reads back, and that fits in a frame.\<close>

definition sendable :: "message_text \<Rightarrow> message \<Rightarrow> bool" where
  "sendable t m \<longleftrightarrow>
     mt_parse t (mt_print t m) = Some m \<and> mt_print t m \<noteq> [] \<and> length (mt_print t m) \<le> max_message_bytes"

definition encoded :: "message_text \<Rightarrow> message \<Rightarrow> u8 list" where
  "encoded t m = le_bytes 4 (length (mt_print t m)) @ mt_print t m"

lemma frame_encoded: "sendable t m \<Longrightarrow> frame t m = Inr (encoded t m)"
  by (simp add: frame_def sendable_def encoded_def Let_def)

lemma encoded_length: "length (encoded t m) = 4 + length (mt_print t m)"
  by (simp add: encoded_def)

lemma sendable_val: "sendable t m \<Longrightarrow> le_val (le_bytes 4 (length (mt_print t m))) = length (mt_print t m)"
  by (simp add: sendable_def max_message_bytes_def)

lemma read_frame_encoded: "sendable t m \<Longrightarrow> read_frame t (encoded t m @ s) = (Inr m, s)"
  using sendable_val [of t m] by (simp add: read_frame_def encoded_def sendable_def Let_def)

lemma read_frame_cut:
  assumes "sendable t m" "n < length (encoded t m)"
  shows "read_frame t (take n (encoded t m)) = (Inl Closed, [])"
proof (cases "n < 4")
  case True
  then show ?thesis by (simp add: read_frame_def encoded_length)
next
  case False
  then have s: "take n (encoded t m) = le_bytes 4 (length (mt_print t m)) @ take (n - 4) (mt_print t m)"
    by (simp add: encoded_def)
  have "n - 4 < length (mt_print t m)" using assms(2) False by (simp add: encoded_length)
  then show ?thesis
    using assms(1) sendable_val [OF assms(1)] unfolding s by (simp add: read_frame_def sendable_def Let_def)
qed

lemma inbox_closed: "read_frame t s = (Inl e, s') \<Longrightarrow> inbox t s = ([], e)"
  by (simp add: inbox.simps)

lemma inbox_message: "read_frame t s = (Inr m, s') \<Longrightarrow> inbox t s' = (ms, e) \<Longrightarrow> inbox t s = (m # ms, e)"
  by (simp add: inbox.simps)

text \<open>
  Wherever a stream of frames is cut, the inbox delivers exactly the messages whose frames are
  complete, in order, and then reports that the channel is closed; a partial frame is never a message.
\<close>

theorem inbox_complete_frames:
  assumes "list_all (sendable t) ms"
  shows "\<exists>k. inbox t (take n (concat (map (encoded t) ms))) = (take k ms, Closed) \<and>
    length (concat (map (encoded t) (take k ms))) \<le> n \<and>
    (k = length ms \<or> k < length ms \<and> n < length (concat (map (encoded t) (take (Suc k) ms))))"
  using assms
proof (induction ms arbitrary: n)
  case Nil
  have "inbox t [] = ([], Closed)" by (rule inbox_closed) (simp add: read_frame_def)
  then show ?case by simp
next
  case (Cons m ms)
  then have m: "sendable t m" by simp
  show ?case
  proof (cases "n < length (encoded t m)")
    case True
    then have "inbox t (take n (concat (map (encoded t) (m # ms)))) = ([], Closed)"
      using inbox_closed [OF read_frame_cut [OF m True]] by simp
    with True show ?thesis by (intro exI [of _ 0]) simp
  next
    case False
    define n' where "n' = n - length (encoded t m)"
    have "list_all (sendable t) ms" using Cons.prems by simp
    from Cons.IH [OF this, of n'] obtain k where k: "inbox t (take n' (concat (map (encoded t) ms))) = (take k ms, Closed)"
      "length (concat (map (encoded t) (take k ms))) \<le> n'"
      "k = length ms \<or> k < length ms \<and> n' < length (concat (map (encoded t) (take (Suc k) ms)))"
      by blast
    have "inbox t (take n (concat (map (encoded t) (m # ms)))) = (m # take k ms, Closed)"
      using False inbox_message [OF read_frame_encoded [OF m] k(1)] by (simp add: n'_def)
    with k(2,3) False show ?thesis
      by (intro exI [of _ "Suc k"]) (auto simp: n'_def)
  qed
qed

definition demo_frames :: message_text where
  "demo_frames = \<lparr>mt_print = (\<lambda>m. if m = Ping then [0x50] else [0x53]),
     mt_parse = (\<lambda>b. if b = [0x50] then Some Ping else Some Stop)\<rparr>"

theorem inbox_complete_frames_witness:
  "list_all (sendable demo_frames) [Ping, Stop] \<and>
   (\<exists>k. inbox demo_frames (take 7 (concat (map (encoded demo_frames) [Ping, Stop]))) = (take k [Ping, Stop], Closed) \<and>
    length (concat (map (encoded demo_frames) (take k [Ping, Stop]))) \<le> 7 \<and>
    (k = length [Ping, Stop] \<or>
     k < length [Ping, Stop] \<and> 7 < length (concat (map (encoded demo_frames) (take (Suc k) [Ping, Stop])))))"
proof -
  have s: "list_all (sendable demo_frames) [Ping, Stop]"
    by (simp add: sendable_def demo_frames_def max_message_bytes_def)
  show ?thesis by (rule conjI [OF s inbox_complete_frames [OF s]])
qed

subsection \<open>Channels\<close>

record channel =
  ch_received :: "message option list"
  ch_sends :: "bool list"
  ch_sent :: "message list"

definition receive_from :: "'e \<Rightarrow> (channel, 'e, message) action" where
  "receive_from e ch =
     (case ch_received ch of
        Some m # rest \<Rightarrow> (Inr m, ch\<lparr>ch_received := rest\<rparr>)
      | None # rest \<Rightarrow> (Inl e, ch\<lparr>ch_received := rest\<rparr>)
      | [] \<Rightarrow> (Inl e, ch))"

definition send_to :: "'e \<Rightarrow> message \<Rightarrow> (channel, 'e, unit) action" where
  "send_to e m ch =
     (case ch_sends ch of
        False # rest \<Rightarrow> (Inl e, ch\<lparr>ch_sends := rest\<rparr>)
      | True # rest \<Rightarrow> (Inr (), ch\<lparr>ch_sends := rest, ch_sent := ch_sent ch @ [m]\<rparr>)
      | [] \<Rightarrow> (Inr (), ch\<lparr>ch_sent := ch_sent ch @ [m]\<rparr>))"

lemma receive_from_Inr [result_simps]:
  "receive_from e ch = (Inr m, ch') \<longleftrightarrow> (\<exists>rest. ch_received ch = Some m # rest \<and> ch' = ch\<lparr>ch_received := rest\<rparr>)"
  by (auto simp: receive_from_def split: list.splits option.splits)

lemma send_to_Inr [result_simps]:
  "send_to e m ch = (Inr u, ch') \<longleftrightarrow> (ch_sends ch = [] \<or> hd (ch_sends ch)) \<and>
     ch' = ch\<lparr>ch_sends := tl (ch_sends ch), ch_sent := ch_sent ch @ [m]\<rparr>"
  by (cases ch; cases "ch_sends ch"; auto simp: send_to_def split: bool.splits)

lemma send_to_received: "send_to e m ch = (r, ch') \<Longrightarrow> ch_received ch' = ch_received ch"
  by (auto simp: send_to_def split: list.splits bool.splits)

lemma send_to_sent:
  "send_to e m ch = (r, ch') \<Longrightarrow> ch_sent ch' = (if r = Inr () then ch_sent ch @ [m] else ch_sent ch)"
  by (auto simp: send_to_def split: list.splits bool.splits)

end
