(* ===== verification/Handover.thy ===== *)
theory Handover
  imports Priority_Apply Protocol
begin

text \<open>
  \<open>crates/netlane-agent/src/default_connection.rs\<close>: the one-shot exchange between the panel and the
  elevated component that applies a request, over the channels of the theory Protocol. Launching and
  authenticating the process is not modelled, its exit code is a parameter.
\<close>

datatype hand_error =
    Receive_failed
  | Send_failed
  | Incompatible
  | Invalid_request
  | Domain dc_error
  | Remote string
  | Unconfirmed
  | No_final_receipt
  | Ack_missing
  | Rollback_incomplete string
  | Ended_unconfirmed

definition hand_version :: nat where "hand_version = 1"

abbreviation receive :: "(channel, hand_error, message) action" where
  "receive \<equiv> receive_from Receive_failed"

abbreviation send :: "message \<Rightarrow> (channel, hand_error, unit) action" where
  "send \<equiv> send_to Send_failed"

text \<open>The panel's end.\<close>

definition expect_result :: "message \<Rightarrow> hand_error + operation_result" where
  "expect_result m =
     (case m of Default_result r \<Rightarrow> Inr r | Error_message d \<Rightarrow> Inl (Remote d) | _ \<Rightarrow> Inl Unconfirmed)"

definition lift_domain :: "dc_error + 'a \<Rightarrow> hand_error + 'a" where
  "lift_domain r = (case r of Inl e \<Rightarrow> Inl (Domain e) | Inr x \<Rightarrow> Inr x)"

definition exchange :: "priority_request \<Rightarrow> (channel, hand_error, operation_result) action" where
  "exchange rq =
     sbind receive (\<lambda>m.
     sbind (spure (ensure (m = Default_hello hand_version) Incompatible)) (\<lambda>_.
     sbind (send (Default_apply rq)) (\<lambda>_.
     sbind receive (\<lambda>m.
     sbind (spure (expect_result m)) (\<lambda>result.
     sbind (spure (lift_domain (snapshot_validate (or_snapshot result)))) (\<lambda>_.
     sbind (spure (lift_domain (if or_success result then verify_after rq (or_snapshot result) else Inr ()))) (\<lambda>_.
     sbind (send Default_ack) (\<lambda>_.
     sbind receive (\<lambda>m.
     sbind (spure (ensure (m = Default_finished True) No_final_receipt)) (\<lambda>_.
     spure (Inr result)))))))))))"

text \<open>\<open>control\<close> after the exchange, once the process has exited with \<open>exit_code\<close>.\<close>

definition control_outcome ::
    "hand_error + operation_result \<Rightarrow> hand_error + nat \<Rightarrow> hand_error + operation_result" where
  "control_outcome r exit_code =
     rbind r (\<lambda>result.
     rbind (if or_success result
            then rbind exit_code (\<lambda>c. ensure (c = 0) Ended_unconfirmed) else Inr ()) (\<lambda>_. Inr result))"

text \<open>The component's end, over the settings \<open>'s\<close> and its channel.\<close>

definition on_channel ::
    "(channel, hand_error, 'a) action \<Rightarrow> (channel \<times> 's, hand_error, 'a) action" where
  "on_channel m st = (case st of (ch, s) \<Rightarrow> case m ch of (r, ch') \<Rightarrow> (r, ch', s))"

definition acknowledged ::
    "('s \<Rightarrow> bool) \<Rightarrow> operation_result \<Rightarrow> (channel \<times> 's, hand_error, unit) action" where
  "acknowledged alive result =
     sbind (on_channel (send (Default_result result))) (\<lambda>_.
     sbind (on_channel receive) (\<lambda>m.
     sbind (sget (\<lambda>(ch, s). alive s)) (\<lambda>still.
     spure (ensure (m = Default_ack \<and> still) Ack_missing))))"

definition serve ::
    "'s settings_ops \<Rightarrow> ('s \<Rightarrow> bool) \<Rightarrow> (channel \<times> 's, hand_error, unit) action" where
  "serve ops alive =
     sbind (on_channel (send (Default_hello hand_version))) (\<lambda>_.
     sbind (on_channel receive) (\<lambda>m. \<lambda>(ch, s).
       (case m of
          Default_apply rq \<Rightarrow>
            (case priority_apply ops alive rq s of
               (Inl e, s1) \<Rightarrow> (Inl (Domain e), snd (send (Error_message (dc_text e)) ch), s1)
             | (Inr receipt, s1) \<Rightarrow>
                 (case acknowledged alive (rc_result receipt) (ch, s1) of
                    (Inl e, ch2, s2) \<Rightarrow>
                      (Inl e, ch2, if or_success (rc_result receipt) then snd (revert ops receipt s2) else s2)
                  | (Inr _, ch2, s2) \<Rightarrow>
                      sbind (on_channel (send (Default_finished True))) (\<lambda>_.
                        spure (ensure (or_success (rc_result receipt) \<or> or_rollback_confirmed (rc_result receipt))
                                 (Rollback_incomplete (or_detail (rc_result receipt))))) (ch2, s2)))
        | _ \<Rightarrow> (Inl Invalid_request, ch, s))))"

subsection \<open>The panel\<close>

lemma expect_result_Inr [result_simps]: "expect_result m = Inr r \<longleftrightarrow> m = Default_result r"
  by (auto simp: expect_result_def split: message.splits)

lemma lift_domain_Inr [result_simps]: "lift_domain r = Inr x \<longleftrightarrow> r = Inr x"
  by (auto simp: lift_domain_def split: sum.splits)

text \<open>
  The panel accepts a result only from a complete exchange: the component said hello with the
  right version, sent the result and, after the acknowledgement, the final receipt; a result that
  claims success carries a snapshot the request verifies.
\<close>

theorem exchange_accepts:
  assumes "exchange rq ch = (Inr result, ch')"
  shows "take 3 (ch_received ch) = [Some (Default_hello hand_version), Some (Default_result result), Some (Default_finished True)] \<and>
    ch_sent ch' = ch_sent ch @ [Default_apply rq, Default_ack] \<and>
    snapshot_ok (or_snapshot result) \<and>
    (if or_success result then verify_after rq (or_snapshot result) = Inr () else True)"
  using assms
  by (auto simp: exchange_def result_simps snapshot_ok_def numeral_3_eq_3 split: if_splits)

subsection \<open>The component\<close>

lemma acknowledged_facts:
  assumes "acknowledged alive result (ch, s) = (r, ch', s')"
  shows "s' = s"
    "r = Inr () \<Longrightarrow> alive s \<and> (\<exists>rest. ch_received ch = Some Default_ack # rest) \<and>
       ch_sent ch' = ch_sent ch @ [Default_result result]"
proof -
  obtain a ch1 where a: "send (Default_result result) ch = (a, ch1)" by force
  note rec = send_to_received [OF a]
  obtain b ch2 where b: "receive ch1 = (b, ch2)" by force
  show "s' = s"
    using assms a b by (cases a; cases b) (auto simp: acknowledged_def on_channel_def sbind_def)
  show "r = Inr () \<Longrightarrow> alive s \<and> (\<exists>rest. ch_received ch = Some Default_ack # rest) \<and>
       ch_sent ch' = ch_sent ch @ [Default_result result]"
    using assms rec by (auto simp: acknowledged_def on_channel_def result_simps split: prod.splits)
qed

text \<open>
  C6: a change is kept only if the panel acknowledged it while the owner was alive: the component
  ends without an error only after the request, the acknowledgement and its final receipt; and when
  it fails, either nothing was applied, or what it applied with success was acknowledged, or it has
  reverted the settings.
\<close>

theorem serve_keeps_only_acknowledged:
  "case serve ops alive (ch, s) of
     (Inr _, ch', s') \<Rightarrow>
       \<exists>rq rest receipt. ch_received ch = Some (Default_apply rq) # Some Default_ack # rest \<and>
         priority_apply ops alive rq s = (Inr receipt, s') \<and> alive s' \<and>
         (or_success (rc_result receipt) \<or> or_rollback_confirmed (rc_result receipt)) \<and>
         ch_sent ch' = ch_sent ch @ [Default_hello hand_version, Default_result (rc_result receipt), Default_finished True]
   | (Inl e, ch', s') \<Rightarrow>
       s' = s \<or>
       (\<exists>rq rest. ch_received ch = Some (Default_apply rq) # rest \<and>
          (case priority_apply ops alive rq s of
             (Inl _, s1) \<Rightarrow> s' = s1
           | (Inr receipt, s1) \<Rightarrow>
               s' = s1 \<and> (if or_success (rc_result receipt)
                           then alive s1 \<and> (\<exists>later. rest = Some Default_ack # later) else True) \<or>
               s' = snd (revert ops receipt s1)))"
proof -
  obtain h ch1 where h: "send (Default_hello hand_version) ch = (h, ch1)" by force
  obtain m ch2 where m: "receive ch1 = (m, ch2)" by force
  note rec = send_to_received [OF h]
  show ?thesis
  proof (cases "\<exists>rq. h = Inr () \<and> m = Inr (Default_apply rq)")
    case False
    then show ?thesis
      using h m by (cases h; cases m)
        (auto simp: serve_def on_channel_def sbind_def split: message.splits)
  next
    case True
    then obtain rq where rq: "h = Inr ()" "m = Inr (Default_apply rq)" by blast
    then obtain rest where rest: "ch_received ch = Some (Default_apply rq) # rest" "ch_received ch2 = rest"
        "ch_sent ch2 = ch_sent ch @ [Default_hello hand_version]"
      using m h rec by (auto simp: result_simps)
    obtain p s1 where p: "priority_apply ops alive rq s = (p, s1)" by force
    show ?thesis
    proof (cases p)
      case (Inl e)
      then show ?thesis
        using h m rq p rest by (simp add: serve_def on_channel_def sbind_def)
    next
      case (Inr receipt)
      obtain k ch3 s2 where k: "acknowledged alive (rc_result receipt) (ch2, s1) = (k, ch3, s2)"
        by (metis prod_cases3)
      note kf = acknowledged_facts [OF k]
      have run: "serve ops alive (ch, s) =
         (case k of
            Inl e \<Rightarrow> (Inl e, ch3, if or_success (rc_result receipt) then snd (revert ops receipt s1) else s1)
          | Inr _ \<Rightarrow>
              sbind (on_channel (send (Default_finished True))) (\<lambda>_.
                spure (ensure (or_success (rc_result receipt) \<or> or_rollback_confirmed (rc_result receipt))
                   (Rollback_incomplete (or_detail (rc_result receipt))))) (ch3, s1))"
        using h m rq p Inr k kf(1) by (cases k) (simp_all add: serve_def on_channel_def sbind_def)
      show ?thesis
      proof (cases k)
        case k: (Inl e)
        then show ?thesis
          using run rest p Inr by auto
      next
        case k: (Inr u)
        then have ack: "alive s1" "\<exists>later. rest = Some Default_ack # later"
            "ch_sent ch3 = ch_sent ch2 @ [Default_result (rc_result receipt)]"
          using kf(2) rest by auto
        obtain f ch4 where f: "send (Default_finished True) ch3 = (f, ch4)" by force
        show ?thesis
        proof (cases "f = Inr () \<and> (or_success (rc_result receipt) \<or> or_rollback_confirmed (rc_result receipt))")
          case True
          then have "serve ops alive (ch, s) = (Inr (), ch4, s1)"
            using run k f by (simp add: on_channel_def sbind_def)
          moreover have "ch_sent ch4 = ch_sent ch3 @ [Default_finished True]"
            using f True by (auto simp: result_simps)
          ultimately show ?thesis
            using True ack rest p Inr by auto
        next
          case False
          then obtain e where "serve ops alive (ch, s) = (Inl e, ch4, s1)"
            using run k f by (cases f) (auto simp: on_channel_def sbind_def)
          then show ?thesis
            using ack rest p Inr by auto
        qed
      qed
    qed
  qed
qed

definition open_channel :: "message list \<Rightarrow> channel" where
  "open_channel ms = \<lparr>ch_received = map Some ms, ch_sends = [], ch_sent = []\<rparr>"

text \<open>
  C36: the two ends fit together over any settings that carry out the writes they accept, whatever
  else their state \<open>'s\<close> holds: over channels that lose nothing, with an owner that stays alive and
  settings nobody else changes, the panel accepts what the component sends for a prepared request,
  the component accepts what the panel sends, and the settings end as requested.
\<close>

theorem handover_succeeds:
  assumes "settings_store ops view" "prepare (view s) p existing = Inr (j, rq)"
  shows "\<exists>component s' panel result.
    serve ops (\<lambda>_. True) (open_channel [Default_apply rq, Default_ack], s) = (Inr (), component, s') \<and>
    view s' = carried_out (rq_changes rq) (view s) \<and>
    exchange rq (open_channel (ch_sent component)) = (Inr result, panel) \<and>
    ch_sent panel = [Default_apply rq, Default_ack] \<and>
    or_success result \<and> or_snapshot result = view s'"
proof -
  note p = prepare_Inr [OF assms(2)]
  from p(1) obtain managed where plan: "plan (view s) p managed = Inr (rq_changes rq)" by blast
  have "rq = \<lparr>rq_expected = view s, rq_changes = rq_changes rq, rq_preferred = Some p\<rparr>"
    using p(2,3) by simp
  then have "validate_against rq (view s) = Inr ()"
    using plan_request_valid [OF plan] by metis
  from settings_store.apply_reaches [OF assms(1) this p(3)] obtain rc s' where
    a: "priority_apply ops (\<lambda>_. True) rq s = (Inr rc, s')" "view s' = carried_out (rq_changes rq) (view s)"
      "or_success (rc_result rc)" "or_snapshot (rc_result rc) = view s'" "verify_after rq (view s') = Inr ()"
    by blast
  have ok: "snapshot_validate (view s') = Inr ()"
    using carried_out_ok [OF plan_metrics(1) [OF plan]] by (simp add: snapshot_ok_def a(2))
  show ?thesis
    using a ok
    by (simp add: serve_def acknowledged_def on_channel_def sbind_def open_channel_def send_to_def receive_from_def
        exchange_def expect_result_def lift_domain_def)
qed

theorem handover_succeeds_witness:
  "\<exists>component panel result.
    serve memory_ops (\<lambda>_. True) (open_channel
       [Default_apply \<lparr>rq_expected = two_interfaces, rq_changes = wifi_first, rq_preferred = Some 2\<rparr>, Default_ack],
       two_interfaces)
      = (Inr (), component, carried_out wifi_first two_interfaces) \<and>
    exchange \<lparr>rq_expected = two_interfaces, rq_changes = wifi_first, rq_preferred = Some 2\<rparr>
      (open_channel (ch_sent component)) = (Inr result, panel) \<and> or_success result"
proof -
  obtain j where j: "prepare two_interfaces 2 None
      = Inr (j, \<lparr>rq_expected = two_interfaces, rq_changes = wifi_first, rq_preferred = Some 2\<rparr>)"
    using two_interfaces_prepare by blast
  from handover_succeeds [OF memory.settings_store_axioms j] show ?thesis by auto
qed

theorem exchange_accepts_witness:
  "\<exists>ch result panel.
    exchange \<lparr>rq_expected = two_interfaces, rq_changes = wifi_first, rq_preferred = Some 2\<rparr> ch = (Inr result, panel) \<and>
    take 3 (ch_received ch) = [Some (Default_hello hand_version), Some (Default_result result), Some (Default_finished True)]"
proof -
  define r where "r = \<lparr>or_snapshot = two_interfaces, or_success = False, or_detail = [], or_rollback_confirmed = True\<rparr>"
  obtain panel where e: "exchange \<lparr>rq_expected = two_interfaces, rq_changes = wifi_first, rq_preferred = Some 2\<rparr>
      (open_channel [Default_hello hand_version, Default_result r, Default_finished True]) = (Inr r, panel)"
    by (simp add: exchange_def open_channel_def receive_from_def send_to_def sbind_def expect_result_def
        lift_domain_def r_def two_interfaces_valid)
  from exchange_accepts [OF e] e show ?thesis by blast
qed

end
