(* ===== verification/Text.thy ===== *)
theory Text
  imports Utf8
begin

text \<open>
  More of Rust's \<open>str\<close>: lines, prefixes and suffixes, and the texts that trimming leaves alone.
\<close>

text \<open>\<open>str::lines\<close>: the pieces between line feeds, each without a carriage return
  before its line feed, and without an empty last piece.\<close>

definition strip_cr :: "string \<Rightarrow> string" where
  "strip_cr l = (if l \<noteq> [] \<and> code (last l) = 13 then butlast l else l)"

definition text_lines :: "string \<Rightarrow> string list" where
  "text_lines s =
     (let ls = split_on (char_of (10::nat)) s in
      map strip_cr (butlast ls) @ (if last ls = [] then [] else [last ls]))"

definition starts_with :: "string \<Rightarrow> string \<Rightarrow> bool" where
  "starts_with p s \<longleftrightarrow> take (length p) s = p"

definition ends_with :: "string \<Rightarrow> string \<Rightarrow> bool" where
  "ends_with p s \<longleftrightarrow> length p \<le> length s \<and> drop (length s - length p) s = p"

text \<open>A text with plain ASCII at both ends is its own trimming.\<close>

definition plain :: "char \<Rightarrow> bool" where
  "plain c \<longleftrightarrow> 33 \<le> code c \<and> code c < 128"

lemma strip_first_None:
  "(\<And>w. w \<in> set ws \<Longrightarrow> w \<noteq> [] \<and> hd w \<noteq> c) \<Longrightarrow> strip_first ws (c # s) = None"
proof (induction ws)
  case Nil
  then show ?case by simp
next
  case (Cons w ws)
  have "w \<noteq> []" "hd w \<noteq> c" using Cons.prems [of w] by simp_all
  then have "\<not> prefix w (c # s)" by (cases w) auto
  with Cons show ?case by simp
qed

lemma white_space_ends:
  assumes "w \<in> set white_space" "plain c"
  shows "w \<noteq> [] \<and> hd w \<noteq> c" "rev w \<noteq> [] \<and> hd (rev w) \<noteq> c"
proof -
  have "\<not> plain (char_of n)" if "n \<in> {9, 10, 11, 12, 13, 32} \<union> {128..<256}" for n :: nat
    using that by (auto simp: plain_def)
  then have *: "c \<noteq> char_of n" if "n \<in> {9, 10, 11, 12, 13, 32} \<union> {128..<256}" for n :: nat
    using that assms(2) by blast
  obtain x where x: "w = byte_string x" "x \<noteq> []" "hd x \<in> {9, 10, 11, 12, 13, 32} \<union> {128..<256}"
      "last x \<in> {9, 10, 11, 12, 13, 32} \<union> {128..<256}"
    using assms(1) unfolding white_space_def set_map set_append by (elim imageE UnE) auto
  show "w \<noteq> [] \<and> hd w \<noteq> c"
    using x(2) * [OF x(3)] by (auto simp: x(1) byte_string_def hd_map)
  show "rev w \<noteq> [] \<and> hd (rev w) \<noteq> c"
    using x(2) * [OF x(4)] by (auto simp: x(1) byte_string_def hd_rev last_map)
qed

lemma trim_same:
  assumes "s = c # t" "plain c" "plain (last s)"
  shows "trim s = s"
proof -
  have "strip_first white_space s = None"
    unfolding assms(1) using white_space_ends(1) [OF _ assms(2)] by (intro strip_first_None)
  moreover have "rev s = last s # tl (rev s)"
    by (cases s rule: rev_cases) (use assms(1) in auto)
  then have "strip_first (map rev white_space) (rev s) = None"
    using white_space_ends(2) [OF _ assms(3)] by (metis (no_types, lifting) imageE list.set_map strip_first_None)
  ultimately show ?thesis
    by (simp add: trim_def trim_start_def trim_end_def trim_start_of.simps)
qed

end
