(* ===== verification/Quality.thy ===== *)
theory Quality
  imports Text Model
begin

text \<open>
  \<open>crates/netlane-core/src/quality.rs\<close>: the quality sessions. Targets and their parsing (the \<open>url\<close>
  crate is a parameter that gives the parts of a URL), the window of samples and its rating, and the
  monitor: phases, rows per adapter, workers in flight and the guards that drop stale results.

  Durations are nanoseconds. \<open>f64\<close> is a type \<open>'f\<close> with the operations the code uses, as the record
  \<open>float_ops\<close>; nothing is assumed of them. The flags shared through \<open>Arc<AtomicBool>\<close> are a list of
  flags in the monitor and their indices. The clock and the revisions do not reach their 64 bits;
  the generation wraps as the code has it.
\<close>

definition probe_interval :: nat where "probe_interval = 5 * 1000000000"
definition max_age :: nat where "max_age = 60 * 1000000000"
definition workers :: nat where "workers = 4"

datatype probe_mode = Icmp | Https

datatype quality_error =
    Target_text
  | Target_ipv4
  | Target_unicast
  | Target_url
  | Target_https
  | Target_host
  | Target_length

subsection \<open>IPv4 addresses\<close>

text \<open>\<open>str::parse::<Ipv4Addr>\<close>: four decimal octets of at most three digits without leading zeros.\<close>

definition parse_octet :: "string \<Rightarrow> nat option" where
  "parse_octet s =
     (if 3 < length s \<or> (1 < length s \<and> hd s = CHR ''0'') then None
      else (case parse_digits s of None \<Rightarrow> None | Some n \<Rightarrow> if n < 256 then Some n else None))"

definition parse_ipv4 :: "string \<Rightarrow> nat list option" where
  "parse_ipv4 s =
     (case map parse_octet (split_on (CHR ''.'') s) of
        [Some a, Some b, Some c, Some d] \<Rightarrow> Some [a, b, c, d]
      | _ \<Rightarrow> None)"

definition ipv4_string :: "nat list \<Rightarrow> string" where
  "ipv4_string os = dec (os ! 0) @ ''.'' @ dec (os ! 1) @ ''.'' @ dec (os ! 2) @ ''.'' @ dec (os ! 3)"

subsection \<open>Targets\<close>

record probe_target =
  tg_mode :: probe_mode
  tg_host :: string
  tg_label :: string
  tg_port :: nat
  tg_request_path :: string

datatype url_host = Domain string | Host_ipv4 "nat list" | Host_ipv6

record parsed_url =
  pu_scheme :: string
  pu_username :: string
  pu_password :: "string option"
  pu_fragment :: "string option"
  pu_port :: "nat option"
  pu_host :: "url_host option"
  pu_path :: string
  pu_query :: "string option"
  pu_text :: string

definition icmp_target :: "string \<Rightarrow> quality_error + probe_target" where
  "icmp_target text =
     rbind (ok_or (parse_ipv4 text) Target_ipv4) (\<lambda>a.
     rbind (ensure (a \<noteq> [0, 0, 0, 0] \<and> a ! 0 < 224) Target_unicast) (\<lambda>_.
       Inr \<lparr>tg_mode = Icmp, tg_host = ipv4_string a, tg_label = ipv4_string a, tg_port = 0,
            tg_request_path = []\<rparr>))"

definition url_host_text :: "url_host option \<Rightarrow> quality_error + string" where
  "url_host_text h =
     (case h of
        Some (Domain s) \<Rightarrow> Inr s
      | Some (Host_ipv4 a) \<Rightarrow> Inr (ipv4_string a)
      | _ \<Rightarrow> Inl Target_host)"

definition https_target :: "(string \<Rightarrow> parsed_url option) \<Rightarrow> string \<Rightarrow> quality_error + probe_target" where
  "https_target url_parse text =
     rbind (ok_or (url_parse (if find_str ''://'' text \<noteq> None then text else ''https://'' @ text)) Target_url) (\<lambda>u.
     rbind (ensure (pu_scheme u = ''https'' \<and> pu_username u = [] \<and> pu_password u = None \<and>
                    pu_fragment u = None \<and> (case pu_port u of None \<Rightarrow> False | Some p \<Rightarrow> 0 < p)) Target_https) (\<lambda>_.
     rbind (url_host_text (pu_host u)) (\<lambda>host.
     rbind (ensure (host \<noteq> [] \<and> length (pu_text u) \<le> 512) Target_length) (\<lambda>_.
       Inr \<lparr>tg_mode = Https, tg_host = host, tg_label = pu_text u, tg_port = the (pu_port u),
            tg_request_path = (case pu_query u of
               Some q \<Rightarrow> pu_path u @ ''?'' @ q | None \<Rightarrow> pu_path u)\<rparr>))))"

definition target_parse ::
    "(string \<Rightarrow> parsed_url option) \<Rightarrow> probe_mode \<Rightarrow> string \<Rightarrow> quality_error + probe_target" where
  "target_parse url_parse mode text0 =
     (let text = trim text0 in
      rbind (ensure (text \<noteq> [] \<and> length text \<le> 512 \<and> \<not> has_control text) Target_text) (\<lambda>_.
      if mode = Icmp then icmp_target text else https_target url_parse text))"

subsection \<open>Windows of samples\<close>

record 'f float_ops =
  fo_zero :: 'f
  fo_sum_start :: 'f
  fo_of_nat :: "nat \<Rightarrow> 'f"
  fo_add :: "'f \<Rightarrow> 'f \<Rightarrow> 'f"
  fo_sub :: "'f \<Rightarrow> 'f \<Rightarrow> 'f"
  fo_mul :: "'f \<Rightarrow> 'f \<Rightarrow> 'f"
  fo_div :: "'f \<Rightarrow> 'f \<Rightarrow> 'f"
  fo_abs :: "'f \<Rightarrow> 'f"
  fo_ge :: "'f \<Rightarrow> 'f \<Rightarrow> bool"
  fo_gt :: "'f \<Rightarrow> 'f \<Rightarrow> bool"
  fo_finite :: "'f \<Rightarrow> bool"

datatype outcome = Success | No_response | Unavailable | Probe_error

record 'f probe_result =
  pr_outcome :: outcome
  pr_milliseconds :: "'f option"
  pr_detail :: string
  pr_source :: string
  pr_index :: nat

definition probe_result_new :: "outcome \<Rightarrow> 'f option \<Rightarrow> string \<Rightarrow> 'f probe_result" where
  "probe_result_new oc ms d =
     \<lparr>pr_outcome = oc, pr_milliseconds = ms, pr_detail = d, pr_source = [], pr_index = 0\<rparr>"

datatype rating = Unknown | Collecting | Good | Fair | Poor | Silent

fun rating_label :: "rating \<Rightarrow> string" where
  "rating_label Unknown = ''Aguardando amostras''"
| "rating_label Collecting = ''Medindo''"
| "rating_label Good = ''Boa''"
| "rating_label Fair = (''Aten'' @ byte_string [195, 167, 195, 163] @ ''o'')"
| "rating_label Poor = ''Ruim''"
| "rating_label Silent = ''Sem resposta''"

record 'f quality_summary =
  qs_samples :: nat
  qs_replies :: nat
  qs_latency :: "'f option"
  qs_jitter :: "'f option"
  qs_failure :: "'f option"
  qs_rating :: rating

definition summary_default :: "'f quality_summary" where
  "summary_default =
     \<lparr>qs_samples = 0, qs_replies = 0, qs_latency = None, qs_jitter = None, qs_failure = None,
      qs_rating = Unknown\<rparr>"

type_synonym 'f window = "(nat \<times> 'f option) list"

definition usable :: "'f float_ops \<Rightarrow> 'f probe_result \<Rightarrow> bool" where
  "usable fo r = (case pr_milliseconds r of None \<Rightarrow> False | Some v \<Rightarrow> fo_finite fo v \<and> fo_ge fo v (fo_zero fo))"

definition expire :: "nat \<Rightarrow> 'f window \<Rightarrow> 'f window" where
  "expire now w = dropWhile (\<lambda>(at, _). max_age \<le> now - at) w"

definition window_add :: "'f float_ops \<Rightarrow> nat \<Rightarrow> 'f probe_result \<Rightarrow> 'f window \<Rightarrow> 'f window" where
  "window_add fo now r w =
     (let w1 = (if pr_outcome r = Success \<and> usable fo r then w @ [(now, pr_milliseconds r)]
                else if pr_outcome r = No_response then w @ [(now, None)]
                else []);
          w2 = drop (length w1 - 12) w1
      in expire now w2)"

definition float_sum :: "'f float_ops \<Rightarrow> 'f list \<Rightarrow> 'f" where
  "float_sum fo xs = fold (\<lambda>x acc. fo_add fo acc x) xs (fo_sum_start fo)"

definition float_mean :: "'f float_ops \<Rightarrow> 'f list \<Rightarrow> 'f option" where
  "float_mean fo xs =
     (if xs = [] then None else Some (fo_div fo (float_sum fo xs) (fo_of_nat fo (length xs))))"

text \<open>Neighbouring samples that both have a value.\<close>

definition differences :: "'f float_ops \<Rightarrow> 'f window \<Rightarrow> 'f list" where
  "differences fo w =
     List.map_filter (\<lambda>((_, a), (_, b)).
       case (a, b) of (Some x, Some y) \<Rightarrow> Some (fo_abs fo (fo_sub fo x y)) | _ \<Rightarrow> None) (zip w (tl w))"

text \<open>The comparisons of \<open>Option<f64>\<close> with \<open>Some\<close>.\<close>

definition opt_ge :: "'f float_ops \<Rightarrow> 'f option \<Rightarrow> nat \<Rightarrow> bool" where
  "opt_ge fo x n = (case x of None \<Rightarrow> False | Some v \<Rightarrow> fo_ge fo v (fo_of_nat fo n))"

definition opt_gt :: "'f float_ops \<Rightarrow> 'f option \<Rightarrow> nat \<Rightarrow> bool" where
  "opt_gt fo x n = (case x of None \<Rightarrow> False | Some v \<Rightarrow> fo_gt fo v (fo_of_nat fo n))"

definition rate ::
    "'f float_ops \<Rightarrow> probe_mode \<Rightarrow> nat \<Rightarrow> nat \<Rightarrow> 'f option \<Rightarrow> 'f option \<Rightarrow> 'f option \<Rightarrow> rating" where
  "rate fo mode samples replies latency jitter failure =
     (let (fair_latency, poor_latency, fair_jitter, poor_jitter) =
            (if mode = Icmp then (80, 150, 15, 40) else (500, 1500, 150, 400)) in
      if samples = 0 then Unknown
      else if samples < 5 then Collecting
      else if replies = 0 then Silent
      else if opt_ge fo failure 20 \<or> opt_ge fo latency poor_latency \<or> opt_ge fo jitter poor_jitter then Poor
      else if opt_gt fo failure 0 \<or> opt_ge fo latency fair_latency \<or> opt_ge fo jitter fair_jitter then Fair
      else Good)"

definition summarize_window :: "'f float_ops \<Rightarrow> nat \<Rightarrow> probe_mode \<Rightarrow> 'f window \<Rightarrow> 'f quality_summary \<times> 'f window" where
  "summarize_window fo now mode w0 =
     (let w = expire now w0;
          samples = length w;
          replies = List.map_filter snd w;
          latency = float_mean fo replies;
          jitter = float_mean fo (differences fo w);
          failure = (if 0 < samples
            then Some (fo_div fo (fo_mul fo (fo_of_nat fo 100) (fo_of_nat fo (samples - length replies)))
                         (fo_of_nat fo samples))
            else None)
      in (\<lparr>qs_samples = samples, qs_replies = length replies, qs_latency = latency, qs_jitter = jitter,
           qs_failure = failure,
           qs_rating = rate fo mode samples (length replies) latency jitter failure\<rparr>, w))"

subsection \<open>The monitor\<close>

record identity =
  id_uuid :: nat
  id_luid :: nat
  id_address :: "nat list"

text \<open>\<open>trim_matches(['{', '}'])\<close>.\<close>

definition trim_braces :: "string \<Rightarrow> string" where
  "trim_braces s =
     (let brace = (\<lambda>c. c = CHR ''{'' \<or> c = CHR ''}'')
      in rev (dropWhile brace (rev (dropWhile brace s))))"

definition usable_address :: "string \<Rightarrow> nat list option" where
  "usable_address s =
     (case parse_ipv4 s of
        None \<Rightarrow> None
      | Some a \<Rightarrow> if a \<noteq> [0, 0, 0, 0] \<and> a ! 0 \<noteq> 127 \<and> a ! 0 < 224 then Some a else None)"

definition identity_of :: "(string \<Rightarrow> nat option) \<Rightarrow> adapter \<Rightarrow> identity option" where
  "identity_of uuid a =
     (if \<not> (a_connected a \<and> a_ipv4 a \<and> 0 < a_luid a) then None
      else (case uuid (trim_braces (a_id a)) of
          None \<Rightarrow> None
        | Some u \<Rightarrow>
            (case List.map_filter usable_address (a_addresses a) of
               [] \<Rightarrow> None
             | ad # _ \<Rightarrow> Some \<lparr>id_uuid = u, id_luid = a_luid a, id_address = ad\<rparr>)))"

record 'f row =
  rw_identity :: "identity option"
  rw_revision :: nat
  rw_ticket :: "nat option"
  rw_checked :: "nat option"
  rw_window :: "'f window"
  rw_last :: "(nat \<times> 'f probe_result) option"
  rw_summary :: "'f quality_summary"
  rw_state :: string

definition row_new :: "identity option \<Rightarrow> nat \<Rightarrow> 'f row" where
  "row_new identity revision =
     \<lparr>rw_identity = identity, rw_revision = revision, rw_ticket = None, rw_checked = None, rw_window = [],
      rw_last = None, rw_summary = summary_default,
      rw_state = (if identity \<noteq> None then ''Aguardando amostras'' else (''Indispon'' @ byte_string [195, 173] @ ''vel''))\<rparr>"

definition row_label :: "'f row \<Rightarrow> string" where
  "row_label r =
     (if rw_state r \<noteq> [] then rw_state r
      else if qs_rating (rw_summary r) = Collecting
      then (''Medindo '' @ byte_string [194, 183] @ '' '') @ dec (qs_samples (rw_summary r)) @ ''/5''
      else rating_label (qs_rating (rw_summary r)))"

datatype phase = Idle | Preparing | Active

record probe_request =
  rq_adapter :: adapter
  rq_target :: probe_target
  rq_destination :: "nat list"
  rq_cancel :: nat
  rq_generation :: u64
  rq_ticket :: nat
  rq_revision :: nat

record 'f monitor =
  mo_phase :: phase
  mo_target :: "probe_target option"
  mo_destination :: "nat list option"
  mo_rows :: "string \<Rightarrow> 'f row option"
  mo_generation :: u64
  mo_clock :: nat
  mo_active :: "nat list"
  mo_cancel :: nat
  mo_flags :: "bool list"

definition monitor_default :: "'f monitor" where
  "monitor_default =
     \<lparr>mo_phase = Idle, mo_target = None, mo_destination = None, mo_rows = Map.empty, mo_generation = 0,
      mo_clock = 0, mo_active = [], mo_cancel = 0, mo_flags = [False]\<rparr>"

definition monitor_stop :: "'f monitor \<Rightarrow> 'f monitor" where
  "monitor_stop m =
     m\<lparr>mo_flags := (mo_flags m)[mo_cancel m := True], mo_generation := mo_generation m + 1,
       mo_phase := Idle, mo_target := None, mo_destination := None, mo_rows := Map.empty\<rparr>"

definition monitor_begin :: "probe_target \<Rightarrow> 'f monitor \<Rightarrow> u64 \<times> 'f monitor" where
  "monitor_begin t m0 =
     (let m = monitor_stop m0;
          m' = m\<lparr>mo_phase := Preparing, mo_target := Some t, mo_cancel := length (mo_flags m),
                 mo_flags := mo_flags m @ [False]\<rparr>
      in (mo_generation m', m'))"

definition monitor_activate :: "u64 \<Rightarrow> nat list \<Rightarrow> 'f monitor \<Rightarrow> bool \<times> 'f monitor" where
  "monitor_activate generation destination m =
     (if generation \<noteq> mo_generation m \<or> mo_phase m \<noteq> Preparing \<or> mo_flags m ! mo_cancel m then (False, m)
      else (True, m\<lparr>mo_destination := Some destination, mo_phase := Active\<rparr>))"

text \<open>One visible adapter of \<open>sync\<close>.\<close>

definition sync_row ::
    "'f float_ops \<Rightarrow> (string \<Rightarrow> nat option) \<Rightarrow> nat \<Rightarrow> adapter \<Rightarrow> 'f monitor \<Rightarrow> 'f monitor" where
  "sync_row fo uuid now a m0 =
     (let identity = identity_of uuid a;
          fresh = (case mo_rows m0 (a_id a) of None \<Rightarrow> True | Some r \<Rightarrow> rw_identity r \<noteq> identity);
          m = (if fresh
               then m0\<lparr>mo_clock := mo_clock m0 + 1,
                       mo_rows := (mo_rows m0)(a_id a \<mapsto> row_new identity (mo_clock m0 + 1))\<rparr>
               else m0);
          r = the (mo_rows m (a_id a))
      in (case summarize_window fo now (tg_mode (the (mo_target m))) (rw_window r) of (s, w) \<Rightarrow>
            m\<lparr>mo_rows := (mo_rows m)(a_id a \<mapsto>
               r\<lparr>rw_window := w, rw_summary := s,
                 rw_state := (if rw_state r = [] \<and> qs_samples s = 0 then ''Aguardando amostras''
                              else rw_state r)\<rparr>)\<rparr>))"

definition visible :: "adapter list \<Rightarrow> string list \<Rightarrow> adapter list" where
  "visible adapters selected = take 128 (filter (\<lambda>a. a_id a \<in> set selected) adapters)"

definition monitor_sync ::
    "'f float_ops \<Rightarrow> (string \<Rightarrow> nat option) \<Rightarrow> adapter list \<Rightarrow> string list \<Rightarrow> nat \<Rightarrow> 'f monitor \<Rightarrow> 'f monitor" where
  "monitor_sync fo uuid adapters selected now m =
     (if mo_phase m \<noteq> Active then m
      else fold (sync_row fo uuid now) (visible adapters selected)
             (m\<lparr>mo_rows := (mo_rows m) |` (a_id ` set (visible adapters selected))\<rparr>))"

definition due :: "nat \<Rightarrow> 'f row \<Rightarrow> bool" where
  "due now r \<longleftrightarrow>
     rw_identity r \<noteq> None \<and> rw_ticket r = None \<and>
     (case rw_checked r of None \<Rightarrow> True | Some last_at \<Rightarrow> probe_interval \<le> now - last_at)"

text \<open>The loop of \<open>prepare\<close> over the adapters in order.\<close>

fun issue :: "nat \<Rightarrow> adapter list \<Rightarrow> 'f monitor \<Rightarrow> probe_request list \<times> 'f monitor" where
  "issue now [] m = ([], m)"
| "issue now (a # as) m =
     (if workers \<le> length (mo_active m) then ([], m)
      else (case mo_rows m (a_id a) of
          None \<Rightarrow> issue now as m
        | Some r \<Rightarrow>
            if \<not> due now r then issue now as m
            else
              (let t = mo_clock m + 1;
                   m1 = m\<lparr>mo_clock := t,
                          mo_rows := (mo_rows m)(a_id a \<mapsto> r\<lparr>rw_ticket := Some t, rw_checked := Some now\<rparr>),
                          mo_active := t # mo_active m\<rparr>;
                   rq = \<lparr>rq_adapter = a, rq_target = the (mo_target m), rq_destination = the (mo_destination m),
                         rq_cancel = mo_cancel m, rq_generation = mo_generation m, rq_ticket = t,
                         rq_revision = rw_revision r\<rparr>
               in (case issue now as m1 of (rqs, m2) \<Rightarrow> (rq # rqs, m2)))))"

text \<open>The order of \<open>prepare\<close>: no sample first, then the oldest; \<open>None\<close> is the least \<open>Option\<close>.\<close>

definition checked_key :: "'f monitor \<Rightarrow> adapter \<Rightarrow> nat" where
  "checked_key m a =
     (case mo_rows m (a_id a) of
        None \<Rightarrow> 0
      | Some r \<Rightarrow> (case rw_checked r of None \<Rightarrow> 0 | Some d \<Rightarrow> Suc d))"

definition monitor_prepare ::
    "'f float_ops \<Rightarrow> (string \<Rightarrow> nat option) \<Rightarrow> adapter list \<Rightarrow> string list \<Rightarrow> nat \<Rightarrow> 'f monitor
     \<Rightarrow> probe_request list \<times> 'f monitor" where
  "monitor_prepare fo uuid adapters selected now m0 =
     (let m = monitor_sync fo uuid adapters selected now m0 in
      if mo_phase m \<noteq> Active then ([], m)
      else issue now (sort_key (checked_key m) adapters) m)"

definition result_state :: "'f float_ops \<Rightarrow> 'f probe_result \<Rightarrow> string" where
  "result_state fo r =
     (if pr_outcome r = Success \<and> \<not> usable fo r then ''Erro no teste''
      else (case pr_outcome r of Unavailable \<Rightarrow> (''Indispon'' @ byte_string [195, 173] @ ''vel'') | Probe_error \<Rightarrow> ''Erro no teste'' | _ \<Rightarrow> []))"

definition monitor_complete ::
    "'f float_ops \<Rightarrow> probe_request \<Rightarrow> 'f probe_result \<Rightarrow> nat \<Rightarrow> 'f monitor \<Rightarrow> bool \<times> 'f monitor" where
  "monitor_complete fo rq res now m0 =
     (let m = m0\<lparr>mo_active := remove1 (rq_ticket rq) (mo_active m0)\<rparr> in
      if rq_ticket rq \<notin> set (mo_active m0) \<or> mo_phase m \<noteq> Active \<or> rq_generation rq \<noteq> mo_generation m
      then (False, m)
      else (case mo_rows m (a_id (rq_adapter rq)) of
          None \<Rightarrow> (False, m)
        | Some r \<Rightarrow>
            if rw_revision r \<noteq> rq_revision rq \<or> rw_ticket r \<noteq> Some (rq_ticket rq) then (False, m)
            else
              (case summarize_window fo now (tg_mode (rq_target rq)) (window_add fo now res (rw_window r)) of
                 (s, w) \<Rightarrow>
                   (True, m\<lparr>mo_rows := (mo_rows m)(a_id (rq_adapter rq) \<mapsto>
                      r\<lparr>rw_ticket := None, rw_state := result_state fo res, rw_window := w, rw_summary := s,
                        rw_last := Some (now, res)\<rparr>)\<rparr>))))"

end
