(* ===== verification/Quality_Facts.thy ===== *)
theory Quality_Facts
  imports Quality
begin

text \<open>
  The windows stay bounded and young, and the monitor as a state machine: the steps of its owner and
  of its workers, the invariant of every reachable state, and what becomes of stale results.
\<close>

subsection \<open>Windows\<close>

definition window_ok :: "nat \<Rightarrow> 'f window \<Rightarrow> bool" where
  "window_ok now w \<longleftrightarrow> length w \<le> 12 \<and> sorted (map fst w) \<and> list_all (\<lambda>s. fst s \<le> now) w"

definition window_young :: "nat \<Rightarrow> 'f window \<Rightarrow> bool" where
  "window_young now w \<longleftrightarrow> list_all (\<lambda>s. now - fst s < max_age) w"

lemma expire_young: "sorted (map fst w) \<Longrightarrow> window_young now (expire now w)"
proof (induction w)
  case Nil
  then show ?case by (simp add: expire_def window_young_def)
next
  case (Cons s w)
  obtain at v where s: "s = (at, v)" by force
  show ?case
  proof (cases "max_age \<le> now - at")
    case True
    with Cons s show ?thesis by (simp add: expire_def)
  next
    case False
    have "now - fst t < max_age" if "t \<in> set w" for t
    proof -
      have "at \<le> fst t" using Cons.prems s that by auto
      then have "now - fst t \<le> now - at" by (rule diff_le_mono2)
      with False show ?thesis by simp
    qed
    with False s show ?thesis by (simp add: expire_def window_young_def list_all_iff)
  qed
qed

lemma expire_suffix: "\<exists>k. expire now w = drop k w"
  unfolding expire_def by (metis dropWhile_eq_drop)

lemma sorted_drop_fst: "sorted (map fst w) \<Longrightarrow> sorted (map fst (drop k w))"
  by (simp add: drop_map [symmetric] sorted_wrt_drop)

lemma expire_ok: "window_ok now w \<Longrightarrow> window_ok now (expire now w) \<and> window_young now (expire now w)"
  using expire_young [of w now] expire_suffix [of now w] set_drop_subset
  by (fastforce simp: window_ok_def list_all_iff intro: sorted_drop_fst)

lemma window_add_ok:
  assumes "window_ok before w" "before \<le> now"
  shows "window_ok now (window_add fo now r w) \<and> window_young now (window_add fo now r w)"
proof -
  define w1 where "w1 = (if pr_outcome r = Success \<and> usable fo r then w @ [(now, pr_milliseconds r)]
                else if pr_outcome r = No_response then w @ [(now, None)] else [])"
  have w: "\<And>s. s \<in> set w \<Longrightarrow> fst s \<le> now" "sorted (map fst w)"
    using assms by (auto simp: window_ok_def list_all_iff)
  have w1: "sorted (map fst w1)" "\<And>s. s \<in> set w1 \<Longrightarrow> fst s \<le> now"
    using w by (auto simp: w1_def sorted_append split: if_splits)
  have "window_ok now (drop (length w1 - 12) w1)"
    using w1 set_drop_subset [of "length w1 - 12" w1]
    by (auto simp: window_ok_def list_all_iff intro: sorted_drop_fst)
  then show ?thesis
    using expire_ok by (auto simp: window_add_def w1_def [symmetric] Let_def)
qed

text \<open>
  The window of an adapter never holds more than 12 samples, and when it is rated all of them
  are younger than a minute, in the order they were taken.
\<close>

theorem window_bounded:
  assumes "window_ok before w" "before \<le> now" "now \<le> later"
  shows "(let (s, w') = summarize_window fo later mode (window_add fo now r w) in
    window_ok later w' \<and> window_young later w' \<and> qs_samples s = length w' \<and>
    qs_replies s \<le> qs_samples s \<and> qs_samples s \<le> 12)"
proof -
  have "window_ok now (window_add fo now r w)"
    using window_add_ok [OF assms(1,2)] by blast
  then have "window_ok later (window_add fo now r w)"
    using assms(3) by (auto simp: window_ok_def list_all_iff)
  from expire_ok [OF this] have *: "window_ok later (expire later (window_add fo now r w))"
      "window_young later (expire later (window_add fo now r w))"
    by blast+
  have "length (List.map_filter snd w') \<le> length w'" for w' :: "'a window"
    unfolding List.map_filter_def by simp
  with * show ?thesis
    by (simp add: summarize_window_def Let_def window_ok_def)
qed

text \<open>Natural numbers in the place of the floating point numbers, for concrete runs.\<close>

definition nat_floats :: "nat float_ops" where
  "nat_floats =
     \<lparr>fo_zero = 0, fo_sum_start = 0, fo_of_nat = (\<lambda>n. n), fo_add = (+), fo_sub = (-), fo_mul = (*), fo_div = (div),
      fo_abs = (\<lambda>n. n), fo_ge = (\<ge>), fo_gt = (>), fo_finite = (\<lambda>_. True)\<rparr>"

theorem window_bounded_witness:
  "window_ok 5 ([(3, None), (5, Some 7)] :: nat window) \<and>
   (let (s, w') = summarize_window nat_floats 9 Icmp
           (window_add nat_floats 8 (probe_result_new Success (Some 4) []) [(3, None), (5, Some 7)]) in
    window_ok 9 w' \<and> window_young 9 w' \<and> qs_samples s = length w' \<and>
    qs_replies s \<le> qs_samples s \<and> qs_samples s \<le> 12)"
proof -
  have w: "window_ok 5 ([(3, None), (5, Some 7)] :: nat window)"
    by (simp add: window_ok_def)
  show ?thesis
    by (rule conjI [OF w window_bounded [OF w]]) simp_all
qed

subsection \<open>The monitor as a state machine\<close>

text \<open>
  A state is the monitor with the requests that its workers hold. The owner starts, activates, stops,
  synchronises and prepares; a worker completes one of its requests; anyone may set a cancel flag.
\<close>

inductive monitor_step ::
    "'f float_ops \<Rightarrow> (string \<Rightarrow> nat option) \<Rightarrow> 'f monitor \<times> probe_request list
     \<Rightarrow> 'f monitor \<times> probe_request list \<Rightarrow> bool"
  for fo :: "'f float_ops" and uuid :: "string \<Rightarrow> nat option" where
  begin_step: "monitor_begin t m = (g, m') \<Longrightarrow> monitor_step fo uuid (m, out) (m', out)"
| activate_step: "monitor_activate g d m = (b, m') \<Longrightarrow> monitor_step fo uuid (m, out) (m', out)"
| stop_step: "monitor_step fo uuid (m, out) (monitor_stop m, out)"
| sync_step: "monitor_step fo uuid (m, out) (monitor_sync fo uuid as selected now m, out)"
| prepare_step: "monitor_prepare fo uuid as selected now m = (rqs, m') \<Longrightarrow>
    monitor_step fo uuid (m, out) (m', out @ rqs)"
| complete_step: "rq \<in> set out \<Longrightarrow> monitor_complete fo rq res now m = (b, m') \<Longrightarrow>
    monitor_step fo uuid (m, out) (m', remove1 rq out)"
| cancel_step: "monitor_step fo uuid (m, out) (m\<lparr>mo_flags := (mo_flags m)[i := True]\<rparr>, out)"

definition answered :: "'f monitor \<Rightarrow> probe_request list \<Rightarrow> string \<Rightarrow> 'f row \<Rightarrow> bool" where
  "answered m out i r \<longleftrightarrow>
     (case rw_ticket r of None \<Rightarrow> True
      | Some t \<Rightarrow> \<exists>rq \<in> set out. rq_ticket rq = t \<and> a_id (rq_adapter rq) = i \<and>
          rq_revision rq = rw_revision r \<and> rq_generation rq = mo_generation m)"

definition monitor_inv :: "'f monitor \<times> probe_request list \<Rightarrow> bool" where
  "monitor_inv st \<longleftrightarrow> (case st of (m, out) \<Rightarrow>
     distinct (map rq_ticket out) \<and> set (map rq_ticket out) = set (mo_active m) \<and>
     distinct (mo_active m) \<and> length (mo_active m) \<le> workers \<and>
     (\<forall>t \<in> set (mo_active m). t \<le> mo_clock m) \<and>
     (mo_phase m = Active \<longrightarrow> mo_target m \<noteq> None \<and> mo_destination m \<noteq> None) \<and>
     (mo_phase m = Preparing \<longrightarrow> mo_target m \<noteq> None) \<and>
     (mo_phase m \<noteq> Active \<longrightarrow> mo_rows m = Map.empty) \<and>
     mo_cancel m < length (mo_flags m) \<and>
     (\<forall>i r. mo_rows m i = Some r \<longrightarrow> answered m out i r))"

lemma answered_carry:
  "answered m out i r \<Longrightarrow> rw_ticket r' = rw_ticket r \<Longrightarrow> rw_revision r' = rw_revision r \<Longrightarrow>
     mo_generation m' = mo_generation m \<Longrightarrow> set out \<subseteq> set out' \<Longrightarrow> answered m' out' i r'"
  unfolding answered_def by (cases "rw_ticket r") auto

lemma answered_none: "rw_ticket r = None \<Longrightarrow> answered m out i r"
  by (simp add: answered_def)

lemma monitor_inv_answered: "monitor_inv (m, out) \<Longrightarrow> mo_rows m i = Some r \<Longrightarrow> answered m out i r"
  by (simp add: monitor_inv_def)

text \<open>A ticket that no row waits for any more, nor ever will.\<close>

definition stale :: "nat \<Rightarrow> 'f monitor \<Rightarrow> bool" where
  "stale t m \<longleftrightarrow> t \<le> mo_clock m \<and> (\<forall>i r. mo_rows m i = Some r \<longrightarrow> rw_ticket r \<noteq> Some t)"

lemma sync_row_facts:
  assumes "sync_row fo uuid now a m = m'"
  shows "\<exists>r'. mo_rows m' = (mo_rows m)(a_id a \<mapsto> r') \<and>
      (rw_ticket r' = None \<or> (\<exists>r. mo_rows m (a_id a) = Some r \<and> rw_ticket r' = rw_ticket r \<and> rw_revision r' = rw_revision r))"
    "mo_clock m \<le> mo_clock m'" "mo_phase m' = mo_phase m" "mo_target m' = mo_target m"
    "mo_destination m' = mo_destination m" "mo_generation m' = mo_generation m" "mo_active m' = mo_active m"
    "mo_cancel m' = mo_cancel m" "mo_flags m' = mo_flags m"
  using assms
  by (auto simp: sync_row_def Let_def row_new_def split: option.splits prod.splits if_splits)

lemma sync_row_inv:
  assumes "monitor_inv (m, out)" "mo_phase m = Active"
  shows "monitor_inv (sync_row fo uuid now a m, out)"
proof -
  note f = sync_row_facts [OF refl, where fo = fo and uuid = uuid and now = now and a = a and m = m]
  from f(1) obtain r' where r': "mo_rows (sync_row fo uuid now a m) = (mo_rows m)(a_id a \<mapsto> r')"
    "rw_ticket r' = None \<or> (\<exists>r. mo_rows m (a_id a) = Some r \<and> rw_ticket r' = rw_ticket r \<and> rw_revision r' = rw_revision r)"
    by blast
  have "answered (sync_row fo uuid now a m) out i r" if r: "mo_rows (sync_row fo uuid now a m) i = Some r" for i r
  proof (cases "i = a_id a")
    case True
    with r r'(1) have "r = r'" by simp
    with r'(2) True show ?thesis
      using answered_carry [OF monitor_inv_answered [OF assms(1)]] f(6) answered_none by blast
  next
    case False
    with r r'(1) have "mo_rows m i = Some r" by simp
    from answered_carry [OF monitor_inv_answered [OF assms(1) this] refl refl f(6) subset_refl] show ?thesis .
  qed
  moreover have "\<forall>t \<in> set (mo_active m). t \<le> mo_clock (sync_row fo uuid now a m)"
    using assms(1) f(2) by (fastforce simp: monitor_inv_def)
  ultimately show ?thesis
    using assms f by (simp add: monitor_inv_def)
qed

lemma sync_row_stale: "stale t m \<Longrightarrow> stale t (sync_row fo uuid now a m)"
  using sync_row_facts(1,2) [OF refl, where fo = fo and uuid = uuid and now = now and a = a and m = m]
  by (fastforce simp: stale_def split: if_splits)

lemma sync_fold_inv:
  "monitor_inv (m, out) \<Longrightarrow> mo_phase m = Active \<Longrightarrow>
     monitor_inv (fold (sync_row fo uuid now) as m, out) \<and> mo_phase (fold (sync_row fo uuid now) as m) = Active"
proof (induction as arbitrary: m)
  case Nil
  then show ?case by simp
next
  case (Cons a as)
  from Cons.IH [of "sync_row fo uuid now a m"] sync_row_inv [OF Cons.prems] Cons.prems(2)
    sync_row_facts(3) [OF refl, where fo = fo and uuid = uuid and now = now and a = a and m = m] show ?case by simp
qed

lemma sync_fold_stale: "stale t m \<Longrightarrow> stale t (fold (sync_row fo uuid now) as m)"
  by (induction as arbitrary: m) (simp_all add: sync_row_stale)

lemma monitor_sync_inv:
  assumes "monitor_inv (m, out)"
  shows "monitor_inv (monitor_sync fo uuid as selected now m, out)"
proof (cases "mo_phase m = Active")
  case True
  let ?m = "m\<lparr>mo_rows := (mo_rows m) |` (a_id ` set (visible as selected))\<rparr>"
  have "monitor_inv (?m, out)"
  proof -
    have "answered ?m out i r" if "mo_rows ?m i = Some r" for i r
      using that answered_carry [OF monitor_inv_answered [OF assms], of i r r ?m out]
      by (simp add: restrict_map_def split: if_splits)
    with assms True show ?thesis by (simp add: monitor_inv_def del: restrict_map_def)
  qed
  with True sync_fold_inv [of ?m out] show ?thesis
    by (simp add: monitor_sync_def)
next
  case False
  with assms show ?thesis by (simp add: monitor_sync_def)
qed

lemma monitor_sync_stale: "stale t m \<Longrightarrow> stale t (monitor_sync fo uuid as selected now m)"
  unfolding monitor_sync_def
  by (auto intro!: sync_fold_stale) (auto simp: stale_def restrict_map_def split: if_splits)

lemma issue_inv:
  "issue now as m = (rqs, m') \<Longrightarrow> monitor_inv (m, out) \<Longrightarrow> mo_phase m = Active \<Longrightarrow>
     monitor_inv (m', out @ rqs)"
proof (induction as arbitrary: m rqs out)
  case Nil
  then show ?case by simp
next
  case (Cons a as)
  consider "workers \<le> length (mo_active m)" "rqs = []" "m' = m"
    | "issue now as m = (rqs, m')"
    | r where "length (mo_active m) < workers" "mo_rows m (a_id a) = Some r" "due now r"
  proof (cases "workers \<le> length (mo_active m)")
    case True
    have "rqs = []" "m' = m" using Cons.prems(1) True by simp_all
    with True that(1) show ?thesis by blast
  next
    case full: False
    show ?thesis
    proof (cases "mo_rows m (a_id a)")
      case None
      then have "issue now as m = (rqs, m')" using Cons.prems(1) full by simp
      then show ?thesis by (rule that(2))
    next
      case (Some r)
      show ?thesis
      proof (cases "due now r")
        case True
        with full Some that(3) show ?thesis by (meson not_le)
      next
        case False
        then have "issue now as m = (rqs, m')" using Cons.prems(1) full Some by simp
        then show ?thesis by (rule that(2))
      qed
    qed
  qed
  then show ?case
  proof cases
    case 1
    with Cons.prems show ?thesis by simp
  next
    case 2
    from Cons.IH [OF 2 Cons.prems(2,3)] show ?thesis .
  next
    case 3
    define t where "t = mo_clock m + 1"
    define r1 where "r1 = r\<lparr>rw_ticket := Some t, rw_checked := Some now\<rparr>"
    define m1 where "m1 = m\<lparr>mo_clock := t, mo_rows := (mo_rows m)(a_id a \<mapsto> r1), mo_active := t # mo_active m\<rparr>"
    define rq where "rq = \<lparr>rq_adapter = a, rq_target = the (mo_target m), rq_destination = the (mo_destination m),
       rq_cancel = mo_cancel m, rq_generation = mo_generation m, rq_ticket = t, rq_revision = rw_revision r\<rparr>"
    obtain rqs' where i: "issue now as m1 = (rqs', m')" "rqs = rq # rqs'"
      using Cons.prems(1) 3
      by (simp add: Let_def m1_def rq_def r1_def t_def split: prod.splits)
    have fresh: "t \<notin> set (mo_active m)"
      using Cons.prems(2) by (auto simp: monitor_inv_def t_def)
    have ans: "answered m1 (out @ [rq]) j x" if "mo_rows m1 j = Some x" for j x
    proof (cases "j = a_id a")
      case True
      with that have "x = r1" by (simp add: m1_def)
      then show ?thesis using True by (simp add: answered_def r1_def rq_def m1_def)
    next
      case False
      with that have "mo_rows m j = Some x" by (simp add: m1_def)
      from monitor_inv_answered [OF Cons.prems(2) this] show ?thesis
        by (rule answered_carry) (auto simp: m1_def)
    qed
    have "rq_ticket rq = t" "mo_active m1 = t # mo_active m" "mo_clock m1 = Suc (mo_clock m)" "t = Suc (mo_clock m)"
      "mo_phase m1 = Active" "mo_target m1 = mo_target m" "mo_destination m1 = mo_destination m"
      "mo_cancel m1 = mo_cancel m" "mo_flags m1 = mo_flags m"
      by (simp_all add: m1_def rq_def t_def Cons.prems(3))
    note f = this
    have inv: "distinct (map rq_ticket out)" "set (map rq_ticket out) = set (mo_active m)" "distinct (mo_active m)"
      "\<forall>t \<in> set (mo_active m). t \<le> mo_clock m" "mo_target m \<noteq> None \<and> mo_destination m \<noteq> None"
      "mo_cancel m < length (mo_flags m)"
      using Cons.prems(2,3) unfolding monitor_inv_def by simp_all
    have "monitor_inv (m1, out @ [rq])"
      unfolding monitor_inv_def prod.case
    proof (intro conjI allI impI)
      show "distinct (map rq_ticket (out @ [rq]))"
        using inv(1) fresh by (simp add: f(1) inv(2) [simplified])
      show "set (map rq_ticket (out @ [rq])) = set (mo_active m1)"
        by (simp add: f(1,2) inv(2) [simplified])
      show "distinct (mo_active m1)" using inv(3) fresh by (simp add: f(2))
      show "length (mo_active m1) \<le> workers" using 3(1) by (simp add: f(2))
      show "\<forall>t \<in> set (mo_active m1). t \<le> mo_clock m1" using inv(4) by (simp add: f(2,3,4) le_SucI)
    qed (use inv(5,6) f(5-9) ans in simp_all)
    from Cons.IH [OF i(1) this] Cons.prems(3) i(2) show ?thesis
      by (simp add: m1_def)
  qed
qed

lemma issue_stale: "issue now as m = (rqs, m') \<Longrightarrow> stale t m \<Longrightarrow> stale t m'"
proof (induction as arbitrary: m rqs)
  case Nil
  then show ?case by simp
next
  case (Cons a as)
  show ?case
  proof (cases "workers \<le> length (mo_active m) \<or> mo_rows m (a_id a) = None \<or> \<not> due now (the (mo_rows m (a_id a)))")
    case True
    with Cons show ?thesis by (auto split: if_splits option.splits)
  next
    case False
    then obtain r where r: "mo_rows m (a_id a) = Some r" "due now r" "\<not> workers \<le> length (mo_active m)" by auto
    define m1 where "m1 = m\<lparr>mo_clock := mo_clock m + 1,
        mo_rows := (mo_rows m)(a_id a \<mapsto> r\<lparr>rw_ticket := Some (mo_clock m + 1), rw_checked := Some now\<rparr>),
        mo_active := (mo_clock m + 1) # mo_active m\<rparr>"
    obtain rqs' where i: "issue now as m1 = (rqs', m')"
      using Cons.prems(1) r by (auto simp: Let_def m1_def split: prod.splits)
    have "stale t m1"
      using Cons.prems(2) by (auto simp: stale_def m1_def)
    from Cons.IH [OF i this] show ?thesis .
  qed
qed

lemma monitor_prepare_inv:
  assumes "monitor_prepare fo uuid as selected now m = (rqs, m')" "monitor_inv (m, out)"
  shows "monitor_inv (m', out @ rqs)"
  using assms(1) monitor_sync_inv [OF assms(2), of fo uuid as selected now]
  by (auto simp: monitor_prepare_def Let_def split: if_splits intro: issue_inv)

lemma monitor_complete_inv:
  assumes "monitor_complete fo rq res now m = (b, m')" "monitor_inv (m, out)" "rq \<in> set out"
  shows "monitor_inv (m', remove1 rq out)"
proof -
  let ?t = "rq_ticket rq" and ?i = "a_id (rq_adapter rq)"
  have act: "?t \<in> set (mo_active m)" using assms(2,3) by (auto simp: monitor_inv_def)
  have dist: "distinct (map rq_ticket out)" "distinct (mo_active m)" using assms(2) by (simp_all add: monitor_inv_def)
  have tick: "rq' = rq" if "rq' \<in> set out" "rq_ticket rq' = ?t" for rq'
    using dist(1) assms(3) that by (auto simp: distinct_map inj_on_def)
  have do: "distinct out" using dist(1) by (simp add: distinct_map)
  have set1: "set (map rq_ticket (remove1 rq out)) = set (remove1 ?t (mo_active m))"
    using assms(2) do dist(2) tick by (auto simp: monitor_inv_def)
  have dist1: "distinct (map rq_ticket (remove1 rq out))"
    using dist(1) by (simp add: distinct_map inj_on_diff)
  have len: "length (remove1 ?t (mo_active m)) \<le> workers"
    using assms(2) by (auto simp: monitor_inv_def length_remove1 split: if_splits)
  let ?m = "m\<lparr>mo_active := remove1 ?t (mo_active m)\<rparr>"
  have base: "monitor_inv (m', remove1 rq out)"
    if fr: "mo_active m' = remove1 ?t (mo_active m)" "mo_clock m' = mo_clock m" "mo_phase m' = mo_phase m"
      "mo_target m' = mo_target m" "mo_destination m' = mo_destination m" "mo_cancel m' = mo_cancel m"
      "mo_flags m' = mo_flags m" "mo_phase m \<noteq> Active \<longrightarrow> mo_rows m' = Map.empty"
      and an: "\<And>i r. mo_rows m' i = Some r \<Longrightarrow> answered m' (remove1 rq out) i r"
    using assms(2) fr an set1 dist1 dist(2) len unfolding monitor_inv_def by auto
  have keep: "answered m' (remove1 rq out) i r"
    if "mo_rows m i = Some r" "mo_generation m' = mo_generation m" "rw_ticket r \<noteq> Some ?t" for i r
  proof -
    have "answered m out i r" using assms(2) that(1) by (simp add: monitor_inv_def)
    then show ?thesis
      using that(2,3) by (auto simp: answered_def do split: option.splits)
  qed
  show ?thesis
  proof (cases "\<exists>r. mo_phase m = Active \<and> rq_generation rq = mo_generation m \<and> mo_rows m ?i = Some r \<and>
      rw_revision r = rq_revision rq \<and> rw_ticket r = Some ?t")
    case False
    then have m': "m' = ?m"
      using assms(1) act by (auto simp: monitor_complete_def Let_def split: if_splits option.splits prod.splits)
    show ?thesis
    proof (rule base)
      fix i r assume r: "mo_rows m' i = Some r"
      have "rw_ticket r \<noteq> Some ?t"
      proof
        assume t: "rw_ticket r = Some ?t"
        have "answered m out i r" using assms(2) r m' by (simp add: monitor_inv_def)
        then have "i = ?i" "rq_revision rq = rw_revision r" "rq_generation rq = mo_generation m"
          using t tick by (auto simp: answered_def)
        moreover have "mo_phase m = Active" using assms(2) r m' by (auto simp: monitor_inv_def)
        ultimately show False using False r t m' by auto
      qed
      then show "answered m' (remove1 rq out) i r" using keep r m' by simp
    qed (use assms(2) in \<open>simp_all add: m' monitor_inv_def\<close>)
  next
    case True
    then obtain r where r: "mo_phase m = Active" "rq_generation rq = mo_generation m" "mo_rows m ?i = Some r"
      "rw_revision r = rq_revision rq" "rw_ticket r = Some ?t" by blast
    then obtain r' where m': "m' = ?m\<lparr>mo_rows := (mo_rows m)(?i \<mapsto> r')\<rparr>" "rw_ticket r' = None"
      using assms(1) act by (auto simp: monitor_complete_def Let_def split: prod.splits)
    show ?thesis
    proof (rule base)
      fix i x assume x: "mo_rows m' i = Some x"
      show "answered m' (remove1 rq out) i x"
      proof (cases "i = ?i")
        case True
        with x m' show ?thesis by (simp add: answered_def)
      next
        case False
        with x m' have xi: "mo_rows m i = Some x" by simp
        have "rw_ticket x \<noteq> Some ?t"
        proof
          assume t: "rw_ticket x = Some ?t"
          have "answered m out i x" using assms(2) xi by (simp add: monitor_inv_def)
          then show False using t tick False by (auto simp: answered_def)
        qed
        with keep [OF xi] m' show ?thesis by simp
      qed
    qed (use r(1) in \<open>simp_all add: m'\<close>)
  qed
qed

lemma monitor_complete_stale:
  "monitor_complete fo rq res now m = (b, m') \<Longrightarrow> stale t m \<Longrightarrow> stale t m'"
  by (auto simp: monitor_complete_def Let_def stale_def split: if_splits option.splits prod.splits)

subsection \<open>Every reachable state\<close>

lemma monitor_stop_inv: "monitor_inv (m, out) \<Longrightarrow> monitor_inv (monitor_stop m, out)"
  by (simp add: monitor_inv_def monitor_stop_def)

lemma monitor_begin_inv: "monitor_begin t m = (g, m') \<Longrightarrow> monitor_inv (m, out) \<Longrightarrow> monitor_inv (m', out)"
  by (auto simp: monitor_begin_def Let_def monitor_inv_def monitor_stop_def)

lemma monitor_activate_inv:
  assumes "monitor_activate g d m = (b, m')" "monitor_inv (m, out)"
  shows "monitor_inv (m', out)"
proof (cases b)
  case True
  with assms(1) have m': "m' = m\<lparr>mo_destination := Some d, mo_phase := Active\<rparr>" "mo_phase m = Preparing"
    by (auto simp: monitor_activate_def split: if_splits)
  with assms(2) show ?thesis by (simp add: monitor_inv_def)
next
  case False
  with assms show ?thesis by (auto simp: monitor_activate_def split: if_splits)
qed

lemma monitor_step_inv: "monitor_step fo uuid st st' \<Longrightarrow> monitor_inv st \<Longrightarrow> monitor_inv st'"
proof (induction rule: monitor_step.induct)
  case (cancel_step m out i)
  have "answered (m\<lparr>mo_flags := (mo_flags m)[i := True]\<rparr>) out j r" if "mo_rows m j = Some r" for j r
    by (rule answered_carry [OF monitor_inv_answered [OF cancel_step that]]) simp_all
  with cancel_step show ?case by (simp add: monitor_inv_def)
qed (blast intro: monitor_stop_inv monitor_begin_inv monitor_activate_inv monitor_sync_inv
       monitor_prepare_inv monitor_complete_inv)+

lemma monitor_prepare_stale: "monitor_prepare fo uuid as selected now m = (rqs, m') \<Longrightarrow> stale t m \<Longrightarrow> stale t m'"
  using monitor_sync_stale [of t m fo uuid as selected now]
  by (auto simp: monitor_prepare_def Let_def split: if_splits intro: issue_stale)

lemma monitor_step_stale: "monitor_step fo uuid st st' \<Longrightarrow> stale t (fst st) \<Longrightarrow> stale t (fst st')"
proof (induction rule: monitor_step.induct)
  case (begin_step u m g m' out)
  then show ?case by (auto simp: monitor_begin_def Let_def stale_def monitor_stop_def)
next
  case (activate_step g d m b m' out)
  then show ?case by (auto simp: monitor_activate_def stale_def split: if_splits)
next
  case (stop_step m out)
  then show ?case by (simp add: stale_def monitor_stop_def)
next
  case (cancel_step m out i)
  then show ?case by (simp add: stale_def)
qed (simp_all add: monitor_sync_stale, (metis monitor_prepare_stale monitor_complete_stale)+)

lemma monitor_steps_inv: "(monitor_step fo uuid)\<^sup>*\<^sup>* st st' \<Longrightarrow> monitor_inv st \<Longrightarrow> monitor_inv st'"
  by (induction rule: rtranclp_induct) (auto intro: monitor_step_inv)

lemma monitor_steps_stale: "(monitor_step fo uuid)\<^sup>*\<^sup>* st st' \<Longrightarrow> stale t (fst st) \<Longrightarrow> stale t (fst st')"
  by (induction rule: rtranclp_induct) (auto intro: monitor_step_stale)

lemma monitor_default_inv: "monitor_inv (monitor_default, [])"
  by (simp add: monitor_inv_def monitor_default_def)

text \<open>
  C38: whatever the order of the owner's and the workers' steps, at most four probes are in flight,
  each with a ticket of its own, rows exist only while the session is active, and every row that
  waits for a ticket has the request that will answer it in flight.
\<close>

theorem monitor_reachable:
  assumes "(monitor_step fo uuid)\<^sup>*\<^sup>* (monitor_default, []) (m, out)"
  shows "monitor_inv (m, out) \<and> length out \<le> workers"
proof -
  have inv: "monitor_inv (m, out)"
    using monitor_steps_inv [OF assms monitor_default_inv] .
  then have "set (map rq_ticket out) = set (mo_active m)" "distinct (map rq_ticket out)"
    "distinct (mo_active m)" "length (mo_active m) \<le> workers"
    unfolding monitor_inv_def by simp_all
  then have "length (map rq_ticket out) \<le> workers"
    by (metis distinct_card)
  with inv show ?thesis by simp
qed

text \<open>
  A row that waits is never stuck: one of the requests in flight is accepted for it, whatever
  its result and whenever it arrives, and the row waits no more.
\<close>

theorem busy_row_answered:
  assumes "(monitor_step fo uuid)\<^sup>*\<^sup>* (monitor_default, []) (m, out)"
    and "mo_rows m i = Some r" "rw_ticket r = Some t"
  shows "\<exists>rq \<in> set out. rq_ticket rq = t \<and>
    (case monitor_complete fo rq res now m of (accepted, m') \<Rightarrow>
       accepted \<and> map_option rw_ticket (mo_rows m' i) = Some None)"
proof -
  have inv: "monitor_inv (m, out)"
    using monitor_steps_inv [OF assms(1) monitor_default_inv] .
  from monitor_inv_answered [OF this assms(2)] assms(3) obtain rq where rq: "rq \<in> set out" "rq_ticket rq = t"
    "a_id (rq_adapter rq) = i" "rq_revision rq = rw_revision r" "rq_generation rq = mo_generation m"
    by (auto simp: answered_def)
  moreover have "mo_phase m = Active" "t \<in> set (mo_active m)"
    using inv assms(2) rq(1,2) by (auto simp: monitor_inv_def)
  ultimately show ?thesis
    using assms(2,3)
    by (intro bexI [OF _ rq(1)]) (simp add: monitor_complete_def Let_def split: prod.splits)
qed

text \<open>
  C9: nothing that was in flight when the session was stopped is accepted later, whatever sessions
  are started and stopped in between.
\<close>

theorem stopped_results_rejected:
  assumes "(monitor_step fo uuid)\<^sup>*\<^sup>* (monitor_default, []) (m, out)" "rq \<in> set out"
    and "(monitor_step fo uuid)\<^sup>*\<^sup>* (monitor_stop m, out) (m', out')"
  shows "fst (monitor_complete fo rq res now m') = False"
proof -
  have inv: "monitor_inv (m, out)"
    using monitor_steps_inv [OF assms(1) monitor_default_inv] .
  have "stale (rq_ticket rq) (monitor_stop m)"
    using inv assms(2) by (auto simp: monitor_inv_def stale_def monitor_stop_def)
  then have "stale (rq_ticket rq) m'"
    using monitor_steps_stale [OF assms(3)] by simp
  then show ?thesis
    by (auto simp: monitor_complete_def Let_def stale_def split: option.splits prod.splits)
qed

subsection \<open>A run\<close>

definition demo_adapter :: adapter where
  "demo_adapter =
     \<lparr>a_id = ''{g}'', a_name = ''Wi'', a_kind = ''Ethernet'', a_addresses = [''9.0.0.7''], a_connected = True,
      a_has_gateway = True, a_luid = 3, a_ipv4 = True, a_ipv6 = False, a_received = None, a_sent = None\<rparr>"

definition demo_uuid :: "string \<Rightarrow> nat option" where
  "demo_uuid s = (if s = ''g'' then Some 7 else None)"

definition demo_target :: probe_target where
  "demo_target = \<lparr>tg_mode = Icmp, tg_host = ''1.1.1.1'', tg_label = ''1.1.1.1'', tg_port = 0, tg_request_path = []\<rparr>"

definition demo_row :: "nat row" where
  "demo_row = (row_new (Some \<lparr>id_uuid = 7, id_luid = 3, id_address = [9, 0, 0, 7]\<rparr>) 1)
     \<lparr>rw_ticket := Some 2, rw_checked := Some 100\<rparr>"

definition demo_monitor :: "nat monitor" where
  "demo_monitor =
     \<lparr>mo_phase = Active, mo_target = Some demo_target, mo_destination = Some [1, 1, 1, 1],
      mo_rows = [''{g}'' \<mapsto> demo_row], mo_generation = 1, mo_clock = 2, mo_active = [2], mo_cancel = 1,
      mo_flags = [True, False]\<rparr>"

definition demo_request :: probe_request where
  "demo_request =
     \<lparr>rq_adapter = demo_adapter, rq_target = demo_target, rq_destination = [1, 1, 1, 1], rq_cancel = 1,
      rq_generation = 1, rq_ticket = 2, rq_revision = 1\<rparr>"

lemma demo_identity: "identity_of demo_uuid demo_adapter = Some \<lparr>id_uuid = 7, id_luid = 3, id_address = [9, 0, 0, 7]\<rparr>"
  by code_simp

definition demo_ready :: "nat monitor" where
  "demo_ready =
     \<lparr>mo_phase = Active, mo_target = Some demo_target, mo_destination = Some [1, 1, 1, 1],
      mo_rows = Map.empty, mo_generation = 1, mo_clock = 0, mo_active = [], mo_cancel = 1,
      mo_flags = [True, False]\<rparr>"

lemma demo_prepare:
  "monitor_prepare nat_floats demo_uuid [demo_adapter] [''{g}''] 100 demo_ready = ([demo_request], demo_monitor)"
proof -
  have id: "a_id demo_adapter = ''{g}''" by (simp add: demo_adapter_def)
  have s: "summarize_window nat_floats 100 Icmp [] = (summary_default, [])"
    by (simp add: summarize_window_def expire_def float_mean_def differences_def rate_def summary_default_def Let_def map_filter_def)
  have "monitor_sync nat_floats demo_uuid [demo_adapter] [''{g}''] 100 demo_ready =
     demo_ready\<lparr>mo_clock := 1, mo_rows := [''{g}'' \<mapsto> demo_row\<lparr>rw_ticket := None, rw_checked := None\<rparr>]\<rparr>"
    by (simp add: monitor_sync_def demo_ready_def visible_def id sync_row_def demo_identity s demo_row_def Let_def
        row_new_def demo_target_def summary_default_def)
  then show ?thesis
    unfolding monitor_prepare_def Let_def
    by (simp add: id due_def demo_row_def row_new_def workers_def demo_request_def demo_monitor_def Let_def
        demo_ready_def numeral_2_eq_2)
qed

lemma demo_reachable: "(monitor_step nat_floats demo_uuid)\<^sup>*\<^sup>* (monitor_default, []) (demo_monitor, [demo_request])"
proof -
  have "monitor_begin demo_target (monitor_default :: nat monitor) =
      (1, demo_ready\<lparr>mo_phase := Preparing, mo_destination := None\<rparr>)"
    by (simp add: monitor_begin_def monitor_stop_def monitor_default_def demo_ready_def Let_def)
  note 1 = begin_step [OF this, of nat_floats demo_uuid "[]"]
  have "monitor_activate 1 [1, 1, 1, 1] (demo_ready\<lparr>mo_phase := Preparing, mo_destination := None\<rparr>) = (True, demo_ready)"
    by (simp add: monitor_activate_def demo_ready_def)
  note 2 = activate_step [OF this, of nat_floats demo_uuid "[]"]
  note 3 = prepare_step [OF demo_prepare, of "[]", unfolded append_Nil]
  show ?thesis
    by (rule rtranclp.rtrancl_into_rtrancl [OF rtranclp.rtrancl_into_rtrancl [OF r_into_rtranclp [where r = "monitor_step nat_floats demo_uuid", OF 1] 2] 3])
qed

theorem monitor_reachable_witness:
  "monitor_inv (demo_monitor, [demo_request]) \<and> length [demo_request] \<le> workers"
  by (rule monitor_reachable [OF demo_reachable])

theorem busy_row_answered_witness:
  "\<exists>rq \<in> set [demo_request]. rq_ticket rq = 2 \<and>
    (case monitor_complete nat_floats rq (probe_result_new Success (Some 4) []) 200 demo_monitor of (accepted, m') \<Rightarrow>
       accepted \<and> map_option rw_ticket (mo_rows m' ''{g}'') = Some None)"
  by (rule busy_row_answered [OF demo_reachable, where r = demo_row])
    (simp_all add: demo_monitor_def demo_row_def)

theorem stopped_results_rejected_witness:
  "fst (monitor_complete nat_floats demo_request (probe_result_new Success (Some 4) []) 200 (monitor_stop demo_monitor)) = False"
  by (rule stopped_results_rejected [OF demo_reachable _ rtranclp.rtrancl_refl]) simp

end
