(* ===== verification/Targets.thy ===== *)
theory Targets
  imports Quality
begin

text \<open>
  The targets of \<open>crates/netlane-core/src/quality.rs\<close>: the canonical text of an IPv4 address parses
  to the address, so what an ICMP target displays is a target and names the same destination.
\<close>

lemma dec_hd_zero: "hd (dec n) = CHR ''0'' \<longleftrightarrow> n = 0"
proof (induction n rule: dec_induct)
  case (small n)
  have "digit_char n = CHR ''0'' \<longleftrightarrow> n = 0"
  proof
    assume "digit_char n = CHR ''0''"
    with digits_val_digit [OF small, of 0] show "n = 0" by (simp add: code_def split: if_splits)
  next
    assume "n = 0"
    moreover have "digit_char 0 = CHR ''0''" by code_simp
    ultimately show "digit_char n = CHR ''0''" by simp
  qed
  with small show ?case by (subst dec_step) simp
next
  case (large n)
  then have "hd (dec n) = hd (dec (n div 10))" by (subst dec_step) simp
  with large show ?case by simp
qed

lemma parse_octet_dec: "n < 256 \<Longrightarrow> parse_octet (dec n) = Some n"
proof -
  assume n: "n < 256"
  then have "length (dec n) \<le> 3" by (intro dec_length_bound) simp_all
  moreover have "\<not> (1 < length (dec n) \<and> hd (dec n) = CHR ''0'')"
  proof
    assume a: "1 < length (dec n) \<and> hd (dec n) = CHR ''0''"
    then have "n = 0" by (simp add: dec_hd_zero)
    moreover have "length (dec 0) = 1" by (subst dec_step) simp
    ultimately show False using a by simp
  qed
  ultimately show ?thesis
    using n by (simp add: parse_octet_def parse_digits_def digits_val_dec)
qed

lemma no_dot: "CHR ''.'' \<notin> set (dec n)"
  using dec_digits [of "CHR ''.''" n] by (auto simp: is_ascii_digit_def code_def)

lemma parse_ipv4_string:
  assumes "a < 256" "b < 256" "c < 256" "d < 256"
  shows "parse_ipv4 (ipv4_string [a, b, c, d]) = Some [a, b, c, d]"
proof -
  have "split_on (CHR ''.'') (ipv4_string [a, b, c, d]) = [dec a, dec b, dec c, dec d]"
    by (simp add: ipv4_string_def split_on_append split_on_no_sep no_dot)
  with assms show ?thesis by (simp add: parse_ipv4_def parse_octet_dec)
qed

lemma parse_octet_less: "parse_octet s = Some n \<Longrightarrow> n < 256"
  by (auto simp: parse_octet_def split: if_splits option.splits)

lemma four_octets:
  "(case xs of [Some a, Some b, Some c, Some d] \<Rightarrow> Some [a, b, c, d] | _ \<Rightarrow> None) = Some x \<Longrightarrow>
     \<exists>a b c d. xs = [Some a, Some b, Some c, Some d] \<and> x = [a, b, c, d]"
  by (simp split: list.split_asm option.split_asm)

lemma parse_ipv4_octets:
  assumes "parse_ipv4 s = Some x"
  obtains a b c d where "x = [a, b, c, d]" "a < 256" "b < 256" "c < 256" "d < 256"
proof -
  obtain a b c d where m: "map parse_octet (split_on (CHR ''.'') s) = [Some a, Some b, Some c, Some d]" "x = [a, b, c, d]"
    using four_octets [OF assms [unfolded parse_ipv4_def]] by auto
  have "n < 256" if "Some n \<in> set (map parse_octet (split_on (CHR ''.'') s))" for n
    using that parse_octet_less by (metis (no_types, lifting) imageE list.set_map)
  then have "a < 256" "b < 256" "c < 256" "d < 256" unfolding m(1) by simp_all
  with m(2) that show ?thesis by blast
qed

lemma ipv4_text:
  assumes "c \<in> set (ipv4_string x)"
  shows "is_ascii_digit c \<or> c = CHR ''.''"
  using assms dec_digits by (auto simp: ipv4_string_def)

lemma ipv4_plain: "c \<in> set (ipv4_string x) \<Longrightarrow> plain c \<and> code c \<noteq> 127"
  using ipv4_text [of c x] by (auto simp: is_ascii_digit_def plain_def code_def)

lemma plain_no_control: "(\<And>c. c \<in> set s \<Longrightarrow> plain c \<and> code c \<noteq> 127) \<Longrightarrow> \<not> has_control s"
  by (induction s) (force simp: plain_def)+

lemma ipv4_trim: "trim (ipv4_string x) = ipv4_string x"
proof -
  obtain c t where ct: "ipv4_string x = c # t"
    by (cases "ipv4_string x") (simp_all add: ipv4_string_def)
  then show ?thesis
    using ipv4_plain [of c x] ipv4_plain [of "last (ipv4_string x)" x]
    by (intro trim_same [OF ct]) simp_all
qed

lemma icmp_target_Inr:
  assumes "icmp_target s = Inr tg"
  obtains a b c d where "tg = \<lparr>tg_mode = Icmp, tg_host = ipv4_string [a, b, c, d], tg_label = ipv4_string [a, b, c, d],
        tg_port = 0, tg_request_path = []\<rparr>" "[a, b, c, d] \<noteq> [0, 0, 0, 0]" "a < 224" "b < 256" "c < 256" "d < 256"
proof -
  obtain x where x: "parse_ipv4 s = Some x" "x \<noteq> [0, 0, 0, 0]" "x ! 0 < 224"
      "tg = \<lparr>tg_mode = Icmp, tg_host = ipv4_string x, tg_label = ipv4_string x, tg_port = 0, tg_request_path = []\<rparr>"
    using assms by (auto simp: icmp_target_def ok_or_def ensure_def split: option.splits if_splits)
  from x(1) obtain a b c d where abcd: "x = [a, b, c, d]" "b < 256" "c < 256" "d < 256" by (rule parse_ipv4_octets)
  show ?thesis by (rule that [of a b c d]) (use x abcd in simp_all)
qed

text \<open>
  An accepted ICMP target is a unicast IPv4 address in its canonical text, and parsing that text
  again, with whatever white space around it, gives the same target.
\<close>

theorem icmp_target_canonical:
  assumes "target_parse url_parse Icmp text = Inr tg"
  shows "target_parse url_parse Icmp (tg_label tg) = Inr tg"
proof -
  obtain a b c d where tg: "tg = \<lparr>tg_mode = Icmp, tg_host = ipv4_string [a, b, c, d], tg_label = ipv4_string [a, b, c, d],
        tg_port = 0, tg_request_path = []\<rparr>" "[a, b, c, d] \<noteq> [0, 0, 0, 0]" "a < 224" "b < 256" "c < 256" "d < 256"
    using assms icmp_target_Inr [of "trim text" tg]
    by (auto simp: target_parse_def Let_def ensure_def split: if_splits)
  let ?s = "ipv4_string [a, b, c, d]"
  have "?s \<noteq> []" by (simp add: ipv4_string_def)
  moreover have "length ?s \<le> 512"
    using tg(3-6) dec_length_bound [of a 3] dec_length_bound [of b 3] dec_length_bound [of c 3] dec_length_bound [of d 3]
    by (simp add: ipv4_string_def)
  moreover have "\<not> has_control ?s" by (rule plain_no_control) (rule ipv4_plain)
  moreover have "icmp_target ?s = Inr tg"
    using tg parse_ipv4_string [of a b c d] by (simp add: icmp_target_def ok_or_def ensure_def)
  ultimately show ?thesis
    by (simp add: target_parse_def Let_def ipv4_trim tg(1) ensure_def)
qed

theorem icmp_target_canonical_witness:
  "target_parse (\<lambda>_. None) Icmp '' 9.0.0.7 '' =
     Inr \<lparr>tg_mode = Icmp, tg_host = ''9.0.0.7'', tg_label = ''9.0.0.7'', tg_port = 0, tg_request_path = []\<rparr> \<and>
   target_parse (\<lambda>_. None) Icmp ''9.0.0.7'' =
     Inr \<lparr>tg_mode = Icmp, tg_host = ''9.0.0.7'', tg_label = ''9.0.0.7'', tg_port = 0, tg_request_path = []\<rparr>"
proof -
  have t: "target_parse (\<lambda>_. None) Icmp '' 9.0.0.7 '' =
     Inr \<lparr>tg_mode = Icmp, tg_host = ''9.0.0.7'', tg_label = ''9.0.0.7'', tg_port = 0, tg_request_path = []\<rparr>"
    by code_simp
  from icmp_target_canonical [OF t] show ?thesis by (simp add: t)
qed

end
