(* ===== verification/Persistence.thy ===== *)
theory Persistence
  imports Effects Model
begin

text \<open>
  \<open>crates/netlane-core/src/persistence.rs\<close>: files read with a bound, written through a temporary file
  that takes the place of the old one, locked while they are compared and replaced, and the policy
  file on top of them.

  The disk is a map from paths to contents, with the paths that other handles hold exclusively and a
  script of faults: every call of the file system takes the next entry, and fails when there is one
  (a failed write leaves the first bytes; an empty script never fails). What the program calls and
  does not define is a parameter: \<open>ReplaceFileW\<close> and \<open>MoveFileExW\<close>, SHA-256 and \<open>serde_json\<close>'s
  text. Directories are not kept, only whether creating them fails.
\<close>

type_synonym file_path = "string list"
type_synonym contents = "file_path \<Rightarrow> u8 list option"

datatype 'e file_error =
    Os_failed
  | Too_large
  | No_parent
  | Locked
  | Stale
  | Stale_write
  | Bad_json
  | Rejected 'e

record disk =
  dk_files :: contents
  dk_held :: "file_path list"
  dk_faults :: "nat option list"

record disk_os =
  os_replace :: "file_path \<Rightarrow> file_path \<Rightarrow> file_path option \<Rightarrow> contents \<Rightarrow> bool \<times> contents"
  os_move :: "file_path \<Rightarrow> file_path \<Rightarrow> contents \<Rightarrow> bool \<times> contents"

definition max_json_bytes :: nat where "max_json_bytes = 4 * 1024 * 1024"

subsection \<open>Paths\<close>

definition path_parent :: "file_path \<Rightarrow> file_path option" where
  "path_parent p = (if p = [] then None else Some (butlast p))"

text \<open>\<open>Path::with_extension\<close>: the name up to its last dot, unless that dot begins it.\<close>

definition file_stem :: "string \<Rightarrow> string" where
  "file_stem s =
     (let before = rev (tl (dropWhile (\<lambda>c. c \<noteq> CHR ''.'') (rev s)))
      in if before = [] then s else before)"

definition with_extension :: "string \<Rightarrow> file_path \<Rightarrow> file_path" where
  "with_extension ext p = (if p = [] then [] else butlast p @ [file_stem (last p) @ ''.'' @ ext])"

subsection \<open>Calls of the file system\<close>

definition os_fault :: "disk \<Rightarrow> nat option \<times> disk" where
  "os_fault d = (case dk_faults d of [] \<Rightarrow> (None, d) | f # fs \<Rightarrow> (f, d\<lparr>dk_faults := fs\<rparr>))"

definition os_op :: "(disk, 'e file_error, unit) action" where
  "os_op d = (case os_fault d of (None, d') \<Rightarrow> (Inr (), d') | (Some _, d') \<Rightarrow> (Inl Os_failed, d'))"

definition create_new :: "file_path \<Rightarrow> (disk, 'e file_error, unit) action" where
  "create_new p = sbind os_op (\<lambda>_ d.
     if dk_files d p \<noteq> None then (Inl Os_failed, d)
     else (Inr (), d\<lparr>dk_files := (dk_files d)(p \<mapsto> [])\<rparr>))"

definition write_all :: "file_path \<Rightarrow> u8 list \<Rightarrow> (disk, 'e file_error, unit) action" where
  "write_all p bytes d =
     (case os_fault d of
        (None, d') \<Rightarrow> (Inr (), d'\<lparr>dk_files := (dk_files d')(p \<mapsto> bytes)\<rparr>)
      | (Some n, d') \<Rightarrow> (Inl Os_failed, d'\<lparr>dk_files := (dk_files d')(p \<mapsto> take n bytes)\<rparr>))"

definition path_exists :: "file_path \<Rightarrow> disk \<Rightarrow> bool \<times> disk" where
  "path_exists p d = (case os_fault d of (None, d') \<Rightarrow> (dk_files d' p \<noteq> None, d') | (Some _, d') \<Rightarrow> (False, d'))"

definition remove_file :: "file_path \<Rightarrow> (disk, 'e file_error, unit) action" where
  "remove_file p = sbind os_op (\<lambda>_ d. (Inr (), d\<lparr>dk_files := (dk_files d)(p := None)\<rparr>))"

definition read_bounded :: "file_path \<Rightarrow> nat \<Rightarrow> (disk, 'e file_error, u8 list option) action" where
  "read_bounded p limit = sbind os_op (\<lambda>_. sbind (sget (\<lambda>d. dk_files d p)) (\<lambda>f.
     case f of
       None \<Rightarrow> spure (Inr None)
     | Some content \<Rightarrow> sbind os_op (\<lambda>_.
         let bytes = take (limit + 1) content in
         sbind (spure (ensure (length bytes \<le> limit) Too_large)) (\<lambda>_. spure (Inr (Some bytes))))))"

definition upper_digit :: "nat \<Rightarrow> char" where
  "upper_digit n = char_of (if n < 10 then 48 + n else 55 + n)"

definition revision :: "(u8 list \<Rightarrow> u8 list) \<Rightarrow> u8 list \<Rightarrow> string" where
  "revision sha bytes = concat (map (\<lambda>b. [upper_digit (unat b div 16), upper_digit (unat b mod 16)]) (sha bytes))"

definition without_bom :: "u8 list \<Rightarrow> u8 list" where
  "without_bom bytes = (if take 3 bytes = [0xEF, 0xBB, 0xBF] then drop 3 bytes else bytes)"

subsection \<open>Locks\<close>

text \<open>Opened without sharing and deleted when it is closed.\<close>

definition exclusive_file :: "file_path \<Rightarrow> (disk, 'e file_error, unit) action" where
  "exclusive_file p = sbind (smap_error (\<lambda>_ :: 'e file_error. Locked) os_op) (\<lambda>_ d.
     if p \<in> set (dk_held d) then (Inl Locked, d)
     else (Inr (), d\<lparr>dk_held := p # dk_held d,
                    dk_files := (dk_files d)(p := (case dk_files d p of None \<Rightarrow> Some [] | x \<Rightarrow> x))\<rparr>))"

definition close_exclusive :: "file_path \<Rightarrow> disk \<Rightarrow> disk" where
  "close_exclusive p d = d\<lparr>dk_held := remove1 p (dk_held d), dk_files := (dk_files d)(p := None)\<rparr>"

definition with_lock :: "file_path \<Rightarrow> (disk, 'e file_error, 'a) action \<Rightarrow> (disk, 'e file_error, 'a) action" where
  "with_lock p body = sbind (exclusive_file p) (\<lambda>_ d.
     case body d of (r, d') \<Rightarrow> (r, close_exclusive p d'))"

subsection \<open>Atomic writes\<close>

definition backup_of :: "file_path \<Rightarrow> file_path" where
  "backup_of p = with_extension ''json.bak'' p"

definition replace_target :: "disk_os \<Rightarrow> file_path \<Rightarrow> file_path \<Rightarrow> bool \<Rightarrow> (disk, 'e file_error, unit) action" where
  "replace_target os source target backup d =
     (let (there, d1) = path_exists target d;
          (done, files) =
            (if there
             then os_replace os target source (if backup then Some (backup_of target) else None) (dk_files d1)
             else os_move os source target (dk_files d1))
      in (if done then Inr () else Inl Os_failed, d1\<lparr>dk_files := files\<rparr>))"

definition temporary_name :: "string \<Rightarrow> file_path \<Rightarrow> file_path" where
  "temporary_name uuid parent = parent @ [''.netlane-'' @ uuid @ ''.tmp'']"

definition current_revision ::
    "(u8 list \<Rightarrow> u8 list) \<Rightarrow> file_path \<Rightarrow> (disk, 'e file_error, string option) action" where
  "current_revision sha p = sbind (read_bounded p max_json_bytes) (\<lambda>b. spure (Inr (map_option (revision sha) b)))"

definition check_expected ::
    "(u8 list \<Rightarrow> u8 list) \<Rightarrow> file_path \<Rightarrow> string option option \<Rightarrow> (disk, 'e file_error, unit) action" where
  "check_expected sha path expected =
     (case expected of
        None \<Rightarrow> spure (Inr ())
      | Some e \<Rightarrow> sbind (current_revision sha path) (\<lambda>c. spure (ensure (c = e) Stale_write)))"

definition write_temporary ::
    "disk_os \<Rightarrow> (u8 list \<Rightarrow> u8 list) \<Rightarrow> file_path \<Rightarrow> file_path \<Rightarrow> u8 list \<Rightarrow> bool \<Rightarrow> string option option
     \<Rightarrow> (disk, 'e file_error, unit) action" where
  "write_temporary os sha temporary path bytes backup expected =
     sbind (create_new temporary) (\<lambda>_.
     sbind (write_all temporary bytes) (\<lambda>_.
     sbind os_op (\<lambda>_.
     sbind (check_expected sha path expected) (\<lambda>_.
       replace_target os temporary path backup))))"

definition clean_up :: "file_path \<Rightarrow> disk \<Rightarrow> disk" where
  "clean_up temporary d =
     (case path_exists temporary d of (there, d1) \<Rightarrow> if there then snd (remove_file temporary d1 :: (unit file_error + unit) \<times> disk) else d1)"

definition atomic_write_inner ::
    "disk_os \<Rightarrow> (u8 list \<Rightarrow> u8 list) \<Rightarrow> string \<Rightarrow> file_path \<Rightarrow> u8 list \<Rightarrow> bool \<Rightarrow> string option option
     \<Rightarrow> (disk, 'e file_error, unit) action" where
  "atomic_write_inner os sha uuid path bytes backup expected =
     sbind (spure (ok_or (path_parent path) No_parent)) (\<lambda>parent.
     sbind os_op (\<lambda>_ d.
       case write_temporary os sha (temporary_name uuid parent) path bytes backup expected d of
         (r, d') \<Rightarrow> (r, clean_up (temporary_name uuid parent) d')))"

definition atomic_write ::
    "disk_os \<Rightarrow> (u8 list \<Rightarrow> u8 list) \<Rightarrow> string \<Rightarrow> file_path \<Rightarrow> u8 list \<Rightarrow> bool \<Rightarrow> (disk, 'e file_error, unit) action" where
  "atomic_write os sha uuid path bytes backup = atomic_write_inner os sha uuid path bytes backup None"

definition atomic_write_checked ::
    "disk_os \<Rightarrow> (u8 list \<Rightarrow> u8 list) \<Rightarrow> string \<Rightarrow> file_path \<Rightarrow> u8 list \<Rightarrow> bool \<Rightarrow> string option
     \<Rightarrow> (disk, 'e file_error, unit) action" where
  "atomic_write_checked os sha uuid path bytes backup expected =
     atomic_write_inner os sha uuid path bytes backup (Some expected)"

subsection \<open>The policy file\<close>

text \<open>The libraries it calls: Unicode lower case, \<open>uuid\<close>, SHA-256 and the text of JSON.\<close>

record libraries =
  lb_lower :: "string \<Rightarrow> string"
  lb_uuid :: "string \<Rightarrow> nat option"
  lb_sha :: "u8 list \<Rightarrow> u8 list"
  lb_parse :: "u8 list \<Rightarrow> json option"
  lb_pretty :: "json \<Rightarrow> u8 list"

definition policies_of_json :: "json \<Rightarrow> policy_error file_error + routing_policy list" where
  "policies_of_json v =
     (case v of
        JArr vs \<Rightarrow> (case collect_r policy_of_json vs of Inl e \<Rightarrow> Inl (Rejected e) | Inr ps \<Rightarrow> Inr ps)
      | _ \<Rightarrow> Inl Bad_json)"

definition check_policies :: "libraries \<Rightarrow> routing_policy list \<Rightarrow> policy_error file_error + unit" where
  "check_policies lb ps = (case validate_policies (lb_lower lb) (lb_uuid lb) ps of Inl e \<Rightarrow> Inl (Rejected e) | Inr _ \<Rightarrow> Inr ())"

definition policy_load ::
    "libraries \<Rightarrow> file_path \<Rightarrow> (disk, policy_error file_error, routing_policy list \<times> string option) action" where
  "policy_load lb path = sbind (read_bounded path max_json_bytes) (\<lambda>b.
     case b of
       None \<Rightarrow> spure (Inr ([], None))
     | Some bytes \<Rightarrow>
         sbind (spure (ok_or (lb_parse lb (without_bom bytes)) Bad_json)) (\<lambda>v.
         sbind (spure (policies_of_json v)) (\<lambda>ps.
         sbind (spure (check_policies lb ps)) (\<lambda>_.
           spure (Inr (ps, Some (revision (lb_sha lb) bytes)))))))"

definition policy_bytes :: "libraries \<Rightarrow> routing_policy list \<Rightarrow> u8 list" where
  "policy_bytes lb ps = lb_pretty lb (JArr (map json_of_policy ps))"

definition policy_save ::
    "disk_os \<Rightarrow> libraries \<Rightarrow> string \<Rightarrow> file_path \<Rightarrow> routing_policy list \<Rightarrow> string option
     \<Rightarrow> (disk, policy_error file_error, string) action" where
  "policy_save os lb uuid path ps expected =
     sbind (spure (check_policies lb ps)) (\<lambda>_.
     sbind (spure (ensure (length (policy_bytes lb ps) \<le> max_json_bytes) Too_large)) (\<lambda>_.
     sbind (spure (ok_or (path_parent path) No_parent)) (\<lambda>_.
     sbind os_op (\<lambda>_.
     with_lock (with_extension ''json.lock'' path)
       (sbind (current_revision (lb_sha lb) path) (\<lambda>c.
        sbind (spure (ensure (c = expected) Stale)) (\<lambda>_.
        sbind (atomic_write_inner os (lb_sha lb) uuid path (policy_bytes lb ps) True (Some expected)) (\<lambda>_.
          spure (Inr (revision (lb_sha lb) (policy_bytes lb ps)))))))))))"

end
