(* ===== verification/Persistence_Facts.thy ===== *)
theory Persistence_Facts
  imports Persistence Text
begin

text \<open>
  Atomic writes keep the old contents or install the new ones, whatever call of the file system
  fails; the policy file is saved only over the revision that was read, and loads as it was saved.
\<close>

lemma os_op_keeps: "os_op d = (r, d') \<Longrightarrow> dk_files d' = dk_files d \<and> dk_held d' = dk_held d"
  by (auto simp: os_op_def os_fault_def split: list.splits option.splits)

lemma os_fault_keeps: "os_fault d = (r, d') \<Longrightarrow> dk_files d' = dk_files d \<and> dk_held d' = dk_held d"
  by (auto simp: os_fault_def split: list.splits)

lemma path_exists_keeps: "path_exists p d = (r, d') \<Longrightarrow> dk_files d' = dk_files d \<and> dk_held d' = dk_held d"
  by (auto simp: path_exists_def dest!: os_fault_keeps split: prod.splits option.splits)

lemma path_exists_True: "path_exists p d = (True, d') \<Longrightarrow> dk_files d p \<noteq> None"
  by (auto simp: path_exists_def dest!: os_fault_keeps split: prod.splits option.splits)

lemma read_bounded_keeps: "read_bounded p n d = (r, d') \<Longrightarrow> dk_files d' = dk_files d \<and> dk_held d' = dk_held d"
  by (cases r)
    (auto simp: read_bounded_def result_simps Let_def dest!: os_op_keeps split: option.splits)

lemma read_bounded_Inr:
  assumes "read_bounded p n d = (Inr b, d')"
  shows "b = dk_files d p"
proof -
  have "take (Suc n) c = c" if "length (take (Suc n) c) \<le> n" for c :: "u8 list"
    using that by (simp add: min_def split: if_splits)
  then show ?thesis
    using assms by (auto simp: read_bounded_def result_simps Let_def dest!: os_op_keeps split: option.splits)
qed

lemma current_revision_keeps:
  "current_revision sha p d = (r, d') \<Longrightarrow> dk_files d' = dk_files d \<and> dk_held d' = dk_held d"
  by (cases r) (auto simp: current_revision_def result_simps dest!: read_bounded_keeps)

lemma current_revision_Inr:
  "current_revision sha p d = (Inr c, d') \<Longrightarrow> c = map_option (revision sha) (dk_files d p)"
  by (auto simp: current_revision_def result_simps dest!: read_bounded_Inr)

lemma check_expected_keeps:
  "check_expected sha p e d = (r, d') \<Longrightarrow> dk_files d' = dk_files d \<and> dk_held d' = dk_held d"
  by (cases r) (auto simp: check_expected_def result_simps dest!: current_revision_keeps split: option.splits)

lemma check_expected_Inr:
  "check_expected sha p (Some e) d = (Inr u, d') \<Longrightarrow> e = map_option (revision sha) (dk_files d p)"
  by (auto simp: check_expected_def result_simps dest!: current_revision_Inr)

lemma create_new_effect:
  fixes r :: "'e file_error + unit"
  assumes "create_new p d = (r, d')"
  shows "\<exists>x. dk_files d' = (dk_files d)(p := x)" "dk_held d' = dk_held d"
proof -
  have "(dk_files d' = dk_files d \<or> dk_files d' = (dk_files d)(p \<mapsto> [])) \<and> dk_held d' = dk_held d"
  proof (cases r)
    case (Inl e)
    with assms have "os_op d = (Inl e, d') \<or> (\<exists>d1. os_op d = (Inr () :: 'e file_error + unit, d1) \<and> d' = d1)"
      by (auto simp: create_new_def result_simps split: if_splits)
    then show ?thesis using os_op_keeps by metis
  next
    case (Inr u)
    with assms obtain d1 where "os_op d = (Inr () :: 'e file_error + unit, d1)" "d' = d1\<lparr>dk_files := (dk_files d1)(p \<mapsto> [])\<rparr>"
      by (auto simp: create_new_def result_simps split: if_splits)
    with os_op_keeps [of d "Inr () :: 'e file_error + unit" d1] show ?thesis by simp
  qed
  then show "\<exists>x. dk_files d' = (dk_files d)(p := x)" "dk_held d' = dk_held d"
    by (metis fun_upd_triv)+
qed

lemma write_all_effect:
  assumes "write_all p bytes d = (r, d')"
  shows "\<exists>x. dk_files d' = (dk_files d)(p := x)" "dk_held d' = dk_held d"
    "r = Inr () \<Longrightarrow> dk_files d' = (dk_files d)(p \<mapsto> bytes)"
  using assms by (auto simp: write_all_def dest!: os_fault_keeps split: prod.splits option.splits)

text \<open>What is written before the replacement touches the temporary file alone.\<close>

lemma write_temporary_cases:
  fixes r :: "'e file_error + unit"
  assumes "write_temporary os sha t p bytes backup e d = (r, d')"
  shows "(\<exists>err x. r = Inl err \<and> dk_files d' = (dk_files d)(t := x) \<and> dk_held d' = dk_held d) \<or>
    (\<exists>d1. dk_files d1 = (dk_files d)(t \<mapsto> bytes) \<and> dk_held d1 = dk_held d \<and>
       (\<forall>c. e = Some c \<and> t \<noteq> p \<longrightarrow> c = map_option (revision sha) (dk_files d p)) \<and>
       replace_target os t p backup d1 = (r, d'))"
proof -
  obtain r1 :: "'e file_error + unit" and d1 where 1: "create_new t d = (r1, d1)" by force
  obtain r2 :: "'e file_error + unit" and d2 where 2: "write_all t bytes d1 = (r2, d2)" by force
  obtain r3 :: "'e file_error + unit" and d3 where 3: "os_op d2 = (r3, d3)" by force
  obtain r4 :: "'e file_error + unit" and d4 where 4: "check_expected sha p e d3 = (r4, d4)" by force
  note f1 = create_new_effect [OF 1] and f2 = write_all_effect [OF 2] and f3 = os_op_keeps [OF 3]
    and f4 = check_expected_keeps [OF 4]
  obtain x where x: "dk_files d1 = (dk_files d)(t := x)" using f1(1) by blast
  obtain y where y: "dk_files d2 = (dk_files d)(t := y)" using f2(1) x by auto
  have early: "?thesis" if "r = Inl err" "dk_files d' = (dk_files d)(t := z)" "dk_held d' = dk_held d" for err z
    using that by blast
  consider e1 where "r1 = Inl e1" | e2 where "r1 = Inr ()" "r2 = Inl e2"
    | e3 where "r1 = Inr ()" "r2 = Inr ()" "r3 = Inl e3" | e4 where "r1 = Inr ()" "r2 = Inr ()" "r3 = Inr ()" "r4 = Inl e4"
    | "r1 = Inr ()" "r2 = Inr ()" "r3 = Inr ()" "r4 = Inr ()"
    by (metis (full_types) old.sum.exhaust old.unit.exhaust)
  then show ?thesis
  proof cases
    case 5
    then have "replace_target os t p backup d4 = (r, d')"
      using assms 1 2 3 4 by (simp add: write_temporary_def)
    moreover have "dk_files d4 = (dk_files d)(t \<mapsto> bytes)" "dk_held d4 = dk_held d"
      using f1 f2 f3 f4 x 5 by auto
    moreover have "c = map_option (revision sha) (dk_files d p)" if "e = Some c \<and> t \<noteq> p" for c
    proof -
      have "c = map_option (revision sha) (dk_files d3 p)"
        using check_expected_Inr [of sha p c d3 "()" d4] 4 5(4) that by simp
      moreover have "dk_files d3 p = dk_files d p" using y f3 that by auto
      ultimately show ?thesis by simp
    qed
    ultimately show ?thesis by blast
  qed (use assms 1 2 3 4 f1(2) f2(2) f3 f4 x y in \<open>auto simp: write_temporary_def intro!: early\<close>)
qed

subsection \<open>The promise of the system's replacement\<close>

text \<open>
  What stands on the disk when a write has returned. Finished: the new bytes, and under the name of
  the backup that was asked for the old ones. Not finished: under the file's own name the old
  contents or nothing, never a part of the new; and when there is nothing, and a backup was asked
  for, the old contents under its name. Without a backup they may be under another name that was
  free. What an earlier backup held is not promised then.
\<close>

definition kept_or_written ::
    "file_path \<Rightarrow> file_path \<Rightarrow> u8 list \<Rightarrow> bool \<Rightarrow> contents \<Rightarrow> contents \<Rightarrow> bool \<Rightarrow> bool" where
  "kept_or_written path temporary bytes backup old new finished \<longleftrightarrow>
     (if finished
      then new path = Some bytes \<and>
        new (backup_of path) = (if backup \<and> old path \<noteq> None then old path else old (backup_of path)) \<and>
        (\<forall>q. q \<notin> {path, backup_of path, temporary} \<longrightarrow> new q = old q)
      else (new path = old path \<or> new path = None \<and> (if backup then new (backup_of path) = old path else True)) \<and>
        (\<forall>q. q \<notin> {path, temporary} \<and> \<not> (backup \<and> q = backup_of path) \<longrightarrow>
           new q = old q \<or> \<not> backup \<and> old q = None \<and> new q = old path))"

text \<open>What is under the name of the temporary file does not count.\<close>

lemma kept_or_written_cong:
  assumes "\<And>q. q \<noteq> t \<Longrightarrow> old q = old' q" "\<And>q. q \<noteq> t \<Longrightarrow> new q = new' q" "path \<noteq> t" "backup_of path \<noteq> t"
  shows "kept_or_written path t bytes backup old new f = kept_or_written path t bytes backup old' new' f"
  using assms by (auto simp: kept_or_written_def)

text \<open>
  What is documented of \<open>ReplaceFileW\<close> and \<open>MoveFileExW\<close>. Done, the new file stands under the old
  name and the old one under the name of the backup. A replacement that is not done leaves the old
  file under its name, or nothing there: with a backup the old file then has the name of the backup
  (\<open>ERROR_UNABLE_TO_MOVE_REPLACEMENT_2\<close>), without one it no longer exists
  (\<open>ERROR_UNABLE_TO_MOVE_REPLACEMENT\<close>) or has a different name. Nothing is promised of an earlier
  file under the name of the backup, nor of the replacement.
\<close>

locale replacing_os =
  fixes os :: disk_os
  assumes replace_done: "os_replace os t s b fs = (True, fs') \<Longrightarrow>
      fs' = (case b of None \<Rightarrow> fs | Some k \<Rightarrow> fs(k := fs t))(t := fs s, s := None)"
    and replace_failed: "os_replace os t s b fs = (False, fs') \<Longrightarrow>
      fs' t = fs t \<or> fs' t = None \<and> (case b of None \<Rightarrow> True | Some k \<Rightarrow> fs' k = fs t)"
    and replace_failed_others: "os_replace os t s b fs = (False, fs') \<Longrightarrow> q \<notin> {t, s} \<Longrightarrow> b \<noteq> Some q \<Longrightarrow>
      fs' q = fs q \<or> b = None \<and> fs q = None \<and> fs' q = fs t"
    and move_done: "os_move os s t fs = (True, fs') \<Longrightarrow> fs t = None \<and> fs' = fs(t := fs s, s := None)"
    and move_failed: "os_move os s t fs = (False, fs') \<Longrightarrow> fs' = fs"
begin

lemma replace_target_done:
  assumes "replace_target os s t backup d = (Inr (), d')" "distinct [t, backup_of t, s]"
  shows "dk_files d' = (if backup \<and> dk_files d t \<noteq> None then (dk_files d)(backup_of t := dk_files d t) else dk_files d)
      (t := dk_files d s, s := None) \<and> dk_held d' = dk_held d"
proof -
  obtain there d1 where e: "path_exists t d = (there, d1)" by force
  note k = path_exists_keeps [OF e]
  show ?thesis
  proof (cases there)
    case True
    with assms e path_exists_True [of t d d1] k
    show ?thesis
      by (auto simp: replace_target_def dest!: replace_done split: prod.splits if_splits)
  next
    case False
    with assms e k show ?thesis
      by (auto simp: replace_target_def dest!: move_done split: prod.splits if_splits)
  qed
qed

lemma replace_target_failed:
  assumes "replace_target os s t backup d = (Inl err, d')" "distinct [t, backup_of t, s]"
  shows "kept_or_written t s bytes backup (dk_files d) (dk_files d') False \<and> dk_held d' = dk_held d"
proof -
  obtain there d1 where e: "path_exists t d = (there, d1)" by force
  note k = path_exists_keeps [OF e]
  show ?thesis
  proof (cases there)
    case True
    with assms(1) e obtain fs where fs: "os_replace os t s (if backup then Some (backup_of t) else None) (dk_files d) = (False, fs)"
        "dk_files d' = fs" "dk_held d' = dk_held d"
      using k by (auto simp: replace_target_def split: prod.splits if_splits)
    have "fs t = dk_files d t \<or> fs t = None \<and> (if backup then fs (backup_of t) = dk_files d t else True)"
      using replace_failed [OF fs(1)] by (cases backup) simp_all
    moreover have "fs q = dk_files d q \<or> \<not> backup \<and> dk_files d q = None \<and> fs q = dk_files d t"
      if "q \<notin> {t, s} \<and> \<not> (backup \<and> q = backup_of t)" for q
      using replace_failed_others [OF fs(1), of q] that by (cases backup) auto
    ultimately show ?thesis using fs(2,3) by (simp add: kept_or_written_def)
  next
    case False
    with assms e k show ?thesis
      by (auto simp: replace_target_def kept_or_written_def dest!: move_failed split: prod.splits if_splits)
  qed
qed

lemma clean_up_effect:
  "(dk_files (clean_up t d) = dk_files d \<or> dk_files (clean_up t d) = (dk_files d)(t := None)) \<and>
     dk_held (clean_up t d) = dk_held d"
proof -
  obtain there d1 where e: "path_exists t d = (there, d1)" by force
  obtain r :: "unit file_error + unit" and d2 where o: "os_op d1 = (r, d2)" by force
  from path_exists_keeps [OF e] os_op_keeps [OF o] e o show ?thesis
    by (cases r) (auto simp: clean_up_def remove_file_def sbind_def)
qed

lemma atomic_write_inner_outcome:
  fixes r :: "'e file_error + unit"
  assumes "atomic_write_inner os sha uuid path bytes backup e d = (r, d')" "path_parent path = Some parent"
    and "t = temporary_name uuid parent" "distinct [path, backup_of path, t]" "dk_files d t = None"
  shows "kept_or_written path t bytes backup (dk_files d) (dk_files d') (r = Inr ()) \<and> dk_held d' = dk_held d"
    "e = Some c \<Longrightarrow> c = map_option (revision sha) (dk_files d path) \<or>
       r \<noteq> Inr () \<and> dk_files d' path = dk_files d path \<and> dk_files d' (backup_of path) = dk_files d (backup_of path)"
proof -
  obtain r1 :: "'e file_error + unit" and d1 where o: "os_op d = (r1, d1)" by force
  note k = os_op_keeps [OF o]
  have ne: "path \<noteq> t" "backup_of path \<noteq> t" "backup_of path \<noteq> path" using assms(4) by auto
  have untouched: "(kept_or_written path t bytes backup (dk_files d) fs False) \<and>
      fs path = dk_files d path \<and> fs (backup_of path) = dk_files d (backup_of path)" if "\<And>q. q \<noteq> t \<Longrightarrow> fs q = dk_files d q" for fs
    using that ne by (simp add: kept_or_written_def)
  have "(kept_or_written path t bytes backup (dk_files d) (dk_files d') (r = Inr ()) \<and> dk_held d' = dk_held d) \<and>
     (e = Some c \<longrightarrow> c = map_option (revision sha) (dk_files d path) \<or>
       r \<noteq> Inr () \<and> dk_files d' path = dk_files d path \<and> dk_files d' (backup_of path) = dk_files d (backup_of path))"
  proof (cases r1)
    case (Inl err)
    then have "r = Inl err \<and> d' = d1"
      using assms(1,2) o by (simp add: atomic_write_inner_def)
    with k untouched [of "dk_files d1"] show ?thesis by simp
  next
    case (Inr u)
    obtain r2 :: "'e file_error + unit" and d2 where w: "write_temporary os sha t path bytes backup e d1 = (r2, d2)" by force
    have r: "r = r2" "d' = clean_up t d2"
      using assms(1-3) o w Inr by (simp_all add: atomic_write_inner_def)
    have g: "dk_files d' q = dk_files d2 q" if "q \<noteq> t" for q
      using clean_up_effect [of t d2] r(2) that by auto
    have h: "dk_held d' = dk_held d2" using clean_up_effect [of t d2] r(2) by simp
    from write_temporary_cases [OF w] show ?thesis
    proof (elim disjE exE conjE)
      fix err x
      assume "r2 = Inl err" "dk_files d2 = (dk_files d1)(t := x)" "dk_held d2 = dk_held d1"
      with g h r(1) k untouched [of "dk_files d'"] show ?thesis by simp
    next
      fix d3
      assume d3: "dk_files d3 = (dk_files d1)(t \<mapsto> bytes)" "dk_held d3 = dk_held d1"
        and ex: "\<forall>c. e = Some c \<and> t \<noteq> path \<longrightarrow> c = map_option (revision sha) (dk_files d1 path)"
        and rt: "replace_target os t path backup d3 = (r2, d2)"
      have "kept_or_written path t bytes backup (dk_files d3) (dk_files d2) (r2 = Inr ()) \<and> dk_held d2 = dk_held d3"
      proof (cases r2)
        case (Inl err)
        from replace_target_failed [OF rt [unfolded Inl] assms(4)] Inl show ?thesis by simp
      next
        case (Inr v)
        then have r2: "r2 = Inr ()" by simp
        from replace_target_done [OF rt [unfolded r2] assms(4)] r2 ne d3(1) show ?thesis
          by (cases "dk_files d1 path") (simp_all add: kept_or_written_def)
      qed
      moreover have "kept_or_written path t bytes backup (dk_files d3) (dk_files d2) f =
          kept_or_written path t bytes backup (dk_files d) (dk_files d') f" for f
        using d3(1) k g ne by (intro kept_or_written_cong) simp_all
      ultimately show ?thesis
        using r(1) h d3(2) k ex ne(1) by auto
    qed
  qed
  then show "kept_or_written path t bytes backup (dk_files d) (dk_files d') (r = Inr ()) \<and> dk_held d' = dk_held d"
    "e = Some c \<Longrightarrow> c = map_option (revision sha) (dk_files d path) \<or>
       r \<noteq> Inr () \<and> dk_files d' path = dk_files d path \<and> dk_files d' (backup_of path) = dk_files d (backup_of path)"
    by blast+
qed

end

text \<open>A system that always carries them out where it can.\<close>

definition plain_os :: disk_os where
  "plain_os =
     \<lparr>os_replace = (\<lambda>t s b fs. (True, (case b of None \<Rightarrow> fs | Some k \<Rightarrow> fs(k := fs t))(t := fs s, s := None))),
      os_move = (\<lambda>s t fs. if fs t = None then (True, fs(t := fs s, s := None)) else (False, fs))\<rparr>"

interpretation plain: replacing_os plain_os
  by unfold_locales (auto simp: plain_os_def split: if_splits)

text \<open>
  C8: an atomic write, whichever calls fail, either installs the new bytes, with the old ones as the
  backup that was asked for, and says so, or reports a failure. After a failure the file holds its
  old contents or does not exist, never a part of the new ones; when it does not exist and a backup
  was asked for, as all callers do, the old contents are under the backup's name. Every other file
  keeps its contents. With an expected revision it writes only over that revision; over another one
  it fails, and the file and its backup stay as they were.
\<close>

theorem atomic_write_old_or_new:
  assumes "replacing_os os" "path_parent path = Some parent" "t = temporary_name uuid parent"
    and "distinct [path, backup_of path, t]" "dk_files d t = None"
    and "atomic_write_inner os sha uuid path bytes backup e d = (r, d')"
  shows "kept_or_written path t bytes backup (dk_files d) (dk_files d') (r = Inr ()) \<and>
    (case e of
       Some c \<Rightarrow> c = map_option (revision sha) (dk_files d path) \<or>
         r \<noteq> Inr () \<and> dk_files d' path = dk_files d path \<and> dk_files d' (backup_of path) = dk_files d (backup_of path)
     | None \<Rightarrow> True)"
  using replacing_os.atomic_write_inner_outcome [OF assms(1,6,2-5)]
  by (auto split: option.splits)

definition empty_disk :: disk where
  "empty_disk = \<lparr>dk_files = Map.empty, dk_held = [], dk_faults = []\<rparr>"

theorem atomic_write_old_or_new_witness:
  "case atomic_write_inner plain_os (\<lambda>_. []) ''u'' [''d'', ''r.json''] [1, 2] True None
      (empty_disk\<lparr>dk_files := [[''d'', ''r.json''] \<mapsto> [9]]\<rparr>) of (r :: policy_error file_error + unit, d') \<Rightarrow>
    kept_or_written [''d'', ''r.json''] [''d'', ''.netlane-u.tmp''] [1, 2] True [[''d'', ''r.json''] \<mapsto> [9]] (dk_files d') (r = Inr ())"
proof -
  have b: "backup_of [''d'', ''r.json''] = [''d'', ''r.json.bak'']" by code_simp
  obtain r :: "policy_error file_error + unit" and d' where w: "atomic_write_inner plain_os (\<lambda>_. []) ''u'' [''d'', ''r.json''] [1, 2] True None
      (empty_disk\<lparr>dk_files := [[''d'', ''r.json''] \<mapsto> [9]]\<rparr>) = (r, d')" by force
  from atomic_write_old_or_new [OF plain.replacing_os_axioms _ _ _ _ w, of "[''d'']" "[''d'', ''.netlane-u.tmp'']"] show ?thesis
    unfolding w by (simp add: path_parent_def temporary_name_def b)
qed

subsection \<open>The policy file\<close>

lemma with_lock_outcome:
  fixes r :: "'e file_error + 'a"
  assumes "with_lock p body d = (r, d')"
  obtains "r = Inl Locked" "dk_files d' = dk_files d" "dk_held d' = dk_held d"
  | d1 d2 x where "p \<notin> set (dk_held d)" "dk_files d1 = (dk_files d)(p := x)" "dk_held d1 = p # dk_held d"
      "body d1 = (r, d2)" "d' = close_exclusive p d2"
proof -
  obtain r0 :: "'e file_error + unit" and d0 where o: "os_op d = (r0, d0)" by force
  note k = os_op_keeps [OF o]
  show ?thesis
  proof (cases "r0 = Inr () \<and> p \<notin> set (dk_held d)")
    case True
    let ?d1 = "d0\<lparr>dk_held := p # dk_held d0,
        dk_files := (dk_files d0)(p := (case dk_files d0 p of None \<Rightarrow> Some [] | x \<Rightarrow> x))\<rparr>"
    obtain r1 d2 where b: "body ?d1 = (r1, d2)" by force
    have "exclusive_file p d = (Inr () :: 'e file_error + unit, ?d1)"
      using o k True by (simp add: exclusive_file_def smap_error_def)
    then have "r = r1" "d' = close_exclusive p d2"
      using assms b by (simp_all add: with_lock_def)
    with k b True show ?thesis
      by (intro that(2) [of ?d1 "case dk_files d0 p of None \<Rightarrow> Some [] | x \<Rightarrow> x" d2]) simp_all
  next
    case False
    with o k assms that(1) show ?thesis
      by (cases r0) (auto simp: with_lock_def exclusive_file_def smap_error_def sbind_def split: prod.splits)
  qed
qed

lemma policy_save_outcome:
  assumes "replacing_os os" "path_parent path = Some parent" "t = temporary_name uuid parent"
    and "lk = with_extension ''json.lock'' path"
    and "distinct [path, backup_of path, t, lk]" "dk_files d t = None"
    and "policy_save os lb uuid path ps expected d = (r, d')"
  shows "dk_held d' = dk_held d \<and>
    (case r of
       Inr new_revision \<Rightarrow>
         check_policies lb ps = Inr () \<and> lk \<notin> set (dk_held d) \<and>
         expected = map_option (revision (lb_sha lb)) (dk_files d path) \<and>
         new_revision = revision (lb_sha lb) (policy_bytes lb ps) \<and>
         dk_files d' path = Some (policy_bytes lb ps) \<and>
         dk_files d' (backup_of path) =
           (if dk_files d path = None then dk_files d (backup_of path) else dk_files d path)
     | Inl _ \<Rightarrow>
         dk_files d' path = dk_files d path \<and> dk_files d' (backup_of path) = dk_files d (backup_of path) \<or>
         check_policies lb ps = Inr () \<and> lk \<notin> set (dk_held d) \<and>
         expected = map_option (revision (lb_sha lb)) (dk_files d path) \<and>
         (dk_files d' path = dk_files d path \<or>
          dk_files d' path = None \<and> dk_files d' (backup_of path) = dk_files d path))"
proof -
  obtain r0 :: "policy_error file_error + unit" and d0 where o: "os_op d = (r0, d0)" by force
  note k = os_op_keeps [OF o]
  define body :: "(disk, policy_error file_error, string) action" where "body = sbind (current_revision (lb_sha lb) path) (\<lambda>c.
        sbind (spure (ensure (c = expected) Stale)) (\<lambda>_.
        sbind (atomic_write_inner os (lb_sha lb) uuid path (policy_bytes lb ps) True (Some expected)) (\<lambda>_.
          spure (Inr (revision (lb_sha lb) (policy_bytes lb ps))))))"
  show ?thesis
  proof (cases "check_policies lb ps = Inr () \<and> length (policy_bytes lb ps) \<le> max_json_bytes \<and> r0 = Inr ()")
    case False
    then have "(\<exists>e. r = Inl e) \<and> dk_files d' = dk_files d \<and> dk_held d' = dk_held d"
      using assms(2,7) o k
      by (cases "check_policies lb ps"; cases "length (policy_bytes lb ps) \<le> max_json_bytes"; cases r0)
        (auto simp: policy_save_def)
    then show ?thesis by auto
  next
    case ok: True
    then have w: "with_lock lk body d0 = (r, d')"
      using assms(2,4,7) o by (simp add: policy_save_def body_def)
    from w show ?thesis
    proof (rule with_lock_outcome)
      assume "r = Inl Locked" "dk_files d' = dk_files d0" "dk_held d' = dk_held d0"
      with k show ?thesis by simp
    next
      fix d1 d2 x
      assume 1: "lk \<notin> set (dk_held d0)" "dk_files d1 = (dk_files d0)(lk := x)" "dk_held d1 = lk # dk_held d0"
        "body d1 = (r, d2)" "d' = close_exclusive lk d2"
      have same: "dk_files d1 q = dk_files d q" if "q \<noteq> lk" for q using 1(2) k that by simp
      have kept: "dk_files d' q = dk_files d2 q" if "q \<noteq> lk" for q using 1(5) that by (simp add: close_exclusive_def)
      have ne: "path \<noteq> lk" "backup_of path \<noteq> lk" "t \<noteq> lk" "distinct [path, backup_of path, t]"
        using assms(5) by auto
      obtain r3 :: "policy_error file_error + string option" and d3 where c: "current_revision (lb_sha lb) path d1 = (r3, d3)" by force
      note kc = current_revision_keeps [OF c]
      show ?thesis
      proof (cases "r3 = Inr expected")
        case False
        then have "(\<exists>e. r = Inl e) \<and> d2 = d3"
          using 1(4) c by (cases r3) (auto simp: body_def ensure_def)
        with kc 1(3,5) k same kept ne show ?thesis by (auto simp: close_exclusive_def)
      next
        case True
        have e: "expected = map_option (revision (lb_sha lb)) (dk_files d path)"
          using current_revision_Inr [OF c [unfolded True]] same ne(1) by simp
        obtain r4 :: "policy_error file_error + unit" and d4 where a: "atomic_write_inner os (lb_sha lb) uuid path (policy_bytes lb ps) True (Some expected) d3 = (r4, d4)"
          by force
        have d3: "dk_files d3 t = None" using kc same ne(3) assms(6) by simp
        note out = replacing_os.atomic_write_inner_outcome(1) [OF assms(1) a assms(2,3) ne(4) d3]
        have r: "d2 = d4" "r = (case r4 of Inl e \<Rightarrow> Inl e | Inr _ \<Rightarrow> Inr (revision (lb_sha lb) (policy_bytes lb ps)))"
          using 1(4) c a True by (cases r4; simp add: body_def)+
        have held: "dk_held d' = dk_held d"
          using out kc 1(3,5) k r(1) by (simp add: close_exclusive_def)
        have old: "dk_files d3 path = dk_files d path" "dk_files d3 (backup_of path) = dk_files d (backup_of path)"
          using kc same ne by simp_all
        have new: "dk_files d' path = dk_files d4 path" "dk_files d' (backup_of path) = dk_files d4 (backup_of path)"
          using kept ne r(1) by simp_all
        from out e held old new r(2) 1(1) k show ?thesis
          by (cases r4) (auto simp: kept_or_written_def ok)
      qed
    qed
  qed
qed

text \<open>
  C39: the policy file is replaced only by one process at a time, only with valid policies and only
  over the revision that was read; what is returned is the revision of the new contents, and the old
  ones are the backup. A save that is rejected, stale or locked out keeps the file and its backup. One
  that fails later keeps the old contents, under the file's own name or under that of the backup.
\<close>

theorem policy_save_guarded:
  assumes "replacing_os os" "path_parent path = Some parent" "t = temporary_name uuid parent"
    and "lk = with_extension ''json.lock'' path"
    and "distinct [path, backup_of path, t, lk]" "dk_files d t = None"
    and "policy_save os lb uuid path ps expected d = (r, d')"
  shows "dk_held d' = dk_held d \<and>
    (case r of
       Inr new_revision \<Rightarrow>
         check_policies lb ps = Inr () \<and> lk \<notin> set (dk_held d) \<and>
         expected = map_option (revision (lb_sha lb)) (dk_files d path) \<and>
         new_revision = revision (lb_sha lb) (policy_bytes lb ps) \<and>
         dk_files d' path = Some (policy_bytes lb ps) \<and>
         dk_files d' (backup_of path) =
           (if dk_files d path = None then dk_files d (backup_of path) else dk_files d path)
     | Inl _ \<Rightarrow>
         dk_files d' path = dk_files d path \<and> dk_files d' (backup_of path) = dk_files d (backup_of path) \<or>
         check_policies lb ps = Inr () \<and> lk \<notin> set (dk_held d) \<and>
         expected = map_option (revision (lb_sha lb)) (dk_files d path) \<and>
         (dk_files d' path = dk_files d path \<or>
          dk_files d' path = None \<and> dk_files d' (backup_of path) = dk_files d path))"
  using assms by (rule policy_save_outcome)

text \<open>A disk where no call fails.\<close>

lemma os_op_calm: "dk_faults d = [] \<Longrightarrow> os_op d = (Inr (), d)"
  by (simp add: os_op_def os_fault_def)

lemma read_bounded_calm:
  "dk_faults d = [] \<Longrightarrow> dk_files d p = Some bytes \<Longrightarrow> length bytes \<le> n \<Longrightarrow> read_bounded p n d = (Inr (Some bytes), d)"
  by (simp add: read_bounded_def os_op_calm Let_def)

lemma read_bounded_missing:
  "dk_faults d = [] \<Longrightarrow> dk_files d p = None \<Longrightarrow> read_bounded p n d = (Inr None, d)"
  by (simp add: read_bounded_def os_op_calm)

lemma current_revision_missing:
  "dk_faults d = [] \<Longrightarrow> dk_files d p = None \<Longrightarrow> current_revision sha p d = (Inr None, d)"
  by (simp add: current_revision_def read_bounded_missing)

lemma path_exists_calm: "dk_faults d = [] \<Longrightarrow> path_exists p d = (dk_files d p \<noteq> None, d)"
  by (simp add: path_exists_def os_fault_def)

lemma atomic_write_fresh:
  assumes "dk_faults d = []" "dk_files d path = None" "path_parent path = Some parent"
    and "dk_files d (temporary_name uuid parent) = None" "temporary_name uuid parent \<noteq> path"
  shows "atomic_write_inner plain_os sha uuid path bytes backup (Some None) d =
     (Inr (), d\<lparr>dk_files := (dk_files d)(path \<mapsto> bytes)\<rparr>)"
  using assms
  by (auto simp: atomic_write_inner_def write_temporary_def create_new_def write_all_def os_op_calm os_fault_def
      check_expected_def current_revision_missing replace_target_def path_exists_calm plain_os_def clean_up_def
      fun_eq_iff intro!: arg_cong [where f = "\<lambda>fs. d\<lparr>dk_files := fs\<rparr>"])

lemma policy_save_fresh:
  assumes "dk_faults d = []" "dk_files d path = None" "path_parent path = Some parent" "lk = with_extension ''json.lock'' path"
    and "dk_files d (temporary_name uuid parent) = None" "distinct [path, temporary_name uuid parent, lk]"
    and "dk_files d lk = None" "dk_held d = []"
    and "check_policies lb ps = Inr ()" "length (policy_bytes lb ps) \<le> max_json_bytes"
  shows "policy_save plain_os lb uuid path ps None d =
     (Inr (revision (lb_sha lb) (policy_bytes lb ps)), d\<lparr>dk_files := (dk_files d)(path \<mapsto> policy_bytes lb ps)\<rparr>)"
  using assms
  by (auto simp: policy_save_def os_op_calm with_lock_def exclusive_file_def smap_error_def current_revision_missing
      atomic_write_fresh close_exclusive_def fun_eq_iff intro!: arg_cong [where f = "\<lambda>fs. d\<lparr>dk_files := fs\<rparr>"])

text \<open>One policy, saved on an empty disk.\<close>

definition demo_policies :: "routing_policy list" where
  "demo_policies = [policy_new ''a.exe'']"

definition demo_libraries :: libraries where
  "demo_libraries =
     \<lparr>lb_lower = (\<lambda>s. s), lb_uuid = (\<lambda>_. None), lb_sha = take 1,
      lb_parse = (\<lambda>_. Some (JArr (map json_of_policy demo_policies))), lb_pretty = (\<lambda>_. [0x5B, 0x5D])\<rparr>"

definition demo_path :: file_path where "demo_path = [''d'', ''r.json'']"

lemma demo_paths:
  "distinct [demo_path, backup_of demo_path, temporary_name ''u'' [''d''], with_extension ''json.lock'' demo_path]"
  "path_parent demo_path = Some [''d'']"
  by code_simp+

definition demo_saved :: disk where
  "demo_saved = empty_disk\<lparr>dk_files := [demo_path \<mapsto> [0x5B, 0x5D]]\<rparr>"

lemma demo_save: "policy_save plain_os demo_libraries ''u'' demo_path demo_policies None empty_disk = (Inr ''5B'', demo_saved)"
proof -
  have "file_name ''a.exe'' = ''a.exe''" by code_simp
  moreover have "trim ''a.exe'' = ''a.exe''"
    by (rule trim_same [OF refl]) (code_simp, simp, code_simp)
  ultimately have "check_policies demo_libraries demo_policies = Inr ()"
    by (simp add: check_policies_def validate_policies_def demo_policies_def demo_libraries_def policy_new_def max_policies_def)
  moreover have "policy_bytes demo_libraries demo_policies = [0x5B, 0x5D]"
    by (simp add: policy_bytes_def demo_libraries_def)
  moreover have "revision (lb_sha demo_libraries) [0x5B, 0x5D] = ''5B''" by code_simp
  ultimately show ?thesis
    using policy_save_fresh [of empty_disk demo_path "[''d'']" _ "''u''" demo_libraries demo_policies] demo_paths
    by (simp add: empty_disk_def demo_saved_def max_json_bytes_def)
qed

theorem policy_save_guarded_witness:
  "dk_files demo_saved demo_path = Some [0x5B, 0x5D] \<and> dk_held demo_saved = []"
proof -
  have e: "dk_files empty_disk (temporary_name ''u'' [''d'']) = None" "dk_files empty_disk demo_path = None"
    "dk_held empty_disk = []"
    by (simp_all add: empty_disk_def)
  from policy_save_guarded [OF plain.replacing_os_axioms demo_paths(2) refl refl demo_paths(1) e(1) demo_save] e
  show ?thesis by (simp add: policy_bytes_def demo_libraries_def)
qed

lemma policies_json_round_trip:
  assumes "\<And>p. p \<in> set ps \<Longrightarrow> policy_of_json (json_of_policy p) = Inr p"
  shows "policies_of_json (JArr (map json_of_policy ps)) = Inr ps"
proof -
  have "collect_r policy_of_json (map json_of_policy ps) = Inr ps"
    using assms by (simp add: collect_r_Inr_iff)
  then show ?thesis by (simp add: policies_of_json_def)
qed

text \<open>
  What was saved is what is loaded, with the revision the save returned, when the library reads
  back the JSON that it wrote and no policy has an additional field under a name of the format.
\<close>

theorem policy_save_load:
  assumes "replacing_os os" "path_parent path = Some parent"
    and "distinct [path, backup_of path, temporary_name uuid parent, with_extension ''json.lock'' path]"
    and "dk_files d (temporary_name uuid parent) = None"
    and "policy_save os lb uuid path ps expected d = (Inr new_revision, d')" "dk_faults d' = []"
    and "lb_parse lb (policy_bytes lb ps) = Some (JArr (map json_of_policy ps))"
    and "take 3 (policy_bytes lb ps) \<noteq> [0xEF, 0xBB, 0xBF]"
    and "list_all (\<lambda>p. list_all (\<lambda>(k, _). foreign_field k) (additional_data p)) ps"
  shows "policy_load lb path d' = (Inr (ps, Some new_revision), d')"
proof -
  from policy_save_outcome [OF assms(1,2) refl refl assms(3-5)]
  have f: "check_policies lb ps = Inr ()" "new_revision = revision (lb_sha lb) (policy_bytes lb ps)"
    "dk_files d' path = Some (policy_bytes lb ps)" by simp_all
  have "length (policy_bytes lb ps) \<le> max_json_bytes"
    using assms(5) by (auto simp: policy_save_def result_simps)
  then have "read_bounded path max_json_bytes d' = (Inr (Some (policy_bytes lb ps)) :: policy_error file_error + u8 list option, d')"
    using read_bounded_calm assms(6) f(3) by blast
  moreover have "policies_of_json (JArr (map json_of_policy ps)) = Inr ps"
    using assms(9) by (intro policies_json_round_trip policy_json_back) (fastforce simp: list_all_iff)
  ultimately show ?thesis
    using assms(7,8) f by (simp add: policy_load_def without_bom_def)
qed

theorem policy_save_load_witness:
  "policy_load demo_libraries demo_path demo_saved = (Inr (demo_policies, Some ''5B''), demo_saved)"
proof -
  have "dk_files empty_disk (temporary_name ''u'' [''d'']) = None" by (simp add: empty_disk_def)
  moreover have "dk_faults demo_saved = []" by (simp add: demo_saved_def empty_disk_def)
  ultimately show ?thesis
    by (intro policy_save_load [OF plain.replacing_os_axioms demo_paths(2,1) _ demo_save])
      (simp_all add: policy_bytes_def demo_libraries_def demo_policies_def policy_new_def)
qed

end
