(* ===== verification/Journal_Store.thy ===== *)
theory Journal_Store
  imports Persistence_Facts Priority_Facts
begin

text \<open>
  The recovery journal on disk, \<open>JournalFile\<close> of \<open>crates/netlane-core/src/default_connection.rs\<close>:
  loading it, saving it over the revision that was read and clearing it. The reader and the printer
  that \<open>serde\<close> derives for the journal are parameters.
\<close>

record journal_text =
  jt_parse :: "u8 list \<Rightarrow> journal option"
  jt_pretty :: "journal \<Rightarrow> u8 list"
  jt_sha :: "u8 list \<Rightarrow> u8 list"

definition check_journal :: "journal \<Rightarrow> dc_error file_error + unit" where
  "check_journal j = (case journal_validate j of Inl e \<Rightarrow> Inl (Rejected e) | Inr _ \<Rightarrow> Inr ())"

definition journal_load ::
    "journal_text \<Rightarrow> file_path \<Rightarrow> (disk, dc_error file_error, journal option \<times> string option) action" where
  "journal_load jt path = sbind (read_bounded path max_journal) (\<lambda>b.
     case b of
       None \<Rightarrow> spure (Inr (None, None))
     | Some bytes \<Rightarrow>
         sbind (spure (ok_or (jt_parse jt (without_bom bytes)) Bad_json)) (\<lambda>j.
         sbind (spure (check_journal j)) (\<lambda>_.
           spure (Inr (Some j, Some (revision (jt_sha jt) bytes))))))"

definition journal_save ::
    "disk_os \<Rightarrow> journal_text \<Rightarrow> string \<Rightarrow> file_path \<Rightarrow> journal \<Rightarrow> string option
     \<Rightarrow> (disk, dc_error file_error, string) action" where
  "journal_save os jt uuid path j expected =
     sbind (spure (check_journal j)) (\<lambda>_.
     sbind (spure (ok_or (path_parent path) No_parent)) (\<lambda>_.
     sbind os_op (\<lambda>_.
     with_lock (with_extension ''json.lock'' path)
       (sbind (journal_load jt path) (\<lambda>(_, current).
        sbind (spure (ensure (current = expected) Stale)) (\<lambda>_.
        sbind (spure (ensure (length (jt_pretty jt j) \<le> max_journal) Too_large)) (\<lambda>_.
        sbind (atomic_write_checked os (jt_sha jt) uuid path (jt_pretty jt j) True expected) (\<lambda>_.
          spure (Inr (revision (jt_sha jt) (jt_pretty jt j)))))))))))"

definition journal_clear ::
    "journal_text \<Rightarrow> file_path \<Rightarrow> string option \<Rightarrow> (disk, dc_error file_error, unit) action" where
  "journal_clear jt path expected =
     with_lock (with_extension ''json.lock'' path)
       (sbind (journal_load jt path) (\<lambda>(_, current).
        sbind (spure (ensure (current = expected) Stale)) (\<lambda>_ d.
          case path_exists path d of (there, d') \<Rightarrow>
            if there then remove_file path d' else (Inr (), d'))))"

lemma journal_load_keeps: "journal_load jt p d = (r, d') \<Longrightarrow> dk_files d' = dk_files d \<and> dk_held d' = dk_held d"
  by (cases r) (auto simp: journal_load_def result_simps dest!: read_bounded_keeps split: option.splits)

lemma journal_load_Inr:
  "journal_load jt p d = (Inr (j, v), d') \<Longrightarrow> v = map_option (revision (jt_sha jt)) (dk_files d p)"
  by (auto simp: journal_load_def result_simps dest!: read_bounded_Inr [THEN sym] split: option.splits)

context replacing_os
begin

lemma journal_save_Inr:
  assumes "journal_save os jt uuid path j expected d = (Inr v, d')" "path_parent path = Some parent"
    and "t = temporary_name uuid parent" "lk = with_extension ''json.lock'' path"
    and "distinct [path, backup_of path, t, lk]" "dk_files d t = None"
  shows "check_journal j = Inr ()" "lk \<notin> set (dk_held d)"
    "expected = map_option (revision (jt_sha jt)) (dk_files d path)"
    "v = revision (jt_sha jt) (jt_pretty jt j)" "length (jt_pretty jt j) \<le> max_journal"
    "dk_files d' path = Some (jt_pretty jt j)" "dk_held d' = dk_held d" "dk_files d' lk = None"
    "dk_files d path \<noteq> None \<Longrightarrow> dk_files d' (backup_of path) = dk_files d path"
proof -
  define body :: "(disk, dc_error file_error, string) action" where
    "body = sbind (journal_load jt path) (\<lambda>(_, current).
        sbind (spure (ensure (current = expected) Stale)) (\<lambda>_.
        sbind (spure (ensure (length (jt_pretty jt j) \<le> max_journal) Too_large)) (\<lambda>_.
        sbind (atomic_write_checked os (jt_sha jt) uuid path (jt_pretty jt j) True expected) (\<lambda>_.
          spure (Inr (revision (jt_sha jt) (jt_pretty jt j)))))))"
  obtain d0 where o: "os_op d = (Inr () :: dc_error file_error + unit, d0)" and "check_journal j = Inr ()"
    and w: "with_lock lk body d0 = (Inr v, d')"
    using assms(1) unfolding journal_save_def assms(4) [symmetric] body_def [symmetric]
    by (auto simp: result_simps)
  note k = os_op_keeps [OF o]
  show "check_journal j = Inr ()" by fact
  from w obtain d1 d2 x where 1: "lk \<notin> set (dk_held d0)" "dk_files d1 = (dk_files d0)(lk := x)"
      "dk_held d1 = lk # dk_held d0" "body d1 = (Inr v, d2)" "d' = close_exclusive lk d2"
    by (rule with_lock_outcome) auto
  from 1(4) obtain jo d3 where 2: "journal_load jt path d1 = (Inr (jo, expected), d3)"
      "length (jt_pretty jt j) \<le> max_journal" "v = revision (jt_sha jt) (jt_pretty jt j)"
      "atomic_write_inner os (jt_sha jt) uuid path (jt_pretty jt j) True (Some expected) d3 = (Inr () :: dc_error file_error + unit, d2)"
    by (auto simp: body_def result_simps atomic_write_checked_def)
  note kl = journal_load_keeps [OF 2(1)]
  have ne: "path \<noteq> lk" "backup_of path \<noteq> lk" "t \<noteq> lk" "distinct [path, backup_of path, t]"
    using assms(5) by auto
  have d3: "dk_files d3 q = dk_files d q" if "q \<noteq> lk" for q
    using that kl 1(2) k by simp
  have "dk_files d3 t = None" using d3 ne(3) assms(6) by simp
  note out = atomic_write_inner_outcome(1) [OF 2(4) assms(2,3) ne(4) this]
  have d': "dk_files d' q = dk_files d2 q" if "q \<noteq> lk" for q
    using that by (simp add: 1(5) close_exclusive_def)
  show "lk \<notin> set (dk_held d)" using 1(1) k by simp
  show "expected = map_option (revision (jt_sha jt)) (dk_files d path)"
    using journal_load_Inr [OF 2(1)] 1(2) k ne(1) by simp
  show "v = revision (jt_sha jt) (jt_pretty jt j)" "length (jt_pretty jt j) \<le> max_journal" by fact+
  show "dk_files d' path = Some (jt_pretty jt j)" "dk_held d' = dk_held d" "dk_files d' lk = None"
    using out d' [OF ne(1)] 1(3,5) kl k by (auto simp: kept_or_written_def close_exclusive_def)
  show "dk_files d' (backup_of path) = dk_files d path" if "dk_files d path \<noteq> None"
    using out d' [OF ne(2)] d3 [OF ne(1)] that by (simp add: kept_or_written_def)
qed

end

text \<open>
  The recovery journal outlives the program: what was saved, and was saved only over the journal
  that had been read, is what is loaded, with its revision; with that revision it can be cleared, and
  afterwards there is no journal.
\<close>

theorem journal_recoverable:
  assumes "replacing_os os" "path_parent path = Some parent"
    and "distinct [path, backup_of path, temporary_name uuid parent, with_extension ''json.lock'' path]"
    and "dk_files d (temporary_name uuid parent) = None"
    and "journal_save os jt uuid path j expected d = (Inr v, d')" "dk_faults d' = []"
    and "jt_parse jt (jt_pretty jt j) = Some j" "take 3 (jt_pretty jt j) \<noteq> [0xEF, 0xBB, 0xBF]"
  shows "expected = map_option (revision (jt_sha jt)) (dk_files d path) \<and>
    journal_load jt path d' = (Inr (Some j, Some v), d') \<and>
    (\<exists>d''. journal_clear jt path (Some v) d' = (Inr (), d'') \<and> journal_load jt path d'' = (Inr (None, None), d''))"
proof -
  note f = replacing_os.journal_save_Inr [OF assms(1,5,2) refl refl assms(3,4)]
  have load: "journal_load jt path e = (Inr (Some j, Some v), e)"
    if "dk_faults e = []" "dk_files e path = Some (jt_pretty jt j)" for e
  proof -
    have "read_bounded path max_journal e = (Inr (Some (jt_pretty jt j)) :: dc_error file_error + u8 list option, e)"
      using that f(5) by (intro read_bounded_calm)
    then show ?thesis using assms(7,8) f(1,4) by (simp add: journal_load_def without_bom_def)
  qed
  let ?lk = "with_extension ''json.lock'' path"
  define e1 where "e1 = d'\<lparr>dk_held := ?lk # dk_held d', dk_files := (dk_files d')(?lk := Some [])\<rparr>"
  define e2 where "e2 = close_exclusive ?lk (e1\<lparr>dk_files := (dk_files e1)(path := None)\<rparr>)"
  have ne: "path \<noteq> ?lk" using assms(3) by auto
  have ex: "exclusive_file ?lk d' = (Inr () :: dc_error file_error + unit, e1)"
    using f(2,7,8) assms(6) by (simp add: exclusive_file_def os_op_calm smap_error_def e1_def)
  have e1: "dk_faults e1 = []" "dk_files e1 path = Some (jt_pretty jt j)"
    using assms(6) f(6) ne by (simp_all add: e1_def)
  have c: "journal_clear jt path (Some v) d' = (Inr (), e2)"
    using ex load [OF e1] e1
    by (simp add: journal_clear_def with_lock_def path_exists_calm remove_file_def os_op_calm e2_def)
  have "dk_faults e2 = []" "dk_files e2 path = None"
    using e1(1) ne by (simp_all add: e2_def close_exclusive_def)
  then have "journal_load jt path e2 = (Inr (None, None), e2)"
    by (simp add: journal_load_def read_bounded_missing)
  with c load [OF assms(6) f(6)] f(3) show ?thesis by blast
qed

lemma journal_save_fresh:
  assumes "dk_faults d = []" "dk_files d path = None" "path_parent path = Some parent" "lk = with_extension ''json.lock'' path"
    and "dk_files d (temporary_name uuid parent) = None" "distinct [path, temporary_name uuid parent, lk]"
    and "dk_files d lk = None" "dk_held d = []"
    and "check_journal j = Inr ()" "length (jt_pretty jt j) \<le> max_journal"
  shows "journal_save plain_os jt uuid path j None d =
     (Inr (revision (jt_sha jt) (jt_pretty jt j)), d\<lparr>dk_files := (dk_files d)(path \<mapsto> jt_pretty jt j)\<rparr>)"
  using assms
  by (auto simp: journal_save_def journal_load_def read_bounded_missing os_op_calm with_lock_def exclusive_file_def smap_error_def
      atomic_write_checked_def atomic_write_fresh close_exclusive_def fun_eq_iff
      intro!: arg_cong [where f = "\<lambda>fs. d\<lparr>dk_files := fs\<rparr>"])

definition demo_journal :: journal where
  "demo_journal = empty_journal\<lparr>jn_original := [\<lparr>mt_id = 7, mt_automatic = False, mt_metric = 25\<rparr>]\<rparr>"

definition demo_text :: journal_text where
  "demo_text = \<lparr>jt_parse = (\<lambda>_. Some demo_journal), jt_pretty = (\<lambda>_. [0x7B, 0x7D]), jt_sha = take 1\<rparr>"

theorem journal_recoverable_witness:
  "\<exists>d' d''. journal_save plain_os demo_text ''u'' demo_path demo_journal None empty_disk = (Inr ''7B'', d') \<and>
    journal_load demo_text demo_path d' = (Inr (Some demo_journal, Some ''7B''), d') \<and>
    journal_clear demo_text demo_path (Some ''7B'') d' = (Inr (), d'') \<and>
    journal_load demo_text demo_path d'' = (Inr (None, None), d'')"
proof -
  have "check_journal demo_journal = Inr ()"
    by (simp add: check_journal_def journal_validate_def demo_journal_def empty_journal_def validate_metrics_def inventory_limit_def)
  moreover have "revision (jt_sha demo_text) [0x7B, 0x7D] = ''7B''" by code_simp
  moreover have p: "jt_pretty demo_text demo_journal = [0x7B, 0x7D]" "jt_parse demo_text [0x7B, 0x7D] = Some demo_journal"
    by (simp_all add: demo_text_def)
  ultimately have save: "journal_save plain_os demo_text ''u'' demo_path demo_journal None empty_disk =
      (Inr ''7B'', empty_disk\<lparr>dk_files := [demo_path \<mapsto> [0x7B, 0x7D]]\<rparr>)"
    using journal_save_fresh [of empty_disk demo_path "[''d'']" _ "''u''" demo_journal demo_text] demo_paths
    by (simp add: empty_disk_def max_journal_def)
  from journal_recoverable [OF plain.replacing_os_axioms demo_paths(2,1) _ save] p
  have "journal_load demo_text demo_path (empty_disk\<lparr>dk_files := [demo_path \<mapsto> [0x7B, 0x7D]]\<rparr>) =
      (Inr (Some demo_journal, Some ''7B''), empty_disk\<lparr>dk_files := [demo_path \<mapsto> [0x7B, 0x7D]]\<rparr>) \<and>
    (\<exists>d''. journal_clear demo_text demo_path (Some ''7B'') (empty_disk\<lparr>dk_files := [demo_path \<mapsto> [0x7B, 0x7D]]\<rparr>) = (Inr (), d'') \<and>
      journal_load demo_text demo_path d'' = (Inr (None, None), d''))"
    by (simp add: empty_disk_def)
  with save show ?thesis by blast
qed

end
