(* ===== verification/Panel.thy ===== *)
theory Panel
  imports Persistence Protocol
begin

text \<open>
  The panel's side of \<open>crates/netlane-agent/src/lib.rs\<close>: the controller's commands, the exchange with
  the elevated agent, the wait for its exit and the state the window shows. What \<open>select!\<close> picks is a
  list of events with their times in nanoseconds; a list that does not end the exchange leaves it
  running. The lease, the launch of the agent and the authentication of the pipe are parameters, and
  so are the texts of errors.
\<close>

record session_state =
  ss_running :: bool
  ss_busy :: bool
  ss_cleanup :: bool
  ss_detail :: string
  ss_rules :: "planned_rule list"

datatype command =
    Start_command string "routing_policy list" bool
  | Update_command "routing_policy list"
  | Stop_command

datatype panel_error =
    Not_local
  | Not_a_file
  | File_refused "policy_error file_error"
  | Rules_refused policy_error
  | Previous_session
  | Controller_gone
  | Lease_denied
  | Launch_denied string
  | Not_connected
  | Agent_lost
  | Agent_unreachable
  | Agent_incompatible
  | Other_session
  | Unexpected_message
  | Stop_overdue
  | Agent_silent
  | Closed_unconfirmed
  | Cleanup_unconfirmed

subsection \<open>The controller's commands\<close>

definition controller_new :: session_state where
  "controller_new =
     \<lparr>ss_running = False, ss_busy = False, ss_cleanup = True,
      ss_detail = (''Sess'' @ byte_string [195, 163] @ ''o parada. O painel observa a rede sem eleva'' @ byte_string [195, 167, 195, 163] @ ''o.''), ss_rules = []\<rparr>"

record controller =
  ct_state :: session_state
  ct_queue :: "command list"
  ct_open :: bool

definition send_command :: "command \<Rightarrow> (controller, panel_error, unit) action" where
  "send_command c ct =
     (if ct_open ct then (Inr (), ct\<lparr>ct_queue := ct_queue ct @ [c]\<rparr>) else (Inl Controller_gone, ct))"

definition validate_start ::
    "libraries \<Rightarrow> (file_path \<Rightarrow> string) \<Rightarrow> file_path \<Rightarrow> (disk, panel_error, unit) action" where
  "validate_start lb path_text path =
     sbind (spure (ensure (is_local_path (path_text path)) Not_local)) (\<lambda>_ d.
     case path_exists path d of (there, d1) \<Rightarrow>
       sbind (spure (ensure there Not_a_file)) (\<lambda>_.
       sbind (smap_error File_refused (policy_load lb path)) (\<lambda>_. spure (Inr ()))) d1)"

definition controller_start ::
    "libraries \<Rightarrow> (file_path \<Rightarrow> string) \<Rightarrow> file_path \<Rightarrow> routing_policy list \<Rightarrow> bool
     \<Rightarrow> (controller \<times> disk, panel_error, unit) action" where
  "controller_start lb path_text path ps allow st =
     (case st of (ct, d) \<Rightarrow>
      case validate_start lb path_text path d of
        (Inl e, d1) \<Rightarrow> (Inl e, ct, d1)
      | (Inr _, d1) \<Rightarrow>
          (case validate_policies (lb_lower lb) (lb_uuid lb) ps of
             Inl e \<Rightarrow> (Inl (Rules_refused e), ct, d1)
           | Inr _ \<Rightarrow>
               let ss = ct_state ct in
               if ss_running ss \<or> ss_busy ss \<or> \<not> ss_cleanup ss then (Inl Previous_session, ct, d1)
               else
                 (case send_command (Start_command (path_text path) ps allow) (ct\<lparr>ct_state := ss\<lparr>ss_busy := True\<rparr>\<rparr>) of
                    (Inr _, ct1) \<Rightarrow> (Inr (), ct1, d1)
                  | (Inl e, ct1) \<Rightarrow> (Inl e, ct1\<lparr>ct_state := (ct_state ct1)\<lparr>ss_busy := False\<rparr>\<rparr>, d1))))"

definition controller_update ::
    "libraries \<Rightarrow> routing_policy list \<Rightarrow> (controller, panel_error, bool) action" where
  "controller_update lb ps =
     sbind (spure (case validate_policies (lb_lower lb) (lb_uuid lb) ps of
         Inl e \<Rightarrow> Inl (Rules_refused e) | Inr _ \<Rightarrow> Inr ())) (\<lambda>_ ct.
       if \<not> ss_running (ct_state ct) then (Inr False, ct)
       else sbind (send_command (Update_command ps)) (\<lambda>_. spure (Inr True)) ct)"

definition controller_stop :: "(controller, panel_error, unit) action" where
  "controller_stop = send_command Stop_command"

subsection \<open>The exchange\<close>

datatype panel_event =
    Message_in "message option"
  | Command_in "command option"
  | Ping_tick

text \<open>The session is identified by the process and the path it was started with.\<close>

definition accept_response ::
    "nat \<Rightarrow> string \<Rightarrow> message \<Rightarrow> session_state \<Rightarrow> (panel_error + bool) \<times> session_state" where
  "accept_response pid path m ss =
     (case m of
        Session_snapshot process reported_path _ rules detail \<Rightarrow>
          if process = pid \<and> eq_ignore_ascii_case reported_path path
          then (Inr False, ss\<lparr>ss_busy := False, ss_detail := detail, ss_rules := rules\<rparr>)
          else (Inl Other_session, ss)
      | Error_message detail \<Rightarrow> (Inr False, ss\<lparr>ss_busy := False, ss_detail := detail\<rparr>)
      | Stopped success detail \<Rightarrow>
          (Inr True, ss\<lparr>ss_cleanup := success, ss_detail := detail, ss_rules := []\<rparr>)
      | _ \<Rightarrow> (Inl Unexpected_message, ss))"

record panel_state =
  pn_session :: session_state
  pn_exiting :: bool
  pn_stop_deadline :: "nat option"
  pn_last :: nat
  pn_channel :: channel

datatype panel_flow = Go_on | Finished | Failed panel_error | Write_failed panel_error

definition second :: nat where "second = 1000000000"

definition ending_text :: string where
  "ending_text = (''Encerrando o motor e restaurando op'' @ byte_string [195, 167, 195, 181] @ ''es tempor'' @ byte_string [195, 161] @ ''rias'' @ byte_string [226, 128, 166])"

definition write_message :: "message \<Rightarrow> panel_state \<Rightarrow> panel_flow \<times> panel_state" where
  "write_message m st =
     (case send_to Agent_unreachable m (pn_channel st) of
        (Inl e, ch) \<Rightarrow> (Write_failed e, st\<lparr>pn_channel := ch\<rparr>)
      | (Inr _, ch) \<Rightarrow> (Go_on, st\<lparr>pn_channel := ch\<rparr>))"

definition panel_step ::
    "nat \<Rightarrow> string \<Rightarrow> nat \<times> panel_event \<Rightarrow> panel_state \<Rightarrow> panel_flow \<times> panel_state" where
  "panel_step pid path ev st =
     (case ev of
        (now, Message_in None) \<Rightarrow> (Failed Agent_lost, st\<lparr>pn_last := now\<rparr>)
      | (now, Message_in (Some m)) \<Rightarrow>
          (case accept_response pid path m (pn_session st) of
             (Inl e, ss) \<Rightarrow> (Failed e, st\<lparr>pn_last := now, pn_session := ss\<rparr>)
           | (Inr finished, ss) \<Rightarrow>
               (if finished then Finished else Go_on, st\<lparr>pn_last := now, pn_session := ss\<rparr>))
      | (now, Command_in c) \<Rightarrow>
          if pn_exiting st then (Go_on, st)
          else (case c of
              Some (Update_command ps) \<Rightarrow> write_message (Update_rules ps) st
            | Some (Start_command _ _ _) \<Rightarrow> (Go_on, st)
            | _ \<Rightarrow> write_message Stop (st\<lparr>pn_exiting := True, pn_stop_deadline := Some (now + 30 * second),
                     pn_session := (pn_session st)\<lparr>ss_busy := True, ss_detail := ending_text\<rparr>\<rparr>))
      | (now, Ping_tick) \<Rightarrow>
          if (case pn_stop_deadline st of None \<Rightarrow> False | Some t \<Rightarrow> t < now) then (Failed Stop_overdue, st)
          else if 35 * second \<le> now - pn_last st then (Failed Agent_silent, st)
          else write_message Ping st)"

text \<open>After a failed write, the messages that are still in the inbox.\<close>

fun drain :: "nat \<Rightarrow> string \<Rightarrow> message option list \<Rightarrow> session_state \<Rightarrow> bool \<times> session_state" where
  "drain pid path [] ss = (False, ss)"
| "drain pid path (None # ms) ss = (False, ss)"
| "drain pid path (Some m # ms) ss =
     (case accept_response pid path m ss of
        (Inl e, ss') \<Rightarrow> (False, ss')
      | (Inr True, ss') \<Rightarrow> (True, ss')
      | (Inr False, ss') \<Rightarrow> drain pid path ms ss')"

definition messages_in :: "(nat \<times> panel_event) list \<Rightarrow> message option list" where
  "messages_in evs = List.map_filter (\<lambda>ev. case snd ev of Message_in m \<Rightarrow> Some m | _ \<Rightarrow> None) evs"

fun exchange_loop ::
    "nat \<Rightarrow> string \<Rightarrow> (nat \<times> panel_event) list \<Rightarrow> panel_state
     \<Rightarrow> (panel_error + unit) option \<times> session_state" where
  "exchange_loop pid path [] st = (None, pn_session st)"
| "exchange_loop pid path (ev # evs) st =
     (case panel_step pid path ev st of
        (Go_on, st') \<Rightarrow> exchange_loop pid path evs st'
      | (Finished, st') \<Rightarrow> (Some (Inr ()), pn_session st')
      | (Failed e, st') \<Rightarrow> (Some (Inl e), pn_session st')
      | (Write_failed e, st') \<Rightarrow>
          (case drain pid path (messages_in evs) (pn_session st') of
             (True, ss) \<Rightarrow> (Some (Inr ()), ss)
           | (False, ss) \<Rightarrow> (Some (Inl Closed_unconfirmed), ss)))"

definition panel_exchange ::
    "nat \<Rightarrow> string \<Rightarrow> routing_policy list \<Rightarrow> bool \<Rightarrow> nat \<Rightarrow> (nat \<times> panel_event) list \<Rightarrow> channel \<Rightarrow> session_state
     \<Rightarrow> (panel_error + unit) option \<times> session_state" where
  "panel_exchange pid path ps allow start evs ch ss =
     (case sbind (receive_from Agent_lost) (\<lambda>m.
           sbind (spure (ensure (m = Hello protocol_version) Agent_incompatible)) (\<lambda>_.
           send_to Agent_unreachable (Start_session path ps allow))) ch of
        (Inl e, _) \<Rightarrow> (Some (Inl e), ss)
      | (Inr _, ch1) \<Rightarrow>
          exchange_loop pid path evs
            \<lparr>pn_session = ss, pn_exiting = False, pn_stop_deadline = None, pn_last = start, pn_channel = ch1\<rparr>)"

subsection \<open>The agent's exit\<close>

definition exiting_text :: string where
  "exiting_text = (''O agente ainda est'' @ byte_string [195, 161] @ '' encerrando. O controlador mant'' @ byte_string [195, 169] @ ''m a sess'' @ byte_string [195, 163] @ ''o sob acompanhamento; limpeza ainda precisa de confirma'' @ byte_string [195, 167, 195, 163] @ ''o.'')"

definition stop_text :: string where
  "stop_text = (''Parada recebida. O canal foi encerrado; aguardando a sa'' @ byte_string [195, 173] @ ''da do agente, sem for'' @ byte_string [195, 167] @ ''ar t'' @ byte_string [195, 169] @ ''rmino ou presumir limpeza.'')"

definition wait_text :: string where
  "wait_text = (''A nova sess'' @ byte_string [195, 163] @ ''o precisa aguardar a sa'' @ byte_string [195, 173] @ ''da e a limpeza confirmada da anterior.'')"

text \<open>
  One iteration while the process runs: the time, and the command that came, if one did
  (\<open>Some None\<close> when the channel of commands was closed). The state is whether the warning was given,
  whether commands are still awaited, and what is shown.
\<close>

definition wait_step ::
    "nat \<Rightarrow> nat \<times> command option option \<Rightarrow> bool \<times> bool \<times> session_state \<Rightarrow> bool \<times> bool \<times> session_state" where
  "wait_step deadline it st =
     (case it of (now, c) \<Rightarrow> case st of (warned, listening, ss0) \<Rightarrow>
        let ss1 = ss0\<lparr>ss_running := True, ss_busy := True\<rparr>;
            late = (\<not> warned \<and> deadline \<le> now);
            ss2 = (if late then ss1\<lparr>ss_detail := exiting_text\<rparr> else ss1)
        in (if \<not> listening then (warned \<or> late, listening, ss2)
            else (case c of
                None \<Rightarrow> (warned \<or> late, True, ss2)
              | Some None \<Rightarrow> (warned \<or> late, False, ss2)
              | Some (Some Stop_command) \<Rightarrow> (warned \<or> late, True, ss2\<lparr>ss_detail := stop_text\<rparr>)
              | Some (Some (Start_command _ _ _)) \<Rightarrow> (warned \<or> late, True, ss2\<lparr>ss_detail := wait_text\<rparr>)
              | Some (Some (Update_command _)) \<Rightarrow> (warned \<or> late, True, ss2))))"

definition wait_for_agent_exit ::
    "nat \<Rightarrow> (nat \<times> command option option) list \<Rightarrow> session_state \<Rightarrow> session_state" where
  "wait_for_agent_exit start its ss =
     (case fold (wait_step (start + 20 * second)) its (False, True, ss) of
        (_, _, ss') \<Rightarrow> ss'\<lparr>ss_running := False, ss_busy := False\<rparr>)"

text \<open>What the operating system and the agent do in one session.\<close>

record session_world =
  sw_lease :: bool
  sw_launch :: "string + nat"
  sw_connected :: bool
  sw_start :: nat
  sw_channel :: channel
  sw_events :: "(nat \<times> panel_event) list"
  sw_exit :: "nat \<times> (nat \<times> command option option) list"

definition launched_exchange ::
    "session_world \<Rightarrow> nat \<Rightarrow> string \<Rightarrow> routing_policy list \<Rightarrow> bool \<Rightarrow> session_state
     \<Rightarrow> (panel_error + unit) option \<times> session_state" where
  "launched_exchange w pid path ps allow ss =
     (if sw_connected w
      then panel_exchange pid path ps allow (sw_start w) (sw_events w) (sw_channel w) ss
      else (Some (Inl Not_connected), ss))"

definition await_exit :: "session_world \<Rightarrow> session_state \<Rightarrow> session_state" where
  "await_exit w = wait_for_agent_exit (fst (sw_exit w)) (snd (sw_exit w))"

definition after_exchange ::
    "(panel_error \<Rightarrow> string) \<Rightarrow> session_world \<Rightarrow> (panel_error + unit) option \<times> session_state
     \<Rightarrow> (panel_error + unit) option \<times> session_state" where
  "after_exchange display w rs =
     (case rs of
        (None, ss) \<Rightarrow> (None, ss)
      | (Some (Inl e), ss) \<Rightarrow>
          (Some (Inl e), await_exit w (ss\<lparr>ss_detail := display e @ (''. Aguardando a sa'' @ byte_string [195, 173] @ ''da do agente.'')\<rparr>))
      | (Some (Inr _), ss) \<Rightarrow>
          (let ss' = await_exit w ss in
           (Some (ensure (\<not> ss_running ss' \<and> ss_cleanup ss') Cleanup_unconfirmed), ss')))"

definition control_session ::
    "(panel_error \<Rightarrow> string) \<Rightarrow> session_world \<Rightarrow> string \<Rightarrow> routing_policy list \<Rightarrow> bool \<Rightarrow> session_state
     \<Rightarrow> (panel_error + unit) option \<times> session_state" where
  "control_session display w path ps allow ss =
     (if \<not> sw_lease w then (Some (Inl Lease_denied), ss)
      else (case sw_launch w of
          Inl e \<Rightarrow> (Some (Inl (Launch_denied e)), ss)
        | Inr pid \<Rightarrow>
            after_exchange display w
              (launched_exchange w pid path ps allow (ss\<lparr>ss_running := True, ss_cleanup := False\<rparr>))))"

definition awaiting_text :: string where
  "awaiting_text = (''Aguardando autoriza'' @ byte_string [195, 167, 195, 163] @ ''o do Windows'' @ byte_string [226, 128, 166])"

text \<open>A command taken from the queue outside a session; \<open>None\<close> while its session runs.\<close>

definition controller_command ::
    "(panel_error \<Rightarrow> string) \<Rightarrow> session_world \<Rightarrow> command \<Rightarrow> session_state \<Rightarrow> session_state option" where
  "controller_command display w c ss =
     (case c of
        Start_command path ps allow \<Rightarrow>
          if \<not> ss_cleanup ss then Some ss
          else (case control_session display w path ps allow (ss\<lparr>ss_busy := True, ss_detail := awaiting_text\<rparr>) of
              (None, _) \<Rightarrow> None
            | (Some (Inl e), ss') \<Rightarrow> Some (ss'\<lparr>ss_busy := False, ss_detail := display e\<rparr>)
            | (Some (Inr _), ss') \<Rightarrow> Some ss')
      | _ \<Rightarrow> Some ss)"

end
