(* ===== verification/Flags.thy ===== *)
theory Flags
  imports Effects Text
begin

text \<open>
  \<open>crates/netlane-windows/src/flags.rs\<close>: the temporary activation of the route policies of IPv4 and
  IPv6 and its restoration, over the trait \<open>RoutePolicySettings\<close>, and the reading of what \<open>netsh\<close>
  prints. A failed call may have changed the setting it is about. Running \<open>netsh\<close> is a parameter of
  the Windows implementation, and so is \<open>lower\<close> (\<open>str::to_lowercase\<close> of the decoded output). What
  the restoration relies on is the locale \<open>route_flags\<close>; the Windows implementation provides it over
  any \<open>netsh\<close> that behaves as documented (the locale \<open>netsh_platform\<close>), interpreted on one such.
\<close>

datatype ip_family = Ipv4 | Ipv6

record ('s, 'e) flag_ops =
  fl_read :: "ip_family \<Rightarrow> ('s, 'e, bool) action"
  fl_set :: "ip_family \<Rightarrow> bool \<Rightarrow> ('s, 'e, unit) action"

datatype 'e flag_error = Settings_error 'e | Not_authorized | Not_activated ip_family | Not_restored

record 's temporary_flags =
  tf_settings :: 's
  tf_changed :: "ip_family list"

definition flags_new :: "'s \<Rightarrow> 's temporary_flags" where
  "flags_new s = \<lparr>tf_settings = s, tf_changed = []\<rparr>"

text \<open>A call on the settings.\<close>

definition on_settings ::
    "('s, 'e, 'a) action \<Rightarrow> ('s temporary_flags, 'e flag_error, 'a) action" where
  "on_settings m t =
     (case m (tf_settings t) of
        (Inl e, s) \<Rightarrow> (Inl (Settings_error e), t\<lparr>tf_settings := s\<rparr>)
      | (Inr x, s) \<Rightarrow> (Inr x, t\<lparr>tf_settings := s\<rparr>))"

definition enable_one ::
    "('s, 'e) flag_ops \<Rightarrow> ip_family \<Rightarrow> bool \<Rightarrow> ('s temporary_flags, 'e flag_error, unit) action" where
  "enable_one ops f was =
     (if was then spure (Inr ())
      else (\<lambda>t. sbind (on_settings (fl_set ops f True)) (\<lambda>_.
                sbind (on_settings (fl_read ops f)) (\<lambda>now.
                spure (ensure now (Not_activated f)))) (t\<lparr>tf_changed := tf_changed t @ [f]\<rparr>)))"

definition enable :: "('s, 'e) flag_ops \<Rightarrow> bool \<Rightarrow> ('s temporary_flags, 'e flag_error, unit) action" where
  "enable ops authorized =
     sbind (on_settings (fl_read ops Ipv4)) (\<lambda>v4.
     sbind (on_settings (fl_read ops Ipv6)) (\<lambda>v6.
     sbind (spure (ensure (authorized \<or> v4 \<and> v6) Not_authorized)) (\<lambda>_.
     sbind (enable_one ops Ipv4 v4) (\<lambda>_.
     enable_one ops Ipv6 v6))))"

definition restore_one ::
    "('s, 'e) flag_ops \<Rightarrow> ip_family \<Rightarrow> ('s temporary_flags, 'e flag_error, unit) action" where
  "restore_one ops f =
     sbind (on_settings (fl_read ops f)) (\<lambda>on.
     sbind (if on then on_settings (fl_set ops f False) else spure (Inr ())) (\<lambda>_.
     sbind (on_settings (fl_read ops f)) (\<lambda>still.
     spure (ensure (\<not> still) Not_restored))))"

fun restore_list ::
    "('s, 'e) flag_ops \<Rightarrow> ip_family list \<Rightarrow> 's temporary_flags
     \<Rightarrow> (ip_family \<times> 'e flag_error) list \<times> 's temporary_flags" where
  "restore_list ops [] t = ([], t)"
| "restore_list ops (f # fs) t =
     (case restore_one ops f t of
        (Inr _, t1) \<Rightarrow> restore_list ops fs (t1\<lparr>tf_changed := filter (\<lambda>g. g \<noteq> f) (tf_changed t1)\<rparr>)
      | (Inl e, t1) \<Rightarrow> (case restore_list ops fs t1 of (es, t2) \<Rightarrow> ((f, e) # es, t2)))"

definition restore ::
    "('s, 'e) flag_ops \<Rightarrow> 's temporary_flags \<Rightarrow> (ip_family \<times> 'e flag_error) list \<times> 's temporary_flags" where
  "restore ops t = restore_list ops (rev (tf_changed t)) t"

subsection \<open>The output of netsh\<close>

definition policy_label :: "string \<Rightarrow> bool" where
  "policy_label l \<longleftrightarrow>
     l = ''route policies'' \<or> l = ''routepolicies'' \<or>
     (starts_with ''pol'' l \<and> ends_with ''ticas de rota'' l)"

definition policy_value :: "string \<Rightarrow> bool option" where
  "policy_value v =
     (if v = ''enabled'' \<or> v = ''habilitado'' then Some True
      else if v = ''disabled'' \<or> v = ''desabilitado'' then Some False
      else None)"

definition policy_line :: "string \<Rightarrow> bool option" where
  "policy_line l =
     (case (case split_once (CHR '':'') l of Some kv \<Rightarrow> Some kv | None \<Rightarrow> split_once (CHR ''='') l) of
        None \<Rightarrow> None
      | Some (label, v) \<Rightarrow> if policy_label (trim label) then policy_value (trim v) else None)"

definition parse_route_policies :: "(u8 list \<Rightarrow> string) \<Rightarrow> u8 list \<Rightarrow> bool option" where
  "parse_route_policies lower output =
     (case List.map_filter policy_line (text_lines (lower output)) of
        [v] \<Rightarrow> Some v
      | _ \<Rightarrow> None)"

definition family_name :: "ip_family \<Rightarrow> string" where
  "family_name f = (case f of Ipv4 \<Rightarrow> ''ipv4'' | Ipv6 \<Rightarrow> ''ipv6'')"

datatype netsh_error = Netsh_failed string | Not_verifiable

text \<open>\<open>WindowsRoutePolicySettings\<close>; the check of the family name cannot fail.\<close>

definition windows_flags ::
    "(u8 list \<Rightarrow> string) \<Rightarrow> (string list \<Rightarrow> ('s, netsh_error, u8 list) action) \<Rightarrow> ('s, netsh_error) flag_ops" where
  "windows_flags lower netsh =
     \<lparr>fl_read = (\<lambda>f. sbind (netsh [''interface'', family_name f, ''show'', ''global'']) (\<lambda>output.
        spure (ok_or (parse_route_policies lower output) Not_verifiable))),
      fl_set = (\<lambda>f on. sbind (netsh [''interface'', family_name f, ''set'', ''global'',
          if on then ''routepolicies=enabled'' else ''routepolicies=disabled'', ''store=active''])
        (\<lambda>_. spure (Inr ())))\<rparr>"

subsection \<open>Settings nobody else changes\<close>

locale route_flags =
  fixes ops :: "('s, 'e) flag_ops"
    and state :: "'s \<Rightarrow> ip_family \<Rightarrow> bool"
  assumes read_state: "fl_read ops f s = (r, s') \<Longrightarrow> state s' = state s \<and> (case r of Inl e \<Rightarrow> True | Inr x \<Rightarrow> x = state s f)"
    and set_other: "fl_set ops f on s = (w, s') \<Longrightarrow> g \<noteq> f \<Longrightarrow> state s' g = state s g"
begin

text \<open>The families that are not recorded as changed are as they were; the recorded ones were off.\<close>

definition tracks :: "(ip_family \<Rightarrow> bool) \<Rightarrow> 's temporary_flags \<Rightarrow> bool" where
  "tracks original t \<longleftrightarrow>
     (\<forall>f. if f \<in> set (tf_changed t) then \<not> original f else state (tf_settings t) f = original f)"

lemma read_on_settings:
  assumes "on_settings (fl_read ops f) t = (r, t')"
  shows "tf_changed t' = tf_changed t" "state (tf_settings t') = state (tf_settings t)"
    "r = Inr x \<Longrightarrow> x = state (tf_settings t) f"
  using assms read_state [of f "tf_settings t"]
  by (auto simp: on_settings_def split: prod.splits sum.splits)

lemma read_tracks:
  "on_settings (fl_read ops f) t = (r, t') \<Longrightarrow> tracks original t' = tracks original t"
  using read_on_settings [of f t r t'] by (simp add: tracks_def)

lemma set_on_settings:
  assumes "on_settings (fl_set ops f on) t = (r, t')"
  shows "tf_changed t' = tf_changed t" "g \<noteq> f \<Longrightarrow> state (tf_settings t') g = state (tf_settings t) g"
  using assms set_other [of f on "tf_settings t"]
  by (auto simp: on_settings_def split: prod.splits sum.splits)

lemma set_tracks:
  assumes "on_settings (fl_set ops f on) t = (r, t')" "f \<in> set (tf_changed t)" "tracks original t"
  shows "tracks original t'"
  using set_on_settings [OF assms(1)] assms(2,3) unfolding tracks_def by metis

lemma enable_one_tracks:
  assumes "enable_one ops f was t = (r, t')" "tracks original t" "was = original f" 
  shows "tracks original t'"
proof (cases was)
  case True
  with assms show ?thesis by (simp add: enable_one_def)
next
  case False
  let ?t = "t\<lparr>tf_changed := tf_changed t @ [f]\<rparr>"
  have t: "tracks original ?t" "f \<in> set (tf_changed ?t)"
    using assms(2,3) False by (auto simp: tracks_def)
  obtain a t1 where a: "on_settings (fl_set ops f True) ?t = (a, t1)" by force
  have t1: "tracks original t1" using set_tracks [OF a t(2,1)] .
  obtain b t2 where b: "on_settings (fl_read ops f) t1 = (b, t2)" by force
  have t2: "tracks original t2" using read_tracks [OF b] t1 by simp
  from assms(1) False a b t1 t2 show ?thesis
    by (cases a; cases b) (auto simp: enable_one_def sbind_def)
qed

lemma enable_tracks:
  assumes "enable ops authorized (flags_new s) = (r, t')"
  shows "tracks (state s) t'"
    "\<not> authorized \<Longrightarrow> \<not> (state s Ipv4 \<and> state s Ipv6) \<Longrightarrow> state (tf_settings t') = state s \<and> r \<noteq> Inr ()"
proof -
  have t0: "tracks (state s) (flags_new s)" by (simp add: tracks_def flags_new_def)
  obtain a t1 where a: "on_settings (fl_read ops Ipv4) (flags_new s) = (a, t1)" by force
  obtain b t2 where b: "on_settings (fl_read ops Ipv6) t1 = (b, t2)" by force
  have t: "tracks (state s) t1" "tracks (state s) t2"
    using read_tracks [OF a] read_tracks [OF b] t0 by simp_all
  have st: "state (tf_settings t1) = state s" "state (tf_settings t2) = state s"
    using read_on_settings(2) [OF a] read_on_settings(2) [OF b] by (simp_all add: flags_new_def)
  have v: "a = Inr x \<Longrightarrow> x = state s Ipv4" "b = Inr y \<Longrightarrow> y = state s Ipv6" for x y
    using read_on_settings(3) [OF a] read_on_settings(3) [OF b] st by (simp_all add: flags_new_def)
  show "tracks (state s) t'"
  proof (cases "\<exists>x y. a = Inr x \<and> b = Inr y \<and> (authorized \<or> x \<and> y)")
    case False
    with assms a b t show ?thesis
      by (cases a; cases b) (auto simp: enable_def sbind_def ensure_def)
  next
    case True
    then obtain x y where xy: "a = Inr x" "b = Inr y" "authorized \<or> x \<and> y" by blast
    obtain c t3 where c: "enable_one ops Ipv4 x t2 = (c, t3)" by force
    have t3: "tracks (state s) t3" using enable_one_tracks [OF c t(2)] v(1) [OF xy(1)] by simp
    obtain d t4 where d: "enable_one ops Ipv6 y t3 = (d, t4)" by force
    have t4: "tracks (state s) t4" using enable_one_tracks [OF d t3] v(2) [OF xy(2)] by simp
    from assms a b xy c d t3 t4 show ?thesis
      by (cases c) (auto simp: enable_def sbind_def)
  qed
  show "state (tf_settings t') = state s \<and> r \<noteq> Inr ()" if "\<not> authorized" "\<not> (state s Ipv4 \<and> state s Ipv6)"
    using assms a b st v that
    by (cases a; cases b) (auto simp: enable_def sbind_def ensure_def)
qed

lemma restore_one_facts:
  assumes "restore_one ops f t = (r, t')" "tracks original t" "f \<in> set (tf_changed t)"
  shows "tracks original t'" "tf_changed t' = tf_changed t" "r = Inr () \<Longrightarrow> \<not> state (tf_settings t') f"
proof -
  obtain a t1 where a: "on_settings (fl_read ops f) t = (a, t1)" by force
  have t1: "tracks original t1" "tf_changed t1 = tf_changed t"
    using read_tracks [OF a] read_on_settings(1) [OF a] assms(2) by simp_all
  obtain b t2 where b: "(if a = Inr True then on_settings (fl_set ops f False) t1 else (Inr (), t1)) = (b, t2)"
    by force
  have t2: "tracks original t2" "tf_changed t2 = tf_changed t"
    using b t1 set_tracks [of f False t1 b t2 original] set_on_settings(1) [of f False t1 b t2] assms(3)
    by (auto split: if_splits)
  obtain c t3 where c: "on_settings (fl_read ops f) t2 = (c, t3)" by force
  have t3: "tracks original t3" "tf_changed t3 = tf_changed t"
    using read_tracks [OF c] read_on_settings(1) [OF c] t2 by simp_all
  have run: "(r, t') = (case a of Inl e \<Rightarrow> (Inl e, t1) | Inr _ \<Rightarrow> (case b of Inl e \<Rightarrow> (Inl e, t2) | Inr _ \<Rightarrow>
      (case c of Inl e \<Rightarrow> (Inl e, t3) | Inr still \<Rightarrow> (ensure (\<not> still) Not_restored, t3))))"
    using assms(1) a b c by (cases a; cases b; cases c) (auto simp: restore_one_def sbind_def split: if_splits)
  show "tracks original t'" "tf_changed t' = tf_changed t"
    using run t1 t2 t3 by (cases a; cases b; cases c; simp)+
  show "\<not> state (tf_settings t') f" if "r = Inr ()"
    using run that read_on_settings(2,3) [OF c]
    by (cases a; cases b; cases c) (auto simp: ensure_def split: if_splits)
qed

lemma restore_list_tracks:
  "restore_list ops fs t = (es, t') \<Longrightarrow> tracks original t \<Longrightarrow> set fs \<subseteq> set (tf_changed t) \<Longrightarrow> distinct fs \<Longrightarrow>
     tracks original t' \<and> (es = [] \<longrightarrow> set (tf_changed t') = set (tf_changed t) - set fs)"
proof (induction fs arbitrary: t es)
  case Nil
  then show ?case by simp
next
  case (Cons f fs)
  obtain r t1 where o: "restore_one ops f t = (r, t1)" by force
  note one = restore_one_facts [OF o Cons.prems(2)]
  have f: "f \<in> set (tf_changed t)" using Cons.prems(3) by simp
  show ?case
  proof (cases r)
    case (Inl e)
    obtain es' where "restore_list ops fs t1 = (es', t')" "es = (f, e) # es'"
      using Cons.prems(1) o Inl by (auto split: prod.splits)
    with Cons.IH [of t1 es'] one(1,2) f Cons.prems(3,4) show ?thesis by simp
  next
    case (Inr u)
    let ?t = "t1\<lparr>tf_changed := filter (\<lambda>g. g \<noteq> f) (tf_changed t1)\<rparr>"
    have run: "restore_list ops fs ?t = (es, t')"
      using Cons.prems(1) o Inr by simp
    have "tracks original ?t"
      using one f Inr unfolding tracks_def by (auto split: if_splits)
    with Cons.IH [OF run] Cons.prems(3,4) one(2) [OF f] show ?thesis by auto
  qed
qed

lemma enable_restore:
  assumes "enable ops authorized (flags_new s) = (r, t)" "distinct (tf_changed t)" "restore ops t = ([], t')"
  shows "state (tf_settings t') = state s \<and> tf_changed t' = []"
proof -
  from restore_list_tracks [of "rev (tf_changed t)" t "[]" t' "state s"] enable_tracks(1) [OF assms(1)] assms(2,3)
  have "tracks (state s) t'" "set (tf_changed t') = {}"
    by (simp_all add: restore_def)
  then show ?thesis by (auto simp: tracks_def)
qed

end

lemma on_settings_changed: "on_settings m t = (r, t') \<Longrightarrow> tf_changed t' = tf_changed t"
  by (auto simp: on_settings_def split: prod.splits sum.splits)

lemma enable_one_changed:
  "enable_one ops f was t = (r, t') \<Longrightarrow> tf_changed t' = (if was then tf_changed t else tf_changed t @ [f])"
  by (auto simp: enable_one_def sbind_def dest!: on_settings_changed split: prod.splits sum.splits if_splits)

lemma enable_changed: "enable ops authorized (flags_new s) = (r, t) \<Longrightarrow> distinct (tf_changed t)"
  by (auto simp: enable_def sbind_def flags_new_def dest!: on_settings_changed enable_one_changed
      split: prod.splits sum.splits if_splits)

subsection \<open>The Windows implementation\<close>

text \<open>
  \<open>netsh interface ipvN show global\<close> changes nothing, and where its output has one line on route
  policies, that line is about the family asked for; \<open>set global routepolicies=\<close> moves no other
  family.
\<close>

locale netsh_platform =
  fixes lower :: "u8 list \<Rightarrow> string"
    and netsh :: "string list \<Rightarrow> ('s, netsh_error, u8 list) action"
    and state :: "'s \<Rightarrow> ip_family \<Rightarrow> bool"
  assumes show_global: "netsh [''interface'', family_name f, ''show'', ''global''] s = (r, s') \<Longrightarrow>
      state s' = state s \<and>
      (case r of Inl e \<Rightarrow> True
       | Inr out \<Rightarrow> (case parse_route_policies lower out of None \<Rightarrow> True | Some x \<Rightarrow> x = state s f))"
    and set_global: "netsh [''interface'', family_name f, ''set'', ''global'', v, ''store=active''] s = (w, s') \<Longrightarrow>
      g \<noteq> f \<Longrightarrow> state s' g = state s g"

sublocale netsh_platform \<subseteq> windows: route_flags "windows_flags lower netsh" state
proof
  fix f s s' and r :: "netsh_error + bool"
  assume "fl_read (windows_flags lower netsh) f s = (r, s')"
  then show "state s' = state s \<and> (case r of Inl e \<Rightarrow> True | Inr x \<Rightarrow> x = state s f)"
    using show_global [of f s]
    by (auto simp: windows_flags_def sbind_def ok_or_def split: prod.splits sum.splits option.splits)
next
  fix f g on s s' and w :: "netsh_error + unit"
  assume "fl_set (windows_flags lower netsh) f on s = (w, s')" "g \<noteq> f"
  then show "state s' g = state s g"
    using set_global [of f "if on then ''routepolicies=enabled'' else ''routepolicies=disabled''" s]
    by (auto simp: windows_flags_def sbind_def split: prod.splits sum.splits)
qed

context netsh_platform begin

lemma provides_flags: "route_flags (windows_flags lower netsh) state"
  by (rule windows.route_flags_axioms)

end

text \<open>A \<open>netsh\<close> over two flags: it prints the one asked for, and sets it.\<close>

definition ascii_text :: "u8 list \<Rightarrow> string" where
  "ascii_text bs = map (\<lambda>b. char_of (unat b)) bs"

definition flag_text :: "bool \<Rightarrow> string" where
  "flag_text on = ''route policies='' @ (if on then ''enabled'' else ''disabled'')"

definition two_flags :: "string list \<Rightarrow> (bool \<times> bool, netsh_error, u8 list) action" where
  "two_flags args s =
     (let v4 = (args ! 1 = ''ipv4''); on = (args ! 4 = ''routepolicies=enabled'') in
      if args ! 2 = ''show''
      then (Inr (map (\<lambda>c. of_nat (of_char c)) (flag_text (if v4 then fst s else snd s))), s)
      else (Inr [], if v4 then (on, snd s) else (fst s, on)))"

definition two_state :: "bool \<times> bool \<Rightarrow> ip_family \<Rightarrow> bool" where
  "two_state s f = (case f of Ipv4 \<Rightarrow> fst s | Ipv6 \<Rightarrow> snd s)"

lemma ascii_text_of_string: "ascii_text (map (\<lambda>c. of_nat (of_char c)) s) = s"
proof -
  have "unat (of_nat (of_char c) :: u8) = of_char c" for c :: char
    by (simp add: unat_of_nat)
  then show ?thesis by (simp add: ascii_text_def comp_def)
qed

lemma trimmed_words:
  "trim ''route policies'' = ''route policies''" "trim ''enabled'' = ''enabled''" "trim ''disabled'' = ''disabled''"
proof -
  have p: "plain CHR ''r''" "plain CHR ''s''" "plain CHR ''e''" "plain CHR ''d''"
    by code_simp+
  show "trim ''route policies'' = ''route policies''" "trim ''enabled'' = ''enabled''" "trim ''disabled'' = ''disabled''"
    using p by (simp_all add: trim_same)
qed

lemma flag_text_parses: "parse_route_policies ascii_text (map (\<lambda>c. of_nat (of_char c)) (flag_text on)) = Some on"
proof -
  have "text_lines (flag_text on) = [flag_text on]"
    by (cases on) (simp_all add: text_lines_def flag_text_def Let_def char_of_def)
  moreover have "split_once (CHR '':'') (flag_text on) = None"
    "split_once (CHR ''='') (flag_text on) = Some (''route policies'', if on then ''enabled'' else ''disabled'')"
    by (simp_all add: flag_text_def)
  ultimately have "policy_line (flag_text on) = Some on" "text_lines (flag_text on) = [flag_text on]"
    by (cases on; simp add: policy_line_def policy_label_def policy_value_def trimmed_words)+
  then have "List.map_filter policy_line (text_lines (flag_text on)) = [on]"
    by (simp add: List.map_filter_simps)
  then show ?thesis
    by (simp add: parse_route_policies_def ascii_text_of_string)
qed

interpretation two: netsh_platform ascii_text two_flags two_state
proof
  fix f s s' and r :: "netsh_error + u8 list"
  assume "two_flags [''interface'', family_name f, ''show'', ''global''] s = (r, s')"
  then have "r = Inr (map (\<lambda>c. of_nat (of_char c)) (flag_text (two_state s f)))" "s' = s"
    by (auto simp: two_flags_def two_state_def family_name_def split: ip_family.splits)
  then show "two_state s' = two_state s \<and> (case r of Inl e \<Rightarrow> True
       | Inr out \<Rightarrow> (case parse_route_policies ascii_text out of None \<Rightarrow> True | Some x \<Rightarrow> x = two_state s f))"
    by (simp add: flag_text_parses)
next
  fix f g v s s' and w :: "netsh_error + u8 list"
  assume "two_flags [''interface'', family_name f, ''set'', ''global'', v, ''store=active''] s = (w, s')" "g \<noteq> f"
  then show "two_state s' g = two_state s g"
    by (cases f; cases g) (auto simp: two_flags_def two_state_def family_name_def Let_def)
qed

lemma two_read: "fl_read (windows_flags ascii_text two_flags) f s = (Inr (two_state s f), s)"
  by (cases f) (simp_all add: windows_flags_def sbind_def two_flags_def family_name_def
      two_state_def flag_text_parses Let_def)

lemma two_set: "fl_set (windows_flags ascii_text two_flags) Ipv6 on s = (Inr (), fst s, on)"
  by (simp add: windows_flags_def sbind_def two_flags_def family_name_def Let_def)

lemma two_enable: "enable (windows_flags ascii_text two_flags) True (flags_new (True, False))
    = (Inr (), \<lparr>tf_settings = (True, True), tf_changed = [Ipv6]\<rparr>)"
  by (simp add: enable_def sbind_def on_settings_def two_read two_set flags_new_def two_state_def enable_one_def)

lemma two_restore: "restore (windows_flags ascii_text two_flags) \<lparr>tf_settings = (True, True), tf_changed = [Ipv6]\<rparr>
    = ([], \<lparr>tf_settings = (True, False), tf_changed = []\<rparr>)"
  by (simp add: restore_def restore_one_def sbind_def on_settings_def two_read two_set two_state_def)

text \<open>
  C37: the temporary flags leave no trace: whatever \<open>enable\<close> did, completely or up to a failure, a
  restoration without errors brings both families back to how they were; and without an
  authorisation nothing that was off is turned on.
\<close>

theorem flags_leave_no_trace:
  assumes "netsh_platform lower netsh state"
    and "enable (windows_flags lower netsh) authorized (flags_new s) = (r, t)"
    and "restore (windows_flags lower netsh) t = ([], t')"
  shows "state (tf_settings t') = state s \<and> tf_changed t' = [] \<and>
    (if authorized \<or> state s Ipv4 \<and> state s Ipv6 then True else state (tf_settings t) = state s \<and> r \<noteq> Inr ())"
proof -
  have rf: "route_flags (windows_flags lower netsh) state"
    by (rule netsh_platform.provides_flags [OF assms(1)])
  show ?thesis
    using route_flags.enable_restore [OF rf assms(2) enable_changed [OF assms(2)] assms(3)]
      route_flags.enable_tracks(2) [OF rf assms(2)] by auto
qed

theorem flags_leave_no_trace_witness:
  "\<exists>r t t'. enable (windows_flags ascii_text two_flags) True (flags_new (True, False)) = (r, t) \<and>
     restore (windows_flags ascii_text two_flags) t = ([], t') \<and> tf_settings t = (True, True) \<and>
     two_state (tf_settings t') = two_state (True, False)"
  using flags_leave_no_trace [OF two.netsh_platform_axioms two_enable two_restore] two_enable two_restore by auto

end
