(* ===== verification/Engine.thy ===== *)
theory Engine
  imports Planning
begin

text \<open>
  \<open>crates/netlane-core/src/engine.rs\<close>: the routing engine over a transactional policy session
  (the trait \<open>PolicySession\<close>). The trait is the record \<open>policy_ops\<close>: every method maps the session
  state to a result and the next state, since a failing call may still have changed it. What the
  engine relies on is the locale \<open>policy_session\<close>; it is interpreted here on the in-memory
  session of the agent's own tests and, in the theory Wfp, on the Windows session.
\<close>

record ('s, 'k, 'e) policy_ops =
  op_begin :: "'s \<Rightarrow> ('e + unit) \<times> 's"
  op_add :: "planned_rule \<Rightarrow> 's \<Rightarrow> ('e + 'k list) \<times> 's"
  op_delete :: "'k \<Rightarrow> 's \<Rightarrow> ('e + unit) \<times> 's"
  op_commit :: "'s \<Rightarrow> ('e + unit) \<times> 's"
  op_abort :: "'s \<Rightarrow> ('e + unit) \<times> 's"
  op_close :: "'s \<Rightarrow> ('e + unit) \<times> 's"

record ('s, 'k) routing_engine =
  session :: 's
  previous :: "planned_rule list"
  keys :: "'k list"
  poisoned :: bool

datatype 'e engine_error = Session_ended | Session_failed 'e

definition engine_new :: "'s \<Rightarrow> ('s, 'k) routing_engine" where
  "engine_new s = \<lparr>session = s, previous = [], keys = [], poisoned = False\<rparr>"

fun delete_keys :: "('s, 'k, 'e) policy_ops \<Rightarrow> 'k list \<Rightarrow> 's \<Rightarrow> ('e + unit) \<times> 's" where
  "delete_keys ops [] s = (Inr (), s)"
| "delete_keys ops (k # ks) s =
     (case op_delete ops k s of
        (Inl e, s') \<Rightarrow> (Inl e, s')
      | (Inr _, s') \<Rightarrow> delete_keys ops ks s')"

fun add_rules ::
    "('s, 'k, 'e) policy_ops \<Rightarrow> planned_rule list \<Rightarrow> 'k list \<Rightarrow> 's \<Rightarrow> ('e + 'k list) \<times> 's" where
  "add_rules ops [] acc s = (Inr acc, s)"
| "add_rules ops (r # rs) acc s =
     (case op_add ops r s of
        (Inl e, s') \<Rightarrow> (Inl e, s')
      | (Inr ks, s') \<Rightarrow> add_rules ops rs (acc @ ks) s')"

definition active_rules :: "planned_rule list \<Rightarrow> planned_rule list" where
  "active_rules rules = filter (\<lambda>r. r_mode r \<noteq> Automatic) rules"

text \<open>The closure of \<open>apply\<close> between \<open>begin\<close> and the rollback decision.\<close>

definition replace_policies ::
    "('s, 'k, 'e) policy_ops \<Rightarrow> 'k list \<Rightarrow> planned_rule list \<Rightarrow> 's \<Rightarrow> ('e + 'k list) \<times> 's" where
  "replace_policies ops old rules s =
     (case delete_keys ops old s of
        (Inl e, s') \<Rightarrow> (Inl e, s')
      | (Inr _, s') \<Rightarrow>
          (case add_rules ops (active_rules rules) [] s' of
             (Inl e, s'') \<Rightarrow> (Inl e, s'')
           | (Inr ks, s'') \<Rightarrow>
               (case op_commit ops s'' of
                  (Inl e, t) \<Rightarrow> (Inl e, t)
                | (Inr _, t) \<Rightarrow> (Inr ks, t))))"

definition engine_apply ::
    "('s, 'k, 'e) policy_ops \<Rightarrow> planned_rule list \<Rightarrow> ('s, 'k) routing_engine
     \<Rightarrow> ('e engine_error + unit) \<times> ('s, 'k) routing_engine" where
  "engine_apply ops rules en =
     (if poisoned en then (Inl Session_ended, en)
      else if rules = previous en then (Inr (), en)
      else (case op_begin ops (session en) of
          (Inl e, s) \<Rightarrow> (Inl (Session_failed e), en\<lparr>session := s\<rparr>)
        | (Inr _, s) \<Rightarrow>
            (case replace_policies ops (keys en) rules s of
               (Inr ks, t) \<Rightarrow> (Inr (), en\<lparr>session := t, previous := rules, keys := ks\<rparr>)
             | (Inl e, t) \<Rightarrow>
                 (case op_abort ops t of
                    (Inr _, u) \<Rightarrow> (Inl (Session_failed e), en\<lparr>session := u\<rparr>)
                  | (Inl _, u) \<Rightarrow>
                      (Inl (Session_failed e),
                       \<lparr>session = snd (op_close ops u), previous = [], keys = [],
                        poisoned = True\<rparr>)))))"

definition engine_close ::
    "('s, 'k, 'e) policy_ops \<Rightarrow> ('s, 'k) routing_engine \<Rightarrow> ('e + unit) \<times> ('s, 'k) routing_engine" where
  "engine_close ops en =
     (case op_close ops (session en) of
        (r, s) \<Rightarrow> (r, \<lparr>session = s, previous = [], keys = [], poisoned = True\<rparr>))"

subsection \<open>What the engine relies on\<close>

text \<open>
  \<open>active s\<close> is what the operating system enforces, as pairs of a key and an effect;
  \<open>pending s\<close> is the set under construction inside a transaction; \<open>effect r\<close> is what the
  session installs for a rule. Inside a transaction only the pending set moves; commit makes it
  active and abort forgets it; closing the session removes everything.
\<close>

locale policy_session =
  fixes ops :: "('s, 'k, 'e) policy_ops"
    and active :: "'s \<Rightarrow> ('k \<times> 'v) set"
    and pending :: "'s \<Rightarrow> ('k \<times> 'v) set option"
    and effect :: "planned_rule \<Rightarrow> 'v set"
  assumes begin_ok: "op_begin ops s = (Inr u, s') \<Longrightarrow> pending s = None \<Longrightarrow>
      active s' = active s \<and> pending s' = Some (active s)"
    and begin_err: "op_begin ops s = (Inl e, s') \<Longrightarrow> pending s = None \<Longrightarrow>
      active s' = active s \<and> pending s' = None"
    and add_ok: "op_add ops r s = (Inr ks, s') \<Longrightarrow> pending s = Some p \<Longrightarrow>
      active s' = active s \<and>
      (\<exists>new. fst ` new = set ks \<and> snd ` new = effect r \<and> pending s' = Some (p \<union> new))"
    and add_err: "op_add ops r s = (Inl e, s') \<Longrightarrow> pending s = Some p \<Longrightarrow>
      active s' = active s \<and> pending s' \<noteq> None"
    and delete_ok: "op_delete ops k s = (Inr u, s') \<Longrightarrow> pending s = Some p \<Longrightarrow>
      active s' = active s \<and> pending s' = Some {kv \<in> p. fst kv \<noteq> k}"
    and delete_err: "op_delete ops k s = (Inl e, s') \<Longrightarrow> pending s = Some p \<Longrightarrow>
      active s' = active s \<and> pending s' \<noteq> None"
    and commit_ok: "op_commit ops s = (Inr u, s') \<Longrightarrow> pending s = Some p \<Longrightarrow>
      active s' = p \<and> pending s' = None"
    and commit_err: "op_commit ops s = (Inl e, s') \<Longrightarrow> pending s = Some p \<Longrightarrow>
      active s' = active s \<and> pending s' \<noteq> None"
    and abort_ok: "op_abort ops s = (Inr u, s') \<Longrightarrow> pending s = Some p \<Longrightarrow>
      active s' = active s \<and> pending s' = None"
    and close_ok: "op_close ops s = (Inr u, s') \<Longrightarrow> active s' = {}"
begin

lemma delete_keys_ok:
  "delete_keys ops ks s = (Inr u, s') \<Longrightarrow> pending s = Some p \<Longrightarrow>
     active s' = active s \<and> pending s' = Some {kv \<in> p. fst kv \<notin> set ks}"
proof (induction ks arbitrary: s p)
  case Nil
  then show ?case by simp
next
  case (Cons k ks)
  obtain u1 s1 where d: "op_delete ops k s = (Inr u1, s1)" and r: "delete_keys ops ks s1 = (Inr u, s')"
    using Cons.prems(1) by (auto split: prod.splits sum.splits)
  have "active s1 = active s" "pending s1 = Some {kv \<in> p. fst kv \<noteq> k}"
    using delete_ok [OF d Cons.prems(2)] by auto
  with Cons.IH [OF r] show ?case by auto
qed

lemma delete_keys_err:
  "delete_keys ops ks s = (Inl e, s') \<Longrightarrow> pending s = Some p \<Longrightarrow>
     active s' = active s \<and> pending s' \<noteq> None"
proof (induction ks arbitrary: s p)
  case Nil
  then show ?case by simp
next
  case (Cons k ks)
  show ?case
  proof (cases "op_delete ops k s")
    case (Pair a s1)
    with Cons delete_err [of k s _ s1 p] delete_ok [of k s _ s1 p] show ?thesis
      by (cases a) auto
  qed
qed

lemma add_rules_ok:
  "add_rules ops rs acc s = (Inr ks, s') \<Longrightarrow> pending s = Some p \<Longrightarrow> fst ` p = set acc \<Longrightarrow>
     active s' = active s \<and>
     (\<exists>p'. pending s' = Some p' \<and> fst ` p' = set ks \<and> snd ` p' = snd ` p \<union> \<Union> (effect ` set rs))"
proof (induction rs arbitrary: s p acc)
  case Nil
  then show ?case by auto
next
  case (Cons r rs)
  obtain k1 s1 where a: "op_add ops r s = (Inr k1, s1)" and c: "add_rules ops rs (acc @ k1) s1 = (Inr ks, s')"
    using Cons.prems(1) by (auto split: prod.splits sum.splits)
  obtain new where n: "fst ` new = set k1" "snd ` new = effect r" "pending s1 = Some (p \<union> new)"
      "active s1 = active s"
    using add_ok [OF a Cons.prems(2)] by auto
  have "fst ` (p \<union> new) = set (acc @ k1)"
    using Cons.prems(3) n(1) by (simp add: image_Un)
  then obtain p' where "pending s' = Some p'" "fst ` p' = set ks"
      "snd ` p' = snd ` (p \<union> new) \<union> \<Union> (effect ` set rs)" "active s' = active s1"
    using Cons.IH [OF c n(3)] by auto
  with n show ?case
    by (auto simp: image_Un)
qed

lemma add_rules_keeps_pending:
  "add_rules ops rs acc s = (Inr ks, s') \<Longrightarrow> pending s = Some p \<Longrightarrow>
     active s' = active s \<and> pending s' \<noteq> None"
proof (induction rs arbitrary: s p acc)
  case Nil
  then show ?case by simp
next
  case (Cons r rs)
  obtain k1 s1 where a: "op_add ops r s = (Inr k1, s1)" and c: "add_rules ops rs (acc @ k1) s1 = (Inr ks, s')"
    using Cons.prems(1) by (auto split: prod.splits sum.splits)
  obtain p1 where "pending s1 = Some p1" "active s1 = active s"
    using add_ok [OF a Cons.prems(2)] by blast
  with Cons.IH [OF c] show ?case by auto
qed

lemma add_rules_err:
  "add_rules ops rs acc s = (Inl e, s') \<Longrightarrow> pending s = Some p \<Longrightarrow>
     active s' = active s \<and> pending s' \<noteq> None"
proof (induction rs arbitrary: s p acc)
  case Nil
  then show ?case by simp
next
  case (Cons r rs)
  show ?case
  proof (cases "op_add ops r s")
    case (Pair a s1)
    then show ?thesis
    proof (cases a)
      case (Inl x)
      then have "op_add ops r s = (Inl x, s1)" "s' = s1"
        using Cons.prems(1) Pair by simp_all
      then show ?thesis using add_err [OF _ Cons.prems(2)] by simp
    next
      case (Inr k1)
      then have op: "op_add ops r s = (Inr k1, s1)" using Pair by simp
      obtain p1 where p1: "pending s1 = Some p1" and a1: "active s1 = active s"
        using add_ok [OF op Cons.prems(2)] by (elim conjE exE)
      have "add_rules ops rs (acc @ k1) s1 = (Inl e, s')"
        using Cons.prems(1) op by simp
      from Cons.IH [OF this p1] show ?thesis
        unfolding a1 .
    qed
  qed
qed

lemma replace_ok:
  assumes "replace_policies ops old rules s = (Inr ks, s')" "pending s = Some p" "fst ` p = set old"
  shows "pending s' = None \<and> fst ` active s' = set ks \<and>
    snd ` active s' = \<Union> (effect ` set (active_rules rules))"
proof -
  obtain u s1 s2 v where d: "delete_keys ops old s = (Inr u, s1)"
    and a: "add_rules ops (active_rules rules) [] s1 = (Inr ks, s2)"
    and c: "op_commit ops s2 = (Inr v, s')"
    using assms(1) by (auto simp: replace_policies_def split: prod.splits sum.splits)
  have "{kv \<in> p. fst kv \<notin> set old} = {}"
    unfolding assms(3) [symmetric] by auto
  then have s1: "pending s1 = Some {}"
    using delete_keys_ok [OF d assms(2)] by auto
  then obtain p' where "pending s2 = Some p'" "fst ` p' = set ks"
      "snd ` p' = \<Union> (effect ` set (active_rules rules))"
    using add_rules_ok [OF a s1] by auto
  then show ?thesis
    using commit_ok [OF c] by auto
qed

lemma replace_err:
  assumes "replace_policies ops old rules s = (Inl e, s')" "pending s = Some p"
  shows "active s' = active s \<and> pending s' \<noteq> None"
proof -
  consider "delete_keys ops old s = (Inl e, s')"
    | u s1 where "delete_keys ops old s = (Inr u, s1)"
        "add_rules ops (active_rules rules) [] s1 = (Inl e, s')"
    | u s1 ks s2 where "delete_keys ops old s = (Inr u, s1)"
        "add_rules ops (active_rules rules) [] s1 = (Inr ks, s2)" "op_commit ops s2 = (Inl e, s')"
    using assms(1) by (auto simp: replace_policies_def split: prod.splits sum.splits)
  then show ?thesis
  proof cases
    case 1
    then show ?thesis using delete_keys_err assms(2) by blast
  next
    case (2 u s1)
    with delete_keys_ok [OF 2(1) assms(2)] add_rules_err [OF 2(2)] show ?thesis by auto
  next
    case (3 u s1 ks s2)
    have "pending s1 \<noteq> None" "active s1 = active s"
      using delete_keys_ok [OF 3(1) assms(2)] by auto
    moreover from this have "active s2 = active s1 \<and> pending s2 \<noteq> None"
      using add_rules_keeps_pending [OF 3(2)] by auto
    ultimately show ?thesis
      using commit_err [OF 3(3)] by auto
  qed
qed

definition enforces :: "('s, 'k) routing_engine \<Rightarrow> bool" where
  "enforces en \<longleftrightarrow>
     (\<not> poisoned en \<longrightarrow>
        pending (session en) = None \<and> fst ` active (session en) = set (keys en) \<and>
        snd ` active (session en) = \<Union> (effect ` set (active_rules (previous en))))"

lemma enforces_new:
  "pending s = None \<Longrightarrow> active s = {} \<Longrightarrow> enforces (engine_new s)"
  by (simp add: enforces_def engine_new_def active_rules_def)

lemma apply_ok:
  assumes "enforces en" "engine_apply ops rules en = (Inr u, en')"
  shows "enforces en' \<and> previous en' = rules \<and> \<not> poisoned en'"
proof (cases "rules = previous en")
  case True
  then show ?thesis using assms by (auto simp: engine_apply_def split: if_splits)
next
  case False
  obtain v s ks t where np: "\<not> poisoned en" and b: "op_begin ops (session en) = (Inr v, s)"
    and r: "replace_policies ops (keys en) rules s = (Inr ks, t)"
    and en': "en' = en\<lparr>session := t, previous := rules, keys := ks\<rparr>"
    using assms(2) False
    by (auto simp: engine_apply_def split: if_splits prod.splits sum.splits)
  have inv: "pending (session en) = None" "fst ` active (session en) = set (keys en)"
    using assms(1) np by (auto simp: enforces_def)
  then have "pending s = Some (active (session en))"
    using begin_ok [OF b] by auto
  from replace_ok [OF r this inv(2)] np show ?thesis
    by (simp add: enforces_def en')
qed

lemma apply_err:
  assumes "enforces en" "engine_apply ops rules en = (Inl e, en')"
  shows "enforces en'"
    and "\<not> poisoned en' \<Longrightarrow> active (session en') = active (session en) \<and>
      previous en' = previous en \<and> keys en' = keys en"
    and "poisoned en' \<Longrightarrow> \<not> poisoned en \<Longrightarrow> previous en' = [] \<and> keys en' = []"
proof -
  consider "poisoned en" "en' = en"
    | x s where "\<not> poisoned en" "op_begin ops (session en) = (Inl x, s)" "en' = en\<lparr>session := s\<rparr>"
    | v s x t w y where "\<not> poisoned en" "op_begin ops (session en) = (Inr v, s)"
        "replace_policies ops (keys en) rules s = (Inl x, t)" "op_abort ops t = (Inr w, y)"
        "en' = en\<lparr>session := y\<rparr>"
    | y where "\<not> poisoned en" "en' = \<lparr>session = y, previous = [], keys = [], poisoned = True\<rparr>"
    using assms(2) by (auto simp: engine_apply_def split: if_splits prod.splits sum.splits)
  then have "enforces en' \<and>
      (\<not> poisoned en' \<longrightarrow> active (session en') = active (session en) \<and>
         previous en' = previous en \<and> keys en' = keys en) \<and>
      (poisoned en' \<longrightarrow> \<not> poisoned en \<longrightarrow> previous en' = [] \<and> keys en' = [])"
  proof cases
    case 1
    then show ?thesis using assms(1) by simp
  next
    case (2 x s)
    with assms(1) begin_err [OF 2(2)] show ?thesis by (simp add: enforces_def)
  next
    case (3 v s x t w y)
    have inv: "pending (session en) = None"
      using assms(1) 3(1) by (simp add: enforces_def)
    then have s: "active s = active (session en)" "pending s = Some (active (session en))"
      using begin_ok [OF 3(2)] by auto
    then obtain q where "active t = active s" "pending t = Some q"
      using replace_err [OF 3(3)] by auto
    with abort_ok [OF 3(4)] s have "active y = active (session en)" "pending y = None"
      by auto
    with assms(1) 3(1,5) show ?thesis by (simp add: enforces_def)
  next
    case (4 y)
    then show ?thesis by (simp add: enforces_def)
  qed
  then show "enforces en'"
    and "\<not> poisoned en' \<Longrightarrow> active (session en') = active (session en) \<and>
      previous en' = previous en \<and> keys en' = keys en"
    and "poisoned en' \<Longrightarrow> \<not> poisoned en \<Longrightarrow> previous en' = [] \<and> keys en' = []"
    by auto
qed

text \<open>Any history of applied rule lists.\<close>

lemma history_enforces:
  "enforces en \<Longrightarrow> enforces (fold (\<lambda>rules en. snd (engine_apply ops rules en)) history en)"
proof (induction history arbitrary: en)
  case Nil
  then show ?case by simp
next
  case (Cons rules history)
  have "enforces (snd (engine_apply ops rules en))"
  proof (cases "engine_apply ops rules en")
    case (Pair r en')
    with Cons.prems show ?thesis
      by (cases r) (auto dest: apply_ok apply_err(1))
  qed
  with Cons.IH show ?case by simp
qed

lemma close_clears:
  "engine_close ops en = (Inr u, en') \<Longrightarrow> active (session en') = {} \<and> poisoned en'"
  by (auto simp: engine_close_def split: prod.splits dest: close_ok)

end

lemma apply_poisoned [simp]:
  "poisoned en \<Longrightarrow> engine_apply ops rules en = (Inl Session_ended, en)"
  by (simp add: engine_apply_def)

lemma apply_same [simp]:
  "\<not> poisoned en \<Longrightarrow> engine_apply ops (previous en) en = (Inr (), en)"
  by (simp add: engine_apply_def)

end
