(* ===== verification/Wfp.thy ===== *)
theory Wfp
  imports Engine
begin

text \<open>
  \<open>crates/netlane-windows/src/wfp.rs\<close>: the Windows Filtering Platform session that implements
  \<open>PolicySession\<close>. The platform itself is not in the repository: its entry points are the fields
  of the record \<open>wfp_api\<close> over an opaque world, and what Windows documents of them is the
  locale \<open>wfp_platform\<close>. The session of the code is shown to satisfy the contract
  \<open>policy_session\<close> of the engine for every such platform (a sublocale), and the platform's
  contract is shown satisfiable by an in-memory transactional store (an interpretation).
  A \<open>HANDLE\<close> is a natural number whose zero is the null handle; a \<open>GUID\<close> is a natural number.
\<close>

datatype policy_key = Route_key nat | Block_key nat

datatype wfp_condition =
    App_id "nat list"
  | Remote_not_v4 nat nat
  | Remote_not_v6 "nat list" nat
  | Flags_none_set nat
  | Destination_type nat

datatype wfp_layer = Connect_v4 | Connect_v6

record wfp_filter =
  filter_key :: nat
  filter_layer :: wfp_layer
  filter_sublayer :: nat
  filter_conditions :: "wfp_condition list"

record wfp_policy =
  context_key :: nat
  next_hop :: nat
  ip_version :: nat
  policy_weight :: nat
  policy_conditions :: "wfp_condition list"

record 'w wfp_api =
  w_library :: bool
  w_exports :: bool
  w_guid :: "'w \<Rightarrow> nat \<times> 'w"
  w_open :: "'w \<Rightarrow> nat \<times> nat \<times> 'w"
  w_sublayer_add :: "nat \<Rightarrow> nat \<Rightarrow> 'w \<Rightarrow> nat \<times> 'w"
  w_app_id :: "string \<Rightarrow> nat \<times> nat list option"
  w_is_file :: "string \<Rightarrow> bool"
  w_filter_add :: "nat \<Rightarrow> wfp_filter \<Rightarrow> 'w \<Rightarrow> nat \<times> nat \<times> 'w"
  w_filter_delete :: "nat \<Rightarrow> nat \<Rightarrow> 'w \<Rightarrow> nat \<times> 'w"
  w_policy_add :: "nat \<Rightarrow> wfp_policy \<Rightarrow> 'w \<Rightarrow> nat \<times> 'w"
  w_policy_delete :: "nat \<Rightarrow> nat \<Rightarrow> 'w \<Rightarrow> nat \<times> 'w"
  w_begin :: "nat \<Rightarrow> 'w \<Rightarrow> nat \<times> 'w"
  w_commit :: "nat \<Rightarrow> 'w \<Rightarrow> nat \<times> 'w"
  w_abort :: "nat \<Rightarrow> 'w \<Rightarrow> nat \<times> 'w"
  w_close :: "nat \<Rightarrow> 'w \<Rightarrow> nat \<times> 'w"

record 'w native_session =
  handle :: nat
  sublayer :: nat
  world :: 'w

datatype wfp_error =
    Library_missing
  | Exports_missing
  | Wfp_code nat
  | No_executable_path
  | Remote_executable
  | Not_a_local_file
  | Empty_app_id
  | No_luid
  | Session_closed
  | No_ip_family

definition check_code :: "nat \<Rightarrow> wfp_error + unit" where
  "check_code rc = (if rc \<noteq> 0 then Inl (Wfp_code rc) else Inr ())"

definition native_close ::
    "'w wfp_api \<Rightarrow> 'w native_session \<Rightarrow> (wfp_error + unit) \<times> 'w native_session" where
  "native_close api s =
     (if handle s = 0 then (Inr (), s)
      else (case w_close api (handle s) (world s) of
          (rc, w) \<Rightarrow>
            (check_code rc,
             s\<lparr>handle := (if rc = 0 then 0 else handle s), world := w\<rparr>)))"

text \<open>Dropping a session closes it, once more if it has been tried.\<close>

definition native_drop :: "'w wfp_api \<Rightarrow> 'w native_session \<Rightarrow> 'w" where
  "native_drop api s = world (snd (native_close api s))"

text \<open>\<open>open\<close>: the library and its two exports, the dynamic session, then the sublayer.\<close>

definition native_open ::
    "'w wfp_api \<Rightarrow> 'w \<Rightarrow> (wfp_error + 'w native_session) \<times> 'w" where
  "native_open api w =
     (if \<not> w_library api then (Inl Library_missing, w)
      else if \<not> w_exports api then (Inl Exports_missing, w)
      else (case w_guid api w of (_, w1) \<Rightarrow>
            (case w_open api w1 of (rc, h, w2) \<Rightarrow>
               if rc \<noteq> 0 then (Inl (Wfp_code rc), w2)
               else (case w_guid api w2 of (g, w3) \<Rightarrow>
                 (case w_sublayer_add api h g w3 of (status, w4) \<Rightarrow>
                    let s = \<lparr>handle = h, sublayer = g, world = w4\<rparr> in
                    if status \<noteq> 0
                    then (Inl (Wfp_code status), native_drop api (snd (native_close api s)))
                    else (Inr s, w4))))))"

definition layer_of :: "nat \<Rightarrow> wfp_layer" where
  "layer_of family = (if family = 0 then Connect_v4 else Connect_v6)"

text \<open>The remote address differs from 127.0.0.0/8, or from ::1/128.\<close>

definition not_loopback :: "nat \<Rightarrow> wfp_condition" where
  "not_loopback family =
     (if family = 0 then Remote_not_v4 0x7f000000 0xff000000
      else Remote_not_v6 (replicate 15 0 @ [1]) 128)"

definition route_conditions :: "nat list \<Rightarrow> nat \<Rightarrow> wfp_condition list" where
  "route_conditions app family =
     [App_id app, not_loopback family, Flags_none_set 1, Destination_type 1]"

text \<open>\<open>add_family\<close> up to the AppId, then its closure.\<close>

definition app_id_of :: "'w wfp_api \<Rightarrow> planned_rule \<Rightarrow> wfp_error + nat list" where
  "app_id_of api rule =
     (case r_executable rule of
        None \<Rightarrow> Inl No_executable_path
      | Some path \<Rightarrow>
          if \<not> is_local_path path then Inl Remote_executable
          else if \<not> w_is_file api path then Inl Not_a_local_file
          else (case w_app_id api path of (rc, blob) \<Rightarrow>
            if rc \<noteq> 0 then Inl (Wfp_code rc) else ok_or blob Empty_app_id))"

definition block_filter :: "nat \<Rightarrow> nat \<Rightarrow> nat list \<Rightarrow> nat \<Rightarrow> wfp_filter" where
  "block_filter g sub app family =
     \<lparr>filter_key = g, filter_layer = layer_of family, filter_sublayer = sub,
      filter_conditions = [App_id app]\<rparr>"

definition route_policy :: "nat \<Rightarrow> nat \<Rightarrow> nat list \<Rightarrow> nat \<Rightarrow> wfp_policy" where
  "route_policy g luid app family =
     \<lparr>context_key = g, next_hop = luid, ip_version = family, policy_weight = 0x10000000,
      policy_conditions = route_conditions app family\<rparr>"

definition install ::
    "'w wfp_api \<Rightarrow> planned_rule \<Rightarrow> nat \<Rightarrow> nat list \<Rightarrow> 'w native_session
     \<Rightarrow> (wfp_error + policy_key) \<times> 'w native_session" where
  "install api rule family app s =
     (if r_mode rule = Blocked then
        (case w_guid api (world s) of (g, w1) \<Rightarrow>
          (case w_filter_add api (handle s) (block_filter g (sublayer s) app family) w1 of
             (rc, ident, w2) \<Rightarrow>
               (if rc \<noteq> 0 then Inl (Wfp_code rc) else Inr (Block_key ident), s\<lparr>world := w2\<rparr>)))
      else if r_luid rule = 0 then (Inl No_luid, s)
      else
        (case w_guid api (world s) of (g, w1) \<Rightarrow>
          (case w_policy_add api (handle s) (route_policy g (r_luid rule) app family) w1 of
             (rc, w2) \<Rightarrow>
               (if rc \<noteq> 0 then Inl (Wfp_code rc) else Inr (Route_key g), s\<lparr>world := w2\<rparr>))))"

definition add_family ::
    "'w wfp_api \<Rightarrow> planned_rule \<Rightarrow> nat \<Rightarrow> 'w native_session
     \<Rightarrow> (wfp_error + policy_key) \<times> 'w native_session" where
  "add_family api rule family s =
     (case app_id_of api rule of
        Inl e \<Rightarrow> (Inl e, s)
      | Inr app \<Rightarrow> install api rule family app s)"

definition wants_family :: "planned_rule \<Rightarrow> nat \<Rightarrow> bool" where
  "wants_family rule family \<longleftrightarrow>
     r_mode rule = Blocked \<or> (family = 0 \<and> r_ipv4 rule) \<or> (family = 1 \<and> r_ipv6 rule)"

fun add_families ::
    "'w wfp_api \<Rightarrow> planned_rule \<Rightarrow> nat list \<Rightarrow> policy_key list \<Rightarrow> 'w native_session
     \<Rightarrow> (wfp_error + policy_key list) \<times> 'w native_session" where
  "add_families api rule [] acc s = (Inr acc, s)"
| "add_families api rule (family # rest) acc s =
     (if wants_family rule family
      then (case add_family api rule family s of
              (Inl e, t) \<Rightarrow> (Inl e, t)
            | (Inr k, t) \<Rightarrow> add_families api rule rest (acc @ [k]) t)
      else add_families api rule rest acc s)"

definition native_add ::
    "'w wfp_api \<Rightarrow> planned_rule \<Rightarrow> 'w native_session
     \<Rightarrow> (wfp_error + policy_key list) \<times> 'w native_session" where
  "native_add api rule s =
     (case add_families api rule [0, 1] [] s of
        (Inl e, t) \<Rightarrow> (Inl e, t)
      | (Inr ks, t) \<Rightarrow> (if ks = [] then (Inl No_ip_family, t) else (Inr ks, t)))"

definition lift_call ::
    "(nat \<Rightarrow> 'w \<Rightarrow> nat \<times> 'w) \<Rightarrow> 'w native_session \<Rightarrow> (wfp_error + unit) \<times> 'w native_session" where
  "lift_call f s =
     (case f (handle s) (world s) of (rc, w) \<Rightarrow> (check_code rc, s\<lparr>world := w\<rparr>))"

definition native_begin ::
    "'w wfp_api \<Rightarrow> 'w native_session \<Rightarrow> (wfp_error + unit) \<times> 'w native_session" where
  "native_begin api s =
     (if handle s = 0 then (Inl Session_closed, s) else lift_call (w_begin api) s)"

definition native_delete ::
    "'w wfp_api \<Rightarrow> policy_key \<Rightarrow> 'w native_session \<Rightarrow> (wfp_error + unit) \<times> 'w native_session" where
  "native_delete api k =
     lift_call (\<lambda>h. case k of Route_key g \<Rightarrow> w_policy_delete api h g
                            | Block_key i \<Rightarrow> w_filter_delete api h i)"

definition native_ops ::
    "'w wfp_api \<Rightarrow> ('w native_session, policy_key, wfp_error) policy_ops" where
  "native_ops api =
     \<lparr>op_begin = native_begin api, op_add = native_add api, op_delete = native_delete api,
      op_commit = lift_call (w_commit api), op_abort = lift_call (w_abort api),
      op_close = native_close api\<rparr>"

subsection \<open>The platform\<close>

text \<open>What an installed object does: the conditions of a block at a layer, or the next hop.\<close>

datatype wfp_effect =
    Blocks wfp_layer "wfp_condition list"
  | Routes nat nat nat "wfp_condition list"

definition filter_effect :: "wfp_filter \<Rightarrow> wfp_effect" where
  "filter_effect f = Blocks (filter_layer f) (filter_conditions f)"

definition policy_effect :: "wfp_policy \<Rightarrow> wfp_effect" where
  "policy_effect p = Routes (next_hop p) (ip_version p) (policy_weight p) (policy_conditions p)"

definition family_effect :: "'w wfp_api \<Rightarrow> planned_rule \<Rightarrow> nat \<Rightarrow> wfp_effect" where
  "family_effect api rule family =
     (let app = (case app_id_of api rule of Inl _ \<Rightarrow> [] | Inr a \<Rightarrow> a) in
      if r_mode rule = Blocked then filter_effect (block_filter 0 0 app family)
      else policy_effect (route_policy 0 (r_luid rule) app family))"

definition rule_effects :: "'w wfp_api \<Rightarrow> planned_rule \<Rightarrow> wfp_effect set" where
  "rule_effects api rule = family_effect api rule ` set (filter (wants_family rule) [0, 1])"

text \<open>A session whose handle is null is closed and owns nothing.\<close>

definition native_active ::
    "('w \<Rightarrow> (policy_key \<times> wfp_effect) set) \<Rightarrow> 'w native_session \<Rightarrow> (policy_key \<times> wfp_effect) set" where
  "native_active enf s = (if handle s = 0 then {} else enf (world s))"

definition native_pending ::
    "('w \<Rightarrow> (policy_key \<times> wfp_effect) set option) \<Rightarrow> 'w native_session
     \<Rightarrow> (policy_key \<times> wfp_effect) set option" where
  "native_pending stg s = (if handle s = 0 then None else stg (world s))"

locale wfp_platform =
  fixes api :: "'w wfp_api"
    and enforced :: "'w \<Rightarrow> (policy_key \<times> wfp_effect) set"
    and staged :: "'w \<Rightarrow> (policy_key \<times> wfp_effect) set option"
  assumes guid_pure: "w_guid api w = (g, w') \<Longrightarrow> enforced w' = enforced w \<and> staged w' = staged w"
    and begin_success: "w_begin api h w = (0, w') \<Longrightarrow> h \<noteq> 0 \<Longrightarrow> staged w = None \<Longrightarrow>
      enforced w' = enforced w \<and> staged w' = Some (enforced w)"
    and begin_failure: "w_begin api h w = (rc, w') \<Longrightarrow> h \<noteq> 0 \<Longrightarrow> rc \<noteq> 0 \<Longrightarrow> staged w = None \<Longrightarrow>
      enforced w' = enforced w \<and> staged w' = None"
    and filter_add_success: "w_filter_add api h f w = (0, i, w') \<Longrightarrow> h \<noteq> 0 \<Longrightarrow> staged w = Some p \<Longrightarrow>
      enforced w' = enforced w \<and> staged w' = Some (insert (Block_key i, filter_effect f) p)"
    and filter_add_failure: "w_filter_add api h f w = (rc, i, w') \<Longrightarrow> h \<noteq> 0 \<Longrightarrow> rc \<noteq> 0 \<Longrightarrow>
      staged w = Some p \<Longrightarrow> enforced w' = enforced w \<and> staged w' \<noteq> None"
    and policy_add_success: "w_policy_add api h q w = (0, w') \<Longrightarrow> h \<noteq> 0 \<Longrightarrow> staged w = Some p \<Longrightarrow>
      enforced w' = enforced w \<and>
      staged w' = Some (insert (Route_key (context_key q), policy_effect q) p)"
    and policy_add_failure: "w_policy_add api h q w = (rc, w') \<Longrightarrow> h \<noteq> 0 \<Longrightarrow> rc \<noteq> 0 \<Longrightarrow>
      staged w = Some p \<Longrightarrow> enforced w' = enforced w \<and> staged w' \<noteq> None"
    and filter_delete_success: "w_filter_delete api h i w = (0, w') \<Longrightarrow> h \<noteq> 0 \<Longrightarrow>
      staged w = Some p \<Longrightarrow>
      enforced w' = enforced w \<and> staged w' = Some {kv \<in> p. fst kv \<noteq> Block_key i}"
    and filter_delete_failure: "w_filter_delete api h i w = (rc, w') \<Longrightarrow> h \<noteq> 0 \<Longrightarrow> rc \<noteq> 0 \<Longrightarrow>
      staged w = Some p \<Longrightarrow> enforced w' = enforced w \<and> staged w' \<noteq> None"
    and policy_delete_success: "w_policy_delete api h g w = (0, w') \<Longrightarrow> h \<noteq> 0 \<Longrightarrow>
      staged w = Some p \<Longrightarrow>
      enforced w' = enforced w \<and> staged w' = Some {kv \<in> p. fst kv \<noteq> Route_key g}"
    and policy_delete_failure: "w_policy_delete api h g w = (rc, w') \<Longrightarrow> h \<noteq> 0 \<Longrightarrow> rc \<noteq> 0 \<Longrightarrow>
      staged w = Some p \<Longrightarrow> enforced w' = enforced w \<and> staged w' \<noteq> None"
    and commit_success: "w_commit api h w = (0, w') \<Longrightarrow> h \<noteq> 0 \<Longrightarrow> staged w = Some p \<Longrightarrow>
      enforced w' = p \<and> staged w' = None"
    and commit_failure: "w_commit api h w = (rc, w') \<Longrightarrow> h \<noteq> 0 \<Longrightarrow> rc \<noteq> 0 \<Longrightarrow>
      staged w = Some p \<Longrightarrow> enforced w' = enforced w \<and> staged w' \<noteq> None"
    and abort_success: "w_abort api h w = (0, w') \<Longrightarrow> h \<noteq> 0 \<Longrightarrow> staged w = Some p \<Longrightarrow>
      enforced w' = enforced w \<and> staged w' = None"
    and close_success: "w_close api h w = (0, w') \<Longrightarrow> h \<noteq> 0 \<Longrightarrow> enforced w' = {}"
begin

lemma check_code_simps [simp]:
  "check_code c = Inr u \<longleftrightarrow> c = 0" "check_code c = Inl e \<longleftrightarrow> c \<noteq> 0 \<and> e = Wfp_code c"
  "Inr u = check_code c \<longleftrightarrow> c = 0" "Inl e = check_code c \<longleftrightarrow> c \<noteq> 0 \<and> e = Wfp_code c"
  by (auto simp: check_code_def)

lemma pending_staged:
  "native_pending staged s = Some p \<longleftrightarrow> handle s \<noteq> 0 \<and> staged (world s) = Some p"
  by (simp add: native_pending_def)

lemma effects_of_objects [simp]:
  "filter_effect (block_filter g sub app family) = Blocks (layer_of family) [App_id app]"
  "policy_effect (route_policy g luid app family) =
     Routes luid family 0x10000000 (route_conditions app family)"
  by (simp_all add: filter_effect_def block_filter_def policy_effect_def route_policy_def)

lemma add_family_ok:
  assumes "add_family api rule family s = (Inr k, t)" "native_pending staged s = Some p"
  shows "native_active enforced t = native_active enforced s \<and>
    native_pending staged t = Some (insert (k, family_effect api rule family) p)"
proof -
  have h: "handle s \<noteq> 0" "staged (world s) = Some p"
    using assms(2) by (auto simp: pending_staged)
  obtain app where app: "app_id_of api rule = Inr app" and i: "install api rule family app s = (Inr k, t)"
    using assms(1) by (auto simp: add_family_def split: sum.splits)
  obtain g w1 where g: "w_guid api (world s) = (g, w1)" by fastforce
  have w1: "enforced w1 = enforced (world s)" "staged w1 = Some p"
    using guid_pure [OF g] h by auto
  show ?thesis
  proof (cases "r_mode rule = Blocked")
    case True
    obtain rc ident w2
      where a: "w_filter_add api (handle s) (block_filter g (sublayer s) app family) w1 = (rc, ident, w2)"
      by (metis prod.exhaust)
    with i True g have w2: "rc = 0" "k = Block_key ident" "t = s\<lparr>world := w2\<rparr>"
      by (auto simp: install_def split: if_splits)
    show ?thesis
      using filter_add_success [OF a [unfolded w2(1)] h(1) w1(2)] w2 w1 h True app
      by (simp add: native_active_def native_pending_def family_effect_def)
  next
    case False
    obtain rc w2
      where a: "w_policy_add api (handle s) (route_policy g (r_luid rule) app family) w1 = (rc, w2)"
      by (metis prod.exhaust)
    with i False g have w2: "rc = 0" "k = Route_key g" "t = s\<lparr>world := w2\<rparr>"
      by (auto simp: install_def split: if_splits)
    have "context_key (route_policy g (r_luid rule) app family) = g"
      by (simp add: route_policy_def)
    then show ?thesis
      using policy_add_success [OF a [unfolded w2(1)] h(1) w1(2)] w2 w1 h False app
      by (simp add: native_active_def native_pending_def family_effect_def)
  qed
qed

lemma install_err:
  assumes "install api rule family app s = (Inl e, t)" "native_pending staged s = Some p"
  shows "native_active enforced t = native_active enforced s \<and> native_pending staged t \<noteq> None"
proof -
  have h: "handle s \<noteq> 0" "staged (world s) = Some p"
    using assms(2) by (auto simp: pending_staged)
  obtain g w1 where g: "w_guid api (world s) = (g, w1)" by fastforce
  have w1: "enforced w1 = enforced (world s)" "staged w1 = Some p"
    using guid_pure [OF g] h by auto
  show ?thesis
  proof (cases "r_mode rule = Blocked")
    case True
    obtain rc ident w2
      where a: "w_filter_add api (handle s) (block_filter g (sublayer s) app family) w1 = (rc, ident, w2)"
      by (metis prod.exhaust)
    with assms(1) True g have w2: "rc \<noteq> 0" "t = s\<lparr>world := w2\<rparr>"
      by (auto simp: install_def split: if_splits)
    show ?thesis
      using filter_add_failure [OF a h(1) w2(1) w1(2)] w2 w1 h
      by (simp add: native_active_def native_pending_def)
  next
    case False
    obtain rc w2
      where a: "w_policy_add api (handle s) (route_policy g (r_luid rule) app family) w1 = (rc, w2)"
      by (metis prod.exhaust)
    show ?thesis
    proof (cases "r_luid rule = 0")
      case True
      with assms False show ?thesis by (simp add: install_def)
    next
      case luid: False
      with assms(1) False g a have w2: "rc \<noteq> 0" "t = s\<lparr>world := w2\<rparr>"
        by (auto simp: install_def split: if_splits)
      show ?thesis
        using policy_add_failure [OF a h(1) w2(1) w1(2)] w2 w1 h
        by (simp add: native_active_def native_pending_def)
    qed
  qed
qed

lemma add_family_err:
  assumes "add_family api rule family s = (Inl e, t)" "native_pending staged s = Some p"
  shows "native_active enforced t = native_active enforced s \<and> native_pending staged t \<noteq> None"
proof (cases "app_id_of api rule")
  case (Inl x)
  with assms show ?thesis by (simp add: add_family_def)
next
  case (Inr app)
  with assms install_err [of rule family app s e t p] show ?thesis by (simp add: add_family_def)
qed

lemma add_families_ok:
  "add_families api rule fs acc s = (Inr ks, t) \<Longrightarrow> native_pending staged s = Some p \<Longrightarrow>
     native_active enforced t = native_active enforced s \<and>
     (\<exists>new. set ks = set acc \<union> fst ` new \<and>
        snd ` new = family_effect api rule ` set (filter (wants_family rule) fs) \<and>
        native_pending staged t = Some (p \<union> new))"
proof (induction fs arbitrary: acc s p)
  case Nil
  then show ?case by (intro conjI exI [where x = "{}"]) auto
next
  case (Cons f fs)
  show ?case
  proof (cases "wants_family rule f")
    case False
    with Cons show ?thesis by simp
  next
    case True
    obtain k s1 where a: "add_family api rule f s = (Inr k, s1)"
      and r: "add_families api rule fs (acc @ [k]) s1 = (Inr ks, t)"
      using Cons.prems(1) True by (auto split: prod.splits sum.splits)
    define p1 where "p1 = insert (k, family_effect api rule f) p"
    have s1: "native_active enforced s1 = native_active enforced s" "native_pending staged s1 = Some p1"
      using add_family_ok [OF a Cons.prems(2)] by (auto simp: p1_def)
    obtain new where "set ks = set (acc @ [k]) \<union> fst ` new"
        "snd ` new = family_effect api rule ` set (filter (wants_family rule) fs)"
        "native_pending staged t = Some (p1 \<union> new)" "native_active enforced t = native_active enforced s1"
      using Cons.IH [OF r s1(2)] by blast
    with s1 True show ?thesis
      by (intro conjI exI [where x = "insert (k, family_effect api rule f) new"])
         (auto simp: p1_def)
  qed
qed

lemma add_families_err:
  "add_families api rule fs acc s = (Inl e, t) \<Longrightarrow> native_pending staged s = Some p \<Longrightarrow>
     native_active enforced t = native_active enforced s \<and> native_pending staged t \<noteq> None"
proof (induction fs arbitrary: acc s p)
  case Nil
  then show ?case by simp
next
  case (Cons f fs)
  show ?case
  proof (cases "wants_family rule f")
    case False
    with Cons show ?thesis by simp
  next
    case True
    consider "add_family api rule f s = (Inl e, t)"
      | k s1 where "add_family api rule f s = (Inr k, s1)"
          "add_families api rule fs (acc @ [k]) s1 = (Inl e, t)"
      using Cons.prems(1) True by (auto split: prod.splits sum.splits)
    then show ?thesis
    proof cases
      case 1
      from add_family_err [OF this Cons.prems(2)] show ?thesis .
    next
      case (2 k s1)
      from add_family_ok [OF 2(1) Cons.prems(2)] Cons.IH [OF 2(2)] show ?thesis by simp
    qed
  qed
qed

lemma native_add_ok:
  assumes "native_add api rule s = (Inr ks, t)" "native_pending staged s = Some p"
  shows "native_active enforced t = native_active enforced s \<and>
    (\<exists>new. fst ` new = set ks \<and> snd ` new = rule_effects api rule \<and>
       native_pending staged t = Some (p \<union> new))"
proof -
  have "add_families api rule [0, 1] [] s = (Inr ks, t)"
    using assms(1) by (auto simp: native_add_def simp del: add_families.simps
        split: prod.splits sum.splits if_splits)
  from add_families_ok [OF this assms(2)] show ?thesis
    unfolding rule_effects_def by (elim conjE exE, intro conjI exI) (assumption | simp)+
qed

lemma native_add_err:
  assumes "native_add api rule s = (Inl e, t)" "native_pending staged s = Some p"
  shows "native_active enforced t = native_active enforced s \<and> native_pending staged t \<noteq> None"
proof -
  consider e' where "add_families api rule [0, 1] [] s = (Inl e', t)"
    | ks where "add_families api rule [0, 1] [] s = (Inr ks, t)"
    using assms(1) by (auto simp: native_add_def simp del: add_families.simps
        split: prod.splits sum.splits if_splits)
  then show ?thesis
  proof cases
    case (1 e')
    from add_families_err [OF this assms(2)] show ?thesis .
  next
    case (2 ks)
    from add_families_ok [OF this assms(2)] show ?thesis by auto
  qed
qed

lemma lift_call_cases:
  assumes "lift_call f s = (r, t)"
  obtains rc w where "f (handle s) (world s) = (rc, w)" "r = check_code rc" "t = s\<lparr>world := w\<rparr>"
  using assms by (cases "f (handle s) (world s)") (auto simp: lift_call_def)

lemma native_delete_cases:
  assumes "native_delete api k s = (r, t)" "native_pending staged s = Some p"
  shows "native_active enforced t = native_active enforced s \<and>
    (case r of Inr _ \<Rightarrow> native_pending staged t = Some {kv \<in> p. fst kv \<noteq> k} | Inl _ \<Rightarrow> native_pending staged t \<noteq> None)"
proof -
  have h: "handle s \<noteq> 0" "staged (world s) = Some p"
    using assms(2) by (auto simp: pending_staged)
  from assms(1) obtain rc w where c:
    "(case k of Route_key g \<Rightarrow> w_policy_delete api (handle s) g (world s)
        | Block_key i \<Rightarrow> w_filter_delete api (handle s) i (world s)) = (rc, w)"
    "r = check_code rc" "t = s\<lparr>world := w\<rparr>"
    unfolding native_delete_def by (elim lift_call_cases) (auto split: policy_key.splits)
  show ?thesis
  proof (cases k)
    case (Route_key g)
    with c have "w_policy_delete api (handle s) g (world s) = (rc, w)" by simp
    with policy_delete_success [of _ g _ w p] policy_delete_failure [of _ g _ rc w p] h c Route_key
    show ?thesis
      by (cases "rc = 0") (auto simp: native_active_def native_pending_def check_code_def)
  next
    case (Block_key i)
    with c have "w_filter_delete api (handle s) i (world s) = (rc, w)" by simp
    with filter_delete_success [of _ i _ w p] filter_delete_failure [of _ i _ rc w p] h c Block_key
    show ?thesis
      by (cases "rc = 0") (auto simp: native_active_def native_pending_def check_code_def)
  qed
qed

lemma native_begin_cases:
  assumes "native_begin api s = (r, t)" "native_pending staged s = None"
  shows "native_active enforced t = native_active enforced s \<and>
    (case r of Inr _ \<Rightarrow> native_pending staged t = Some (native_active enforced s) | Inl _ \<Rightarrow> native_pending staged t = None)"
proof (cases "handle s = 0")
  case True
  with assms show ?thesis by (auto simp: native_begin_def)
next
  case False
  with assms(1) have "lift_call (w_begin api) s = (r, t)" by (simp add: native_begin_def)
  then obtain rc w where c: "w_begin api (handle s) (world s) = (rc, w)"
      "r = check_code rc" "t = s\<lparr>world := w\<rparr>"
    by (rule lift_call_cases)
  have "staged (world s) = None" using assms(2) False by (simp add: native_pending_def)
  with begin_success [of _ _ w] begin_failure [of _ _ rc w] c False show ?thesis
    by (cases "rc = 0") (auto simp: native_active_def native_pending_def check_code_def)
qed

lemma native_commit_cases:
  assumes "lift_call (w_commit api) s = (r, t)" "native_pending staged s = Some p"
  shows "case r of Inr _ \<Rightarrow> native_active enforced t = p \<and> native_pending staged t = None
    | Inl _ \<Rightarrow> native_active enforced t = native_active enforced s \<and> native_pending staged t \<noteq> None"
proof -
  obtain rc w where c: "w_commit api (handle s) (world s) = (rc, w)" "r = check_code rc"
      "t = s\<lparr>world := w\<rparr>"
    using assms(1) by (rule lift_call_cases)
  have h: "handle s \<noteq> 0" "staged (world s) = Some p"
    using assms(2) by (auto simp: pending_staged)
  show ?thesis
    using commit_success [of "handle s" "world s" w p]
      commit_failure [of "handle s" "world s" rc w p] c h
    by (cases "rc = 0") (simp_all add: native_active_def native_pending_def check_code_def)
qed

lemma native_abort_ok:
  assumes "lift_call (w_abort api) s = (Inr u, t)" "native_pending staged s = Some p"
  shows "native_active enforced t = native_active enforced s \<and> native_pending staged t = None"
proof -
  obtain rc w where c: "w_abort api (handle s) (world s) = (rc, w)" "Inr u = check_code rc"
      "t = s\<lparr>world := w\<rparr>"
    using assms(1) by (rule lift_call_cases)
  have h: "handle s \<noteq> 0" "staged (world s) = Some p"
    using assms(2) by (auto simp: pending_staged)
  show ?thesis
    using abort_success [of "handle s" "world s" w p] c h
    by (simp add: native_active_def native_pending_def)
qed

text \<open>A close that succeeds has really removed the policies of the session.\<close>

lemma native_close_released:
  assumes "native_close api s = (Inr u, t)" "handle s \<noteq> 0"
  shows "enforced (world t) = {} \<and> handle t = 0"
  using assms close_success by (auto simp: native_close_def split: prod.splits if_splits)

end

sublocale wfp_platform \<subseteq> native: policy_session "native_ops api" "native_active enforced"
  "native_pending staged"
  "rule_effects api"
proof (unfold_locales, goal_cases)
  case (1 s u s')
  then show ?case using native_begin_cases [of s "Inr u" s'] by (simp add: native_ops_def)
next
  case (2 s e s')
  then show ?case using native_begin_cases [of s "Inl e" s'] by (simp add: native_ops_def)
next
  case (3 r s ks s' p)
  then show ?case using native_add_ok by (simp add: native_ops_def)
next
  case (4 r s e s' p)
  then show ?case using native_add_err by (simp add: native_ops_def)
next
  case (5 k s u s' p)
  then show ?case using native_delete_cases [of k s "Inr u" s' p] by (simp add: native_ops_def)
next
  case (6 k s e s' p)
  then show ?case using native_delete_cases [of k s "Inl e" s' p] by (simp add: native_ops_def)
next
  case (7 s u s' p)
  then show ?case using native_commit_cases [of s "Inr u" s' p] by (simp add: native_ops_def)
next
  case (8 s e s' p)
  then show ?case using native_commit_cases [of s "Inl e" s' p] by (simp add: native_ops_def)
next
  case (9 s u s' p)
  then show ?case using native_abort_ok [of s u s' p] by (simp add: native_ops_def)
next
  case (10 s u s')
  then show ?case
    by (auto simp: native_ops_def native_close_def native_active_def split: prod.splits if_splits)
qed

subsection \<open>An in-memory platform\<close>

text \<open>
  A transactional store that meets the contract of the platform; \<open>refused\<close> is an AppId it does not
  accept, \<open>rollback\<close> says whether a rollback succeeds.
\<close>

record wfp_store =
  st_enforced :: "(policy_key \<times> wfp_effect) list"
  st_staged :: "(policy_key \<times> wfp_effect) list option"
  st_next :: nat

definition store_update ::
    "((policy_key \<times> wfp_effect) list \<Rightarrow> (policy_key \<times> wfp_effect) list) \<Rightarrow> wfp_store \<Rightarrow> nat \<times> wfp_store" where
  "store_update f w = (0, w\<lparr>st_staged := map_option f (st_staged w)\<rparr>)"

definition store_api :: "nat list \<Rightarrow> bool \<Rightarrow> wfp_store wfp_api" where
  "store_api refused rollback =
     \<lparr>w_library = True, w_exports = True,
      w_guid = (\<lambda>w. (st_next w, w\<lparr>st_next := st_next w + 1\<rparr>)),
      w_open = (\<lambda>w. (0, 1, w)),
      w_sublayer_add = (\<lambda>h g w. (0, w)),
      w_app_id = (\<lambda>path. (0, Some (map of_char path))),
      w_is_file = (\<lambda>path. True),
      w_filter_add = (\<lambda>h f w.
        if App_id refused \<in> set (filter_conditions f) then (5, 0, w)
        else (case store_update ((#) (Block_key (st_next w), filter_effect f)) w of
                (rc, v) \<Rightarrow> (rc, st_next w, v\<lparr>st_next := st_next v + 1\<rparr>))),
      w_filter_delete = (\<lambda>h i. store_update (filter (\<lambda>kv. fst kv \<noteq> Block_key i))),
      w_policy_add = (\<lambda>h q w.
        if App_id refused \<in> set (policy_conditions q) then (5, w)
        else store_update ((#) (Route_key (context_key q), policy_effect q)) w),
      w_policy_delete = (\<lambda>h g. store_update (filter (\<lambda>kv. fst kv \<noteq> Route_key g))),
      w_begin = (\<lambda>h w. (0, w\<lparr>st_staged := Some (st_enforced w)\<rparr>)),
      w_commit = (\<lambda>h w. (0, w\<lparr>st_enforced := (case st_staged w of None \<Rightarrow> [] | Some l \<Rightarrow> l),
                             st_staged := None\<rparr>)),
      w_abort = (\<lambda>h w. if rollback then (0, w\<lparr>st_staged := None\<rparr>) else (7, w)),
      w_close = (\<lambda>h w. (0, w\<lparr>st_enforced := [], st_staged := None\<rparr>))\<rparr>"

definition store_enforced :: "wfp_store \<Rightarrow> (policy_key \<times> wfp_effect) set" where
  "store_enforced w = set (st_enforced w)"

definition store_staged :: "wfp_store \<Rightarrow> (policy_key \<times> wfp_effect) set option" where
  "store_staged w = map_option set (st_staged w)"

interpretation store: wfp_platform "store_api refused rollback" store_enforced store_staged
  by unfold_locales
    (auto simp: store_api_def store_enforced_def store_staged_def store_update_def
       split: if_splits prod.splits)

subsection \<open>The engine over the Windows session\<close>

definition apply_history ::
    "'w wfp_api \<Rightarrow> planned_rule list list \<Rightarrow> ('w native_session, policy_key) routing_engine
     \<Rightarrow> ('w native_session, policy_key) routing_engine" where
  "apply_history api history en =
     fold (\<lambda>rules en. snd (engine_apply (native_ops api) rules en)) history en"

definition idle_session ::
    "('w \<Rightarrow> (policy_key \<times> wfp_effect) set) \<Rightarrow> ('w \<Rightarrow> (policy_key \<times> wfp_effect) set option)
     \<Rightarrow> 'w native_session \<Rightarrow> bool" where
  "idle_session enf stg s \<longleftrightarrow> handle s \<noteq> 0 \<and> enf (world s) = {} \<and> stg (world s) = None"

context wfp_platform begin

lemma history_ok:
  assumes "idle_session enforced staged s"
  shows "native.enforces (apply_history api history (engine_new s))"
  unfolding apply_history_def
  by (rule native.history_enforces, rule native.enforces_new)
    (use assms in \<open>simp_all add: idle_session_def native_active_def native_pending_def\<close>)

lemma history_apply_ok:
  assumes "idle_session enforced staged s"
    and "engine_apply (native_ops api) rules (apply_history api history (engine_new s)) = (Inr u, en')"
  shows "snd ` native_active enforced (session en')
    = (\<Union>r \<in> {r \<in> set rules. r_mode r \<noteq> Automatic}. rule_effects api r)"
  using native.apply_ok [OF history_ok [OF assms(1)] assms(2)]
  by (simp add: native.enforces_def active_rules_def)

lemma history_apply_err:
  fixes history :: "planned_rule list list"
  assumes "idle_session enforced staged s"
  defines "en \<equiv> apply_history api history (engine_new s)"
  assumes "engine_apply (native_ops api) rules en = (Inl e, en')"
  shows "\<not> poisoned en' \<and> native_active enforced (session en') = native_active enforced (session en) \<and>
       previous en' = previous en \<and> keys en' = keys en
    \<or> poisoned en' \<and> (\<forall>rules. engine_apply (native_ops api) rules en' = (Inl Session_ended, en'))"
  using native.apply_err(2) [OF history_ok [OF assms(1)]] assms(3)
  unfolding en_def by (cases "poisoned en'") auto

end

text \<open>
  C2: over any platform that behaves as Windows documents, and after any history of applied rule
  lists, successful or not, an \<open>apply\<close> that returns \<open>Ok\<close> leaves the operating system enforcing
  exactly the blocks and routes of the rules just planned: nothing of an earlier list survives,
  and every rule that is not \<open>Automatic\<close> has its effect for each of its address families.
\<close>

theorem native_apply_enforces:
  assumes "wfp_platform api enforced staged" "idle_session enforced staged s"
    and "engine_apply (native_ops api) rules (apply_history api history (engine_new s)) = (Inr u, en')"
  shows "snd ` native_active enforced (session en')
    = (\<Union>r \<in> {r \<in> set rules. r_mode r \<noteq> Automatic}. rule_effects api r)"
  using wfp_platform.history_apply_ok [OF assms] .

definition sample_rule :: "string \<Rightarrow> route_mode \<Rightarrow> planned_rule" where
  "sample_rule path mode =
     \<lparr>r_application = path, r_executable = Some path, r_mode = mode, r_interface_id = Some ''e'',
      r_luid = 7, r_ipv4 = True, r_ipv6 = False, r_detail = Block_requested\<rparr>"

definition sample_session :: "wfp_store native_session" where
  "sample_session =
     \<lparr>handle = 1, sublayer = 0, world = \<lparr>st_enforced = [], st_staged = None, st_next = 10\<rparr>\<rparr>"

definition sample_a :: string where "sample_a = ''C:'' @ bsl @ ''a''"

definition sample_b :: string where "sample_b = ''C:'' @ bsl @ ''b''"

abbreviation sample_refusing :: "bool \<Rightarrow> wfp_store wfp_api" where
  "sample_refusing \<equiv> store_api (map of_char sample_b)"

lemma sample_idle: "idle_session store_enforced store_staged sample_session"
  by (simp add: idle_session_def sample_session_def store_enforced_def store_staged_def)

lemma sample_ok:
  "fst (engine_apply (native_ops (sample_refusing True)) [sample_rule sample_a Blocked]
      (engine_new sample_session)) = Inr ()"
  by code_simp

lemma sample_err:
  "fst (engine_apply (native_ops (sample_refusing True)) [sample_rule sample_b Blocked]
      (engine_new sample_session)) = Inl (Session_failed (Wfp_code 5))"
  by code_simp

lemma no_history [simp]: "apply_history api [] en = en"
  by (simp add: apply_history_def)

theorem native_apply_enforces_witness:
  "\<exists>en'. engine_apply (native_ops (sample_refusing True)) [sample_rule sample_a Blocked]
      (apply_history (sample_refusing True) [] (engine_new sample_session)) = (Inr (), en')
    \<and> snd ` native_active store_enforced (session en')
      = (\<Union>r \<in> {r \<in> set [sample_rule sample_a Blocked]. r_mode r \<noteq> Automatic}.
           rule_effects (sample_refusing True) r)"
proof -
  obtain en' where en': "engine_apply (native_ops (sample_refusing True)) [sample_rule sample_a Blocked]
      (apply_history (sample_refusing True) [] (engine_new sample_session)) = (Inr (), en')"
    unfolding no_history using sample_ok by (metis prod.collapse)
  from native_apply_enforces [OF store.wfp_platform_axioms sample_idle en'] en' show ?thesis
    by (intro exI conjI)
qed

text \<open>
  C5: an \<open>apply\<close> that fails, at whichever call and after any history, either rolled back, and then
  what is enforced, the remembered rules and the keys are those from before it, or could not roll
  back, and then the engine is poisoned and refuses every later list.
\<close>

theorem native_apply_failure:
  assumes "wfp_platform api enforced staged" "idle_session enforced staged s"
    and "engine_apply (native_ops api) rules (apply_history api history (engine_new s)) = (Inl e, en')"
  shows "\<not> poisoned en' \<and>
      native_active enforced (session en')
        = native_active enforced (session (apply_history api history (engine_new s))) \<and>
      previous en' = previous (apply_history api history (engine_new s)) \<and>
      keys en' = keys (apply_history api history (engine_new s))
    \<or> poisoned en' \<and> (\<forall>rules. engine_apply (native_ops api) rules en' = (Inl Session_ended, en'))"
  using wfp_platform.history_apply_err [OF assms] .

theorem native_apply_failure_witness:
  "\<exists>en'. engine_apply (native_ops (sample_refusing True)) [sample_rule sample_b Blocked]
      (apply_history (sample_refusing True) [] (engine_new sample_session))
        = (Inl (Session_failed (Wfp_code 5)), en')
    \<and> (\<not> poisoned en' \<and>
      native_active store_enforced (session en') = native_active store_enforced (session
        (apply_history (sample_refusing True) [] (engine_new sample_session))) \<and>
      previous en' = previous (apply_history (sample_refusing True) [] (engine_new sample_session)) \<and>
      keys en' = keys (apply_history (sample_refusing True) [] (engine_new sample_session))
      \<or> poisoned en' \<and> (\<forall>rules. engine_apply (native_ops (sample_refusing True)) rules en'
          = (Inl Session_ended, en')))"
proof -
  obtain en' where en': "engine_apply (native_ops (sample_refusing True)) [sample_rule sample_b Blocked]
      (apply_history (sample_refusing True) [] (engine_new sample_session))
        = (Inl (Session_failed (Wfp_code 5)), en')"
    unfolding no_history using sample_err by (metis prod.collapse)
  from native_apply_failure [OF store.wfp_platform_axioms sample_idle en'] en' show ?thesis
    by (intro exI conjI)
qed

end
