(* ===== verification/Session.thy ===== *)
theory Session
  imports Protocol Flags Wfp
begin

text \<open>
  The elevated side of \<open>crates/netlane-agent/src/lib.rs\<close>: one cycle of planning and applying, the
  session loop and \<open>run_session\<close> with its cleanup. What \<open>select!\<close> picks is a list of events, each with
  its time in nanoseconds: a message or the failure of the inbox, the check of the owner with whether it
  runs, and the policy tick with the adapters that were read and the files that exist. The lease, the
  opening of the session and the texts of errors are parameters; the session loop over a finite list
  of events that does not end it is still running.
\<close>

datatype ('e, 'g) agent_error =
    Send_lost
  | Inbox_lost
  | Bad_request
  | Remote_path
  | Rules_rejected policy_error
  | Lease_taken
  | Flags_rejected "'g flag_error"
  | Open_failed 'e
  | Close_failed 'e
  | Bad_command
  | Adapters_failed string
  | Engine_failed "'e engine_error"
  | Rollback_failed "('e, 'g) agent_error"
  | Cleanup_incomplete

definition apply_cycle ::
    "('s, 'k, 'e) policy_ops \<Rightarrow> (string \<Rightarrow> string) \<Rightarrow> (string \<Rightarrow> nat option) \<Rightarrow> routing_policy list \<Rightarrow> string + adapter list
     \<Rightarrow> (string \<Rightarrow> bool) \<Rightarrow> ('s, 'k) routing_engine
     \<Rightarrow> (('e, 'g) agent_error + planned_rule list) \<times> ('s, 'k) routing_engine" where
  "apply_cycle ops lower uuid policies adapters ex en =
     (case adapters of
        Inl e \<Rightarrow> (Inl (Adapters_failed e), en)
      | Inr as \<Rightarrow>
          let rules = retire_missing ex (plan_routes lower uuid (expand_related lower policies ex) as) in
          (case engine_apply ops rules en of
             (Inl e, en') \<Rightarrow> (Inl (Engine_failed e), en')
           | (Inr _, en') \<Rightarrow> (Inr rules, en')))"

record ('s, 'k, 'e, 'f, 'g) agent_env =
  ae_ops :: "('s, 'k, 'e) policy_ops"
  ae_open :: "'e + 's"
  ae_flags :: "('f, 'g) flag_ops"
  ae_lease :: bool
  ae_lower :: "string \<Rightarrow> string"
  ae_uuid :: "string \<Rightarrow> nat option"
  ae_pid :: nat
  ae_show :: "('e, 'g) agent_error \<Rightarrow> string"

record ('s, 'k) agent_state =
  as_policies :: "routing_policy list"
  as_engine :: "('s, 'k) routing_engine"
  as_ping :: nat
  as_channel :: channel

datatype agent_event =
    Incoming "message option"
  | Owner_check bool
  | Policy_tick "string + adapter list" "string \<Rightarrow> bool"

definition owner_silence :: nat where "owner_silence = 12 * 1000000000"

definition accepted_text :: string where
  "accepted_text = (''Pol'' @ byte_string [195, 173] @ ''ticas aceitas pelo Windows. Tr'' @ byte_string [195, 161] @ ''fego ainda n'' @ byte_string [195, 163] @ ''o verificado.'')"

definition refused_text :: "string \<Rightarrow> string" where
  "refused_text e = (''Regras recusadas pela sess'' @ byte_string [195, 163] @ ''o: '') @ e @ ''. As anteriores continuam aplicadas.''"

definition not_applied_text :: "string \<Rightarrow> string" where
  "not_applied_text e =
     (''Ciclo n'' @ byte_string [195, 163] @ ''o aplicado: '') @ e @ (''. As pol'' @ byte_string [195, 173] @ ''ticas anteriores continuam; nova tentativa em 10 s.'')"

text \<open>A send in the loop; its failure ends the loop.\<close>

definition reply ::
    "message \<Rightarrow> ('s, 'k) agent_state \<Rightarrow> (('e, 'g) agent_error + bool) \<times> ('s, 'k) agent_state" where
  "reply m st =
     (case send_to Send_lost m (as_channel st) of
        (Inl e, ch) \<Rightarrow> (Inl e, st\<lparr>as_channel := ch\<rparr>)
      | (Inr _, ch) \<Rightarrow> (Inr True, st\<lparr>as_channel := ch\<rparr>))"

text \<open>One iteration: \<open>Inr True\<close> goes on, \<open>Inr False\<close> is \<open>break\<close>.\<close>

definition handle_message ::
    "('s, 'k, 'e, 'f, 'g) agent_env \<Rightarrow> nat \<Rightarrow> message \<Rightarrow> ('s, 'k) agent_state
     \<Rightarrow> (('e, 'g) agent_error + bool) \<times> ('s, 'k) agent_state" where
  "handle_message env now m st =
     (case m of
        Ping \<Rightarrow> (Inr True, st\<lparr>as_ping := now\<rparr>)
      | Stop \<Rightarrow> (Inr False, st)
      | Update_rules next_rules \<Rightarrow>
          (case validate_policies (ae_lower env) (ae_uuid env) next_rules of
             Inr _ \<Rightarrow> (Inr True, st\<lparr>as_policies := next_rules\<rparr>)
           | Inl e \<Rightarrow> reply (Error_message (refused_text (ae_show env (Rules_rejected e)))) st)
      | _ \<Rightarrow> (Inl Bad_command, st))"

definition policy_tick ::
    "('s, 'k, 'e, 'f, 'g) agent_env \<Rightarrow> string \<Rightarrow> string + adapter list \<Rightarrow> (string \<Rightarrow> bool) \<Rightarrow> ('s, 'k) agent_state
     \<Rightarrow> (('e, 'g) agent_error + bool) \<times> ('s, 'k) agent_state" where
  "policy_tick env path adapters ex st =
     (case apply_cycle (ae_ops env) (ae_lower env) (ae_uuid env) (as_policies st) adapters ex (as_engine st) of
        (Inr rules, en) \<Rightarrow>
          reply (Session_snapshot (ae_pid env) path None rules accepted_text) (st\<lparr>as_engine := en\<rparr>)
      | (Inl e, en) \<Rightarrow>
          if poisoned en then (Inl (Rollback_failed e), st\<lparr>as_engine := en\<rparr>)
          else reply (Error_message (not_applied_text (ae_show env e))) (st\<lparr>as_engine := en\<rparr>))"

definition agent_step ::
    "('s, 'k, 'e, 'f, 'g) agent_env \<Rightarrow> string \<Rightarrow> nat \<times> agent_event \<Rightarrow> ('s, 'k) agent_state
     \<Rightarrow> (('e, 'g) agent_error + bool) \<times> ('s, 'k) agent_state" where
  "agent_step env path ev st =
     (case ev of
        (now, Incoming None) \<Rightarrow> (Inl Inbox_lost, st)
      | (now, Incoming (Some m)) \<Rightarrow> handle_message env now m st
      | (now, Owner_check running) \<Rightarrow> (Inr (running \<and> now - as_ping st \<le> owner_silence), st)
      | (now, Policy_tick adapters ex) \<Rightarrow> policy_tick env path adapters ex st)"

fun agent_loop ::
    "('s, 'k, 'e, 'f, 'g) agent_env \<Rightarrow> string \<Rightarrow> (nat \<times> agent_event) list \<Rightarrow> ('s, 'k) agent_state
     \<Rightarrow> (('e, 'g) agent_error + unit) option \<times> ('s, 'k) agent_state" where
  "agent_loop env path [] st = (None, st)"
| "agent_loop env path (ev # evs) st =
     (case agent_step env path ev st of
        (Inl e, st') \<Rightarrow> (Some (Inl e), st')
      | (Inr True, st') \<Rightarrow> agent_loop env path evs st'
      | (Inr False, st') \<Rightarrow> (Some (Inr ()), st'))"

subsection \<open>The session\<close>

record ('s, 'k, 'f) agent_end =
  en_channel :: channel
  en_engine :: "('s, 'k) routing_engine option"
  en_flags :: "'f temporary_flags"

text \<open>The block whose result decides nothing about the cleanup; the session starts at \<open>start\<close>.\<close>

definition session_body ::
    "('s, 'k, 'e, 'f, 'g) agent_env \<Rightarrow> nat \<Rightarrow> (nat \<times> agent_event) list \<Rightarrow> string \<Rightarrow> routing_policy list \<Rightarrow> bool
     \<Rightarrow> channel \<Rightarrow> 'f temporary_flags
     \<Rightarrow> (('e, 'g) agent_error + unit) option \<times> ('s, 'k, 'f) agent_end" where
  "session_body env start evs path policies allow ch flags =
     (let stop = (\<lambda>e fl. (Some (Inl e), \<lparr>en_channel = ch, en_engine = None, en_flags = fl\<rparr>)) in
      if \<not> is_local_path path then stop Remote_path flags
      else (case validate_policies (ae_lower env) (ae_uuid env) policies of
         Inl e \<Rightarrow> stop (Rules_rejected e) flags
       | Inr _ \<Rightarrow>
           if \<not> ae_lease env then stop Lease_taken flags
           else (case enable (ae_flags env) allow flags of
              (Inl e, fl) \<Rightarrow> stop (Flags_rejected e) fl
            | (Inr _, fl) \<Rightarrow>
                (case ae_open env of
                   Inl e \<Rightarrow> stop (Open_failed e) fl
                 | Inr s \<Rightarrow>
                     (case agent_loop env path evs
                         \<lparr>as_policies = policies, as_engine = engine_new s, as_ping = start, as_channel = ch\<rparr> of
                        (r, st) \<Rightarrow>
                          (r, \<lparr>en_channel = as_channel st, en_engine = Some (as_engine st), en_flags = fl\<rparr>))))))"

definition close_engine ::
    "('s, 'k, 'e, 'f, 'g) agent_env \<Rightarrow> ('s, 'k) routing_engine option \<Rightarrow> string list \<times> ('s, 'k) routing_engine option" where
  "close_engine env e =
     (case e of
        None \<Rightarrow> ([], None)
      | Some en \<Rightarrow>
          (case engine_close (ae_ops env) en of
             (r, en1) \<Rightarrow>
               ((case r of Inl x \<Rightarrow> [''WFP: '' @ ae_show env (Close_failed x)] | Inr _ \<Rightarrow> []),
                Some (en1\<lparr>session := snd (op_close (ae_ops env) (session en1))\<rparr>))))"

definition flag_error_text :: "('s, 'k, 'e, 'f, 'g) agent_env \<Rightarrow> ip_family \<times> 'g flag_error \<Rightarrow> string" where
  "flag_error_text env fe = family_name (fst fe) @ '': '' @ ae_show env (Flags_rejected (snd fe))"

definition ended_text :: "string list \<Rightarrow> string" where
  "ended_text errors =
     (if errors = [] then (''Sess'' @ byte_string [195, 163] @ ''o encerrada. Op'' @ byte_string [195, 167, 195, 181] @ ''es tempor'' @ byte_string [195, 161] @ ''rias restauradas.'')
      else ''Limpeza incompleta: '' @ join_errors errors)"

text \<open>The cleanup, with the destructors of the engine and of the flags.\<close>

definition session_end ::
    "('s, 'k, 'e, 'f, 'g) agent_env \<Rightarrow> ('e, 'g) agent_error + unit \<Rightarrow> ('s, 'k, 'f) agent_end
     \<Rightarrow> (('e, 'g) agent_error + unit) \<times> ('s, 'k, 'f) agent_end" where
  "session_end env r en =
     (case close_engine env (en_engine en) of
        (closing, engine) \<Rightarrow>
          (case restore (ae_flags env) (en_flags en) of
             (failed, fl) \<Rightarrow>
               let errors = closing @ map (flag_error_text env) failed;
                   ch1 = (case r of
                       Inl e \<Rightarrow> snd (send_to (Send_lost :: ('e, 'g) agent_error) (Error_message (ae_show env e)) (en_channel en))
                     | Inr _ \<Rightarrow> en_channel en);
                   ch2 = snd (send_to (Send_lost :: ('e, 'g) agent_error) (Stopped (errors = []) (ended_text errors)) ch1)
               in (if errors = [] then r else Inl Cleanup_incomplete,
                   \<lparr>en_channel = ch2, en_engine = engine, en_flags = snd (restore (ae_flags env) fl)\<rparr>)))"

definition run_session ::
    "('s, 'k, 'e, 'f, 'g) agent_env \<Rightarrow> nat \<Rightarrow> (nat \<times> agent_event) list \<Rightarrow> channel \<Rightarrow> 'f
     \<Rightarrow> (('e, 'g) agent_error + unit) option \<times> ('s, 'k, 'f) agent_end" where
  "run_session env start evs ch fs =
     (let early = (\<lambda>e ch1. (Some (Inl e), \<lparr>en_channel = ch1, en_engine = None, en_flags = flags_new fs\<rparr>)) in
      case sbind (send_to Send_lost (Hello protocol_version)) (\<lambda>_. receive_from Inbox_lost) ch of
        (Inl e, ch1) \<Rightarrow> early e ch1
      | (Inr (Start_session path policies allow), ch1) \<Rightarrow>
          (case session_body env start evs path policies allow ch1 (flags_new fs) of
             (None, en) \<Rightarrow> (None, en)
           | (Some r, en) \<Rightarrow> (case session_end env r en of (r', en') \<Rightarrow> (Some r', en')))
      | (Inr _, ch1) \<Rightarrow> early Bad_request ch1)"

end
