(* ===== verification/Session_Facts.thy ===== *)
theory Session_Facts
  imports Session
begin

text \<open>
  The session tells the panel what the system enforces, and a session that reports success at its end
  has left neither policies nor changed flags behind.
\<close>

text \<open>The rules of the last snapshot that was sent; before the first one, none.\<close>

fun reported :: "message list \<Rightarrow> planned_rule list" where
  "reported [] = []"
| "reported (m # ms) = (case m of Session_snapshot pid path rv rules d \<Rightarrow> rules | _ \<Rightarrow> reported ms)"

definition last_reported :: "channel \<Rightarrow> planned_rule list" where
  "last_reported ch = reported (rev (ch_sent ch))"

lemma reply_sent:
  assumes "reply m st = (Inr c, st')"
  shows "c \<and> ch_sent (as_channel st') = ch_sent (as_channel st) @ [m] \<and> as_engine st' = as_engine st \<and>
    as_policies st' = as_policies st"
  using assms by (auto simp: reply_def result_simps split: prod.splits sum.splits)

text \<open>The policies of the session.\<close>

locale agent_policies = policy_session "ae_ops env" active pending effect
  for env :: "('s, 'k, 'e, 'f, 'g) agent_env"
    and active :: "'s \<Rightarrow> ('k \<times> 'v) set"
    and pending :: "'s \<Rightarrow> ('k \<times> 'v) set option"
    and effect :: "planned_rule \<Rightarrow> 'v set"
begin

text \<open>What is enforced is what was reported last.\<close>

definition truthful :: "('s, 'k) agent_state \<Rightarrow> bool" where
  "truthful st \<longleftrightarrow>
     enforces (as_engine st) \<and> \<not> poisoned (as_engine st) \<and>
     previous (as_engine st) = last_reported (as_channel st)"

lemma reply_truthful:
  assumes "reply m st = (Inr c, st')" "enforces (as_engine st)" "\<not> poisoned (as_engine st)"
    and "previous (as_engine st) = reported (m # rev (ch_sent (as_channel st)))"
  shows "truthful st'"
  using reply_sent [OF assms(1)] assms(2-4) by (simp add: truthful_def last_reported_def)

lemma policy_tick_truthful:
  assumes "policy_tick env path adapters ex st = (Inr c, st')" "truthful st"
  shows "truthful st'"
proof -
  obtain r en where c: "apply_cycle (ae_ops env) (ae_lower env) (ae_uuid env) (as_policies st) adapters ex (as_engine st)
      = (r :: ('e, 'g) agent_error + planned_rule list, en)" by force
  have en: "enforces en \<and> (case r of Inr rules \<Rightarrow> previous en = rules \<and> \<not> poisoned en
      | Inl e \<Rightarrow> poisoned en \<or> previous en = previous (as_engine st))"
  proof (cases adapters)
    case (Inl e)
    with c assms(2) show ?thesis by (auto simp: apply_cycle_def truthful_def)
  next
    case (Inr as)
    define rules where "rules = retire_missing ex
        (plan_routes (ae_lower env) (ae_uuid env) (expand_related (ae_lower env) (as_policies st) ex) as)"
    obtain v en1 where a: "engine_apply (ae_ops env) rules (as_engine st) = (v, en1)" by force
    have e: "enforces (as_engine st)" using assms(2) by (simp add: truthful_def)
    show ?thesis
    proof (cases v)
      case (Inl x)
      with c a Inr have "r = Inl (Engine_failed x)" "en = en1"
        by (simp_all add: apply_cycle_def Let_def rules_def [symmetric])
      with apply_err(1,2) [OF e a [unfolded Inl]] show ?thesis by auto
    next
      case (Inr u)
      with c a \<open>adapters = Inr as\<close> have "r = Inr rules" "en = en1"
        by (simp_all add: apply_cycle_def Let_def rules_def [symmetric])
      with apply_ok [OF e a [unfolded Inr]] show ?thesis by simp
    qed
  qed
  show ?thesis
  proof (cases r)
    case (Inl e)
    with assms(1) c en have "\<not> poisoned en" by (auto simp: policy_tick_def split: if_splits)
    with Inl assms c en show ?thesis
      by (intro reply_truthful) (auto simp: policy_tick_def truthful_def last_reported_def)
  next
    case (Inr rules)
    with assms(1) c en show ?thesis
      by (intro reply_truthful) (auto simp: policy_tick_def)
  qed
qed

lemma handle_message_truthful:
  assumes "handle_message env now m st = (Inr c, st')" "truthful st"
  shows "truthful st'"
proof (cases m)
  case (Update_rules next_rules)
  then show ?thesis
  proof (cases "validate_policies (ae_lower env) (ae_uuid env) next_rules")
    case (Inl e)
    with Update_rules assms show ?thesis
      by (intro reply_truthful) (auto simp: handle_message_def truthful_def last_reported_def)
  next
    case (Inr u)
    with Update_rules assms show ?thesis by (auto simp: handle_message_def truthful_def)
  qed
qed (use assms in \<open>auto simp: handle_message_def truthful_def\<close>)

lemma agent_step_truthful:
  "agent_step env path ev st = (Inr c, st') \<Longrightarrow> truthful st \<Longrightarrow> truthful st'"
  by (auto simp: agent_step_def split: prod.splits agent_event.splits option.splits
      intro: policy_tick_truthful handle_message_truthful)

lemma agent_loop_truthful:
  "agent_loop env path evs st = (r, st') \<Longrightarrow> truthful st \<Longrightarrow> (\<And>e. r \<noteq> Some (Inl e)) \<Longrightarrow> truthful st'"
proof (induction evs arbitrary: st)
  case Nil
  then show ?case by simp
next
  case (Cons ev evs)
  obtain s st1 where s: "agent_step env path ev st = (s, st1)" by force
  show ?case
  proof (cases s)
    case (Inl e)
    with s Cons.prems show ?thesis by auto
  next
    case (Inr c)
    have t: "truthful st1" using agent_step_truthful s Inr Cons.prems(2) by blast
    from s Inr Cons.prems(1,3) t Cons.IH [of st1] show ?thesis by (cases c) auto
  qed
qed

lemma start_truthful:
  assumes "pending s = None" "active s = {}" "reported (rev (ch_sent ch)) = []"
  shows "truthful \<lparr>as_policies = ps, as_engine = engine_new s, as_ping = t, as_channel = ch\<rparr>"
  using enforces_new [OF assms(1,2)] assms(3) by (simp add: truthful_def last_reported_def engine_new_def)

end

text \<open>The cleanup, over a policy session that can be closed twice and flags nobody else changes.\<close>

locale agent_platform = agent_policies env active pending effect + route_flags "ae_flags env" state
  for env :: "('s, 'k, 'e, 'f, 'g) agent_env"
    and active :: "'s \<Rightarrow> ('k \<times> 'v) set"
    and pending :: "'s \<Rightarrow> ('k \<times> 'v) set option"
    and effect :: "planned_rule \<Rightarrow> 'v set"
    and state :: "'f \<Rightarrow> ip_family \<Rightarrow> bool" +
  assumes close_again: "op_close (ae_ops env) s = (Inr u, s') \<Longrightarrow> op_close (ae_ops env) s' = (v, s'') \<Longrightarrow> active s'' = {}"
begin

lemma close_engine_clears:
  assumes "close_engine env e = ([], e')"
  shows "case e' of None \<Rightarrow> True | Some en \<Rightarrow> active (session en) = {}"
proof (cases e)
  case None
  with assms show ?thesis by (auto simp: close_engine_def)
next
  case (Some en)
  obtain r en1 where c: "engine_close (ae_ops env) en = (r, en1)" by force
  obtain v s'' where a: "op_close (ae_ops env) (session en1) = (v, s'')" by force
  from assms Some c a have r: "r = Inr ()" "e' = Some (en1\<lparr>session := s''\<rparr>)"
    by (auto simp: close_engine_def split: sum.splits)
  then obtain s where "op_close (ae_ops env) (session en) = (Inr (), s)" "session en1 = s"
    using c by (auto simp: engine_close_def split: prod.splits)
  with close_again [of "session en" "()" s] a have "active s'' = {}" by simp
  with r show ?thesis by simp
qed

text \<open>The loop never sends the message that ends a session.\<close>

lemma reply_stopped:
  assumes "reply m st = (r, st')" "Stopped b d \<in> set (ch_sent (as_channel st'))"
  shows "Stopped b d \<in> set (ch_sent (as_channel st)) \<or> m = Stopped b d"
  using assms by (auto simp: reply_def dest!: send_to_sent split: prod.splits sum.splits if_splits)

lemma agent_step_stopped:
  assumes "agent_step env path ev st = (r, st')" "Stopped b d \<in> set (ch_sent (as_channel st'))"
  shows "Stopped b d \<in> set (ch_sent (as_channel st))"
proof -
  obtain now e where ev: "ev = (now, e)" by force
  show ?thesis
  proof (cases e)
    case (Incoming m)
    show ?thesis
    proof (cases m)
      case None
      with ev Incoming assms show ?thesis by (simp add: agent_step_def)
    next
      case (Some x)
      with ev Incoming assms have "handle_message env now x st = (r, st')" by (simp add: agent_step_def)
      with assms(2) show ?thesis
        by (cases x) (auto simp: handle_message_def dest: reply_stopped split: sum.splits)
    qed
  next
    case (Owner_check x)
    with ev assms show ?thesis by (simp add: agent_step_def)
  next
    case (Policy_tick adapters ex)
    with ev assms have "policy_tick env path adapters ex st = (r, st')" by (simp add: agent_step_def)
    with assms(2) show ?thesis
      by (auto simp: policy_tick_def dest: reply_stopped split: prod.splits sum.splits if_splits)
  qed
qed

lemma agent_loop_stopped:
  "agent_loop env path evs st = (r, st') \<Longrightarrow> Stopped b d \<in> set (ch_sent (as_channel st')) \<Longrightarrow>
     Stopped b d \<in> set (ch_sent (as_channel st))"
proof (induction evs arbitrary: st)
  case Nil
  then show ?case by simp
next
  case (Cons ev evs)
  obtain s st1 where s: "agent_step env path ev st = (s, st1)" by force
  have "Stopped b d \<in> set (ch_sent (as_channel st1))"
  proof (cases s)
    case (Inl e)
    with s Cons.prems show ?thesis by auto
  next
    case (Inr c)
    with s Cons.prems Cons.IH [of st1] show ?thesis by (cases c) auto
  qed
  then show ?case using agent_step_stopped [OF s] by blast
qed

lemma session_body_facts:
  assumes "session_body env start evs path policies allow ch (flags_new fs) = (r, en)"
  shows "en_flags en = flags_new fs \<or> (\<exists>v. enable (ae_flags env) allow (flags_new fs) = (v, en_flags en))"
    "Stopped b d \<in> set (ch_sent (en_channel en)) \<Longrightarrow> Stopped b d \<in> set (ch_sent ch)"
proof -
  have "(en_flags en = flags_new fs \<or> (\<exists>v. enable (ae_flags env) allow (flags_new fs) = (v, en_flags en))) \<and>
    (Stopped b d \<in> set (ch_sent (en_channel en)) \<longrightarrow> Stopped b d \<in> set (ch_sent ch))"
  proof (cases "is_local_path path \<and> (\<exists>u. validate_policies (ae_lower env) (ae_uuid env) policies = Inr u) \<and> ae_lease env")
    case False
    with assms show ?thesis
      by (cases "validate_policies (ae_lower env) (ae_uuid env) policies")
        (auto simp: session_body_def Let_def split: if_splits)
  next
    case True
    then obtain u where u: "validate_policies (ae_lower env) (ae_uuid env) policies = Inr u" by blast
    obtain v fl where e: "enable (ae_flags env) allow (flags_new fs) = (v, fl)" by force
    show ?thesis
    proof (cases "(\<exists>x. v = Inr x) \<and> (\<exists>s. ae_open env = Inr s)")
      case False
      with assms True u e show ?thesis
        by (cases v; cases "ae_open env") (auto simp: session_body_def Let_def)
    next
      case opened: True
      then obtain x s where vs: "v = Inr x" "ae_open env = Inr s" by blast
      obtain q st where l: "agent_loop env path evs
          \<lparr>as_policies = policies, as_engine = engine_new s, as_ping = start, as_channel = ch\<rparr> = (q, st)" by force
      have "en = \<lparr>en_channel = as_channel st, en_engine = Some (as_engine st), en_flags = fl\<rparr>"
        using assms True u e vs l by (simp add: session_body_def Let_def)
      with agent_loop_stopped [OF l] e show ?thesis by auto
    qed
  qed
  then show "en_flags en = flags_new fs \<or> (\<exists>v. enable (ae_flags env) allow (flags_new fs) = (v, en_flags en))"
    "Stopped b d \<in> set (ch_sent (en_channel en)) \<Longrightarrow> Stopped b d \<in> set (ch_sent ch)"
    by blast+
qed

definition clean :: "'f \<Rightarrow> ('s, 'k, 'f) agent_end \<Rightarrow> bool" where
  "clean fs en \<longleftrightarrow>
     (case en_engine en of None \<Rightarrow> True | Some e \<Rightarrow> active (session e) = {}) \<and>
     state (tf_settings (en_flags en)) = state fs"

lemma flags_restored:
  assumes "en_flags en = flags_new fs \<or> (\<exists>v. enable (ae_flags env) allow (flags_new fs) = (v, en_flags en))"
    and "restore (ae_flags env) (en_flags en) = ([], fl)"
  shows "state (tf_settings fl) = state fs \<and> tf_changed fl = []"
  using assms(1)
proof
  assume "en_flags en = flags_new fs"
  with assms(2) show ?thesis by (auto simp: restore_def flags_new_def)
next
  assume "\<exists>v. enable (ae_flags env) allow (flags_new fs) = (v, en_flags en)"
  then obtain v where "enable (ae_flags env) allow (flags_new fs) = (v, en_flags en)" by blast
  from enable_restore [OF this enable_changed [OF this] assms(2)] show ?thesis .
qed

lemma session_end_clean:
  assumes "session_end env r en = (r', en')"
    and "en_flags en = flags_new fs \<or> (\<exists>v. enable (ae_flags env) allow (flags_new fs) = (v, en_flags en))"
    and "Stopped True d \<notin> set (ch_sent (en_channel en))"
    and "r' = Inr () \<or> Stopped True d \<in> set (ch_sent (en_channel en'))"
  shows "clean fs en'"
proof -
  obtain closing engine where c: "close_engine env (en_engine en) = (closing, engine)" by force
  obtain failed fl where f: "restore (ae_flags env) (en_flags en) = (failed, fl)" by force
  define errors where "errors = closing @ map (flag_error_text env) failed"
  define ch1 where "ch1 = (case r of
       Inl e \<Rightarrow> snd (send_to (Send_lost :: ('e, 'g) agent_error) (Error_message (ae_show env e)) (en_channel en))
     | Inr _ \<Rightarrow> en_channel en)"
  have e: "r' = (if errors = [] then r else Inl Cleanup_incomplete)"
    "en' = \<lparr>en_channel = snd (send_to (Send_lost :: ('e, 'g) agent_error) (Stopped (errors = []) (ended_text errors)) ch1),
       en_engine = engine, en_flags = snd (restore (ae_flags env) fl)\<rparr>"
    using assms(1) c f by (simp_all add: session_end_def Let_def errors_def ch1_def)
  have "Stopped True d \<notin> set (ch_sent ch1)"
  proof (cases r)
    case (Inl x)
    obtain v ch' where "send_to (Send_lost :: ('e, 'g) agent_error) (Error_message (ae_show env x)) (en_channel en) = (v, ch')"
      by force
    with Inl assms(3) send_to_sent [OF this] show ?thesis by (auto simp: ch1_def split: if_splits)
  qed (use assms(3) in \<open>simp add: ch1_def\<close>)
  moreover obtain v ch' where s: "send_to (Send_lost :: ('e, 'g) agent_error) (Stopped (errors = []) (ended_text errors)) ch1 = (v, ch')"
    by force
  ultimately have "errors = []"
    using assms(4) send_to_sent [OF s] e s by (auto split: if_splits)
  then have "closing = []" "failed = []" by (simp_all add: errors_def)
  with flags_restored [OF assms(2)] close_engine_clears [of "en_engine en" engine] c f
  have "case engine of None \<Rightarrow> True | Some e \<Rightarrow> active (session e) = {}"
    "state (tf_settings fl) = state fs" "tf_changed fl = []" by simp_all
  then show ?thesis by (simp add: clean_def e(2) restore_def)
qed

lemma run_session_clean:
  assumes "run_session env start evs ch fs = (Some r, en)" "Stopped True d \<notin> set (ch_sent ch)"
    and "r = Inr () \<or> Stopped True d \<in> set (ch_sent (en_channel en))"
  shows "clean fs en"
proof -
  obtain v ch1 where h: "sbind (send_to Send_lost (Hello protocol_version)) (\<lambda>_. receive_from Inbox_lost) ch
      = (v :: ('e, 'g) agent_error + message, ch1)" by force
  have sent: "Stopped True d \<notin> set (ch_sent ch1)"
  proof -
    obtain a ch0 where a: "send_to (Send_lost :: ('e, 'g) agent_error) (Hello protocol_version) ch = (a, ch0)" by force
    have "ch_sent (snd (receive_from (Inbox_lost :: ('e, 'g) agent_error) ch0)) = ch_sent ch0"
      by (simp add: receive_from_def split: list.split option.split)
    with h a send_to_sent [OF a] assms(2) show ?thesis
      by (cases a) (auto simp: sbind_def)
  qed
  show ?thesis
  proof (cases "\<exists>path policies allow. v = Inr (Start_session path policies allow)")
    case False
    then have "\<exists>e. (r, en) = (Inl e, \<lparr>en_channel = ch1, en_engine = None, en_flags = flags_new fs\<rparr>)"
      using assms(1) h by (cases v) (auto simp: run_session_def Let_def split: message.splits)
    then show ?thesis by (auto simp: clean_def flags_new_def)
  next
    case True
    then obtain path policies allow where v: "v = Inr (Start_session path policies allow)" by blast
    obtain q en1 where b: "session_body env start evs path policies allow ch1 (flags_new fs) = (q, en1)" by force
    then obtain r1 where "q = Some r1" "session_end env r1 en1 = (r, en)"
      using assms(1) h v by (cases q) (auto simp: run_session_def Let_def split: prod.splits)
    with session_end_clean [OF this(2) session_body_facts(1) [OF b], of d] session_body_facts(2) [OF b, of True d] sent assms(3)
    show ?thesis by blast
  qed
qed

end

subsection \<open>On Windows\<close>

context wfp_platform begin

lemma provides_session:
  "policy_session (native_ops api) (native_active enforced) (native_pending staged) (rule_effects api)"
  by (rule native.policy_session_axioms)

lemma native_close_again:
  assumes "op_close (native_ops api) s = (Inr u, s')" "op_close (native_ops api) s' = (v, s'')"
  shows "native_active enforced s'' = {}"
  using assms by (auto simp: native_ops_def native_close_def native_active_def split: prod.splits if_splits)

end

lemma windows_policies:
  assumes "wfp_platform api enforced staged" "ae_ops env = native_ops api"
  shows "agent_policies env (native_active enforced) (native_pending staged) (rule_effects api)"
  unfolding agent_policies_def assms(2) by (rule wfp_platform.provides_session [OF assms(1)])

lemma windows_agent:
  assumes "wfp_platform api enforced staged" "netsh_platform decode netsh flags"
    and "ae_ops env = native_ops api" "ae_flags env = windows_flags decode netsh"
  shows "agent_platform env (native_active enforced) (native_pending staged) (rule_effects api) flags"
  unfolding agent_platform_def agent_platform_axioms_def assms(3,4)
  using windows_policies [OF assms(1,3)] netsh_platform.provides_flags [OF assms(2)]
    wfp_platform.native_close_again [OF assms(1)] by blast

text \<open>
  C3: as long as the session runs, whatever happened before, what Windows enforces is exactly what
  the last snapshot told the panel: the blocks and routes of its rules, and nothing before the first.
\<close>

theorem session_reports_enforced:
  assumes "wfp_platform api enforced staged" "ae_ops env = native_ops api" "idle_session enforced staged s"
    and "reported (rev (ch_sent ch)) = []"
    and "agent_loop env path evs
      \<lparr>as_policies = policies, as_engine = engine_new s, as_ping = start, as_channel = ch\<rparr> = (None, st)"
  shows "snd ` native_active enforced (session (as_engine st)) =
    (\<Union>r \<in> {r \<in> set (last_reported (as_channel st)). r_mode r \<noteq> Automatic}. rule_effects api r)"
proof -
  note ap = windows_policies [OF assms(1,2)]
  have "native_pending staged s = None" "native_active enforced s = {}"
    using assms(3) by (simp_all add: idle_session_def native_pending_def native_active_def)
  from agent_policies.agent_loop_truthful [OF ap assms(5) agent_policies.start_truthful [OF ap this assms(4)]]
  have "agent_policies.truthful (native_active enforced) (native_pending staged) (rule_effects api) st" by simp
  then show ?thesis
    unfolding agent_policies.truthful_def [OF ap] policy_session.enforces_def [OF wfp_platform.provides_session [OF assms(1)]]
    by (simp add: active_rules_def)
qed

lemma windows_session_clean:
  assumes "wfp_platform api enforced staged" "netsh_platform decode netsh flags"
    and "ae_ops env = native_ops api" "ae_flags env = windows_flags decode netsh"
    and "run_session env start evs ch fs = (Some r, en)" "Stopped True d \<notin> set (ch_sent ch)"
    and "r = Inr () \<or> Stopped True d \<in> set (ch_sent (en_channel en))"
  shows "(case en_engine en of None \<Rightarrow> True | Some e \<Rightarrow> native_active enforced (session e) = {}) \<and>
    flags (tf_settings (en_flags en)) = flags fs"
  using agent_platform.run_session_clean [OF windows_agent [OF assms(1-4)] assms(5-7)]
  by (simp add: agent_platform.clean_def [OF windows_agent [OF assms(1-4)]])

text \<open>
  C40: a session that ends without an error, or whose final message claims success, has cleaned up:
  Windows enforces none of its policies any more, and the route policies of both families are as
  they were before it.
\<close>

theorem session_leaves_nothing:
  assumes "wfp_platform api enforced staged" "netsh_platform decode netsh flags"
    and "ae_ops env = native_ops api" "ae_flags env = windows_flags decode netsh"
    and "run_session env start evs ch fs = (Some r, en)" "Stopped True d \<notin> set (ch_sent ch)"
    and "r = Inr () \<or> Stopped True d \<in> set (ch_sent (en_channel en))"
  shows "(case en_engine en of None \<Rightarrow> True | Some e \<Rightarrow> native_active enforced (session e) = {}) \<and>
    flags (tf_settings (en_flags en)) = flags fs"
  using assms by (rule windows_session_clean)

subsection \<open>A session\<close>

definition demo_env :: "(wfp_store native_session, policy_key, wfp_error, bool \<times> bool, netsh_error) agent_env" where
  "demo_env =
     \<lparr>ae_ops = native_ops (store_api [] True), ae_open = Inr sample_session,
      ae_flags = windows_flags ascii_text two_flags, ae_lease = True, ae_lower = (\<lambda>s. s), ae_uuid = (\<lambda>_. None),
      ae_pid = 1, ae_show = (\<lambda>_. [])\<rparr>"

interpretation demo: agent_platform demo_env "native_active store_enforced" "native_pending store_staged"
  "rule_effects (store_api [] True)" two_state
  by (rule windows_agent [OF store.wfp_platform_axioms two.netsh_platform_axioms]) (simp_all add: demo_env_def)

interpretation demo_policies: agent_policies demo_env "native_active store_enforced" "native_pending store_staged"
  "rule_effects (store_api [] True)"
  by (rule demo.agent_policies_axioms)

definition demo_channel :: "message option list \<Rightarrow> channel" where
  "demo_channel ms = \<lparr>ch_received = ms, ch_sends = [], ch_sent = []\<rparr>"

definition blocked_policy :: routing_policy where
  "blocked_policy = (policy_new (''C:'' @ bsl @ ''a''))\<lparr>route_mode := Blocked\<rparr>"

definition demo_tick :: "nat \<times> agent_event" where
  "demo_tick = (5, Policy_tick (Inr []) (\<lambda>_. True))"

definition demo_start :: "(wfp_store native_session, policy_key) agent_state" where
  "demo_start = \<lparr>as_policies = [blocked_policy], as_engine = engine_new sample_session, as_ping = 0, as_channel = demo_channel []\<rparr>"

lemma demo_loop: "fst (agent_loop demo_env ''p'' [demo_tick] demo_start) = None"
  by code_simp

lemma demo_reported: "map r_mode (last_reported (as_channel (snd (agent_loop demo_env ''p'' [demo_tick] demo_start)))) = [Blocked]"
  by code_simp

lemma demo_run: "\<exists>en. run_session demo_env 0 [(1, Incoming (Some Stop))]
    (demo_channel [Some (Start_session (''C:'' @ bsl @ ''r'') [] True)]) (True, False) = (Some (Inr ()), en) \<and>
  ch_sent (en_channel en) = [Hello protocol_version, Stopped True (ended_text [])]"
proof -
  define ch where "ch = \<lparr>ch_received = [], ch_sends = [], ch_sent = [Hello protocol_version]\<rparr>"
  have p: "is_local_path (''C:'' @ bsl @ ''r'')" by code_simp
  have v: "validate_policies (\<lambda>s. s) (\<lambda>_. None) [] = Inr ()" by (simp add: validate_policies_def max_policies_def)
  have b: "session_body demo_env 0 [(1, Incoming (Some Stop))] (''C:'' @ bsl @ ''r'') [] True ch (flags_new (True, False)) =
      (Some (Inr ()), \<lparr>en_channel = ch, en_engine = Some (engine_new sample_session),
         en_flags = \<lparr>tf_settings = (True, True), tf_changed = [Ipv6]\<rparr>\<rparr>)"
    using p v two_enable
    by (simp add: session_body_def demo_env_def Let_def agent_step_def handle_message_def)
  have "fst (close_engine demo_env (Some (engine_new sample_session))) = []"
    by (simp add: close_engine_def demo_env_def engine_close_def engine_new_def native_ops_def native_close_def
        sample_session_def store_api_def check_code_def)
  then obtain ce where c: "close_engine demo_env (Some (engine_new sample_session)) = ([], ce)"
    by (metis prod.collapse)
  moreover have "ae_flags demo_env = windows_flags ascii_text two_flags" by (simp add: demo_env_def)
  ultimately have e: "\<exists>en. session_end demo_env (Inr ()) \<lparr>en_channel = ch, en_engine = Some (engine_new sample_session),
      en_flags = \<lparr>tf_settings = (True, True), tf_changed = [Ipv6]\<rparr>\<rparr> = (Inr (), en) \<and>
      ch_sent (en_channel en) = [Hello protocol_version, Stopped True (ended_text [])]"
    using two_restore by (simp add: session_end_def Let_def ch_def send_to_def)
  from b have "session_body demo_env 0 [(1, Incoming (Some Stop))] (''C:'' @ bsl @ ''r'') [] True
      \<lparr>ch_received = [], ch_sends = [], ch_sent = [Hello protocol_version]\<rparr> (flags_new (True, False)) =
      (Some (Inr ()), \<lparr>en_channel = ch, en_engine = Some (engine_new sample_session),
         en_flags = \<lparr>tf_settings = (True, True), tf_changed = [Ipv6]\<rparr>\<rparr>)" by (simp add: ch_def)
  with e show ?thesis
    by (auto simp: run_session_def demo_channel_def send_to_def receive_from_def)
qed

theorem session_reports_enforced_witness:
  "\<exists>st. agent_loop demo_env ''p'' [demo_tick] demo_start = (None, st) \<and>
    map r_mode (last_reported (as_channel st)) = [Blocked] \<and>
    snd ` native_active store_enforced (session (as_engine st)) =
      (\<Union>r \<in> {r \<in> set (last_reported (as_channel st)). r_mode r \<noteq> Automatic}. rule_effects (store_api [] True) r)"
proof -
  obtain st where l: "agent_loop demo_env ''p'' [demo_tick] demo_start = (None, st)"
    using demo_loop by (metis prod.collapse)
  have "ae_ops demo_env = native_ops (store_api [] True)" by (simp add: demo_env_def)
  moreover have "reported (rev (ch_sent (demo_channel []))) = []" by (simp add: demo_channel_def)
  ultimately show ?thesis
    using l demo_reported session_reports_enforced [OF store.wfp_platform_axioms _ sample_idle _ l [unfolded demo_start_def]]
    by (intro exI [of _ st] conjI) simp_all
qed

theorem session_leaves_nothing_witness:
  "\<exists>en. run_session demo_env 0 [(1, Incoming (Some Stop))]
      (demo_channel [Some (Start_session (''C:'' @ bsl @ ''r'') [] True)]) (True, False) = (Some (Inr ()), en) \<and>
    (case en_engine en of None \<Rightarrow> True | Some e \<Rightarrow> native_active store_enforced (session e) = {}) \<and>
    two_state (tf_settings (en_flags en)) = two_state (True, False)"
proof -
  obtain en where r: "run_session demo_env 0 [(1, Incoming (Some Stop))]
      (demo_channel [Some (Start_session (''C:'' @ bsl @ ''r'') [] True)]) (True, False) = (Some (Inr ()), en)"
    using demo_run by blast
  have "ae_ops demo_env = native_ops (store_api [] True)" "ae_flags demo_env = windows_flags ascii_text two_flags"
    by (simp_all add: demo_env_def)
  from session_leaves_nothing [OF store.wfp_platform_axioms two.netsh_platform_axioms this r] r show ?thesis
    by (auto simp: demo_channel_def)
qed

end
