(* ===== verification/Panel_Facts.thy ===== *)
theory Panel_Facts
  imports Panel Session_Facts
begin

text \<open>
  The panel believes in a cleanup only when the agent has reported it, and then it has happened.
\<close>

lemma accept_cleanup:
  "accept_response pid path m ss = (r, ss') \<Longrightarrow> ss_cleanup ss' \<Longrightarrow> ss_cleanup ss \<or> (\<exists>d. m = Stopped True d)"
  by (auto simp: accept_response_def split: message.splits if_splits)

lemma drain_cleanup:
  "drain pid path ms ss = (b, ss') \<Longrightarrow> ss_cleanup ss' \<Longrightarrow>
     ss_cleanup ss \<or> (\<exists>d. Some (Stopped True d) \<in> set ms)"
proof (induction ms arbitrary: ss)
  case Nil
  then show ?case by simp
next
  case (Cons m ms)
  show ?case
  proof (cases m)
    case None
    with Cons.prems show ?thesis by simp
  next
    case (Some x)
    obtain r ss1 where a: "accept_response pid path x ss = (r, ss1)" by force
    show ?thesis
    proof (cases "r = Inr False")
      case True
      with Some Cons.prems a have "drain pid path ms ss1 = (b, ss')" by simp
      from Cons.IH [OF this Cons.prems(2)] accept_cleanup [OF a] Some show ?thesis by auto
    next
      case False
      with Some Cons.prems(1) a have "ss' = ss1" by (auto split: sum.splits bool.splits)
      with accept_cleanup [OF a] Cons.prems(2) Some show ?thesis by auto
    qed
  qed
qed

lemma write_message_session: "write_message m st = (f, st') \<Longrightarrow> pn_session st' = pn_session st"
  by (auto simp: write_message_def split: prod.splits sum.splits)

lemma panel_step_cleanup:
  assumes "panel_step pid path ev st = (f, st')" "ss_cleanup (pn_session st')"
  shows "ss_cleanup (pn_session st) \<or> (\<exists>d. Some (Stopped True d) \<in> set (messages_in [ev]))"
proof -
  obtain now e where ev: "ev = (now, e)" by force
  show ?thesis
  proof (cases e)
    case (Message_in m)
    then show ?thesis
    proof (cases m)
      case None
      with Message_in ev assms show ?thesis by (auto simp: panel_step_def)
    next
      case (Some x)
      obtain r ss where a: "accept_response pid path x (pn_session st) = (r, ss)" by force
      have "pn_session st' = ss"
        using assms(1) ev Message_in Some a by (auto simp: panel_step_def split: sum.splits)
      with accept_cleanup [OF a] assms(2) show ?thesis
        by (auto simp: messages_in_def List.map_filter_def ev Message_in Some)
    qed
  next
    case (Command_in c)
    with ev assms show ?thesis
      by (auto simp: panel_step_def dest!: write_message_session split: if_splits option.splits command.splits)
  next
    case Ping_tick
    with ev assms show ?thesis
      by (auto simp: panel_step_def dest!: write_message_session split: if_splits)
  qed
qed

lemma messages_in_Cons: "messages_in (ev # evs) = messages_in [ev] @ messages_in evs"
  by (simp add: messages_in_def List.map_filter_def)

lemma exchange_loop_cleanup:
  "exchange_loop pid path evs st = (r, ss') \<Longrightarrow> ss_cleanup ss' \<Longrightarrow>
     ss_cleanup (pn_session st) \<or> (\<exists>d. Some (Stopped True d) \<in> set (messages_in evs))"
proof (induction evs arbitrary: st)
  case Nil
  then show ?case by simp
next
  case (Cons ev evs)
  obtain f st1 where s: "panel_step pid path ev st = (f, st1)" by force
  have "ss_cleanup (pn_session st1) \<or> (\<exists>d. Some (Stopped True d) \<in> set (messages_in evs))"
  proof (cases f)
    case Go_on
    with s Cons.prems Cons.IH [of st1] show ?thesis by auto
  next
    case (Write_failed e)
    obtain b ss where d: "drain pid path (messages_in evs) (pn_session st1) = (b, ss)" by force
    with s Write_failed Cons.prems(1) have "ss' = ss" by (auto split: bool.splits)
    with drain_cleanup [OF d] Cons.prems(2) show ?thesis by simp
  qed (use s Cons.prems in auto)
  with panel_step_cleanup [OF s] show ?case by (auto simp: messages_in_Cons [of ev evs])
qed

lemma panel_exchange_cleanup:
  "panel_exchange pid path ps allow start evs ch ss = (r, ss') \<Longrightarrow> ss_cleanup ss' \<Longrightarrow>
     ss_cleanup ss \<or> (\<exists>d. Some (Stopped True d) \<in> set (messages_in evs))"
  by (auto simp: panel_exchange_def dest!: exchange_loop_cleanup split: prod.splits sum.splits)

lemma wait_cleanup:
  "ss_cleanup (wait_for_agent_exit start its ss) = ss_cleanup ss \<and> \<not> ss_running (wait_for_agent_exit start its ss) \<and>
     \<not> ss_busy (wait_for_agent_exit start its ss)"
proof -
  have step: "ss_cleanup (snd (snd (wait_step d it st))) = ss_cleanup (snd (snd st))" for d it st
    by (auto simp: wait_step_def Let_def split: prod.splits option.splits command.splits)
  have "ss_cleanup (snd (snd (fold (wait_step d) its st))) = ss_cleanup (snd (snd st))" for d st
    by (induction its arbitrary: st) (simp_all add: step)
  then have "ss_cleanup (snd (snd (fold (wait_step (start + 20 * second)) its (False, True, ss)))) = ss_cleanup ss"
    by simp
  then show ?thesis
    by (cases "fold (wait_step (start + 20 * second)) its (False, True, ss)")
      (simp add: wait_for_agent_exit_def)
qed

lemma after_exchange_cleanup:
  assumes "after_exchange display w (r, ss) = (Some v, ss')"
  shows "ss_cleanup ss' = ss_cleanup ss \<and> \<not> ss_running ss' \<and> \<not> ss_busy ss'"
  using assms wait_cleanup
  by (auto simp: after_exchange_def await_exit_def Let_def split: option.splits sum.splits)

lemma launched_exchange_cleanup:
  "launched_exchange w pid path ps allow ss = (r, ss') \<Longrightarrow> ss_cleanup ss' \<Longrightarrow>
     ss_cleanup ss \<or> (\<exists>d. Some (Stopped True d) \<in> set (messages_in (sw_events w)))"
  by (auto simp: launched_exchange_def dest!: panel_exchange_cleanup split: if_splits)

lemma controller_confirms:
  assumes "controller_command display w (Start_command path ps allow) ss = Some ss'"
    and "ss_cleanup ss" "sw_lease w" "sw_launch w = Inr pid"
  shows "\<not> ss_running ss' \<and> \<not> ss_busy ss' \<and>
    (ss_cleanup ss' \<longrightarrow> (\<exists>d. Some (Stopped True d) \<in> set (messages_in (sw_events w))))"
proof -
  define ss1 where "ss1 = ss\<lparr>ss_busy := True, ss_detail := awaiting_text, ss_running := True, ss_cleanup := False\<rparr>"
  obtain r ss2 where e: "launched_exchange w pid path ps allow ss1 = (r, ss2)" by force
  obtain q ss3 where q: "after_exchange display w (r, ss2) = (q, ss3)" by force
  have c: "controller_command display w (Start_command path ps allow) ss =
     (case q of None \<Rightarrow> None | Some (Inl e) \<Rightarrow> Some (ss3\<lparr>ss_busy := False, ss_detail := display e\<rparr>) | Some (Inr _) \<Rightarrow> Some ss3)"
    using assms(2-4) e q by (simp add: controller_command_def control_session_def ss1_def)
  then obtain v where v: "q = Some v" using assms(1) by (cases q) auto
  have "ss_cleanup ss' = ss_cleanup ss3 \<and> ss_running ss' = ss_running ss3 \<and> (ss_busy ss' \<longrightarrow> ss_busy ss3)"
    using c assms(1) v by (cases v) auto
  with after_exchange_cleanup [OF q [unfolded v]] launched_exchange_cleanup [OF e] show ?thesis
    by (auto simp: ss1_def)
qed

text \<open>
  Once a session was launched and has come to its end, the panel shows it as neither running nor
  busy, and shows its cleanup as confirmed only if the agent reported it.
\<close>

theorem panel_confirms_cleanup:
  assumes "controller_command display w (Start_command path ps allow) ss = Some ss'"
    and "ss_cleanup ss" "sw_lease w" "sw_launch w = Inr pid"
  shows "\<not> ss_running ss' \<and> \<not> ss_busy ss' \<and>
    (if ss_cleanup ss' then \<exists>d. Some (Stopped True d) \<in> set (messages_in (sw_events w)) else True)"
  using controller_confirms [OF assms] by simp

text \<open>
  C1: the two sides together: if the panel shows the cleanup of a session as confirmed, and every
  message it read was sent by the agent it started, then Windows enforces none of the session's
  policies and the route policies are as they were, whatever failed in between.
\<close>

theorem confirmed_cleanup_is_real:
  assumes "wfp_platform api enforced staged" "netsh_platform decode netsh flags"
    and "ae_ops env = native_ops api" "ae_flags env = windows_flags decode netsh"
    and "run_session env start evs ch fs = (Some r, en)" "ch_sent ch = []"
    and "controller_command display w (Start_command path ps allow) ss = Some ss'"
    and "ss_cleanup ss" "sw_lease w" "sw_launch w = Inr pid"
    and "set (messages_in (sw_events w)) \<subseteq> insert None (Some ` set (ch_sent (en_channel en)))"
    and "ss_cleanup ss'"
  shows "(case en_engine en of None \<Rightarrow> True | Some e \<Rightarrow> native_active enforced (session e) = {}) \<and>
    flags (tf_settings (en_flags en)) = flags fs"
proof -
  from controller_confirms [OF assms(7-10)] assms(12)
  obtain d where "Some (Stopped True d) \<in> set (messages_in (sw_events w))" by blast
  with assms(11) have "Stopped True d \<in> set (ch_sent (en_channel en))" by auto
  with windows_session_clean [OF assms(1-5), of d] assms(6) show ?thesis by simp
qed

definition demo_world :: session_world where
  "demo_world =
     \<lparr>sw_lease = True, sw_launch = Inr 1, sw_connected = True, sw_start = 0,
      sw_channel = demo_channel [Some (Hello protocol_version)],
      sw_events = [(1, Message_in (Some (Stopped True (ended_text []))))], sw_exit = (0, [])\<rparr>"

lemma demo_confirmed:
  "\<exists>ss'. controller_command (\<lambda>_. []) demo_world (Start_command ''p'' [] True) controller_new = Some ss' \<and> ss_cleanup ss'"
  by (simp add: controller_command_def control_session_def launched_exchange_def after_exchange_def await_exit_def
      wait_for_agent_exit_def panel_exchange_def panel_step_def accept_response_def demo_world_def demo_channel_def
      controller_new_def receive_from_def send_to_def Let_def)

lemma demo_world_facts:
  "ss_cleanup controller_new" "sw_lease demo_world" "sw_launch demo_world = Inr 1"
  "messages_in (sw_events demo_world) = [Some (Stopped True (ended_text []))]"
  by (simp_all add: controller_new_def demo_world_def messages_in_def List.map_filter_def)

theorem panel_confirms_cleanup_witness:
  "\<exists>ss'. controller_command (\<lambda>_. []) demo_world (Start_command ''p'' [] True) controller_new = Some ss' \<and>
    ss_cleanup ss' \<and> \<not> ss_running ss' \<and> \<not> ss_busy ss'"
proof -
  obtain ss' where c: "controller_command (\<lambda>_. []) demo_world (Start_command ''p'' [] True) controller_new = Some ss'"
    "ss_cleanup ss'" using demo_confirmed by blast
  from panel_confirms_cleanup [OF c(1) demo_world_facts(1-3)] c show ?thesis by auto
qed

theorem confirmed_cleanup_is_real_witness:
  "\<exists>en ss'. run_session demo_env 0 [(1, Incoming (Some Stop))]
      (demo_channel [Some (Start_session (''C:'' @ bsl @ ''r'') [] True)]) (True, False) = (Some (Inr ()), en) \<and>
    controller_command (\<lambda>_. []) demo_world (Start_command ''p'' [] True) controller_new = Some ss' \<and> ss_cleanup ss' \<and>
    (case en_engine en of None \<Rightarrow> True | Some e \<Rightarrow> native_active store_enforced (session e) = {}) \<and>
    two_state (tf_settings (en_flags en)) = two_state (True, False)"
proof -
  obtain ss' where c: "controller_command (\<lambda>_. []) demo_world (Start_command ''p'' [] True) controller_new = Some ss'"
    "ss_cleanup ss'" using demo_confirmed by blast
  obtain en where r: "run_session demo_env 0 [(1, Incoming (Some Stop))]
      (demo_channel [Some (Start_session (''C:'' @ bsl @ ''r'') [] True)]) (True, False) = (Some (Inr ()), en)"
    "ch_sent (en_channel en) = [Hello protocol_version, Stopped True (ended_text [])]" using demo_run by blast
  have e: "ae_ops demo_env = native_ops (store_api [] True)" "ae_flags demo_env = windows_flags ascii_text two_flags"
    by (simp_all add: demo_env_def)
  have ch: "ch_sent (demo_channel [Some (Start_session (''C:'' @ bsl @ ''r'') [] True)]) = []" by (simp add: demo_channel_def)
  have ms: "set (messages_in (sw_events demo_world)) \<subseteq> insert None (Some ` set (ch_sent (en_channel en)))"
    by (simp add: demo_world_facts r(2))
  from confirmed_cleanup_is_real [OF store.wfp_platform_axioms two.netsh_platform_axioms e r(1) ch c(1) demo_world_facts(1-3) ms c(2)]
    c r(1) show ?thesis by blast
qed

end
