(* ===== verification/Batch.thy ===== *)
theory Batch
  imports Reader Chars
begin

text \<open>
  The data of \<open>crates/netlane-capture/src/collection.rs\<close>: the bounded batch of PCAP records that a
  source fills (\<open>PacketBatch\<close>), the default \<open>poll_batch\<close> of a source, the validated options of a
  collection, and the driver's 32-bit counters extended across their wrap-around.

  A batch is one byte vector with the end of each record. The lemmas refine it to the list of its
  records: \<open>batch_of\<close> is the batch that holds a list, and every operation is that of the list.
\<close>

type_synonym u32 = "32 word"

definition batch_packets :: nat where "batch_packets = 256"
definition batch_bytes :: nat where "batch_bytes = 256 * 1024"
definition batch_queue :: nat where "batch_queue = 32"
definition packet_queue :: nat where "packet_queue = (batch_queue + 2) * batch_packets"
definition max_segments :: nat where "max_segments = 4096"

record captured =
  rec_seconds :: u32
  rec_micros :: u32
  rec_original :: u32
  rec_bytes :: "u8 list"

datatype poll = Poll_packet captured | Poll_idle | Poll_end

datatype batch_poll = Batch_ready | Batch_idle | Batch_end

datatype 'e collect_error =
    Source_failed 'e
  | Batch_overflow
  | No_interface
  | Bad_filter
  | Bad_limits
  | Bad_directory
  | Cancelled_before
  | Disk_failed nat
  | Publication_failed
  | Invalid_record
  | Out_of_range

subsection \<open>Batches\<close>

record packet_batch =
  pb_bytes :: "u8 list"
  pb_ends :: "nat list"

definition batch_new :: packet_batch where
  "batch_new = \<lparr>pb_bytes = [], pb_ends = []\<rparr>"

definition batch_len :: "packet_batch \<Rightarrow> nat" where
  "batch_len b = length (pb_ends b)"

definition batch_is_empty :: "packet_batch \<Rightarrow> bool" where
  "batch_is_empty b \<longleftrightarrow> pb_ends b = []"

definition has_room :: "packet_batch \<Rightarrow> bool" where
  "has_room b \<longleftrightarrow> batch_len b < batch_packets \<and> length (pb_bytes b) < batch_bytes"

definition saturating_add :: "u64 \<Rightarrow> u64 \<Rightarrow> u64" where
  "saturating_add a b = (if unat a + unat b < 2 ^ 64 then a + b else -1)"

definition read_limit :: "packet_batch \<Rightarrow> u32 \<Rightarrow> nat" where
  "read_limit b snaplen =
     (if \<not> has_room b then 0
      else min (max ((batch_bytes - length (pb_bytes b)) div unat (saturating_add 16 (ucast snaplen))) 1)
             (batch_packets - batch_len b))"

definition batch_push ::
    "packet_batch \<Rightarrow> u32 \<Rightarrow> u32 \<Rightarrow> u32 \<Rightarrow> u8 list \<Rightarrow> 'e collect_error + packet_batch" where
  "batch_push b seconds micros original bytes =
     rbind (ensure (has_room b \<and> length bytes \<le> 65535) Batch_overflow) (\<lambda>_.
       let out = pb_bytes b
             @ concat (map (\<lambda>v. le_bytes 4 (unat v)) [seconds, micros, of_nat (length bytes) :: u32, original])
             @ bytes in
       Inr \<lparr>pb_bytes = out, pb_ends = pb_ends b @ [length out]\<rparr>)"

text \<open>A Rust slice by a range, which panics (\<open>None\<close>) when the range is not within the slice.\<close>

definition slice :: "'a list \<Rightarrow> nat \<Rightarrow> nat \<Rightarrow> 'a list option" where
  "slice xs i j =
     (if i \<le> j \<and> j \<le> length xs then Some (take (j - i) (drop i xs)) else None)"

definition batch_range :: "packet_batch \<Rightarrow> nat \<Rightarrow> nat \<Rightarrow> u8 list option" where
  "batch_range b i j =
     Option.bind (if i = 0 then Some 0 else nth_option (pb_ends b) (i - 1)) (\<lambda>offset.
     Option.bind (if j = 0 then None else nth_option (pb_ends b) (j - 1)) (\<lambda>stop.
       slice (pb_bytes b) offset stop))"

definition batch_record :: "packet_batch \<Rightarrow> nat \<Rightarrow> (u32 \<times> u32 \<times> u32 \<times> u8 list) option" where
  "batch_record b index =
     Option.bind (batch_range b index (index + 1)) (\<lambda>record.
       if length record < 16 then None
       else let field = (\<lambda>at. of_nat (e_u32 True (drop at record)) :: u32) in
            Some (field 0, field 4, field 12, drop 16 record))"

definition batch_clear :: "packet_batch \<Rightarrow> packet_batch" where
  "batch_clear b = \<lparr>pb_bytes = [], pb_ends = []\<rparr>"

subsection \<open>The batch of a list of records\<close>

definition record_bytes :: "captured \<Rightarrow> u8 list" where
  "record_bytes r =
     le_bytes 4 (unat (rec_seconds r)) @ le_bytes 4 (unat (rec_micros r)) @
     le_bytes 4 (length (rec_bytes r)) @ le_bytes 4 (unat (rec_original r)) @ rec_bytes r"

definition records_bytes :: "captured list \<Rightarrow> u8 list" where
  "records_bytes rs = concat (map record_bytes rs)"

definition batch_of :: "captured list \<Rightarrow> packet_batch" where
  "batch_of rs =
     \<lparr>pb_bytes = records_bytes rs,
      pb_ends = map (\<lambda>k. length (records_bytes (take (Suc k) rs))) [0..<length rs]\<rparr>"

definition small :: "captured \<Rightarrow> bool" where
  "small r \<longleftrightarrow> length (rec_bytes r) \<le> 65535"

lemma length_record_bytes [simp]: "length (record_bytes r) = 16 + length (rec_bytes r)"
  by (simp add: record_bytes_def)

lemma records_bytes_simps [simp]:
  "records_bytes [] = []" "records_bytes (r # rs) = record_bytes r @ records_bytes rs"
  "records_bytes (rs @ qs) = records_bytes rs @ records_bytes qs"
  by (simp_all add: records_bytes_def)

lemma length_records_bytes_take:
  "length (records_bytes (take n rs)) \<le> length (records_bytes rs)"
  by (metis append_take_drop_id length_append le_add1 records_bytes_simps(3))

lemma take_records_bytes: "take (length (records_bytes (take n rs))) (records_bytes rs) = records_bytes (take n rs)"
  by (metis append_take_drop_id append_eq_conv_conj records_bytes_simps(3))

lemma drop_records_bytes: "drop (length (records_bytes (take n rs))) (records_bytes rs) = records_bytes (drop n rs)"
  by (metis append_take_drop_id append_eq_conv_conj records_bytes_simps(3))

lemma batch_of_simps [simp]:
  "pb_bytes (batch_of rs) = records_bytes rs" "batch_len (batch_of rs) = length rs"
  "batch_is_empty (batch_of rs) \<longleftrightarrow> rs = []" "batch_of [] = batch_new" "batch_clear b = batch_new"
  by (simp_all add: batch_of_def batch_len_def batch_is_empty_def batch_new_def batch_clear_def)

lemma batch_len_new [simp]: "batch_len batch_new = 0"
  by (simp add: batch_len_def batch_new_def)

lemma batch_of_end: "n \<le> length rs \<Longrightarrow> 0 < n \<Longrightarrow>
    nth_option (pb_ends (batch_of rs)) (n - 1) = Some (length (records_bytes (take n rs)))"
  by (simp add: batch_of_def nth_option_def)

lemma batch_push_of:
  "batch_push (batch_of rs) s u l d =
     (if has_room (batch_of rs) \<and> length d \<le> 65535
      then Inr (batch_of (rs @ [\<lparr>rec_seconds = s, rec_micros = u, rec_original = l, rec_bytes = d\<rparr>]))
      else Inl Batch_overflow)"
proof -
  have "length d \<le> 65535 \<Longrightarrow> unat (word_of_nat (length d) :: u32) = length d"
    by (simp add: unat_of_nat)
  moreover have "map (\<lambda>k. length (records_bytes (take (Suc k) rs)) + length (records_bytes (take (Suc k - length rs) [r])))
      [0..<length rs] = map (\<lambda>k. length (records_bytes (take (Suc k) rs))) [0..<length rs]" for r
    by (rule map_cong) auto
  ultimately show ?thesis
    by (auto simp: batch_push_def batch_of_def record_bytes_def Let_def)
qed

lemma batch_range_of:
  assumes "i < j" "j \<le> length rs"
  shows "batch_range (batch_of rs) i j = Some (records_bytes (take (j - i) (drop i rs)))"
proof -
  have o: "(if i = 0 then Some 0 else nth_option (pb_ends (batch_of rs)) (i - 1))
      = Some (length (records_bytes (take i rs)))"
    using assms batch_of_end [of i rs] by simp
  have e: "nth_option (pb_ends (batch_of rs)) (j - 1) = Some (length (records_bytes (take j rs)))"
    using assms batch_of_end [of j rs] by simp
  have s: "take j rs = take i rs @ take (j - i) (drop i rs)"
    using assms by (metis add_diff_inverse_nat less_imp_not_less take_add)
  have "take (length (records_bytes (take (j - i) (drop i rs)))) (records_bytes (drop i rs))
      = records_bytes (take (j - i) (drop i rs))"
    by (rule take_records_bytes)
  with o e assms length_records_bytes_take [of j rs] show ?thesis
    by (simp add: batch_range_def slice_def drop_records_bytes s)
qed

lemma e_u32_le_bytes [simp]: "e_u32 True (le_bytes 4 v @ r) = v mod 2 ^ 32"
  by (simp add: e_u32_def e_uint_def)

lemma e_u32_le_bytes' [simp]: "e_u32 True (le_bytes 4 v) = v mod 2 ^ 32"
  using e_u32_le_bytes [of v "[]"] by simp

lemma unat_u32_less: "unat (x :: u32) < 4294967296"
proof -
  have "unat x < 2 ^ LENGTH(32)"
    by (rule unsigned_less)
  then show ?thesis by simp
qed

lemma unat_u32_mod [simp]: "unat (x :: u32) mod 4294967296 = unat x"
  using unat_u32_less [of x] by simp

lemma record_fields:
  "e_u32 True (record_bytes r @ rest) = unat (rec_seconds r)"
  "e_u32 True (drop 4 (record_bytes r @ rest)) = unat (rec_micros r)"
  "e_u32 True (drop 8 (record_bytes r @ rest)) = length (rec_bytes r) mod 2 ^ 32"
  "e_u32 True (drop 12 (record_bytes r @ rest)) = unat (rec_original r)"
  "drop 16 (record_bytes r @ rest) = rec_bytes r @ rest"
  by (simp_all add: record_bytes_def)

text \<open>A batch holds a list of records within its bounds.\<close>

definition batch_holds :: "packet_batch \<Rightarrow> captured list \<Rightarrow> bool" where
  "batch_holds b rs \<longleftrightarrow> b = batch_of rs \<and> length rs \<le> batch_packets \<and> list_all small rs \<and>
     length (records_bytes rs) < batch_bytes + 16 + 65535"

lemma batch_holds_new [simp]: "batch_holds batch_new []"
  by (simp add: batch_holds_def batch_bytes_def)


lemma push_holds:
  assumes "batch_holds b rs" "batch_push b s u l d = Inr b'"
  shows "batch_holds b' (rs @ [\<lparr>rec_seconds = s, rec_micros = u, rec_original = l, rec_bytes = d\<rparr>])"
  using assms
  by (auto simp: batch_holds_def batch_push_of has_room_def small_def split: if_splits)

lemma batch_record_of:
  assumes "i < length rs"
  shows "batch_record (batch_of rs) i
    = Some (rec_seconds (rs ! i), rec_micros (rs ! i), rec_original (rs ! i), rec_bytes (rs ! i))"
proof -
  have "take 1 (drop i rs) = [rs ! i]"
    using assms by (simp add: take_Suc_conv_app_nth hd_drop_conv_nth [symmetric] take_Suc)
  then have "batch_range (batch_of rs) i (i + 1) = Some (record_bytes (rs ! i))"
    using batch_range_of [of i "i + 1" rs] assms by simp
  moreover have "e_u32 True (drop n (record_bytes r)) = e_u32 True (drop n (record_bytes r @ []))"
      "drop 16 (record_bytes r @ []) = drop 16 (record_bytes r)" for n r
    by simp_all
  ultimately show ?thesis
    using record_fields [where rest = "[]"] by (simp add: batch_record_def Let_def)
qed

text \<open>A record, and the records of a batch, read back one by one.\<close>

definition sample_record :: captured where
  "sample_record = \<lparr>rec_seconds = 10, rec_micros = 20, rec_original = 64, rec_bytes = [1, 2, 3]\<rparr>"

definition batch_records :: "packet_batch \<Rightarrow> captured list" where
  "batch_records b =
     map (\<lambda>i. case batch_record b i of
           Some (s, u, l, d) \<Rightarrow> \<lparr>rec_seconds = s, rec_micros = u, rec_original = l, rec_bytes = d\<rparr>
         | None \<Rightarrow> sample_record) [0..<batch_len b]"

lemma batch_records_of [simp]: "batch_records (batch_of rs) = rs"
  by (rule nth_equalityI) (simp_all add: batch_records_def batch_record_of)

lemma batch_records_new [simp]: "batch_records batch_new = []"
  using batch_records_of [of "[]"] by simp

text \<open>
  A batch is the list of its records. Pushing onto a batch that holds \<open>rs\<close> succeeds exactly while
  it has room and the record has at most 65535 bytes, and then the batch holds \<open>rs\<close> and the new
  record; reading record \<open>i\<close> gives back the fields and bytes pushed there, a range is the bytes of its
  records, and neither ever slices outside the batch.
\<close>

theorem batch_refines_list:
  assumes "batch_holds b rs" "i < j" "j \<le> length rs"
  shows "batch_push b s u l d =
       (if has_room b \<and> length d \<le> 65535
        then Inr (batch_of (rs @ [\<lparr>rec_seconds = s, rec_micros = u, rec_original = l, rec_bytes = d\<rparr>]))
        else Inl Batch_overflow) \<and>
     batch_range b i j = Some (concat (map record_bytes (take (j - i) (drop i rs)))) \<and>
     batch_record b i = Some (rec_seconds (rs ! i), rec_micros (rs ! i), rec_original (rs ! i), rec_bytes (rs ! i))"
  using assms batch_range_of [OF assms(2,3)] batch_push_of [of rs s u l d] batch_record_of [of i rs]
  by (simp add: batch_holds_def records_bytes_def)

text \<open>\<open>read_limit\<close> records of the snap length leave the batch within its bound.\<close>

lemma read_limit_fits:
  assumes "batch_holds b rs" "list_all (\<lambda>r. length (rec_bytes r) \<le> unat snaplen) qs"
    and "snaplen \<le> 65535" "length qs \<le> read_limit b snaplen"
  shows "batch_holds (batch_of (rs @ qs)) (rs @ qs)"
proof -
  let ?n = "unat snaplen" and ?l = "length (records_bytes rs)"
  have b: "b = batch_of rs"
    using assms(1) by (simp add: batch_holds_def)
  have n: "?n \<le> 65535"
    using assms(3) by (simp add: word_le_nat_alt)
  have "unat (ucast snaplen :: u64) = ?n"
    using unat_u32_less [of snaplen] by (simp add: unsigned_ucast_eq take_bit_nat_eq_self)
  then have "unat (saturating_add 16 (ucast snaplen)) = 16 + ?n"
    using n by (simp add: saturating_add_def unat_word_ariths unsigned_of_nat)
  then have lim: "qs = [] \<or> ?l < batch_bytes \<and> length rs + length qs \<le> batch_packets \<and>
      length qs \<le> max ((batch_bytes - ?l) div (16 + ?n)) 1"
    using assms(4) by (auto simp: read_limit_def b has_room_def split: if_splits)
  have q: "length (records_bytes qs) \<le> length qs * (16 + ?n)"
    using assms(2) by (induction qs) auto
  have sm: "list_all small qs"
    using assms(2) n by (auto simp: list_all_iff small_def)
  show ?thesis
  proof (cases "qs = []")
    case True
    with assms(1) b show ?thesis by simp
  next
    case False
    with lim have l: "?l < batch_bytes" "length rs + length qs \<le> batch_packets"
        "length qs \<le> max ((batch_bytes - ?l) div (16 + ?n)) 1"
      by auto
    have "length (records_bytes qs) \<le> max (batch_bytes - ?l) (16 + ?n)"
    proof (cases "length qs \<le> 1")
      case True
      then have "length qs * (16 + ?n) \<le> 1 * (16 + ?n)"
        by (rule mult_le_mono1)
      then have "length (records_bytes qs) \<le> 16 + ?n"
        using order_trans [OF q] by simp
      then show ?thesis by simp
    next
      case False
      with l(3) have "length qs * (16 + ?n) \<le> (batch_bytes - ?l) div (16 + ?n) * (16 + ?n)"
        by (intro mult_le_mono1) linarith
      also have "\<dots> \<le> batch_bytes - ?l"
        by simp
      finally have "length (records_bytes qs) \<le> batch_bytes - ?l" using q by simp
      then show ?thesis by simp
    qed
    with l n sm assms(1) show ?thesis
      by (auto simp: batch_holds_def)
  qed
qed

subsection \<open>The default poll of a source\<close>

text \<open>
  A source polls without blocking. Packets it has handed out before it becomes idle, ends or fails
  stay in the batch.
\<close>

function poll_batch ::
    "('s \<Rightarrow> ('e + poll) \<times> 's) \<Rightarrow> 's \<Rightarrow> packet_batch
     \<Rightarrow> ('e collect_error + batch_poll) \<times> 's \<times> packet_batch" where
  "poll_batch poll s b =
     (if has_room b then
        (case poll s of
           (Inl e, s') \<Rightarrow> (Inl (Source_failed e), s', b)
         | (Inr (Poll_packet r), s') \<Rightarrow>
             (case batch_push b (rec_seconds r) (rec_micros r) (rec_original r) (rec_bytes r) of
                Inl e \<Rightarrow> (Inl e, s', b)
              | Inr b' \<Rightarrow> poll_batch poll s' b')
         | (Inr Poll_idle, s') \<Rightarrow> (Inr Batch_idle, s', b)
         | (Inr Poll_end, s') \<Rightarrow> (Inr Batch_end, s', b))
      else (Inr Batch_ready, s, b))"
  by pat_completeness auto
termination
  by (relation "measure (\<lambda>(poll, s, b). batch_packets - batch_len b)")
    (auto simp: batch_push_def Let_def result_simps batch_len_def has_room_def)

declare poll_batch.simps [simp del]

text \<open>The records a source gives in consecutive polls, and how many polls were made.\<close>

inductive polled :: "('s \<Rightarrow> ('e + poll) \<times> 's) \<Rightarrow> 's \<Rightarrow> captured list \<Rightarrow> 's \<Rightarrow> bool"
  for poll :: "'s \<Rightarrow> ('e + poll) \<times> 's" where
  none: "polled poll s [] s"
| one: "poll s = (Inr (Poll_packet r), s') \<Longrightarrow> polled poll s' rs t \<Longrightarrow> polled poll s (r # rs) t"

definition poll_end_of ::
    "('s \<Rightarrow> ('e + poll) \<times> 's) \<Rightarrow> 's \<Rightarrow> ('e collect_error + batch_poll) \<Rightarrow> 's \<Rightarrow> packet_batch \<Rightarrow> bool" where
  "poll_end_of poll t res s' b' \<longleftrightarrow>
     (case res of
        Inr Batch_ready \<Rightarrow> s' = t \<and> \<not> has_room b'
      | Inr Batch_idle \<Rightarrow> poll t = (Inr Poll_idle, s')
      | Inr Batch_end \<Rightarrow> poll t = (Inr Poll_end, s')
      | Inl (Source_failed e) \<Rightarrow> poll t = (Inl e, s')
      | Inl e \<Rightarrow> e = Batch_overflow \<and> (\<exists>r. poll t = (Inr (Poll_packet r), s') \<and> \<not> small r))"

lemma poll_batch_polls:
  fixes poll :: "'s \<Rightarrow> ('e + poll) \<times> 's"
  assumes "poll_batch poll s b = (res, s', b')" "batch_holds b rs"
  shows "\<exists>qs t. polled poll s qs t \<and> batch_holds b' (rs @ qs) \<and> poll_end_of poll t res s' b'"
  using assms
proof (induction poll s b arbitrary: rs rule: poll_batch.induct)
  case (1 poll s b)
  consider "\<not> has_room b"
    | (other) r s1 where "has_room b" "poll s = (r, s1)" "\<And>p. r \<noteq> Inr (Poll_packet p)"
    | (packet) p s1 where "has_room b" "poll s = (Inr (Poll_packet p), s1)"
    by (metis surj_pair)
  then show ?case
  proof cases
    case 1
    with "1.prems" show ?thesis
      by (intro exI [where x = "[]"] exI [where x = s])
        (auto simp: poll_batch.simps [of poll s b] poll_end_of_def polled.none)
  next
    case other
    with "1.prems" show ?thesis
      by (intro exI [where x = "[]"] exI [where x = s])
        (auto simp: poll_batch.simps [of poll s b] poll_end_of_def polled.none split: sum.splits poll.splits)
  next
    case packet
    let ?push = "batch_push b (rec_seconds p) (rec_micros p) (rec_original p) (rec_bytes p)
      :: 'e collect_error + packet_batch"
    show ?thesis
    proof (cases ?push)
      case (Inl e)
      then have "e = Batch_overflow" "\<not> small p"
        using packet(1) by (auto simp: batch_push_def Let_def result_simps small_def)
      with Inl packet "1.prems" show ?thesis
        by (intro exI [where x = "[]"] exI [where x = s])
          (auto simp: poll_batch.simps [of poll s b] poll_end_of_def polled.none)
    next
      case (Inr b1)
      have h: "batch_holds b1 (rs @ [p])"
        using push_holds [OF "1.prems"(2) Inr] by (cases p) simp
      have "poll_batch poll s1 b1 = (res, s', b')"
        using "1.prems"(1) packet Inr by (simp add: poll_batch.simps [of poll s b])
      with "1.IH" [OF packet(1) packet(2) [symmetric] refl refl Inr _ h] obtain qs t where
        "polled poll s1 qs t" "batch_holds b' ((rs @ [p]) @ qs)" "poll_end_of poll t res s' b'"
        by blast
      with packet show ?thesis
        by (intro exI [where x = "p # qs"] exI [where x = t]) (simp add: polled.one)
    qed
  qed
qed

text \<open>
  C29: the default poll of a batch ends, after at most 256 records: it consumes records from the
  source in order and appends exactly them to the batch, which stays within its bounds, and stops
  because the batch is full, or the source is idle, has ended, has failed, or gave a record of more
  than 65535 bytes, the only one that is not kept.
\<close>

theorem poll_batch_terminates:
  assumes "batch_holds b rs"
  shows "\<exists>res s' b' qs t. poll_batch poll s b = (res, s', b') \<and> polled poll s qs t \<and>
    batch_holds b' (rs @ qs) \<and> length qs \<le> batch_packets - length rs \<and> poll_end_of poll t res s' b'"
proof -
  obtain res s' b' where e: "poll_batch poll s b = (res, s', b')"
    by (metis surj_pair)
  from poll_batch_polls [OF e assms] obtain qs t where
    p: "polled poll s qs t" "batch_holds b' (rs @ qs)" "poll_end_of poll t res s' b'"
    by blast
  then have "length qs \<le> batch_packets - length rs"
    by (simp add: batch_holds_def le_diff_conv2)
  with e p show ?thesis by blast
qed

text \<open>A source with a number of equal records that then ends.\<close>

definition sample_poll :: "nat \<Rightarrow> (unit + poll) \<times> nat" where
  "sample_poll n = (if n = 0 then (Inr Poll_end, 0) else (Inr (Poll_packet sample_record), n - 1))"

theorem batch_refines_list_witness:
  "batch_push (batch_of [sample_record]) 11 999999 9000 [4] =
     (Inr (batch_of [sample_record, \<lparr>rec_seconds = 11, rec_micros = 999999, rec_original = 9000, rec_bytes = [4]\<rparr>])
       :: unit collect_error + packet_batch) \<and>
   batch_record (batch_of [sample_record]) 0 = Some (10, 20, 64, [1, 2, 3])"
proof -
  have h: "batch_holds (batch_of [sample_record]) [sample_record]"
    by (simp add: batch_holds_def small_def sample_record_def batch_packets_def batch_bytes_def)
  have "batch_push (batch_of [sample_record]) 11 999999 9000 [4] =
       (if has_room (batch_of [sample_record]) \<and> length [4 :: u8] \<le> 65535
        then Inr (batch_of ([sample_record] @ [\<lparr>rec_seconds = 11, rec_micros = 999999, rec_original = 9000,
          rec_bytes = [4]\<rparr>])) else Inl (Batch_overflow :: unit collect_error)) \<and>
     batch_range (batch_of [sample_record]) 0 1 = Some (concat (map record_bytes (take (1 - 0) (drop 0 [sample_record])))) \<and>
     batch_record (batch_of [sample_record]) 0 = Some (rec_seconds ([sample_record] ! 0),
       rec_micros ([sample_record] ! 0), rec_original ([sample_record] ! 0), rec_bytes ([sample_record] ! 0))"
    by (rule batch_refines_list [OF h]) simp_all
  moreover have "has_room (batch_of [sample_record])"
    by (simp add: has_room_def batch_packets_def batch_bytes_def sample_record_def)
  ultimately show ?thesis
    by (simp add: sample_record_def)
qed

theorem poll_batch_terminates_witness:
  "\<exists>res s' b' qs t. poll_batch sample_poll 2 batch_new = (res, s', b') \<and> polled sample_poll 2 qs t \<and>
    batch_holds b' qs \<and> length qs \<le> 256 \<and> poll_end_of sample_poll t res s' b'"
  using poll_batch_terminates [OF batch_holds_new, of sample_poll 2] by (simp add: batch_packets_def)

subsection \<open>Options\<close>

record options =
  opt_interface :: "nat list"
  opt_filter :: "nat list"
  opt_snaplen :: nat
  opt_segment_bytes :: nat
  opt_segment_seconds :: nat
  opt_total_bytes :: nat
  opt_duration_seconds :: nat

definition options_default :: options where
  "options_default =
     \<lparr>opt_interface = [], opt_filter = [], opt_snaplen = 2048, opt_segment_bytes = 64 * 1024 * 1024,
      opt_segment_seconds = 60, opt_total_bytes = 4 * 1024 * 1024 * 1024,
      opt_duration_seconds = 24 * 60 * 60\<rparr>"

definition options_validate :: "options \<Rightarrow> 'e collect_error + unit" where
  "options_validate o1 =
     rbind (ensure (opt_interface o1 \<noteq> [] \<and> length (utf8_bytes (opt_interface o1)) \<le> 512
         \<and> \<not> list_ex is_control (opt_interface o1)) No_interface) (\<lambda>_.
     rbind (ensure (length (utf8_bytes (opt_filter o1)) \<le> 512
         \<and> \<not> list_ex is_control (opt_filter o1)) Bad_filter) (\<lambda>_.
       ensure (64 \<le> opt_snaplen o1 \<and> opt_snaplen o1 \<le> 65535
         \<and> 24 + 16 + opt_snaplen o1 \<le> opt_segment_bytes o1
         \<and> opt_segment_bytes o1 \<le> 128 * 1024 * 1024
         \<and> opt_segment_bytes o1 \<le> opt_total_bytes o1
         \<and> opt_total_bytes o1 \<le> 64 * 1024 * 1024 * 1024
         \<and> 1 \<le> opt_segment_seconds o1 \<and> opt_segment_seconds o1 \<le> 3600
         \<and> 1 \<le> opt_duration_seconds o1 \<and> opt_duration_seconds o1 \<le> 7 * 24 * 3600) Bad_limits))"

lemma options_default_valid:
  "options_validate (options_default\<lparr>opt_interface := [101, 116, 104, 48]\<rparr>) = Inr ()"
  by (simp add: options_default_def options_validate_def utf8_bytes_def utf8_char_def is_control_def)

subsection \<open>Driver counters\<close>

record driver_stats =
  ds_received :: u32
  ds_dropped :: u32
  ds_interface_dropped :: u32

record driver_totals =
  dt_received :: u64
  dt_dropped :: u64
  dt_interface_dropped :: u64
  dt_samples :: u64

definition no_stats :: driver_stats where
  "no_stats = \<lparr>ds_received = 0, ds_dropped = 0, ds_interface_dropped = 0\<rparr>"

definition no_totals :: driver_totals where
  "no_totals = \<lparr>dt_received = 0, dt_dropped = 0, dt_interface_dropped = 0, dt_samples = 0\<rparr>"

definition sample_driver ::
    "driver_stats option \<Rightarrow> driver_totals \<times> driver_stats option \<Rightarrow> driver_totals \<times> driver_stats option" where
  "sample_driver sample st =
     (case st of (t, previous) \<Rightarrow>
        (case sample of
           None \<Rightarrow> (t, previous)
         | Some current \<Rightarrow>
             let before = (case previous of None \<Rightarrow> no_stats | Some p \<Rightarrow> p) in
             (\<lparr>dt_received = dt_received t + ucast (ds_received current - ds_received before),
               dt_dropped = dt_dropped t + ucast (ds_dropped current - ds_dropped before),
               dt_interface_dropped =
                 dt_interface_dropped t + ucast (ds_interface_dropped current - ds_interface_dropped before),
               dt_samples = dt_samples t + 1\<rparr>, Some current)))"

definition driver_total :: "driver_totals \<Rightarrow> driver_totals option" where
  "driver_total t = (if 0 < dt_samples t then Some t else None)"

text \<open>What the driver counts, without a bound, and the 32 bits of it that a sample shows.\<close>

definition shown_stats :: "nat \<times> nat \<times> nat \<Rightarrow> driver_stats" where
  "shown_stats c = (case c of (r, d, i) \<Rightarrow>
     \<lparr>ds_received = of_nat r, ds_dropped = of_nat d, ds_interface_dropped = of_nat i\<rparr>)"

definition counted :: "nat \<times> nat \<times> nat \<Rightarrow> nat \<Rightarrow> driver_totals" where
  "counted c n = (case c of (r, d, i) \<Rightarrow>
     \<lparr>dt_received = of_nat r, dt_dropped = of_nat d, dt_interface_dropped = of_nat i, dt_samples = of_nat n\<rparr>)"

text \<open>Between two samples no counter goes back or advances by \<open>2 ^ 32\<close>.\<close>

definition close_count :: "nat \<Rightarrow> nat \<Rightarrow> bool" where
  "close_count a b \<longleftrightarrow> a \<le> b \<and> b < a + 2 ^ 32"

fun close_counts :: "nat \<times> nat \<times> nat \<Rightarrow> (nat \<times> nat \<times> nat) list \<Rightarrow> bool" where
  "close_counts c [] \<longleftrightarrow> True"
| "close_counts (r, d, i) ((r', d', i') # cs) \<longleftrightarrow>
     close_count r r' \<and> close_count d d' \<and> close_count i i' \<and> close_counts (r', d', i') cs"

fun answers :: "driver_stats option list \<Rightarrow> driver_stats list" where
  "answers [] = []"
| "answers (None # ss) = answers ss"
| "answers (Some s # ss) = s # answers ss"

definition sample_all :: "driver_stats option list \<Rightarrow> driver_totals \<times> driver_stats option" where
  "sample_all ss = fold sample_driver ss (no_totals, None)"

lemma wrapped_difference:
  assumes "close_count a b"
  shows "(of_nat a :: u64) + ucast (of_nat b - of_nat a :: u32) = of_nat b"
proof -
  obtain d where b: "b = a + d" "d < 2 ^ 32"
    using assms by (metis close_count_def less_diff_conv2 ordered_cancel_comm_monoid_diff_class.add_diff_inverse add.commute)
  have "(ucast (of_nat d :: u32) :: u64) = of_nat d"
    using b(2) by (simp add: unsigned_of_nat take_bit_nat_eq_self)
  then show ?thesis
    by (simp add: b(1))
qed

definition previous_shown :: "driver_stats option \<Rightarrow> nat \<times> nat \<times> nat \<Rightarrow> bool" where
  "previous_shown p c \<longleftrightarrow> p = Some (shown_stats c) \<or> (p = None \<and> c = (0, 0, 0))"

lemma sample_step:
  assumes "close_counts c [c']" "previous_shown p c"
  shows "sample_driver (Some (shown_stats c')) (counted c n, p)
    = (counted c' (Suc n), Some (shown_stats c'))"
  using assms wrapped_difference wrapped_difference [where a = 0]
  by (cases c; cases c')
    (auto simp: sample_driver_def counted_def shown_stats_def no_stats_def previous_shown_def Let_def add.commute)

lemma close_counts_Cons: "close_counts c (c' # cs) \<longleftrightarrow> close_counts c [c'] \<and> close_counts c' cs"
  by (cases c; cases c') auto

lemma sample_fold:
  assumes "close_counts c cs" "previous_shown p c" "answers ss = map shown_stats cs"
  shows "fst (fold sample_driver ss (counted c n, p)) = counted (last (c # cs)) (n + length cs)"
  using assms
proof (induction ss arbitrary: c cs n p)
  case Nil
  then show ?case by simp
next
  case (Cons s ss)
  show ?case
  proof (cases s)
    case None
    with Cons show ?thesis
      by (simp add: sample_driver_def)
  next
    case (Some x)
    with Cons.prems(3) obtain c' cs' where cs: "cs = c' # cs'" "x = shown_stats c'"
        "answers ss = map shown_stats cs'"
      by (cases cs) auto
    have cc: "close_counts c [c']" "close_counts c' cs'"
      using Cons.prems(1) close_counts_Cons [of c c' cs'] unfolding cs(1) by blast+
    have "sample_driver s (counted c n, p) = (counted c' (Suc n), Some (shown_stats c'))"
      unfolding Some cs(2) by (rule sample_step [OF cc(1) Cons.prems(2)])
    moreover note cc(2)
    ultimately show ?thesis
      using Cons.IH [of c' cs' "Some (shown_stats c')" "Suc n"] cs by (simp add: previous_shown_def)
  qed
qed

text \<open>
  The totals of the driver's counters are exact (modulo \<open>2 ^ 64\<close>) whatever the 32-bit counters
  wrap to, as long as no counter goes back or advances by \<open>2 ^ 32\<close> between two samples; samples
  without an answer change nothing, and without any answer there are no totals.
\<close>

theorem driver_totals_exact:
  assumes "close_counts (0, 0, 0) cs" "answers ss = map shown_stats cs" "length cs < 2 ^ 64"
  shows "driver_total (fst (sample_all ss)) =
    (if cs = [] then None else Some (counted (last cs) (length cs)))"
proof -
  have "counted (0, 0, 0) 0 = no_totals"
    by (simp add: counted_def no_totals_def)
  then have e: "fst (sample_all ss) = counted (last ((0, 0, 0) # cs)) (length cs)"
    using sample_fold [OF assms(1) _ assms(2), of None 0]
    by (simp add: sample_all_def previous_shown_def)
  have "\<not> (2 ^ 64 :: nat) dvd length cs" if "cs \<noteq> []"
    using assms(3) that by (intro nat_dvd_not_less) auto
  then have "0 < (of_nat (length cs) :: u64) \<longleftrightarrow> cs \<noteq> []"
    by (auto simp: word_greater_zero_iff word_of_nat_eq_0_iff)
  with e show ?thesis
    by (auto simp: driver_total_def counted_def split: prod.splits)
qed

theorem driver_totals_exact_witness:
  "driver_total (fst (sample_all
     [Some (shown_stats (4294967292, 4294967294, 5)), None, Some (shown_stats (4294967303, 4294967300, 9))]))
   = Some (counted (4294967303, 4294967300, 9) (Suc 1))"
  using driver_totals_exact [of "[(4294967292, 4294967294, 5), (4294967303, 4294967300, 9)]"
    "[Some (shown_stats (4294967292, 4294967294, 5)), None, Some (shown_stats (4294967303, 4294967300, 9))]"]
  by (simp add: close_count_def)

end
