(* ===== verification/Collector.thy ===== *)
theory Collector
  imports Batch Effects
begin

text \<open>
  The writing half of \<open>crates/netlane-capture/src/collection.rs\<close>: segments (\<open>Writer\<close>), and the loop of
  \<open>run\<close> that takes batches from the channel, rotates segments by size and by age, and stops at a
  request or a limit. What the loop reads from outside is an argument: the stop flag and the clock are
  functions of the number of reads so far, a fallible operation fails when \<open>ce_fault\<close> says so for its
  number, and the channel is the list of what each \<open>recv_timeout\<close> returned.
\<close>

record collect_env =
  ce_stop :: "nat \<Rightarrow> bool"
  ce_clock :: "nat \<Rightarrow> nat"
  ce_fault :: "nat \<Rightarrow> bool"
  ce_began :: nat
  ce_link :: nat

text \<open>What goes wrong when a segment is published.\<close>

datatype close_failure = Flush_failed | Sync_failed | Hash_worker_failed | Target_exists | Rename_failed

datatype publish_error = Publishing_stopped | Close_failed close_failure | Workers_failed

datatype 'e stop_reason =
    Source_ended | Stop_requested | Duration_limit | Segment_limit | Disk_limit
  | Failed "'e collect_error" | Unpublished publish_error

subsection \<open>Segments\<close>

record writer =
  w_index :: nat
  w_file :: "u8 list"
  w_hashed :: "u8 list"
  w_bytes :: nat
  w_packets :: nat
  w_started :: nat

record 'e collecting =
  co_ticks :: nat
  co_io :: nat
  co_writer :: "writer option"
  co_scheduled :: nat
  co_closed :: "writer list"
  co_bytes :: nat
  co_buffered :: nat
  co_reason :: "'e stop_reason"
  co_source_closed :: bool
  co_driver :: "driver_stats option"

definition collecting_new :: "'e collecting" where
  "collecting_new =
     \<lparr>co_ticks = 0, co_io = 0, co_writer = None, co_scheduled = 0, co_closed = [], co_bytes = 0,
      co_buffered = 0, co_reason = Source_ended, co_source_closed = False, co_driver = None\<rparr>"

type_synonym ('e, 'a) collect = "('e collecting, 'e collect_error, 'a) action"

definition read_stop :: "collect_env \<Rightarrow> ('e, bool) collect" where
  "read_stop env st = (Inr (ce_stop env (co_ticks st)), st\<lparr>co_ticks := co_ticks st + 1\<rparr>)"

definition read_clock :: "collect_env \<Rightarrow> ('e, nat) collect" where
  "read_clock env st = (Inr (ce_clock env (co_ticks st)), st\<lparr>co_ticks := co_ticks st + 1\<rparr>)"

text \<open>\<open>Instant::elapsed().as_secs()\<close>, which saturates at zero.\<close>

definition elapsed_secs :: "nat \<Rightarrow> nat \<Rightarrow> nat" where
  "elapsed_secs since now = (now - since) div 1000000000"

definition fallible :: "collect_env \<Rightarrow> 'e collect_error \<Rightarrow> ('e, unit) collect" where
  "fallible env e st =
     (if ce_fault env (co_io st) then Inl e else Inr (), st\<lparr>co_io := co_io st + 1\<rparr>)"

definition give_up :: "'e stop_reason \<Rightarrow> 'a \<Rightarrow> ('e, 'a) collect" where
  "give_up why x st = (Inr x, st\<lparr>co_reason := why\<rparr>)"

text \<open>\<open>Writer::write\<close>: the file first, then the hash; the count only when both took the bytes.\<close>

definition writer_write ::
    "collect_env \<Rightarrow> u8 list \<Rightarrow> writer \<times> 'e collecting \<Rightarrow> ('e collect_error + unit) \<times> writer \<times> 'e collecting" where
  "writer_write env bytes = (\<lambda>(w, st).
     (case fallible env (Disk_failed (co_io st)) st of
        (Inl e, st) \<Rightarrow> (Inl e, w, st)
      | (Inr _, st) \<Rightarrow>
          let w = w\<lparr>w_file := w_file w @ bytes\<rparr> in
          (case fallible env (Disk_failed (co_io st)) st of
             (Inl e, st) \<Rightarrow> (Inl e, w, st)
           | (Inr _, st) \<Rightarrow>
               (Inr (), w\<lparr>w_hashed := w_hashed w @ bytes, w_bytes := w_bytes w + length bytes\<rparr>, st))))"

definition segment_header :: "nat \<Rightarrow> nat \<Rightarrow> u8 list" where
  "segment_header snaplen link =
     le_bytes 4 0xa1b2c3d4 @ le_bytes 2 2 @ le_bytes 2 4 @ replicate 8 0
       @ le_bytes 4 snaplen @ le_bytes 4 link"

definition writer_open :: "collect_env \<Rightarrow> nat \<Rightarrow> nat \<Rightarrow> ('e, writer) collect" where
  "writer_open env index snaplen =
     sbind (\<lambda>st. fallible env (Disk_failed (co_io st)) st) (\<lambda>_.
     sbind (\<lambda>st. fallible env (Disk_failed (co_io st)) st) (\<lambda>_.
     sbind (read_clock env) (\<lambda>now st.
       case writer_write env (segment_header snaplen (ce_link env))
              (\<lparr>w_index = index, w_file = [], w_hashed = [], w_bytes = 0, w_packets = 0, w_started = now\<rparr>, st) of
         (Inl e, w, st) \<Rightarrow> (Inl e, st)
       | (Inr _, w, st) \<Rightarrow> (Inr w, st))))"

text \<open>The check of \<open>Writer::packets\<close>: how many records, up to where they are valid.\<close>

datatype scanned = Scan_valid nat | Scan_invalid nat nat | Scan_panic

function scan_records :: "nat \<Rightarrow> u8 list \<Rightarrow> nat \<Rightarrow> nat \<Rightarrow> scanned" where
  "scan_records snaplen records offset count =
     (if offset < length records then
        (case slice records offset (offset + 16) of
           None \<Rightarrow> Scan_panic
         | Some h \<Rightarrow>
             let captured = e_u32 True (drop 8 h) in
             if e_u32 True (drop 4 h) < 1000000 \<and> 0 < captured \<and> captured \<le> snaplen
                \<and> captured \<le> e_u32 True (drop 12 h)
             then scan_records snaplen records (offset + 16 + captured) (count + 1)
             else Scan_invalid offset count)
      else Scan_valid count)"
  by pat_completeness auto
termination
  by (relation "measure (\<lambda>(snaplen, records, offset, count). length records - offset)") auto

declare scan_records.simps [simp del]

definition writer_packets ::
    "collect_env \<Rightarrow> u8 list \<Rightarrow> nat \<Rightarrow> writer \<times> 'e collecting
     \<Rightarrow> ('e collect_error + unit) \<times> writer \<times> 'e collecting" where
  "writer_packets env records snaplen s =
     (case scan_records snaplen records 0 0 of
        Scan_panic \<Rightarrow> (Inl Out_of_range, s)
      | Scan_invalid offset n \<Rightarrow>
          (case writer_write env (take offset records) s of
             (Inl e, s) \<Rightarrow> (Inl e, s)
           | (Inr _, w, st) \<Rightarrow> (Inl Invalid_record, w\<lparr>w_packets := w_packets w + n\<rparr>, st))
      | Scan_valid n \<Rightarrow>
          (case writer_write env records s of
             (Inl e, s) \<Rightarrow> (Inl e, s)
           | (Inr _, w, st) \<Rightarrow> (Inr (), w\<lparr>w_packets := w_packets w + n\<rparr>, st)))"

subsection \<open>The loop\<close>

text \<open>\<open>close_segment\<close>: the writer goes to the finalizer; it is gone as well when that fails.\<close>

definition close_segment :: "collect_env \<Rightarrow> writer \<Rightarrow> ('e, unit) collect" where
  "close_segment env w =
     sbind (fallible env Publication_failed) (\<lambda>_ st.
       (Inr (), st\<lparr>co_closed := co_closed st @ [w], co_scheduled := co_scheduled st + 1\<rparr>))"

definition close_if :: "collect_env \<Rightarrow> (writer \<Rightarrow> bool) \<Rightarrow> ('e, unit) collect" where
  "close_if env p st =
     (case co_writer st of
        None \<Rightarrow> (Inr (), st)
      | Some w \<Rightarrow> if p w then close_segment env w (st\<lparr>co_writer := None\<rparr>) else (Inr (), st))"

text \<open>The segment that takes the next record, opened when there is none; \<open>None\<close> at a limit.\<close>

definition writer_for :: "collect_env \<Rightarrow> options \<Rightarrow> nat \<Rightarrow> ('e, writer option) collect" where
  "writer_for env opts need st =
     (case co_writer st of
        Some w \<Rightarrow> (Inr (Some w), st)
      | None \<Rightarrow>
          if max_segments \<le> co_scheduled st then give_up Segment_limit None st
          else if opt_total_bytes opts < co_bytes st + 24 + need then give_up Disk_limit None st
          else
            (case writer_open env (co_scheduled st + 1) (opt_snaplen opts) st of
               (Inl e, st) \<Rightarrow> (Inl e, st)
             | (Inr w, st) \<Rightarrow> (Inr (Some w), st\<lparr>co_writer := Some w\<rparr>)))"

text \<open>The longest run of records from \<open>index\<close> within \<open>remaining\<close> bytes.\<close>

function run_end :: "packet_batch \<Rightarrow> nat \<Rightarrow> nat \<Rightarrow> nat \<Rightarrow> nat" where
  "run_end b index remaining stop =
     (if stop < batch_len b \<and>
         (case batch_range b index (stop + 1) of None \<Rightarrow> False | Some r \<Rightarrow> length r \<le> remaining)
      then run_end b index remaining (stop + 1)
      else stop)"
  by pat_completeness auto
termination
  by (relation "measure (\<lambda>(b, index, remaining, stop). batch_len b - stop)") auto

declare run_end.simps [simp del]

definition room_in :: "options \<Rightarrow> writer \<Rightarrow> 'e collecting \<Rightarrow> nat" where
  "room_in opts w st =
     min (opt_segment_bytes opts - w_bytes w)
         (opt_total_bytes opts - (co_bytes st + (if w_packets w = 0 then 24 else 0)))"

definition write_run ::
    "collect_env \<Rightarrow> options \<Rightarrow> packet_batch \<Rightarrow> nat \<Rightarrow> nat \<Rightarrow> writer \<Rightarrow> ('e, nat option) collect" where
  "write_run env opts b index need w st =
     (let header = (if w_packets w = 0 then 24 else 0); remaining = room_in opts w st in
      if remaining < need then give_up Disk_limit None st
      else
        (let stop = run_end b index remaining (index + 1) in
         case batch_range b index stop of
           None \<Rightarrow> (Inl Out_of_range, st)
         | Some records \<Rightarrow>
             (case writer_packets env records (opt_snaplen opts) (w, st) of (r, w', st) \<Rightarrow>
                let accepted = w_packets w' - w_packets w in
                (case r of Inl e \<Rightarrow> Inl e | Inr _ \<Rightarrow> Inr (Some stop),
                 st\<lparr>co_writer := Some w',
                    co_bytes := co_bytes st + (w_bytes w' - w_bytes w + (if 0 < accepted then header else 0)),
                    co_buffered := co_buffered st + accepted\<rparr>))))"

definition stop_or_late :: "collect_env \<Rightarrow> options \<Rightarrow> ('e, bool) collect" where
  "stop_or_late env opts =
     sbind (read_stop env) (\<lambda>stopped.
       if stopped then give_up Stop_requested True
       else sbind (read_clock env) (\<lambda>now.
         if opt_duration_seconds opts \<le> elapsed_secs (ce_began env) now then give_up Duration_limit True
         else spure (Inr False)))"

text \<open>One round of the loop over a batch: the index after the records written, \<open>None\<close> to stop.\<close>

definition collect_slice ::
    "collect_env \<Rightarrow> options \<Rightarrow> packet_batch \<Rightarrow> nat \<Rightarrow> ('e, nat option) collect" where
  "collect_slice env opts b index =
     sbind (stop_or_late env opts) (\<lambda>over.
       if over then spure (Inr None)
       else
         sbind (spure (ok_or (batch_range b index (index + 1)) Out_of_range)) (\<lambda>r.
         sbind (close_if env (\<lambda>w. opt_segment_bytes opts < w_bytes w + length r \<and> 0 < w_packets w)) (\<lambda>_.
         sbind (writer_for env opts (length r)) (\<lambda>w.
           case w of
             None \<Rightarrow> spure (Inr None)
           | Some w \<Rightarrow> write_run env opts b index (length r) w))))"

lemma run_end_ge: "stop \<le> run_end b index remaining stop"
proof (induction b index remaining stop rule: run_end.induct)
  case (1 b index remaining stop)
  then show ?case
    by (subst run_end.simps) (auto dest: Suc_leD split: if_splits)
qed

lemma give_up_Inr [simp]: "give_up why x st = (Inr y, st') \<longleftrightarrow> y = x \<and> st' = st\<lparr>co_reason := why\<rparr>"
  by (auto simp: give_up_def)

lemma write_run_forward:
  assumes "write_run env opts b index need w st = (Inr (Some j), st')"
  shows "index < j"
proof -
  have "j = run_end b index (room_in opts w st) (index + 1)"
    using assms
    by (simp add: write_run_def Let_def split: if_splits option.splits prod.splits sum.splits)
  with run_end_ge [of "index + 1" b index] show ?thesis
    by (simp add: Suc_le_eq)
qed

lemma collect_slice_forward:
  "collect_slice env opts b index st = (Inr (Some j), st') \<Longrightarrow> index < j"
  by (auto simp: collect_slice_def result_simps split: if_splits option.splits dest: write_run_forward)

function collect_batch ::
    "collect_env \<Rightarrow> options \<Rightarrow> packet_batch \<Rightarrow> nat \<Rightarrow> ('e, bool) collect" where
  "collect_batch env opts b index st =
     (if index < batch_len b then
        (case collect_slice env opts b index st of
           (Inl e, st) \<Rightarrow> (Inl e, st)
         | (Inr None, st) \<Rightarrow> (Inr False, st)
         | (Inr (Some j), st) \<Rightarrow> collect_batch env opts b j st)
      else (Inr True, st))"
  by pat_completeness auto
termination
  by (relation "measure (\<lambda>(env, opts, b, index, st). batch_len b - index)")
    (auto dest: collect_slice_forward [OF sym])

declare collect_batch.simps [simp del]

text \<open>What \<open>recv_timeout\<close> returns.\<close>

datatype arrival = Arrived packet_batch | Timed_out | Disconnected

definition rotate_aged :: "collect_env \<Rightarrow> options \<Rightarrow> ('e, unit) collect" where
  "rotate_aged env opts st =
     (case co_writer st of
        None \<Rightarrow> (Inr (), st)
      | Some w \<Rightarrow>
          if w_packets w = 0 then (Inr (), st)
          else sbind (read_clock env) (\<lambda>now.
            close_if env (\<lambda>w. opt_segment_seconds opts \<le> elapsed_secs (w_started w) now)) st)"

definition collect_turn :: "collect_env \<Rightarrow> options \<Rightarrow> arrival \<Rightarrow> ('e, bool) collect" where
  "collect_turn env opts a =
     sbind (stop_or_late env opts) (\<lambda>over.
       if over then spure (Inr False)
       else
         sbind (rotate_aged env opts) (\<lambda>_.
         case a of
           Arrived b \<Rightarrow> collect_batch env opts b 0
         | Timed_out \<Rightarrow> spure (Inr True)
         | Disconnected \<Rightarrow>
             sbind (read_stop env) (\<lambda>stopped.
               if stopped then give_up Stop_requested False else spure (Inr False))))"

text \<open>True when the loop still waits for the channel.\<close>

fun collect_loop :: "collect_env \<Rightarrow> options \<Rightarrow> arrival list \<Rightarrow> ('e, bool) collect" where
  "collect_loop env opts [] st = (Inr True, st)"
| "collect_loop env opts (a # as) st =
     (case collect_turn env opts a st of
        (Inl e, st) \<Rightarrow> (Inl e, st)
      | (Inr False, st) \<Rightarrow> (Inr False, st)
      | (Inr True, st) \<Rightarrow> collect_loop env opts as st)"

text \<open>
  The rest of \<open>run\<close> around the loop, with \<open>closed\<close> the result of \<open>Producer::finish\<close>: the first segment is
  open before the first packet, and the last one is published unless the loop failed.
\<close>

definition collect_core ::
    "collect_env \<Rightarrow> options \<Rightarrow> arrival list \<Rightarrow> 'e collect_error + driver_stats option \<Rightarrow> ('e, unit) collect" where
  "collect_core env opts arrivals closed =
     sbind (writer_open env 1 (opt_snaplen opts)) (\<lambda>w st.
       case collect_loop env opts arrivals (st\<lparr>co_writer := Some w\<rparr>) of (writing, st) \<Rightarrow>
         let st = st\<lparr>co_source_closed := True\<rparr> in
         sbind (if is_ok writing then close_if env (\<lambda>_. True) else spure (Inr ())) (\<lambda>_ st.
           case closed of
             Inl e \<Rightarrow> (if is_ok writing then Inl e else rbind writing (\<lambda>_. Inr ()), st)
           | Inr stats \<Rightarrow> (rbind writing (\<lambda>_. Inr ()), st\<lparr>co_driver := stats\<rparr>)) st)"

end
