(* ===== verification/Collector_Facts.thy ===== *)
theory Collector_Facts
  imports Collector "HOL-Library.Sublist"
begin

text \<open>
  What the writing loop keeps: every published segment is a PCAP header followed by exactly the records
  it counts, all of them valid; the segments and the open one together hold a prefix of what the channel
  delivered, in order; and the limits on a segment, on the disk and on the number of segments hold after
  every step, errors included.
\<close>

subsection \<open>Records\<close>

definition valid_record :: "nat \<Rightarrow> captured \<Rightarrow> bool" where
  "valid_record snaplen r \<longleftrightarrow>
     unat (rec_micros r) < 1000000 \<and> 0 < length (rec_bytes r) \<and> length (rec_bytes r) \<le> snaplen \<and>
     length (rec_bytes r) \<le> unat (rec_original r)"

definition valid_prefix :: "nat \<Rightarrow> captured list \<Rightarrow> captured list" where
  "valid_prefix snaplen rs = takeWhile (valid_record snaplen) rs"

lemma small_mod: "small r \<Longrightarrow> length (rec_bytes r) mod 4294967296 = length (rec_bytes r)"
  by (simp add: small_def)

lemma header_fields:
  assumes "small r"
  shows "e_u32 True (drop 8 (take 16 (record_bytes r @ d))) = length (rec_bytes r)"
    "e_u32 True (drop 4 (take 16 (record_bytes r @ d))) = unat (rec_micros r)"
    "e_u32 True (drop 12 (take 16 (record_bytes r @ d))) = unat (rec_original r)"
  using small_mod [OF assms] by (simp_all add: record_bytes_def)

lemma scan_step:
  assumes "small r"
  shows "scan_records snap (a @ record_bytes r @ d) (length a) n =
    (if valid_record snap r then scan_records snap (a @ record_bytes r @ d) (length (a @ record_bytes r)) (Suc n)
     else Scan_invalid (length a) n)"
  using header_fields [OF assms, of d]
  by (subst scan_records.simps) (simp add: slice_def valid_record_def Let_def add.assoc)

lemma scan_records_from:
  assumes "list_all small qs"
  shows "scan_records snap (a @ records_bytes qs) (length a) n =
    (let p = valid_prefix snap qs in
     if p = qs then Scan_valid (n + length qs)
     else Scan_invalid (length a + length (records_bytes p)) (n + length p))"
  using assms
proof (induction qs arbitrary: a n)
  case Nil
  then show ?case by (subst scan_records.simps) (simp add: valid_prefix_def)
next
  case (Cons q qs)
  have "scan_records snap ((a @ record_bytes q) @ records_bytes qs) (length (a @ record_bytes q)) (Suc n) =
    (let p = valid_prefix snap qs in
     if p = qs then Scan_valid (Suc n + length qs)
     else Scan_invalid (length (a @ record_bytes q) + length (records_bytes p)) (Suc n + length p))"
    using Cons.prems by (intro Cons.IH) simp
  with scan_step [of q snap a "records_bytes qs" n] Cons.prems show ?case
    by (simp add: Let_def valid_prefix_def)
qed

lemma scan_records_all:
  "list_all small qs \<Longrightarrow> scan_records snap (records_bytes qs) 0 0 =
    (let p = valid_prefix snap qs in
     if p = qs then Scan_valid (length qs) else Scan_invalid (length (records_bytes p)) (length p))"
  using scan_records_from [of qs snap "[]" 0] by (simp add: Let_def)

lemma valid_prefix_prefix: "prefix (valid_prefix snap qs) qs"
  unfolding valid_prefix_def by (metis prefixI takeWhile_dropWhile_id)

lemma valid_prefix_valid: "list_all (valid_record snap) (valid_prefix snap qs)"
  by (auto simp: list_all_iff valid_prefix_def dest: set_takeWhileD)

lemma take_of_prefix: "prefix p qs \<Longrightarrow> take (length (records_bytes p)) (records_bytes qs) = records_bytes p"
  by (auto simp: prefix_def)

subsection \<open>Segments\<close>

definition segment_data :: "collect_env \<Rightarrow> options \<Rightarrow> captured list \<Rightarrow> u8 list" where
  "segment_data env opts rs = segment_header (opt_snaplen opts) (ce_link env) @ records_bytes rs"

lemma length_segment_header [simp]: "length (segment_header snap link) = 24"
  by (simp add: segment_header_def)

lemma length_segment_data [simp]: "length (segment_data env opts rs) = 24 + length (records_bytes rs)"
  by (simp add: segment_data_def)

text \<open>
  A writer that has accepted the records \<open>rs\<close>; after a failed write only its counts are still right.
\<close>

definition writer_is :: "bool \<Rightarrow> collect_env \<Rightarrow> options \<Rightarrow> writer \<Rightarrow> captured list \<Rightarrow> bool" where
  "writer_is sound env opts w rs \<longleftrightarrow>
     w_bytes w = 24 + length (records_bytes rs) \<and> w_packets w = length rs \<and>
     list_all (valid_record (opt_snaplen opts)) rs \<and>
     (sound \<longrightarrow> w_file w = segment_data env opts rs \<and> w_hashed w = segment_data env opts rs)"

lemma writer_is_weaken: "writer_is True env opts w rs \<Longrightarrow> writer_is sound env opts w rs"
  by (simp add: writer_is_def)

lemma fallible_cases:
  "fallible env e st = (r, st') \<Longrightarrow> st' = st\<lparr>co_io := co_io st + 1\<rparr> \<and> (r = Inl e \<or> r = Inr ())"
  by (auto simp: fallible_def split: if_splits)

lemma writer_write_cases:
  assumes "writer_write env bytes (w, st) = (r, w', st')"
  shows "\<exists>k. st' = st\<lparr>co_io := k\<rparr> \<and>
    (r = Inr () \<and> w' = w\<lparr>w_file := w_file w @ bytes, w_hashed := w_hashed w @ bytes, w_bytes := w_bytes w + length bytes\<rparr>
     \<or> (\<exists>e f. r = Inl e \<and> w' = w\<lparr>w_file := f\<rparr>))"
  using assms by (cases w) (auto simp: writer_write_def fallible_def Let_def split: if_splits)

lemma writer_open_cases:
  assumes "writer_open env index (opt_snaplen opts) st = (r, st')"
  shows "(\<exists>i k. st' = st\<lparr>co_ticks := i, co_io := k\<rparr>) \<and>
    (case r of Inl e \<Rightarrow> True | Inr w \<Rightarrow> writer_is True env opts w [] \<and> w_index w = index)"
  using assms
  by (cases st) (auto simp: writer_open_def sbind_def fallible_def read_clock_def writer_write_def Let_def
      writer_is_def segment_data_def split: if_splits prod.splits sum.splits)

text \<open>What \<open>Writer::packets\<close> accepts: everything, the valid prefix, or nothing when a write fails.\<close>

lemma writer_packets_cases:
  assumes p: "writer_packets env (records_bytes qs) (opt_snaplen opts) (w, st) = (r, w', st')"
    and w: "writer_is True env opts w rs" and qs: "list_all small qs"
  shows "\<exists>k q. st' = st\<lparr>co_io := k\<rparr> \<and> prefix q qs \<and> writer_is (is_ok r) env opts w' (rs @ q) \<and>
    w_index w' = w_index w \<and> (is_ok r \<longrightarrow> q = qs)"
proof -
  let ?v = "valid_prefix (opt_snaplen opts) qs"
  have v: "prefix ?v qs" by (rule valid_prefix_prefix)
  have va: "list_all (valid_record (opt_snaplen opts)) ?v"
    by (rule valid_prefix_valid)
  let ?data = "records_bytes ?v"
  obtain r1 w1 st1 where wr: "writer_write env ?data (w, st) = (r1, w1, st1)"
    by (metis surj_pair)
  have sc: "scan_records (opt_snaplen opts) (records_bytes qs) 0 0 =
      (if ?v = qs then Scan_valid (length qs) else Scan_invalid (length ?data) (length ?v))"
    using scan_records_all [OF qs] by (simp add: Let_def)
  have eq: "(r, w', st') = (case r1 of Inl e \<Rightarrow> (Inl e, w1, st1)
      | Inr _ \<Rightarrow> (if ?v = qs then Inr () else Inl Invalid_record, w1\<lparr>w_packets := w_packets w1 + length ?v\<rparr>, st1))"
    using p wr take_of_prefix [OF v] by (auto simp: writer_packets_def sc split: if_splits sum.splits)
  obtain k where k: "st1 = st\<lparr>co_io := k\<rparr>"
    using writer_write_cases [OF wr] by blast
  show ?thesis
  proof (cases r1)
    case (Inl e)
    then have "w_bytes w1 = w_bytes w" "w_packets w1 = w_packets w" "w_index w1 = w_index w"
      using writer_write_cases [OF wr] by auto
    with Inl eq w k show ?thesis
      by (intro exI [where x = k] exI [where x = "[]"]) (simp add: writer_is_def)
  next
    case (Inr u)
    then have "w1 = w\<lparr>w_file := w_file w @ ?data, w_hashed := w_hashed w @ ?data, w_bytes := w_bytes w + length ?data\<rparr>"
      using writer_write_cases [OF wr] by auto
    with Inr eq w k v va show ?thesis
      by (intro exI [where x = k] exI [where x = ?v]) (auto simp: writer_is_def segment_data_def)
  qed
qed

subsection \<open>The invariant of the loop\<close>

text \<open>The records of the closed segments and of the open one.\<close>

definition all_segments :: "captured list list \<Rightarrow> captured list option \<Rightarrow> captured list list" where
  "all_segments ss cur = ss @ (case cur of None \<Rightarrow> [] | Some rs \<Rightarrow> [rs])"

definition seg_cost :: "captured list \<Rightarrow> nat" where
  "seg_cost rs = (if rs = [] then 0 else 24 + length (records_bytes rs))"

definition writer_matches ::
    "bool \<Rightarrow> collect_env \<Rightarrow> options \<Rightarrow> nat \<Rightarrow> writer option \<Rightarrow> captured list option \<Rightarrow> bool" where
  "writer_matches sound env opts index wo cur \<longleftrightarrow>
     (wo = None \<and> (cur = None \<or> \<not> sound)) \<or>
     (\<exists>w rs. wo = Some w \<and> cur = Some rs \<and> writer_is sound env opts w rs \<and> w_index w = index)"

definition coll_inv ::
    "bool \<Rightarrow> collect_env \<Rightarrow> options \<Rightarrow> captured list list \<Rightarrow> captured list option \<Rightarrow> 'e collecting \<Rightarrow> bool" where
  "coll_inv sound env opts ss cur st \<longleftrightarrow>
     list_all2 (writer_is True env opts) (co_closed st) ss \<and>
     map w_index (co_closed st) = [1..<Suc (length ss)] \<and> co_scheduled st = length ss \<and>
     writer_matches sound env opts (Suc (length ss)) (co_writer st) cur \<and>
     co_bytes st = (\<Sum>rs\<leftarrow>all_segments ss cur. seg_cost rs) \<and> co_bytes st \<le> opt_total_bytes opts \<and>
     co_buffered st = length (concat (all_segments ss cur)) \<and>
     list_all (\<lambda>rs. 24 + length (records_bytes rs) \<le> opt_segment_bytes opts) (all_segments ss cur) \<and>
     length (all_segments ss cur) \<le> max_segments"

lemma all_segments_simps [simp]:
  "all_segments ss None = ss" "all_segments ss (Some rs) = ss @ [rs]"
  by (simp_all add: all_segments_def)

lemma coll_inv_outside [simp]:
  "coll_inv sound env opts ss cur (st\<lparr>co_ticks := i\<rparr>) = coll_inv sound env opts ss cur st"
  "coll_inv sound env opts ss cur (st\<lparr>co_io := k\<rparr>) = coll_inv sound env opts ss cur st"
  "coll_inv sound env opts ss cur (st\<lparr>co_reason := r\<rparr>) = coll_inv sound env opts ss cur st"
  "coll_inv sound env opts ss cur (st\<lparr>co_source_closed := b\<rparr>) = coll_inv sound env opts ss cur st"
  "coll_inv sound env opts ss cur (st\<lparr>co_driver := d\<rparr>) = coll_inv sound env opts ss cur st"
  by (simp_all add: coll_inv_def)

lemma coll_inv_weaken: "coll_inv True env opts ss cur st \<Longrightarrow> coll_inv sound env opts ss cur st"
  by (auto simp: coll_inv_def writer_matches_def intro: writer_is_weaken)

lemma coll_inv_writer:
  assumes "coll_inv True env opts ss cur st"
  shows "co_writer st = None \<and> cur = None \<or>
    (\<exists>w rs. co_writer st = Some w \<and> cur = Some rs \<and> writer_is True env opts w rs)"
  using assms by (auto simp: coll_inv_def writer_matches_def)

text \<open>What one step does to the records: it may move the open segment to the closed ones, and adds \<open>p\<close>.\<close>

definition grows ::
    "bool \<Rightarrow> collect_env \<Rightarrow> options \<Rightarrow> captured list \<Rightarrow> captured list \<Rightarrow> 'e collecting \<Rightarrow> bool" where
  "grows sound env opts old p st \<longleftrightarrow>
     (\<exists>ss cur. coll_inv sound env opts ss cur st \<and> concat (all_segments ss cur) = old @ p)"

lemma close_if_grows:
  assumes "close_if env q st = (r, st')" "coll_inv True env opts ss cur st"
  shows "\<exists>ss' cur'. coll_inv (is_ok r) env opts ss' cur' st' \<and>
    concat (all_segments ss' cur') = concat (all_segments ss cur) \<and>
    (is_ok r \<longrightarrow> (cur' = None \<longleftrightarrow> cur = None \<or> (\<exists>w. co_writer st = Some w \<and> q w)))"
proof (cases "\<exists>w. co_writer st = Some w \<and> q w")
  case False
  then have "r = Inr ()" "st' = st"
    using assms(1) by (auto simp: close_if_def split: option.splits if_splits)
  with False assms(2) show ?thesis
    by (intro exI [where x = ss] exI [where x = cur]) auto
next
  case True
  then obtain w where w: "co_writer st = Some w" "q w" by blast
  then obtain rs where rs: "cur = Some rs" "writer_is True env opts w rs" "w_index w = Suc (length ss)"
    using assms(2) by (auto simp: coll_inv_def writer_matches_def)
  show ?thesis
  proof (cases r)
    case (Inl e)
    then have "st' = st\<lparr>co_writer := None, co_io := co_io st + 1\<rparr>"
      using assms(1) w by (auto simp: close_if_def close_segment_def sbind_def fallible_def split: if_splits)
    with Inl assms(2) show ?thesis
      by (intro exI [where x = ss] exI [where x = cur]) (auto simp: coll_inv_def writer_matches_def)
  next
    case (Inr u)
    then have "st' = st\<lparr>co_writer := None, co_io := co_io st + 1, co_closed := co_closed st @ [w],
        co_scheduled := co_scheduled st + 1\<rparr>"
      using assms(1) w by (auto simp: close_if_def close_segment_def sbind_def fallible_def split: if_splits)
    with Inr assms(2) rs w show ?thesis
      by (intro exI [where x = "ss @ [rs]"] exI [where x = None])
        (auto simp: coll_inv_def writer_matches_def intro!: list_all2_appendI)
  qed
qed

text \<open>An open segment for the next record.\<close>

lemma writer_for_grows:
  assumes "writer_for env opts need st = (r, st')" "coll_inv True env opts ss cur st"
    and "24 \<le> opt_segment_bytes opts"
  shows "\<exists>cur'. coll_inv (is_ok r) env opts ss cur' st' \<and>
    concat (all_segments ss cur') = concat (all_segments ss cur) \<and>
    (case r of Inr (Some w) \<Rightarrow> co_writer st' = Some w | _ \<Rightarrow> True)"
proof (cases "co_writer st")
  case (Some w)
  with assms show ?thesis
    by (intro exI [where x = cur]) (auto simp: writer_for_def)
next
  case None
  then have cur: "cur = None"
    using coll_inv_writer [OF assms(2)] by auto
  show ?thesis
  proof (cases "co_scheduled st < max_segments \<and> co_bytes st + 24 + need \<le> opt_total_bytes opts")
    case False
    then have "\<exists>why. st' = st\<lparr>co_reason := why\<rparr>" "r = Inr None"
      using assms(1) None by (auto simp: writer_for_def give_up_def split: if_splits)
    with assms(2) show ?thesis
      by (intro exI [where x = cur]) auto
  next
    case True
    obtain r1 st1 where o1: "writer_open env (co_scheduled st + 1) (opt_snaplen opts) st = (r1, st1)"
      by (metis surj_pair)
    obtain i k where st1: "st1 = st\<lparr>co_ticks := i, co_io := k\<rparr>"
      and w1: "case r1 of Inl e \<Rightarrow> True | Inr w \<Rightarrow> writer_is True env opts w [] \<and> w_index w = co_scheduled st + 1"
      using writer_open_cases [OF o1] by blast
    have eq: "(r, st') = (case r1 of Inl e \<Rightarrow> (Inl e, st1) | Inr w \<Rightarrow> (Inr (Some w), st1\<lparr>co_writer := Some w\<rparr>))"
      using assms(1) None True o1 by (simp add: writer_for_def split: sum.splits)
    show ?thesis
    proof (cases r1)
      case (Inl e)
      with eq st1 assms(2) show ?thesis
        by (intro exI [where x = cur]) (auto intro: coll_inv_weaken)
    next
      case (Inr w)
      with eq st1 w1 assms True cur show ?thesis
        by (intro exI [where x = "Some []"])
          (auto simp: coll_inv_def writer_matches_def seg_cost_def)
    qed
  qed
qed

lemma run_end_facts:
  assumes "i < stop" "stop \<le> length rs" "length (records_bytes (take (stop - i) (drop i rs))) \<le> remaining"
  shows "stop \<le> run_end (batch_of rs) i remaining stop \<and> run_end (batch_of rs) i remaining stop \<le> length rs \<and>
    length (records_bytes (take (run_end (batch_of rs) i remaining stop - i) (drop i rs))) \<le> remaining"
  using assms
proof (induction "batch_of rs" i remaining stop rule: run_end.induct)
  case (1 i remaining stop)
  show ?case
  proof (cases "stop < length rs \<and> length (records_bytes (take (stop + 1 - i) (drop i rs))) \<le> remaining")
    case True
    then have "batch_range (batch_of rs) i (stop + 1) = Some (records_bytes (take (stop + 1 - i) (drop i rs)))"
      using "1.prems" by (intro batch_range_of) auto
    with True 1 show ?thesis
      by (subst (1 2 3) run_end.simps) auto
  next
    case False
    moreover have "batch_range (batch_of rs) i (stop + 1) = Some (records_bytes (take (stop + 1 - i) (drop i rs)))"
      if "stop < length rs"
      using "1.prems" that by (intro batch_range_of) auto
    ultimately show ?thesis
      using "1.prems" by (subst (1 2 3) run_end.simps) auto
  qed
qed

lemma records_bytes_prefix: "prefix p qs \<Longrightarrow> length (records_bytes p) \<le> length (records_bytes qs)"
  by (auto simp: prefix_def)

lemma seg_cost_append:
  "seg_cost (rs @ q) = seg_cost rs + length (records_bytes q) + (if q \<noteq> [] \<and> rs = [] then 24 else 0)"
  by (simp add: seg_cost_def)

lemma records_bytes_empty: "records_bytes q = [] \<longleftrightarrow> q = []"
  by (cases q) (auto simp: record_bytes_def dest: arg_cong [where f = length])

text \<open>Accepting \<open>q\<close> in the open segment, within the room there is.\<close>

lemma coll_inv_accept:
  assumes inv: "coll_inv True env opts ss (Some rs) st" and w: "co_writer st = Some w"
    and w': "writer_is sound env opts w' (rs @ q)" "w_index w' = w_index w"
    and room: "length (records_bytes q) \<le> room_in opts w st"
  shows "coll_inv sound env opts ss (Some (rs @ q))
    (st\<lparr>co_writer := Some w',
       co_bytes := co_bytes st + (w_bytes w' - w_bytes w
         + (if 0 < w_packets w' - w_packets w then (if w_packets w = 0 then 24 else 0) else 0)),
       co_buffered := co_buffered st + (w_packets w' - w_packets w)\<rparr>)"
proof -
  have ws: "writer_is True env opts w rs" "w_index w = Suc (length ss)"
    using inv w by (auto simp: coll_inv_def writer_matches_def)
  have n: "w_bytes w' - w_bytes w = length (records_bytes q)" "w_packets w' - w_packets w = length q"
      "w_packets w = 0 \<longleftrightarrow> rs = []" "w_bytes w = 24 + length (records_bytes rs)"
    using ws(1) w'(1) by (auto simp: writer_is_def)
  have cost: "seg_cost (rs @ q) = seg_cost rs + (w_bytes w' - w_bytes w
      + (if 0 < w_packets w' - w_packets w then (if w_packets w = 0 then 24 else 0) else 0))"
    by (simp add: seg_cost_append n(1-3))
  have seg: "24 + length (records_bytes (rs @ q)) \<le> opt_segment_bytes opts"
    using room inv n(4) by (cases "q = []") (auto simp: room_in_def coll_inv_def records_bytes_empty)
  have "co_bytes st + (w_bytes w' - w_bytes w
      + (if 0 < w_packets w' - w_packets w then (if w_packets w = 0 then 24 else 0) else 0)) \<le> opt_total_bytes opts"
  proof (cases "q = []")
    case True
    with inv n show ?thesis by (simp add: coll_inv_def)
  next
    case False
    define l where "l = length (records_bytes q)"
    have "0 < l" "l \<le> opt_total_bytes opts - (co_bytes st + (if rs = [] then 24 else 0))"
      using room False records_bytes_empty [of q] n(3) by (auto simp: room_in_def l_def)
    then have "co_bytes st + (l + (if rs = [] then 24 else 0)) \<le> opt_total_bytes opts"
      by linarith
    with False show ?thesis by (simp only: n(1-3) l_def [symmetric]) simp
  qed
  with inv w' ws cost seg n(2) show ?thesis
    by (simp add: coll_inv_def writer_matches_def)
qed

lemma write_run_grows:
  assumes e: "write_run env opts (batch_of rs) i (length (record_bytes (rs ! i))) w st = (r, st')"
    and inv: "coll_inv True env opts ss cur st" and w: "co_writer st = Some w"
    and rs: "list_all small rs" "i < length rs"
  shows "\<exists>cur' p. coll_inv (is_ok r) env opts ss cur' st' \<and>
    concat (all_segments ss cur') = concat (all_segments ss cur) @ p \<and> prefix p (drop i rs) \<and>
    (case r of Inr (Some j) \<Rightarrow> j \<le> length rs \<and> p = take (j - i) (drop i rs) | Inr None \<Rightarrow> p = [] | Inl e \<Rightarrow> True)"
proof -
  obtain old where old: "cur = Some old" "writer_is True env opts w old"
    using coll_inv_writer [OF inv] w by auto
  let ?room = "room_in opts w st"
  show ?thesis
  proof (cases "?room < length (record_bytes (rs ! i))")
    case True
    then have "r = Inr None" "st' = st\<lparr>co_reason := Disk_limit\<rparr>"
      using e by (simp_all add: write_run_def give_up_def)
    with inv show ?thesis
      by (intro exI [where x = cur] exI [where x = "[]"]) simp
  next
    case False
    let ?j = "run_end (batch_of rs) i ?room (i + 1)"
    have "take 1 (drop i rs) = [rs ! i]"
      using rs by (simp add: take_Suc_conv_app_nth hd_drop_conv_nth [symmetric] take_Suc)
    with False rs have j: "i + 1 \<le> ?j" "?j \<le> length rs"
        "length (records_bytes (take (?j - i) (drop i rs))) \<le> ?room"
      using run_end_facts [of i "i + 1" rs ?room] by auto
    let ?qs = "take (?j - i) (drop i rs)"
    have sm: "list_all small ?qs"
      using rs(1) by (auto simp: list_all_iff dest!: in_set_takeD in_set_dropD)
    obtain r1 w1 st1 where p: "writer_packets env (records_bytes ?qs) (opt_snaplen opts) (w, st) = (r1, w1, st1)"
      by (metis surj_pair)
    obtain k q where q: "st1 = st\<lparr>co_io := k\<rparr>" "prefix q ?qs" "writer_is (is_ok r1) env opts w1 (old @ q)"
        "w_index w1 = w_index w" "is_ok r1 \<longrightarrow> q = ?qs"
      using writer_packets_cases [OF p old(2) sm] by blast
    let ?st = "st1\<lparr>co_writer := Some w1, co_bytes := co_bytes st + (w_bytes w1 - w_bytes w
         + (if 0 < w_packets w1 - w_packets w then (if w_packets w = 0 then 24 else 0) else 0)),
       co_buffered := co_buffered st + (w_packets w1 - w_packets w)\<rparr>"
    have "batch_range (batch_of rs) i ?j = Some (records_bytes ?qs)"
      using j by (intro batch_range_of) auto
    then have r: "r = (case r1 of Inl e \<Rightarrow> Inl e | Inr _ \<Rightarrow> Inr (Some ?j))" "st' = ?st"
      using e False p q(1) by (auto simp: write_run_def Let_def split: if_splits sum.splits)
    have ok: "is_ok r = is_ok r1"
      by (simp add: r(1) split: sum.splits)
    have "length (records_bytes q) \<le> ?room"
      using records_bytes_prefix [OF q(2)] j(3) by linarith
    moreover have "coll_inv True env opts ss (Some old) (st\<lparr>co_io := k\<rparr>)" "co_writer (st\<lparr>co_io := k\<rparr>) = Some w"
        "room_in opts w (st\<lparr>co_io := k\<rparr>) = ?room"
      using inv old w by (simp_all add: room_in_def)
    ultimately have "coll_inv (is_ok r) env opts ss (Some (old @ q)) st'"
      using coll_inv_accept [OF _ _ q(3,4), of ss "st\<lparr>co_io := k\<rparr>"] q(1) r(2) ok by simp
    moreover have "prefix q (drop i rs)"
      using q(2) by (meson prefix_order.trans take_is_prefix)
    ultimately show ?thesis
      using old q(5) r(1) j(2)
      by (intro exI [where x = "Some (old @ q)"] exI [where x = q]) (auto split: sum.splits)
  qed
qed

lemma stop_or_late_cases:
  "stop_or_late env opts st = (r, st') \<Longrightarrow>
     (\<exists>b. r = Inr b) \<and> coll_inv sound env' opts' ss cur st' = coll_inv sound env' opts' ss cur st"
  by (auto simp: stop_or_late_def sbind_def read_stop_def read_clock_def give_up_def split: if_splits)

text \<open>A step that accepts \<open>p\<close> out of what is left of the records \<open>rs\<close>.\<close>

definition accepts ::
    "collect_env \<Rightarrow> options \<Rightarrow> captured list \<Rightarrow> captured list \<Rightarrow> ('e collect_error + 'a) \<Rightarrow> 'e collecting \<Rightarrow> bool" where
  "accepts env opts old p r st \<longleftrightarrow>
     (\<exists>ss cur. coll_inv (is_ok r) env opts ss cur st \<and> concat (all_segments ss cur) = old @ p)"

lemma acceptsI:
  "coll_inv (is_ok r) env opts ss cur st \<Longrightarrow> concat (all_segments ss cur) = old @ p \<Longrightarrow> accepts env opts old p r st"
  by (auto simp: accepts_def)

lemma close_if_accepts:
  assumes "close_if env q st = (r, st')" "coll_inv True env opts ss cur st"
  shows "accepts env opts (concat (all_segments ss cur)) [] r st'"
  using close_if_grows [OF assms] by (auto simp: accepts_def)

lemma collect_slice_accepts:
  assumes e: "collect_slice env opts (batch_of rs) i st = (r, st')"
    and inv: "coll_inv True env opts ss cur st"
    and rs: "list_all small rs" "i < length rs" and seg: "24 \<le> opt_segment_bytes opts"
  shows "\<exists>p. accepts env opts (concat (all_segments ss cur)) p r st' \<and> prefix p (drop i rs) \<and>
    (case r of Inr (Some j) \<Rightarrow> j \<le> length rs \<and> p = take (j - i) (drop i rs) | _ \<Rightarrow> True)"
proof -
  obtain over st1 where s1: "stop_or_late env opts st = (Inr over, st1)"
    using stop_or_late_cases by (metis surj_pair)
  have inv1: "coll_inv True env opts ss cur st1"
    using stop_or_late_cases [OF s1] inv by blast
  show ?thesis
  proof (cases over)
    case True
    with e s1 have "r = Inr None" "st' = st1"
      by (simp_all add: collect_slice_def)
    with inv1 show ?thesis
      by (intro exI [where x = "[]"]) (auto intro!: acceptsI)
  next
    case False
    have "take 1 (drop i rs) = [rs ! i]"
      using rs by (simp add: take_Suc_conv_app_nth hd_drop_conv_nth [symmetric] take_Suc)
    then have rg: "batch_range (batch_of rs) i (i + 1) = Some (record_bytes (rs ! i))"
      using batch_range_of [of i "i + 1" rs] rs by simp
    let ?q = "\<lambda>w. opt_segment_bytes opts < w_bytes w + length (record_bytes (rs ! i)) \<and> 0 < w_packets w"
    obtain r2 st2 where s2: "close_if env ?q st1 = (r2, st2)"
      by (metis surj_pair)
    obtain ss2 cur2 where inv2: "coll_inv (is_ok r2) env opts ss2 cur2 st2"
        "concat (all_segments ss2 cur2) = concat (all_segments ss cur)"
      using close_if_grows [OF s2 inv1] by blast
    show ?thesis
    proof (cases r2)
      case (Inl e2)
      with e s1 s2 rg False have "r = Inl e2" "st' = st2"
        by (simp_all add: collect_slice_def sbind_def)
      with inv2 Inl show ?thesis
        by (intro exI [where x = "[]"]) (auto intro!: acceptsI)
    next
      case (Inr u2)
      with inv2 have inv2: "coll_inv True env opts ss2 cur2 st2" "concat (all_segments ss2 cur2) = concat (all_segments ss cur)"
        by simp_all
      obtain r3 st3 where s3: "writer_for env opts (length (record_bytes (rs ! i))) st2 = (r3, st3)"
        by (metis surj_pair)
      obtain cur3 where inv3: "coll_inv (is_ok r3) env opts ss2 cur3 st3"
          "concat (all_segments ss2 cur3) = concat (all_segments ss2 cur2)"
          "case r3 of Inr (Some w) \<Rightarrow> co_writer st3 = Some w | _ \<Rightarrow> True"
        using writer_for_grows [OF s3 inv2(1) seg] by blast
      have e3: "(r, st') = (case r3 of Inl e \<Rightarrow> (Inl e, st3) | Inr None \<Rightarrow> (Inr None, st3)
          | Inr (Some w) \<Rightarrow> write_run env opts (batch_of rs) i (length (record_bytes (rs ! i))) w st3)"
        using e s1 s2 rg s3 False Inr by (simp add: collect_slice_def sbind_def split: sum.splits option.splits)
      show ?thesis
      proof (cases "\<exists>w. r3 = Inr (Some w)")
        case True
        then obtain w where w: "r3 = Inr (Some w)" by blast
        then have "write_run env opts (batch_of rs) i (length (record_bytes (rs ! i))) w st3 = (r, st')"
          using e3 by simp
        from write_run_grows [OF this _ _ rs, of ss2 cur3] w inv3 inv2(2) obtain cur4 p where
          "coll_inv (is_ok r) env opts ss2 cur4 st'" "concat (all_segments ss2 cur4) = concat (all_segments ss cur) @ p"
          "prefix p (drop i rs)"
          "case r of Inr (Some j) \<Rightarrow> j \<le> length rs \<and> p = take (j - i) (drop i rs) | Inr None \<Rightarrow> p = [] | Inl e \<Rightarrow> True"
          by auto
        then show ?thesis
          by (intro exI [where x = p]) (auto intro!: acceptsI split: sum.splits option.splits)
      next
        case nw: False
        then have "st' = st3" "is_ok r = is_ok r3" "\<And>j. r \<noteq> Inr (Some j)"
          using e3 by (auto split: sum.splits option.splits)
        with inv3 inv2(2) show ?thesis
          by (intro exI [where x = "[]"]) (auto intro!: acceptsI split: sum.splits option.splits)
      qed
    qed
  qed
qed

lemma collect_batch_accepts:
  assumes "collect_batch env opts (batch_of rs) i st = (r, st')"
    and "coll_inv True env opts ss cur st" "list_all small rs" "24 \<le> opt_segment_bytes opts"
  shows "\<exists>p. accepts env opts (concat (all_segments ss cur)) p r st' \<and> prefix p (drop i rs) \<and>
    (r = Inr True \<longrightarrow> p = drop i rs)"
  using assms
proof (induction env opts "batch_of rs" i st arbitrary: ss cur rule: collect_batch.induct)
  case (1 env opts i st)
  show ?case
  proof (cases "i < length rs")
    case False
    then have "r = Inr True" "st' = st"
      using "1.prems"(1) by (simp_all add: collect_batch.simps)
    with False "1.prems"(2) show ?thesis
      by (intro exI [where x = "[]"]) (auto intro!: acceptsI)
  next
    case True
    obtain r1 st1 where s: "collect_slice env opts (batch_of rs) i st = (r1, st1)"
      by (metis surj_pair)
    obtain p where p: "accepts env opts (concat (all_segments ss cur)) p r1 st1" "prefix p (drop i rs)"
        "case r1 of Inr (Some j) \<Rightarrow> j \<le> length rs \<and> p = take (j - i) (drop i rs) | _ \<Rightarrow> True"
      using collect_slice_accepts [OF s "1.prems"(2,3) True "1.prems"(4)] by blast
    show ?thesis
    proof (cases "\<exists>j. r1 = Inr (Some j)")
      case False
      then have "st' = st1" "is_ok r = is_ok r1" "r \<noteq> Inr True"
        using "1.prems"(1) s True
        by (auto simp: collect_batch.simps [of env opts _ i] split: sum.splits option.splits)
      with p show ?thesis
        by (intro exI [where x = p]) (auto simp: accepts_def)
    next
      case True': True
      then obtain j where j: "r1 = Inr (Some j)" by blast
      then have c: "collect_batch env opts (batch_of rs) j st1 = (r, st')"
        using "1.prems"(1) s True by (simp add: collect_batch.simps [of env opts _ i])
      obtain ss1 cur1 where i1: "coll_inv True env opts ss1 cur1 st1"
          "concat (all_segments ss1 cur1) = concat (all_segments ss cur) @ p"
        using p(1) j by (auto simp: accepts_def)
      have ij: "i < j" "j \<le> length rs" "p = take (j - i) (drop i rs)"
        using collect_slice_forward s j p(3) by auto
      have "\<exists>q. accepts env opts (concat (all_segments ss1 cur1)) q r st' \<and> prefix q (drop j rs) \<and>
          (r = Inr True \<longrightarrow> q = drop j rs)"
        using True s j by (intro "1.hyps" [OF _ s [symmetric] _ _ c i1(1) "1.prems"(3,4)]) auto
      then obtain q where q: "accepts env opts (concat (all_segments ss cur) @ p) q r st'" "prefix q (drop j rs)"
          "r = Inr True \<longrightarrow> q = drop j rs"
        unfolding i1(2) by blast
      have d: "drop i rs = p @ drop j rs"
        unfolding ij(3) using ij(1) by (metis append_take_drop_id drop_drop le_add_diff_inverse2 less_imp_le_nat)
      with q show ?thesis
        by (intro exI [where x = "p @ q"]) (auto simp: accepts_def)
    qed
  qed
qed

subsection \<open>The loop\<close>

definition delivered :: "arrival \<Rightarrow> captured list" where
  "delivered a = (case a of Arrived b \<Rightarrow> batch_records b | _ \<Rightarrow> [])"

definition arrival_ok :: "arrival \<Rightarrow> bool" where
  "arrival_ok a \<longleftrightarrow>
     (case a of Arrived b \<Rightarrow> b = batch_of (batch_records b) \<and> list_all small (batch_records b) | _ \<Rightarrow> True)"

text \<open>A loop that stops has given a reason other than the end of the source.\<close>

lemma stop_reasons:
  "stop_or_late env opts st = (Inr True, st') \<Longrightarrow> co_reason st' \<noteq> Source_ended"
  "writer_for env opts need st = (Inr None, st') \<Longrightarrow> co_reason st' \<noteq> Source_ended"
  "write_run env opts b i need w st = (Inr None, st') \<Longrightarrow> co_reason st' \<noteq> Source_ended"
  by (auto simp: stop_or_late_def sbind_def read_stop_def read_clock_def give_up_def writer_for_def
      write_run_def Let_def split: if_splits option.splits prod.splits sum.splits)

lemma slice_reason: "collect_slice env opts b i st = (Inr None, st') \<Longrightarrow> co_reason st' \<noteq> Source_ended"
  by (auto simp: collect_slice_def result_simps split: if_splits dest: stop_reasons)
    (metis (no_types, lifting) option.case_eq_if option.collapse sum.inject(2) prod.inject spure_apply stop_reasons(2,3))

lemma batch_reason: "collect_batch env opts b i st = (Inr False, st') \<Longrightarrow> co_reason st' \<noteq> Source_ended"
proof (induction env opts b i st rule: collect_batch.induct)
  case (1 env opts b i st)
  obtain r1 st1 where s: "collect_slice env opts b i st = (r1, st1)"
    by (metis surj_pair)
  have l: "i < batch_len b"
    using "1.prems" by (auto simp: collect_batch.simps [of env opts b i] split: if_splits)
  show ?case
  proof (cases "\<exists>j. r1 = Inr (Some j)")
    case True
    then obtain j where j: "r1 = Inr (Some j)" by blast
    have "collect_batch env opts b j st1 = (Inr False, st')"
      using "1.prems" s l j by (simp add: collect_batch.simps [of env opts b i])
    from "1.IH" [OF l s [symmetric] j refl this] show ?thesis .
  next
    case False
    with "1.prems" s l have "r1 = Inr None" "st' = st1"
      by (auto simp: collect_batch.simps [of env opts b i] split: sum.splits option.splits)
    with s slice_reason show ?thesis by blast
  qed
qed

lemma rotate_accepts:
  assumes "rotate_aged env opts st = (r, st')" "coll_inv True env opts ss cur st"
  shows "accepts env opts (concat (all_segments ss cur)) [] r st'"
proof (cases "\<exists>w. co_writer st = Some w \<and> w_packets w \<noteq> 0")
  case True
  then have "close_if env (\<lambda>w. opt_segment_seconds opts \<le> elapsed_secs (w_started w) (ce_clock env (co_ticks st)))
      (st\<lparr>co_ticks := co_ticks st + 1\<rparr>) = (r, st')"
    using assms(1) by (auto simp: rotate_aged_def sbind_def read_clock_def)
  from close_if_accepts [OF this, of opts ss cur] assms(2) show ?thesis by simp
next
  case False
  then have "r = Inr ()" "st' = st"
    using assms(1) by (auto simp: rotate_aged_def split: option.splits)
  with assms(2) show ?thesis by (auto intro!: acceptsI)
qed

lemma collect_turn_cases:
  "collect_turn env opts a st =
     (case stop_or_late env opts st of
        (Inl e, st1) \<Rightarrow> (Inl e, st1)
      | (Inr True, st1) \<Rightarrow> (Inr False, st1)
      | (Inr False, st1) \<Rightarrow>
          (case rotate_aged env opts st1 of
             (Inl e, st2) \<Rightarrow> (Inl e, st2)
           | (Inr _, st2) \<Rightarrow>
               (case a of
                  Arrived b \<Rightarrow> collect_batch env opts b 0 st2
                | Timed_out \<Rightarrow> (Inr True, st2)
                | Disconnected \<Rightarrow>
                    (Inr False, if ce_stop env (co_ticks st2)
                       then st2\<lparr>co_ticks := co_ticks st2 + 1, co_reason := Stop_requested\<rparr>
                       else st2\<lparr>co_ticks := co_ticks st2 + 1\<rparr>))))"
  by (auto simp: collect_turn_def sbind_def read_stop_def give_up_def
      split: prod.splits sum.splits bool.splits arrival.splits)

lemma collect_turn_accepts:
  assumes e: "collect_turn env opts a st = (r, st')" and inv: "coll_inv True env opts ss cur st"
    and a: "arrival_ok a" and seg: "24 \<le> opt_segment_bytes opts"
  shows "\<exists>p. accepts env opts (concat (all_segments ss cur)) p r st' \<and> prefix p (delivered a) \<and>
    (r = Inr True \<longrightarrow> p = delivered a) \<and>
    (r = Inr False \<longrightarrow> co_reason st' = Source_ended \<longrightarrow> a = Disconnected)"
proof -
  obtain over st1 where s1: "stop_or_late env opts st = (Inr over, st1)"
    using stop_or_late_cases by (metis surj_pair)
  have inv1: "coll_inv True env opts ss cur st1"
    using stop_or_late_cases [OF s1] inv by blast
  obtain r2 st2 where s2: "rotate_aged env opts st1 = (r2, st2)"
    by (metis surj_pair)
  note a2 = rotate_accepts [OF s2 inv1]
  consider (over) "over" | (failed) e2 where "\<not> over" "r2 = Inl e2" | (go) "\<not> over" "r2 = Inr ()"
    by (cases r2) auto
  then show ?thesis
  proof cases
    case over
    with e s1 have "r = Inr False" "st' = st1" by (simp_all add: collect_turn_cases)
    with inv1 over s1 stop_reasons(1) show ?thesis
      by (intro exI [where x = "[]"]) (auto intro!: acceptsI)
  next
    case failed
    with e s1 s2 have "r = Inl e2" "st' = st2" by (simp_all add: collect_turn_cases)
    with a2 failed show ?thesis
      by (intro exI [where x = "[]"]) (simp add: accepts_def)
  next
    case go
    obtain ss2 cur2 where inv2: "coll_inv True env opts ss2 cur2 st2"
        "concat (all_segments ss2 cur2) = concat (all_segments ss cur)"
      using a2 go by (auto simp: accepts_def)
    show ?thesis
    proof (cases a)
      case (Arrived b)
      then have b: "b = batch_of (batch_records b)" "list_all small (batch_records b)"
        using a by (simp_all add: arrival_ok_def)
      have c: "collect_batch env opts b 0 st2 = (r, st')"
        using e s1 s2 go Arrived by (simp add: collect_turn_cases)
      then obtain p where "accepts env opts (concat (all_segments ss cur)) p r st'" "prefix p (batch_records b)"
          "r = Inr True \<longrightarrow> p = batch_records b"
        using collect_batch_accepts [of env opts "batch_records b" 0 st2 r st', folded b(1), OF c inv2(1) b(2) seg]
          inv2(2) by auto
      with Arrived batch_reason [of env opts b 0 st2 st'] c show ?thesis
        by (intro exI [where x = p]) (auto simp: delivered_def)
    next
      case Timed_out
      with e s1 s2 go have "r = Inr True" "st' = st2" by (simp_all add: collect_turn_cases)
      with inv2 Timed_out show ?thesis
        by (intro exI [where x = "[]"]) (auto simp: delivered_def intro!: acceptsI)
    next
      case Disconnected
      with e s1 s2 go have "r = Inr False" "\<exists>i why. st' = st2\<lparr>co_ticks := i, co_reason := why\<rparr>"
        by (auto simp: collect_turn_cases split: if_splits) (metis collecting.surjective collecting.update_convs(1,8))+
      with inv2 Disconnected show ?thesis
        by (intro exI [where x = "[]"]) (auto simp: delivered_def intro!: acceptsI)
    qed
  qed
qed

text \<open>A run that ends because the channel closed has accepted all that came before.\<close>

definition ended_at :: "arrival list \<Rightarrow> captured list \<Rightarrow> bool" where
  "ended_at as p \<longleftrightarrow> (\<exists>before after. as = before @ Disconnected # after \<and> p = concat (map delivered before))"

lemma collect_loop_accepts:
  assumes "collect_loop env opts as st = (r, st')" "coll_inv True env opts ss cur st"
    and "list_all arrival_ok as" "24 \<le> opt_segment_bytes opts"
  shows "\<exists>p. accepts env opts (concat (all_segments ss cur)) p r st' \<and> prefix p (concat (map delivered as)) \<and>
    (r = Inr True \<longrightarrow> p = concat (map delivered as)) \<and>
    (r = Inr False \<longrightarrow> co_reason st' = Source_ended \<longrightarrow> ended_at as p)"
  using assms
proof (induction as arbitrary: st ss cur)
  case Nil
  then show ?case
    by (intro exI [where x = "[]"]) (auto intro!: acceptsI)
next
  case (Cons a as)
  obtain r1 st1 where t: "collect_turn env opts a st = (r1, st1)"
    by (metis surj_pair)
  obtain p where p: "accepts env opts (concat (all_segments ss cur)) p r1 st1" "prefix p (delivered a)"
      "r1 = Inr True \<longrightarrow> p = delivered a" "r1 = Inr False \<longrightarrow> co_reason st1 = Source_ended \<longrightarrow> a = Disconnected"
    using collect_turn_accepts [OF t Cons.prems(2)] Cons.prems(3,4) by auto
  show ?case
  proof (cases "r1 = Inr True")
    case False
    then have e: "st' = st1" "r = r1"
      using Cons.prems(1) t by (auto split: sum.splits bool.splits)
    have "ended_at (a # as) p" if "a = Disconnected"
    proof -
      have "p = []" using p(2) that by (simp add: delivered_def)
      then show ?thesis unfolding ended_at_def using that
        by (intro exI [where x = "[]"] exI [where x = as]) simp
    qed
    with p e False show ?thesis
      by (intro exI [where x = p]) (auto simp: prefix_def)
  next
    case True
    then have l: "collect_loop env opts as st1 = (r, st')"
      using Cons.prems(1) t by simp
    obtain ss1 cur1 where i1: "coll_inv True env opts ss1 cur1 st1"
        "concat (all_segments ss1 cur1) = concat (all_segments ss cur) @ delivered a"
      using p True by (auto simp: accepts_def)
    have "list_all arrival_ok as" using Cons.prems(3) by simp
    from Cons.IH [OF l i1(1) this Cons.prems(4)] i1(2) obtain q where q:
        "accepts env opts (concat (all_segments ss cur) @ delivered a) q r st'" "prefix q (concat (map delivered as))"
        "r = Inr True \<longrightarrow> q = concat (map delivered as)"
        "r = Inr False \<longrightarrow> co_reason st' = Source_ended \<longrightarrow> ended_at as q"
      by auto
    have "ended_at (a # as) (delivered a @ q)" if "ended_at as q"
    proof -
      from that obtain xs ys where "as = xs @ Disconnected # ys" "q = concat (map delivered xs)"
        by (auto simp: ended_at_def)
      then show ?thesis unfolding ended_at_def
        by (intro exI [where x = "a # xs"] exI [where x = ys]) simp
    qed
    with q show ?thesis
      by (intro exI [where x = "delivered a @ q"]) (auto simp: accepts_def)
  qed
qed

subsection \<open>The whole collection\<close>

definition published :: "collect_env \<Rightarrow> options \<Rightarrow> writer \<Rightarrow> captured list \<Rightarrow> bool" where
  "published env opts w rs \<longleftrightarrow>
     w_file w = segment_data env opts rs \<and> w_hashed w = w_file w \<and> w_bytes w = length (w_file w) \<and>
     w_packets w = length rs \<and> list_all (valid_record (opt_snaplen opts)) rs"

lemma writer_published: "writer_is True env opts = published env opts"
  by (auto simp: fun_eq_iff writer_is_def published_def segment_data_def)

lemma validated:
  assumes "options_validate opts = Inr ()"
  shows "24 \<le> opt_segment_bytes opts \<and> opt_snaplen opts \<le> 65535 \<and> 64 \<le> opt_snaplen opts \<and>
    opt_segment_bytes opts \<le> 128 * 1024 * 1024"
  using assms by (auto simp: options_validate_def result_simps)

definition co_fresh :: "'e collecting \<Rightarrow> bool" where
  "co_fresh st \<longleftrightarrow> co_writer st = None \<and> co_scheduled st = 0 \<and> co_closed st = [] \<and> co_bytes st = 0 \<and> co_buffered st = 0"

lemma co_fresh_new [simp]: "co_fresh collecting_new"
  by (simp add: co_fresh_def collecting_new_def)

lemma collect_core_accepts:
  fixes st0 :: "'e collecting"
  assumes o1: "options_validate opts = Inr ()" and a: "list_all arrival_ok arrivals"
    and c: "collect_core env opts arrivals closed st0 = (r, st)" and fresh: "co_fresh st0"
  shows "\<exists>ss cur p. coll_inv False env opts ss cur st \<and> concat (all_segments ss cur) = p \<and>
    prefix p (concat (map delivered arrivals)) \<and> (r = Inr () \<longrightarrow> cur = None) \<and>
    (r = Inr () \<longrightarrow> co_reason st = Source_ended \<longrightarrow>
       ended_at arrivals p \<or> p = concat (map delivered arrivals))"
proof -
  note v = validated [OF o1]
  have inv0: "coll_inv True env opts [] None st0"
    using fresh by (simp add: coll_inv_def co_fresh_def writer_matches_def)
  obtain r1 st1 where s1: "writer_open env 1 (opt_snaplen opts) st0 = (r1, st1)"
    by (metis surj_pair)
  obtain i k where st1: "st1 = st0\<lparr>co_ticks := i, co_io := k\<rparr>"
    and w1: "case r1 of Inl e \<Rightarrow> True | Inr w \<Rightarrow> writer_is True env opts w [] \<and> w_index w = 1"
    using writer_open_cases [OF s1] by blast
  show ?thesis
  proof (cases r1)
    case (Inl e)
    with c s1 have "r = Inl e" "st = st1" by (simp_all add: collect_core_def)
    with inv0 st1 coll_inv_weaken [OF inv0, of False] show ?thesis
      by (intro exI [where x = "[]"] exI [where x = None]) simp
  next
    case (Inr w)
    let ?st2 = "st1\<lparr>co_writer := Some w\<rparr>"
    have inv2: "coll_inv True env opts [] (Some []) ?st2"
      using inv0 w1 Inr v st1
      by (simp add: coll_inv_def writer_matches_def seg_cost_def max_segments_def)
    obtain writing st3 where s3: "collect_loop env opts arrivals ?st2 = (writing, st3)"
      by (metis surj_pair)
    obtain p where p: "accepts env opts [] p writing st3" "prefix p (concat (map delivered arrivals))"
        "writing = Inr True \<longrightarrow> p = concat (map delivered arrivals)"
        "writing = Inr False \<longrightarrow> co_reason st3 = Source_ended \<longrightarrow> ended_at arrivals p"
      using collect_loop_accepts [OF s3 inv2 a] v by auto
    obtain ss3 cur3 where inv3: "coll_inv (is_ok writing) env opts ss3 cur3 st3" "concat (all_segments ss3 cur3) = p"
      using p(1) by (auto simp: accepts_def)
    let ?st4 = "st3\<lparr>co_source_closed := True\<rparr>"
    let ?close = "if is_ok writing then close_if env (\<lambda>_. True) else spure (Inr ())"
    obtain r5 st5 where s5: "?close ?st4 = (r5, st5)"
      by (metis surj_pair)
    have fin: "(r, st) = (case r5 of Inl e \<Rightarrow> (Inl e, st5) | Inr _ \<Rightarrow>
        (case closed of Inl e \<Rightarrow> (if is_ok writing then Inl e else rbind writing (\<lambda>_. Inr ()), st5)
         | Inr stats \<Rightarrow> (rbind writing (\<lambda>_. Inr ()), st5\<lparr>co_driver := stats\<rparr>)))"
      using c s1 Inr s3 s5 by (simp add: collect_core_def sbind_def split: sum.splits)
    have reason: "co_reason st5 = co_reason st3"
      using s5 by (auto simp: close_if_def close_segment_def sbind_def fallible_def split: if_splits option.splits)
    show ?thesis
    proof (cases "is_ok writing")
      case False
      then have "r5 = Inr ()" "st5 = ?st4" using s5 by simp_all
      with fin False have "r \<noteq> Inr ()" "coll_inv False env opts ss3 cur3 st"
        using inv3 by (auto simp: is_ok_iff result_simps split: sum.splits)
      with inv3 p(2) show ?thesis by blast
    next
      case True
      have "coll_inv True env opts ss3 cur3 ?st4" using inv3 True by simp
      then have "\<exists>ss' cur'. coll_inv (is_ok r5) env opts ss' cur' st5 \<and>
          concat (all_segments ss' cur') = concat (all_segments ss3 cur3) \<and>
          (is_ok r5 \<longrightarrow> (cur' = None \<longleftrightarrow> cur3 = None \<or> (\<exists>w. co_writer ?st4 = Some w \<and> True)))"
        using s5 True by (intro close_if_grows) simp_all
      then obtain ss5 cur5 where
        inv5: "coll_inv (is_ok r5) env opts ss5 cur5 st5" "concat (all_segments ss5 cur5) = p"
        "is_ok r5 \<longrightarrow> (cur5 = None \<longleftrightarrow> cur3 = None \<or> (\<exists>w. co_writer ?st4 = Some w \<and> True))"
        using inv3(2) by blast
      have none: "cur5 = None" if "r5 = Inr ()"
        using coll_inv_writer [OF \<open>coll_inv True env opts ss3 cur3 ?st4\<close>] inv5(3) that by auto
      have "coll_inv False env opts ss5 cur5 st"
        using inv5(1) fin by (cases "is_ok r5") (auto split: sum.splits intro: coll_inv_weaken)
      moreover have "r = Inr () \<longrightarrow> r5 = Inr () \<and> co_reason st = co_reason st3"
        using fin reason by (auto split: sum.splits)
      moreover obtain b where "writing = Inr b" using True by (auto simp: is_ok_iff)
      ultimately show ?thesis
        using inv5(2) none p(2-4)
        by (intro exI [where x = ss5] exI [where x = cur5] exI [where x = p]) (cases b; auto)
    qed
  qed
qed

text \<open>
  C25: whatever fails and whenever the collection is stopped, every segment handed to publication is the
  PCAP header followed by exactly the records it counts, hashed byte for byte, all of them valid, and the
  segments in order hold a prefix of what the channel delivered, cut only between packets. A collection
  without errors has published all it accepted; when it ends because the source ended, that is everything
  delivered before the channel closed.
\<close>

theorem collection_keeps_packets:
  assumes "options_validate opts = Inr ()" "list_all arrival_ok arrivals"
    and "collect_core env opts arrivals closed collecting_new = (r, st)"
  shows "\<exists>ss p. list_all2 (published env opts) (co_closed st) ss \<and>
    map w_index (co_closed st) = [1..<Suc (length ss)] \<and>
    prefix (concat ss) p \<and> prefix p (concat (map delivered arrivals)) \<and> co_buffered st = length p \<and>
    (if r = Inr ()
     then concat ss = p \<and>
       (if co_reason st = Source_ended then ended_at arrivals p \<or> p = concat (map delivered arrivals) else True)
     else True)"
proof -
  obtain ss cur p where p: "coll_inv False env opts ss cur st" "concat (all_segments ss cur) = p"
      "prefix p (concat (map delivered arrivals))" "r = Inr () \<longrightarrow> cur = None"
      "r = Inr () \<longrightarrow> co_reason st = Source_ended \<longrightarrow>
        ended_at arrivals p \<or> p = concat (map delivered arrivals)"
    using collect_core_accepts [OF assms co_fresh_new] by blast
  have "prefix (concat ss) p"
    using p(2) by (auto simp: all_segments_def)
  with p show ?thesis
    unfolding coll_inv_def writer_published
    by (intro exI [where x = ss] exI [where x = p]) auto
qed

text \<open>
  C26: the limits of a collection hold whatever happens: no segment is larger than its limit, all
  segments with packets together are within the limit on the disk, also the one still open, and there
  are at most 4096 segments.
\<close>

theorem collection_within_limits:
  assumes "options_validate opts = Inr ()" "list_all arrival_ok arrivals"
    and "collect_core env opts arrivals closed collecting_new = (r, st)"
  shows "list_all (\<lambda>w. w_bytes w \<le> opt_segment_bytes opts) (co_closed st) \<and>
    (\<Sum>w\<leftarrow>filter (\<lambda>w. w_packets w \<noteq> 0) (co_closed st). w_bytes w) \<le> co_bytes st \<and>
    co_bytes st \<le> opt_total_bytes opts \<and>
    length (co_closed st) \<le> max_segments \<and> co_scheduled st = length (co_closed st)"
proof -
  obtain ss cur where inv: "coll_inv False env opts ss cur st"
    using collect_core_accepts [OF assms co_fresh_new] by blast
  then have ws: "list_all2 (writer_is True env opts) (co_closed st) ss"
    by (simp add: coll_inv_def)
  have seg: "list_all (\<lambda>rs. 24 + length (records_bytes rs) \<le> opt_segment_bytes opts) ss"
    using inv by (auto simp: coll_inv_def all_segments_def)
  have "(\<Sum>w\<leftarrow>filter (\<lambda>w. w_packets w \<noteq> 0) (co_closed st). w_bytes w) = (\<Sum>rs\<leftarrow>ss. seg_cost rs)"
    using ws by (induction rule: list_all2_induct) (auto simp: writer_is_def seg_cost_def)
  moreover have "(\<Sum>rs\<leftarrow>ss. seg_cost rs) \<le> co_bytes st"
    using inv by (auto simp: coll_inv_def all_segments_def)
  moreover have "list_all (\<lambda>w. w_bytes w \<le> opt_segment_bytes opts) (co_closed st)"
    using ws seg by (induction rule: list_all2_induct) (auto simp: writer_is_def)
  ultimately show ?thesis
    using inv list_all2_lengthD [OF ws] by (auto simp: coll_inv_def all_segments_def)
qed

text \<open>A collection of one packet whose channel then closes.\<close>

definition calm_env :: collect_env where
  "calm_env = \<lparr>ce_stop = (\<lambda>_. False), ce_clock = (\<lambda>_. 0), ce_fault = (\<lambda>_. False), ce_began = 0, ce_link = 1\<rparr>"

definition sample_options :: options where
  "sample_options = options_default\<lparr>opt_interface := [101, 116, 104, 48]\<rparr>"

lemma sample_options_ok: "options_validate sample_options = Inr ()"
  unfolding sample_options_def by (rule options_default_valid)

lemma sample_arrivals_ok: "list_all arrival_ok [Arrived (batch_of [sample_record]), Disconnected]"
  by (simp add: arrival_ok_def small_def sample_record_def)

lemma calm_simps [simp]:
  "read_stop calm_env st = (Inr False, st\<lparr>co_ticks := co_ticks st + 1\<rparr>)"
  "read_clock calm_env st = (Inr 0, st\<lparr>co_ticks := co_ticks st + 1\<rparr>)"
  "fallible calm_env e st = (Inr (), st\<lparr>co_io := co_io st + 1\<rparr>)"
  "elapsed_secs (ce_began calm_env) 0 = 0" "ce_link calm_env = 1"
  by (simp_all add: read_stop_def read_clock_def fallible_def calm_env_def elapsed_secs_def)

lemma sample_option_simps [simp]:
  "opt_duration_seconds sample_options = 86400" "opt_snaplen sample_options = 2048"
  "opt_segment_bytes sample_options = 67108864" "opt_total_bytes sample_options = 4294967296"
  by (simp_all add: sample_options_def options_default_def)

lemma sample_scan: "scan_records 2048 (record_bytes sample_record) 0 0 = Scan_valid 1"
  using scan_records_all [of "[sample_record]" 2048]
  by (simp add: small_def valid_prefix_def valid_record_def sample_record_def)

lemma sample_range: "batch_range (batch_of [sample_record]) 0 (Suc 0) = Some (record_bytes sample_record)"
  using batch_range_of [of 0 1 "[sample_record]"] by simp

lemma sample_not_late: "stop_or_late calm_env sample_options st = (Inr False, st\<lparr>co_ticks := co_ticks st + 2\<rparr>)"
  by (simp add: stop_or_late_def sbind_def)

lemma calm_stop: "ce_stop calm_env i = False"
  by (simp add: calm_env_def)

lemma sample_core:
  "\<exists>st. collect_core calm_env sample_options [Arrived (batch_of [sample_record]), Disconnected] (Inr None)
     collecting_new = (Inr () :: unit collect_error + unit, st) \<and>
   co_closed st = [\<lparr>w_index = 1, w_file = segment_header 2048 1 @ record_bytes sample_record,
     w_hashed = segment_header 2048 1 @ record_bytes sample_record, w_bytes = 43, w_packets = 1, w_started = 0\<rparr>]"
proof -
  have e: "run_end (batch_of [sample_record]) 0 n 1 = 1" for n
    by (simp add: run_end.simps)
  have n: "length (record_bytes sample_record) = 19"
    by (simp add: sample_record_def)
  show ?thesis
    by (simp add: collect_core_def sbind_def writer_open_def writer_write_def collecting_new_def Let_def
        collect_turn_cases sample_not_late calm_stop rotate_aged_def collect_batch.simps collect_slice_def sample_range
        close_if_def writer_for_def write_run_def room_in_def e [simplified] n writer_packets_def sample_scan
        close_segment_def del: length_record_bytes)
qed

theorem collection_keeps_packets_witness:
  "\<exists>st ss. collect_core calm_env sample_options [Arrived (batch_of [sample_record]), Disconnected] (Inr None)
     collecting_new = (Inr () :: unit collect_error + unit, st) \<and>
   list_all2 (published calm_env sample_options) (co_closed st) ss \<and> prefix (concat ss) [sample_record] \<and>
   co_buffered st = length (concat ss) \<and> length (co_closed st) = 1"
proof -
  obtain st where st: "collect_core calm_env sample_options [Arrived (batch_of [sample_record]), Disconnected]
      (Inr None) collecting_new = (Inr () :: unit collect_error + unit, st)" "length (co_closed st) = 1"
    using sample_core by auto
  from collection_keeps_packets [OF sample_options_ok sample_arrivals_ok st(1)]
  obtain ss where "list_all2 (published calm_env sample_options) (co_closed st) ss"
      "prefix (concat ss) [sample_record]" "co_buffered st = length (concat ss)"
    by (auto simp: delivered_def)
  with st show ?thesis by blast
qed

theorem collection_within_limits_witness:
  "\<exists>st. collect_core calm_env sample_options [Arrived (batch_of [sample_record]), Disconnected] (Inr None)
     collecting_new = (Inr () :: unit collect_error + unit, st) \<and>
   list_all (\<lambda>w. w_bytes w \<le> 67108864) (co_closed st) \<and> length (co_closed st) = 1 \<and>
   co_bytes st \<le> 4294967296"
proof -
  obtain st where st: "collect_core calm_env sample_options [Arrived (batch_of [sample_record]), Disconnected]
      (Inr None) collecting_new = (Inr () :: unit collect_error + unit, st)" "length (co_closed st) = 1"
    using sample_core by auto
  from collection_within_limits [OF sample_options_ok sample_arrivals_ok st(1)] st show ?thesis
    by auto
qed

end
