(* ===== verification/Pipe.thy ===== *)
theory Pipe
  imports Batch "HOL-Library.Multiset" "HOL-Library.Sublist"
begin

text \<open>
  The reading half of \<open>crates/netlane-capture/src/collection.rs\<close>: the thread that polls the source
  and hands full batches to the writer over a channel of 32, from a fixed pool of 33 buffers besides
  its own (\<open>Producer::start\<close>). The thread and the writer interleave in any order: \<open>pipe_step\<close> is one
  step of either. The lemmas show that no buffer is ever lost or made, that what is in memory is
  bounded, and that every record read is delivered in order, in the queue, or counted as dropped.
\<close>

record ('s, 'e) source_ops =
  so_fill :: "'s \<Rightarrow> packet_batch \<Rightarrow> ('e collect_error + batch_poll) \<times> 's \<times> packet_batch"
  so_stats :: "'s \<Rightarrow> driver_stats option \<times> 's"
  so_wait :: "'s \<Rightarrow> 's"

record ('s, 'e) pipe =
  pi_source :: 's
  pi_batch :: packet_batch
  pi_pool :: "packet_batch list"
  pi_queue :: "packet_batch list"
  pi_held :: "packet_batch option"
  pi_open :: bool
  pi_seen :: nat
  pi_dropped :: nat
  pi_driver :: "driver_totals \<times> driver_stats option"
  pi_result :: "('e collect_error + driver_stats option) option"

definition pipe_start :: "'s \<Rightarrow> ('s, 'e) pipe" where
  "pipe_start s =
     \<lparr>pi_source = s, pi_batch = batch_new, pi_pool = replicate (batch_queue + 1) batch_new,
      pi_queue = [], pi_held = None, pi_open = True, pi_seen = 0, pi_dropped = 0,
      pi_driver = (no_totals, None), pi_result = None\<rparr>"

subsection \<open>The reading thread\<close>

text \<open>\<open>recycle.try_send\<close>, whose channel holds 33 buffers; a buffer that does not fit is freed.\<close>

definition recycle :: "packet_batch \<Rightarrow> packet_batch list \<Rightarrow> packet_batch list" where
  "recycle b pool = (if length pool < batch_queue + 1 then pool @ [b] else pool)"

text \<open>
  What a non-empty batch does: a replacement is reserved before the batch is sent, and without one, or
  without a place in the channel, the records are counted as dropped. False when the writer is gone.
\<close>

definition forward :: "('s, 'e) pipe \<Rightarrow> bool \<times> ('s, 'e) pipe" where
  "forward st =
     (let count = batch_len (pi_batch st) in
      if count = 0 then (True, st)
      else
        (let st = st\<lparr>pi_seen := pi_seen st + count\<rparr> in
         case pi_pool st of
           [] \<Rightarrow> (True, st\<lparr>pi_dropped := pi_dropped st + count, pi_batch := batch_clear (pi_batch st)\<rparr>)
         | spare # pool \<Rightarrow>
             if \<not> pi_open st then (False, st\<lparr>pi_pool := pool\<rparr>)
             else if length (pi_queue st) < batch_queue then
               (True, st\<lparr>pi_pool := pool, pi_queue := pi_queue st @ [pi_batch st], pi_batch := spare\<rparr>)
             else
               (True, st\<lparr>pi_dropped := pi_dropped st + count, pi_batch := batch_clear (pi_batch st),
                         pi_pool := recycle spare pool\<rparr>)))"

definition sample_stats :: "('s, 'e) source_ops \<Rightarrow> ('s, 'e) pipe \<Rightarrow> driver_stats option \<times> ('s, 'e) pipe" where
  "sample_stats ops st =
     (case so_stats ops (pi_source st) of (stats, s) \<Rightarrow>
        (stats, st\<lparr>pi_source := s, pi_driver := sample_driver stats (pi_driver st)\<rparr>))"

text \<open>One iteration of the loop; \<open>due\<close> says that a second has passed since the last statistics.\<close>

definition reader_turn ::
    "('s, 'e) source_ops \<Rightarrow> bool \<Rightarrow> ('s, 'e) pipe \<Rightarrow> ('e collect_error + unit) option \<times> ('s, 'e) pipe" where
  "reader_turn ops due st =
     (case so_fill ops (pi_source st) (pi_batch st) of (state, s, b) \<Rightarrow>
      case forward (st\<lparr>pi_source := s, pi_batch := b\<rparr>) of (go, st) \<Rightarrow>
        if \<not> go then (Some (Inr ()), st)
        else
          (case state of
             Inl e \<Rightarrow> (Some (Inl e), st)
           | Inr Batch_end \<Rightarrow> (Some (Inr ()), st)
           | Inr p \<Rightarrow>
               let st = (if p = Batch_idle then st\<lparr>pi_source := so_wait ops (pi_source st)\<rparr> else st) in
               (None, if due then snd (sample_stats ops st) else st)))"

definition reader_finish ::
    "('s, 'e) source_ops \<Rightarrow> 'e collect_error + unit \<Rightarrow> ('s, 'e) pipe \<Rightarrow> ('s, 'e) pipe" where
  "reader_finish ops res st =
     (case sample_stats ops st of (stats, st) \<Rightarrow>
        st\<lparr>pi_result := Some (case res of Inl e \<Rightarrow> Inl e | Inr _ \<Rightarrow> Inr stats)\<rparr>)"

subsection \<open>The thread and the writer\<close>

datatype pipe_event =
    Turned "captured list" "captured list"
  | Stopped
  | Taken "captured list"
  | Recycled

text \<open>
  The records a turn read from the source, and those it dropped.
\<close>

definition turn_event :: "('s, 'e) source_ops \<Rightarrow> ('s, 'e) pipe \<Rightarrow> ('s, 'e) pipe \<Rightarrow> pipe_event" where
  "turn_event ops st st' =
     (let rs = batch_records (snd (snd (so_fill ops (pi_source st) (pi_batch st)))) in
      Turned rs (if pi_dropped st' = pi_dropped st then [] else rs))"

inductive pipe_step ::
    "('s, 'e) source_ops \<Rightarrow> ('s, 'e) pipe \<Rightarrow> pipe_event \<Rightarrow> ('s, 'e) pipe \<Rightarrow> bool"
  for ops :: "('s, 'e) source_ops" where
  turn: "pi_result st = None \<Longrightarrow> reader_turn ops due st = (None, st') \<Longrightarrow>
    pipe_step ops st (turn_event ops st st') st'"
| last_turn: "pi_result st = None \<Longrightarrow> reader_turn ops due st = (Some r, st') \<Longrightarrow>
    pipe_step ops st (turn_event ops st st') (reader_finish ops r st')"
| stop: "pi_result st = None \<Longrightarrow> pipe_step ops st Stopped (reader_finish ops (Inr ()) st)"
| take: "pi_held st = None \<Longrightarrow> pi_queue st = b # q \<Longrightarrow>
    pipe_step ops st (Taken (batch_records b)) (st\<lparr>pi_queue := q, pi_held := Some b\<rparr>)"
| recycle: "pi_held st = Some b \<Longrightarrow>
    pipe_step ops st Recycled (st\<lparr>pi_held := None, pi_pool := recycle (batch_clear b) (pi_pool st)\<rparr>)"

inductive pipe_run ::
    "('s, 'e) source_ops \<Rightarrow> ('s, 'e) pipe \<Rightarrow> pipe_event list \<Rightarrow> ('s, 'e) pipe \<Rightarrow> bool"
  for ops :: "('s, 'e) source_ops" and st0 :: "('s, 'e) pipe" where
  none: "pipe_run ops st0 [] st0"
| next_step: "pipe_run ops st0 tr st \<Longrightarrow> pipe_step ops st e st' \<Longrightarrow> pipe_run ops st0 (tr @ [e]) st'"

fun event_read :: "pipe_event \<Rightarrow> captured list" where
  "event_read (Turned rs lost) = rs"
| "event_read _ = []"

fun event_lost :: "pipe_event \<Rightarrow> captured list" where
  "event_lost (Turned rs lost) = lost"
| "event_lost _ = []"

fun event_taken :: "pipe_event \<Rightarrow> captured list" where
  "event_taken (Taken rs) = rs"
| "event_taken _ = []"

definition trace_of :: "(pipe_event \<Rightarrow> captured list) \<Rightarrow> pipe_event list \<Rightarrow> captured list" where
  "trace_of f tr = concat (map f tr)"

lemma trace_of_simps [simp]:
  "trace_of f [] = []" "trace_of f (tr @ [e]) = trace_of f tr @ f e"
  by (simp_all add: trace_of_def)

definition queued :: "('s, 'e) pipe \<Rightarrow> captured list" where
  "queued st = concat (map batch_records (pi_queue st))"

subsection \<open>The invariant\<close>

definition batch_ok :: "packet_batch \<Rightarrow> bool" where
  "batch_ok b \<longleftrightarrow> batch_holds b (batch_records b)"

definition pipe_inv :: "pipe_event list \<Rightarrow> ('s, 'e) pipe \<Rightarrow> bool" where
  "pipe_inv tr st \<longleftrightarrow>
     pi_open st \<and> pi_batch st = batch_new \<and> list_all (\<lambda>b. b = batch_new) (pi_pool st) \<and>
     list_all (\<lambda>b. batch_ok b \<and> \<not> batch_is_empty b) (pi_queue st) \<and>
     (case pi_held st of None \<Rightarrow> True | Some b \<Rightarrow> batch_ok b) \<and>
     length (pi_queue st) \<le> batch_queue \<and>
     length (pi_pool st) + length (pi_queue st) + (case pi_held st of None \<Rightarrow> 0 | Some b \<Rightarrow> 1)
       = batch_queue + 1 \<and>
     pi_seen st = length (trace_of event_read tr) \<and> pi_dropped st = length (trace_of event_lost tr) \<and>
     subseq (trace_of event_taken tr @ queued st) (trace_of event_read tr) \<and>
     mset (trace_of event_read tr)
       = mset (trace_of event_lost tr) + mset (trace_of event_taken tr) + mset (queued st)"

lemma batch_ok_holds: "batch_holds b rs \<Longrightarrow> batch_ok b \<and> batch_records b = rs \<and> (batch_is_empty b \<longleftrightarrow> rs = [])"
  by (simp add: batch_ok_def batch_holds_def)

lemma pipe_inv_source [simp]:
  "pipe_inv tr (st\<lparr>pi_source := s\<rparr>) = pipe_inv tr st"
  "pipe_inv tr (st\<lparr>pi_driver := d\<rparr>) = pipe_inv tr st"
  "pipe_inv tr (st\<lparr>pi_result := r\<rparr>) = pipe_inv tr st"
  by (simp_all add: pipe_inv_def queued_def)

lemma sample_stats_simps [simp]:
  "pipe_inv tr (snd (sample_stats ops st)) = pipe_inv tr st"
  "pi_dropped (snd (sample_stats ops st)) = pi_dropped st"
  "pi_result (snd (sample_stats ops st)) = pi_result st"
  by (simp_all add: sample_stats_def case_prod_unfold)

lemma snoc_same: "list_all (\<lambda>b. b = x) xs \<Longrightarrow> xs @ [x] = x # xs"
  by (induction xs) auto

lemma pipe_inv_stopped [simp]: "pipe_inv (tr @ [Stopped]) st = pipe_inv tr st"
  by (simp add: pipe_inv_def)

lemma pipe_inv_start: "pipe_inv [] (pipe_start s)"
  by (simp add: pipe_inv_def pipe_start_def queued_def list_all_iff)

lemma subseq_extend: "subseq xs ys \<Longrightarrow> subseq xs (ys @ zs)"
  by (metis list_emb_append2 subseq_order.order_refl subseq_order.trans list_emb_prefix)

lemma pipe_inv_lost:
  assumes "pipe_inv tr st"
  shows "pipe_inv (tr @ [Turned rs rs])
    (st\<lparr>pi_seen := pi_seen st + length rs, pi_dropped := pi_dropped st + length rs\<rparr>)"
  using assms by (auto simp: pipe_inv_def queued_def intro: subseq_extend)

lemma pipe_inv_sent:
  assumes "pipe_inv tr st" "pi_pool st = spare # pool" "length (pi_queue st) < batch_queue"
    and "batch_holds b rs" "rs \<noteq> []"
  shows "pipe_inv (tr @ [Turned rs []])
    (st\<lparr>pi_seen := pi_seen st + length rs, pi_pool := pool, pi_queue := pi_queue st @ [b], pi_batch := spare\<rparr>)"
  using assms batch_ok_holds [OF assms(4)]
  by (auto simp: pipe_inv_def queued_def intro: list_emb_append_mono
      simp flip: append_assoc)

lemma forward_inv:
  assumes inv: "pipe_inv tr st" and h: "batch_holds b rs"
    and f: "forward (st\<lparr>pi_source := s, pi_batch := b\<rparr>) = (go, st')"
  shows "go \<and> pi_result st' = pi_result st \<and>
    pipe_inv (tr @ [Turned rs (if pi_dropped st' = pi_dropped st then [] else rs)]) st'"
proof (cases "rs = []")
  case True
  with h have "b = batch_new" by (simp add: batch_holds_def)
  with inv f True show ?thesis
    by (auto simp: forward_def Let_def pipe_inv_def queued_def)
next
  case False
  have n: "batch_len b = length rs" using h by (simp add: batch_holds_def)
  have b0: "pi_batch st = batch_new" "pi_open st" using inv by (simp_all add: pipe_inv_def)
  have st: "st\<lparr>pi_batch := batch_new\<rparr> = st" using b0 by simp
  consider (none) "pi_pool st = []" | (sent) spare pool where "pi_pool st = spare # pool" "length (pi_queue st) < batch_queue"
    | (full) spare pool where "pi_pool st = spare # pool" "\<not> length (pi_queue st) < batch_queue"
    by (cases "pi_pool st") auto
  then show ?thesis
  proof cases
    case none
    then have "forward (st\<lparr>pi_source := s, pi_batch := b\<rparr>) = (True, (st\<lparr>pi_seen := pi_seen st + length rs,
        pi_dropped := pi_dropped st + length rs\<rparr>) \<lparr>pi_source := s\<rparr>)"
      using False n b0 by (cases st) (simp add: forward_def Let_def)
    with f False pipe_inv_lost [OF inv, of rs] show ?thesis by auto
  next
    case sent
    then have "forward (st\<lparr>pi_source := s, pi_batch := b\<rparr>) = (True, (st\<lparr>pi_seen := pi_seen st + length rs,
        pi_pool := pool, pi_queue := pi_queue st @ [b], pi_batch := spare\<rparr>)\<lparr>pi_source := s\<rparr>)"
      using False n b0 by (cases st) (simp add: forward_def Let_def)
    with f pipe_inv_sent [OF inv sent h False] show ?thesis by auto
  next
    case full
    have sp: "spare = batch_new" "length pool < batch_queue + 1" "list_all (\<lambda>b. b = batch_new) pool"
      using inv full by (auto simp: pipe_inv_def)
    then have "pool @ [batch_new] = spare # pool"
      by (simp add: snoc_same)
    then have "forward (st\<lparr>pi_source := s, pi_batch := b\<rparr>) = (True, (st\<lparr>pi_seen := pi_seen st + length rs,
        pi_dropped := pi_dropped st + length rs\<rparr>) \<lparr>pi_source := s\<rparr>)"
      using False n b0 full sp by (cases st) (simp add: forward_def Let_def recycle_def)
    with f False pipe_inv_lost [OF inv, of rs] show ?thesis by auto
  qed
qed

text \<open>What the reader needs of a source's \<open>poll_batch\<close>: it only appends, and keeps the batch's bounds.\<close>

locale batch_source =
  fixes fill :: "'s \<Rightarrow> packet_batch \<Rightarrow> ('e collect_error + batch_poll) \<times> 's \<times> packet_batch"
  assumes fill_extends:
    "batch_holds b rs \<Longrightarrow> fill s b = (r, s', b') \<Longrightarrow> \<exists>qs. batch_holds b' (rs @ qs)"
begin

lemma turn_inv:
  assumes inv: "pipe_inv tr st" and ops: "so_fill ops = fill"
    and t: "reader_turn ops due st = (r, st')"
  shows "pipe_inv (tr @ [turn_event ops st st']) st' \<and> pi_result st' = pi_result st"
proof -
  obtain p s b where f: "fill (pi_source st) (pi_batch st) = (p, s, b)"
    by (metis surj_pair)
  have "batch_holds (pi_batch st) []"
    using inv by (simp add: pipe_inv_def)
  from fill_extends [OF this f] obtain rs where h: "batch_holds b rs" by auto
  obtain go st1 where fw: "forward (st\<lparr>pi_source := s, pi_batch := b\<rparr>) = (go, st1)"
    by (metis surj_pair)
  note fi = forward_inv [OF inv h fw]
  have s': "pipe_inv tr' st' = pipe_inv tr' st1" "pi_dropped st' = pi_dropped st1" "pi_result st' = pi_result st1"
    for tr'
    using t fi
    by (auto simp: reader_turn_def ops f fw Let_def split: sum.splits batch_poll.splits if_splits)
  have "turn_event ops st st' = Turned rs (if pi_dropped st1 = pi_dropped st then [] else rs)"
    using batch_ok_holds [OF h] by (simp add: turn_event_def ops f s' Let_def)
  with fi s' show ?thesis by simp
qed

lemma finish_inv [simp]: "pipe_inv tr (reader_finish ops r st) = pipe_inv tr st"
  using sample_stats_simps(1) [of tr ops st]
  by (simp add: reader_finish_def case_prod_unfold)

lemma step_inv:
  assumes "pipe_step ops st e st'" "pipe_inv tr st" "so_fill ops = fill"
  shows "pipe_inv (tr @ [e]) st'"
  using assms
proof cases
  case turn
  with turn_inv [OF assms(2,3) turn(3)] show ?thesis by simp
next
  case (last_turn due r st1)
  with turn_inv [OF assms(2,3) last_turn(4)] show ?thesis by (simp add: turn_event_def)
next
  case stop
  with assms(2) show ?thesis by simp
next
  case (take b q)
  with assms(2) show ?thesis by (auto simp: pipe_inv_def queued_def)
next
  case (recycle b)
  with assms(2) show ?thesis by (auto simp: pipe_inv_def queued_def Pipe.recycle_def)
qed

lemma run_inv:
  assumes "pipe_run ops (pipe_start s) tr st" "so_fill ops = fill"
  shows "pipe_inv tr st"
  using assms(1) by induction (auto intro: pipe_inv_start step_inv [OF _ _ assms(2)])

end

text \<open>What is in memory: the writer's batch, the queue and the reader's own.\<close>

definition in_memory :: "('s, 'e) pipe \<Rightarrow> nat" where
  "in_memory st = (\<Sum>b\<leftarrow>pi_queue st. batch_len b)
     + (case pi_held st of None \<Rightarrow> 0 | Some b \<Rightarrow> batch_len b) + batch_len (pi_batch st)"

lemma batch_ok_len: "batch_ok b \<Longrightarrow> batch_len b \<le> batch_packets"
  by (simp add: batch_ok_def batch_holds_def) (metis batch_of_simps(2))

lemma sum_list_le: "list_all (\<lambda>x. f x \<le> k) xs \<Longrightarrow> (\<Sum>x\<leftarrow>xs. f x) \<le> length xs * (k :: nat)"
  by (induction xs) auto

lemma inv_in_memory:
  assumes "pipe_inv tr st"
  shows "in_memory st + batch_packets \<le> packet_queue"
proof -
  have q: "(\<Sum>b\<leftarrow>pi_queue st. batch_len b) \<le> length (pi_queue st) * batch_packets"
    using assms by (intro sum_list_le) (auto simp: pipe_inv_def list_all_iff batch_ok_len)
  have h: "(case pi_held st of None \<Rightarrow> 0 | Some b \<Rightarrow> batch_len b)
      \<le> (case pi_held st of None \<Rightarrow> 0 | Some b \<Rightarrow> 1) * batch_packets"
    using assms by (auto simp: pipe_inv_def batch_ok_len split: option.splits)
  have "length (pi_queue st) + (case pi_held st of None \<Rightarrow> 0 | Some b \<Rightarrow> 1) \<le> batch_queue + 1"
    using assms by (simp add: pipe_inv_def split: option.splits)
  then have "(length (pi_queue st) + (case pi_held st of None \<Rightarrow> 0 | Some b \<Rightarrow> 1)) * batch_packets
      \<le> (batch_queue + 1) * batch_packets"
    by (rule mult_le_mono1)
  with q h assms show ?thesis
    by (simp add: in_memory_def packet_queue_def pipe_inv_def algebra_simps)
qed

interpretation default_poll: batch_source "poll_batch poll" for poll
  by unfold_locales (metis poll_batch_polls)

text \<open>
  C27: however the reading thread and the writer interleave, every record read from the source is
  accounted for exactly once: it was delivered to the writer, waits in the queue, or is counted as
  dropped; what is delivered and queued keeps the order of the source. The 33 pooled buffers are never
  lost or multiplied, and at most 8704 records are in memory.
\<close>

theorem reader_accounts:
  assumes "pipe_run ops (pipe_start s) tr st" "so_fill ops = poll_batch poll"
  shows "pi_seen st = length (trace_of event_read tr) \<and>
    pi_dropped st = length (trace_of event_lost tr) \<and>
    mset (trace_of event_read tr)
      = mset (trace_of event_lost tr) + mset (trace_of event_taken tr) + mset (queued st) \<and>
    subseq (trace_of event_taken tr @ queued st) (trace_of event_read tr) \<and>
    length (pi_pool st) + length (pi_queue st) + (case pi_held st of None \<Rightarrow> 0 | Some b \<Rightarrow> 1)
      = batch_queue + 1 \<and>
    in_memory st + batch_packets \<le> packet_queue"
  using default_poll.run_inv [OF assms] inv_in_memory [OF default_poll.run_inv [OF assms]]
  unfolding pipe_inv_def by blast

definition sample_ops :: "(nat, unit) source_ops" where
  "sample_ops = \<lparr>so_fill = poll_batch sample_poll, so_stats = (\<lambda>n. (None, n)), so_wait = id\<rparr>"

lemma batch_queue_pos: "0 < batch_queue"
  by (simp add: batch_queue_def)

lemma sample_fill:
  "poll_batch sample_poll 1 batch_new = (Inr Batch_end, 0, batch_of [sample_record])"
proof -
  have "has_room (batch_of [])" "has_room (batch_of [sample_record])"
    unfolding has_room_def batch_of_simps(1,2)
    by (simp_all add: batch_packets_def batch_bytes_def sample_record_def)
  then show ?thesis
    using batch_push_of [of "[]" 10 20 64 "[1, 2, 3]", where ?'a = unit]
    by (simp add: poll_batch.simps sample_poll_def sample_record_def)
qed

lemma sample_pipe:
  "\<exists>tr st. pipe_run sample_ops (pipe_start 1) tr st \<and> trace_of event_taken tr = [sample_record] \<and>
     pi_seen st = 1 \<and> pi_dropped st = 0"
proof -
  let ?fw = "forward ((pipe_start 1 :: (nat, unit) pipe)\<lparr>pi_source := 0, pi_batch := batch_of [sample_record]\<rparr>)"
  let ?st1 = "snd ?fw"
  have fw: "fst ?fw" "pi_queue ?st1 = [batch_of [sample_record]]" "pi_held ?st1 = None" "pi_dropped ?st1 = 0"
      "pi_seen ?st1 = 1"
    by (simp_all add: forward_def pipe_start_def Let_def batch_queue_pos)
  have t: "reader_turn sample_ops False (pipe_start 1) = (Some (Inr ()), ?st1)"
    using fw(1) sample_fill by (simp add: reader_turn_def sample_ops_def pipe_start_def case_prod_unfold)
  let ?st2 = "reader_finish sample_ops (Inr ()) ?st1"
  have ev: "turn_event sample_ops (pipe_start 1) ?st1 = Turned [sample_record] []"
    using fw(4) sample_fill by (simp add: turn_event_def sample_ops_def pipe_start_def)
  have s2: "pi_queue ?st2 = [batch_of [sample_record]]" "pi_held ?st2 = None"
    using fw by (simp_all add: reader_finish_def sample_stats_def sample_ops_def case_prod_unfold)
  have "pipe_step sample_ops (pipe_start 1) (turn_event sample_ops (pipe_start 1) ?st1) ?st2"
    by (rule pipe_step.last_turn [OF _ t]) (simp add: pipe_start_def)
  then have "pipe_run sample_ops (pipe_start 1) [Turned [sample_record] []] ?st2"
    using pipe_run.next_step [OF pipe_run.none] ev by fastforce
  from pipe_run.next_step [OF this pipe_step.take [OF s2(2,1)]]
  obtain st where r: "pipe_run sample_ops (pipe_start 1) [Turned [sample_record] [], Taken [sample_record]] st"
    by auto
  moreover from default_poll.run_inv [OF r, of sample_poll]
  have "pi_seen st = 1" "pi_dropped st = 0"
    by (simp_all add: sample_ops_def pipe_inv_def trace_of_def)
  ultimately show ?thesis using r by (force simp: trace_of_def)
qed

theorem reader_accounts_witness:
  "\<exists>tr st. pipe_run sample_ops (pipe_start 1) tr st \<and>
    trace_of event_taken tr = [sample_record] \<and> pi_seen st = 1 \<and> pi_dropped st = 0 \<and>
    in_memory st + batch_packets \<le> packet_queue"
proof -
  obtain tr st where r: "pipe_run sample_ops (pipe_start 1) tr st" "trace_of event_taken tr = [sample_record]"
      "pi_seen st = 1" "pi_dropped st = 0"
    using sample_pipe by blast
  with reader_accounts [OF r(1), of sample_poll] show ?thesis
    by (auto simp: sample_ops_def)
qed

end
