(* ===== verification/Publish.thy ===== *)
theory Publish
  imports Collector_Facts Pipe Btree Utf8 "HOL-Library.List_Lexorder"
begin

text \<open>
  Publication in \<open>crates/netlane-capture/src/collection.rs\<close>: two workers flush, sync and rename the
  segments handed over, in any order; the finalizer puts their results back into capture order, offers
  each to the live analysis and collects the published segments; \<open>run\<close> sums them up in a receipt. The
  result of every worker's file operations is an argument.
\<close>

record segment =
  sg_file :: string
  sg_packets :: nat
  sg_bytes :: nat
  sg_sha :: string

definition segment_file :: "nat \<Rightarrow> string" where
  "segment_file index =
     ''segment-'' @ replicate (4 - length (dec index)) (CHR ''0'') @ dec index @ ''.pcap''"

text \<open>\<open>Writer::close\<close>; \<open>failure\<close> is the operation of it that fails, if any.\<close>

definition writer_close ::
    "(u8 list \<Rightarrow> string) \<Rightarrow> close_failure option \<Rightarrow> writer \<Rightarrow> publish_error + segment" where
  "writer_close sha failure w =
     (case failure of
        Some f \<Rightarrow> Inl (Close_failed f)
      | None \<Rightarrow> Inr \<lparr>sg_file = segment_file (w_index w), sg_packets = w_packets w, sg_bytes = w_bytes w,
                    sg_sha = sha (w_hashed w)\<rparr>)"

record finalizing =
  fz_failed :: bool
  fz_stop :: bool
  fz_written :: nat
  fz_segments :: nat

text \<open>A worker with a segment; \<open>saw\<close> is the flag it read, which another worker may have just set.\<close>

definition finish_writer ::
    "(u8 list \<Rightarrow> string) \<Rightarrow> bool \<Rightarrow> close_failure option \<Rightarrow> writer \<Rightarrow> finalizing
     \<Rightarrow> (nat \<times> (publish_error + segment)) \<times> finalizing" where
  "finish_writer sha saw failure w fz =
     (if saw then ((w_index w, Inl Publishing_stopped), fz)
      else
        (case writer_close sha failure w of
           Inr s \<Rightarrow> ((w_index w, Inr s),
              fz\<lparr>fz_written := fz_written fz + sg_packets s, fz_segments := fz_segments fz + 1\<rparr>)
         | Inl e \<Rightarrow> ((w_index w, Inl e), fz\<lparr>fz_failed := True, fz_stop := True\<rparr>)))"

subsection \<open>Back into capture order\<close>

record ordering =
  or_pending :: "(nat \<times> (publish_error + segment)) list"
  or_next :: nat
  or_published :: "segment list"
  or_sent :: "segment list"
  or_skipped :: nat
  or_error :: "publish_error option"

definition ordering_new :: ordering where
  "ordering_new =
     \<lparr>or_pending = [], or_next = 1, or_published = [], or_sent = [], or_skipped = 0, or_error = None\<rparr>"

text \<open>\<open>full\<close> says whether the analysis queue is full at the given attempt.\<close>

definition deliver_next :: "(nat \<Rightarrow> bool) \<Rightarrow> publish_error + segment \<Rightarrow> ordering \<Rightarrow> ordering" where
  "deliver_next full r st =
     (case r of
        Inr s \<Rightarrow>
          let st = (if full (length (or_published st)) then st\<lparr>or_skipped := or_skipped st + 1\<rparr>
                    else st\<lparr>or_sent := or_sent st @ [s]\<rparr>) in
          st\<lparr>or_published := or_published st @ [s]\<rparr>
      | Inl e \<Rightarrow> st\<lparr>or_error := (if or_error st = None then Some e else or_error st)\<rparr>)"

function deliver_ready :: "(nat \<Rightarrow> bool) \<Rightarrow> ordering \<Rightarrow> ordering" where
  "deliver_ready full st =
     (case map_of (or_pending st) (or_next st) of
        None \<Rightarrow> st
      | Some r \<Rightarrow>
          deliver_ready full ((deliver_next full r (st\<lparr>or_pending := bt_remove (or_next st) (or_pending st)\<rparr>))
            \<lparr>or_next := or_next st + 1\<rparr>))"
  by pat_completeness auto
termination
proof (relation "measure (\<lambda>(full, st). length (or_pending st))", goal_cases)
  case 1
  then show ?case by simp
next
  case (2 full st r)
  then have "(or_next st, r) \<in> set (or_pending st)"
    by (rule map_of_SomeD)
  then have "length (bt_remove (or_next st) (or_pending st)) < length (or_pending st)"
    unfolding bt_remove_def by (intro length_filter_less) auto
  then show ?case
    by (auto simp: deliver_next_def Let_def split: sum.splits)
qed

declare deliver_ready.simps [simp del]

definition reorder :: "(nat \<Rightarrow> bool) \<Rightarrow> nat \<times> (publish_error + segment) \<Rightarrow> ordering \<Rightarrow> ordering" where
  "reorder full c st = deliver_ready full (st\<lparr>or_pending := bt_put (fst c) (snd c) (or_pending st)\<rparr>)"

text \<open>After the workers have gone: what could not be put in order is kept, and all is sorted by name.\<close>

definition finish_order :: "bool \<Rightarrow> ordering \<Rightarrow> ordering" where
  "finish_order workers_ok st =
     (let rest = concat (map (\<lambda>kr. case snd kr of Inl e \<Rightarrow> [] | Inr s \<Rightarrow> [s]) (or_pending st)) in
      st\<lparr>or_pending := [], or_skipped := or_skipped st + length rest,
         or_error := (if workers_ok then or_error st else Some Workers_failed),
         or_published := sort_key (\<lambda>s. map code (sg_file s)) (or_published st @ rest)\<rparr>)"

definition finalize :: "(nat \<Rightarrow> bool) \<Rightarrow> bool \<Rightarrow> (nat \<times> (publish_error + segment)) list \<Rightarrow> ordering" where
  "finalize full workers_ok completions = finish_order workers_ok (fold (reorder full) completions ordering_new)"

subsection \<open>The receipt\<close>

record 'e run_receipt =
  cr_reason :: "'e stop_reason"
  cr_source_closed :: bool
  cr_seen :: nat
  cr_buffered :: nat
  cr_written :: nat
  cr_bytes :: nat
  cr_queue_dropped :: nat
  cr_unwritten :: nat
  cr_driver :: "driver_stats option"
  cr_totals :: "driver_totals option"
  cr_analysis_skipped :: nat
  cr_segments :: "segment list"

text \<open>
  The end of \<open>run\<close>: \<open>r\<close> is the result of the collection, \<open>st\<close> and \<open>fin\<close> what it and the finalizer left
  (\<open>None\<close> when the finalizer itself failed), \<open>seen\<close>, \<open>dropped\<close> and \<open>totals\<close> the reader's counters.
\<close>

definition collection_receipt ::
    "'e collect_error + unit \<Rightarrow> 'e collecting \<Rightarrow> ordering option \<Rightarrow> nat \<Rightarrow> nat \<Rightarrow> driver_totals \<Rightarrow> 'e run_receipt" where
  "collection_receipt r st fin seen dropped totals =
     (let segs = (case fin of None \<Rightarrow> [] | Some f \<Rightarrow> or_published f);
          perror = (case fin of None \<Rightarrow> Some Workers_failed | Some f \<Rightarrow> or_error f);
          written = (\<Sum>s\<leftarrow>segs. sg_packets s) in
      \<lparr>cr_reason = (case r of Inl e \<Rightarrow> Failed e
          | Inr _ \<Rightarrow> (case perror of Some e \<Rightarrow> Unpublished e | None \<Rightarrow> co_reason st)),
       cr_source_closed = co_source_closed st, cr_seen = seen, cr_buffered = co_buffered st,
       cr_written = written, cr_bytes = (\<Sum>s\<leftarrow>segs. sg_bytes s), cr_queue_dropped = dropped,
       cr_unwritten = seen - written - dropped, cr_driver = co_driver st, cr_totals = driver_total totals,
       cr_analysis_skipped = (case fin of None \<Rightarrow> 0 | Some f \<Rightarrow> or_skipped f), cr_segments = segs\<rparr>)"

subsection \<open>The whole run\<close>

text \<open>\<open>new_json\<close>: a new file, its value, a newline and a sync, each of which may fail.\<close>

definition new_json :: "collect_env \<Rightarrow> ('e, unit) collect" where
  "new_json env =
     (let op = (\<lambda>st. fallible env (Disk_failed (co_io st)) st) in
      sbind op (\<lambda>_. sbind op (\<lambda>_. sbind op (\<lambda>_. op))))"

text \<open>What \<open>run\<close> asks for before it opens the source: valid options and a new absolute directory.\<close>

definition collection_setup :: "collect_env \<Rightarrow> options \<Rightarrow> bool \<Rightarrow> bool \<Rightarrow> ('e, unit) collect" where
  "collection_setup env opts is_absolute already_there =
     sbind (spure (options_validate opts)) (\<lambda>_.
     sbind (spure (ensure (is_absolute \<and> \<not> already_there) Bad_directory)) (\<lambda>_.
     sbind (read_stop env) (\<lambda>stopped.
     sbind (spure (ensure (\<not> stopped) Cancelled_before)) (\<lambda>_.
     sbind (\<lambda>st. fallible env (Disk_failed (co_io st)) st) (\<lambda>_.
       new_json env)))))"

text \<open>
  \<open>run\<close>: \<open>started\<close> is the result of \<open>Producer::start\<close> with the link type, \<open>closed\<close> that of
  \<open>Producer::finish\<close>, and \<open>fin_of\<close> what the finalizer makes of the segments it was given. Whatever the
  collection itself ran into becomes the reason of a receipt, which is written to a file of its own.
\<close>

definition collection_run ::
    "collect_env \<Rightarrow> options \<Rightarrow> bool \<Rightarrow> bool \<Rightarrow> 'e collect_error + nat \<Rightarrow> arrival list
     \<Rightarrow> 'e collect_error + driver_stats option \<Rightarrow> (writer list \<Rightarrow> ordering option)
     \<Rightarrow> nat \<Rightarrow> nat \<Rightarrow> driver_totals \<Rightarrow> ('e, 'e run_receipt) collect" where
  "collection_run env opts is_absolute already_there started arrivals closed fin_of seen dropped totals =
     sbind (collection_setup env opts is_absolute already_there) (\<lambda>_ st.
       case (case started of
               Inl e \<Rightarrow> (Inl e, st)
             | Inr link \<Rightarrow> collect_core (env\<lparr>ce_link := link\<rparr>) opts arrivals closed st) of (r, st) \<Rightarrow>
         let receipt = collection_receipt r st (fin_of (co_closed st)) seen dropped totals in
         sbind (new_json env) (\<lambda>_. spure (Inr receipt)) st)"

text \<open>Nothing is published before the setup has succeeded.\<close>

lemma setup_failure:
  "collection_setup env opts is_absolute already_there st = (Inl e, st') \<Longrightarrow>
     collection_run env opts is_absolute already_there started arrivals closed fin_of seen dropped totals st
       = (Inl e, st')"
  by (simp add: collection_run_def sbind_def)

lemma setup_keeps:
  "collection_setup env opts is_absolute already_there st = (r, st') \<Longrightarrow>
     co_closed st' = co_closed st \<and> co_writer st' = co_writer st"
  by (auto simp: collection_setup_def new_json_def sbind_def fallible_def read_stop_def Let_def
      split: sum.splits if_splits)

end
