(* ===== verification/Publish_Facts.thy ===== *)
theory Publish_Facts
  imports Publish
begin

text \<open>
  Publication keeps the capture order whatever the order in which the workers finish, and the receipt
  accounts for every packet read.
\<close>

subsection \<open>Names in order\<close>

fun digits :: "nat \<Rightarrow> nat \<Rightarrow> nat list" where
  "digits 0 n = []"
| "digits (Suc k) n = digits k (n div 10) @ [48 + n mod 10]"

lemma length_digits [simp]: "length (digits k n) = k"
  by (induction k arbitrary: n) auto

lemma digits_zero: "digits k 0 = replicate k 48"
  by (induction k) (auto simp: replicate_append_same)

lemma code_digit: "d < 10 \<Longrightarrow> code (digit_char d) = 48 + d"
  by (simp add: digit_char_def)

lemma padded_digits:
  "n < 10 ^ k \<Longrightarrow> 0 < k \<Longrightarrow> map code (replicate (k - length (dec n)) (CHR ''0'') @ dec n) = digits k n"
proof (induction k arbitrary: n)
  case 0
  then show ?case by simp
next
  case (Suc k)
  have z: "code (CHR ''0'') = 48"
    by (simp add: code_def)
  show ?case
  proof (cases "n < 10")
    case True
    then have "dec n = [digit_char n]" by (simp add: dec_step)
    with True z show ?thesis by (simp add: digits_zero code_digit)
  next
    case False
    have d: "dec n = dec (n div 10) @ [digit_char (n mod 10)]"
      using False dec_step [of n] by simp
    have "0 < k" using Suc.prems False by (cases k) auto
    moreover have "n div 10 < 10 ^ k" using Suc.prems by (simp add: less_mult_imp_div_less mult.commute)
    ultimately show ?thesis
      using Suc.IH [of "n div 10"] by (simp add: d code_digit)
  qed
qed

lemma digits_less: "i < j \<Longrightarrow> j < 10 ^ k \<Longrightarrow> digits k i < digits k j"
proof (induction k arbitrary: i j)
  case 0
  then show ?case by simp
next
  case (Suc k)
  show ?case
  proof (cases "i div 10 < j div 10")
    case True
    moreover have "j div 10 < 10 ^ k" using Suc.prems by (simp add: less_mult_imp_div_less mult.commute)
    ultimately have "(digits k (i div 10), digits k (j div 10)) \<in> lexord {(u, v). u < v}"
      using Suc.IH by (simp add: list_less_def)
    then show ?thesis by (simp add: list_less_def lexord_sufI)
  next
    case False
    have "i div 10 \<le> j div 10" using Suc.prems(1) by (simp add: div_le_mono)
    with False have "i div 10 = j div 10" by simp
    moreover from this have "i mod 10 < j mod 10"
      using Suc.prems(1) by (metis mult_div_mod_eq nat_add_left_cancel_less)
    ultimately show ?thesis
      by (simp add: list_less_def) (rule lexord_append_leftI, simp)
  qed
qed

definition name_key :: "nat \<Rightarrow> nat list" where
  "name_key i = map code (segment_file i)"

lemma name_key_less:
  assumes "i < j" "j < 10000"
  shows "name_key i < name_key j"
proof -
  have k: "name_key n = map code ''segment-'' @ digits 4 n @ map code ''.pcap''" if "n < 10000" for n
    using padded_digits [of n 4] that by (simp add: name_key_def segment_file_def flip: append_assoc)
  have "(digits 4 i, digits 4 j) \<in> lexord {(u, v). u < v}"
    using digits_less [of i j 4] assms by (simp add: list_less_def)
  then have "(map code ''segment-'' @ digits 4 i @ map code ''.pcap'',
      map code ''segment-'' @ digits 4 j @ map code ''.pcap'') \<in> lexord {(u, v). u < v}"
    by (intro lexord_append_leftI lexord_sufI) simp_all
  with assms show ?thesis
    by (simp only: k [OF assms(2)] k [OF less_trans [OF assms]] list_less_def)
qed

subsection \<open>Capture order\<close>

fun oks :: "('e + 'a) list \<Rightarrow> 'a list" where
  "oks [] = []"
| "oks (Inl e # rs) = oks rs"
| "oks (Inr s # rs) = s # oks rs"

fun first_error :: "('e + 'a) list \<Rightarrow> 'e option" where
  "first_error [] = None"
| "first_error (Inl e # rs) = Some e"
| "first_error (Inr s # rs) = first_error rs"

lemma oks_append [simp]: "oks (rs @ qs) = oks rs @ oks qs"
  by (induction rs rule: oks.induct) auto

lemma first_error_append [simp]:
  "first_error (rs @ qs) = (if first_error rs = None then first_error qs else first_error rs)"
  by (induction rs rule: first_error.induct) auto

text \<open>The results \<open>rs\<close> in capture order, of which those numbered \<open>S\<close> have arrived.\<close>

definition ord_inv :: "(publish_error + segment) list \<Rightarrow> nat set \<Rightarrow> ordering \<Rightarrow> bool" where
  "ord_inv rs S st \<longleftrightarrow>
     0 < or_next st \<and> or_next st \<le> Suc (length rs) \<and> {1..<or_next st} \<subseteq> S \<and> bt_ok (or_pending st) \<and>
     map_of (or_pending st) = (\<lambda>i. if i \<in> S \<and> or_next st \<le> i then Some (rs ! (i - 1)) else None) \<and>
     or_published st = oks (take (or_next st - 1) rs) \<and>
     or_error st = first_error (take (or_next st - 1) rs) \<and>
     subseq (or_sent st) (or_published st) \<and>
     length (or_sent st) + or_skipped st = length (or_published st)"

lemma deliver_next_fields:
  "or_pending (deliver_next full r st) = or_pending st" "or_next (deliver_next full r st) = or_next st"
  "or_published (deliver_next full r st) = or_published st @ oks [r]"
  "or_error (deliver_next full r st) = (if or_error st = None then first_error [r] else or_error st)"
  "subseq (or_sent st) (or_published st) \<Longrightarrow>
     subseq (or_sent (deliver_next full r st)) (or_published (deliver_next full r st))"
  "length (or_sent st) + or_skipped st = length (or_published st) \<Longrightarrow>
     length (or_sent (deliver_next full r st)) + or_skipped (deliver_next full r st)
       = length (or_published (deliver_next full r st))"
  by (cases r; simp add: deliver_next_def Let_def subseq_extend list_emb_append_mono)+

lemma deliver_inv:
  assumes inv: "ord_inv rs S st" and S: "S \<subseteq> {1..length rs}" and r: "map_of (or_pending st) (or_next st) = Some r"
  shows "ord_inv rs S ((deliver_next full r (st\<lparr>or_pending := bt_remove (or_next st) (or_pending st)\<rparr>))
    \<lparr>or_next := or_next st + 1\<rparr>)"
proof -
  let ?n = "or_next st"
  have n: "?n \<in> S" "r = rs ! (?n - 1)" "0 < ?n"
    using inv r by (auto simp: ord_inv_def split: if_splits)
  then have l: "?n - 1 < length rs" using S by auto
  have t: "take ?n rs = take (?n - 1) rs @ [r]"
    using take_Suc_conv_app_nth [OF l] n by simp
  have "{1..<?n + 1} \<subseteq> S"
    using inv n(1) by (auto simp: ord_inv_def less_Suc_eq)
  moreover define d where "d = deliver_next full r (st\<lparr>or_pending := bt_remove ?n (or_pending st)\<rparr>)"
  moreover have "or_published d = oks (take ?n rs)" "or_error d = first_error (take ?n rs)"
      "or_pending d = bt_remove ?n (or_pending st)"
    using inv t by (auto simp: d_def deliver_next_fields ord_inv_def)
  moreover have "subseq (or_sent d) (or_published d)" "length (or_sent d) + or_skipped d = length (or_published d)"
    unfolding d_def using inv by (auto simp: ord_inv_def intro!: deliver_next_fields(5,6))
  ultimately show ?thesis
    using inv n l unfolding d_def [symmetric] by (auto simp: ord_inv_def map_of_bt_remove fun_eq_iff)
qed

lemma deliver_ready_inv:
  "ord_inv rs S st \<Longrightarrow> S \<subseteq> {1..length rs} \<Longrightarrow> ord_inv rs S (deliver_ready full st) \<and> or_next (deliver_ready full st) \<notin> S"
proof (induction full st rule: deliver_ready.induct)
  case (1 full st)
  show ?case
  proof (cases "map_of (or_pending st) (or_next st)")
    case None
    then have "or_next st \<notin> S"
      using "1.prems"(1) by (auto simp: ord_inv_def split: if_splits)
    with None "1.prems" show ?thesis by (simp add: deliver_ready.simps [of full st])
  next
    case (Some r)
    from "1.IH" [OF Some deliver_inv [OF "1.prems" Some] "1.prems"(2)] Some show ?thesis
      by (simp add: deliver_ready.simps [of full st])
  qed
qed

lemma reorder_inv:
  assumes "ord_inv rs S st" "i \<notin> S" "insert i S \<subseteq> {1..length rs}"
  shows "ord_inv rs (insert i S) (reorder full (i, rs ! (i - 1)) st) \<and>
    or_next (reorder full (i, rs ! (i - 1)) st) \<notin> insert i S"
proof -
  have "or_next st \<le> i"
    using assms by (auto simp: ord_inv_def) (meson assms(2) atLeastLessThan_iff in_mono not_less)
  then have "ord_inv rs (insert i S) (st\<lparr>or_pending := bt_put i (rs ! (i - 1)) (or_pending st)\<rparr>)"
    using assms by (auto simp: ord_inv_def fun_eq_iff)
  from deliver_ready_inv [OF this assms(3)] show ?thesis by (simp add: reorder_def)
qed

lemma reorder_all:
  assumes "distinct (map fst cs)" "fst ` set cs \<inter> S = {}" "fst ` set cs \<union> S \<subseteq> {1..length rs}"
    and "\<And>c. c \<in> set cs \<Longrightarrow> snd c = rs ! (fst c - 1)" "ord_inv rs S st" "or_next st \<notin> S"
  shows "ord_inv rs (fst ` set cs \<union> S) (fold (reorder full) cs st) \<and>
    or_next (fold (reorder full) cs st) \<notin> fst ` set cs \<union> S"
  using assms
proof (induction cs arbitrary: S st)
  case Nil
  then show ?case by simp
next
  case (Cons c cs)
  have c: "c = (fst c, rs ! (fst c - 1))"
    using Cons.prems(4) [of c] by (metis list.set_intros(1) prod.collapse)
  have "ord_inv rs (insert (fst c) S) (reorder full c st) \<and> or_next (reorder full c st) \<notin> insert (fst c) S"
    using reorder_inv [of rs S st "fst c" full] Cons.prems(2,3,5) c by auto
  then have "ord_inv rs (fst ` set cs \<union> insert (fst c) S) (fold (reorder full) cs (reorder full c st)) \<and>
      or_next (fold (reorder full) cs (reorder full c st)) \<notin> fst ` set cs \<union> insert (fst c) S"
    using Cons.prems(1-4) by (intro Cons.IH) auto
  then show ?case by (simp add: Un_commute)
qed

definition fz_new :: finalizing where
  "fz_new = \<lparr>fz_failed = False, fz_stop = False, fz_written = 0, fz_segments = 0\<rparr>"

text \<open>A job is a segment with what its worker saw and ran into; the result it reports.\<close>

definition job_result ::
    "(u8 list \<Rightarrow> string) \<Rightarrow> writer \<times> bool \<times> close_failure option \<Rightarrow> nat \<times> (publish_error + segment)" where
  "job_result sha job = (case job of (w, saw, failure) \<Rightarrow> fst (finish_writer sha saw failure w fz_new))"

lemma job_result_cases:
  "fst (job_result sha job) = w_index (fst job)"
  "snd (job_result sha job) = Inr s \<Longrightarrow>
     s = \<lparr>sg_file = segment_file (w_index (fst job)), sg_packets = w_packets (fst job), sg_bytes = w_bytes (fst job),
          sg_sha = sha (w_hashed (fst job))\<rparr>"
  by (auto simp: job_result_def finish_writer_def writer_close_def split: prod.splits if_splits option.splits sum.splits)

definition outcomes ::
    "(u8 list \<Rightarrow> string) \<Rightarrow> (writer \<times> bool \<times> close_failure option) list \<Rightarrow> (publish_error + segment) list" where
  "outcomes sha jobs = map (\<lambda>j. snd (job_result sha j)) jobs"

lemma outcomes_simps [simp]:
  "outcomes sha [] = []" "outcomes sha (j # jobs) = snd (job_result sha j) # outcomes sha jobs"
  "length (outcomes sha jobs) = length jobs" "k < length jobs \<Longrightarrow> outcomes sha jobs ! k = snd (job_result sha (jobs ! k))"
  by (simp_all add: outcomes_def)

lemma oks_sorted:
  assumes "map (w_index \<circ> fst) jobs = [a..<b]" "b \<le> 10000"
  shows "sorted (map (\<lambda>s. map code (sg_file s)) (oks (outcomes sha jobs))) \<and>
    (\<forall>s \<in> set (oks (outcomes sha jobs)). \<exists>i \<ge> a. i < b \<and> sg_file s = segment_file i)"
  using assms
proof (induction jobs arbitrary: a)
  case Nil
  then show ?case by simp
next
  case (Cons j jobs)
  have a: "a < b" "w_index (fst j) = a" "map (w_index \<circ> fst) jobs = [Suc a..<b]"
    using Cons.prems(1) [symmetric] by (auto simp: upt_eq_Cons_conv comp_def)
  note ih = Cons.IH [OF a(3) Cons.prems(2)]
  show ?case
  proof (cases "snd (job_result sha j)")
    case (Inl e)
    with ih show ?thesis by (auto intro: Suc_leD)
  next
    case (Inr s)
    have "sg_file s = segment_file a"
      using job_result_cases(2) [OF Inr] a by simp
    moreover have "map code (segment_file a) \<le> map code (sg_file s')"
      if s': "s' \<in> set (oks (outcomes sha jobs))" for s'
    proof -
      obtain i where i: "Suc a \<le> i" "i < b" "sg_file s' = segment_file i"
        using ih s' by blast
      then show ?thesis using name_key_less [of a i] Cons.prems(2) by (simp add: name_key_def)
    qed
    moreover have "\<exists>i \<ge> a. i < b \<and> sg_file s' = segment_file i" if "s' \<in> set (oks (outcomes sha jobs))" for s'
      using ih that by (meson Suc_leD)
    ultimately show ?thesis
      using ih Inr a(1) by auto
  qed
qed

lemma finalize_facts:
  assumes m: "mset cs = mset (map (job_result sha) jobs)"
    and idx: "map (w_index \<circ> fst) jobs = [1..<Suc (length jobs)]" and n: "length jobs \<le> max_segments"
  shows "or_published (finalize full True cs) = oks (outcomes sha jobs) \<and>
    or_error (finalize full True cs) = first_error (outcomes sha jobs) \<and>
    subseq (or_sent (finalize full True cs)) (or_published (finalize full True cs)) \<and>
    length (or_sent (finalize full True cs)) + or_skipped (finalize full True cs)
      = length (or_published (finalize full True cs))"
proof -
  let ?rs = "outcomes sha jobs"
  have w: "w_index (fst (jobs ! k)) = Suc k" if "k < length jobs" for k
    using arg_cong [OF idx, of "\<lambda>xs. xs ! k"] that by (simp del: upt_Suc)
  have fsts: "map fst (map (job_result sha) jobs) = [1..<Suc (length jobs)]"
    using idx by (simp add: job_result_cases(1) comp_def del: upt_Suc)
  then have d: "distinct (map fst cs)"
    using m by (metis distinct_upt mset_eq_imp_distinct_iff mset_map)
  have s: "set cs = set (map (job_result sha) jobs)"
    using m by (rule mset_eq_setD)
  have S: "fst ` set cs = {1..length ?rs}"
    using arg_cong [OF fsts, of set] by (simp add: s image_image atLeastLessThanSuc_atLeastAtMost del: upt_Suc)
  have r: "snd c = ?rs ! (fst c - 1)" if c: "c \<in> set cs" for c
  proof -
    obtain k where k: "k < length jobs" "c = job_result sha (jobs ! k)"
      using c unfolding s by (auto simp: in_set_conv_nth)
    then show ?thesis by (simp add: job_result_cases(1) w)
  qed
  have "ord_inv ?rs {} ordering_new" "or_next ordering_new \<notin> {}"
    by (auto simp: ord_inv_def ordering_new_def fun_eq_iff)
  with reorder_all [OF d _ _ r, of "{}" ordering_new full] S
  have f: "ord_inv ?rs {1..length ?rs} (fold (reorder full) cs ordering_new)"
      "or_next (fold (reorder full) cs ordering_new) \<notin> {1..length ?rs}"
    by auto
  define f where "f = fold (reorder full) cs ordering_new"
  have nx: "or_next f = Suc (length ?rs)"
    using f unfolding f_def [symmetric] by (auto simp: ord_inv_def)
  then have "map_of (or_pending f) = Map.empty"
    using f(1) unfolding f_def [symmetric] by (auto simp: ord_inv_def fun_eq_iff)
  then have p: "or_pending f = []" by simp
  have "sorted (map (\<lambda>s. map code (sg_file s)) (oks ?rs))"
    using oks_sorted [OF idx] n by (simp add: max_segments_def)
  then have "sort_key (\<lambda>s. map code (sg_file s)) (oks ?rs) = oks ?rs"
    by (rule sort_key_id_if_sorted)
  with f(1) nx p show ?thesis
    unfolding finalize_def f_def [symmetric] by (auto simp: finish_order_def Let_def ord_inv_def)
qed

text \<open>
  C28: in whatever order the two workers finish, the published segments come out in capture order, the
  error reported is the first in that order, and what is offered to the live analysis is in that order
  too, so that an older segment never replaces a newer view; what is not offered is counted.
\<close>

theorem publication_in_order:
  assumes "mset completions = mset (map (job_result sha) jobs)"
    and "map (w_index \<circ> fst) jobs = [1..<Suc (length jobs)]" "length jobs \<le> max_segments"
  shows "let fin = finalize full True completions; rs = outcomes sha jobs in
    or_published fin = oks rs \<and> or_error fin = first_error rs \<and> subseq (or_sent fin) (oks rs) \<and>
    length (or_sent fin) + or_skipped fin = length (oks rs)"
  using finalize_facts [OF assms, of full] by (auto simp: Let_def)

definition sample_writer :: "nat \<Rightarrow> writer" where
  "sample_writer i = \<lparr>w_index = i, w_file = [7], w_hashed = [7], w_bytes = 1, w_packets = 1, w_started = 0\<rparr>"

theorem publication_in_order_witness:
  "map sg_file (or_published (finalize (\<lambda>_. False) True
     [job_result (\<lambda>_. []) (sample_writer 2, False, None), job_result (\<lambda>_. []) (sample_writer 1, False, None)]))
   = [segment_file 1, segment_file 2]"
  using publication_in_order [of "[job_result (\<lambda>_. []) (sample_writer 2, False, None),
      job_result (\<lambda>_. []) (sample_writer 1, False, None)]" "\<lambda>_. []"
      "[(sample_writer 1, False, None), (sample_writer 2, False, None)]" "\<lambda>_. False"]
  by (simp add: Let_def sample_writer_def max_segments_def job_result_def finish_writer_def writer_close_def)

subsection \<open>The receipt\<close>

lemma oks_sum:
  assumes "list_all2 (\<lambda>w rs. w_packets w = length rs) (map fst jobs) ss"
  shows "(\<Sum>s\<leftarrow>oks (outcomes sha jobs). sg_packets s) \<le> length (concat ss) \<and>
    (first_error (outcomes sha jobs) = None \<longrightarrow>
       (\<Sum>s\<leftarrow>oks (outcomes sha jobs). sg_packets s) = length (concat ss))"
  using assms
proof (induction jobs arbitrary: ss)
  case Nil
  then show ?case by simp
next
  case (Cons j jobs)
  obtain rs ss' where ss: "ss = rs # ss'" "w_packets (fst j) = length rs"
      "list_all2 (\<lambda>w rs. w_packets w = length rs) (map fst jobs) ss'"
    using Cons.prems by (auto simp: list_all2_Cons1)
  show ?case
    using Cons.IH [OF ss(3)] ss(1,2) job_result_cases(2) [of sha j]
    by (cases "snd (job_result sha j)") auto
qed

lemma published_packets:
  assumes "options_validate opts = Inr ()" "list_all arrival_ok arrivals"
    and "collect_core env opts arrivals closed st0 = (r, st)" "co_fresh st0"
  shows "\<exists>ss p. list_all2 (\<lambda>w rs. w_packets w = length rs) (co_closed st) ss \<and>
    map w_index (co_closed st) = [1..<Suc (length (co_closed st))] \<and> length (co_closed st) \<le> max_segments \<and>
    prefix (concat ss) p \<and> prefix p (concat (map delivered arrivals)) \<and> co_buffered st = length p \<and>
    (r = Inr () \<longrightarrow> concat ss = p)"
proof -
  obtain ss cur p where p: "coll_inv False env opts ss cur st" "concat (all_segments ss cur) = p"
      "prefix p (concat (map delivered arrivals))" "r = Inr () \<longrightarrow> cur = None"
    using collect_core_accepts [OF assms] by blast
  have l: "list_all2 (writer_is True env opts) (co_closed st) ss"
    using p(1) by (simp add: coll_inv_def)
  then have "list_all2 (\<lambda>w rs. w_packets w = length rs) (co_closed st) ss"
    by (rule list_all2_mono) (simp add: writer_is_def)
  moreover have "prefix (concat ss) p" "length ss \<le> max_segments"
    using p(1,2) by (auto simp: all_segments_def coll_inv_def)
  ultimately show ?thesis
    using p list_all2_lengthD [OF l] unfolding coll_inv_def
    by (intro exI [where x = ss] exI [where x = p]) auto
qed

text \<open>
  The finalizer of a run whose workers report on the segments in the order \<open>arrange\<close>, with the
  outcome of each.
\<close>

definition finalizer_of ::
    "(u8 list \<Rightarrow> string) \<Rightarrow> (nat \<Rightarrow> bool) \<Rightarrow>
     ((nat \<times> (publish_error + segment)) list \<Rightarrow> (nat \<times> (publish_error + segment)) list) \<Rightarrow>
     (writer \<Rightarrow> bool \<times> close_failure option) \<Rightarrow> writer list \<Rightarrow> ordering option" where
  "finalizer_of sha full arrange outcome ws =
     Some (finalize full True (arrange (map (\<lambda>w. job_result sha (w, outcome w)) ws)))"

lemma finalizer_published:
  assumes "\<And>xs. mset (arrange xs) = mset xs" "map w_index ws = [1..<Suc (length ws)]" "length ws \<le> max_segments"
  shows "\<exists>fin. finalizer_of sha full arrange outcome ws = Some fin \<and>
    or_published fin = oks (outcomes sha (map (\<lambda>w. (w, outcome w)) ws)) \<and>
    or_error fin = first_error (outcomes sha (map (\<lambda>w. (w, outcome w)) ws))"
  using finalize_facts [of "arrange (map (\<lambda>w. job_result sha (w, outcome w)) ws)" sha "map (\<lambda>w. (w, outcome w)) ws" full]
    assms
  by (simp add: finalizer_of_def comp_def del: upt_Suc)

lemma options_validate_any:
  "(options_validate opts :: 'e collect_error + unit) = Inr () \<Longrightarrow> (options_validate opts :: 'f collect_error + unit) = Inr ()"
  by (simp add: options_validate_def result_simps)

lemma collection_run_cases:
  fixes rc :: "'e run_receipt"
  assumes "collection_run env opts is_absolute already_there (Inr link) arrivals closed fin_of seen dropped totals
      collecting_new = (Inr rc, st)"
  shows "\<exists>st0 r st1. co_fresh st0 \<and> options_validate opts = Inr () \<and>
    collect_core (env\<lparr>ce_link := link\<rparr>) opts arrivals closed st0 = (r, st1) \<and>
    rc = collection_receipt r st1 (fin_of (co_closed st1)) seen dropped totals"
proof -
  obtain r0 :: "'e collect_error + unit" and st0 where s0: "collection_setup env opts is_absolute already_there collecting_new = (r0, st0)"
    by (metis surj_pair)
  have r0: "r0 = Inr ()"
    using assms s0 by (cases r0) (auto simp: collection_run_def sbind_def)
  have "(options_validate opts :: 'e collect_error + unit) = Inr ()"
    using s0 r0 by (auto simp: collection_setup_def sbind_def split: sum.splits)
  note options_validate_any [OF this]
  moreover have "co_fresh st0"
    using s0 by (auto simp: collection_setup_def new_json_def sbind_def fallible_def read_stop_def Let_def
        co_fresh_def collecting_new_def split: sum.splits if_splits)
  moreover obtain r st1 where c: "collect_core (env\<lparr>ce_link := link\<rparr>) opts arrivals closed st0 = (r, st1)"
    by (metis surj_pair)
  moreover have "rc = collection_receipt r st1 (fin_of (co_closed st1)) seen dropped totals"
    using assms s0 r0 c
    by (auto simp: collection_run_def sbind_def Let_def spure_def split: prod.splits sum.splits)
  ultimately show ?thesis by blast
qed

text \<open>
  C11: the receipt of a collection accounts for every packet the source gave: each was written to a
  published segment, was dropped at the queue, or is counted as unwritten. What the receipt says was
  written is exactly what its segments hold, at most what was buffered, and all of that when the run
  gives a reason other than a failure.
\<close>

theorem receipt_accounts:
  assumes reader: "pipe_run ops (pipe_start s) tr pst" "so_fill ops = poll_batch poll"
    and channel: "concat (map delivered arrivals) = trace_of event_taken tr" "list_all arrival_ok arrivals"
    and arrange: "\<And>xs. mset (arrange xs) = mset xs"
    and run: "collection_run env opts is_absolute already_there (Inr link) arrivals closed
      (finalizer_of sha full arrange outcome) (pi_seen pst) (pi_dropped pst) totals collecting_new = (Inr rc, st)"
  shows "cr_seen rc = cr_written rc + cr_queue_dropped rc + cr_unwritten rc \<and>
    cr_written rc = (\<Sum>sg\<leftarrow>cr_segments rc. sg_packets sg) \<and> cr_written rc \<le> cr_buffered rc \<and>
    (case cr_reason rc of Failed e \<Rightarrow> True | Unpublished e \<Rightarrow> True | _ \<Rightarrow> cr_written rc = cr_buffered rc)"
proof -
  obtain st0 r st1 where c: "co_fresh st0" "options_validate opts = Inr ()"
      "collect_core (env\<lparr>ce_link := link\<rparr>) opts arrivals closed st0 = (r, st1)"
      "rc = collection_receipt r st1 (finalizer_of sha full arrange outcome (co_closed st1)) (pi_seen pst)
        (pi_dropped pst) totals"
    using collection_run_cases [OF run] by (elim exE conjE) (rule that)
  obtain ss p where p: "list_all2 (\<lambda>w rs. w_packets w = length rs) (co_closed st1) ss"
      "map w_index (co_closed st1) = [1..<Suc (length (co_closed st1))]" "length (co_closed st1) \<le> max_segments"
      "prefix (concat ss) p" "prefix p (concat (map delivered arrivals))" "co_buffered st1 = length p"
      "r = Inr () \<longrightarrow> concat ss = p"
    using published_packets [OF c(2) channel(2) c(3,1)] by blast
  obtain fin where fin: "finalizer_of sha full arrange outcome (co_closed st1) = Some fin"
      "or_published fin = oks (outcomes sha (map (\<lambda>w. (w, outcome w)) (co_closed st1)))"
      "or_error fin = first_error (outcomes sha (map (\<lambda>w. (w, outcome w)) (co_closed st1)))"
    using finalizer_published [OF arrange p(2,3)] by blast
  have jobs: "list_all2 (\<lambda>w rs. w_packets w = length rs) (map fst (map (\<lambda>w. (w, outcome w)) (co_closed st1))) ss"
    using p(1) by (simp add: comp_def)
  have inv: "pipe_inv tr pst"
    by (rule default_poll.run_inv [OF reader])
  then have "length (trace_of event_read tr)
      = length (trace_of event_lost tr) + length (trace_of event_taken tr) + length (queued pst)"
    unfolding pipe_inv_def by (metis size_mset size_union)
  with inv have "pi_dropped pst + length (concat (map delivered arrivals)) \<le> pi_seen pst"
    unfolding channel(1) by (simp add: pipe_inv_def)
  moreover have "length (concat ss) \<le> length p" "length p \<le> length (concat (map delivered arrivals))"
    using p(4,5) by (auto dest: prefix_length_le)
  moreover note oks_sum [OF jobs, of sha]
  ultimately show ?thesis
    using p(6,7) fin by (cases r) (auto simp: c(4) collection_receipt_def Let_def split: stop_reason.split option.split)
qed

lemma sample_run:
  "\<exists>rc st. collection_run calm_env sample_options True False (Inr 1 :: unit collect_error + nat)
     [Arrived (batch_of [sample_record]), Disconnected] (Inr None)
     (finalizer_of (\<lambda>_. []) (\<lambda>_. False) id (\<lambda>_. (False, None))) seen dropped totals collecting_new = (Inr rc, st)"
proof -
  have c: "calm_env\<lparr>ce_link := Suc 0\<rparr> = calm_env"
    by (simp add: calm_env_def)
  have o1: "options_validate sample_options = Inr ()"
    by (rule sample_options_ok)
  obtain st0 where s: "collection_setup calm_env sample_options True False collecting_new
      = (Inr () :: unit collect_error + unit, st0)"
    by (simp add: collection_setup_def new_json_def sbind_def o1 Let_def)
  obtain r st1 where "collect_core calm_env sample_options [Arrived (batch_of [sample_record]), Disconnected]
      (Inr None) st0 = (r, st1)"
    by (metis surj_pair)
  with s show ?thesis
    by (simp add: collection_run_def sbind_def c new_json_def Let_def)
qed

theorem receipt_accounts_witness:
  "\<exists>tr pst rc st. pipe_run sample_ops (pipe_start 1) tr pst \<and> pi_seen pst = 1 \<and>
     collection_run calm_env sample_options True False (Inr 1 :: unit collect_error + nat)
       [Arrived (batch_of [sample_record]), Disconnected] (Inr None)
       (finalizer_of (\<lambda>_. []) (\<lambda>_. False) id (\<lambda>_. (False, None))) (pi_seen pst) (pi_dropped pst) no_totals
       collecting_new = (Inr rc, st) \<and>
     cr_seen rc = cr_written rc + cr_queue_dropped rc + cr_unwritten rc"
proof -
  obtain tr pst where r: "pipe_run sample_ops (pipe_start 1) tr pst" "trace_of event_taken tr = [sample_record]"
      "pi_seen pst = 1"
    using sample_pipe by blast
  have c: "concat (map delivered [Arrived (batch_of [sample_record]), Disconnected]) = trace_of event_taken tr"
    by (simp add: delivered_def r(2))
  obtain rc st where st: "collection_run calm_env sample_options True False (Inr 1 :: unit collect_error + nat)
     [Arrived (batch_of [sample_record]), Disconnected] (Inr None)
     (finalizer_of (\<lambda>_. []) (\<lambda>_. False) id (\<lambda>_. (False, None))) (pi_seen pst) (pi_dropped pst) no_totals
     collecting_new = (Inr rc, st)"
    using sample_run by blast
  have "so_fill sample_ops = poll_batch sample_poll" by (simp add: sample_ops_def)
  from receipt_accounts [OF r(1) this c sample_arrivals_ok _ st] r(1,3) st show ?thesis
    by (metis id_apply)
qed

end
