(* ===== verification/Segment_Reads.thy ===== *)
theory Segment_Reads
  imports Dump Publish_Facts
begin

text \<open>
  Two components meet: the segments that \<open>collection.rs\<close> publishes are read by the analysis of whole
  dumps of \<open>analysis.rs\<close>. The locale states what the reader needs of a sink to read a well-formed PCAP to
  its end, and its interpretation is the analyzer: its time windows can always be coarsened far enough
  for 32-bit seconds.
\<close>

definition unix_time :: "timestamp option \<Rightarrow> bool" where
  "unix_time t \<longleftrightarrow>
     (\<exists>seconds micros. seconds < 2 ^ 32 \<and> micros < 1000000 \<and>
       t = Some \<lparr>ticks = seconds * 1000000 + micros, ts_resolution = 6, ts_offset = 0\<rparr>)"

locale accepting_sink =
  fixes env :: "'s reader_env" and sink_ok :: "'s \<Rightarrow> bool"
  assumes never_cancelled: "\<not> env_cancel env n"
    and progress_ok: "sink_ok s \<Longrightarrow> sink_ok (env_progress env n s)"
    and packet_ok: "sink_ok s \<Longrightarrow> unix_time (p_timestamp p) \<Longrightarrow> \<exists>s'. env_packet env p i s = Inr s' \<and> sink_ok s'"
begin

definition stands :: "u8 list \<Rightarrow> nat \<Rightarrow> 's input \<Rightarrow> bool" where
  "stands d n inp \<longleftrightarrow> unread inp = d \<and> in_count inp = n \<and> sink_ok (in_sink inp)"

lemma read_once_at:
  assumes "stands d n inp" "n + length d \<le> l_bytes (env_limits env)"
  shows "\<exists>k inp'. k \<le> m \<and> k \<le> length d \<and> (0 < m \<longrightarrow> d \<noteq> [] \<longrightarrow> 0 < k) \<and>
    read_once env m inp = Inr (take k d, inp') \<and> stands (drop k d) (n + k) inp'"
proof -
  let ?k = "min (min m (l_bytes (env_limits env) - n + 1)) (min (length d) (Suc (env_chunk env n)))"
  have "n + ?k \<le> l_bytes (env_limits env)"
    using assms(2) by auto
  with assms show ?thesis
    by (intro exI [where x = ?k] exI)
      (auto simp: read_once_def Let_def stands_def never_cancelled progress_ok)
qed

lemma read_exact_at:
  "stands (a @ d) n inp \<Longrightarrow> n + length (a @ d) \<le> l_bytes (env_limits env) \<Longrightarrow> m = length a \<Longrightarrow>
     \<exists>inp'. read_exact env m inp = Inr (a, inp') \<and> stands d (n + m) inp'"
proof (induction a arbitrary: n m inp rule: length_induct)
  case (1 a)
  show ?case
  proof (cases "a = []")
    case True
    with "1.prems" show ?thesis by (simp add: read_exact.simps)
  next
    case False
    obtain k inp1 where k: "k \<le> length a" "0 < length a \<longrightarrow> a @ d \<noteq> [] \<longrightarrow> 0 < k"
      and o1: "read_once env (length a) inp = Inr (take k (a @ d), inp1)" "stands (drop k (a @ d)) (n + k) inp1"
      using read_once_at [OF "1.prems"(1,2), of "length a"] by blast
    have "0 < k" using k(2) False by simp
    have t: "take k (a @ d) = take k a" "drop k (a @ d) = drop k a @ d"
      using k by simp_all
    have "length (drop k a) < length a" using \<open>0 < k\<close> False by simp
    moreover have "stands (drop k a @ d) (n + k) inp1" using o1(2) t by simp
    moreover have "n + k + length (drop k a @ d) \<le> l_bytes (env_limits env)"
      using "1.prems"(2) k(1) by simp
    ultimately obtain inp2 where r: "read_exact env (length (drop k a)) inp1 = Inr (drop k a, inp2)"
        "stands d (n + k + length (drop k a)) inp2"
      using "1.IH" by blast
    moreover have "length a - length (take k a) = length (drop k a)" "take k a \<noteq> []"
      using k \<open>0 < k\<close> False by auto
    ultimately have "read_exact env m inp = Inr (a, inp2)" "stands d (n + m) inp2"
      using o1 k False "1.prems"(3) by (simp_all add: read_exact.simps [of _ "length a"] t)
    then show ?thesis by blast
  qed
qed

lemma input_exact_at:
  "stands (a @ d) n inp \<Longrightarrow> n + length (a @ d) \<le> l_bytes (env_limits env) \<Longrightarrow> m = length a \<Longrightarrow>
     \<exists>inp'. input_exact env m inp = Inr (a, inp') \<and> stands d (n + m) inp'"
  using read_exact_at [of a d n inp m] by (auto simp: input_exact_def)

lemma input_next_end:
  "stands [] n inp \<Longrightarrow> n \<le> l_bytes (env_limits env) \<Longrightarrow> \<exists>inp'. input_next env m inp = Inr (None, inp') \<and> stands [] n inp'"
proof -
  assume "stands [] n inp" "n \<le> l_bytes (env_limits env)"
  then have "n + length [] \<le> l_bytes (env_limits env)" by simp
  then obtain k inp' where "k \<le> length ([] :: u8 list)" "read_once env 1 inp = Inr (take k [], inp')"
      "stands (drop k []) (n + k) inp'"
    using read_once_at [OF \<open>stands [] n inp\<close>, of 1] by blast
  then show ?thesis by (simp add: input_next_def)
qed

lemma input_next_at:
  assumes "stands (a @ d) n inp" "n + length (a @ d) \<le> l_bytes (env_limits env)" "m = length a" "a \<noteq> []"
  shows "\<exists>inp'. input_next env m inp = Inr (Some a, inp') \<and> stands d (n + m) inp'"
proof -
  obtain b a' where a: "a = b # a'" using assms(4) by (cases a) auto
  obtain k inp1 where k: "k \<le> 1" "k \<le> length (a @ d)" "0 < (1::nat) \<longrightarrow> a @ d \<noteq> [] \<longrightarrow> 0 < k"
    and o1: "read_once env 1 inp = Inr (take k (a @ d), inp1)" "stands (drop k (a @ d)) (n + k) inp1"
    using read_once_at [OF assms(1,2), of 1] by (elim exE conjE) (rule that)
  have "k = 1" using k assms(4) by simp
  with o1 a have o2: "read_once env 1 inp = Inr ([b], inp1)" "stands (a' @ d) (n + 1) inp1"
    by simp_all
  obtain inp2 where "read_exact env (m - 1) inp1 = Inr (a', inp2)" "stands d (n + 1 + (m - 1)) inp2"
    using read_exact_at [OF o2(2), of "m - 1"] assms(2,3) a by auto
  with o2 a assms(3) show ?thesis
    by (auto simp: input_next_def with_context_def)
qed

text \<open>One valid record, and all of them.\<close>

lemma pcap_record_at:
  assumes "stands (rec_bytes r @ d) n inp" "n + length (rec_bytes r @ d) \<le> l_bytes (env_limits env)"
    and v: "valid_record snap r" "snap \<le> 65535" and t: "cf_total c < l_records (env_limits env)"
  shows "\<exists>c' inp'. pcap_record env \<lparr>ph_le = True, ph_resolution = 6, ph_snaplen = snap\<rparr> off
      (take 16 (record_bytes r)) (c, inp) = Inr (c', inp') \<and>
    cf_total c' = Suc (cf_total c) \<and> stands d (n + length (rec_bytes r)) inp'"
proof -
  have sm: "small r" using v by (simp add: valid_record_def small_def)
  note h = header_fields [OF sm, where d = "[]", simplified]
  have s: "e_u32 True (take 16 (record_bytes r)) = unat (rec_seconds r)"
    by (simp add: record_bytes_def)
  obtain inp1 where i1: "read_exact env (length (rec_bytes r)) inp = Inr (rec_bytes r, inp1)"
      "stands d (n + length (rec_bytes r)) inp1"
    using read_exact_at [OF assms(1,2) refl] by blast
  define ts where "ts = Some \<lparr>ticks = unat (rec_seconds r) * 1000000 + unat (rec_micros r),
    ts_resolution = 6, ts_offset = 0\<rparr>"
  define p where "p = \<lparr>p_number = Suc (cf_total c), p_file_offset = off, p_interface = 0, p_timestamp = ts,
    p_original = unat (rec_original r), p_captured = length (rec_bytes r), p_bytes = rec_bytes r\<rparr>"
  have "unix_time (p_timestamp p)"
    using v(1) unat_u32_less [of "rec_seconds r"] by (auto simp: unix_time_def p_def ts_def valid_record_def)
  from packet_ok [OF _ this] i1(2)
  obtain s' where s': "env_packet env p (cf_interfaces c ! 0) (in_sink inp1) = Inr s'" "sink_ok s'"
    unfolding stands_def by blast
  have "length (rec_bytes r) \<le> max_packet_bytes"
    using v by (simp add: valid_record_def max_packet_bytes_def)
  with i1 v have ib: "input_bytes env (length (rec_bytes r)) max_packet_bytes inp = Inr (rec_bytes r, inp1)"
    by (simp add: input_bytes_def)
  have "\<exists>c'. retain env 0 off ts (unat (rec_original r)) (rec_bytes r) (c, inp1) = Inr (c', inp1\<lparr>in_sink := s'\<rparr>) \<and>
      cf_total c' = Suc (cf_total c)"
    using t s'(1) by (auto simp: retain_def Let_def p_def retain_packet_def)
  then obtain c' where c': "retain env 0 off ts (unat (rec_original r)) (rec_bytes r) (c, inp1)
      = Inr (c', inp1\<lparr>in_sink := s'\<rparr>)" "cf_total c' = Suc (cf_total c)"
    by blast
  have "pcap_record env \<lparr>ph_le = True, ph_resolution = 6, ph_snaplen = snap\<rparr> off (take 16 (record_bytes r)) (c, inp)
      = Inr (c', inp1\<lparr>in_sink := s'\<rparr>)"
    using v(1) h s ib c'(1) by (simp add: pcap_record_def pcap_units_def valid_record_def Let_def ts_def)
  with c'(2) i1(2) s'(2) show ?thesis
    by (auto simp: stands_def)
qed

lemma pcap_loop_at:
  "stands (records_bytes rs) n inp \<Longrightarrow> n + length (records_bytes rs) \<le> l_bytes (env_limits env) \<Longrightarrow>
     list_all (valid_record snap) rs \<Longrightarrow> snap \<le> 65535 \<Longrightarrow> cf_total c + length rs \<le> l_records (env_limits env) \<Longrightarrow>
   \<exists>c' inp'. pcap_loop env \<lparr>ph_le = True, ph_resolution = 6, ph_snaplen = snap\<rparr> (c, inp) = Inr (c', inp') \<and>
     cf_total c' = cf_total c + length rs \<and> stands [] (n + length (records_bytes rs)) inp'"
proof (induction rs arbitrary: n c inp)
  case Nil
  then obtain inp' where "input_next env 16 inp = Inr (None, inp')" "stands [] n inp'"
    using input_next_end [of n inp 16] by auto
  then show ?case by (simp add: pcap_loop.simps)
next
  case (Cons r rs)
  let ?h = "take 16 (record_bytes r)"
  have rb: "record_bytes r = ?h @ rec_bytes r"
    using record_fields(5) [of r "[]"] append_take_drop_id [of 16 "record_bytes r"] by simp
  have l: "16 = length ?h" "?h \<noteq> []" by (auto dest: arg_cong [where f = length])
  have bytes: "records_bytes (r # rs) = ?h @ (rec_bytes r @ records_bytes rs)"
    by (subst records_bytes_simps, subst rb) simp
  obtain inp1 where i1: "input_next env 16 inp = Inr (Some ?h, inp1)" "stands (rec_bytes r @ records_bytes rs) (n + 16) inp1"
    using input_next_at [of ?h "rec_bytes r @ records_bytes rs" n inp 16] Cons.prems(1,2) l
    unfolding bytes by auto
  have len: "n + 16 + length (rec_bytes r @ records_bytes rs) \<le> l_bytes (env_limits env)"
    using Cons.prems(2) by simp
  have v: "valid_record snap r" "cf_total c < l_records (env_limits env)"
    using Cons.prems(3,5) by simp_all
  obtain c1 inp2 where r1: "pcap_record env \<lparr>ph_le = True, ph_resolution = 6, ph_snaplen = snap\<rparr> (in_count inp) ?h (c, inp1)
      = Inr (c1, inp2)" "cf_total c1 = Suc (cf_total c)" "stands (records_bytes rs) (n + 16 + length (rec_bytes r)) inp2"
    using pcap_record_at [OF i1(2) len v(1) Cons.prems(4) v(2)] by blast
  have "n + 16 + length (rec_bytes r) + length (records_bytes rs) \<le> l_bytes (env_limits env)"
    using len by simp
  from Cons.IH [OF r1(3) this _ Cons.prems(4), of c1] Cons.prems(3,5) r1(2) obtain c' inp' where
    "pcap_loop env \<lparr>ph_le = True, ph_resolution = 6, ph_snaplen = snap\<rparr> (c1, inp2) = Inr (c', inp')"
    "cf_total c' = cf_total c1 + length rs" "stands [] (n + 16 + length (rec_bytes r) + length (records_bytes rs)) inp'"
    by auto
  with i1 r1 show ?case
    by (subst pcap_loop.simps) (simp add: algebra_simps)
qed

lemma pcap_start_at:
  assumes "stands (drop 4 (segment_header snap link) @ d) n inp" "0 < snap" "snap < 2 ^ 32" "link < 2 ^ 16"
    and "n + 20 + length d \<le> l_bytes (env_limits env)"
  shows "\<exists>c' inp'. pcap_start env (take 4 (segment_header snap link)) (c, inp)
      = Inr (\<lparr>ph_le = True, ph_resolution = 6, ph_snaplen = snap\<rparr>, c', inp') \<and>
    cf_total c' = cf_total c \<and> stands d (n + 20) inp'"
proof -
  define h where "h = drop 4 (segment_header snap link)"
  have h: "h = le_bytes 2 2 @ le_bytes 2 4 @ replicate 8 0 @ le_bytes 4 snap @ le_bytes 4 link"
    by (simp add: h_def segment_header_def)
  have m: "take 4 (segment_header snap link) = [0xd4, 0xc3, 0xb2, 0xa1]"
    by (simp add: segment_header_def le_bytes_4)
  have l: "20 = length h" by (simp add: h)
  have "n + length (h @ d) \<le> l_bytes (env_limits env)"
    using assms(5) l by simp
  from input_exact_at [OF assms(1) [folded h_def] this l]
  obtain inp' where i: "input_exact env 20 inp = Inr (h, inp')" "stands d (n + 20) inp'"
    by (elim exE conjE) (rule that)
  have "e_u16 True h = 2" "e_u16 True (drop 2 h) = 4"
    by (simp_all add: h e_u16_def e_uint_def)
  moreover have "e_u32 True (drop 12 h) = snap" "e_u32 True (drop 16 h) = link"
    using assms(3,4) by (simp_all add: h)
  ultimately show ?thesis
    using i assms(2) reserved_bits [OF assms(4)] by (simp add: pcap_start_def m pcap_magic_def Let_def)
qed

lemma read_with_at:
  assumes s: "sink_ok s" and v: "list_all (valid_record (opt_snaplen opts)) rs"
    and o1: "0 < opt_snaplen opts" "opt_snaplen opts \<le> 65535" "ce_link cenv < 2 ^ 16"
    and l: "length (segment_data cenv opts rs) \<le> l_bytes (env_limits env)" "length rs \<le> l_records (env_limits env)"
  shows "\<exists>c s'. read_with sha env (segment_data cenv opts rs) s = Inr (c, s') \<and>
    cf_total c = length rs \<and> cf_file_bytes c = length (segment_data cenv opts rs) \<and>
    cf_sha256 c = sha (segment_data cenv opts rs)"
proof -
  define pro where "pro = segment_header (opt_snaplen opts) (ce_link cenv)"
  have d: "segment_data cenv opts rs = take 4 pro @ (drop 4 pro @ records_bytes rs)"
    by (simp add: segment_data_def pro_def flip: append_assoc)
  have n4: "length (take 4 pro) = 4" "length (drop 4 pro) = 20"
    by (simp_all add: pro_def)
  have "stands (take 4 pro @ (drop 4 pro @ records_bytes rs)) 0
      \<lparr>unread = segment_data cenv opts rs, in_count = 0, in_sink = s\<rparr>"
    using s by (simp add: stands_def d)
  moreover have "0 + length (take 4 pro @ (drop 4 pro @ records_bytes rs)) \<le> l_bytes (env_limits env)"
    using l(1) by (simp only: d add_0)
  ultimately have "\<exists>i1. input_exact env 4 \<lparr>unread = segment_data cenv opts rs, in_count = 0, in_sink = s\<rparr>
      = Inr (take 4 pro, i1) \<and> stands (drop 4 pro @ records_bytes rs) (0 + 4) i1"
    by (rule input_exact_at) (simp only: n4)
  then obtain i1 where i1: "input_exact env 4 \<lparr>unread = segment_data cenv opts rs, in_count = 0, in_sink = s\<rparr> = Inr (take 4 pro, i1)"
      "stands (drop 4 pro @ records_bytes rs) 4 i1"
    unfolding add_0 by (elim exE conjE) (rule that)
  have "4 + 20 + length (records_bytes rs) \<le> l_bytes (env_limits env)"
    using l(1) by simp
  from pcap_start_at [OF i1(2) [unfolded pro_def] o1(1) _ o1(3) this, of "empty_capture Pcap"] o1(2)
  have "\<exists>c0 i2. pcap_start env (take 4 pro) (empty_capture Pcap, i1)
      = Inr (\<lparr>ph_le = True, ph_resolution = 6, ph_snaplen = opt_snaplen opts\<rparr>, c0, i2) \<and>
    cf_total c0 = cf_total (empty_capture Pcap) \<and> stands (records_bytes rs) (4 + 20) i2"
    unfolding pro_def by simp
  then obtain c0 i2 where i2: "pcap_start env (take 4 pro) (empty_capture Pcap, i1)
      = Inr (\<lparr>ph_le = True, ph_resolution = 6, ph_snaplen = opt_snaplen opts\<rparr>, c0, i2)"
      "cf_total c0 = cf_total (empty_capture Pcap)" "stands (records_bytes rs) (4 + 20) i2"
    by (elim exE conjE) (rule that)
  have z: "cf_total c0 = 0" using i2(2) by (simp add: empty_capture_def)
  have "4 + 20 + length (records_bytes rs) \<le> l_bytes (env_limits env)" "cf_total c0 + length rs \<le> l_records (env_limits env)"
    using l z by simp_all
  from pcap_loop_at [OF i2(3) this(1) v o1(2) this(2)]
  obtain c i3 where i3: "pcap_loop env \<lparr>ph_le = True, ph_resolution = 6, ph_snaplen = opt_snaplen opts\<rparr> (c0, i2) = Inr (c, i3)"
      "cf_total c = cf_total c0 + length rs" "stands [] (4 + 20 + length (records_bytes rs)) i3"
    by (elim exE conjE) (rule that)
  have m: "take 4 pro \<noteq> ng_magic"
    by (simp add: pro_def segment_header_def ng_magic_def le_bytes_4)
  have "in_count i3 = length (segment_data cenv opts rs)"
    using i3(3) by (simp add: stands_def)
  with i1(1) i2(1) i3(1,2) m z show ?thesis
    by (simp add: read_with_def read_pcap_def)
qed

end

subsection \<open>The analyzer accepts every 32-bit time\<close>

definition windows_fit :: "nat \<Rightarrow> (int \<times> dump_window) list \<Rightarrow> bool" where
  "windows_fit seconds ws \<longleftrightarrow>
     bt_ok ws \<and> 0 < seconds \<and> dom (map_of ws) \<subseteq> {0..2 ^ 32 div int seconds}"

lemma windows_fit_length:
  assumes "windows_fit seconds ws"
  shows "length ws \<le> 2 ^ 32 div seconds + 1"
proof -
  have "length ws = card (dom (map_of ws))"
    using assms by (simp add: windows_fit_def bt_length_card)
  also have "\<dots> \<le> card {0..2 ^ 32 div int seconds}"
    using assms by (intro card_mono) (simp_all add: windows_fit_def)
  also have "2 ^ 32 div int seconds = int (2 ^ 32 div seconds)"
    by (simp add: zdiv_int)
  also have "card {0..int (2 ^ 32 div seconds)} = 2 ^ 32 div seconds + 1"
    by (simp add: nat_add_distrib del: of_nat_div)
  finally show ?thesis .
qed

lemma halve_keys:
  "dom (map_of (fold (\<lambda>(key, w) acc. bt_update (key div 2) window_default (\<lambda>t. merge_window t w) acc) ws acc))
     = (\<lambda>k. k div 2) ` fst ` set ws \<union> dom (map_of acc)"
  by (induction ws arbitrary: acc) (auto simp: bt_update_def)

lemma windows_fit_halve:
  assumes "windows_fit seconds ws"
  shows "windows_fit (seconds * 2) (halve_windows ws)"
proof -
  have "dom (map_of (halve_windows ws)) = (\<lambda>k. k div 2) ` dom (map_of ws)"
    using halve_keys [of ws "[]"] by (simp add: halve_windows_def keys_map_of)
  moreover have "(\<lambda>k. k div 2) ` dom (map_of ws) \<subseteq> {0..2 ^ 32 div int (seconds * 2)}"
  proof (rule image_subsetI)
    fix k assume "k \<in> dom (map_of ws)"
    then have k: "0 \<le> k" "k \<le> 2 ^ 32 div int seconds"
      using assms by (auto simp: windows_fit_def)
    have "k div 2 \<le> 2 ^ 32 div int seconds div 2"
      using zdiv_mono1 [OF k(2), of 2] by simp
    also have "\<dots> = 2 ^ 32 div int (seconds * 2)"
      by (simp add: zdiv_zmult2_eq)
    finally show "k div 2 \<in> {0..2 ^ 32 div int (seconds * 2)}"
      using k(1) by (simp add: pos_imp_zdiv_nonneg_iff)
  qed
  ultimately have "dom (map_of (halve_windows ws)) \<subseteq> {0..2 ^ 32 div int (seconds * 2)}"
    by simp
  then show ?thesis
    using assms halve_windows_facts(1) [OF additive_fields(1), of ws] by (simp add: windows_fit_def)
qed

text \<open>Twenty-three doublings are enough; the loop has fuel for 64.\<close>

lemma coarsen_succeeds:
  assumes "windows_fit seconds ws" "2 ^ 23 \<le> seconds * 2 ^ fuel"
  shows "\<exists>seconds' ws'. coarsen fuel seconds ws = Inr (seconds', ws') \<and> windows_fit seconds' ws'"
  using assms
proof (induction fuel arbitrary: seconds ws)
  case 0
  have "(2 ^ 32 :: nat) div seconds \<le> 2 ^ 32 div 2 ^ 23"
    using "0.prems"(2) by (intro div_le_mono2) simp_all
  then have "length ws \<le> max_windows"
    using windows_fit_length [OF "0.prems"(1)] by (simp add: max_windows_def)
  with "0.prems"(1) show ?case by (simp add: coarsen.simps)
next
  case (Suc fuel)
  show ?case
  proof (cases "length ws \<le> max_windows")
    case True
    with Suc.prems(1) show ?thesis by (simp add: coarsen.simps)
  next
    case False
    have "seconds < 2 ^ 23"
    proof (rule ccontr)
      assume "\<not> seconds < 2 ^ 23"
      then have "(2 ^ 32 :: nat) div seconds \<le> 2 ^ 32 div 2 ^ 23"
        by (intro div_le_mono2) simp_all
      with False windows_fit_length [OF Suc.prems(1)] show False by (simp add: max_windows_def)
    qed
    then have "\<not> 2 ^ 64 \<le> seconds * 2" by simp
    moreover have "2 ^ 23 \<le> seconds * 2 * 2 ^ fuel"
      using Suc.prems(2) by (simp add: mult.assoc)
    ultimately show ?thesis
      using False Suc.IH [OF windows_fit_halve [OF Suc.prems(1)]] by (simp add: coarsen.simps)
  qed
qed

definition analyzer_fits :: "analyzer \<Rightarrow> bool" where
  "analyzer_fits a \<longleftrightarrow> windows_fit (dr_window_seconds (an_report a)) (an_windows a)"

lemma analyzer_fits_progress [simp]: "analyzer_fits (a\<lparr>an_progress := x\<rparr>) = analyzer_fits a"
  by (simp add: analyzer_fits_def)

lemma unix_nanos_micros: "unix_nanos \<lparr>ticks = t, ts_resolution = 6, ts_offset = 0\<rparr> = int t * 1000"
proof -
  have "(10::nat) ^ 6 < 2 ^ 128" by simp
  then show ?thesis
    by (simp add: unix_nanos_def ts_denominator_def Let_def)
qed

lemma key_in_range:
  assumes "unix_time t" "0 < seconds"
  shows "case t of None \<Rightarrow> False | Some ts \<Rightarrow>
    0 \<le> unix_nanos ts div (int seconds * 1000000000) \<and>
    unix_nanos ts div (int seconds * 1000000000) \<le> 2 ^ 32 div int seconds"
proof -
  obtain s m where t: "s < 2 ^ 32" "m < 1000000" "t = Some \<lparr>ticks = s * 1000000 + m, ts_resolution = 6, ts_offset = 0\<rparr>"
    using assms(1) by (auto simp: unix_time_def)
  let ?n = "int (s * 1000000 + m) * 1000"
  have "?n \<le> 2 ^ 32 * 1000000000"
    using t(1,2) by simp
  then have "?n div (1000000000 * int seconds) \<le> 2 ^ 32 * 1000000000 div (1000000000 * int seconds)"
    using assms(2) by (intro zdiv_mono1) simp_all
  also have "\<dots> = 2 ^ 32 div int seconds"
    using zdiv_zmult2_eq [of "int seconds" "2 ^ 32 * 1000000000" 1000000000] by simp
  finally show ?thesis
    using assms(2) unfolding t(3)
    by (simp only: option.case unix_nanos_micros mult.commute [of "int seconds"])
      (simp add: pos_imp_zdiv_nonneg_iff)
qed

lemma analyze_accepts:
  assumes "analyzer_fits a" "unix_time (p_timestamp p)"
  shows "\<exists>a'. analyze_packet p i a = Inr a' \<and> analyzer_fits a'"
proof -
  define s where "s = summarize (p_bytes p) (if_link i)"
  define b where "b = a\<lparr>an_report := count_packet p s (an_report a)\<rparr>"
  have ws: "dr_window_seconds (an_report b) = dr_window_seconds (an_report a)" "an_windows b = an_windows a"
    by (simp_all add: b_def count_packet_times)
  obtain t where t: "p_timestamp p = Some t"
    using assms(2) by (auto simp: unix_time_def)
  define key where "key = unix_nanos t div (int (dr_window_seconds (an_report a)) * 1000000000)"
  define w where "w = bt_update key window_default (\<lambda>w. merge_window w (packet_window p s)) (an_windows a)"
  have pos: "0 < dr_window_seconds (an_report a)"
    using assms(1) by (simp add: analyzer_fits_def windows_fit_def)
  have "0 \<le> key \<and> key \<le> 2 ^ 32 div int (dr_window_seconds (an_report a))"
    using key_in_range [OF assms(2) pos] by (simp add: key_def t)
  then have "windows_fit (dr_window_seconds (an_report a)) w"
    using assms(1) by (auto simp: w_def analyzer_fits_def windows_fit_def bt_update_def)
  moreover have "2 ^ 23 \<le> dr_window_seconds (an_report a) * 2 ^ 64"
    using pos by (cases "dr_window_seconds (an_report a)") simp_all
  ultimately obtain seconds w' where c: "coarsen 64 (dr_window_seconds (an_report a)) w = Inr (seconds, w')"
      "windows_fit seconds w'"
    using coarsen_succeeds by blast
  have "\<exists>a1. count_time p s b = Inr a1 \<and> dr_window_seconds (an_report a1) = seconds \<and> an_windows a1 = w'"
    using c(1) by (simp add: count_time_def t Let_def ws key_def [symmetric] w_def [symmetric])
  then obtain a1 where a1: "count_time p s b = Inr a1" "dr_window_seconds (an_report a1) = seconds" "an_windows a1 = w'"
    by blast
  then have "\<exists>a'. analyze_packet p i a = Inr a'"
    by (simp add: analyze_packet_def Let_def s_def [symmetric] b_def [symmetric])
  then obtain a' where a': "analyze_packet p i a = Inr a'" ..
  then have "an_report a' = an_report a1" "an_windows a' = an_windows a1"
    using a1(1) by (auto elim!: analyze_cases simp: s_def b_def)
  with a' a1 c(2) show ?thesis by (auto simp: analyzer_fits_def)
qed

interpretation analysis: accepting_sink "analyzer_env (\<lambda>_. False) chunk" analyzer_fits for chunk
  by unfold_locales (simp_all add: analyze_accepts analyzer_env_def)

subsection \<open>The analysis of published segments\<close>

record live_analysis =
  la_failed :: nat
  la_display_skipped :: nat
  la_events :: "scan list"

text \<open>
  The body of the analyzer thread for one segment, whose file holds \<open>data\<close>; \<open>modified\<close> is its time and
  \<open>full\<close> says that the display does not take another view.
\<close>

definition analyze_segment ::
    "(u8 list \<Rightarrow> string) \<Rightarrow> (nat \<Rightarrow> nat) \<Rightarrow> nat option \<Rightarrow> bool \<Rightarrow> u8 list \<Rightarrow> segment \<Rightarrow> live_analysis \<Rightarrow> live_analysis" where
  "analyze_segment sha chunk modified full data s la =
     (case load_dump sha (\<lambda>_. False) chunk (True, length data, modified) (True, length data, modified) data of
        Inr sc \<Rightarrow>
          if dr_sha256 (sc_report sc) = sg_sha s then
            if full then la\<lparr>la_display_skipped := la_display_skipped la + 1\<rparr>
            else la\<lparr>la_events := la_events la @ [sc]\<rparr>
          else la\<lparr>la_failed := la_failed la + 1\<rparr>
      | Inl _ \<Rightarrow> la\<lparr>la_failed := la_failed la + 1\<rparr>)"

lemma published_loads:
  assumes w: "published env opts w rs" and o1: "options_validate opts = Inr ()" "ce_link env < 2 ^ 16"
    and sz: "w_bytes w \<le> opt_segment_bytes opts"
  shows "\<exists>sc. load_dump sha (\<lambda>_. False) chunk (True, length (w_file w), modified) (True, length (w_file w), modified)
      (w_file w) = Inr sc \<and>
    cf_total (sc_capture sc) = w_packets w \<and> dr_sha256 (sc_report sc) = sha (w_hashed w)"
proof -
  note v = validated [OF o1(1)]
  have f: "w_file w = segment_data env opts rs" "w_hashed w = w_file w" "w_bytes w = length (w_file w)"
      "w_packets w = length rs" "list_all (valid_record (opt_snaplen opts)) rs"
    using w by (simp_all add: published_def)
  have l: "length (segment_data env opts rs) \<le> 128 * 1024 * 1024"
    using sz v f by simp
  have "16 * length rs \<le> length (records_bytes rs)"
    by (induction rs) simp_all
  with l have "length rs \<le> max_dump_records"
    by (simp add: max_dump_records_def)
  moreover have "analyzer_fits analyzer_initial"
    by (simp add: analyzer_fits_def analyzer_initial_def windows_fit_def)
  moreover have "0 < opt_snaplen opts" "opt_snaplen opts \<le> 65535" using v by auto
  moreover have "length (segment_data env opts rs) \<le> l_bytes (env_limits (analyzer_env (\<lambda>_. False) chunk))"
    using l by (simp add: analyzer_env_def max_dump_bytes_def del: length_segment_data)
  ultimately have "\<exists>c s'. read_with sha (analyzer_env (\<lambda>_. False) chunk) (segment_data env opts rs) analyzer_initial
      = Inr (c, s') \<and> cf_total c = length rs \<and> cf_file_bytes c = length (segment_data env opts rs) \<and>
    cf_sha256 c = sha (segment_data env opts rs)"
    using f(5) o1(2) by (intro analysis.read_with_at) (simp_all add: analyzer_env_def)
  then obtain c s' where "read_with sha (analyzer_env (\<lambda>_. False) chunk) (segment_data env opts rs) analyzer_initial
      = Inr (c, s')" "cf_total c = length rs" "cf_file_bytes c = length (segment_data env opts rs)"
      "cf_sha256 c = sha (segment_data env opts rs)"
    by (elim exE conjE) (rule that)
  note c = this [folded f(1)]
  have "length (w_file w) \<le> max_dump_bytes"
    using l f(1) by (simp add: max_dump_bytes_def)
  with c f(2,4) show ?thesis
    by (simp add: load_dump_def read_dump_def finish_scan_def Let_def)
qed

text \<open>
  C12: the live analysis never fails on a segment that the collection published and nobody changed: the
  reader accepts the whole file, finds exactly the packets and the hash of its receipt, and the scan goes
  to the display or is counted as skipped.
\<close>

theorem segments_analyzed:
  assumes "options_validate opts = Inr ()" "list_all arrival_ok arrivals" "ce_link env < 2 ^ 16"
    and "collect_core env opts arrivals closed collecting_new = (r, st)" "w \<in> set (co_closed st)"
    and "writer_close sha None w = Inr s"
  shows "\<exists>sc. load_dump sha (\<lambda>_. False) chunk (True, length (w_file w), modified) (True, length (w_file w), modified)
      (w_file w) = Inr sc \<and> cf_total (sc_capture sc) = sg_packets s \<and> dr_sha256 (sc_report sc) = sg_sha s \<and>
    analyze_segment sha chunk modified full (w_file w) s la =
      (if full then la\<lparr>la_display_skipped := la_display_skipped la + 1\<rparr> else la\<lparr>la_events := la_events la @ [sc]\<rparr>)"
proof -
  obtain ss cur where inv: "coll_inv False env opts ss cur st"
    using collect_core_accepts [OF assms(1,2,4) co_fresh_new] by blast
  then have all: "list_all2 (published env opts) (co_closed st) ss"
    by (simp add: coll_inv_def writer_published)
  obtain i where "i < length (co_closed st)" "w = co_closed st ! i"
    using assms(5) by (auto simp: in_set_conv_nth)
  then have rs: "published env opts w (ss ! i)" "ss ! i \<in> set ss"
    using list_all2_nthD [OF all] list_all2_lengthD [OF all] by auto
  have "list_all (\<lambda>rs. 24 + length (records_bytes rs) \<le> opt_segment_bytes opts) ss"
    using inv by (auto simp: coll_inv_def all_segments_def)
  with rs have "w_bytes w \<le> opt_segment_bytes opts"
    by (auto simp: list_all_iff published_def)
  from published_loads [OF rs(1) assms(1,3) this, of sha chunk modified] obtain sc where
    sc: "load_dump sha (\<lambda>_. False) chunk (True, length (w_file w), modified) (True, length (w_file w), modified)
      (w_file w) = Inr sc" "cf_total (sc_capture sc) = w_packets w" "dr_sha256 (sc_report sc) = sha (w_hashed w)"
    by (elim exE conjE) (rule that)
  moreover have "s = \<lparr>sg_file = segment_file (w_index w), sg_packets = w_packets w, sg_bytes = w_bytes w,
      sg_sha = sha (w_hashed w)\<rparr>"
    using assms(6) by (simp add: writer_close_def)
  ultimately show ?thesis
    by (intro exI [where x = sc]) (simp add: analyze_segment_def)
qed

theorem segments_analyzed_witness:
  "\<exists>st w s sc. collect_core calm_env sample_options [Arrived (batch_of [sample_record]), Disconnected] (Inr None)
      collecting_new = (Inr () :: unit collect_error + unit, st) \<and> co_closed st = [w] \<and>
    writer_close (\<lambda>_. ''AB'') None w = Inr s \<and>
    load_dump (\<lambda>_. ''AB'') (\<lambda>_. False) (\<lambda>_. 0) (True, length (w_file w), None) (True, length (w_file w), None)
      (w_file w) = Inr sc \<and> cf_total (sc_capture sc) = 1"
proof -
  obtain st where st: "collect_core calm_env sample_options [Arrived (batch_of [sample_record]), Disconnected]
      (Inr None) collecting_new = (Inr () :: unit collect_error + unit, st)"
    and cl: "co_closed st = [\<lparr>w_index = 1, w_file = segment_header 2048 1 @ record_bytes sample_record,
     w_hashed = segment_header 2048 1 @ record_bytes sample_record, w_bytes = 43, w_packets = 1, w_started = 0\<rparr>]"
    using sample_core by (elim exE conjE) (rule that)
  then obtain w where w: "co_closed st = [w]" "w_packets w = 1" by simp
  obtain s where s: "writer_close (\<lambda>_. ''AB'') None w = Inr s" "sg_packets s = 1"
    using w(2) by (simp add: writer_close_def)
  have "w \<in> set (co_closed st)" "ce_link calm_env < 2 ^ 16" by (simp_all add: w)
  from segments_analyzed [OF sample_options_ok sample_arrivals_ok this(2) st this(1) s(1), of "\<lambda>_. 0" None]
    st w s show ?thesis by metis
qed

end
