(* ===== verification/Report.thy ===== *)
theory Report
  imports Evidence
begin

text \<open>
  \<open>crates/netlane-ai/src/report.rs\<close>: the draft of a report, its validation and its two renderings. What
  the user or the provider wrote goes into indented sections of the Markdown, from which the HTML is made
  line by line.
\<close>

record response =
  rs_provider :: string
  rs_model :: string
  rs_status :: string
  rs_text :: string

record draft =
  dr_context :: evidence
  dr_problem :: string
  dr_question :: string
  dr_response :: "response option"

datatype draft_error =
    Evidence_error evidence_error | Response_metadata_invalid | Response_empty | Response_missing
  | Response_too_long

definition evidence_step :: "evidence_error + 'a \<Rightarrow> draft_error + 'a" where
  "evidence_step m = map_sum Evidence_error id m"

definition metadata_valid :: "string \<Rightarrow> bool" where
  "metadata_valid v \<longleftrightarrow> trim v \<noteq> [] \<and> length v \<le> 256 \<and> \<not> has_control v"

definition draft_validate :: "evidence_json \<Rightarrow> draft \<Rightarrow> draft_error + unit" where
  "draft_validate ej d =
     rbind (evidence_step (context_prompt ej (dr_context d) (dr_problem d) (dr_question d))) (\<lambda>_.
     case dr_response d of
       None \<Rightarrow> Inr ()
     | Some r \<Rightarrow>
         rbind (check_all (\<lambda>v. ensure (metadata_valid v) Response_metadata_invalid)
           [rs_provider r, rs_model r, rs_status r]) (\<lambda>_.
         rbind (ensure (trim (rs_text r) \<noteq> []) Response_empty) (\<lambda>_.
           evidence_step (validate_references ej (dr_context d) (rs_text r)))))"

subsection \<open>Sections\<close>

definition newline :: string where "newline = byte_string [10]"

text \<open>Control characters and the bidirectional overrides and isolates become U+FFFD.\<close>

definition replacement_char :: string where "replacement_char = byte_string [239, 191, 189]"

fun printable :: "string \<Rightarrow> string" where
  "printable [] = []"
| "printable (c # s) =
     (if code c < 32 \<or> code c = 127 then replacement_char @ printable s
      else if code c = 194 \<and> s \<noteq> [] \<and> 128 \<le> code (hd s) \<and> code (hd s) < 160
        then replacement_char @ printable (tl s)
      else if code c = 226 \<and> 2 \<le> length s
          \<and> (code (hd s) = 128 \<and> 170 \<le> code (s ! 1) \<and> code (s ! 1) \<le> 174
            \<or> code (hd s) = 129 \<and> 166 \<le> code (s ! 1) \<and> code (s ! 1) \<le> 169)
        then replacement_char @ printable (drop 2 s)
      else c # printable s)"

declare printable.simps(2) [simp del]

definition indent :: string where "indent = ''    ''"

definition report_section :: "string \<Rightarrow> string \<Rightarrow> string" where
  "report_section title body =
     ''## '' @ title @ newline @ newline
     @ concat (map (\<lambda>l. indent @ printable l @ newline) (text_lines body)) @ newline"

subsection \<open>Markdown\<close>

definition report_title :: string where
  "report_title = (''NetLane '' @ byte_string [226, 128, 148] @ '' rascunho de diagn'' @ byte_string [195, 179] @
     ''stico de rede'')"

definition report_intro :: string where
  "report_intro = (''Rascunho t'' @ byte_string [195, 169] @ ''cnico para revis'' @ byte_string [195, 163] @
     ''o humana. As refer'' @ byte_string [195, 170] @
     ''ncias foram conferidas apenas contra o contexto selecionado; isso n'' @
     byte_string [195, 163] @ ''o valida as conclus'' @ byte_string [195, 181] @
     ''es nem comprova um problema ou invas'' @ byte_string [195, 163] @ ''o.'')"

definition no_problem :: string where "no_problem = (''N'' @ byte_string [195, 163] @ ''o informado pelo usu'' @ byte_string [195, 161] @ ''rio.'')"

definition unix_times :: "evidence \<Rightarrow> int list" where
  "unix_times cx = List.map_filter
     (\<lambda>p. case pe_unix_nanos p of None \<Rightarrow> None | Some n \<Rightarrow> parse_signed 128 n) (cx_packets cx)"

definition time_text :: "int option \<Rightarrow> string" where
  "time_text t = (case t of None \<Rightarrow> ''ausente'' | Some n \<Rightarrow> dec_int n)"

definition first_time :: "evidence \<Rightarrow> int option" where
  "first_time cx = (if unix_times cx = [] then None else Some (Min (set (unix_times cx))))"

definition latest_time :: "evidence \<Rightarrow> int option" where
  "latest_time cx = (if unix_times cx = [] then None else Some (Max (set (unix_times cx))))"

definition origin_text :: "evidence \<Rightarrow> string" where
  "origin_text cx =
     (''Investiga'' @ byte_string [195, 167, 195, 163] @ ''o: '') @ cx_investigation_id cx @ (byte_string [10] @ ''Formato: '') @ cx_format cx
     @ (byte_string [10] @ ''SHA-256 do original: '') @ cx_sha256 cx
     @ (byte_string [10] @ ''Pacotes no arquivo: '') @ dec (cx_total_packets cx)
     @ (byte_string [10] @ ''Pacotes analisados: '') @ dec (cx_inspected_packets cx)
     @ (byte_string [10] @ ''Pacotes fora da an'' @ byte_string [195, 161] @ ''lise: '') @ dec (cx_omitted_packets cx)
     @ (byte_string [10] @ ''Detalhes selecionados: '') @ dec (length (cx_packets cx))
     @ (byte_string [10] @ ''Per'' @ byte_string [195, 173] @ ''odo dos detalhes: '') @ time_text (first_time cx) @ '' a '' @ time_text (latest_time cx)
     @ ('' (UTC, nanossegundos Unix; n'' @ byte_string [195, 163] @ ''o necessariamente o per'' @
     byte_string [195, 173] @ ''odo inteiro).'')"

definition no_baseline :: string where "no_baseline = (''Nenhuma refer'' @ byte_string [195, 170] @ ''ncia selecionada.'')"

definition packet_title :: "nat \<Rightarrow> string" where
  "packet_title n = (''Evid'' @ byte_string [195, 170] @ ''ncia do pacote '') @ dec n"

definition packet_text :: "evidence \<Rightarrow> packet_evidence \<Rightarrow> string" where
  "packet_text cx p =
     citation_mark @ cx_sha256 cx @ '':'' @ dec (pe_number p) @ ('']]'' @ byte_string [10])
     @ pe_protocol p @ ('' '' @ byte_string [194, 183] @ '' '') @ pe_source p @ ('' '' @ byte_string [226, 134, 146] @ '' '') @ pe_destination p
     @ (byte_string [10] @ ''Interface: '') @ pe_interface p @ ('' '' @ byte_string [194, 183] @ '' se'' @ byte_string [195, 167, 195, 163] @ ''o '') @ dec (pe_section p)
     @ ('' '' @ byte_string [194, 183] @ '' link type '') @ dec (pe_link_type p)
     @ (byte_string [10] @ ''Caplen: '') @ dec (pe_captured_bytes p) @ ('' bytes '' @ byte_string [194, 183] @ '' tamanho original: '')
     @ dec (pe_original_bytes p) @ ('' bytes'' @ byte_string [10] @ ''Observa'' @ byte_string [195, 167, 195, 163] @ ''o local: '') @ pe_observation p"

definition response_text :: "response \<Rightarrow> string" where
  "response_text r =
     ''Provedor: '' @ rs_provider r @ (byte_string [10] @ ''Modelo no envio: '') @ rs_model r
     @ (byte_string [10] @ ''Estado do turno: '') @ rs_status r @ byte_string [10, 10] @ rs_text r"

definition no_response_title :: string where
  "no_response_title = (''Hip'' @ byte_string [195, 179] @ ''teses e recomenda'' @ byte_string [195, 167, 195, 181] @
     ''es'')"

definition no_response_text :: string where
  "no_response_text = (''Sem resposta de IA inclu'' @ byte_string [195, 173] @ ''da. Nenhum diagn'' @
     byte_string [195, 179] @ ''stico autom'' @ byte_string [195, 161] @
     ''tico foi emitido. Registre hip'' @ byte_string [195, 179] @ ''teses e pr'' @
     byte_string [195, 179] @ ''ximos passos ap'' @ byte_string [195, 179] @ ''s conferir as evid'' @
     byte_string [195, 170] @ ''ncias.'')"

definition limits_text :: string where
  "limits_text = (''Contexto estruturado de uma captura importada ou segmento fechado; a origem da coleta, '' @
     ''quando dispon'' @ byte_string [195, 173] @
     ''vel, consta no resumo local. Agregados cobrem somente os registros declarados como analisados; '' @
     ''detalhes s'' @ byte_string [195, 163] @ ''o uma sele'' @ byte_string [195, 167, 195, 163] @
     ''o das amostras. Endere'' @ byte_string [195, 167] @ ''os e portas s'' @
     byte_string [195, 163] @ ''o dados sens'' @ byte_string [195, 173] @
     ''veis. Sem payload, remontagem, DNS/TLS decodificado ou correla'' @
     byte_string [195, 167, 195, 163] @ ''o com processo. Servi'' @ byte_string [195, 167] @
     ''o por porta e desvios de baseline s'' @ byte_string [195, 163] @ ''o heur'' @
     byte_string [195, 173] @ ''sticas. A compara'' @ byte_string [195, 167, 195, 163] @
     ''o pode usar filtro, per'' @ byte_string [195, 173] @ ''odo e ponto de coleta diferentes. N'' @
     byte_string [195, 163] @
     ''o anexa o PCAP original, caminhos dos arquivos ou credenciais do perfil. Textos do usu'' @
     byte_string [195, 161] @ ''rio e provedor podem conter informa'' @
     byte_string [195, 167, 195, 181] @ ''es sens'' @ byte_string [195, 173] @
     ''veis e exigem revis'' @ byte_string [195, 163] @ ''o. A resposta, se inclu'' @
     byte_string [195, 173] @ ''da, '' @ byte_string [195, 169] @ '' somente do '' @
     byte_string [195, 186] @ ''ltimo turno, com o contexto desse envio; a conversa anterior n'' @
     byte_string [195, 163] @ ''o est'' @ byte_string [195, 161] @ '' anexada. Refer'' @
     byte_string [195, 170] @ ''ncias ausentes/fora do contexto impedem exportar a resposta; aus'' @
     byte_string [195, 170] @ ''ncia de cita'' @ byte_string [195, 167, 195, 181] @ ''es n'' @
     byte_string [195, 163] @ ''o prova corre'' @ byte_string [195, 167, 195, 163] @
     ''o. Nenhum comando ou pr'' @ byte_string [195, 179] @ ''ximo passo foi executado pelo relat'' @
     byte_string [195, 179] @ ''rio.'')"

definition title_problem :: string where "title_problem = ''Problema relatado''"
definition title_question :: string where "title_question = ''Pergunta e escopo''"
definition title_origin :: string where "title_origin = ''Origem e integridade''"
definition title_analysis :: string where "title_analysis = (''Agregados e compara'' @ byte_string [195, 167, 195, 163] @ ''o local'')"
definition title_baseline :: string where "title_baseline = (''Refer'' @ byte_string [195, 170] @ ''ncia da compara'' @ byte_string [195, 167, 195, 163] @
     ''o'')"
definition title_response :: string where "title_response = (''Resposta assistida '' @ byte_string [226, 128, 148] @ '' requer revis'' @
     byte_string [195, 163] @ ''o'')"
definition title_limits :: string where "title_limits = (''Limita'' @ byte_string [195, 167, 195, 181] @ ''es e m'' @ byte_string [195, 169] @ ''todo'')"

definition draft_markdown :: "evidence_json \<Rightarrow> draft \<Rightarrow> draft_error + string" where
  "draft_markdown ej d =
     rbind (draft_validate ej d) (\<lambda>_.
       let cx = dr_context d in
       Inr (''# '' @ report_title @ newline @ newline @ report_intro @ newline @ newline
         @ report_section title_problem (if trim (dr_problem d) = [] then no_problem else dr_problem d)
         @ report_section title_question (dr_question d)
         @ report_section title_origin (origin_text cx)
         @ (case cx_analysis cx of
              None \<Rightarrow> []
            | Some a \<Rightarrow> report_section title_analysis (ae_summary a)
                @ report_section title_baseline
                    (case ae_baseline_sha256 a of None \<Rightarrow> no_baseline | Some h \<Rightarrow> h))
         @ concat (map (\<lambda>p. report_section (packet_title (pe_number p)) (packet_text cx p)) (cx_packets cx))
         @ (case dr_response d of
              Some r \<Rightarrow> report_section title_response (response_text r)
            | None \<Rightarrow> ''## '' @ no_response_title @ newline @ newline @ no_response_text @ newline @ newline)
         @ report_section title_limits limits_text))"

subsection \<open>HTML\<close>

definition replace_char :: "char \<Rightarrow> string \<Rightarrow> string \<Rightarrow> string" where
  "replace_char c r s = concat (map (\<lambda>x. if x = c then r else [x]) s)"

definition html_escape :: "string \<Rightarrow> string" where
  "html_escape s =
     replace_char CHR 0x27 ''&#39;'' (replace_char CHR 0x22 ''&quot;''
       (replace_char CHR ''>'' ''&gt;'' (replace_char CHR ''<'' ''&lt;''
         (replace_char CHR ''&'' ''&amp;'' s))))"

definition heading :: "string \<Rightarrow> (nat \<times> string) option" where
  "heading line =
     (if starts_with ''## '' line then Some (2, drop 3 line)
      else if starts_with ''# '' line then Some (1, drop 2 line) else None)"

definition pre_block :: "string \<Rightarrow> string" where
  "pre_block literal = (if trim literal = [] then [] else ''<pre>'' @ html_escape literal @ ''</pre>'')"

definition heading_block :: "nat \<Rightarrow> string \<Rightarrow> string" where
  "heading_block level title =
     ''<h'' @ dec level @ ''>'' @ html_escape title @ ''</h'' @ dec level @ ''>''"

definition html_line :: "string \<Rightarrow> string \<times> string \<Rightarrow> string \<times> string" where
  "html_line line = (\<lambda>(body, literal).
     case heading line of
       Some (level, title) \<Rightarrow> (body @ pre_block literal @ heading_block level title, [])
     | None \<Rightarrow> (body, literal @ (if starts_with indent line then drop 4 line else line) @ newline))"

definition page_start :: string where
  "page_start = (''<!doctype html><html lang='' @ byte_string [34] @ ''pt-BR'' @ byte_string [34] @
     ''><head><meta charset='' @ byte_string [34] @ ''utf-8'' @ byte_string [34] @ ''><meta name='' @
     byte_string [34] @ ''viewport'' @ byte_string [34] @ '' content='' @ byte_string [34] @
     ''width=device-width,initial-scale=1'' @ byte_string [34] @ ''><meta http-equiv='' @
     byte_string [34] @ ''Content-Security-Policy'' @ byte_string [34] @ '' content='' @
     byte_string [34] @ ''default-src '' @ byte_string [39] @ ''none'' @ byte_string [39] @
     ''; style-src '' @ byte_string [39] @ ''unsafe-inline'' @ byte_string [39] @ ''; base-uri '' @
     byte_string [39] @ ''none'' @ byte_string [39] @ ''; form-action '' @ byte_string [39] @
     ''none'' @ byte_string [39, 34] @ ''><title>NetLane '' @ byte_string [226, 128, 148] @
     '' rascunho de diagn'' @ byte_string [195, 179] @
     ''stico</title><style>body{max-width:1000px;margin:32px auto;padding:0 20px;background:#f4f6f8;color:#172b39;font:15px/1.6 '' @
     ''Segoe UI,sans-serif}h1{font-size:26px;color:#007d72}h2{font-size:18px;margin-top:28px}pre{font:inherit;white-space:pre-wrap;overflow-wrap:anywhere;background:white;border:1px '' @
     ''solid #d8e1e5;border-radius:8px;padding:16px}@media print{body{margin:0;background:white}}</style></head><body>'')"

definition page_end :: string where "page_end = ''</body></html>''"

definition draft_html :: "evidence_json \<Rightarrow> draft \<Rightarrow> draft_error + string" where
  "draft_html ej d =
     rbind (draft_markdown ej d) (\<lambda>markdown.
       case fold html_line (text_lines markdown) ([], []) of
         (body, literal) \<Rightarrow> Inr (page_start @ body @ pre_block literal @ page_end))"

end
