(* ===== verification/Notebook.thy ===== *)
theory Notebook
  imports Report
begin

text \<open>
  \<open>crates/netlane-ai/src/investigation.rs\<close> and its parts \<open>resume.rs\<close> and \<open>persistence.rs\<close>: the
  notebook of an investigation. Turns of the conversation keep the draft that was sent and whether its
  citations held; notes keep the evidence they were written about and the history of their states. The
  clock (\<open>now\<close>, seconds since 1970) is an argument. Saving and loading are in the theory Notebook\_Store.
\<close>

definition max_turns :: nat where "max_turns = 96"
definition max_notes :: nat where "max_notes = 32"
definition max_note_bytes :: nat where "max_note_bytes = 4096"
definition max_note_changes :: nat where "max_note_changes = 32"
definition max_notebook_bytes :: nat where "max_notebook_bytes = 24 * 1024 * 1024"

datatype note_state = Investigating | Confirmed | Discarded

definition note_label :: "note_state \<Rightarrow> string" where
  "note_label s = (case s of
      Investigating \<Rightarrow> (''Em investiga'' @ byte_string [195, 167, 195, 163] @ ''o'')
    | Confirmed \<Rightarrow> (''Confirmada pelo usu'' @ byte_string [195, 161] @ ''rio'')
    | Discarded \<Rightarrow> (''Descartada pelo usu'' @ byte_string [195, 161] @ ''rio''))"

fun note_next :: "note_state \<Rightarrow> note_state" where
  "note_next Investigating = Confirmed"
| "note_next Confirmed = Discarded"
| "note_next Discarded = Investigating"

record turn =
  tn_id :: nat
  tn_conversation :: nat
  tn_draft :: draft
  tn_references_valid :: bool
  tn_created :: "nat option"

record note_change =
  nc_unix_seconds :: nat
  nc_state :: note_state

record book_note =
  nt_id :: nat
  nt_text :: string
  nt_state :: note_state
  nt_context :: evidence
  nt_source_turn :: "nat option"
  nt_created :: "nat option"
  nt_history :: "note_change list"

record notebook =
  nb_turns :: "turn list"
  nb_notes :: "book_note list"

datatype notebook_error =
    Draft_rejected draft_error | Notebook_full | Conversation_invalid | Notes_full | Note_text_invalid
  | Source_turn_missing | Source_evidence_differs | Note_missing | Note_history_full
  | Book_counts_invalid | Turn_invalid | References_inconsistent | Note_invalid | Note_source_differs
  | Note_history_invalid | Note_first_record_invalid | Note_transition_invalid | Note_state_differs
  | Conversations_exhausted | Resume_question_long | Resume_no_history | Resume_too_large

definition has_report :: "turn \<Rightarrow> bool" where
  "has_report t \<longleftrightarrow> tn_references_valid t \<and>
     (case dr_response (tn_draft t) of None \<Rightarrow> False | Some r \<Rightarrow> trim (rs_text r) \<noteq> [])"

definition draft_step :: "draft_error + 'a \<Rightarrow> notebook_error + 'a" where
  "draft_step m = map_sum Draft_rejected id m"

definition checked_draft :: "evidence_json \<Rightarrow> draft \<Rightarrow> draft_error + bool" where
  "checked_draft ej d =
     rbind (evidence_step (context_prompt ej (dr_context d) (dr_problem d) (dr_question d))) (\<lambda>_.
     rbind (ok_or (dr_response d) Response_missing) (\<lambda>r.
     rbind (ensure (length (rs_text r) \<le> 128 * 1024) Response_too_long) (\<lambda>_.
     rbind (check_all (\<lambda>f. ensure (metadata_valid f) Response_metadata_invalid)
       [rs_provider r, rs_model r, rs_status r]) (\<lambda>_.
       Inr (is_ok (validate_references ej (dr_context d) (rs_text r)))))))"

subsection \<open>Operations\<close>

definition notebook_new :: notebook where
  "notebook_new = \<lparr>nb_turns = [], nb_notes = []\<rparr>"

definition notebook_empty :: "notebook \<Rightarrow> bool" where
  "notebook_empty nb \<longleftrightarrow> nb_turns nb = [] \<and> nb_notes nb = []"

definition can_start :: "notebook \<Rightarrow> notebook_error + unit" where
  "can_start nb = ensure (length (nb_turns nb) < max_turns) Notebook_full"

definition record_turn ::
    "evidence_json \<Rightarrow> nat \<Rightarrow> nat \<Rightarrow> draft \<Rightarrow> notebook \<Rightarrow> notebook_error + nat \<times> notebook" where
  "record_turn ej now conversation d nb =
     rbind (can_start nb) (\<lambda>_.
     rbind (ensure (0 < conversation \<and> conversation < 2 ^ 64 - 1) Conversation_invalid) (\<lambda>_.
     rbind (draft_step (checked_draft ej d)) (\<lambda>valid.
       let n = length (nb_turns nb) + 1 in
       Inr (n, nb\<lparr>nb_turns := nb_turns nb @
         [\<lparr>tn_id = n, tn_conversation = conversation, tn_draft = d, tn_references_valid = valid,
           tn_created = Some now\<rparr>]\<rparr>))))"

definition add_note ::
    "evidence_json \<Rightarrow> nat \<Rightarrow> string \<Rightarrow> evidence \<Rightarrow> nat option \<Rightarrow> notebook \<Rightarrow> notebook_error + nat \<times> notebook" where
  "add_note ej now t cx source nb =
     rbind (ensure (length (nb_notes nb) < max_notes) Notes_full) (\<lambda>_.
     rbind (ensure (trim t \<noteq> [] \<and> length t \<le> max_note_bytes) Note_text_invalid) (\<lambda>_.
     rbind (draft_step (evidence_step (context_validate ej cx))) (\<lambda>_.
     rbind (case source of
         None \<Rightarrow> Inr ()
       | Some k \<Rightarrow>
           rbind (ok_or (find (\<lambda>t. tn_id t = k) (nb_turns nb)) Source_turn_missing) (\<lambda>origin.
             ensure (dr_context (tn_draft origin) = cx) Source_evidence_differs)) (\<lambda>_.
       let n = length (nb_notes nb) + 1 in
       Inr (n, nb\<lparr>nb_notes := nb_notes nb @
         [\<lparr>nt_id = n, nt_text = trim t, nt_state = Investigating, nt_context = cx, nt_source_turn = source,
           nt_created = Some now,
           nt_history = [\<lparr>nc_unix_seconds = now, nc_state = Investigating\<rparr>]\<rparr>]\<rparr>)))))"

definition cycle_state :: "nat \<Rightarrow> book_note \<Rightarrow> notebook_error + book_note" where
  "cycle_state now n =
     rbind (ensure (length (nt_history n) + (if nt_history n = [] then 2 else 1) \<le> max_note_changes)
       Note_history_full) (\<lambda>_.
       let history = (if nt_history n = []
             then [\<lparr>nc_unix_seconds = now, nc_state = nt_state n\<rparr>] else nt_history n);
           s = note_next (nt_state n) in
       Inr (n\<lparr>nt_state := s, nt_history := history @ [\<lparr>nc_unix_seconds = now, nc_state = s\<rparr>]\<rparr>))"

fun cycle_first :: "nat \<Rightarrow> nat \<Rightarrow> book_note list \<Rightarrow> notebook_error + book_note list" where
  "cycle_first now k [] = Inl Note_missing"
| "cycle_first now k (n # ns) =
     (if nt_id n = k then rbind (cycle_state now n) (\<lambda>n'. Inr (n' # ns))
      else rbind (cycle_first now k ns) (\<lambda>ns'. Inr (n # ns')))"

definition cycle_note :: "nat \<Rightarrow> nat \<Rightarrow> notebook \<Rightarrow> notebook_error + notebook" where
  "cycle_note now k nb = rbind (cycle_first now k (nb_notes nb)) (\<lambda>ns. Inr (nb\<lparr>nb_notes := ns\<rparr>))"

definition next_conversation :: "notebook \<Rightarrow> nat \<Rightarrow> notebook_error + nat" where
  "next_conversation nb current =
     (let n = max (foldr max (map tn_conversation (nb_turns nb)) 0) current + 1 in
      if n < 2 ^ 64 - 1 then Inr n else Inl Conversations_exhausted)"

subsection \<open>Validation\<close>

definition valid_time :: "nat \<Rightarrow> bool" where
  "valid_time v \<longleftrightarrow> v \<le> 253402300799"

definition time_ok :: "nat option \<Rightarrow> bool" where
  "time_ok t = (case t of None \<Rightarrow> True | Some v \<Rightarrow> valid_time v)"

definition validate_turn :: "evidence_json \<Rightarrow> nat \<times> turn \<Rightarrow> notebook_error + unit" where
  "validate_turn ej = (\<lambda>(i, t).
     rbind (ensure (tn_id t = i + 1 \<and> 0 < tn_conversation t \<and> tn_conversation t < 2 ^ 64 - 1
         \<and> time_ok (tn_created t)) Turn_invalid) (\<lambda>_.
     rbind (draft_step (checked_draft ej (tn_draft t))) (\<lambda>valid.
       ensure (valid = tn_references_valid t) References_inconsistent)))"

text \<open>\<open>windows(2)\<close>: each record of a state follows the one before.\<close>

fun transitions_ok :: "note_change list \<Rightarrow> bool" where
  "transitions_ok (a # b # cs) \<longleftrightarrow> nc_state b = note_next (nc_state a) \<and> transitions_ok (b # cs)"
| "transitions_ok _ \<longleftrightarrow> True"

definition validate_note ::
    "evidence_json \<Rightarrow> turn list \<Rightarrow> nat \<times> book_note \<Rightarrow> notebook_error + unit" where
  "validate_note ej ts = (\<lambda>(i, n).
     rbind (ensure (nt_id n = i + 1 \<and> trim (nt_text n) \<noteq> [] \<and> length (nt_text n) \<le> max_note_bytes
         \<and> time_ok (nt_created n)) Note_invalid) (\<lambda>_.
     rbind (draft_step (evidence_step (context_validate ej (nt_context n)))) (\<lambda>_.
     rbind (case nt_source_turn n of
         None \<Rightarrow> Inr ()
       | Some k \<Rightarrow> ensure (list_ex (\<lambda>t. tn_id t = k \<and> dr_context (tn_draft t) = nt_context n) ts)
           Note_source_differs) (\<lambda>_.
     rbind (ensure (length (nt_history n) \<le> max_note_changes
         \<and> list_all (\<lambda>c. valid_time (nc_unix_seconds c)) (nt_history n)) Note_history_invalid) (\<lambda>_.
     rbind (case nt_created n of
         None \<Rightarrow> Inr ()
       | Some created \<Rightarrow>
           ensure (case nt_history n of [] \<Rightarrow> False
             | c # _ \<Rightarrow> nc_state c = Investigating \<and> nc_unix_seconds c = created)
             Note_first_record_invalid) (\<lambda>_.
     rbind (ensure (transitions_ok (nt_history n)) Note_transition_invalid) (\<lambda>_.
       ensure (nt_history n = [] \<or> nc_state (last (nt_history n)) = nt_state n) Note_state_differs)))))))"

definition notebook_validate :: "evidence_json \<Rightarrow> notebook \<Rightarrow> notebook_error + unit" where
  "notebook_validate ej nb =
     rbind (ensure (\<not> notebook_empty nb \<and> length (nb_turns nb) \<le> max_turns \<and> length (nb_notes nb) \<le> max_notes)
       Book_counts_invalid) (\<lambda>_.
     rbind (check_all (validate_turn ej) (enumerate 0 (nb_turns nb))) (\<lambda>_.
       check_all (validate_note ej (nb_turns nb)) (enumerate 0 (nb_notes nb))))"

subsection \<open>The registration label\<close>

definition leap :: "nat \<Rightarrow> bool" where
  "leap y \<longleftrightarrow> y mod 4 = 0 \<and> (y mod 100 \<noteq> 0 \<or> y mod 400 = 0)"

definition year_length :: "nat \<Rightarrow> nat" where
  "year_length y = (if leap y then 366 else 365)"

definition month_lengths :: "nat \<Rightarrow> nat list" where
  "month_lengths y = [31, if leap y then 29 else 28, 31, 30, 31, 30, 31, 31, 30, 31, 30, 31]"

function year_loop :: "nat \<Rightarrow> nat \<Rightarrow> nat \<times> nat" where
  "year_loop days year =
     (if days < year_length year then (days, year) else year_loop (days - year_length year) (year + 1))"
  by pat_completeness auto
termination
  by (relation "measure fst") (auto simp: year_length_def split: if_splits)

declare year_loop.simps [simp del]

fun month_loop :: "nat list \<Rightarrow> nat \<Rightarrow> nat \<Rightarrow> nat \<times> nat" where
  "month_loop [] days month = (days, month)"
| "month_loop (l # ls) days month =
     (if days < l then (days, month) else month_loop ls (days - l) (month + 1))"

text \<open>Year, month and day of a number of seconds.\<close>

definition civil_date :: "nat \<Rightarrow> nat \<times> nat \<times> nat" where
  "civil_date v =
     (let days = v div 86400;
          (days, year) = year_loop (days mod 146097) (1970 + days div 146097 * 400);
          (days, month) = month_loop (month_lengths year) days 1 in
      (year, month, days + 1))"

definition padded :: "nat \<Rightarrow> nat \<Rightarrow> string" where
  "padded w n = replicate (w - length (dec n)) CHR ''0'' @ dec n"

definition registration_label :: "nat \<Rightarrow> string" where
  "registration_label v =
     (if v > 253402300799 then (''Hor'' @ byte_string [195, 161] @ ''rio inv'' @ byte_string [195, 161] @ ''lido'')
      else case civil_date v of (year, month, day) \<Rightarrow>
        let seconds = v mod 86400 in
        padded 4 year @ ''-'' @ padded 2 month @ ''-'' @ padded 2 day @ '' '' @ padded 2 (seconds div 3600)
        @ '':'' @ padded 2 (seconds div 60 mod 60) @ '':'' @ padded 2 (seconds mod 60) @ '' UTC'')"

subsection \<open>Markdown\<close>

fun join_with :: "string \<Rightarrow> string list \<Rightarrow> string" where
  "join_with sep [] = []"
| "join_with sep [s] = s"
| "join_with sep (s # t # ts) = s @ sep @ join_with sep (t # ts)"

text \<open>The debug format of a list of numbers and of an optional one.\<close>

definition debug_numbers :: "nat list \<Rightarrow> string" where
  "debug_numbers ns = ''['' @ join_with '', '' (map dec ns) @ '']''"

definition debug_option :: "nat option \<Rightarrow> string" where
  "debug_option v = (case v of None \<Rightarrow> ''None'' | Some n \<Rightarrow> ''Some('' @ dec n @ '')'')"

definition packet_numbers :: "evidence \<Rightarrow> nat list" where
  "packet_numbers cx = map pe_number (cx_packets cx)"

definition book_title :: string where "book_title = (''NetLane '' @ byte_string [226, 128, 148] @ '' caderno de investiga'' @
     byte_string [195, 167, 195, 163] @ ''o'')"

definition book_intro :: string where
  "book_intro = (''Registro local da conversa e das anota'' @ byte_string [195, 167, 195, 181] @ ''es. Hip'' @
     byte_string [195, 179] @ ''teses e respostas da IA exigem revis'' @ byte_string [195, 163] @
     ''o humana. Os estados das anota'' @ byte_string [195, 167, 195, 181] @ ''es s'' @
     byte_string [195, 163] @ ''o decis'' @ byte_string [195, 181] @ ''es do usu'' @
     byte_string [195, 161] @ ''rio. N'' @ byte_string [195, 163] @ ''o cont'' @
     byte_string [195, 169] @ ''m os bytes dos pacotes.'')"

definition turn_title :: "turn \<Rightarrow> string" where
  "turn_title t = ''Turno '' @ dec (tn_id t) @ ('' '' @ byte_string [194, 183] @ '' conversa '') @ dec (tn_conversation t)"

definition sent_evidence :: "turn \<Rightarrow> string" where
  "sent_evidence t =
     ''SHA-256: '' @ cx_sha256 (dr_context (tn_draft t))
     @ (byte_string [10] @ ''Pacotes: '') @ debug_numbers (packet_numbers (dr_context (tn_draft t)))
     @ (byte_string [10] @ ''Refer'' @ byte_string [195, 170] @ ''ncias na resposta: '')
     @ (if tn_references_valid t
        then (''conferidas contra este contexto; n'' @ byte_string [195, 163] @ ''o validam a conclus'' @
     byte_string [195, 163] @ ''o'')
        else (''INV'' @ byte_string [195, 129] @ ''LIDAS; resposta conservada apenas como registro''))"

definition registered_at :: "nat option \<Rightarrow> string" where
  "registered_at c = (case c of
      None \<Rightarrow> (''N'' @ byte_string [195, 163] @ ''o registrado nesta exporta'' @
     byte_string [195, 167, 195, 163] @ ''o antiga.'')
    | Some v \<Rightarrow> registration_label v @ ('' (rel'' @ byte_string [195, 179] @ ''gio do Windows).''))"

definition turn_markdown :: "turn \<Rightarrow> string" where
  "turn_markdown t =
     ''## '' @ turn_title t @ newline @ newline
     @ report_section (''Evid'' @ byte_string [195, 170] @ ''ncias no envio'') (sent_evidence t)
     @ report_section ''Problema relatado'' (dr_problem (tn_draft t))
     @ report_section (''Voc'' @ byte_string [195, 170]) (dr_question (tn_draft t))
     @ report_section (''Hor'' @ byte_string [195, 161] @ ''rio de registro'') (registered_at (tn_created t))
     @ (case dr_response (tn_draft t) of
          None \<Rightarrow> []
        | Some r \<Rightarrow>
            report_section ''Codex'' (rs_text r)
            @ report_section ''Estado do turno'' (rs_provider r @ ('' '' @ byte_string [194, 183] @ '' '') @ rs_model r @ ('' '' @ byte_string [194, 183] @ '' '') @ rs_status r))"

definition note_history_text :: "book_note \<Rightarrow> string" where
  "note_history_text n =
     (if nt_history n = [] then (''N'' @ byte_string [195, 163] @ ''o registrado nesta exporta'' @
     byte_string [195, 167, 195, 163] @ ''o antiga.'')
      else join_with newline
        (map (\<lambda>c. registration_label (nc_unix_seconds c) @ '': '' @ note_label (nc_state c)) (nt_history n)))"

definition note_origin :: "book_note \<Rightarrow> string" where
  "note_origin n =
     ''SHA-256: '' @ cx_sha256 (nt_context n)
     @ (byte_string [10] @ ''Pacotes: '') @ debug_numbers (packet_numbers (nt_context n))
     @ (byte_string [10] @ ''Turno: '') @ debug_option (nt_source_turn n)"

definition note_markdown :: "book_note \<Rightarrow> string" where
  "note_markdown n =
     ''## '' @ (''Anota'' @ byte_string [195, 167, 195, 163] @ ''o '') @ dec (nt_id n) @ newline @ newline
     @ report_section ''Estado'' (note_label (nt_state n))
     @ report_section (''Hip'' @ byte_string [195, 179] @ ''tese ou observa'' @ byte_string [195, 167, 195, 163] @
     ''o'') (nt_text n)
     @ report_section (''Hist'' @ byte_string [195, 179] @ ''rico de estados'') (note_history_text n)
     @ report_section ''Origem'' (note_origin n)"

definition notebook_markdown :: "notebook \<Rightarrow> string" where
  "notebook_markdown nb =
     ''# '' @ book_title @ newline @ newline @ book_intro @ newline @ newline
     @ concat (map turn_markdown (nb_turns nb)) @ concat (map note_markdown (nb_notes nb))"

subsection \<open>Resuming\<close>

definition char_boundary :: "string \<Rightarrow> nat \<Rightarrow> bool" where
  "char_boundary s i \<longleftrightarrow> i = 0 \<or> i = length s \<or> i < length s \<and> \<not> (128 \<le> code (s ! i) \<and> code (s ! i) < 192)"

fun boundary_below :: "string \<Rightarrow> nat \<Rightarrow> nat" where
  "boundary_below s 0 = 0"
| "boundary_below s (Suc n) = (if char_boundary s (Suc n) then Suc n else boundary_below s n)"

definition excerpt :: "string \<Rightarrow> nat \<Rightarrow> string" where
  "excerpt s limit = take (boundary_below s (min (length s) limit)) s"

definition resume_intro :: "string \<Rightarrow> string" where
  "resume_intro sha = (''Resumo local em trechos da investiga'' @ byte_string [195, 167, 195, 163] @ ''o da captura '') @ sha
     @ (''. Inclui at'' @ byte_string [195, 169] @ '' 2 turnos e 3 anota'' @
     byte_string [195, 167, 195, 181] @ ''es recentes; n'' @ byte_string [195, 163] @ ''o '' @
     byte_string [195, 169] @ '' o hist'' @ byte_string [195, 179] @
     ''rico completo nem prova de diagn'' @ byte_string [195, 179] @ ''stico. As sele'' @
     byte_string [195, 167, 195, 181] @ ''es antigas s'' @ byte_string [195, 163] @ ''o refer'' @
     byte_string [195, 170] @ ''ncias hist'' @ byte_string [195, 179] @ ''ricas, n'' @
     byte_string [195, 163] @ ''o anexos novos. Use somente o contexto estruturado atual como evid'' @
     byte_string [195, 170] @ ''ncia e pe'' @ byte_string [195, 167] @
     ''a os anexos que faltarem. '')"

definition resume_turn :: "turn \<Rightarrow> string" where
  "resume_turn t =
     ''[Turno '' @ dec (tn_id t) @ ''; conversa '' @ dec (tn_conversation t) @ (''; sele'' @ byte_string [195, 167, 195, 163] @ ''o '')
     @ debug_numbers (packet_numbers (dr_context (tn_draft t))) @ ''. Pergunta (trecho): ''
     @ excerpt (dr_question (tn_draft t)) 192 @ ''. ''
     @ (case dr_response (tn_draft t) of
          None \<Rightarrow> []
        | Some r \<Rightarrow>
            ''Estado (trecho): '' @ excerpt (rs_status r) 96 @ ''. ''
            @ (if tn_references_valid t
               then (''Resposta da IA (trecho, hip'' @ byte_string [195, 179] @ ''tese a revisar): '') @ excerpt (rs_text r) 512
               else (''Resposta omitida por refer'' @ byte_string [195, 170] @ ''ncias inv'' @
     byte_string [195, 161] @ ''lidas; confira o registro local.'')))
     @ ''] ''"

definition resume_note :: "book_note \<Rightarrow> string" where
  "resume_note n =
     (''[Anota'' @ byte_string [195, 167, 195, 163] @ ''o '') @ dec (nt_id n) @ ''; estado registrado pelo autor: '' @ note_label (nt_state n)
     @ ''; trecho: '' @ excerpt (nt_text n) 160 @ ''] ''"

definition default_question :: string where
  "default_question = (''Como podemos retomar a investiga'' @ byte_string [195, 167, 195, 163] @ ''o e qual evid'' @
     byte_string [195, 170] @ ''ncia falta conferir?'')"

definition one_spaced :: "string \<Rightarrow> string" where
  "one_spaced s = map (\<lambda>c. if code c = 13 \<or> code c = 10 then CHR '' '' else c) s"

definition resume_question ::
    "evidence_json \<Rightarrow> notebook \<Rightarrow> evidence \<Rightarrow> string \<Rightarrow> notebook_error + string" where
  "resume_question ej nb cx question =
     rbind (draft_step (evidence_step (context_validate ej cx))) (\<lambda>_.
     rbind (ensure (length question \<le> 512) Resume_question_long) (\<lambda>_.
       let ts = take 2 (rev (filter (\<lambda>t. cx_sha256 (dr_context (tn_draft t)) = cx_sha256 cx) (nb_turns nb)));
           ns = take 3 (rev (filter (\<lambda>n. cx_sha256 (nt_context n) = cx_sha256 cx) (nb_notes nb))) in
       rbind (ensure (ts \<noteq> [] \<or> ns \<noteq> []) Resume_no_history) (\<lambda>_.
         let summary = one_spaced (resume_intro (cx_sha256 cx) @ concat (map resume_turn (rev ts))
               @ concat (map resume_note (rev ns)) @ ''Pergunta atual: ''
               @ (if trim question = [] then default_question else trim question)) in
         rbind (ensure (length summary \<le> max_problem_bytes) Resume_too_large) (\<lambda>_. Inr summary))))"

end
