(* ===== verification/Folder.thy ===== *)
theory Folder
  imports Effects "HOL-Library.Sublist"
begin

text \<open>
  The file system as the assistant's exports use it: a tree of directories, files and links, where any
  call may fail, and \<open>publish\<close> of \<open>crates/netlane-ai/src/report.rs\<close>, which writes a file under a
  temporary name and renames it. A path is the list of its components below the root; a file's bytes are a
  \<^typ>\<open>string\<close>. Every call takes the next entry of the script of faults and fails when there is one (a
  failed write leaves the first bytes; an empty script never fails).
\<close>

type_synonym folder_path = "string list"

datatype entry = Directory | File string | Link

record store =
  st_entries :: "folder_path \<Rightarrow> entry option"
  st_faults :: "nat option list"

datatype store_error =
    Call_failed | Link_refused | Wrong_kind | File_too_large | Written_differs | Not_absolute
  | Receipt_json_failed

type_synonym 'a store_action = "(store, store_error, 'a) action"

subsection \<open>Calls of the file system\<close>

definition st_fault :: "store \<Rightarrow> nat option \<times> store" where
  "st_fault s = (case st_faults s of [] \<Rightarrow> (None, s) | f # fs \<Rightarrow> (f, s\<lparr>st_faults := fs\<rparr>))"

definition st_call :: "unit store_action" where
  "st_call s = (case st_fault s of (None, s') \<Rightarrow> (Inr (), s') | (Some _, s') \<Rightarrow> (Inl Call_failed, s'))"

definition put_entry :: "folder_path \<Rightarrow> entry option \<Rightarrow> store \<Rightarrow> store" where
  "put_entry p e s = s\<lparr>st_entries := (st_entries s)(p := e)\<rparr>"

text \<open>A new entry needs a free name in a directory.\<close>

definition free_name :: "folder_path \<Rightarrow> store \<Rightarrow> bool" where
  "free_name p s \<longleftrightarrow> st_entries s p = None \<and> p \<noteq> [] \<and> st_entries s (butlast p) = Some Directory"

definition create_dir :: "folder_path \<Rightarrow> unit store_action" where
  "create_dir p = sbind st_call (\<lambda>_ s.
     if free_name p s then (Inr (), put_entry p (Some Directory) s) else (Inl Call_failed, s))"

definition create_file :: "folder_path \<Rightarrow> unit store_action" where
  "create_file p = sbind st_call (\<lambda>_ s.
     if free_name p s then (Inr (), put_entry p (Some (File [])) s) else (Inl Call_failed, s))"

definition write_file :: "folder_path \<Rightarrow> string \<Rightarrow> unit store_action" where
  "write_file p bytes s =
     (case st_fault s of
        (None, s') \<Rightarrow> (Inr (), put_entry p (Some (File bytes)) s')
      | (Some n, s') \<Rightarrow> (Inl Call_failed, put_entry p (Some (File (take n bytes))) s'))"

definition rename_file :: "folder_path \<Rightarrow> folder_path \<Rightarrow> unit store_action" where
  "rename_file p q = sbind st_call (\<lambda>_ s.
     case (st_entries s p, st_entries s q) of
       (Some (File bytes), None) \<Rightarrow> (Inr (), put_entry p None (put_entry q (Some (File bytes)) s))
     | (Some (File bytes), Some (File _)) \<Rightarrow> (Inr (), put_entry p None (put_entry q (Some (File bytes)) s))
     | _ \<Rightarrow> (Inl Call_failed, s))"

definition read_all :: "folder_path \<Rightarrow> string store_action" where
  "read_all p = sbind st_call (\<lambda>_ s.
     case st_entries s p of Some (File bytes) \<Rightarrow> (Inr bytes, s) | _ \<Rightarrow> (Inl Call_failed, s))"

subsection \<open>Publishing\<close>

definition publish :: "folder_path \<Rightarrow> string \<Rightarrow> string \<Rightarrow> unit store_action" where
  "publish directory name data =
     (let part = directory @ [name @ ''.part''] in
      sbind (create_file part) (\<lambda>_.
      sbind (write_file part data) (\<lambda>_.
      sbind st_call (\<lambda>_.
        rename_file part (directory @ [name])))))"

text \<open>Publish each file and read it back.\<close>

fun publish_checked :: "folder_path \<Rightarrow> (string \<times> string) list \<Rightarrow> unit store_action" where
  "publish_checked directory [] = spure (Inr ())"
| "publish_checked directory ((name, data) # files) =
     sbind (publish directory name data) (\<lambda>_.
     sbind (read_all (directory @ [name])) (\<lambda>bytes.
     sbind (spure (ensure (bytes = data) Written_differs)) (\<lambda>_.
       publish_checked directory files)))"

text \<open>A new directory, its files, and the receipt last (\<open>None\<close>: its JSON could not be written).\<close>

definition folder_save ::
    "folder_path \<Rightarrow> (string \<times> string) list \<Rightarrow> string option \<Rightarrow> unit store_action" where
  "folder_save directory files receipt =
     sbind (create_dir directory) (\<lambda>_.
     sbind (publish_checked directory files) (\<lambda>_.
     sbind (spure (ok_or receipt Receipt_json_failed)) (\<lambda>bytes.
       publish directory ''receipt.json'' bytes)))"

subsection \<open>What the calls change\<close>

lemma st_fault_entries: "st_fault s = (f, s') \<Longrightarrow> st_entries s' = st_entries s"
  by (auto simp: st_fault_def split: list.splits)

lemma st_call_entries: "st_call s = (r, s') \<Longrightarrow> st_entries s' = st_entries s"
  by (auto simp: st_call_def dest: st_fault_entries split: prod.splits option.splits)

lemma st_entries_put [simp]: "st_entries (put_entry p e s) = (st_entries s)(p := e)"
  by (simp add: put_entry_def)

text \<open>\<open>only_below\<close>: nothing outside a directory's subtree has changed.\<close>

definition only_below :: "folder_path \<Rightarrow> store \<Rightarrow> store \<Rightarrow> bool" where
  "only_below d s s' \<longleftrightarrow> (\<forall>p. \<not> prefix d p \<longrightarrow> st_entries s' p = st_entries s p)"

lemma only_below_refl [intro, simp]: "only_below d s s"
  by (simp add: only_below_def)

lemma only_below_trans: "only_below d s t \<Longrightarrow> only_below d t u \<Longrightarrow> only_below d s u"
  by (simp add: only_below_def)

lemma st_call_below: "st_call s = (r, s') \<Longrightarrow> only_below d s s'"
  by (simp add: only_below_def st_call_entries)

lemma create_file_cases:
  assumes "create_file p s = (r, s')"
  obtains (failed) e where "r = Inl e" "st_entries s' = st_entries s"
  | (created) "r = Inr ()" "st_entries s p = None" "st_entries s' = (st_entries s)(p \<mapsto> File [])"
proof (cases r)
  case (Inl e)
  then have "st_entries s' = st_entries s"
    using assms by (auto simp: create_file_def result_simps split: if_splits dest: st_call_entries)
  with Inl show ?thesis by (rule failed)
next
  case (Inr u)
  then show ?thesis
    using assms created by (auto simp: create_file_def free_name_def result_simps split: if_splits dest!: st_call_entries)
qed

lemma create_dir_cases:
  assumes "create_dir p s = (r, s')"
  obtains (failed) e where "r = Inl e" "st_entries s' = st_entries s"
  | (created) "r = Inr ()" "st_entries s p = None" "st_entries s' = (st_entries s)(p \<mapsto> Directory)"
proof (cases r)
  case (Inl e)
  then have "st_entries s' = st_entries s"
    using assms by (auto simp: create_dir_def result_simps split: if_splits dest: st_call_entries)
  with Inl show ?thesis by (rule failed)
next
  case (Inr u)
  then show ?thesis
    using assms created by (auto simp: create_dir_def free_name_def result_simps split: if_splits dest!: st_call_entries)
qed

lemma write_file_cases:
  assumes "write_file p bytes s = (r, s')"
  obtains (failed) e n where "r = Inl e" "st_entries s' = (st_entries s)(p \<mapsto> File (take n bytes))"
  | (written) "r = Inr ()" "st_entries s' = (st_entries s)(p \<mapsto> File bytes)"
  using assms by (auto simp: write_file_def dest!: st_fault_entries split: prod.splits option.splits)

lemma rename_file_cases:
  assumes "rename_file p q s = (r, s')"
  obtains (failed) e where "r = Inl e" "st_entries s' = st_entries s"
  | (renamed) bytes where "r = Inr ()" "st_entries s p = Some (File bytes)"
    "st_entries s' = (st_entries s)(q \<mapsto> File bytes, p := None)"
proof -
  obtain c s1 where c: "st_call s = (c, s1)" by (cases "st_call s")
  note k = st_call_entries [OF c]
  show ?thesis
  proof (cases c)
    case (Inl e)
    then show ?thesis using assms c k by (intro failed) (auto simp: rename_file_def sbind_def)
  next
    case (Inr u)
    have m: "rename_file p q s = (case (st_entries s p, st_entries s q) of
       (Some (File bytes), None) \<Rightarrow> (Inr (), put_entry p None (put_entry q (Some (File bytes)) s1))
     | (Some (File bytes), Some (File _)) \<Rightarrow> (Inr (), put_entry p None (put_entry q (Some (File bytes)) s1))
     | _ \<Rightarrow> (Inl Call_failed, s1))"
      by (simp add: rename_file_def sbind_def c Inr) (simp only: k)
    show ?thesis
    proof (cases "\<exists>bytes. st_entries s p = Some (File bytes) \<and> (\<forall>x. st_entries s q = Some x \<longrightarrow> (\<exists>b. x = File b))")
      case True
      then obtain bytes where "st_entries s p = Some (File bytes)"
          "st_entries s q = None \<or> (\<exists>b. st_entries s q = Some (File b))"
        by (cases "st_entries s q") auto
      then show ?thesis using assms m k by (intro renamed [of bytes]) auto
    next
      case False
      then have "rename_file p q s = (Inl Call_failed, s1)"
        unfolding m by (auto split: option.split entry.split)
      then show ?thesis using assms k by (intro failed) auto
    qed
  qed
qed

lemma read_all_cases:
  assumes "read_all p s = (r, s')"
  shows "st_entries s' = st_entries s" "r = Inr bytes \<Longrightarrow> st_entries s p = Some (File bytes)"
proof -
  obtain c s1 where c: "st_call s = (c, s1)" by (cases "st_call s")
  note k = st_call_entries [OF c]
  have "read_all p s = (Inl Call_failed, s1) \<or> (\<exists>b. read_all p s = (Inr b, s1) \<and> st_entries s p = Some (File b))
      \<or> (\<exists>e. read_all p s = (Inl e, s1))"
    using c k by (cases c; cases "st_entries s p"; cases "the (st_entries s p)") (auto simp: read_all_def sbind_def)
  then show "st_entries s' = st_entries s" "r = Inr bytes \<Longrightarrow> st_entries s p = Some (File bytes)"
    using assms k by auto
qed

lemma publish_outcome:
  assumes "publish d name data s = (r, s')" "p \<noteq> d @ [name @ ''.part'']"
  shows "r = Inl e \<Longrightarrow> st_entries s' p = st_entries s p"
    and "r = Inr () \<Longrightarrow> st_entries s' p = (if p = d @ [name] then Some (File data) else st_entries s p)"
proof -
  let ?t = "d @ [name @ ''.part'']" and ?q = "d @ [name]"
  have ne: "?t \<noteq> ?q" by simp
  consider (a) e s1 where "create_file ?t s = (Inl e, s1)" "r = Inl e" "s' = s1"
    | (b) e s1 s2 where "create_file ?t s = (Inr (), s1)" "write_file ?t data s1 = (Inl e, s2)" "r = Inl e" "s' = s2"
    | (c) e s1 s2 s3 where "create_file ?t s = (Inr (), s1)" "write_file ?t data s1 = (Inr (), s2)"
        "st_call s2 = (Inl e, s3)" "r = Inl e" "s' = s3"
    | (d) s1 s2 s3 where "create_file ?t s = (Inr (), s1)" "write_file ?t data s1 = (Inr (), s2)"
        "st_call s2 = (Inr (), s3)" "rename_file ?t ?q s3 = (r, s')"
    using assms(1) unfolding publish_def Let_def
    by (cases r) (auto simp: result_simps)
  then have "(r = Inl e \<longrightarrow> st_entries s' p = st_entries s p) \<and>
      (r = Inr () \<longrightarrow> st_entries s' p = (if p = ?q then Some (File data) else st_entries s p))"
  proof cases
    case a
    then show ?thesis by (auto elim!: create_file_cases)
  next
    case b
    then show ?thesis using assms(2) by (auto elim!: create_file_cases write_file_cases)
  next
    case c
    then show ?thesis using assms(2) by (auto elim!: create_file_cases write_file_cases dest!: st_call_entries)
  next
    case d
    from d(4) show ?thesis
    proof (cases rule: rename_file_cases)
      case (failed e)
      then show ?thesis using d(1-3) assms(2) by (auto elim!: create_file_cases write_file_cases dest!: st_call_entries)
    next
      case (renamed bytes)
      have "st_entries s3 ?t = Some (File data)" "st_entries s3 p = st_entries s p"
        using d(1-3) assms(2) by (auto elim!: create_file_cases write_file_cases dest!: st_call_entries)
      with renamed assms(2) ne show ?thesis by auto
    qed
  qed
  then show "r = Inl e \<Longrightarrow> st_entries s' p = st_entries s p"
    "r = Inr () \<Longrightarrow> st_entries s' p = (if p = ?q then Some (File data) else st_entries s p)"
    by auto
qed

definition published_names :: "folder_path \<Rightarrow> string list \<Rightarrow> folder_path set" where
  "published_names d names = (\<lambda>n. d @ [n]) ` set names \<union> (\<lambda>n. d @ [n @ ''.part'']) ` set names"

text \<open>Names that do not get into each other's way.\<close>

definition separate_names :: "string list \<Rightarrow> bool" where
  "separate_names ns \<longleftrightarrow> distinct ns \<and> (\<forall>m \<in> set ns. \<forall>n \<in> set ns. m \<noteq> n @ ''.part'')"

lemma publish_checked_outcome:
  assumes "publish_checked d files s = (r, s')" "separate_names (map fst files)"
  shows "p \<notin> published_names d (map fst files) \<Longrightarrow> st_entries s' p = st_entries s p"
    and "r = Inr () \<Longrightarrow> (n, data) \<in> set files \<Longrightarrow> st_entries s' (d @ [n]) = Some (File data)"
proof -
  have "(p \<notin> published_names d (map fst files) \<longrightarrow> st_entries s' p = st_entries s p) \<and>
      (r = Inr () \<longrightarrow> (n, data) \<in> set files \<longrightarrow> st_entries s' (d @ [n]) = Some (File data))" for p n data
    using assms
  proof (induction files arbitrary: s p n data)
    case Nil
    then show ?case by (auto simp: published_names_def)
  next
    case (Cons f files)
    obtain m x where f: "f = (m, x)" by (cases f)
    have sep: "separate_names (map fst files)" "m \<notin> fst ` set files"
        "\<And>k y. (k, y) \<in> set files \<Longrightarrow> m \<noteq> k @ ''.part'' \<and> k \<noteq> m @ ''.part'' \<and> k \<noteq> m"
      using Cons.prems(2) by (force simp: separate_names_def f)+
    consider (a) e s1 where "publish d m x s = (Inl e, s1)" "r = Inl e" "s' = s1"
      | (b) e s1 s2 where "publish d m x s = (Inr (), s1)" "read_all (d @ [m]) s1 = (e, s2)" "s' = s2" "r \<noteq> Inr ()"
      | (c) s1 s2 where "publish d m x s = (Inr (), s1)" "read_all (d @ [m]) s1 = (Inr x, s2)"
          "publish_checked d files s2 = (r, s')"
      using Cons.prems(1) unfolding f publish_checked.simps
      by (cases r) (auto simp: result_simps ensure_def split: if_splits)
    then show ?case
    proof cases
      case a
      then show ?thesis
        using publish_outcome(1) [OF a(1)] by (auto simp: f published_names_def)
    next
      case b
      then show ?thesis
        using publish_outcome(2) [OF b(1)] read_all_cases(1) [OF b(2)] by (auto simp: f published_names_def)
    next
      case c
      note ih = Cons.IH [OF c(3) sep(1)]
      have s2: "st_entries s2 q = (if q = d @ [m] then Some (File x) else st_entries s q)"
        if "q \<noteq> d @ [m @ ''.part'']" for q
        using publish_outcome(2) [OF c(1) that] read_all_cases(1) [OF c(2)] by simp
      have "d @ [m] \<notin> published_names d (map fst files)"
        using sep by (force simp: published_names_def)
      then have "st_entries s' (d @ [m]) = Some (File x)"
        using ih s2 [of "d @ [m]"] by simp
      then show ?thesis
        using ih s2 [of p] by (auto simp: f published_names_def)
    qed
  qed
  then show "p \<notin> published_names d (map fst files) \<Longrightarrow> st_entries s' p = st_entries s p"
    "r = Inr () \<Longrightarrow> (n, data) \<in> set files \<Longrightarrow> st_entries s' (d @ [n]) = Some (File data)"
    by blast+
qed

definition receipt_path :: "folder_path \<Rightarrow> folder_path" where
  "receipt_path d = d @ [''receipt.json'']"

lemma receipt_apart:
  assumes "separate_names (''receipt.json'' # map fst files)"
  shows "receipt_path d \<notin> published_names d (map fst files)"
    "receipt_path d \<noteq> d @ [''receipt.json'' @ ''.part'']" "separate_names (map fst files)"
proof -
  show "receipt_path d \<notin> published_names d (map fst files)"
    using assms unfolding separate_names_def published_names_def receipt_path_def by force
  show "receipt_path d \<noteq> d @ [''receipt.json'' @ ''.part'']"
    by (simp add: receipt_path_def)
  show "separate_names (map fst files)"
    using assms by (simp add: separate_names_def)
qed

text \<open>
  Saving a folder touches nothing outside it, nor anything at all when its name is taken; the receipt
  stands in it only when everything has succeeded, and then every file has its bytes.
\<close>

lemma folder_save_outcome:
  assumes "folder_save d files receipt s = (r, s')" "separate_names (''receipt.json'' # map fst files)"
  shows "only_below d s s'"
    and "st_entries s d \<noteq> None \<Longrightarrow> st_entries s' = st_entries s"
    and "r = Inl e \<Longrightarrow> st_entries s' (receipt_path d) = st_entries s (receipt_path d)"
    and "r = Inr () \<Longrightarrow> \<exists>b. receipt = Some b \<and> st_entries s' (receipt_path d) = Some (File b)"
    and "r = Inr () \<Longrightarrow> (n, data) \<in> set files \<Longrightarrow> st_entries s' (d @ [n]) = Some (File data)"
    and "r = Inr () \<Longrightarrow> st_entries s' d = Some Directory"
proof -
  note ap = receipt_apart(1,2) [OF assms(2), of d] receipt_apart(3) [OF assms(2)]
  have below: "p \<notin> published_names d (map fst files)" "p \<noteq> receipt_path d"
      "p \<noteq> d @ [''receipt.json'' @ ''.part'']" "p \<noteq> d" if "\<not> prefix d p" for p
    using that by (auto simp: published_names_def receipt_path_def)
  have dn: "d \<notin> published_names d (map fst files)" "d \<noteq> receipt_path d" "d \<noteq> d @ [''receipt.json'' @ ''.part'']"
    by (auto simp: published_names_def receipt_path_def)
  consider (a) e where "create_dir d s = (Inl e, s')" "r = Inl e"
    | (b) e s1 u where "create_dir d s = (Inr (), s1)" "publish_checked d files s1 = (u, s')" "r = Inl e"
    | (c) s1 s2 b where "create_dir d s = (Inr (), s1)" "publish_checked d files s1 = (Inr (), s2)"
        "publish d ''receipt.json'' b s2 = (r, s')" "receipt = Some b"
    using assms(1) unfolding folder_save_def by (cases r) (auto simp: result_simps)
  then have "only_below d s s' \<and> (st_entries s d \<noteq> None \<longrightarrow> st_entries s' = st_entries s) \<and>
    (r = Inl e \<longrightarrow> st_entries s' (receipt_path d) = st_entries s (receipt_path d)) \<and>
    (r = Inr () \<longrightarrow> (\<exists>b. receipt = Some b \<and> st_entries s' (receipt_path d) = Some (File b)) \<and> st_entries s' d = Some Directory \<and>
      ((n, data) \<in> set files \<longrightarrow> st_entries s' (d @ [n]) = Some (File data)))"
  proof cases
    case a
    then show ?thesis by (auto elim!: create_dir_cases simp: only_below_def)
  next
    case b
    then show ?thesis
      using publish_checked_outcome(1) [OF b(2) ap(3)] ap(1) below dn
      by (auto elim!: create_dir_cases simp: only_below_def)
  next
    case c
    have s1: "st_entries s1 = (st_entries s)(d \<mapsto> Directory)" "st_entries s d = None"
      using c(1) by (auto elim!: create_dir_cases)
    have s2: "st_entries s2 p = st_entries s1 p" if "p \<notin> published_names d (map fst files)" for p
      using publish_checked_outcome(1) [OF c(2) ap(3) that] .
    have s': "st_entries s' p = (if r = Inr () \<and> p = receipt_path d then Some (File b) else st_entries s2 p)"
      if "p \<noteq> d @ [''receipt.json'' @ ''.part'']" for p
      using publish_outcome [OF c(3) that] by (cases r) (auto simp: receipt_path_def)
    have "st_entries s' (d @ [n]) = Some (File data)" if "r = Inr ()" "(n, data) \<in> set files"
    proof -
      have n: "n \<in> set (map fst files)" using that(2) by force
      have "n \<in> set (''receipt.json'' # map fst files)" "''receipt.json'' \<in> set (''receipt.json'' # map fst files)"
        using n by (simp_all del: set_map)
      then have "n \<noteq> ''receipt.json'' @ ''.part''"
        using assms(2) unfolding separate_names_def by blast
      moreover have "n \<noteq> ''receipt.json''"
        using assms(2) n unfolding separate_names_def distinct.simps by metis
      ultimately have "n \<noteq> ''receipt.json'' @ ''.part''" "n \<noteq> ''receipt.json''" .
      then show ?thesis
        using publish_checked_outcome(2) [OF c(2) ap(3) refl that(2)] s' [of "d @ [n]"]
        by (auto simp: receipt_path_def)
    qed
    moreover have "only_below d s s'"
      unfolding only_below_def
    proof (intro allI impI)
      fix p assume "\<not> prefix d p"
      note b = below [OF this]
      show "st_entries s' p = st_entries s p"
        using s' [OF b(3)] s2 [OF b(1)] b s1 by simp
    qed
    ultimately show ?thesis
      using s1 s2 [of d] s2 [of "receipt_path d"] s' [of d] s' [of "receipt_path d"] ap dn c(4) by auto
  qed
  then show "only_below d s s'" "st_entries s d \<noteq> None \<Longrightarrow> st_entries s' = st_entries s"
    "r = Inl e \<Longrightarrow> st_entries s' (receipt_path d) = st_entries s (receipt_path d)"
    "r = Inr () \<Longrightarrow> \<exists>b. receipt = Some b \<and> st_entries s' (receipt_path d) = Some (File b)"
    "r = Inr () \<Longrightarrow> (n, data) \<in> set files \<Longrightarrow> st_entries s' (d @ [n]) = Some (File data)"
    "r = Inr () \<Longrightarrow> st_entries s' d = Some Directory"
    by blast+
qed

subsection \<open>Where nothing fails\<close>

lemma st_call_calm: "st_faults s = [] \<Longrightarrow> st_call s = (Inr (), s)"
  by (simp add: st_call_def st_fault_def)

lemma st_faults_put [simp]: "st_faults (put_entry p e s) = st_faults s"
  by (simp add: put_entry_def)

lemma publish_calm:
  assumes "st_faults s = []" "st_entries s d = Some Directory"
    and "st_entries s (d @ [n]) = None" "st_entries s (d @ [n @ ''.part'']) = None"
  obtains s' where "publish d n x s = (Inr (), s')" "st_faults s' = []"
    "\<And>p. p \<noteq> d @ [n] \<Longrightarrow> st_entries s' p = st_entries s p" "st_entries s' (d @ [n]) = Some (File x)"
proof -
  let ?t = "d @ [n @ ''.part'']"
  define s1 where "s1 = put_entry ?t (Some (File [])) s"
  define s2 where "s2 = put_entry ?t (Some (File x)) s1"
  define s3 where "s3 = put_entry ?t None (put_entry (d @ [n]) (Some (File x)) s2)"
  have f: "st_faults s1 = []" "st_faults s2 = []" "st_faults s3 = []"
    by (simp_all add: s1_def s2_def s3_def assms(1))
  have 1: "create_file ?t s = (Inr (), s1)"
    using assms by (simp add: create_file_def st_call_calm free_name_def s1_def)
  have 2: "write_file ?t x s1 = (Inr (), s2)"
    by (simp add: write_file_def st_fault_def f s2_def)
  have 3: "rename_file ?t (d @ [n]) s2 = (Inr (), s3)"
    using assms(3) by (simp add: rename_file_def st_call_calm f s3_def) (simp add: s2_def s1_def)
  have "publish d n x s = (Inr (), s3)"
    by (simp add: publish_def Let_def 1 2 3 st_call_calm f)
  moreover have "st_entries s3 p = st_entries s p" if "p \<noteq> d @ [n]" for p
    using that assms(4) by (simp add: s3_def s2_def s1_def)
  moreover have "st_entries s3 (d @ [n]) = Some (File x)"
    by (simp add: s3_def)
  ultimately show ?thesis using that f by blast
qed

lemma publish_checked_calm:
  assumes "st_faults s = []" "st_entries s d = Some Directory" "separate_names (map fst files)"
    and "\<And>p. p \<in> published_names d (map fst files) \<Longrightarrow> st_entries s p = None"
  shows "\<exists>s'. publish_checked d files s = (Inr (), s') \<and> st_faults s' = []"
  using assms
proof (induction files arbitrary: s)
  case Nil
  then show ?case by simp
next
  case (Cons f files)
  obtain n x where f: "f = (n, x)" by (cases f)
  have free: "st_entries s (d @ [n]) = None" "st_entries s (d @ [n @ ''.part'']) = None"
    using Cons.prems(4) by (simp_all add: f published_names_def)
  obtain s1 where p: "publish d n x s = (Inr (), s1)" and f1: "st_faults s1 = []"
      and same: "\<And>p. p \<noteq> d @ [n] \<Longrightarrow> st_entries s1 p = st_entries s p" and new: "st_entries s1 (d @ [n]) = Some (File x)"
    using publish_calm [OF Cons.prems(1,2) free] by metis
  have apart: "d @ [n] \<notin> published_names d (map fst files)" "separate_names (map fst files)"
    using Cons.prems(3) by (force simp: f separate_names_def published_names_def)+
  have "st_entries s1 p = None" if "p \<in> published_names d (map fst files)" for p
    using that apart(1) same [of p] Cons.prems(4) [of p] by (auto simp: f published_names_def)
  moreover have "st_entries s1 d = Some Directory" using same [of d] Cons.prems(2) by simp
  ultimately obtain s' where "publish_checked d files s1 = (Inr (), s')" "st_faults s' = []"
    using Cons.IH [OF f1 _ apart(2)] by blast
  moreover have "read_all (d @ [n]) s1 = (Inr x, s1)"
    by (simp add: read_all_def st_call_calm f1 new)
  ultimately show ?case by (simp add: f p)
qed

text \<open>Under a free name with nothing below it, a folder is saved.\<close>

lemma folder_save_calm:
  assumes "st_faults s = []" "free_name d s" "\<And>p. strict_prefix d p \<Longrightarrow> st_entries s p = None"
    and "separate_names (''receipt.json'' # map fst files)"
  shows "\<exists>s'. folder_save d files (Some b) s = (Inr (), s') \<and> st_faults s' = []"
proof -
  define s1 where "s1 = put_entry d (Some Directory) s"
  have f1: "st_faults s1 = []" "st_entries s1 d = Some Directory" by (simp_all add: s1_def assms(1))
  have c: "create_dir d s = (Inr (), s1)"
    using assms(1,2) by (simp add: create_dir_def st_call_calm s1_def)
  have below: "st_entries s1 p = None" if "p = d @ [n]" for p n
    using that assms(3) [of p] by (simp add: s1_def strict_prefix_def)
  note sep = receipt_apart(3) [OF assms(4)]
  have free: "st_entries s1 p = None" if "p \<in> published_names d (map fst files)" for p
    using that below unfolding published_names_def by (elim UnE imageE) auto
  obtain s2 where p: "publish_checked d files s1 = (Inr (), s2)" "st_faults s2 = []"
    using publish_checked_calm [OF f1 sep free] by blast
  note keep = publish_checked_outcome(1) [OF p(1) sep]
  have "st_entries s2 d = Some Directory"
    using keep [of d] f1 by (auto simp: published_names_def)
  moreover have "st_entries s2 (receipt_path d) = None"
    using keep [OF receipt_apart(1) [OF assms(4)]] below by (simp add: receipt_path_def)
  moreover have "d @ [''receipt.json'' @ ''.part''] \<notin> published_names d (map fst files)"
    using assms(4) unfolding separate_names_def published_names_def by force
  then have "st_entries s2 (d @ [''receipt.json'' @ ''.part'']) = None"
    using keep below by simp
  ultimately obtain s' where "publish d ''receipt.json'' b s2 = (Inr (), s')" "st_faults s' = []"
    using publish_calm [OF p(2), of d "''receipt.json''" b] unfolding receipt_path_def by blast
  then show ?thesis by (simp add: folder_save_def c p)
qed

end
