(* ===== verification/Notebook_Store.thy ===== *)
theory Notebook_Store
  imports Notebook Folder
begin

text \<open>
  Saving and loading in \<open>crates/netlane-ai/src/report.rs\<close>, \<open>investigation.rs\<close> and
  \<open>investigation/persistence.rs\<close>: a draft and a notebook are each written to a new folder whose receipt
  comes last, and a notebook is read back only as far as receipt and validation bear it out. What
  \<open>serde_json\<close> writes and reads, SHA-256 (as lower-case hexadecimal text) and what the standard library
  says of a path's text are parameters.
\<close>

record path_view =
  pv_absolute :: "folder_path \<Rightarrow> bool"
  pv_text :: "folder_path \<Rightarrow> string"

record file_hash =
  fh_file :: string
  fh_bytes :: nat
  fh_sha256 :: string

datatype save_error =
    Store_failed store_error | Draft_unsaved draft_error | Book_unsaved notebook_error | Book_empty
  | Export_too_large | Save_json_failed

definition hashes_of :: "(string \<Rightarrow> string) \<Rightarrow> (string \<times> string) list \<Rightarrow> file_hash list" where
  "hashes_of sha files =
     map (\<lambda>(name, data). \<lparr>fh_file = name, fh_bytes = length data, fh_sha256 = sha data\<rparr>) files"

subsection \<open>The folder of a draft\<close>

record report_receipt =
  rr_schema :: nat
  rr_investigation_id :: string
  rr_source_sha256 :: string
  rr_packet_numbers :: "nat list"
  rr_ai_included :: bool
  rr_references_checked :: bool
  rr_files :: "file_hash list"

record report_text =
  rt_draft :: "draft \<Rightarrow> string option"
  rt_receipt :: "report_receipt \<Rightarrow> string option"
  rt_sha :: "string \<Rightarrow> string"

definition report_files :: "report_text \<Rightarrow> evidence_json \<Rightarrow> draft \<Rightarrow> save_error + (string \<times> string) list" where
  "report_files rt ej d =
     rbind (map_sum Draft_unsaved id (draft_markdown ej d)) (\<lambda>md.
     rbind (map_sum Draft_unsaved id (draft_html ej d)) (\<lambda>html.
     rbind (ok_or (rt_draft rt d) Save_json_failed) (\<lambda>json.
       Inr [(''report.md'', md), (''report.html'', html), (''context.json'', json)])))"

definition draft_receipt :: "report_text \<Rightarrow> draft \<Rightarrow> (string \<times> string) list \<Rightarrow> report_receipt" where
  "draft_receipt rt d files =
     \<lparr>rr_schema = 1, rr_investigation_id = cx_investigation_id (dr_context d),
      rr_source_sha256 = cx_sha256 (dr_context d),
      rr_packet_numbers = map pe_number (cx_packets (dr_context d)),
      rr_ai_included = dr_response d \<noteq> None, rr_references_checked = dr_response d \<noteq> None,
      rr_files = hashes_of (rt_sha rt) files\<rparr>"

definition draft_save ::
    "path_view \<Rightarrow> report_text \<Rightarrow> evidence_json \<Rightarrow> draft \<Rightarrow> folder_path
     \<Rightarrow> (store, save_error, report_receipt) action" where
  "draft_save pv rt ej d directory =
     sbind (spure (ensure (pv_absolute pv directory) (Store_failed Not_absolute))) (\<lambda>_.
     sbind (spure (report_files rt ej d)) (\<lambda>files.
     sbind (smap_error Store_failed
         (folder_save directory files (rt_receipt rt (draft_receipt rt d files)))) (\<lambda>_.
       spure (Inr (draft_receipt rt d files)))))"

subsection \<open>The folder of a notebook\<close>

record book_receipt =
  br_schema :: nat
  br_turns :: nat
  br_notes :: nat
  br_files :: "file_hash list"

record book_text =
  bk_pretty :: "notebook \<Rightarrow> string option"
  bk_parse :: "string \<Rightarrow> (nat \<times> notebook) option"
  bk_receipt :: "book_receipt \<Rightarrow> string option"
  bk_parse_receipt :: "string \<Rightarrow> book_receipt option"
  bk_sha :: "string \<Rightarrow> string"

definition book_files :: "book_text \<Rightarrow> evidence_json \<Rightarrow> notebook \<Rightarrow> save_error + (string \<times> string) list" where
  "book_files bk ej nb =
     rbind (ensure (\<not> notebook_empty nb) Book_empty) (\<lambda>_.
     rbind (map_sum Book_unsaved id (notebook_validate ej nb)) (\<lambda>_.
     rbind (ok_or (bk_pretty bk nb) Save_json_failed) (\<lambda>json.
     rbind (ensure (length json \<le> max_notebook_bytes
         \<and> length (notebook_markdown nb) \<le> max_notebook_bytes) Export_too_large) (\<lambda>_.
       Inr [(''investigation.json'', json), (''investigation.md'', notebook_markdown nb)]))))"

definition book_receipt_of :: "book_text \<Rightarrow> notebook \<Rightarrow> (string \<times> string) list \<Rightarrow> book_receipt" where
  "book_receipt_of bk nb files =
     \<lparr>br_schema = 1, br_turns = length (nb_turns nb), br_notes = length (nb_notes nb),
      br_files = hashes_of (bk_sha bk) files\<rparr>"

definition notebook_save ::
    "book_text \<Rightarrow> evidence_json \<Rightarrow> notebook \<Rightarrow> folder_path \<Rightarrow> (store, save_error, book_receipt) action" where
  "notebook_save bk ej nb directory =
     sbind (spure (book_files bk ej nb)) (\<lambda>files.
     sbind (smap_error Store_failed
         (folder_save directory files (bk_receipt bk (book_receipt_of bk nb files)))) (\<lambda>_.
       spure (Inr (book_receipt_of bk nb files))))"

subsection \<open>Loading a notebook\<close>

datatype load_error =
    Load_failed store_error | Path_not_local | Receipt_unreadable | Receipt_incompatible | Entry_limits_invalid
  | Entry_name_unexpected | Entry_differs | Entry_duplicated | Markdown_missing | Book_json_missing
  | Book_json_invalid | Book_incompatible | Book_rejected notebook_error | Receipt_counts_differ

text \<open>The sequence visitor: at most \<open>n\<close> elements.\<close>

fun bounded_seq :: "nat \<Rightarrow> 'a list \<Rightarrow> 'a list \<Rightarrow> 'a list option" where
  "bounded_seq n items [] = Some items"
| "bounded_seq n items (x # xs) = (if length items = n then None else bounded_seq n (items @ [x]) xs)"

definition bounded_book :: "notebook \<Rightarrow> notebook option" where
  "bounded_book nb =
     (if bounded_seq max_turns [] (nb_turns nb) \<noteq> None \<and> bounded_seq max_notes [] (nb_notes nb) \<noteq> None
         \<and> list_all (\<lambda>n. bounded_seq max_note_changes [] (nt_history n) \<noteq> None) (nb_notes nb)
      then Some nb else None)"

definition plain_path :: "folder_path \<Rightarrow> bool \<Rightarrow> unit store_action" where
  "plain_path p directory = sbind st_call (\<lambda>_ s.
     (case st_entries s p of
        None \<Rightarrow> Inl Call_failed
      | Some Link \<Rightarrow> Inl Link_refused
      | Some Directory \<Rightarrow> ensure directory Wrong_kind
      | Some (File _) \<Rightarrow> ensure (\<not> directory) Wrong_kind, s))"

definition read_limited :: "folder_path \<Rightarrow> nat \<Rightarrow> string store_action" where
  "read_limited p limit =
     sbind (plain_path p False) (\<lambda>_.
     sbind st_call (\<lambda>_.
     sbind (read_all p) (\<lambda>content.
       let bytes = take (limit + 1) content in
       sbind (spure (ensure (length bytes \<le> limit) File_too_large)) (\<lambda>_. spure (Inr bytes)))))"

text \<open>\<open>Path::ancestors\<close>: the path itself, then its parents up to the root.\<close>

definition path_ancestors :: "folder_path \<Rightarrow> folder_path list" where
  "path_ancestors p = rev (prefixes p)"

fun plain_paths :: "folder_path list \<Rightarrow> unit store_action" where
  "plain_paths [] = spure (Inr ())"
| "plain_paths (p # ps) = sbind (plain_path p True) (\<lambda>_. plain_paths ps)"

text \<open>One file of the receipt, after the JSON read so far and whether the Markdown was seen.\<close>

definition load_entry ::
    "book_text \<Rightarrow> folder_path \<Rightarrow> file_hash \<Rightarrow> string option \<times> bool
     \<Rightarrow> (store, load_error, string option \<times> bool) action" where
  "load_entry bk directory f = (\<lambda>(json, seen).
     sbind (spure (ensure (fh_bytes f \<le> max_notebook_bytes \<and> hash_text (fh_sha256 f)) Entry_limits_invalid)) (\<lambda>_.
     sbind (spure (ensure (fh_file f \<in> {''investigation.json'', ''investigation.md''}) Entry_name_unexpected)) (\<lambda>_.
     sbind (smap_error Load_failed (read_limited (directory @ [fh_file f]) (fh_bytes f))) (\<lambda>bytes.
     sbind (spure (ensure (length bytes = fh_bytes f \<and> eq_ignore_ascii_case (bk_sha bk bytes) (fh_sha256 f))
       Entry_differs)) (\<lambda>_.
       if fh_file f = ''investigation.json''
       then sbind (spure (ensure (json = None) Entry_duplicated)) (\<lambda>_. spure (Inr (Some bytes, seen)))
       else sbind (spure (ensure (\<not> seen) Entry_duplicated)) (\<lambda>_. spure (Inr (json, True))))))))"

fun load_entries ::
    "book_text \<Rightarrow> folder_path \<Rightarrow> file_hash list \<Rightarrow> string option \<times> bool
     \<Rightarrow> (store, load_error, string option \<times> bool) action" where
  "load_entries bk directory [] st = spure (Inr st)"
| "load_entries bk directory (f # fs) st =
     sbind (load_entry bk directory f st) (load_entries bk directory fs)"

text \<open>The flags of the turns are found again, whatever the file says.\<close>

fun recheck_turns :: "evidence_json \<Rightarrow> turn list \<Rightarrow> notebook_error + turn list" where
  "recheck_turns ej [] = Inr []"
| "recheck_turns ej (t # ts) =
     rbind (draft_step (checked_draft ej (tn_draft t))) (\<lambda>valid.
     rbind (recheck_turns ej ts) (\<lambda>us. Inr (t\<lparr>tn_references_valid := valid\<rparr> # us)))"

definition accept_book :: "evidence_json \<Rightarrow> notebook \<Rightarrow> load_error + notebook" where
  "accept_book ej nb =
     rbind (map_sum Book_rejected id (recheck_turns ej (nb_turns nb))) (\<lambda>ts.
     rbind (map_sum Book_rejected id (notebook_validate ej (nb\<lparr>nb_turns := ts\<rparr>))) (\<lambda>_.
       Inr (nb\<lparr>nb_turns := ts\<rparr>)))"

definition notebook_load ::
    "path_view \<Rightarrow> book_text \<Rightarrow> evidence_json \<Rightarrow> folder_path \<Rightarrow> (store, load_error, notebook) action" where
  "notebook_load pv bk ej directory =
     sbind (spure (ensure (pv_absolute pv directory \<and> \<not> prefix [CHR 0x5C, CHR 0x5C] (pv_text pv directory)
       \<and> \<not> prefix ''//'' (pv_text pv directory)) Path_not_local)) (\<lambda>_.
     sbind (smap_error Load_failed (plain_paths (path_ancestors directory))) (\<lambda>_.
     sbind (smap_error Load_failed (read_limited (directory @ [''receipt.json'']) (64 * 1024))) (\<lambda>bytes.
     sbind (spure (ok_or (bk_parse_receipt bk bytes) Receipt_unreadable)) (\<lambda>r.
     sbind (spure (ensure (bounded_seq 2 [] (br_files r) \<noteq> None) Receipt_unreadable)) (\<lambda>_.
     sbind (spure (ensure (br_schema r = 1 \<and> length (br_files r) = 2) Receipt_incompatible)) (\<lambda>_.
     sbind (load_entries bk directory (br_files r) (None, False)) (\<lambda>(json, seen).
     sbind (spure (ensure seen Markdown_missing)) (\<lambda>_.
     sbind (spure (ok_or json Book_json_missing)) (\<lambda>json.
     sbind (spure (ok_or (bk_parse bk json) Book_json_invalid)) (\<lambda>(schema, raw).
     sbind (spure (ok_or (bounded_book raw) Book_json_invalid)) (\<lambda>book.
     sbind (spure (ensure (schema = 1) Book_incompatible)) (\<lambda>_.
     sbind (spure (accept_book ej book)) (\<lambda>nb.
     sbind (spure (ensure (length (nb_turns nb) = br_turns r \<and> length (nb_notes nb) = br_notes r)
       Receipt_counts_differ)) (\<lambda>_.
       spure (Inr nb)))))))))))))))"

end
