(* ===== verification/Evidence_Facts.thy ===== *)
theory Evidence_Facts
  imports Evidence "HOL-Library.Multiset"
begin

text \<open>
  What the checks of the assistant's evidence mean: a context that validates is bounded and names each
  packet once, the selection of a turn extends the earlier one of the same capture, and an answer passes
  exactly when every citation in it names the capture and a packet of the context.
\<close>

subsection \<open>Searching\<close>

definition occurs :: "string \<Rightarrow> string \<Rightarrow> nat \<Rightarrow> bool" where
  "occurs pat s i \<longleftrightarrow> i \<le> length s \<and> prefix pat (drop i s)"

lemma occurs_Cons: "occurs pat (c # s) (Suc i) = occurs pat s i"
  by (simp add: occurs_def)

lemma find_str_occurs:
  "find_str pat s = Some i \<longleftrightarrow> occurs pat s i \<and> (\<forall>j<i. \<not> occurs pat s j)"
proof (induction s arbitrary: i)
  case Nil
  then show ?case by (cases i) (auto simp: occurs_def)
next
  case (Cons c s)
  show ?case
  proof (cases i)
    case 0
    then show ?thesis by (auto simp: occurs_def split: if_splits)
  next
    case (Suc k)
    have "(\<forall>j<Suc k. \<not> occurs pat (c # s) j) \<longleftrightarrow> \<not> occurs pat (c # s) 0 \<and> (\<forall>j<k. \<not> occurs pat s j)"
      by (auto simp: less_Suc_eq_0_disj occurs_Cons)
    then show ?thesis
      using Cons [of k] by (auto simp: Suc occurs_Cons) (auto simp: occurs_def)
  qed
qed

lemma find_str_None: "find_str pat s = None \<longleftrightarrow> (\<forall>i. \<not> occurs pat s i)"
proof
  assume "find_str pat s = None"
  then have n: "\<not> (occurs pat s i \<and> (\<forall>j<i. \<not> occurs pat s j))" for i
    using find_str_occurs [of pat s i] by simp
  have "\<not> occurs pat s i" for i
    using n by (induction i rule: less_induct) blast
  then show "\<forall>i. \<not> occurs pat s i" by blast
next
  assume "\<forall>i. \<not> occurs pat s i"
  then show "find_str pat s = None"
    using find_str_occurs [of pat s] by (cases "find_str pat s") auto
qed

lemma find_str_append:
  assumes "hd pat \<notin> set a" "pat \<noteq> []"
  shows "find_str pat (a @ pat @ b) = Some (length a)"
  using assms
proof (induction a)
  case Nil
  then show ?case by (cases pat) auto
next
  case (Cons c a)
  then show ?case by (cases pat) auto
qed

text \<open>Past a stretch without the first character of the pattern the search starts afresh.\<close>

lemma occurs_skip:
  assumes "hd pat \<notin> set a" "pat \<noteq> []"
  shows "occurs pat (a @ s) i \<longleftrightarrow> length a \<le> i \<and> occurs pat s (i - length a)"
proof (cases "i < length a")
  case True
  then have "drop i (a @ s) = a ! i # drop (Suc i) (a @ s)"
    by (simp add: Cons_nth_drop_Suc [symmetric] nth_append)
  then have "\<not> prefix pat (drop i (a @ s))"
    using assms True by (cases pat) auto
  with True show ?thesis by (simp add: occurs_def)
next
  case False
  then show ?thesis by (auto simp: occurs_def)
qed

subsection \<open>Citations\<close>

definition cited :: "evidence \<Rightarrow> string \<Rightarrow> string \<Rightarrow> bool" where
  "cited cx hash number \<longleftrightarrow> eq_ignore_ascii_case hash (cx_sha256 cx) \<and>
     (case parse_unsigned 64 number of None \<Rightarrow> False | Some n \<Rightarrow> citable cx n)"

text \<open>A text that starts with a complete citation of the context.\<close>

definition cites :: "evidence \<Rightarrow> string \<Rightarrow> bool" where
  "cites cx s \<longleftrightarrow> (\<exists>hash number rest.
     s = citation_mark @ hash @ '':'' @ number @ '']]'' @ rest \<and> cited cx hash number)"

lemma is_ascii_hexdigit_lower [simp]: "is_ascii_hexdigit (ascii_lower c) = is_ascii_hexdigit c"
  by (auto simp: ascii_lower_def is_ascii_hexdigit_def is_ascii_digit_def is_ascii_upper_def)

lemma hash_like:
  assumes "eq_ignore_ascii_case h s" "list_all is_ascii_hexdigit s"
  shows "list_all is_ascii_hexdigit h"
proof -
  have "list_all is_ascii_hexdigit (map ascii_lower h)"
    using assms by (simp add: eq_ignore_ascii_case_def list_all_length)
  then show ?thesis by (simp add: list_all_length)
qed

lemma digits_val_digits: "digits_val acc s = Some n \<Longrightarrow> list_all is_ascii_digit s"
  by (induction s arbitrary: acc) (auto split: if_splits)

lemma number_chars:
  assumes "parse_unsigned w s = Some n" "c \<in> set s"
  shows "is_ascii_digit c \<or> c = CHR ''+''"
proof -
  have "list_all is_ascii_digit (strip_plus s)"
    using assms(1) by (auto simp: parse_unsigned_def parse_digits_def dest: digits_val_digits split: option.splits if_splits)
  then show ?thesis
    using assms(2) by (cases s) (auto simp: strip_plus_def list_all_iff split: if_splits)
qed

lemma bracket_codes: "code CHR '':'' = 58" "code CHR ''['' = 91" "code CHR '']'' = 93" "code CHR ''+'' = 43"
  by (simp_all add: code_def)

lemma number_code: "is_ascii_digit c \<or> c = CHR ''+'' \<Longrightarrow> code c \<noteq> 91 \<and> code c \<noteq> 93"
  by (auto simp: is_ascii_digit_def bracket_codes)

lemma hexdigit_code: "is_ascii_hexdigit c \<Longrightarrow> code c \<noteq> 58 \<and> code c \<noteq> 91 \<and> code c \<noteq> 93"
  by (auto simp: is_ascii_hexdigit_def is_ascii_digit_def)

text \<open>A citation of the context has no other bracket in it.\<close>

lemma cited_chars:
  assumes "cited cx h n" "hash_text (cx_sha256 cx)"
  shows "CHR '':'' \<notin> set h" "CHR ''['' \<notin> set (h @ '':'' @ n)" "CHR '']'' \<notin> set (h @ '':'' @ n)"
proof -
  have h: "is_ascii_hexdigit c" if "c \<in> set h" for c
    using assms hash_like [of h "cx_sha256 cx"] that by (auto simp: cited_def hash_text_def list_all_iff)
  have n: "is_ascii_digit c \<or> c = CHR ''+''" if "c \<in> set n" for c
    using assms(1) number_chars [OF _ that] by (auto simp: cited_def split: option.splits)
  show "CHR '':'' \<notin> set h"
    using h [THEN hexdigit_code] bracket_codes by metis
  have "code c \<noteq> 91 \<and> code c \<noteq> 93" if "c \<in> set (h @ '':'' @ n)" for c
    using that h [THEN hexdigit_code] n [THEN number_code] bracket_codes by auto
  then show "CHR ''['' \<notin> set (h @ '':'' @ n)" "CHR '']'' \<notin> set (h @ '':'' @ n)"
    using bracket_codes by metis+
qed

lemma occurs_drop: "k \<le> length s \<Longrightarrow> occurs pat (drop k s) j = occurs pat s (k + j)"
  by (auto simp: occurs_def add.commute)

lemma occurs_split: "occurs pat s i \<longleftrightarrow> (\<exists>b. i \<le> length s \<and> drop i s = pat @ b)"
  by (auto simp: occurs_def prefix_def)

lemma check_citations_turn:
  assumes "find_str citation_mark s = Some i" "drop (i + 9) s = body @ '']]'' @ post"
    and "CHR '']'' \<notin> set body"
  shows "check_citations cx s =
    rbind (ok_or (split_once CHR '':'' body) Reference_malformed) (\<lambda>(hash, number).
    rbind (ok_or (parse_unsigned 64 number) Reference_not_a_number) (\<lambda>n.
    rbind (ensure (eq_ignore_ascii_case hash (cx_sha256 cx) \<and> citable cx n)
      Reference_outside_context) (\<lambda>_. check_citations cx post)))"
proof -
  have e: "find_str '']]'' (body @ '']]'' @ post) = Some (length body)"
    using assms(3) by (intro find_str_append) auto
  have d: "drop (length body + 2) (body @ '']]'' @ post) = post"
    by simp
  show ?thesis
    by (subst check_citations.simps) (simp only: assms(1,2) option.case Let_def e ok_or_Some rbind_Inr d, simp)
qed

text \<open>One turn of the loop passes over a citation of the context, and over nothing else.\<close>

lemma check_citations_cited:
  assumes "find_str citation_mark s = Some i" "hash_text (cx_sha256 cx)" "cited cx h n"
    and "drop i s = citation_mark @ (h @ '':'' @ n) @ '']]'' @ post"
  shows "check_citations cx s = check_citations cx post"
proof -
  obtain k where k: "parse_unsigned 64 n = Some k" "eq_ignore_ascii_case h (cx_sha256 cx)" "citable cx k"
    using assms(3) by (auto simp: cited_def split: option.splits)
  have "drop (i + 9) s = drop 9 (drop i s)" by (simp add: add.commute)
  then have s: "drop (i + 9) s = (h @ '':'' @ n) @ '']]'' @ post" by (simp add: assms(4))
  have "CHR '']'' \<notin> set (h @ '':'' @ n)"
    using cited_chars(3) [OF assms(3,2)] .
  with k split_once_append [OF cited_chars(1) [OF assms(3,2)], of n] show ?thesis
    by (subst check_citations_turn [OF assms(1) s]) simp_all
qed

lemma check_citations_cites:
  assumes "find_str citation_mark s = Some i" "check_citations cx s = Inr ()"
  shows "cites cx (drop i s)"
proof -
  obtain e h n k where e: "find_str '']]'' (drop (i + 9) s) = Some e"
      "split_once CHR '':'' (take e (drop (i + 9) s)) = Some (h, n)" "parse_unsigned 64 n = Some k"
      "eq_ignore_ascii_case h (cx_sha256 cx)" "citable cx k"
    using assms by (auto simp: check_citations.simps [of cx s] Let_def result_simps)
  obtain post where "drop e (drop (i + 9) s) = '']]'' @ post"
    using e(1) find_str_occurs occurs_split by blast
  moreover have "take e (drop (i + 9) s) = h @ '':'' @ n"
    using split_once_Some [OF e(2)] by simp
  ultimately have p: "drop (i + 9) s = h @ '':'' @ n @ '']]'' @ post"
    by (metis append.assoc append_take_drop_id)
  have "drop i s = citation_mark @ drop 9 (drop i s)"
    using assms(1) occurs_split find_str_occurs by (metis append_eq_conv_conj citation_mark_length)
  with p have "drop i s = citation_mark @ h @ '':'' @ n @ '']]'' @ post"
    by (simp add: add.commute)
  moreover have "cited cx h n" using e by (simp add: cited_def)
  ultimately show ?thesis unfolding cites_def by blast
qed

text \<open>Past a citation the next occurrence of the mark is in what follows it.\<close>

lemma occurs_after_citation:
  assumes "find_str citation_mark s = Some i" "CHR ''['' \<notin> set body"
    and "drop i s = citation_mark @ body @ '']]'' @ post"
  shows "occurs citation_mark s j \<longleftrightarrow>
    j = i \<or> (i + 11 + length body \<le> j \<and> occurs citation_mark post (j - (i + 11 + length body)))"
proof -
  have i: "occurs citation_mark s i" "\<not> occurs citation_mark s k" if "k < i" for k
    using assms(1) that find_str_occurs by blast+
  have il: "length s - i = 11 + length body + length post"
    using arg_cong [OF assms(3), of length] by simp
  consider "j < i" | "j = i" | "j = Suc i" | "i + 2 \<le> j"
    by linarith
  then show ?thesis
  proof cases
    case 1
    then show ?thesis using i by auto
  next
    case 2
    then show ?thesis using assms(1) find_str_occurs by blast
  next
    case 3
    have "drop (Suc i) s = drop 1 (drop i s)" by simp
    then have "drop (Suc i) s = ''[packet:'' @ body @ '']]'' @ post"
      by (simp add: assms(3) citation_mark_def)
    with 3 show ?thesis by (simp add: occurs_def citation_mark_def)
  next
    case le: 4
    obtain k where 4: "j = i + 2 + k" using le_Suc_ex [OF le] by blast
    have "drop (i + 2) s = drop 2 (drop i s)" by (simp add: add.commute)
    then have d: "drop (i + 2) s = (''packet:'' @ body @ '']]'') @ post"
      by (simp add: assms(3) citation_mark_def)
    have len: "length (''packet:'' @ body @ '']]'') = 9 + length body" by simp
    have hd: "hd citation_mark \<notin> set (''packet:'' @ body @ '']]'')" "citation_mark \<noteq> []"
      using assms(2) by (auto simp: citation_mark_def)
    have "i + 2 \<le> length s" using il by linarith
    then have "occurs citation_mark s j = occurs citation_mark ((''packet:'' @ body @ '']]'') @ post) k"
      using occurs_drop [of "i + 2" s citation_mark k] unfolding 4 d by simp
    also have "\<dots> \<longleftrightarrow> 9 + length body \<le> k \<and> occurs citation_mark post (k - (9 + length body))"
      unfolding occurs_skip [OF hd] len ..
    finally show ?thesis by (auto simp: 4)
  qed
qed

lemma drop_citation: "drop (11 + length body) (citation_mark @ body @ '']]'' @ post) = post"
proof -
  let ?c = "citation_mark @ body @ '']]''"
  have "drop (length ?c) (?c @ post) = post" by (metis append_eq_conv_conj)
  moreover have "length ?c = 11 + length body" by simp
  ultimately show ?thesis by (simp only: append.assoc)
qed

lemma check_citations_iff:
  assumes "hash_text (cx_sha256 cx)"
  shows "check_citations cx s = Inr () \<longleftrightarrow>
    (\<forall>i. occurs citation_mark s i \<longrightarrow> cites cx (drop i s))"
proof (induction "length s" arbitrary: s rule: less_induct)
  case less
  show ?case
  proof (cases "find_str citation_mark s")
    case None
    then show ?thesis using find_str_None [of citation_mark s] by (simp add: check_citations.simps [of cx s])
  next
    case (Some i)
    have i: "occurs citation_mark s i" using Some find_str_occurs by blast
    show ?thesis
    proof (cases "cites cx (drop i s)")
      case False
      then have "check_citations cx s \<noteq> Inr ()"
        using check_citations_cites [OF Some] by blast
      with False i show ?thesis by blast
    next
      case True
      then obtain h n post where d: "drop i s = citation_mark @ h @ '':'' @ n @ '']]'' @ post" and c: "cited cx h n"
        by (auto simp: cites_def)
      define m where "m = i + 11 + length (h @ '':'' @ n)"
      have len: "length s - i = 11 + length (h @ '':'' @ n) + length post"
        using arg_cong [OF d, of length] by simp
      then have m: "length post < length s" "m + length post = length s"
        by (simp_all add: m_def)
      have "drop m s = drop (11 + length (h @ '':'' @ n)) (drop i s)"
        unfolding m_def by (simp add: add.commute add.left_commute)
      moreover have u: "drop i s = citation_mark @ (h @ '':'' @ n) @ '']]'' @ post" by (simp add: d)
      ultimately have post: "drop m s = post" by (simp only: drop_citation)
      have after: "occurs citation_mark s j \<longleftrightarrow> j = i \<or> m \<le> j \<and> occurs citation_mark post (j - m)" for j
        unfolding m_def by (rule occurs_after_citation [OF Some cited_chars(2) [OF c assms] u])
      have "check_citations cx s = Inr () \<longleftrightarrow> check_citations cx post = Inr ()"
        using check_citations_cited [OF Some assms c u] by simp
      also have "\<dots> \<longleftrightarrow> (\<forall>j. occurs citation_mark post j \<longrightarrow> cites cx (drop j post))"
        by (rule less) (rule m)
      also have "\<dots> \<longleftrightarrow> (\<forall>j. occurs citation_mark s (m + j) \<and> m + j \<noteq> i \<longrightarrow> cites cx (drop (m + j) s))"
        unfolding after post [symmetric] drop_drop by (simp add: m_def add.commute add.left_commute)
      also have "\<dots> \<longleftrightarrow> (\<forall>j. occurs citation_mark s j \<longrightarrow> cites cx (drop j s))"
        using True after by (metis le_Suc_ex)
      finally show ?thesis .
    qed
  qed
qed

subsection \<open>Validated contexts\<close>

lemma validate_packet_Inr:
  "validate_packet inspected p seen = Inr seen' \<longleftrightarrow>
     seen' = pe_number p # seen \<and> 0 < pe_number p \<and> pe_number p \<le> inspected \<and> pe_number p \<notin> set seen \<and>
     pe_captured_bytes p \<le> pe_original_bytes p \<and>
     list_all valid_field [pe_interface p, pe_protocol p, pe_source p, pe_destination p, pe_observation p] \<and>
     (case pe_unix_nanos p of None \<Rightarrow> True | Some t \<Rightarrow> length t \<le> 40 \<and> parse_signed 128 t \<noteq> None)"
  by (auto simp: validate_packet_def result_simps split: option.splits)

definition packet_valid :: "nat \<Rightarrow> packet_evidence \<Rightarrow> bool" where
  "packet_valid inspected p \<longleftrightarrow> (\<exists>seen. validate_packet inspected p [] = Inr seen)"

lemma validate_packet_iff:
  "validate_packet inspected p seen = Inr seen' \<longleftrightarrow>
     packet_valid inspected p \<and> pe_number p \<notin> set seen \<and> seen' = pe_number p # seen"
  by (auto simp: packet_valid_def validate_packet_Inr)

lemma validate_packets_iff:
  "fold_r (validate_packet inspected) ps seen = Inr seen' \<longleftrightarrow>
     list_all (packet_valid inspected) ps \<and> distinct (map pe_number ps) \<and>
     set (map pe_number ps) \<inter> set seen = {} \<and> seen' = rev (map pe_number ps) @ seen"
proof (induction ps arbitrary: seen)
  case Nil
  then show ?case by auto
next
  case (Cons p ps)
  show ?case by (auto simp: result_simps validate_packet_iff Cons.IH)
qed

lemma context_validate_packets:
  "context_validate ej cx = Inr () \<Longrightarrow>
     list_all (packet_valid (cx_inspected_packets cx)) (cx_packets cx) \<and> distinct (map pe_number (cx_packets cx)) \<and>
     cx_packets cx \<noteq> [] \<and> length (cx_packets cx) \<le> max_packets"
  by (auto simp: context_validate_def result_simps validate_packets_iff)

lemma context_validate_hash: "context_validate ej cx = Inr () \<Longrightarrow> hash_text (cx_sha256 cx)"
  by (auto simp: context_validate_def result_simps)

lemma context_prompt_Inr:
  "context_prompt ej cx problem question = Inr r \<Longrightarrow>
     context_validate ej cx = Inr () \<and> length problem \<le> max_problem_bytes \<and> length question \<le> max_problem_bytes
     \<and> trim question \<noteq> [] \<and> length r \<le> max_context_bytes"
  by (auto simp: context_prompt_def result_simps Let_def)

subsection \<open>The selection as a map from numbers to packets\<close>

definition by_number :: "packet_evidence list \<Rightarrow> nat \<rightharpoonup> packet_evidence" where
  "by_number ps = map_of (map (\<lambda>p. (pe_number p, p)) ps)"

text \<open>What the earlier selection adds.\<close>

definition inherited :: "evidence option \<Rightarrow> bool \<Rightarrow> evidence \<Rightarrow> packet_evidence list" where
  "inherited previous replace cx =
     (case previous of
        None \<Rightarrow> []
      | Some prior \<Rightarrow> if cx_sha256 prior = cx_sha256 cx \<and> \<not> replace then cx_packets prior else [])"

lemma by_number_snoc: "by_number (ps @ [q]) = by_number [q] ++ by_number ps"
  by (simp add: by_number_def)

lemma by_number_keep: "by_number (keep_previous qs ps) = by_number qs ++ by_number ps"
proof (induction qs arbitrary: ps)
  case Nil
  then show ?case by (simp add: by_number_def)
next
  case (Cons q qs)
  have q: "by_number (q # qs) = by_number qs ++ by_number [q]"
    by (simp add: by_number_def)
  show ?case
  proof (cases "list_ex (\<lambda>p. pe_number p = pe_number q) ps")
    case True
    then have "pe_number q \<in> dom (by_number ps)"
      unfolding by_number_def dom_map_of_conv_image_fst list_ex_iff by (auto simp: image_image intro: rev_image_eqI)
    then have "by_number [q] ++ by_number ps = by_number ps"
      by (auto simp: by_number_def map_add_def fun_eq_iff split: option.splits)
    with True q show ?thesis
      by (simp only: keep_previous.simps if_True Cons.IH map_add_assoc [symmetric])
  next
    case False
    then show ?thesis by (simp add: Cons.IH q by_number_snoc)
  qed
qed

lemma by_number_sort:
  assumes "distinct (map pe_number ps)"
  shows "by_number (sort_key pe_number ps) = by_number ps"
  unfolding by_number_def
proof (subst map_of_inject_set)
  have "mset (map pe_number (sort_key pe_number ps)) = mset (map pe_number ps)"
    by (simp add: mset_map)
  then have "distinct (map pe_number (sort_key pe_number ps))"
    using assms mset_eq_imp_distinct_iff by blast
  then show "distinct (map fst (map (\<lambda>p. (pe_number p, p)) (sort_key pe_number ps)))"
    by (simp add: comp_def)
qed (use assms in \<open>simp_all add: comp_def\<close>)

definition joined :: "evidence option \<Rightarrow> bool \<Rightarrow> evidence \<Rightarrow> evidence" where
  "joined previous replace cx =
     (case previous of
        None \<Rightarrow> cx
      | Some prior \<Rightarrow>
          if cx_sha256 prior \<noteq> cx_sha256 cx then cx
          else cx\<lparr>cx_investigation_id := cx_investigation_id prior,
                  cx_packets := if replace then cx_packets cx
                                else keep_previous (cx_packets prior) (cx_packets cx)\<rparr>)"

lemma joined_packets:
  "by_number (cx_packets (joined previous replace cx)) =
     by_number (inherited previous replace cx) ++ by_number (cx_packets cx)"
  by (auto simp: joined_def inherited_def by_number_keep split: option.split) (simp_all add: by_number_def)

lemma context_select_Inr:
  "context_select ej previous replace cx = Inr r \<longleftrightarrow>
     length (cx_packets (joined previous replace cx)) \<le> max_packets \<and>
     r = (joined previous replace cx)\<lparr>cx_packets := sort_key pe_number (cx_packets (joined previous replace cx))\<rparr> \<and>
     context_validate ej r = Inr ()"
  unfolding context_select_def joined_def [symmetric] by (auto simp: Let_def result_simps)

lemma sorted_numbers: "sorted (map pe_number (sort_key pe_number ps))"
  by simp

lemma selection_extends_parts:
  assumes "context_select ej previous replace cx = Inr r"
  shows "context_validate ej r = Inr ()" "sorted_wrt (<) (map pe_number (cx_packets r))"
    "by_number (cx_packets r) = by_number (inherited previous replace cx) ++ by_number (cx_packets cx)"
    "cx_sha256 r = cx_sha256 cx"
proof -
  note s = assms [unfolded context_select_Inr]
  show v: "context_validate ej r = Inr ()" using s by blast
  have d: "distinct (map pe_number (cx_packets r))"
    using context_validate_packets [OF v] by blast
  then have "distinct (map pe_number (cx_packets (joined previous replace cx)))"
    using s by (auto simp: distinct_map inj_on_def)
  then show "by_number (cx_packets r) = by_number (inherited previous replace cx) ++ by_number (cx_packets cx)"
    using s by (simp add: by_number_sort joined_packets)
  show "sorted_wrt (<) (map pe_number (cx_packets r))"
    using d s sorted_numbers by (simp add: strict_sorted_iff)
  show "cx_sha256 r = cx_sha256 cx" using s by (simp add: joined_def split: option.split)
qed

text \<open>
  C23: The selection of a turn: what it returns has been validated, its packets stand in the order of their
  numbers, without repetition, and as a map from numbers to packets they are those of the earlier
  selection of the same capture, unless it is to be replaced, overridden by the new ones.
\<close>

theorem selection_extends:
  assumes "context_select ej previous replace cx = Inr r"
  shows "context_validate ej r = Inr () \<and>
    sorted_wrt (<) (map pe_number (cx_packets r)) \<and>
    by_number (cx_packets r) = by_number (inherited previous replace cx) ++ by_number (cx_packets cx) \<and>
    cx_sha256 r = cx_sha256 cx"
  using selection_extends_parts [OF assms] by (intro conjI)

text \<open>
  C20: An answer is accepted exactly when the context is valid, the answer is at most 128 KiB long, and at every
  place where \<open>[[packet:\<close> stands in it there is a complete citation, with the hash of the capture and
  the number of a packet that the context shows.
\<close>

theorem validate_references_iff:
  "validate_references ej cx answer = Inr () \<longleftrightarrow>
     context_validate ej cx = Inr () \<and> length answer \<le> 128 * 1024 \<and>
     (\<forall>i. occurs citation_mark answer i \<longrightarrow> cites cx (drop i answer))"
  using check_citations_iff [OF context_validate_hash, of ej cx answer]
  by (auto simp: validate_references_def result_simps)

subsection \<open>A context\<close>

definition sample_packet :: "nat \<Rightarrow> packet_evidence" where
  "sample_packet n = \<lparr>pe_number = n, pe_interface = ''eth0'', pe_section = 0, pe_link_type = 1,
     pe_unix_nanos = None, pe_captured_bytes = 64, pe_original_bytes = 64, pe_protocol = ''TCP'',
     pe_source = ''192.0.2.10'', pe_destination = ''198.51.100.20'', pe_observation = ''RST''\<rparr>"

definition sample_evidence :: "nat list \<Rightarrow> evidence" where
  "sample_evidence ns = \<lparr>cx_investigation_id = ''qa'', cx_sha256 = replicate 64 CHR ''A'', cx_format = ''PCAP'',
     cx_total_packets = 9, cx_inspected_packets = 9, cx_omitted_packets = 0,
     cx_packets = map sample_packet ns, cx_analysis = None\<rparr>"

definition terse_json :: evidence_json where
  "terse_json = \<lparr>ej_compact = (\<lambda>_. Some ''{}''), ej_pretty = (\<lambda>_. Some ''{}'')\<rparr>"

lemma sample_packet_valid: "packet_valid 9 (sample_packet n) \<longleftrightarrow> 0 < n \<and> n \<le> 9"
  by (auto simp: packet_valid_def validate_packet_Inr sample_packet_def valid_field_def code_def)

lemma pe_number_sample [simp]: "pe_number (sample_packet n) = n"
  by (simp add: sample_packet_def)

lemma sample_evidence_valid:
  "ns \<noteq> [] \<Longrightarrow> length ns \<le> 16 \<Longrightarrow> distinct ns \<Longrightarrow> list_all (\<lambda>n. 0 < n \<and> n \<le> 9) ns \<Longrightarrow>
     context_validate terse_json (sample_evidence ns) = Inr ()"
  by (simp add: context_validate_def sample_evidence_def terse_json_def result_simps validate_packets_iff
      sample_packet_valid valid_id_def hash_text_def max_packets_def max_context_bytes_def comp_def
      list_all_iff is_ascii_alphanumeric_def is_ascii_alphabetic_def is_ascii_lower_def is_ascii_hexdigit_def
      is_ascii_digit_def code_def)

lemma selection_extends_witness:
  "\<exists>r. context_select terse_json (Some (sample_evidence [3, 1])) False (sample_evidence [2, 3]) = Inr r \<and>
     map pe_number (cx_packets r) = [1, 2, 3] \<and>
     by_number (cx_packets r) = by_number (map sample_packet [3, 1]) ++ by_number (map sample_packet [2, 3])"
proof -
  define r where "r = sample_evidence [1, 2, 3]"
  have r: "context_select terse_json (Some (sample_evidence [3, 1])) False (sample_evidence [2, 3]) = Inr r"
    using sample_evidence_valid [of "[1, 2, 3]"]
    by (simp add: context_select_Inr joined_def r_def) (simp add: sample_evidence_def max_packets_def)
  have "by_number (cx_packets r) = by_number (map sample_packet [3, 1]) ++ by_number (map sample_packet [2, 3])"
    using selection_extends [OF r] by (simp add: inherited_def sample_evidence_def)
  with r show ?thesis by (intro exI [of _ r]) (simp add: r_def sample_evidence_def)
qed

definition sample_citation :: string where
  "sample_citation = ''[[packet:'' @ replicate 64 CHR ''A'' @ '':3]]''"

lemma sample_cited: "cited (sample_evidence [3]) (replicate 64 CHR ''A'') ''3''"
  by (simp add: cited_def sample_evidence_def citable_def parse_unsigned_def parse_digits_def strip_plus_def
      is_ascii_digit_def code_def)

lemma sample_citation_checks: "check_citations (sample_evidence [3]) sample_citation = Inr ()"
proof -
  have d: "drop 0 sample_citation = citation_mark @ (replicate 64 CHR ''A'' @ '':'' @ ''3'') @ '']]'' @ []"
    by (simp add: sample_citation_def citation_mark_def)
  have f: "find_str citation_mark sample_citation = Some 0"
    by (simp add: sample_citation_def citation_mark_def)
  have h: "hash_text (cx_sha256 (sample_evidence [3]))"
    by (simp add: sample_evidence_def hash_text_def list_all_iff is_ascii_hexdigit_def code_def)
  have "check_citations (sample_evidence [3]) sample_citation = check_citations (sample_evidence [3]) []"
    by (rule check_citations_cited [OF f h sample_cited d])
  also have "\<dots> = Inr ()"
    by (simp add: check_citations.simps citation_mark_def)
  finally show ?thesis .
qed

lemma validate_references_iff_witness:
  "validate_references terse_json (sample_evidence [3]) sample_citation = Inr () \<and>
     cites (sample_evidence [3]) sample_citation"
proof -
  have v: "validate_references terse_json (sample_evidence [3]) sample_citation = Inr ()"
    using sample_evidence_valid [of "[3]"] sample_citation_checks
    by (simp add: validate_references_def) (simp add: sample_citation_def)
  have "occurs citation_mark sample_citation 0"
    by (simp add: occurs_def sample_citation_def citation_mark_def)
  with v [unfolded validate_references_iff] have "cites (sample_evidence [3]) (drop 0 sample_citation)"
    by blast
  with v show ?thesis by simp
qed

end
