(* ===== verification/Report_Facts.thy ===== *)
theory Report_Facts
  imports Report Evidence_Facts
begin

text \<open>
  The two renderings of a draft are as inert as their fixed parts: what the user, the provider or a
  capture wrote never becomes a heading of the Markdown nor markup of the HTML, and hides no character.
\<close>

subsection \<open>Printable lines\<close>

text \<open>A bidirectional override or isolate at the front.\<close>

definition bidi_front :: "string \<Rightarrow> bool" where
  "bidi_front s \<longleftrightarrow> 3 \<le> length s \<and> code (s ! 0) = 226 \<and>
     (code (s ! 1) = 128 \<and> 170 \<le> code (s ! 2) \<and> code (s ! 2) \<le> 174 \<or>
      code (s ! 1) = 129 \<and> 166 \<le> code (s ! 2) \<and> code (s ! 2) \<le> 169)"

fun has_bidi :: "string \<Rightarrow> bool" where
  "has_bidi [] = False"
| "has_bidi (c # s) \<longleftrightarrow> bidi_front (c # s) \<or> has_bidi s"

definition clean :: "string \<Rightarrow> bool" where
  "clean s \<longleftrightarrow> \<not> has_control s \<and> \<not> has_bidi s"

lemma replacement_codes: "map code replacement_char = [239, 191, 189]"
  by (simp add: replacement_char_def byte_string_def)

lemma replacement_chars: "\<exists>a b c. replacement_char = [a, b, c] \<and> code a = 239 \<and> code b = 191 \<and> code c = 189"
  using replacement_codes by (auto simp: map_eq_Cons_conv)

lemma replacement_hd: "replacement_char \<noteq> []" "code (hd replacement_char) = 239"
proof -
  have *: "map code xs = n # ns \<Longrightarrow> xs \<noteq> [] \<and> code (hd xs) = n" for xs n ns by (cases xs) auto
  show "replacement_char \<noteq> []" "code (hd replacement_char) = 239"
    using * [OF replacement_codes] by simp_all
qed

lemma clean_replacement: "clean s \<Longrightarrow> clean (replacement_char @ s)"
proof -
  obtain a b c where r: "replacement_char = [a, b, c]" "code a = 239" "code b = 191" "code c = 189"
    using replacement_chars by blast
  show "clean s \<Longrightarrow> clean (replacement_char @ s)"
    unfolding r(1) using r(2-4) by (simp add: clean_def bidi_front_def)
qed

lemma printable_front: "printable s = [] \<and> s = [] \<or>
    (\<exists>t. printable s = hd s # printable t \<and> s = hd s # t \<or> printable s = replacement_char @ printable t)"
  by (cases s) (auto simp: printable.simps(2))

lemma printable_hd: "s \<noteq> [] \<Longrightarrow> printable s \<noteq> [] \<and> (code (hd (printable s)) = 239 \<or> hd (printable s) = hd s)"
proof -
  obtain a b c where r: "replacement_char = [a, b, c]" "code a = 239"
    using replacement_chars by blast
  show "s \<noteq> [] \<Longrightarrow> printable s \<noteq> [] \<and> (code (hd (printable s)) = 239 \<or> hd (printable s) = hd s)"
    using printable_front [of s] r(2) unfolding r(1) by auto
qed

lemma printable_second:
  assumes "printable s = hd s # printable t" "s = hd s # t" "2 \<le> length (printable s)" "code (printable s ! 1) \<noteq> 239"
  shows "t \<noteq> [] \<and> printable s ! 1 = hd t"
proof -
  have "printable t \<noteq> []" using assms(1,3) by auto
  then have "t \<noteq> []" by auto
  with assms printable_hd [of t] show ?thesis by (auto simp: hd_conv_nth)
qed

lemma clean_printable: "clean (printable s)"
proof (induction s rule: printable.induct)
  case 1
  then show ?case by (simp add: clean_def)
next
  case (2 c s)
  consider t where "printable (c # s) = replacement_char @ printable t" "clean (printable t)"
    | "printable (c # s) = c # printable s" "\<not> (code c < 32 \<or> code c = 127)"
      "\<not> (code c = 194 \<and> s \<noteq> [] \<and> 128 \<le> code (hd s) \<and> code (hd s) < 160)"
      "\<not> (code c = 226 \<and> 2 \<le> length s
          \<and> (code (hd s) = 128 \<and> 170 \<le> code (s ! 1) \<and> code (s ! 1) \<le> 174
            \<or> code (hd s) = 129 \<and> 166 \<le> code (s ! 1) \<and> code (s ! 1) \<le> 169))" "clean (printable s)"
    using 2 unfolding printable.simps(2) by (smt (verit, best))
  then show ?case
  proof cases
    case 1
    then show ?thesis using clean_replacement by simp
  next
    case 2
    have "\<not> has_control (c # printable s)"
      using 2 printable_hd [of s] by (cases s) (auto simp: clean_def neq_Nil_conv split: list.split)
    moreover have "\<not> bidi_front (c # printable s)"
    proof
      assume b: "bidi_front (c # printable s)"
      then have len: "2 \<le> length (printable s)" and c: "code c = 226" by (simp_all add: bidi_front_def)
      then have ne: "s \<noteq> []" by auto
      have "printable s \<noteq> []" using len by auto
      then have hd: "code (hd (printable s)) \<noteq> 239"
        using b by (auto simp: bidi_front_def hd_conv_nth [of "printable s"])
      then obtain t where t: "printable s = hd s # printable t" "s = hd s # t"
        using printable_front [of s] ne replacement_hd by (metis hd_append2)
      have "code (printable s ! 1) \<noteq> 239" using b len by (auto simp: bidi_front_def)
      from printable_second [OF t len this] have "t \<noteq> []" "printable s ! 1 = hd t" by auto
      then obtain u where u: "s = hd s # hd t # u" using t(2) by (cases t) auto
      then have "2 \<le> length s" "s ! 1 = hd t"
        by (metis Suc_le_mono le0 length_Cons numeral_2_eq_2, metis One_nat_def nth_Cons_0 nth_Cons_Suc)
      then have "2 \<le> length s" "printable s ! 1 = s ! 1" "printable s ! 0 = hd s"
        using t(1) \<open>printable s ! 1 = hd t\<close> by (simp_all only: nth_Cons_0)
      then show False using b c 2(4) len by (auto simp: bidi_front_def hd_conv_nth)
    qed
    ultimately show ?thesis using 2(1,5) by (simp add: clean_def)
  qed
qed

subsection \<open>Lines\<close>

text \<open>A text without line breaks, and the text of a list of lines.\<close>

definition one_line :: "string \<Rightarrow> bool" where
  "one_line s \<longleftrightarrow> list_all (\<lambda>c. 32 \<le> code c) s"

definition terminated :: "string list \<Rightarrow> string" where
  "terminated ls = concat (map (\<lambda>l. l @ newline) ls)"

lemma terminated_simps [simp]:
  "terminated [] = []" "terminated (l # ls) = l @ newline @ terminated ls"
  "terminated (ls @ ms) = terminated ls @ terminated ms"
  by (simp_all add: terminated_def)

lemma one_line_append [simp]: "one_line (s @ t) \<longleftrightarrow> one_line s \<and> one_line t"
  by (simp add: one_line_def)

lemma one_line_Nil [simp]: "one_line []"
  by (simp add: one_line_def)

lemma clean_one_line: "clean s \<Longrightarrow> one_line s"
proof -
  have "\<not> has_control s \<Longrightarrow> one_line s" by (induction s) (auto simp: one_line_def)
  then show "clean s \<Longrightarrow> one_line s" by (simp add: clean_def)
qed

lemma newline_char: "newline = [char_of (10::nat)]"
  by (simp add: newline_def byte_string_def)

lemma split_on_terminated:
  "list_all one_line ls \<Longrightarrow> split_on (char_of (10::nat)) (terminated ls) = ls @ [[]]"
proof (induction ls)
  case Nil
  then show ?case by simp
next
  case (Cons l ls)
  have "char_of (10::nat) \<notin> set l"
  proof
    assume "char_of (10::nat) \<in> set l"
    moreover have "\<forall>c \<in> set l. 32 \<le> code c" using Cons.prems by (simp add: one_line_def list_all_iff)
    ultimately have "32 \<le> code (char_of (10::nat))" by blast
    then show False by simp
  qed
  with Cons show ?case by (simp add: newline_char split_on_append)
qed

lemma strip_cr_one_line: "one_line l \<Longrightarrow> strip_cr l = l"
proof -
  assume "one_line l"
  then have "l \<noteq> [] \<Longrightarrow> 32 \<le> code (last l)" by (simp add: one_line_def list_all_iff)
  then show "strip_cr l = l" by (auto simp: strip_cr_def)
qed

lemma text_lines_terminated: "list_all one_line ls \<Longrightarrow> text_lines (terminated ls) = ls"
  by (simp add: text_lines_def split_on_terminated list_all_iff strip_cr_one_line map_idI)

subsection \<open>The document\<close>

text \<open>A block is a heading with its level and the lines below it.\<close>

type_synonym block = "nat \<times> string \<times> string list"

definition section_block :: "string \<Rightarrow> string \<Rightarrow> block" where
  "section_block title body =
     (2, title, [[]] @ map (\<lambda>l. indent @ printable l) (text_lines body) @ [[]])"

definition document :: "draft \<Rightarrow> block list" where
  "document d =
     (let cx = dr_context d in
      [(1, report_title, [[], report_intro, []]),
       section_block title_problem (if trim (dr_problem d) = [] then no_problem else dr_problem d),
       section_block title_question (dr_question d),
       section_block title_origin (origin_text cx)]
      @ (case cx_analysis cx of
           None \<Rightarrow> []
         | Some a \<Rightarrow>
             [section_block title_analysis (ae_summary a),
              section_block title_baseline (case ae_baseline_sha256 a of None \<Rightarrow> no_baseline | Some h \<Rightarrow> h)])
      @ map (\<lambda>p. section_block (packet_title (pe_number p)) (packet_text cx p)) (cx_packets cx)
      @ [case dr_response d of
           Some r \<Rightarrow> section_block title_response (response_text r)
         | None \<Rightarrow> (2, no_response_title, [[], no_response_text, []])]
      @ [section_block title_limits limits_text])"

definition block_lines :: "block \<Rightarrow> string list" where
  "block_lines b = (case b of (level, title, ls) \<Rightarrow> (replicate level CHR ''#'' @ '' '' @ title) # ls)"

definition fixed_titles :: "nat list \<Rightarrow> string list" where
  "fixed_titles ns =
     [title_problem, title_question, title_origin, title_analysis, title_baseline, title_response,
      no_response_title, title_limits] @ map packet_title ns"

lemmas fixed_texts =
  title_problem_def title_question_def title_origin_def title_analysis_def title_baseline_def
  title_response_def no_response_title_def title_limits_def report_title_def report_intro_def
  no_response_text_def

lemma dec_one_line: "one_line (dec n)"
  unfolding one_line_def list_all_iff
proof
  show "32 \<le> code c" if "c \<in> set (dec n)" for c
    using dec_digits [OF that] by (simp add: is_ascii_digit_def)
qed

lemma fixed_one_line:
  "one_line title_problem" "one_line title_question" "one_line title_origin" "one_line title_analysis"
  "one_line title_baseline" "one_line title_response" "one_line no_response_title" "one_line title_limits"
  "one_line report_title" "one_line report_intro" "one_line no_response_text" "one_line (packet_title n)"
  using dec_one_line by (simp_all add: fixed_texts packet_title_def one_line_def byte_string_def code_def)

lemma section_lines: "terminated (block_lines (section_block title body)) = report_section title body"
  by (simp add: section_block_def block_lines_def report_section_def terminated_def comp_def numeral_2_eq_2)

lemma markdown_document:
  assumes "draft_markdown ej d = Inr md"
  shows "md = terminated (concat (map block_lines (document d)))"
proof -
  have packets: "terminated (concat (map (\<lambda>p. block_lines (section_block (t p) (x p))) ps)) =
      concat (map (\<lambda>p. report_section (t p) (x p)) ps)" for t x and ps :: "packet_evidence list"
    by (induction ps) (simp_all add: section_lines)
  have raw: "terminated (block_lines (2, t, [[], x, []])) = ''## '' @ t @ newline @ newline @ x @ newline @ newline"
    "terminated (block_lines (Suc 0, t, [[], x, []])) = ''# '' @ t @ newline @ newline @ x @ newline @ newline" for t x
    by (simp_all add: block_lines_def numeral_2_eq_2)
  show ?thesis
    using assms unfolding draft_markdown_def document_def
    by (cases "cx_analysis (dr_context d)"; cases "dr_response d")
      (auto simp: Let_def result_simps raw section_lines packets comp_def)
qed

text \<open>The lines of a block: indented and clean, or fixed.\<close>

definition block_safe :: "string list \<Rightarrow> block \<Rightarrow> bool" where
  "block_safe titles b = (case b of (level, title, ls) \<Rightarrow>
     ((level, title) = (1, report_title) \<or> level = 2 \<and> title \<in> set titles) \<and>
     list_all (\<lambda>l. l \<in> {[], report_intro, no_response_text} \<or> (\<exists>t. l = indent @ t \<and> clean t)) ls)"

lemma section_safe: "title \<in> set titles \<Longrightarrow> block_safe titles (section_block title body)"
  by (auto simp: block_safe_def section_block_def list_all_iff intro: clean_printable)

lemma document_safe:
  "list_all (block_safe (fixed_titles (map pe_number (cx_packets (dr_context d))))) (document d)"
proof -
  let ?t = "fixed_titles (map pe_number (cx_packets (dr_context d)))"
  have "title_problem \<in> set ?t" "title_question \<in> set ?t" "title_origin \<in> set ?t" "title_analysis \<in> set ?t"
    "title_baseline \<in> set ?t" "title_response \<in> set ?t" "title_limits \<in> set ?t"
    "no_response_title \<in> set ?t"
    by (simp_all add: fixed_titles_def)
  note s = this(1-7) [THEN section_safe] this(8)
  have p: "p \<in> set (cx_packets (dr_context d)) \<Longrightarrow> block_safe ?t (section_block (packet_title (pe_number p)) x)" for p x
    by (rule section_safe) (simp add: fixed_titles_def)
  show ?thesis
    unfolding document_def Let_def using s p
    by (auto simp: list_all_iff block_safe_def [of _ "(2, no_response_title, _)"]
        block_safe_def [of _ "(Suc 0, _, _)"] split: option.split)
qed

lemma titles_one_line: "title \<in> set (fixed_titles ns) \<Longrightarrow> one_line title"
  using fixed_one_line by (auto simp: fixed_titles_def)

lemma indent_one_line: "one_line indent"
  by (simp add: indent_def one_line_def code_def)

lemma block_one_line:
  assumes "block_safe (fixed_titles ns) b"
  shows "list_all one_line (block_lines b)"
proof -
  obtain level title ls where b: "b = (level, title, ls)" by (cases b)
  have "one_line title"
    using assms titles_one_line fixed_one_line by (auto simp: b block_safe_def)
  moreover have "one_line (replicate level CHR ''#'' @ '' '')"
    by (simp add: one_line_def list_all_iff code_def)
  moreover have "one_line l" if "l \<in> set ls" for l
    using assms that fixed_one_line indent_one_line clean_one_line
    by (auto simp: b block_safe_def list_all_iff)
  ultimately show ?thesis
    by (auto simp: b block_lines_def list_all_iff) (simp_all add: one_line_def)
qed

lemma markdown_lines:
  "draft_markdown ej d = Inr md \<Longrightarrow> text_lines md = concat (map block_lines (document d))"
proof -
  have "list_all one_line (concat (map block_lines (document d)))"
    using document_safe [of d] block_one_line by (auto simp: list_all_iff)
  then show "draft_markdown ej d = Inr md \<Longrightarrow> text_lines md = concat (map block_lines (document d))"
    using text_lines_terminated markdown_document by metis
qed

definition fixed_lines :: "nat list \<Rightarrow> string list" where
  "fixed_lines ns =
     [[], ''# '' @ report_title, report_intro, no_response_text] @ map (\<lambda>t. ''## '' @ t) (fixed_titles ns)"

text \<open>
  Every line of the Markdown is one of the report's own lines, which name nothing of the draft but the
  numbers of the packets shown, or is indented by four spaces, as a literal block, and has neither control
  characters nor bidirectional overrides in it.
\<close>

theorem markdown_inert:
  assumes "draft_markdown ej d = Inr md"
  shows "list_all (\<lambda>l. l \<in> set (fixed_lines (map pe_number (cx_packets (dr_context d))))
           \<or> starts_with indent l \<and> clean (drop 4 l)) (text_lines md)"
proof -
  let ?t = "fixed_titles (map pe_number (cx_packets (dr_context d)))"
  have "l \<in> set (fixed_lines (map pe_number (cx_packets (dr_context d)))) \<or> starts_with indent l \<and> clean (drop 4 l)"
    if "block_safe ?t b" "l \<in> set (block_lines b)" for b l
    using that by (cases b) (auto simp: block_safe_def block_lines_def fixed_lines_def starts_with_def indent_def
      list_all_iff numeral_2_eq_2)
  then show ?thesis
    using document_safe [of d] unfolding markdown_lines [OF assms] by (fastforce simp: list_all_iff)
qed

subsection \<open>HTML\<close>

definition entity :: "char \<Rightarrow> string" where
  "entity c =
     (if c = CHR ''&'' then ''&amp;'' else if c = CHR ''<'' then ''&lt;'' else if c = CHR ''>'' then ''&gt;''
      else if c = CHR 0x22 then ''&quot;'' else if c = CHR 0x27 then ''&#39;'' else [c])"

lemma html_escape_entities: "html_escape s = concat (map entity s)"
  by (induction s) (auto simp: html_escape_def replace_char_def entity_def)

definition inert :: "string \<Rightarrow> bool" where
  "inert s \<longleftrightarrow> list_all (\<lambda>c. c \<notin> {CHR ''<'', CHR ''>'', CHR 0x22, CHR 0x27}) s"

lemma html_escape_inert: "inert (html_escape s)"
  by (induction s) (auto simp: html_escape_entities inert_def entity_def)

text \<open>What a browser shows of a text.\<close>

fun html_shown :: "string \<Rightarrow> string" where
  "html_shown [] = []"
| "html_shown (c # s) =
     (if c \<noteq> CHR ''&'' then c # html_shown s
      else if prefix ''amp;'' s then CHR ''&'' # html_shown (drop 4 s)
      else if prefix ''lt;'' s then CHR ''<'' # html_shown (drop 3 s)
      else if prefix ''gt;'' s then CHR ''>'' # html_shown (drop 3 s)
      else if prefix ''quot;'' s then CHR 0x22 # html_shown (drop 5 s)
      else if prefix ''#39;'' s then CHR 0x27 # html_shown (drop 4 s)
      else c # html_shown s)"

lemma html_shown_entity: "html_shown (entity c @ s) = c # html_shown s"
  by (auto simp: entity_def)

lemma html_shown_escape: "html_shown (html_escape s) = s"
  by (induction s) (simp_all add: html_escape_entities html_shown_entity)

definition unindent :: "string \<Rightarrow> string" where
  "unindent l = (if starts_with indent l then drop 4 l else l)"

definition shown_lines :: "block \<Rightarrow> string" where
  "shown_lines b = (case b of (level, title, ls) \<Rightarrow> terminated (map unindent ls))"

definition html_block :: "block \<Rightarrow> string" where
  "html_block b = (case b of (level, title, ls) \<Rightarrow>
     ''<h'' @ dec level @ ''>'' @ title @ ''</h'' @ dec level @ ''>'' @ pre_block (shown_lines b))"

lemma heading_of:
  "heading (''#'' @ '' '' @ t) = Some (1, t)" "heading (''#'' @ ''#'' @ '' '' @ t) = Some (2, t)"
  "heading [] = None" "heading (indent @ t) = None" "heading report_intro = None"
  "heading no_response_text = None"
  by (simp_all add: heading_def starts_with_def indent_def report_intro_def no_response_text_def)

lemma plain_escape: "list_all (\<lambda>c. code c \<notin> {34, 38, 39, 60, 62}) s \<Longrightarrow> html_escape s = s"
  by (induction s) (auto simp: html_escape_entities entity_def code_def)

lemma digits_plain: "list_all (\<lambda>c. code c \<notin> {34, 38, 39, 60, 62}) (dec n)"
  unfolding list_all_iff
proof
  show "code c \<notin> {34, 38, 39, 60, 62}" if "c \<in> set (dec n)" for c
    using dec_digits [OF that] by (auto simp: is_ascii_digit_def)
qed

lemma fixed_escape: "title \<in> set (report_title # fixed_titles ns) \<Longrightarrow> html_escape title = title"
proof (rule plain_escape)
  have "list_all (\<lambda>c. code c \<notin> {34, 38, 39, 60, 62}) (packet_title n)" for n
    using digits_plain by (simp add: packet_title_def byte_string_def code_def)
  then have "list_all (\<lambda>t. list_all (\<lambda>c. code c \<notin> {34, 38, 39, 60, 62}) t) (report_title # fixed_titles ns)"
    by (simp add: fixed_titles_def fixed_texts byte_string_def code_def list_all_iff)
  then show "title \<in> set (report_title # fixed_titles ns) \<Longrightarrow>
      list_all (\<lambda>c. code c \<notin> {34, 38, 39, 60, 62}) title"
    by (auto simp: list_all_iff)
qed

lemma fold_plain_lines:
  "list_all (\<lambda>l. heading l = None) ls \<Longrightarrow>
     fold html_line ls (body, literal) = (body, literal @ terminated (map unindent ls))"
  by (induction ls arbitrary: literal) (simp_all add: html_line_def unindent_def)

lemma fold_block:
  assumes "block_safe (fixed_titles ns) (level, title, ls)"
  shows "fold html_line (block_lines (level, title, ls)) (body, literal) =
    (body @ pre_block literal @ ''<h'' @ dec level @ ''>'' @ title @ ''</h'' @ dec level @ ''>'',
     shown_lines (level, title, ls))"
proof -
  have plain: "list_all (\<lambda>l. heading l = None) ls"
    using assms heading_of(3-6) by (auto simp: block_safe_def list_all_iff)
  have "html_escape title = title"
    using assms fixed_escape [of title ns] by (auto simp: block_safe_def)
  moreover have "heading (replicate level CHR ''#'' @ '' '' @ title) = Some (level, title)"
    using assms heading_of(1,2) [of title] by (auto simp: block_safe_def numeral_2_eq_2)
  ultimately have "html_line (replicate level CHR ''#'' @ '' '' @ title) (body, literal) =
      (body @ pre_block literal @ ''<h'' @ dec level @ ''>'' @ title @ ''</h'' @ dec level @ ''>'', [])"
    by (simp add: html_line_def heading_block_def)
  then show ?thesis
    using fold_plain_lines [OF plain] by (simp add: block_lines_def shown_lines_def)
qed

lemma fold_blocks:
  "list_all (block_safe (fixed_titles ns)) bs \<Longrightarrow>
     (case fold html_line (concat (map block_lines bs)) (body, literal) of
        (body', literal') \<Rightarrow> body' @ pre_block literal') =
     body @ pre_block literal @ concat (map html_block bs)"
proof (induction bs arbitrary: body literal)
  case Nil
  then show ?case by simp
next
  case (Cons b bs)
  obtain level title ls where b: "b = (level, title, ls)" by (cases b)
  from Cons.prems have s: "block_safe (fixed_titles ns) (level, title, ls)" by (simp add: b)
  show ?case
    using Cons.prems by (simp add: b fold_block [OF s] Cons.IH) (simp add: html_block_def)
qed

lemma trim_Nil [simp]: "trim [] = []"
  using trim_length [of "[]"] by simp

lemma html_inert_parts:
  assumes "draft_html ej d = Inr h"
  shows "h = page_start @ concat (map html_block (document d)) @ page_end"
    and "list_all (\<lambda>b. fst (snd b) \<in> set (report_title # fixed_titles (map pe_number (cx_packets (dr_context d)))) \<and>
           inert (html_escape (shown_lines b)) \<and> html_shown (html_escape (shown_lines b)) = shown_lines b) (document d)"
proof -
  let ?ns = "map pe_number (cx_packets (dr_context d))"
  obtain md where md: "draft_markdown ej d = Inr md"
    using assms by (auto simp: draft_html_def result_simps)
  have "pre_block [] = []" by (simp add: pre_block_def)
  then show "h = page_start @ concat (map html_block (document d)) @ page_end"
    using assms md markdown_lines [OF md] fold_blocks [OF document_safe, of d "[]" "[]"]
    by (auto simp: draft_html_def split: prod.splits)
  have "fst (snd b) \<in> set (report_title # fixed_titles ?ns)" if "b \<in> set (document d)" for b
    using document_safe [of d] that by (cases b) (auto simp: list_all_iff block_safe_def)
  then show "list_all (\<lambda>b. fst (snd b) \<in> set (report_title # fixed_titles ?ns) \<and>
      inert (html_escape (shown_lines b)) \<and> html_shown (html_escape (shown_lines b)) = shown_lines b) (document d)"
    using html_escape_inert html_shown_escape by (simp add: list_all_iff)
qed

text \<open>
  C19: The HTML is the page around one block for each heading of the document, in its order: the heading is the
  report's own text, and the lines below it are the content of an element \<open>pre\<close> in which every character
  that could open or close a tag or an attribute is an entity, so that what is shown is exactly the text.
\<close>

theorem html_inert:
  assumes "draft_html ej d = Inr h"
  shows "h = page_start @ concat (map html_block (document d)) @ page_end \<and>
    (list_all (\<lambda>b. fst (snd b) \<in> set (report_title # fixed_titles (map pe_number (cx_packets (dr_context d)))) \<and>
           inert (html_escape (shown_lines b)) \<and> html_shown (html_escape (shown_lines b)) = shown_lines b) (document d))"
  using html_inert_parts [OF assms] by (intro conjI)

subsection \<open>A draft\<close>

definition sample_draft :: draft where
  "sample_draft = \<lparr>dr_context = sample_evidence [3], dr_problem = [], dr_question = ''<h2>Recusa?</h2>'',
     dr_response = Some \<lparr>rs_provider = ''Codex'', rs_model = ''fixture'', rs_status = ''ok'',
       rs_text = sample_citation\<rparr>\<rparr>"

lemma sample_trims:
  "trim ''<h2>Recusa?</h2>'' = ''<h2>Recusa?</h2>''" "trim ''Codex'' = ''Codex''" "trim ''fixture'' = ''fixture''"
  "trim ''ok'' = ''ok''" "trim sample_citation = sample_citation"
  unfolding sample_citation_def append.simps by (rule trim_same [OF refl]; simp add: plain_def code_def)+

lemma sample_draft_prompt:
  "is_ok (context_prompt terse_json (dr_context sample_draft) (dr_problem sample_draft) (dr_question sample_draft))"
  using sample_evidence_valid [of "[3]"]
  by (simp add: context_prompt_def sample_draft_def sample_trims terse_json_def max_problem_bytes_def Let_def
      prompt_instructions_def reported_problem_def asked_question_def structured_context_def prompt_limits_def
      byte_string_def max_context_bytes_def)

lemma sample_draft_valid: "draft_validate terse_json sample_draft = Inr ()"
proof -
  obtain p where "context_prompt terse_json (dr_context sample_draft) (dr_problem sample_draft) (dr_question sample_draft) = Inr p"
    using sample_draft_prompt by (auto simp: is_ok_iff)
  moreover have "validate_references terse_json (sample_evidence [3]) sample_citation = Inr ()"
    using sample_evidence_valid [of "[3]"] sample_citation_checks
    by (simp add: validate_references_def) (simp add: sample_citation_def)
  moreover have "sample_citation \<noteq> []" by (simp add: sample_citation_def)
  ultimately show ?thesis
    by (simp add: draft_validate_def)
      (simp add: evidence_step_def sample_draft_def sample_trims metadata_valid_def code_def)
qed

lemma markdown_inert_witness:
  "\<exists>md. draft_markdown terse_json sample_draft = Inr md \<and>
     list_all (\<lambda>l. l \<in> set (fixed_lines [3]) \<or> starts_with indent l \<and> clean (drop 4 l)) (text_lines md)"
proof -
  obtain md where md: "draft_markdown terse_json sample_draft = Inr md"
    using sample_draft_valid by (auto simp: draft_markdown_def Let_def)
  then show ?thesis
    using markdown_inert [OF md] by (intro exI [of _ md]) (simp add: sample_draft_def sample_evidence_def)
qed

lemma html_inert_witness:
  "\<exists>h. draft_html terse_json sample_draft = Inr h \<and>
     h = page_start @ concat (map html_block (document sample_draft)) @ page_end"
proof -
  obtain md where "draft_markdown terse_json sample_draft = Inr md"
    using sample_draft_valid by (auto simp: draft_markdown_def Let_def)
  then obtain h where h: "draft_html terse_json sample_draft = Inr h"
    by (cases "fold html_line (text_lines md) ([], [])") (simp add: draft_html_def)
  then show ?thesis using html_inert [OF h] by blast
qed

end
