(* ===== verification/Notebook_Facts.thy ===== *)
theory Notebook_Facts
  imports Notebook Report_Facts
begin

text \<open>
  Whatever is recorded, the notebook validates: what it saves it can open again. The registration label
  names the day it stands for.
\<close>

subsection \<open>Trimming twice\<close>

lemma strip_first_None_iff: "strip_first ws s = None \<longleftrightarrow> (\<forall>w \<in> set ws. w = [] \<or> \<not> prefix w s)"
  by (induction ws) auto

lemma trim_start_of_None: "strip_first ws (trim_start_of ws s) = None"
proof (induction ws s rule: trim_start_of.induct)
  case (1 ws s)
  then show ?case by (cases "strip_first ws s") (simp_all add: trim_start_of.simps [of ws s])
qed

lemma trim_start_of_same: "strip_first ws s = None \<Longrightarrow> trim_start_of ws s = s"
  by (simp add: trim_start_of.simps)

lemma trim_end_prefix: "prefix (trim_end s) s"
  using trim_start_of_suffix [of "map rev white_space" "rev s"]
  by (simp add: trim_end_def suffix_to_prefix)

lemma trim_trim [simp]: "trim (trim s) = trim s"
proof -
  let ?t = "trim_start s"
  have "strip_first white_space ?t = None"
    by (simp add: trim_start_def trim_start_of_None)
  then have "strip_first white_space (trim s) = None"
    using trim_end_prefix [of ?t] unfolding strip_first_None_iff trim_def by (meson prefix_order.trans)
  then have "trim_start (trim s) = trim s"
    by (simp add: trim_start_def trim_start_of_same)
  then show ?thesis
    by (simp add: trim_def) (simp add: trim_end_def trim_start_of_None trim_start_of_same)
qed

subsection \<open>The notebook validates\<close>

text \<open>Validation but for the emptiness.\<close>

definition book_ok :: "evidence_json \<Rightarrow> notebook \<Rightarrow> bool" where
  "book_ok ej nb \<longleftrightarrow> length (nb_turns nb) \<le> max_turns \<and> length (nb_notes nb) \<le> max_notes \<and>
     (\<forall>i < length (nb_turns nb). validate_turn ej (i, nb_turns nb ! i) = Inr ()) \<and>
     (\<forall>i < length (nb_notes nb). validate_note ej (nb_turns nb) (i, nb_notes nb ! i) = Inr ())"

lemma check_all_enumerate:
  "check_all f (enumerate 0 xs) = Inr () \<longleftrightarrow> (\<forall>i < length xs. f (i, xs ! i) = Inr ())"
  by (auto simp: check_all_eq_Inr in_set_enumerate_eq)

lemma notebook_validate_iff:
  "notebook_validate ej nb = Inr () \<longleftrightarrow> \<not> notebook_empty nb \<and> book_ok ej nb"
  by (auto simp: notebook_validate_def book_ok_def result_simps check_all_enumerate [unfolded check_all_eq_Inr])

lemma validate_turn_Inr:
  "validate_turn ej (i, t) = Inr () \<longleftrightarrow> tn_id t = i + 1 \<and> 0 < tn_conversation t \<and> tn_conversation t < 2 ^ 64 - 1
     \<and> time_ok (tn_created t) \<and> draft_step (checked_draft ej (tn_draft t)) = Inr (tn_references_valid t)"
  by (auto simp: validate_turn_def result_simps)

lemma validate_note_Inr:
  "validate_note ej ts (i, n) = Inr () \<longleftrightarrow>
     nt_id n = i + 1 \<and> trim (nt_text n) \<noteq> [] \<and> length (nt_text n) \<le> max_note_bytes \<and> time_ok (nt_created n) \<and>
     draft_step (evidence_step (context_validate ej (nt_context n))) = Inr () \<and>
     (\<forall>k. nt_source_turn n = Some k \<longrightarrow> list_ex (\<lambda>t. tn_id t = k \<and> dr_context (tn_draft t) = nt_context n) ts) \<and>
     length (nt_history n) \<le> max_note_changes \<and> list_all (\<lambda>c. valid_time (nc_unix_seconds c)) (nt_history n) \<and>
     (\<forall>v. nt_created n = Some v \<longrightarrow> (\<exists>c cs. nt_history n = c # cs \<and> nc_state c = Investigating \<and> nc_unix_seconds c = v)) \<and>
     transitions_ok (nt_history n) \<and> (nt_history n \<noteq> [] \<longrightarrow> nc_state (last (nt_history n)) = nt_state n)"
  by (auto simp: validate_note_def result_simps split: option.split_asm list.split_asm option.split list.split)

lemma validate_note_more: "validate_note ej ts x = Inr () \<Longrightarrow> validate_note ej (ts @ us) x = Inr ()"
  by (cases x) (auto simp: validate_note_Inr)

lemma book_ok_new: "book_ok ej notebook_new"
  by (simp add: book_ok_def notebook_new_def)

lemma record_turn_ok:
  assumes "book_ok ej nb" "valid_time now" "record_turn ej now conversation d nb = Inr (k, nb')"
  shows "book_ok ej nb'"
proof -
  obtain valid where v: "draft_step (checked_draft ej d) = Inr valid" "0 < conversation" "conversation < 2 ^ 64 - 1"
      "length (nb_turns nb) < max_turns"
      "nb' = nb\<lparr>nb_turns := nb_turns nb @ [\<lparr>tn_id = length (nb_turns nb) + 1, tn_conversation = conversation,
        tn_draft = d, tn_references_valid = valid, tn_created = Some now\<rparr>]\<rparr>"
    using assms(3) by (auto simp: record_turn_def can_start_def Let_def result_simps)
  have "validate_turn ej (i, nb_turns nb' ! i) = Inr ()" if "i < length (nb_turns nb')" for i
    using assms(1,2) v that
    by (auto simp: book_ok_def nth_append less_Suc_eq validate_turn_Inr time_ok_def)
  then show ?thesis
    using assms(1) v validate_note_more by (auto simp: book_ok_def)
qed

lemma add_note_ok:
  assumes "book_ok ej nb" "valid_time now" "add_note ej now t cx source nb = Inr (k, nb')"
  shows "book_ok ej nb'"
proof -
  define n where "n = \<lparr>nt_id = length (nb_notes nb) + 1, nt_text = trim t, nt_state = Investigating,
    nt_context = cx, nt_source_turn = source, nt_created = Some now,
    nt_history = [\<lparr>nc_unix_seconds = now, nc_state = Investigating\<rparr>]\<rparr>"
  have v: "trim t \<noteq> []" "length t \<le> max_note_bytes" "length (nb_notes nb) < max_notes"
      "draft_step (evidence_step (context_validate ej cx)) = Inr ()" "nb' = nb\<lparr>nb_notes := nb_notes nb @ [n]\<rparr>"
      "\<forall>k. source = Some k \<longrightarrow> 
        (\<exists>origin. find (\<lambda>t. tn_id t = k) (nb_turns nb) = Some origin \<and> dr_context (tn_draft origin) = cx)"
    using assms(3) by (auto simp: add_note_def Let_def result_simps n_def)
  have "list_ex (\<lambda>t. tn_id t = k \<and> dr_context (tn_draft t) = cx) (nb_turns nb)" if "source = Some k" for k
    using v(6) that find_SomeD by (fastforce simp: list_ex_iff)
  then have "validate_note ej (nb_turns nb) (length (nb_notes nb), n) = Inr ()"
    using v assms(2) trim_length [of t]
    by (auto simp: validate_note_Inr n_def time_ok_def max_note_changes_def)
  then show ?thesis
    using assms(1) v by (auto simp: book_ok_def nth_append less_Suc_eq)
qed

lemma transitions_ok_snoc:
  "transitions_ok (cs @ [c]) \<longleftrightarrow> transitions_ok cs \<and> (cs \<noteq> [] \<longrightarrow> nc_state c = note_next (nc_state (last cs)))"
  by (induction cs rule: transitions_ok.induct) auto

lemma cycle_state_ok:
  assumes "validate_note ej ts (i, n) = Inr ()" "valid_time now" "cycle_state now n = Inr n'"
  shows "validate_note ej ts (i, n') = Inr ()"
proof -
  note v = assms(1) [unfolded validate_note_Inr]
  have len: "length (nt_history n) + (if nt_history n = [] then 2 else 1) \<le> max_note_changes"
    using assms(3) by (auto simp: cycle_state_def result_simps)
  show ?thesis
  proof (cases "nt_history n")
    case Nil
    then show ?thesis
      using assms(2,3) v len by (auto simp: validate_note_Inr cycle_state_def Let_def)
  next
    case (Cons c cs)
    define h where "h = nt_history n @ [\<lparr>nc_unix_seconds = now, nc_state = note_next (nt_state n)\<rparr>]"
    have n': "n' = n\<lparr>nt_state := note_next (nt_state n), nt_history := h\<rparr>"
      using assms(3) Cons by (simp add: cycle_state_def Let_def h_def ensure_def split: if_splits)
    have "transitions_ok h"
      unfolding h_def transitions_ok_snoc using v Cons by auto
    moreover have "length h \<le> max_note_changes" "nc_state (last h) = note_next (nt_state n)"
      "list_all (\<lambda>c. valid_time (nc_unix_seconds c)) h" "h = c # (cs @ [last h])"
      using v len assms(2) Cons by (auto simp: h_def)
    ultimately show ?thesis
      using v Cons unfolding validate_note_Inr n' by auto
  qed
qed

lemma cycle_first_nth:
  "cycle_first now k ns = Inr ns' \<Longrightarrow> length ns' = length ns \<and>
     (\<forall>i < length ns. ns' ! i = ns ! i \<or> cycle_state now (ns ! i) = Inr (ns' ! i))"
proof (induction ns arbitrary: ns')
  case Nil
  then show ?case by simp
next
  case (Cons n ns)
  show ?case
  proof (cases "nt_id n = k")
    case True
    then show ?thesis using Cons.prems by (auto simp: result_simps nth_Cons split: nat.split)
  next
    case False
    then obtain ms where "cycle_first now k ns = Inr ms" "ns' = n # ms"
      using Cons.prems by (auto simp: result_simps)
    then show ?thesis using Cons.IH [of ms] by (auto simp: nth_Cons split: nat.split)
  qed
qed

lemma cycle_note_ok:
  assumes "book_ok ej nb" "valid_time now" "cycle_note now k nb = Inr nb'"
  shows "book_ok ej nb'"
proof -
  obtain ns where ns: "cycle_first now k (nb_notes nb) = Inr ns" "nb' = nb\<lparr>nb_notes := ns\<rparr>"
    using assms(3) by (auto simp: cycle_note_def result_simps)
  have "validate_note ej (nb_turns nb) (i, ns ! i) = Inr ()" if "i < length ns" for i
    using cycle_first_nth [OF ns(1)] assms(1,2) that cycle_state_ok by (fastforce simp: book_ok_def)
  then show ?thesis
    using assms(1) ns cycle_first_nth [OF ns(1)] by (simp add: book_ok_def)
qed

text \<open>
  The notebooks a session can come to: a new one or one that validated when it was loaded, then any
  turns, notes and changes of state, at times before the year 10000.
\<close>

inductive notebook_reachable :: "evidence_json \<Rightarrow> notebook \<Rightarrow> bool" for ej where
  reach_new: "notebook_reachable ej notebook_new"
| reach_loaded: "notebook_validate ej nb = Inr () \<Longrightarrow> notebook_reachable ej nb"
| reach_record: "notebook_reachable ej nb \<Longrightarrow> valid_time now \<Longrightarrow>
    record_turn ej now conversation d nb = Inr (k, nb') \<Longrightarrow> notebook_reachable ej nb'"
| reach_note: "notebook_reachable ej nb \<Longrightarrow> valid_time now \<Longrightarrow>
    add_note ej now t cx source nb = Inr (k, nb') \<Longrightarrow> notebook_reachable ej nb'"
| reach_cycle: "notebook_reachable ej nb \<Longrightarrow> valid_time now \<Longrightarrow>
    cycle_note now k nb = Inr nb' \<Longrightarrow> notebook_reachable ej nb'"

lemma reachable_ok: "notebook_reachable ej nb \<Longrightarrow> book_ok ej nb"
  by (induction rule: notebook_reachable.induct)
    (auto simp: book_ok_new notebook_validate_iff intro: record_turn_ok add_note_ok cycle_note_ok)

text \<open>
  C21: Every notebook a session can come to validates, unless it is still empty: at most 96 numbered turns and
  32 numbered notes, the citations of every turn flagged as they are, every note with the evidence of its
  turn and a history that starts under investigation, goes round the three states and ends in its state.
\<close>

theorem notebook_reachable_validates:
  assumes "notebook_reachable ej nb"
  shows "nb = notebook_new \<or> notebook_validate ej nb = Inr ()"
  using reachable_ok [OF assms] by (auto simp: notebook_validate_iff notebook_empty_def notebook_new_def)

definition sample_turn :: turn where
  "sample_turn = \<lparr>tn_id = 1, tn_conversation = 7, tn_draft = sample_draft, tn_references_valid = True,
     tn_created = Some 1000\<rparr>"

definition sample_note :: book_note where
  "sample_note = \<lparr>nt_id = 1, nt_text = ''ok'', nt_state = Confirmed, nt_context = sample_evidence [3],
     nt_source_turn = Some 1, nt_created = Some 1001, nt_history =
       [\<lparr>nc_unix_seconds = 1001, nc_state = Investigating\<rparr>, \<lparr>nc_unix_seconds = 1002, nc_state = Confirmed\<rparr>]\<rparr>"

definition sample_book :: notebook where
  "sample_book = \<lparr>nb_turns = [sample_turn], nb_notes = [sample_note]\<rparr>"

lemma sample_checked: "checked_draft terse_json sample_draft = Inr True"
proof -
  obtain p where "context_prompt terse_json (dr_context sample_draft) (dr_problem sample_draft) (dr_question sample_draft) = Inr p"
    using sample_draft_prompt by (auto simp: is_ok_iff)
  moreover have "validate_references terse_json (sample_evidence [3]) sample_citation = Inr ()"
    using sample_evidence_valid [of "[3]"] sample_citation_checks
    by (simp add: validate_references_def) (simp add: sample_citation_def)
  moreover have "length sample_citation \<le> 128 * 1024" by (simp add: sample_citation_def)
  ultimately show ?thesis
    by (simp add: checked_draft_def) (simp add: evidence_step_def sample_draft_def sample_trims metadata_valid_def code_def)
qed

lemma sample_reachable: "notebook_reachable terse_json sample_book"
proof -
  define n where "n = sample_note\<lparr>nt_state := Investigating,
    nt_history := [\<lparr>nc_unix_seconds = 1001, nc_state = Investigating\<rparr>]\<rparr>"
  have r: "record_turn terse_json 1000 7 sample_draft notebook_new = Inr (1, \<lparr>nb_turns = [sample_turn], nb_notes = []\<rparr>)"
    by (simp add: record_turn_def can_start_def notebook_new_def max_turns_def sample_checked draft_step_def
        sample_turn_def)
  have a: "add_note terse_json 1001 ''ok'' (sample_evidence [3]) (Some 1) \<lparr>nb_turns = [sample_turn], nb_notes = []\<rparr>
      = Inr (1, \<lparr>nb_turns = [sample_turn], nb_notes = [n]\<rparr>)"
    using sample_evidence_valid [of "[3]"]
    by (simp add: add_note_def max_notes_def sample_trims max_note_bytes_def draft_step_def evidence_step_def
        sample_turn_def sample_draft_def n_def sample_note_def)
  have c: "cycle_note 1002 1 \<lparr>nb_turns = [sample_turn], nb_notes = [n]\<rparr> = Inr sample_book"
    by (simp add: cycle_note_def cycle_state_def n_def sample_note_def max_note_changes_def sample_book_def)
  have v: "valid_time 1000" "valid_time 1001" "valid_time 1002"
    by (simp_all add: valid_time_def)
  show ?thesis
    by (rule reach_cycle [OF reach_note [OF reach_record [OF reach_new v(1) r] v(2) a] v(3) c])
qed

lemma notebook_reachable_validates_witness: "notebook_validate terse_json sample_book = Inr ()"
  using notebook_reachable_validates [OF sample_reachable] by (simp add: sample_book_def notebook_new_def)

subsection \<open>The date of a label\<close>

definition days_before_year :: "nat \<Rightarrow> nat" where
  "days_before_year y = sum_list (map year_length [1970..<y])"

lemma year_loop_spec:
  "year_loop days y0 = (r, y) \<Longrightarrow> y0 \<le> y \<and> r < year_length y \<and> days = sum_list (map year_length [y0..<y]) + r"
proof (induction days y0 rule: year_loop.induct)
  case (1 days y0)
  show ?case
  proof (cases "days < year_length y0")
    case True
    then show ?thesis using 1(2) by (auto simp: year_loop.simps [of days y0])
  next
    case False
    then have "year_loop (days - year_length y0) (y0 + 1) = (r, y)"
      using 1(2) by (simp add: year_loop.simps [of days y0])
    from 1(1) [OF False this] False show ?thesis
      by (auto simp: upt_conv_Cons [of y0 y])
  qed
qed

lemma month_loop_spec:
  "days < sum_list ls \<Longrightarrow> month_loop ls days m = (r, m') \<Longrightarrow>
     m \<le> m' \<and> m' - m < length ls \<and> r < ls ! (m' - m) \<and> days = sum_list (take (m' - m) ls) + r"
proof (induction ls arbitrary: days m)
  case Nil
  then show ?case by simp
next
  case (Cons l ls)
  show ?case
  proof (cases "days < l")
    case True
    with Cons.prems show ?thesis by auto
  next
    case False
    then have "days - l < sum_list ls" "month_loop ls (days - l) (m + 1) = (r, m')"
      using Cons.prems by auto
    note ih = Cons.IH [OF this]
    then have "m' - m = Suc (m' - (m + 1))" "m \<le> m'" by auto
    moreover have "days = l + (sum_list (take (m' - (m + 1)) ls) + r)" using ih False by linarith
    ultimately show ?thesis using ih by simp
  qed
qed

lemma sum_month_lengths: "sum_list (month_lengths y) = year_length y"
  by (simp add: month_lengths_def year_length_def)

lemma era_length: "sum_list (map year_length [1970..<2370]) = 146097"
  by (simp add: year_length_def leap_def)

lemma year_length_period: "year_length (y + 400 * e) = year_length y"
proof -
  have "(y + 400 * e) mod 4 = y mod 4" "(y + 400 * e) mod 100 = y mod 100" "(y + 400 * e) mod 400 = y mod 400"
    using mod_mult_self2 [of y 4 "100 * e"] mod_mult_self2 [of y 100 "4 * e"] by simp_all
  then show ?thesis by (simp add: year_length_def leap_def)
qed

lemma upt_shift: "[a + k..<b + k] = map (\<lambda>y. y + k) [a..<b]"
  by (rule nth_equalityI) auto

lemma era_again: "sum_list (map year_length [1970 + 400 * e..<2370 + 400 * e]) = 146097"
  unfolding upt_shift map_map comp_def year_length_period by (rule era_length)

lemma days_before_split: "1970 \<le> y \<Longrightarrow> y \<le> z \<Longrightarrow>
    days_before_year z = days_before_year y + sum_list (map year_length [y..<z])"
  unfolding days_before_year_def using upt_add_eq_append [of 1970 y "z - y"] by simp

lemma era_start: "days_before_year (1970 + 400 * e) = 146097 * e"
proof (induction e)
  case 0
  then show ?case by (simp add: days_before_year_def)
next
  case (Suc e)
  have "1970 + 400 * Suc e = 2370 + 400 * e" by simp
  then show ?case
    using Suc era_again [of e] days_before_split [of "1970 + 400 * e" "2370 + 400 * e"] by simp
qed

lemma civil_date_correct_parts:
  assumes "civil_date v = (y, m, d)"
  shows "1970 \<le> y" "1 \<le> m" "m \<le> 12" "1 \<le> d" "d \<le> month_lengths y ! (m - 1)"
    "v div 86400 = days_before_year y + sum_list (take (m - 1) (month_lengths y)) + (d - 1)"
proof -
  define e where "e = v div 86400 div 146097"
  obtain r where yl: "year_loop (v div 86400 mod 146097) (1970 + e * 400) = (r, y)"
      and ml: "month_loop (month_lengths y) r 1 = (d - 1, m)" and d: "1 \<le> d"
    using assms by (auto simp: civil_date_def e_def Let_def split: prod.splits)
  note ys = year_loop_spec [OF yl]
  have ms: "1 \<le> m" "m - 1 < length (month_lengths y)" "d - 1 < month_lengths y ! (m - 1)"
      "r = sum_list (take (m - 1) (month_lengths y)) + (d - 1)"
    using month_loop_spec [OF _ ml] ys by (auto simp: sum_month_lengths)
  show "1970 \<le> y" using ys by simp
  show "1 \<le> m" "m \<le> 12" "1 \<le> d" "d \<le> month_lengths y ! (m - 1)"
    using ms d by (auto simp: month_lengths_def)
  have "v div 86400 = 146097 * e + v div 86400 mod 146097" by (simp add: e_def)
  also have "\<dots> = days_before_year (1970 + 400 * e) + (sum_list (map year_length [1970 + 400 * e..<y]) + r)"
    using ys era_start [of e] by (simp add: mult.commute)
  also have "\<dots> = days_before_year y + r"
    using days_before_split [of "1970 + 400 * e" y] ys by (simp add: mult.commute)
  finally show "v div 86400 = days_before_year y + sum_list (take (m - 1) (month_lengths y)) + (d - 1)"
    using ms(4) by simp
qed

text \<open>
  C24: The date of a label is the day that many seconds stand for: its month is a month of the year, its day a
  day of the month, and the days of the years before it, of the months before it and of the month itself
  add up to the whole days since 1970.
\<close>

theorem civil_date_correct:
  assumes "civil_date v = (y, m, d)"
  shows "1970 \<le> y \<and>
    1 \<le> m \<and>
    m \<le> 12 \<and>
    1 \<le> d \<and>
    d \<le> month_lengths y ! (m - 1) \<and>
    v div 86400 = days_before_year y + sum_list (take (m - 1) (month_lengths y)) + (d - 1)"
  using civil_date_correct_parts [OF assms] by (intro conjI)

lemma civil_date_correct_witness:
  "civil_date 1709208000 = (2024, 2, 29) \<and>
     19782 = days_before_year 2024 + sum_list (take 1 (month_lengths 2024)) + 28"
proof -
  have c: "civil_date 1709208000 = (2024, 2, 29)"
    by (simp add: civil_date_def year_loop.simps year_length_def leap_def month_lengths_def)
  then show ?thesis using civil_date_correct [OF c] by simp
qed

end
