(* ===== verification/Notebook_Store_Facts.thy ===== *)
theory Notebook_Store_Facts
  imports Notebook_Store Notebook_Facts
begin

text \<open>
  A receipt in a saved folder vouches for all of it; what a notebook saves it loads again; and whatever is
  loaded has been checked against receipt and contexts.
\<close>

subsection \<open>Saved drafts\<close>

lemma smap_error_cases:
  assumes "smap_error g m s = (r, s')"
  obtains (err) e where "m s = (Inl e, s')" "r = Inl (g e)" | (ok) x where "m s = (Inr x, s')" "r = Inr x"
  using assms by (auto simp: smap_error_def split: prod.splits sum.splits)

lemma separate_report_names:
  "separate_names [''receipt.json'', ''report.md'', ''report.html'', ''context.json'']"
  "separate_names [''receipt.json'', ''investigation.json'', ''investigation.md'']"
  by (simp_all add: separate_names_def)

text \<open>A save that first makes its files and then saves the folder.\<close>

lemma folder_step:
  assumes "sbind (smap_error Store_failed (folder_save d files receipt)) (\<lambda>_. spure (Inr x)) s = (r, s')"
    and "separate_names (''receipt.json'' # map fst files)"
  shows "only_below d s s'" "st_entries s d \<noteq> None \<Longrightarrow> st_entries s' = st_entries s"
    and "r = Inr x \<and> st_entries s' d = Some Directory \<and>
        (\<exists>b. receipt = Some b \<and> st_entries s' (receipt_path d) = Some (File b)) \<and>
        list_all (\<lambda>(n, data). st_entries s' (d @ [n]) = Some (File data)) files
      \<or> (\<exists>e. r = Inl (Store_failed e)) \<and> st_entries s' (receipt_path d) = st_entries s (receipt_path d)"
proof -
  obtain r0 where f: "folder_save d files receipt s = (r0, s')"
      and r: "r0 = Inr () \<and> r = Inr x \<or> (\<exists>e. r0 = Inl e \<and> r = Inl (Store_failed e))"
    using assms(1) by (cases r) (auto simp: result_simps smap_error_def split: prod.splits sum.splits)
  note o = folder_save_outcome [OF f assms(2)]
  show "only_below d s s'" "st_entries s d \<noteq> None \<Longrightarrow> st_entries s' = st_entries s"
    by (fact o(1), fact o(2))
  show "r = Inr x \<and> st_entries s' d = Some Directory \<and>
        (\<exists>b. receipt = Some b \<and> st_entries s' (receipt_path d) = Some (File b)) \<and>
        list_all (\<lambda>(n, data). st_entries s' (d @ [n]) = Some (File data)) files
      \<or> (\<exists>e. r = Inl (Store_failed e)) \<and> st_entries s' (receipt_path d) = st_entries s (receipt_path d)"
    using r o(3-6) by (auto simp: list_all_iff)
qed

definition report_entries :: "string \<Rightarrow> string \<Rightarrow> string \<Rightarrow> (string \<times> string) list" where
  "report_entries md html json = [(''report.md'', md), (''report.html'', html), (''context.json'', json)]"

lemma report_entries_separate: "separate_names (''receipt.json'' # map fst (report_entries md html json))"
  using separate_report_names(1) by (simp add: report_entries_def)

lemma report_files_Inr:
  "report_files rt ej d = Inr files \<longleftrightarrow> (\<exists>md html json. draft_markdown ej d = Inr md \<and> draft_html ej d = Inr html \<and>
     rt_draft rt d = Some json \<and> files = report_entries md html json)"
  by (cases "draft_markdown ej d"; cases "draft_html ej d") (auto simp: report_files_def report_entries_def result_simps)

lemma draft_save_cases:
  assumes "draft_save pv rt ej d dir s = (r, s')"
  obtains (early) "\<not> is_ok r" "s' = s"
  | (late) md html json where "draft_markdown ej d = Inr md" "draft_html ej d = Inr html" "rt_draft rt d = Some json"
      "sbind (smap_error Store_failed (folder_save dir (report_entries md html json)
          (rt_receipt rt (draft_receipt rt d (report_entries md html json)))))
        (\<lambda>_. spure (Inr (draft_receipt rt d (report_entries md html json)))) s = (r, s')"
proof (cases "pv_absolute pv dir")
  case False
  then have "draft_save pv rt ej d dir s = (Inl (Store_failed Not_absolute), s)"
    by (simp add: draft_save_def)
  then show ?thesis using assms(1) early by simp
next
  case True
  show ?thesis
  proof (cases "report_files rt ej d")
    case (Inl e)
    then have "draft_save pv rt ej d dir s = (Inl e, s)" using True by (simp add: draft_save_def)
    then show ?thesis using assms(1) early by simp
  next
    case (Inr files)
    then obtain md html json where "draft_markdown ej d = Inr md" "draft_html ej d = Inr html"
        "rt_draft rt d = Some json" "files = report_entries md html json"
      unfolding report_files_Inr by blast
    then show ?thesis using assms(1) True Inr by (intro late) (simp_all add: draft_save_def)
  qed
qed

lemma draft_receipt_vouches_parts:
  assumes "draft_save pv rt ej d dir s = (r, s')" "st_entries s (receipt_path dir) = None"
  shows "only_below dir s s'" "st_entries s dir \<noteq> None \<Longrightarrow> st_entries s' = st_entries s"
    "if st_entries s' (receipt_path dir) = None then \<not> is_ok r
     else \<exists>md html json bytes. draft_markdown ej d = Inr md \<and> draft_html ej d = Inr html \<and>
       rt_draft rt d = Some json \<and> r = Inr (draft_receipt rt d (report_entries md html json)) \<and>
       rt_receipt rt (draft_receipt rt d (report_entries md html json)) = Some bytes \<and>
       st_entries s' (receipt_path dir) = Some (File bytes) \<and>
       list_all (\<lambda>(n, data). st_entries s' (dir @ [n]) = Some (File data)) (report_entries md html json)"
proof -
  note f = folder_step [OF _ report_entries_separate]
  show "only_below dir s s'"
    using assms(1) by (cases rule: draft_save_cases) (simp_all add: f(1))
  show "st_entries s dir \<noteq> None \<Longrightarrow> st_entries s' = st_entries s"
    using assms(1) by (cases rule: draft_save_cases) (simp_all add: f(2))
  show "if st_entries s' (receipt_path dir) = None then \<not> is_ok r
     else \<exists>md html json bytes. draft_markdown ej d = Inr md \<and> draft_html ej d = Inr html \<and>
       rt_draft rt d = Some json \<and> r = Inr (draft_receipt rt d (report_entries md html json)) \<and>
       rt_receipt rt (draft_receipt rt d (report_entries md html json)) = Some bytes \<and>
       st_entries s' (receipt_path dir) = Some (File bytes) \<and>
       list_all (\<lambda>(n, data). st_entries s' (dir @ [n]) = Some (File data)) (report_entries md html json)"
    using assms(1)
  proof (cases rule: draft_save_cases)
    case early
    then show ?thesis using assms(2) by simp
  next
    case (late md html json)
    from f(3) [OF late(4)] show ?thesis
      using late(1-3) assms(2) by (elim disjE conjE exE) simp_all
  qed
qed

text \<open>
  Saving a draft touches nothing outside the new folder, nor anything when there already is one. When a
  receipt stands in it afterwards, everything has succeeded: the draft has validated, and the folder holds
  its two renderings and its JSON, as the receipt lists them. After any failure, wherever it strikes, there
  is no receipt.
\<close>

theorem draft_receipt_vouches:
  assumes "draft_save pv rt ej d dir s = (r, s')" "st_entries s (receipt_path dir) = None"
  shows "only_below dir s s' \<and>
    (st_entries s dir \<noteq> None \<longrightarrow> st_entries s' = st_entries s) \<and>
    (if st_entries s' (receipt_path dir) = None then \<not> is_ok r
     else \<exists>md html json bytes. draft_markdown ej d = Inr md \<and> draft_html ej d = Inr html \<and>
       rt_draft rt d = Some json \<and> r = Inr (draft_receipt rt d (report_entries md html json)) \<and>
       rt_receipt rt (draft_receipt rt d (report_entries md html json)) = Some bytes \<and>
       st_entries s' (receipt_path dir) = Some (File bytes) \<and>
       list_all (\<lambda>(n, data). st_entries s' (dir @ [n]) = Some (File data)) (report_entries md html json))"
  using draft_receipt_vouches_parts [OF assms] by (intro conjI impI)

subsection \<open>Reading\<close>

lemma plain_path_entries: "plain_path p k s = (r, s') \<Longrightarrow> st_entries s' = st_entries s"
  by (cases r) (auto simp: plain_path_def result_simps dest!: st_call_entries)

lemma read_limited_keeps: "read_limited p n s = (r, s') \<Longrightarrow> st_entries s' = st_entries s"
  by (cases r) (auto simp: read_limited_def Let_def result_simps dest!: plain_path_entries st_call_entries read_all_cases(1))

lemma read_limited_Inr:
  assumes "read_limited p n s = (Inr bytes, s')"
  shows "st_entries s p = Some (File bytes)"
proof -
  obtain content s1 s2 where "read_all p s1 = (Inr content, s2)" "st_entries s1 = st_entries s"
      "bytes = take (n + 1) content" "length bytes \<le> n"
    using assms by (auto simp: read_limited_def Let_def result_simps dest!: plain_path_entries st_call_entries)
  moreover from this have "take (n + 1) content = content"
    by (simp add: min_def split: if_splits)
  ultimately show ?thesis using read_all_cases(2) by metis
qed

lemma plain_paths_entries: "plain_paths ps s = (r, s') \<Longrightarrow> st_entries s' = st_entries s"
proof (induction ps arbitrary: s)
  case Nil
  then show ?case by simp
next
  case (Cons p ps)
  then show ?case by (cases r) (auto simp: result_simps dest!: plain_path_entries)
qed

lemma bounded_seq_iff:
  "length items \<le> n \<Longrightarrow> bounded_seq n items xs = (if length items + length xs \<le> n then Some (items @ xs) else None)"
  by (induction xs arbitrary: items) auto

lemma bounded_book_Some:
  "bounded_book raw = Some nb \<longleftrightarrow> nb = raw \<and> length (nb_turns raw) \<le> max_turns \<and> length (nb_notes raw) \<le> max_notes \<and>
     list_all (\<lambda>n. length (nt_history n) \<le> max_note_changes) (nb_notes raw)"
  by (auto simp: bounded_book_def bounded_seq_iff)

lemma recheck_turns_Inr:
  "recheck_turns ej ts = Inr us \<longleftrightarrow>
     list_all2 (\<lambda>t u. draft_step (checked_draft ej (tn_draft t)) = Inr (tn_references_valid u) \<and>
       u = t\<lparr>tn_references_valid := tn_references_valid u\<rparr>) ts us"
proof (induction ts arbitrary: us)
  case Nil
  then show ?case by auto
next
  case (Cons t ts)
  show ?case by (cases us) (auto simp: result_simps Cons.IH)
qed

lemma read_limited_ok:
  "read_limited p n s = (Inr bytes, s') \<Longrightarrow> st_entries s p = Some (File bytes) \<and> st_entries s' = st_entries s"
  using read_limited_Inr read_limited_keeps by blast

text \<open>One file of the receipt.\<close>

lemma load_entry_Inr:
  "load_entry bk dir f (json, seen) s = (Inr st, s') \<Longrightarrow>
     st_entries s' = st_entries s \<and>
     (\<exists>bytes. st_entries s (dir @ [fh_file f]) = Some (File bytes) \<and> length bytes = fh_bytes f \<and>
       eq_ignore_ascii_case (bk_sha bk bytes) (fh_sha256 f) \<and>
       (fh_file f = ''investigation.json'' \<and> json = None \<and> st = (Some bytes, seen) \<or>
        fh_file f = ''investigation.md'' \<and> \<not> seen \<and> st = (json, True)))"
  unfolding load_entry_def
  by (auto simp: result_simps elim!: smap_error_cases dest!: read_limited_ok split: if_splits)

text \<open>What the loop has read of the JSON comes from a file that its entry describes.\<close>

definition file_matches :: "book_text \<Rightarrow> folder_path \<Rightarrow> store \<Rightarrow> string \<Rightarrow> file_hash list \<Rightarrow> string \<Rightarrow> bool" where
  "file_matches bk dir s name fs bytes \<longleftrightarrow> st_entries s (dir @ [name]) = Some (File bytes) \<and>
     (\<exists>f \<in> set fs. fh_file f = name \<and> fh_bytes f = length bytes \<and> eq_ignore_ascii_case (bk_sha bk bytes) (fh_sha256 f))"

lemma load_entries_Inr:
  "load_entries bk dir fs st s = (Inr (json, seen), s') \<Longrightarrow>
     st_entries s' = st_entries s \<and>
     (\<forall>j. json = Some j \<longrightarrow> fst st = Some j \<or> file_matches bk dir s ''investigation.json'' fs j) \<and>
     (seen \<longrightarrow> snd st \<or> (\<exists>md. file_matches bk dir s ''investigation.md'' fs md))"
proof (induction fs arbitrary: st s)
  case Nil
  then show ?case by simp
next
  case (Cons f fs)
  obtain j0 m0 where st: "st = (j0, m0)" by (cases st)
  obtain j1 m1 s1 where e: "load_entry bk dir f (j0, m0) s = (Inr (j1, m1), s1)"
      and l: "load_entries bk dir fs (j1, m1) s1 = (Inr (json, seen), s')"
    using Cons.prems by (auto simp: st result_simps)
  note ih = Cons.IH [OF l] and one = load_entry_Inr [OF e]
  have more: "file_matches bk dir s n (f # fs) x" if "file_matches bk dir s1 n fs x" for n x
    using that one by (auto simp: file_matches_def)
  have step: "j1 = j0 \<or> (\<exists>x. j1 = Some x \<and> file_matches bk dir s ''investigation.json'' (f # fs) x)"
    "m1 \<longrightarrow> m0 \<or> (\<exists>x. file_matches bk dir s ''investigation.md'' (f # fs) x)"
    using one by (auto simp: file_matches_def)
  show ?case unfolding st fst_conv snd_conv
  proof (intro conjI allI impI)
    show "st_entries s' = st_entries s" using ih one by simp
  next
    fix j assume "json = Some j"
    then have "j1 = Some j \<or> file_matches bk dir s1 ''investigation.json'' fs j" using ih by simp
    then show "j0 = Some j \<or> file_matches bk dir s ''investigation.json'' (f # fs) j"
      using step(1) more by auto
  next
    assume seen
    then have "m1 \<or> (\<exists>x. file_matches bk dir s1 ''investigation.md'' fs x)" using ih by simp
    then show "m0 \<or> (\<exists>x. file_matches bk dir s ''investigation.md'' (f # fs) x)"
      using step(2) more by blast
  qed
qed

lemma notebook_load_checked_parts:
  assumes "notebook_load pv bk ej dir s = (Inr nb, s')"
  shows "notebook_validate ej nb = Inr ()" "st_entries s' = st_entries s"
    "\<exists>receipt rb json md raw.
       st_entries s (receipt_path dir) = Some (File rb) \<and> bk_parse_receipt bk rb = Some receipt \<and>
       file_matches bk dir s ''investigation.json'' (br_files receipt) json \<and>
       file_matches bk dir s ''investigation.md'' (br_files receipt) md \<and>
       bk_parse bk json = Some (1, raw) \<and> nb_notes nb = nb_notes raw \<and>
       map tn_draft (nb_turns nb) = map tn_draft (nb_turns raw) \<and>
       length (nb_turns nb) = br_turns receipt \<and> length (nb_notes nb) = br_notes receipt"
proof -
  obtain s1 s2 s3 rb receipt json raw book where
      p: "plain_paths (path_ancestors dir) s = (Inr (), s1)"
      and r: "read_limited (receipt_path dir) (64 * 1024) s1 = (Inr rb, s2)" "bk_parse_receipt bk rb = Some receipt"
      and l: "load_entries bk dir (br_files receipt) (None, False) s2 = (Inr (Some json, True), s3)"
      and j: "bk_parse bk json = Some (1, raw)" "bounded_book raw = Some book" "accept_book ej book = Inr nb"
      and c: "length (nb_turns nb) = br_turns receipt" "length (nb_notes nb) = br_notes receipt" "s' = s3"
    using assms unfolding notebook_load_def receipt_path_def
    by (auto simp: result_simps elim!: smap_error_cases split: prod.splits)
  have e1: "st_entries s1 = st_entries s" using plain_paths_entries [OF p] .
  have e2: "st_entries s1 (receipt_path dir) = Some (File rb)" "st_entries s2 = st_entries s1"
    using read_limited_ok [OF r(1)] by blast+
  note le = load_entries_Inr [OF l]
  have m: "file_matches bk dir s n fs x" if "file_matches bk dir s2 n fs x" for n fs x
    using that e1 e2 by (simp add: file_matches_def)
  obtain ts where ts: "recheck_turns ej (nb_turns book) = Inr ts" "nb = book\<lparr>nb_turns := ts\<rparr>"
      "notebook_validate ej nb = Inr ()"
    using j(3) by (cases "recheck_turns ej (nb_turns book)"; cases "notebook_validate ej (book\<lparr>nb_turns := projr (recheck_turns ej (nb_turns book))\<rparr>)")
      (auto simp: accept_book_def)
  have jm: "file_matches bk dir s ''investigation.json'' (br_files receipt) json"
    using le m by simp
  obtain md where md: "file_matches bk dir s ''investigation.md'' (br_files receipt) md"
    using le m by auto
  have book: "book = raw" using j(2) by (simp add: bounded_book_Some)
  show "notebook_validate ej nb = Inr ()" by (fact ts(3))
  show "st_entries s' = st_entries s" using le c e1 e2 by simp
  have "list_all2 (\<lambda>t u. tn_draft u = tn_draft t) (nb_turns book) ts"
    using ts(1) unfolding recheck_turns_Inr by (rule list_all2_mono) (metis turn.select_convs(3) turn.update_convs(4) turn.surjective)
  then have "map tn_draft ts = map tn_draft (nb_turns book)"
    by (induction rule: list_all2_induct) simp_all
  then show "\<exists>receipt rb json md raw.
       st_entries s (receipt_path dir) = Some (File rb) \<and> bk_parse_receipt bk rb = Some receipt \<and>
       file_matches bk dir s ''investigation.json'' (br_files receipt) json \<and>
       file_matches bk dir s ''investigation.md'' (br_files receipt) md \<and>
       bk_parse bk json = Some (1, raw) \<and> nb_notes nb = nb_notes raw \<and>
       map tn_draft (nb_turns nb) = map tn_draft (nb_turns raw) \<and>
       length (nb_turns nb) = br_turns receipt \<and> length (nb_notes nb) = br_notes receipt"
    using e1 e2 r(2) jm md j(1) ts(2) c book by (intro exI conjI) simp_all
qed

text \<open>
  C22: What is loaded has been checked: the folder holds a receipt, and the two files that it describes by name,
  length and hash; the notebook is the one of the JSON but for the flags of its turns, which have been found
  again from the contexts; it validates, and it has as many turns and notes as the receipt says. Loading
  writes nothing.
\<close>

theorem notebook_load_checked:
  assumes "notebook_load pv bk ej dir s = (Inr nb, s')"
  shows "notebook_validate ej nb = Inr () \<and>
    st_entries s' = st_entries s \<and>
    (\<exists>receipt rb json md raw.
       st_entries s (receipt_path dir) = Some (File rb) \<and> bk_parse_receipt bk rb = Some receipt \<and>
       file_matches bk dir s ''investigation.json'' (br_files receipt) json \<and>
       file_matches bk dir s ''investigation.md'' (br_files receipt) md \<and>
       bk_parse bk json = Some (1, raw) \<and> nb_notes nb = nb_notes raw \<and>
       map tn_draft (nb_turns nb) = map tn_draft (nb_turns raw) \<and>
       length (nb_turns nb) = br_turns receipt \<and> length (nb_notes nb) = br_notes receipt)"
  using notebook_load_checked_parts [OF assms] by (intro conjI)

subsection \<open>What was saved is loaded\<close>

lemma plain_paths_calm:
  "st_faults s = [] \<Longrightarrow> list_all (\<lambda>p. st_entries s p = Some Directory) ps \<Longrightarrow> plain_paths ps s = (Inr (), s)"
  by (induction ps) (simp_all add: plain_path_def st_call_calm)

lemma read_limited_calm:
  "st_faults s = [] \<Longrightarrow> st_entries s p = Some (File x) \<Longrightarrow> length x \<le> n \<Longrightarrow> read_limited p n s = (Inr x, s)"
  by (simp add: read_limited_def plain_path_def st_call_calm read_all_def)

lemma path_ancestors_snoc: "dir \<noteq> [] \<Longrightarrow> path_ancestors dir = dir # path_ancestors (butlast dir)"
  by (cases dir rule: rev_cases) (simp_all add: path_ancestors_def)

lemma recheck_validated:
  assumes "notebook_validate ej nb = Inr ()"
  shows "recheck_turns ej (nb_turns nb) = Inr (nb_turns nb)"
proof -
  have "draft_step (checked_draft ej (tn_draft t)) = Inr (tn_references_valid t)" if "t \<in> set (nb_turns nb)" for t
    using assms that by (auto simp: notebook_validate_iff book_ok_def validate_turn_Inr in_set_conv_nth)
  then show ?thesis
    unfolding recheck_turns_Inr by (simp add: list_all2_same)
qed

lemma bounded_validated: "notebook_validate ej nb = Inr () \<Longrightarrow> bounded_book nb = Some nb"
  by (auto simp: bounded_book_Some notebook_validate_iff book_ok_def validate_note_Inr list_all_iff in_set_conv_nth)

lemma accept_validated: "notebook_validate ej nb = Inr () \<Longrightarrow> accept_book ej nb = Inr nb"
  by (simp add: accept_book_def recheck_validated)

text \<open>What a save leaves in the folder passes every check of a load.\<close>

lemma load_after_save:
  assumes "notebook_save bk ej nb dir s = (Inr r, s')" "st_faults s' = []"
    and "pv_absolute pv dir" "\<not> prefix [CHR 0x5C, CHR 0x5C] (pv_text pv dir)" "\<not> prefix ''//'' (pv_text pv dir)"
    and "dir \<noteq> []" "list_all (\<lambda>p. st_entries s p = Some Directory) (path_ancestors (butlast dir))"
    and json: "\<And>j. bk_pretty bk nb = Some j \<Longrightarrow> bk_parse bk j = Some (1, nb)"
    and receipt: "\<And>b. bk_receipt bk r = Some b \<Longrightarrow> bk_parse_receipt bk b = Some r \<and> length b \<le> 64 * 1024"
    and sha: "\<And>x. hash_text (bk_sha bk x)"
  shows "notebook_load pv bk ej dir s' = (Inr nb, s')"
proof -
  obtain j where v: "notebook_validate ej nb = Inr ()" and j: "bk_pretty bk nb = Some j"
      and len: "length j \<le> max_notebook_bytes" "length (notebook_markdown nb) \<le> max_notebook_bytes"
      and f: "book_files bk ej nb = Inr [(''investigation.json'', j), (''investigation.md'', notebook_markdown nb)]"
    using assms(1) by (cases "notebook_validate ej nb") (auto simp: notebook_save_def book_files_def result_simps)
  let ?files = "[(''investigation.json'', j), (''investigation.md'', notebook_markdown nb)]"
  let ?r = "book_receipt_of bk nb ?files"
  have st: "sbind (smap_error Store_failed (folder_save dir ?files (bk_receipt bk ?r))) (\<lambda>_. spure (Inr ?r)) s = (Inr r, s')"
    using assms(1) f by (simp add: notebook_save_def)
  note fs = folder_step [OF st, simplified, OF separate_report_names(2)]
  have r: "r = ?r" and d: "st_entries s' dir = Some Directory"
    and files: "st_entries s' (dir @ [''investigation.json'']) = Some (File j)"
      "st_entries s' (dir @ [''investigation.md'']) = Some (File (notebook_markdown nb))"
    using fs(3) by auto
  obtain b where b: "bk_receipt bk r = Some b" "st_entries s' (receipt_path dir) = Some (File b)"
    using fs(3) by auto
  have "st_entries s' p = Some Directory" if "p \<in> set (path_ancestors (butlast dir))" for p
  proof -
    have "prefix p (butlast dir)" using that by (simp add: path_ancestors_def)
    then have "\<not> prefix dir p"
      using assms(6) by (metis append_butlast_last_id prefix_length_le length_append_singleton not_less_eq_eq prefix_order.trans)
    then show ?thesis using fs(1) assms(7) that by (simp add: only_below_def list_all_iff)
  qed
  then have "plain_paths (path_ancestors dir) s' = (Inr (), s')"
    using assms(2,6) d by (intro plain_paths_calm) (simp_all add: path_ancestors_snoc list_all_iff)
  moreover have "read_limited (dir @ [''receipt.json'']) (64 * 1024) s' = (Inr b, s')"
    using assms(2) b receipt by (intro read_limited_calm) (simp_all add: receipt_path_def)
  moreover have "load_entries bk dir (br_files r) (None, False) s' = (Inr (Some j, True), s')"
    using read_limited_calm [OF assms(2) files(1)] read_limited_calm [OF assms(2) files(2)] len sha
    by (simp add: r book_receipt_of_def hashes_of_def load_entry_def smap_error_def)
  moreover have "br_schema r = 1" "length (br_files r) = 2" "bounded_seq 2 [] (br_files r) \<noteq> None"
      "br_turns r = length (nb_turns nb)" "br_notes r = length (nb_notes nb)"
    by (simp_all add: r book_receipt_of_def hashes_of_def)
  ultimately show ?thesis
    using assms(3-5) receipt [OF b(1)] json [OF j] bounded_validated [OF v] accept_validated [OF v]
    by (simp add: notebook_load_def smap_error_def)
qed

subsection \<open>A folder\<close>

text \<open>How long a section can be.\<close>

lemma length_printable: "length (printable s) \<le> 3 * length s"
proof (induction s rule: printable.induct)
  case 1
  then show ?case by simp
next
  case (2 c s)
  have r: "length replacement_char = 3" by (simp add: replacement_char_def byte_string_def)
  show ?case
    using 2 by (auto simp: printable.simps(2) r)
qed

lemma split_on_lengths: "sum_list (map length (split_on d s)) + length (split_on d s) = length s + 1"
  by (induction s) (auto split: list.split)

lemma split_on_nonempty: "split_on d s \<noteq> []"
  by (induction s) (auto split: list.split)

lemma text_lines_lengths: "sum_list (map (\<lambda>l. 5 + 3 * length l) (text_lines s)) \<le> 5 * length s + 5"
proof -
  obtain ls l where sp: "split_on (char_of (10::nat)) s = ls @ [l]"
    using split_on_nonempty by (metis append_butlast_last_id)
  have "length (strip_cr x) \<le> length x" for x by (simp add: strip_cr_def)
  then have "sum_list (map (\<lambda>l. 5 + 3 * length (strip_cr l)) ls) \<le> sum_list (map (\<lambda>l. 5 + 3 * length l) ls)"
    by (intro sum_list_mono) simp
  moreover have "sum_list (map (\<lambda>l. 5 + 3 * length l) ls) = 5 * length ls + 3 * sum_list (map length ls)" for ls :: "string list"
    by (induction ls) simp_all
  moreover have "sum_list (map length ls) + length l + length ls = length s"
    using split_on_lengths [of "char_of (10::nat)" s] by (simp add: sp)
  ultimately show ?thesis by (simp add: text_lines_def sp comp_def)
qed

lemma length_report_section: "length (report_section title body) \<le> length title + 5 * length body + 11"
proof -
  have "length (concat (map (\<lambda>l. indent @ printable l @ newline) ls)) \<le> sum_list (map (\<lambda>l. 5 + 3 * length l) ls)" for ls
  proof (induction ls)
    case (Cons l ls)
    then show ?case using length_printable [of l] by (simp add: indent_def newline_char)
  qed simp
  from this [of "text_lines body"] text_lines_lengths [of body] show ?thesis
    by (simp add: report_section_def newline_char)
qed

definition small_book :: notebook where
  "small_book = \<lparr>nb_turns = [], nb_notes =
     [sample_note\<lparr>nt_source_turn := None, nt_created := None, nt_history := []\<rparr>]\<rparr>"

lemma small_book_valid: "notebook_validate terse_json small_book = Inr ()"
  using sample_evidence_valid [of "[3]"]
  by (simp add: notebook_validate_iff book_ok_def small_book_def notebook_empty_def validate_note_Inr
      sample_note_def sample_trims max_turns_def max_notes_def max_note_bytes_def time_ok_def
      draft_step_def evidence_step_def)

lemma length_dec_digit: "n < 10 \<Longrightarrow> length (dec n) \<le> 1"
  using dec_length_bound [of n 1] by simp

lemma small_book_markdown: "length (notebook_markdown small_book) \<le> max_notebook_bytes"
proof -
  define n where "n = sample_note\<lparr>nt_source_turn := None, nt_created := None, nt_history := []\<rparr>"
  have label: "length (note_label s) \<le> 30" for s
    by (cases s) (simp_all add: note_label_def byte_string_def)
  have history: "length (note_history_text n) \<le> 60"
    by (simp add: n_def note_history_text_def byte_string_def)
  have origin: "length (note_origin n) \<le> 200"
    using length_dec_digit [of 3]
    by (simp add: n_def note_origin_def sample_note_def sample_evidence_def packet_numbers_def debug_numbers_def
        debug_option_def byte_string_def)
  have body: "length (nt_text n) = 2" by (simp add: n_def sample_note_def)
  have number: "length (dec (nt_id n)) \<le> 1" using length_dec_digit [of 1] by (simp add: n_def sample_note_def)
  have part: "length (report_section t b) \<le> length t + 5 * k + 11" if "length b \<le> k" for t b k
    using length_report_section [of t b] that by linarith
  have "length (note_markdown n) \<le> 2000"
    using part [OF label [of "nt_state n"], of "''Estado''"] part [OF history, of "''Hist'' @ byte_string [195, 179] @ ''rico de estados''"]
      part [OF origin, of "''Origem''"] number body
      part [of "nt_text n" 2 "''Hip'' @ byte_string [195, 179] @ ''tese ou observa'' @ byte_string [195, 167, 195, 163] @ ''o''"]
    unfolding note_markdown_def length_append byte_string_def newline_char
    by simp
  then show ?thesis
    by (simp add: notebook_markdown_def small_book_def book_title_def book_intro_def newline_char byte_string_def
        max_notebook_bytes_def flip: n_def)
qed

text \<open>A disk with nothing on it but its root.\<close>

definition blank_disk :: store where
  "blank_disk = \<lparr>st_entries = [[] \<mapsto> Directory], st_faults = []\<rparr>"

definition rooted_paths :: path_view where
  "rooted_paths = \<lparr>pv_absolute = (\<lambda>p. p \<noteq> []), pv_text = (\<lambda>p. concat p)\<rparr>"

lemma blank_disk:
  "st_faults blank_disk = []" "free_name [''c''] blank_disk" "strict_prefix [''c''] p \<Longrightarrow> st_entries blank_disk p = None"
  "st_entries blank_disk (receipt_path [''c'']) = None" "st_entries blank_disk [] = Some Directory"
  by (auto simp: blank_disk_def free_name_def receipt_path_def)

text \<open>A serializer that knows one notebook, and one hash for everything.\<close>

definition small_text :: book_text where
  "small_text =
     \<lparr>bk_pretty = (\<lambda>nb. Some ''{}''), bk_parse = (\<lambda>s. Some (1, small_book)), bk_receipt = (\<lambda>r. Some ''r''),
      bk_parse_receipt = (\<lambda>s. Some \<lparr>br_schema = 1, br_turns = 0, br_notes = 1,
        br_files = hashes_of (\<lambda>x. replicate 64 CHR ''a'')
          [(''investigation.json'', ''{}''), (''investigation.md'', notebook_markdown small_book)]\<rparr>),
      bk_sha = (\<lambda>x. replicate 64 CHR ''a'')\<rparr>"

definition draft_text :: report_text where
  "draft_text = \<lparr>rt_draft = (\<lambda>d. Some ''{}''), rt_receipt = (\<lambda>r. Some ''r''), rt_sha = (\<lambda>x. replicate 64 CHR ''a'')\<rparr>"

lemma small_receipt: "bk_receipt small_text r = Some ''r''"
  by (simp add: small_text_def)

lemma small_book_saves:
  assumes "st_faults s = []" "free_name d s" "\<And>p. strict_prefix d p \<Longrightarrow> st_entries s p = None"
  obtains r s' where "notebook_save small_text terse_json small_book d s = (Inr r, s')" "st_faults s' = []"
    "bk_parse_receipt small_text ''r'' = Some r"
proof -
  let ?files = "[(''investigation.json'', ''{}''), (''investigation.md'', notebook_markdown small_book)]"
  have f: "book_files small_text terse_json small_book = Inr ?files"
    using small_book_valid small_book_markdown
    by (simp add: book_files_def small_text_def max_notebook_bytes_def) (simp add: small_book_def notebook_empty_def)
  obtain s' where "folder_save d ?files (Some ''r'') s = (Inr (), s')" "st_faults s' = []"
    using folder_save_calm [OF assms, of ?files "''r''"] separate_report_names(2) by auto
  then have "notebook_save small_text terse_json small_book d s = (Inr (book_receipt_of small_text small_book ?files), s')"
    by (simp add: notebook_save_def f smap_error_def sbind_def small_receipt)
  moreover have "bk_parse_receipt small_text ''r'' = Some (book_receipt_of small_text small_book ?files)"
    by (simp add: small_text_def book_receipt_of_def small_book_def)
  ultimately show ?thesis using that \<open>st_faults s' = []\<close> by blast
qed

lemma small_book_saved:
  obtains r s' where "notebook_save small_text terse_json small_book [''c''] blank_disk = (Inr r, s')" "st_faults s' = []"
    "bk_parse_receipt small_text ''r'' = Some r"
  by (rule small_book_saves [OF blank_disk(1,2,3)])

text \<open>A draft whose renderings exist is saved on it.\<close>

lemma draft_saved:
  assumes "draft_validate ej d = Inr ()"
  shows "\<exists>r s'. draft_save rooted_paths draft_text ej d [''c''] blank_disk = (Inr r, s')"
proof -
  obtain md where m: "draft_markdown ej d = Inr md"
    using assms by (auto simp: draft_markdown_def Let_def)
  then obtain html where h: "draft_html ej d = Inr html"
    by (cases "fold html_line (text_lines md) ([], [])") (simp add: draft_html_def)
  let ?files = "report_entries md html ''{}''"
  obtain s' where "folder_save [''c''] ?files (Some ''r'') blank_disk = (Inr (), s')"
    using folder_save_calm [OF blank_disk(1,2,3) report_entries_separate] by blast
  moreover have "report_files draft_text ej d = Inr ?files"
    using m h by (simp add: report_files_Inr draft_text_def)
  ultimately have "draft_save rooted_paths draft_text ej d [''c''] blank_disk = (Inr (draft_receipt draft_text d ?files), s')"
    by (simp add: draft_save_def rooted_paths_def smap_error_def sbind_def) (simp add: draft_text_def)
  then show ?thesis by blast
qed

lemma draft_receipt_vouches_witness:
  "\<exists>r s' md html json. draft_save rooted_paths draft_text terse_json sample_draft [''c''] blank_disk = (Inr r, s') \<and>
     only_below [''c''] blank_disk s' \<and> r = draft_receipt draft_text sample_draft (report_entries md html json) \<and>
     st_entries s' [''c'', ''report.html''] = Some (File html)"
proof -
  obtain r s' where s: "draft_save rooted_paths draft_text terse_json sample_draft [''c''] blank_disk = (Inr r, s')"
    using draft_saved [OF sample_draft_valid] by blast
  note v = draft_receipt_vouches [OF s blank_disk(4)]
  from v obtain md html json where "r = draft_receipt draft_text sample_draft (report_entries md html json)"
      "st_entries s' [''c'', ''report.html''] = Some (File html)"
    by (auto simp: report_entries_def split: if_splits)
  then show ?thesis using s v by blast
qed

text \<open>
  C31: A notebook saved to a local folder is the notebook that is loaded from it, when the folders above are
  plain ones, serde reads back what it wrote, and the receipt fits into 64 KiB.
\<close>

theorem notebook_save_load:
  assumes "notebook_save bk ej nb dir s = (Inr r, s')" "st_faults s' = []"
    and "pv_absolute pv dir" "\<not> prefix [CHR 0x5C, CHR 0x5C] (pv_text pv dir)" "\<not> prefix ''//'' (pv_text pv dir)"
    and "dir \<noteq> []" "list_all (\<lambda>p. st_entries s p = Some Directory) (path_ancestors (butlast dir))"
    and "\<And>j. bk_pretty bk nb = Some j \<Longrightarrow> bk_parse bk j = Some (1, nb)"
    and "\<And>b. bk_receipt bk r = Some b \<Longrightarrow> bk_parse_receipt bk b = Some r \<and> length b \<le> 64 * 1024"
    and "\<And>x. hash_text (bk_sha bk x)"
  shows "notebook_load pv bk ej dir s' = (Inr nb, s')"
  using assms by (rule load_after_save)

lemma small_loads:
  "pv_absolute rooted_paths [''c'']" "\<not> prefix [CHR 0x5C, CHR 0x5C] (pv_text rooted_paths [''c''])"
  "\<not> prefix ''//'' (pv_text rooted_paths [''c''])" "[''c''] \<noteq> []"
  "list_all (\<lambda>p. st_entries blank_disk p = Some Directory) (path_ancestors (butlast [''c'']))"
  "bk_pretty small_text small_book = Some j \<Longrightarrow> bk_parse small_text j = Some (1, small_book)"
  "hash_text (bk_sha small_text x)"
  by (simp_all add: rooted_paths_def path_ancestors_def blank_disk small_text_def hash_text_def list_all_iff
      is_ascii_hexdigit_def code_def)

lemma notebook_save_load_witness:
  "\<exists>r s'. notebook_save small_text terse_json small_book [''c''] blank_disk = (Inr r, s') \<and>
     notebook_load rooted_paths small_text terse_json [''c''] s' = (Inr small_book, s')"
proof -
  obtain r s' where s: "notebook_save small_text terse_json small_book [''c''] blank_disk = (Inr r, s')" "st_faults s' = []"
      "bk_parse_receipt small_text ''r'' = Some r"
    by (rule small_book_saved)
  have "notebook_load rooted_paths small_text terse_json [''c''] s' = (Inr small_book, s')"
    using s small_loads by (intro notebook_save_load) (auto simp: small_receipt)
  then show ?thesis using s(1) by blast
qed

lemma notebook_load_checked_witness:
  "\<exists>s. notebook_load rooted_paths small_text terse_json [''c''] s = (Inr small_book, s) \<and>
     (\<exists>rb. st_entries s (receipt_path [''c'']) = Some (File rb))"
proof -
  obtain r s' where s: "notebook_save small_text terse_json small_book [''c''] blank_disk = (Inr r, s')" "st_faults s' = []"
      "bk_parse_receipt small_text ''r'' = Some r"
    by (rule small_book_saved)
  have l: "notebook_load rooted_paths small_text terse_json [''c''] s' = (Inr small_book, s')"
    using s small_loads by (intro load_after_save) (auto simp: small_receipt)
  then show ?thesis using notebook_load_checked [OF l] by blast
qed

end
