(* ===== verification/Json.thy ===== *)
theory Json
  imports Model Text
begin

text \<open>
  How the assistant's bridge reads \<open>serde_json\<close> values (indexing, \<open>get\<close>, \<open>as_str\<close>, \<open>as_u64\<close> and
  their comparisons with Rust values), and the hash maps it keeps. A \<open>HashMap\<close> is an association list with
  distinct keys, in whatever order its iteration has.
\<close>

text \<open>\<open>Value::get\<close> with a name; a duplicate name cannot be in a parsed object.\<close>

definition jget :: "json \<Rightarrow> string \<Rightarrow> json option" where
  "jget j k = (case j of JObj fs \<Rightarrow> map_of fs k | _ \<Rightarrow> None)"

text \<open>Indexing gives \<open>Null\<close> where there is nothing.\<close>

definition jidx :: "json \<Rightarrow> string \<Rightarrow> json" where
  "jidx j k = (case jget j k of None \<Rightarrow> JNull | Some v \<Rightarrow> v)"

definition as_str :: "json \<Rightarrow> string option" where
  "as_str j = (case j of JStr s \<Rightarrow> Some s | _ \<Rightarrow> None)"

definition as_array :: "json \<Rightarrow> json list option" where
  "as_array j = (case j of JArr xs \<Rightarrow> Some xs | _ \<Rightarrow> None)"

definition as_bool :: "json \<Rightarrow> bool option" where
  "as_bool j = (case j of JBool b \<Rightarrow> Some b | _ \<Rightarrow> None)"

definition is_object :: "json \<Rightarrow> bool" where
  "is_object j = (case j of JObj fs \<Rightarrow> True | _ \<Rightarrow> False)"

text \<open>A number that is an integer of 64 bits is printed as its digits, any other with a sign, a point or an exponent.\<close>

definition as_u64 :: "json \<Rightarrow> nat option" where
  "as_u64 j = (case j of JNum t \<Rightarrow>
       (case parse_digits t of Some n \<Rightarrow> if n < 2 ^ 64 then Some n else None | None \<Rightarrow> None)
     | _ \<Rightarrow> None)"

definition str_or :: "string \<Rightarrow> json \<Rightarrow> string" where
  "str_or d j = (case as_str j of None \<Rightarrow> d | Some s \<Rightarrow> s)"

lemma jget_JObj [simp]: "jget (JObj fs) k = map_of fs k"
  by (simp add: jget_def)

lemma jidx_JObj [simp]: "jidx (JObj fs) k = (case map_of fs k of None \<Rightarrow> JNull | Some v \<Rightarrow> v)"
  by (simp add: jidx_def)

lemma json_views [simp]:
  "as_str (JStr s) = Some s" "as_array (JArr xs) = Some xs" "as_bool (JBool b) = Some b"
  "as_str JNull = None" "as_array JNull = None" "as_u64 JNull = None" "as_u64 (JStr s) = None"
  by (simp_all add: as_str_def as_array_def as_bool_def as_u64_def)

lemma as_str_Some: "as_str j = Some s \<longleftrightarrow> j = JStr s"
  by (cases j) (auto simp: as_str_def)

lemma as_array_Some: "as_array j = Some xs \<longleftrightarrow> j = JArr xs"
  by (cases j) (auto simp: as_array_def)

lemma as_u64_dec [simp]: "n < 2 ^ 64 \<Longrightarrow> as_u64 (JNum (dec n)) = Some n"
  by (simp add: as_u64_def parse_digits_def digits_val_dec)

subsection \<open>Hash maps\<close>

definition hm_remove :: "'k \<Rightarrow> ('k \<times> 'v) list \<Rightarrow> ('k \<times> 'v) list" where
  "hm_remove k m = filter (\<lambda>e. fst e \<noteq> k) m"

definition hm_put :: "'k \<Rightarrow> 'v \<Rightarrow> ('k \<times> 'v) list \<Rightarrow> ('k \<times> 'v) list" where
  "hm_put k v m = (k, v) # hm_remove k m"

definition hm_ok :: "('k \<times> 'v) list \<Rightarrow> bool" where
  "hm_ok m \<longleftrightarrow> distinct (map fst m)"

text \<open>Writing through \<open>get_mut\<close>.\<close>

definition hm_set :: "'k \<Rightarrow> 'v \<Rightarrow> ('k \<times> 'v) list \<Rightarrow> ('k \<times> 'v) list" where
  "hm_set k v m = map (\<lambda>e. if fst e = k then (k, v) else e) m"

lemma map_of_hm_remove [simp]: "map_of (hm_remove k m) = (map_of m)(k := None)"
  by (induction m) (auto simp: hm_remove_def)

lemma map_of_hm_put [simp]: "map_of (hm_put k v m) = (map_of m)(k \<mapsto> v)"
  by (simp add: hm_put_def)

lemma map_of_hm_set: "map_of (hm_set k v m) = (if map_of m k = None then map_of m else (map_of m)(k \<mapsto> v))"
  by (induction m) (auto simp: hm_set_def)

lemma map_of_hm_set_Some [simp]: "map_of m k = Some w \<Longrightarrow> map_of (hm_set k v m) = (map_of m)(k \<mapsto> v)"
  by (simp add: map_of_hm_set)

lemma keys_hm_set [simp]: "map fst (hm_set k v m) = map fst m"
  by (induction m) (auto simp: hm_set_def)

lemma hm_ok_filter [simp]: "hm_ok m \<Longrightarrow> hm_ok (filter P m)"
  by (induction m) (auto simp: hm_ok_def)

lemma hm_ok_simps [simp]:
  "hm_ok []" "hm_ok m \<Longrightarrow> hm_ok (hm_remove k m)" "hm_ok m \<Longrightarrow> hm_ok (hm_put k v m)" "hm_ok m \<Longrightarrow> hm_ok (hm_set k v m)"
proof -
  show "hm_ok []" "hm_ok m \<Longrightarrow> hm_ok (hm_remove k m)"
    by (simp_all add: hm_remove_def) (simp add: hm_ok_def)
  then show "hm_ok m \<Longrightarrow> hm_ok (hm_put k v m)"
    by (auto simp: hm_put_def hm_ok_def hm_remove_def)
  show "hm_ok m \<Longrightarrow> hm_ok (hm_set k v m)"
    by (simp add: hm_ok_def)
qed

lemma set_hm_ok: "hm_ok m \<Longrightarrow> (k, v) \<in> set m \<longleftrightarrow> map_of m k = Some v"
  by (simp add: hm_ok_def)

lemma set_hm_put: "set (hm_put k v m) = insert (k, v) {e \<in> set m. fst e \<noteq> k}"
  by (auto simp: hm_put_def hm_remove_def)

lemma set_hm_remove: "set (hm_remove k m) = {e \<in> set m. fst e \<noteq> k}"
  by (simp add: hm_remove_def)

end
