(* ===== verification/Provider.thy ===== *)
theory Provider
  imports Json Effects
begin

text \<open>
  The process behind a conversation, as \<open>crates/netlane-ai/src/bridge.rs\<close> talks to it: frames of at most
  256 KiB, requests from a fixed list of methods, every request of the process itself denied, and a start
  that is given up unless the process confirms an isolated configuration. What the process sends is a script
  of frames, in which \<open>None\<close> is a read that fails (a frame that cannot be parsed, a closed pipe, a deadline);
  what is written and the events sent to the panel are logs. A script of faults lets any write, kill or event
  fail. The JSON value of \<open>proposal-model.json\<close> and the canonical form of its path are parameters.
\<close>

subsection \<open>Versions\<close>

definition codex_version :: string where "codex_version = ''0.162.0''"

definition validated_version :: "string \<Rightarrow> bool" where
  "validated_version v \<longleftrightarrow> v \<in> {codex_version, ''0.162.1''}"

text \<open>\<open>rsplit_once('.')\<close>\<close>

definition rsplit_dot :: "string \<Rightarrow> (string \<times> string) option" where
  "rsplit_dot v = map_option (\<lambda>(patch, series). (rev series, rev patch)) (split_once CHR ''.'' (rev v))"

definition accepted_version :: "string \<Rightarrow> bool" where
  "accepted_version reported \<longleftrightarrow> validated_version reported \<or>
     (case (rsplit_dot reported, rsplit_dot codex_version) of
        (Some (found, patch), Some (validated, _)) \<Rightarrow>
          found = validated \<and> patch \<noteq> [] \<and> length patch \<le> 4 \<and> list_all is_ascii_digit patch
      | _ \<Rightarrow> False)"

definition version_label :: "string \<Rightarrow> string" where
  "version_label v =
     (if validated_version v then ''Codex CLI '' @ v @ ('' '' @ byte_string [194, 183] @ '' login ChatGPT'')
      else ''Codex CLI '' @ v @ ('' (corre'' @ byte_string [195, 167, 195, 163] @ ''o n'' @ byte_string [195, 163] @
     ''o testada da s'' @ byte_string [195, 169] @ ''rie validada '') @ codex_version @ ('') '' @ byte_string [194, 183] @ '' login ChatGPT''))"

subsection \<open>Frames\<close>

definition max_line :: nat where "max_line = 256 * 1024"

definition newline_byte :: char where "newline_byte = char_of (10::nat)"

text \<open>
  What arrives, byte by byte; \<open>None\<close> is where \<open>select!\<close> drops the future that reads, because a command
  or the timer was first. \<open>take(remaining).read_until(b'\n')\<close> gives the bytes that go into the buffer and
  whether it was dropped. A pipe that fails is one that ends there: both are the same error, after which
  nothing more is read.
\<close>

fun read_until :: "nat \<Rightarrow> char option list \<Rightarrow> string \<times> bool \<times> char option list" where
  "read_until 0 src = ([], False, src)"
| "read_until (Suc n) [] = ([], False, [])"
| "read_until (Suc n) (None # src) = ([], True, src)"
| "read_until (Suc n) (Some c # src) =
     (if c = newline_byte then ([c], False, src)
      else case read_until n src of (bytes, dropped, rest) \<Rightarrow> (c # bytes, dropped, rest))"

datatype frame_read = Dropped | Unreadable | Frame json

definition read_json_frame ::
    "(string \<Rightarrow> json option) \<Rightarrow> char option list \<Rightarrow> string \<Rightarrow> frame_read \<times> char option list \<times> string" where
  "read_json_frame parse src buffer =
     (if max_line + 1 < length buffer then (Unreadable, src, buffer)
      else case read_until (max_line + 1 - length buffer) src of (bytes, dropped, rest) \<Rightarrow>
        let buffer = buffer @ bytes in
        if dropped then (Dropped, rest, buffer)
        else if buffer = [] \<or> max_line < length buffer \<or> last buffer \<noteq> newline_byte then (Unreadable, rest, buffer)
        else (case parse buffer of None \<Rightarrow> Unreadable | Some j \<Rightarrow> Frame j, rest, []))"

subsection \<open>Requests\<close>

record model_option =
  mo_id :: string
  mo_label :: string
  mo_efforts :: "string list"

record model_choice =
  mc_model :: string
  mc_effort :: string

datatype failure =
    Login_refused | Usage_limit | Model_unavailable string | Context_exceeded | Service_unavailable
  | Connection_failed | Cause_unknown

datatype failed = Not_now | Choice_unavailable | Provider_failed failure
datatype done_note = Cancelled_before_start | Interrupted | Turn_failed failure

datatype stage =
    Cannot_run | Version_refused | Cannot_start | No_pipes | Not_initialized | Odd_initialization | Closed_early | No_configuration
  | Unsafe_configuration | No_mcp_list | Mcp_active | No_account | Conversation_broken | Exit_unconfirmed

datatype event =
    Login_required | Logged_out | Login_url string | Ready string string | Text_event nat string
  | Blocked nat | Done nat "done_note option" | Failed "nat option" failed
  | Models "model_option list" model_choice | Closed "stage option"

text \<open>
  What is written to a process: requests with their number, denials, the notice after \<open>initialize\<close>. The log
  has also where a process was started: what follows is written to that one.
\<close>

record process =
  ps_version :: "string option"
  ps_spawned :: bool
  ps_piped :: bool
  ps_frames :: "json option list"

datatype written = Request nat string json | Denial json | Initialized | Started process

record provider =
  pr_frames :: "json option list"
  pr_running :: bool
  pr_next_id :: nat
  pr_written :: "written list"
  pr_events :: "event list"
  pr_faults :: "bool list"
  pr_processes :: "process list"

type_synonym ('z, 'a) rpc = "('z provider_scheme, unit, 'a) action"

definition pr_call :: "('z, unit) rpc" where
  "pr_call s = (case pr_faults s of
     [] \<Rightarrow> (Inr (), s)
   | f # fs \<Rightarrow> (if f then Inl () else Inr (), s\<lparr>pr_faults := fs\<rparr>))"

definition rpc_write :: "written \<Rightarrow> ('z, unit) rpc" where
  "rpc_write w = sbind pr_call (\<lambda>_ s. (Inr (), s\<lparr>pr_written := pr_written s @ [w]\<rparr>))"

definition emit :: "event \<Rightarrow> ('z, unit) rpc" where
  "emit e = sbind pr_call (\<lambda>_ s. (Inr (), s\<lparr>pr_events := pr_events s @ [e]\<rparr>))"

definition rpc_close :: "('z, unit) rpc" where
  "rpc_close s = (if pr_running s then pr_call (s\<lparr>pr_running := False\<rparr>) else (Inr (), s))"

definition rpc_methods :: "string list" where
  "rpc_methods =
     [''initialize'', ''account/read'', ''account/login/start'', ''account/login/cancel'', ''account/logout'',
      ''config/read'', ''model/list'', ''mcpServerStatus/list'', ''thread/start'', ''thread/unsubscribe'',
      ''turn/start'', ''turn/interrupt'']"

definition rpc_send :: "string \<Rightarrow> json \<Rightarrow> ('z, nat) rpc" where
  "rpc_send m params s =
     (if m \<notin> set rpc_methods then (Inl (), s)
      else let n = pr_next_id s + 1 in
        sbind (rpc_write (Request n m params)) (\<lambda>_. spure (Inr n)) (s\<lparr>pr_next_id := n\<rparr>))"

definition rpc_deny :: "json \<Rightarrow> ('z, unit) rpc" where
  "rpc_deny msg = rpc_write (Denial (jidx msg ''id''))"

definition rpc_read :: "('z, json) rpc" where
  "rpc_read s = (case pr_frames s of
     [] \<Rightarrow> (Inl (), s)
   | f # fs \<Rightarrow> (ok_or f (), s\<lparr>pr_frames := fs\<rparr>))"

text \<open>\<open>request\<close> reads up to its reply; it drops notifications and denies requests.\<close>

fun await_reply :: "nat \<Rightarrow> json option list \<Rightarrow> ('z, json) rpc" where
  "await_reply n [] s = (Inl (), s\<lparr>pr_frames := []\<rparr>)"
| "await_reply n (None # fs) s = (Inl (), s\<lparr>pr_frames := fs\<rparr>)"
| "await_reply n (Some msg # fs) s =
     (if as_u64 (jidx msg ''id'') = Some n then (ok_or (jget msg ''result'') (), s\<lparr>pr_frames := fs\<rparr>)
      else if jget msg ''id'' \<noteq> None then sbind (rpc_deny msg) (\<lambda>_. await_reply n fs) (s\<lparr>pr_frames := fs\<rparr>)
      else await_reply n fs s)"

definition rpc_request :: "string \<Rightarrow> json \<Rightarrow> ('z, json) rpc" where
  "rpc_request m params = sbind (rpc_send m params) (\<lambda>n s. await_reply n (pr_frames s) s)"

subsection \<open>The isolated start\<close>

record bridge_env =
  en_package :: string
  en_workdir :: string
  en_catalog :: json
  en_own_catalog :: "string \<Rightarrow> bool"

definition disabled_features :: "string list" where
  "disabled_features =
     [''shell_tool'', ''unified_exec'', ''view_image'', ''apps'', ''plugins'', ''hooks'', ''memories'', ''multi_agent'',
      ''code_mode_host'', ''browser_use'', ''computer_use'', ''image_generation'', ''skill_mcp_dependency_install'',
      ''skill_search'', ''tool_suggest'', ''remote_plugin'', ''recommended_plugins'', ''workspace_dependencies'',
      ''daemon_auto_start'']"

definition safe_config :: "bridge_env \<Rightarrow> json \<Rightarrow> bool" where
  "safe_config env config \<longleftrightarrow>
     jidx config ''forced_login_method'' = JStr ''chatgpt''
     \<and> jidx config ''cli_auth_credentials_store'' = JStr ''keyring''
     \<and> jidx config ''approval_policy'' = JStr ''never''
     \<and> jidx config ''sandbox_mode'' = JStr ''read-only''
     \<and> jidx config ''web_search'' = JStr ''disabled''
     \<and> jidx (jidx config ''history'') ''persistence'' = JStr ''none''
     \<and> (case as_str (jidx config ''model_catalog_json'') of None \<Rightarrow> False | Some path \<Rightarrow> en_own_catalog env path)
     \<and> list_all (\<lambda>feature. jidx (jidx config ''features'') feature = JBool False) disabled_features
     \<and> jidx (jidx config ''features'') ''skip_host_skill_discovery'' = JBool True
     \<and> as_u64 (jidx config ''project_doc_max_bytes'') = Some 0
     \<and> jidx config ''include_environment_context'' = JBool False
     \<and> jidx config ''notify'' = JArr []
     \<and> (case jget config ''mcp_servers'' of None \<Rightarrow> True | Some servers \<Rightarrow> servers = JNull \<or> servers = JObj [])"

text \<open>
  The version is asked for first (\<open>None\<close>: no answer, or a failure), and only then is the server started,
  which may fail, or start without its pipes.
\<close>

definition launch :: "('z provider_scheme, stage, string) action" where
  "launch s = (case pr_processes s of
     [] \<Rightarrow> (Inl Cannot_run, s)
   | p # ps \<Rightarrow> let s = s\<lparr>pr_processes := ps\<rparr> in
       case ps_version p of
         None \<Rightarrow> (Inl Version_refused, s)
       | Some out \<Rightarrow>
           let reported = trim out; name = ''codex-cli '';
               found = (if starts_with name reported then drop (length name) reported else []) in
           if \<not> accepted_version found then (Inl Version_refused, s)
           else if \<not> ps_spawned p then (Inl Cannot_start, s)
           else if \<not> ps_piped p then (Inl No_pipes, s)
           else (Inr found, s\<lparr>pr_frames := ps_frames p, pr_running := True, pr_next_id := 0,
             pr_written := pr_written s @ [Started p]\<rparr>))"

definition at_stage :: "stage \<Rightarrow> ('z, 'a) rpc \<Rightarrow> ('z provider_scheme, stage, 'a) action" where
  "at_stage e m = smap_error (\<lambda>_. e) m"

definition initialize_params :: "bridge_env \<Rightarrow> json" where
  "initialize_params env =
     JObj [(''capabilities'', JObj [(''experimentalApi'', JBool False)]),
           (''clientInfo'', JObj [(''name'', JStr ''netlane''), (''version'', JStr (en_package env))])]"

definition handshake :: "bridge_env \<Rightarrow> ('z provider_scheme, stage, json) action" where
  "handshake env =
     sbind (at_stage Not_initialized (rpc_request ''initialize'' (initialize_params env))) (\<lambda>init.
     sbind (spure (ensure (is_object init) Odd_initialization)) (\<lambda>_.
     sbind (at_stage Closed_early (rpc_write Initialized)) (\<lambda>_.
     sbind (at_stage No_configuration (rpc_request ''config/read'' (JObj [(''includeLayers'', JBool False)]))) (\<lambda>config.
     sbind (spure (ensure (safe_config env (jidx config ''config'')) Unsafe_configuration)) (\<lambda>_.
     sbind (at_stage No_mcp_list (rpc_request ''mcpServerStatus/list'' (JObj [(''limit'', JNum ''100'')]))) (\<lambda>mcp.
     sbind (spure (ensure (jidx mcp ''data'' = JArr [] \<and>
         (case jget mcp ''nextCursor'' of None \<Rightarrow> True | Some cursor \<Rightarrow> cursor = JNull)) Mcp_active)) (\<lambda>_.
       at_stage No_account (rpc_request ''account/read'' (JObj [(''refreshToken'', JBool False)])))))))))"

definition bootstrap :: "bridge_env \<Rightarrow> ('z provider_scheme, stage, json \<times> string) action" where
  "bootstrap env =
     sbind launch (\<lambda>version s.
       case handshake env s of
         (Inr account, s') \<Rightarrow> (Inr (account, version), s')
       | (Inl e, s') \<Rightarrow> (Inl e, snd (rpc_close s')))"

text \<open>\<open>logout\<close>: only a fresh process without an account ends it well.\<close>

definition no_account :: "json \<Rightarrow> bool" where
  "no_account reply \<longleftrightarrow> jget reply ''account'' = Some JNull"

definition logout :: "bridge_env \<Rightarrow> ('z, unit) rpc" where
  "logout env =
     sbind (rpc_request ''account/logout'' (JObj [])) (\<lambda>_.
     sbind (rpc_request ''account/read'' (JObj [(''refreshToken'', JBool False)])) (\<lambda>account.
     sbind (spure (ensure (no_account account) ())) (\<lambda>_.
     sbind rpc_close (\<lambda>_.
     sbind (smap_error (\<lambda>_. ()) (bootstrap env)) (\<lambda>(account, _).
       spure (ensure (no_account account) ()))))))"

end
