(* ===== verification/Bridge_Asks.thy ===== *)
theory Bridge_Asks
  imports Bridge
begin

text \<open>
  What the bridge may ever write to the provider's process, and what the process must have confirmed before a
  conversation starts.
\<close>

subsection \<open>Calls\<close>

lemma sbind_snd:
  assumes "Q (snd (m s))" "\<And>x s'. m s = (Inr x, s') \<Longrightarrow> Q (snd (f x s'))"
  shows "Q (snd (sbind m f s))"
  using assms by (auto simp: sbind_def split: prod.split sum.split)

lemma snd_smap_error [simp]: "snd (smap_error g m s) = snd (m s)"
  by (simp add: smap_error_def split: prod.split sum.split)

subsection \<open>What may be written\<close>

text \<open>A request that may be written: a listed method, and threads and turns only without powers.\<close>

definition permitted :: "written \<Rightarrow> bool" where
  "permitted w \<longleftrightarrow> (case w of
     Request n m params \<Rightarrow> m \<in> set rpc_methods
       \<and> (if m = ''thread/start'' then jidx params ''sandbox'' = JStr ''read-only'' \<and> jidx params ''ephemeral'' = JBool True
            \<and> jidx params ''approvalPolicy'' = JStr ''never'' \<and> jidx params ''baseInstructions'' = JStr system_prompt
          else if m = ''turn/start'' then jidx params ''approvalPolicy'' = JStr ''never''
          else True)
   | _ \<Rightarrow> True)"

text \<open>A request that starts no conversation.\<close>

definition preliminary :: "written \<Rightarrow> bool" where
  "preliminary w \<longleftrightarrow> (case w of Request n m params \<Rightarrow> m \<notin> {''thread/start'', ''turn/start''} | _ \<Rightarrow> True)"

text \<open>
  A process has confirmed its isolation when, among what it sends, there are the answer with a safe
  configuration and the answer with an empty list of MCP servers that is not continued, and its version is an accepted one.
\<close>

definition answered_with :: "process \<Rightarrow> (json \<Rightarrow> bool) \<Rightarrow> bool" where
  "answered_with p P \<longleftrightarrow> list_ex (\<lambda>frame. case frame of None \<Rightarrow> False
     | Some msg \<Rightarrow> (case jget msg ''result'' of None \<Rightarrow> False | Some x \<Rightarrow> P x)) (ps_frames p)"

definition no_servers :: "json \<Rightarrow> bool" where
  "no_servers reply \<longleftrightarrow> jidx reply ''data'' = JArr []
     \<and> (case jget reply ''nextCursor'' of None \<Rightarrow> True | Some cursor \<Rightarrow> cursor = JNull)"

definition confirmed_isolation :: "bridge_env \<Rightarrow> process \<Rightarrow> bool" where
  "confirmed_isolation env p \<longleftrightarrow>
     (case ps_version p of None \<Rightarrow> False
      | Some out \<Rightarrow> starts_with ''codex-cli '' (trim out) \<and> accepted_version (drop (length ''codex-cli '') (trim out)))
     \<and> answered_with p (\<lambda>x. safe_config env (jidx x ''config''))
     \<and> answered_with p no_servers"

text \<open>
  Every conversation is started at, and every turn asked of, a process that has confirmed its isolation: the
  log is read with the process that is in use, which is the last one that was started.
\<close>

definition confirmed :: "bridge_env \<Rightarrow> process option \<Rightarrow> bool" where
  "confirmed env p \<longleftrightarrow> (case p of None \<Rightarrow> False | Some p \<Rightarrow> confirmed_isolation env p)"

fun in_use :: "process option \<Rightarrow> written \<Rightarrow> process option" where
  "in_use p (Started q) = Some q"
| "in_use p _ = p"

fun isolated :: "bridge_env \<Rightarrow> process option \<Rightarrow> written list \<Rightarrow> bool" where
  "isolated env p [] \<longleftrightarrow> True"
| "isolated env p (w # ws) \<longleftrightarrow> (preliminary w \<or> confirmed env p) \<and> isolated env (in_use p w) ws"

lemma isolated_append: "isolated env p (ws @ vs) \<longleftrightarrow> isolated env p ws \<and> isolated env (foldl in_use p ws) vs"
  by (induction ws arbitrary: p) simp_all

text \<open>A log in order, and one in order whose process may be asked.\<close>

definition shielded :: "bridge_env \<Rightarrow> written list \<Rightarrow> bool" where
  "shielded env ws \<longleftrightarrow> list_all permitted ws \<and> isolated env None ws"

definition armed :: "bridge_env \<Rightarrow> written list \<Rightarrow> bool" where
  "armed env ws \<longleftrightarrow> shielded env ws \<and> confirmed env (foldl in_use None ws)"

definition askable :: "written \<Rightarrow> bool" where
  "askable w \<longleftrightarrow> permitted w \<and> (case w of Started p \<Rightarrow> False | _ \<Rightarrow> True)"

lemma in_use_askable: "askable w \<Longrightarrow> in_use p w = p"
  by (cases w) (simp_all add: askable_def)

lemma shielded_snoc:
  "shielded env (ws @ [w]) \<longleftrightarrow> shielded env ws \<and> permitted w \<and> (preliminary w \<or> confirmed env (foldl in_use None ws))"
  by (auto simp: shielded_def isolated_append)

lemma askable_plain:
  "m \<in> set rpc_methods \<Longrightarrow> m \<noteq> ''thread/start'' \<Longrightarrow> m \<noteq> ''turn/start'' \<Longrightarrow> askable (Request n m p)"
  by (simp add: askable_def permitted_def)

subsection \<open>Calls\<close>

lemma pr_call_fields:
  "pr_frames (snd (pr_call s)) = pr_frames s" "pr_running (snd (pr_call s)) = pr_running s"
  "pr_next_id (snd (pr_call s)) = pr_next_id s" "pr_written (snd (pr_call s)) = pr_written s"
  "pr_events (snd (pr_call s)) = pr_events s" "pr_processes (snd (pr_call s)) = pr_processes s"
  "provider.more (snd (pr_call s)) = provider.more s"
  by (simp_all add: pr_call_def split: list.split)

lemma pr_written_close [simp]: "pr_written (snd (rpc_close s)) = pr_written s"
  by (simp add: rpc_close_def pr_call_fields)

text \<open>
  A predicate on the log that is kept by whatever is \<open>ok\<close> is kept by every call that only writes that; with
  the requests of the start it is kept by a handshake.
\<close>

locale log_invariant =
  fixes inv :: "written list \<Rightarrow> bool" and ok :: "written \<Rightarrow> bool"
  assumes extend: "inv ws \<Longrightarrow> ok w \<Longrightarrow> inv (ws @ [w])"
    and denial: "ok (Denial n)"
begin

lemma all_sbind:
  "inv (pr_written s) \<Longrightarrow> (inv (pr_written s) \<Longrightarrow> inv (pr_written (snd (m s)))) \<Longrightarrow>
     (\<And>x s'. inv (pr_written s') \<Longrightarrow> inv (pr_written (snd (f x s')))) \<Longrightarrow>
     inv (pr_written (snd (sbind m f s)))"
  by (rule sbind_snd [where Q = "\<lambda>s. inv (pr_written s)"]) (metis snd_conv)+

lemma all_spure: "inv (pr_written s) \<Longrightarrow> inv (pr_written (snd (spure r s)))"
  by simp

lemma all_smap:
  "inv (pr_written (snd (m s))) \<Longrightarrow> inv (pr_written (snd (smap_error g m s)))"
  "inv (pr_written (snd (m s))) \<Longrightarrow> inv (pr_written (snd (at_stage e m s)))"
  by (simp_all add: at_stage_def)

lemma all_write: "inv (pr_written s) \<Longrightarrow> ok w \<Longrightarrow> inv (pr_written (snd (rpc_write w s)))"
  unfolding rpc_write_def
  by (rule sbind_snd [where Q = "\<lambda>s. inv (pr_written s)"])
    (auto simp: pr_call_def extend split: list.splits if_splits)

lemma all_emit: "inv (pr_written s) \<Longrightarrow> inv (pr_written (snd (emit e s)))"
  unfolding emit_def
  by (rule sbind_snd [where Q = "\<lambda>s. inv (pr_written s)"]) (auto simp: pr_call_def split: list.splits if_splits)

lemma all_close: "inv (pr_written s) \<Longrightarrow> inv (pr_written (snd (rpc_close s)))"
  by simp

lemma all_send:
  assumes "inv (pr_written s)" "\<And>n. m \<in> set rpc_methods \<Longrightarrow> ok (Request n m p)"
  shows "inv (pr_written (snd (rpc_send m p s)))"
  unfolding rpc_send_def Let_def using assms by (auto intro!: all_sbind all_write)

lemma all_deny: "inv (pr_written s) \<Longrightarrow> inv (pr_written (snd (rpc_deny msg s)))"
  unfolding rpc_deny_def by (rule all_write) (simp_all add: denial)

lemma all_read: "inv (pr_written s) \<Longrightarrow> inv (pr_written (snd (rpc_read s)))"
  by (simp add: rpc_read_def split: list.split)

lemma all_await: "inv (pr_written s) \<Longrightarrow> inv (pr_written (snd (await_reply n fs s)))"
  by (induction n fs s rule: await_reply.induct) (auto intro!: all_sbind all_deny)

lemma all_request:
  assumes "inv (pr_written s)" "\<And>n. m \<in> set rpc_methods \<Longrightarrow> ok (Request n m p)"
  shows "inv (pr_written (snd (rpc_request m p s)))"
  unfolding rpc_request_def by (intro all_sbind all_send all_await assms)

end

locale start_log = log_invariant +
  assumes start_requests: "m \<in> {''initialize'', ''config/read'', ''mcpServerStatus/list'', ''account/read''} \<Longrightarrow> ok (Request n m p)"
    and initialized: "ok Initialized"
begin

lemma all_handshake: "inv (pr_written s) \<Longrightarrow> inv (pr_written (snd (handshake env s)))"
  unfolding handshake_def
  by (intro all_sbind all_smap all_request all_spure all_write initialized start_requests) simp_all

end

interpretation asked: log_invariant "armed env" askable for env
  by unfold_locales
    (auto simp: armed_def shielded_snoc in_use_askable, auto simp: askable_def permitted_def)

interpretation starting: start_log "\<lambda>ws. shielded env ws \<and> foldl in_use None ws = Some p" "\<lambda>w. askable w \<and> preliminary w" for env p
  by unfold_locales
    (auto simp: shielded_snoc in_use_askable, auto simp: askable_def permitted_def preliminary_def rpc_methods_def)

abbreviation asks :: "bridge_env \<Rightarrow> 'z provider_scheme \<Rightarrow> bool" where
  "asks env s \<equiv> armed env (pr_written s)"

named_theorems asks_intros "operations after which the process may still be asked"

lemmas asks_calls [asks_intros] =
  asked.all_sbind asked.all_spure asked.all_smap asked.all_emit asked.all_close asked.all_deny asked.all_read

lemmas plain_request = asked.all_request [OF _ askable_plain] and plain_send = asked.all_send [OF _ askable_plain]

subsection \<open>Steps\<close>

lemma asks_update [asks_intros]: "(\<And>s. pr_written (g s) = pr_written s) \<Longrightarrow> asks env s \<Longrightarrow> asks env (snd (update g s))"
  by (simp add: update_def)

lemma asks_begin_turn [asks_intros]: "asks env s \<Longrightarrow> asks env (snd (begin_turn thread c text choice s))"
  unfolding begin_turn_def
  by (intro asked.all_sbind asked.all_send asks_update) (simp_all add: askable_def permitted_def rpc_methods_def turn_params_def)

lemma asks_interrupt [asks_intros]: "asks env s \<Longrightarrow> asks env (snd (interrupt thread turn s))"
  unfolding interrupt_def
  by (cases turn) (auto intro!: asked.all_sbind plain_send simp: rpc_methods_def)

lemma asks_login_cancel [asks_intros]: "asks env s \<Longrightarrow> asks env (snd (login_cancel n s))"
  unfolding login_cancel_def by (intro asked.all_sbind plain_request asked.all_spure) (simp_all add: rpc_methods_def)

lemma asks_cancel_login [asks_intros]: "asks env s \<Longrightarrow> asks env (snd (on_cancel_login s))"
  unfolding on_cancel_login_def
  by (auto split: option.split intro!: asked.all_sbind asks_login_cancel asked.all_emit)

lemma asks_on_login [asks_intros]: "asks env s \<Longrightarrow> asks env (snd (on_login s))"
  unfolding on_login_def
  by (auto split: option.split intro!: asked.all_sbind plain_request asks_update asked.all_emit asked.all_spure simp: rpc_methods_def)

lemma asks_on_prompt [asks_intros]: "asks env s \<Longrightarrow> asks env (snd (on_prompt env c text choice s))"
  unfolding on_prompt_def
  by (auto split: option.split intro!: asked.all_sbind asks_begin_turn asked.all_send asks_update asked.all_emit
      simp: askable_def permitted_def rpc_methods_def thread_params_def)

lemma asks_emit_models [asks_intros]: "asks env s \<Longrightarrow> asks env (snd (emit_models s))"
  unfolding emit_models_def by (auto intro!: asked.all_emit)

lemma asks_on_reset [asks_intros]: "asks env s \<Longrightarrow> asks env (snd (on_reset c s))"
  unfolding on_reset_def
  by (auto split: option.split intro!: asked.all_sbind plain_send asks_update simp: rpc_methods_def)

lemma asks_cancel_each [asks_intros]: "asks env s \<Longrightarrow> asks env (snd (cancel_each c xs s))"
  by (induction c xs arbitrary: s rule: cancel_each.induct) (auto intro!: asked.all_sbind asks_update asks_interrupt)

lemma asks_on_cancel [asks_intros]: "asks env s \<Longrightarrow> asks env (snd (on_cancel c s))"
  unfolding on_cancel_def by (intro asks_cancel_each) simp

lemma asks_thread_started [asks_intros]: "asks env s \<Longrightarrow> asks env (snd (thread_started c text choice result s))"
  unfolding thread_started_def
  by (auto intro!: asked.all_sbind asked.all_spure asks_update asks_begin_turn asked.all_emit)

lemma asks_turn_answered [asks_intros]: "asks env s \<Longrightarrow> asks env (snd (turn_answered c result s))"
  unfolding turn_answered_def by (auto split: option.split intro!: asks_interrupt)

lemma asks_on_reply [asks_intros]: "asks env s \<Longrightarrow> asks env (snd (on_reply n msg s))"
  unfolding on_reply_def Let_def
  by (auto split: option.split pending.split intro!: asked.all_emit asks_thread_started asks_turn_answered)

lemma asks_agent_ready [asks_intros]: "asks env s \<Longrightarrow> asks env (snd (agent_ready env version s))"
  unfolding agent_ready_def by (rule asked.all_emit)

lemma asks_login_completed [asks_intros]: "asks env s \<Longrightarrow> asks env (snd (login_completed env version params s))"
  unfolding login_completed_def
  by (auto split: option.split intro!: asked.all_sbind plain_request asks_update asks_agent_ready asks_emit_models
      simp: rpc_methods_def)

lemma asks_turn_note [asks_intros]: "asks env s \<Longrightarrow> asks env (snd (turn_note method thread params a s))"
  unfolding turn_note_def Let_def
  by (simp add: asked.all_sbind asked.all_emit split: option.split)

lemma asks_on_notice [asks_intros]: "asks env s \<Longrightarrow> asks env (snd (on_notice env version msg s))"
  unfolding on_notice_def Let_def
  by (auto split: option.split intro!: asks_login_completed asks_turn_note)

lemma asks_on_frame [asks_intros]: "asks env s \<Longrightarrow> asks env (snd (on_frame env version s))"
  unfolding on_frame_def
  by (auto split: option.split intro!: asked.all_sbind asked.all_read asked.all_deny asks_on_reply asks_on_notice)

lemma asks_on_tick [asks_intros]: "asks env s \<Longrightarrow> asks env (snd (on_tick s))"
  unfolding on_tick_def by (auto intro!: asked.all_sbind asks_cancel_login)

subsection \<open>What a start has confirmed\<close>

lemma await_reply_Inr:
  assumes "await_reply n fs s = (Inr x, s')"
  shows "\<exists>msg. Some msg \<in> set fs \<and> jget msg ''result'' = Some x \<and> as_u64 (jidx msg ''id'') = Some n"
    and "set (pr_frames s') \<subseteq> set fs"
proof -
  have "(\<exists>msg. Some msg \<in> set fs \<and> jget msg ''result'' = Some x \<and> as_u64 (jidx msg ''id'') = Some n) \<and>
      set (pr_frames s') \<subseteq> set fs"
    using assms by (induction n fs s rule: await_reply.induct) (auto simp: result_simps split: if_splits)
  then show "\<exists>msg. Some msg \<in> set fs \<and> jget msg ''result'' = Some x \<and> as_u64 (jidx msg ''id'') = Some n"
    "set (pr_frames s') \<subseteq> set fs"
    by blast+
qed

lemma rpc_write_Inr: "rpc_write w s = (Inr x, s') \<Longrightarrow> pr_frames s' = pr_frames s \<and> provider.more s' = provider.more s"
  by (auto simp: rpc_write_def result_simps pr_call_def split: list.splits if_splits)

lemma rpc_send_Inr: "rpc_send m p s = (Inr n, s') \<Longrightarrow> pr_frames s' = pr_frames s \<and> provider.more s' = provider.more s"
  by (auto simp: rpc_send_def Let_def result_simps dest!: rpc_write_Inr split: if_splits)

lemma rpc_request_Inr:
  assumes "rpc_request m p s = (Inr x, s')"
  shows "\<exists>msg. Some msg \<in> set (pr_frames s) \<and> jget msg ''result'' = Some x" "set (pr_frames s') \<subseteq> set (pr_frames s)"
proof -
  obtain n s1 where 1: "rpc_send m p s = (Inr n, s1)" and 2: "await_reply n (pr_frames s1) s1 = (Inr x, s')"
    using assms by (auto simp: rpc_request_def result_simps)
  have "pr_frames s1 = pr_frames s" using rpc_send_Inr [OF 1] by simp
  with await_reply_Inr [OF 2] show "\<exists>msg. Some msg \<in> set (pr_frames s) \<and> jget msg ''result'' = Some x"
    "set (pr_frames s') \<subseteq> set (pr_frames s)" by auto
qed

lemma answeredI: "Some msg \<in> set (ps_frames p) \<Longrightarrow> jget msg ''result'' = Some x \<Longrightarrow> P x \<Longrightarrow> answered_with p P"
  by (force simp: answered_with_def list_ex_iff)

lemma smap_error_Inr: "smap_error g m s = (Inr x, t) \<longleftrightarrow> m s = (Inr x, t)"
  by (auto simp: smap_error_def split: prod.split sum.split)

lemma handshake_Inr:
  assumes "handshake env s = (Inr account, s')"
  shows "\<exists>x y m n. Some m \<in> set (pr_frames s) \<and> jget m ''result'' = Some x \<and> safe_config env (jidx x ''config'') \<and>
    Some n \<in> set (pr_frames s) \<and> jget n ''result'' = Some y \<and> no_servers y"
proof -
  obtain s1 s2 s3 s4 init x y where
      1: "rpc_request ''initialize'' (initialize_params env) s = (Inr init, s1)"
      and 2: "rpc_write Initialized s1 = (Inr (), s2)"
      and 3: "rpc_request ''config/read'' (JObj [(''includeLayers'', JBool False)]) s2 = (Inr x, s3)"
      and 4: "rpc_request ''mcpServerStatus/list'' (JObj [(''limit'', JNum ''100'')]) s3 = (Inr y, s4)"
      and c: "safe_config env (jidx x ''config'')" "no_servers y"
    using assms unfolding handshake_def at_stage_def
    by (auto simp: smap_error_Inr result_simps no_servers_def)
  have sub: "set (pr_frames s2) \<subseteq> set (pr_frames s)" "set (pr_frames s3) \<subseteq> set (pr_frames s)"
    using rpc_request_Inr(2) [OF 1] rpc_write_Inr [OF 2] rpc_request_Inr(2) [OF 3] by auto
  then show ?thesis
    using rpc_request_Inr(1) [OF 3] rpc_request_Inr(1) [OF 4] c by blast
qed

lemma launch_Inr:
  assumes "launch s = (Inr version, s')"
  obtains p ps out where "pr_processes s = p # ps" "pr_frames s' = ps_frames p" "ps_version p = Some out"
    "starts_with ''codex-cli '' (trim out)" "accepted_version (drop (length ''codex-cli '') (trim out))"
    "pr_written s' = pr_written s @ [Started p]"
proof -
  have "\<not> accepted_version []" by (simp add: accepted_version_def validated_version_def codex_version_def rsplit_dot_def)
  then show ?thesis
    using assms that by (auto simp: launch_def Let_def split: list.splits option.splits if_splits)
qed

subsection \<open>The process in use\<close>

text \<open>
  The outcome of an operation: the log is in order, and unless the operation failed the process in use may be
  asked. A logout that fails leaves a process that has confirmed nothing, and ends the conversation.
\<close>

definition good :: "bridge_env \<Rightarrow> ('e + 'a) \<times> 'z provider_scheme \<Rightarrow> bool" where
  "good env rs \<longleftrightarrow> shielded env (pr_written (snd rs)) \<and> (is_ok (fst rs) \<longrightarrow> asks env (snd rs))"

named_theorems good_intros "outcomes that are good"

lemma goodI: "asks env (snd rs) \<Longrightarrow> good env rs"
  by (simp add: good_def armed_def)

lemma good_sbind [good_intros]:
  assumes "good env (m s)" "\<And>x s'. asks env s' \<Longrightarrow> good env (f x s')"
  shows "good env (sbind m f s)"
  using assms by (cases "m s"; cases "fst (m s)") (auto simp: sbind_def good_def is_ok_def)

lemma good_smap [good_intros]: "good env (m s) \<Longrightarrow> good env (smap_error g m s)"
  by (cases "m s"; cases "fst (m s)") (auto simp: smap_error_def good_def is_ok_def)

lemma good_spure [good_intros]: "asks env s \<Longrightarrow> good env (spure r s)"
  by (simp add: goodI)

lemma good_steps [good_intros]:
  "asks env s \<Longrightarrow> good env (r, s)" "asks env s \<Longrightarrow> good env (emit e s)" "asks env s \<Longrightarrow> good env (rpc_close s)"
  by (auto intro!: goodI asked.all_emit)

lemma good_bridge_steps [good_intros]:
  "asks env s \<Longrightarrow> good env (login_cancel n s)"
  "(\<And>s. pr_written (g s) = pr_written s) \<Longrightarrow> asks env s \<Longrightarrow> good env (update g s)"
  by (auto intro!: goodI asks_login_cancel asks_update)

lemma good_request [good_intros]:
  "asks env s \<Longrightarrow> m \<in> set rpc_methods \<Longrightarrow> m \<noteq> ''thread/start'' \<Longrightarrow> m \<noteq> ''turn/start'' \<Longrightarrow> good env (rpc_request m p s)"
  by (intro goodI plain_request)

lemma launch_writes:
  "launch s = (Inl e, s') \<Longrightarrow> pr_written s' = pr_written s"
  by (auto simp: launch_def Let_def split: list.splits option.splits if_splits)

lemma good_bootstrap:
  assumes "shielded env (pr_written s)"
  shows "good env (bootstrap env s)"
proof -
  obtain v s1 where l: "launch s = (v, s1)" by force
  show ?thesis
  proof (cases v)
    case (Inl e)
    then show ?thesis using l launch_writes [of s e s1] assms by (simp add: bootstrap_def sbind_def good_def is_ok_def)
  next
    case (Inr version)
    obtain p ps out where p: "pr_frames s1 = ps_frames p" "ps_version p = Some out"
        "starts_with ''codex-cli '' (trim out)" "accepted_version (drop (length ''codex-cli '') (trim out))"
      and w: "pr_written s1 = pr_written s @ [Started p]"
      using launch_Inr [OF l [unfolded Inr]] by metis
    have s1: "shielded env (pr_written s1) \<and> foldl in_use None (pr_written s1) = Some p"
      using assms by (simp add: w shielded_snoc permitted_def preliminary_def)
    obtain r s2 where h: "handshake env s1 = (r, s2)" by force
    have s2: "shielded env (pr_written s2) \<and> foldl in_use None (pr_written s2) = Some p"
      using starting.all_handshake [OF s1, of env] by (simp add: h)
    show ?thesis
    proof (cases r)
      case (Inl e)
      then show ?thesis
        using l Inr h s2 by (simp add: bootstrap_def sbind_def good_def is_ok_def)
    next
      case r: (Inr account)
      obtain x y m n where "Some m \<in> set (ps_frames p)" "jget m ''result'' = Some x" "safe_config env (jidx x ''config'')"
          "Some n \<in> set (ps_frames p)" "jget n ''result'' = Some y" "no_servers y"
        using handshake_Inr [OF h [unfolded r]] p(1) by auto
      then have "answered_with p (\<lambda>x. safe_config env (jidx x ''config''))" "answered_with p no_servers"
        by (blast intro: answeredI)+
      then have "asks env s2"
        using s2 p(2-4) by (simp add: armed_def confirmed_def confirmed_isolation_def)
      then show ?thesis
        using l Inr h r by (simp add: bootstrap_def sbind_def goodI)
    qed
  qed
qed

lemma good_restart [good_intros]: "asks env s \<Longrightarrow> good env (bootstrap env s)"
  by (simp add: good_bootstrap armed_def)

lemma good_logout [good_intros]: "asks env s \<Longrightarrow> good env (logout env s)"
  unfolding logout_def
  by (intro good_intros; (simp add: rpc_methods_def)?) (auto intro!: good_intros)

lemma good_on_logout: "asks env s \<Longrightarrow> good env (on_logout env s)"
  unfolding on_logout_def
  by (auto split: option.split intro!: good_intros simp: forget_def)

lemma good_on_command:
  assumes "asks env s"
  shows "good env (on_command env c s)"
proof (cases c)
  case Logout
  then show ?thesis using assms by (simp add: good_on_logout)
qed (use assms in \<open>auto intro!: goodI asks_intros simp: on_set_model_def\<close>)

lemma good_serve_step: "asks env s \<Longrightarrow> good env (serve_step env version now r s)"
  using good_on_command [of env "s\<lparr>br_now := now\<rparr>"] goodI [OF asks_on_frame [where env = env and s = "s\<lparr>br_now := now\<rparr>"]]
    goodI [OF asks_on_tick [where env = env and s = "s\<lparr>br_now := now\<rparr>"]]
  by (cases r) (auto intro: good_intros)

lemma good_serve_loop: "asks env s \<Longrightarrow> good env (serve_loop env version script s)"
  by (induction env version script arbitrary: s rule: serve_loop.induct)
    (auto intro!: good_sbind good_serve_step good_steps(1))

lemma good_serve: "asks env s \<Longrightarrow> good env (serve_conversation env version account script s)"
  unfolding serve_conversation_def serve_begin_def
  by (intro good_sbind goodI asks_intros good_serve_loop) simp_all

lemma run_shielded:
  assumes "shielded env (pr_written s)"
  shows "shielded env (pr_written (snd (run env script s)))"
proof (cases "bootstrap env s")
  case (Pair r s1)
  note b = good_bootstrap [OF assms, unfolded Pair]
  show ?thesis
  proof (cases r)
    case (Inl e)
    then show ?thesis using b Pair by (simp add: run_def sbind_def good_def)
  next
    case (Inr x)
    obtain account version where x: "x = (account, version)" by (cases x)
    obtain q s2 where v: "serve_conversation env version account script s1 = (q, s2)"
      by (cases "serve_conversation env version account script s1")
    have "asks env s1" using b Inr by (simp add: good_def is_ok_def)
    from good_serve [OF this, of version account script]
    have "shielded env (pr_written s2)" by (simp add: good_def v)
    moreover have "pr_written (snd (sbind (at_stage Exit_unconfirmed rpc_close) (\<lambda>_. spure (Inr True)) s2)) = pr_written s2"
      using pr_written_close [of s2] by (cases "rpc_close s2"; cases "fst (rpc_close s2)") (auto simp: sbind_def at_stage_def smap_error_def)
    ultimately show ?thesis
      using Pair Inr v by (simp add: run_def sbind_Inr_simp x split: sum.split bool.split)
  qed
qed

end
