(* ===== verification/Bridge_Turns.thy ===== *)
theory Bridge_Turns
  imports Bridge_Asks
begin

text \<open>
  The books of the conversation loop: which requests and turns may be open together, as an invariant of the
  maps alone and then of every step of \<open>serve\<close>.
\<close>

subsection \<open>Maps\<close>

type_synonym requests = "(nat \<times> pending \<times> nat) list"
type_synonym turns = "(string \<times> active) list"

definition asking :: "requests \<Rightarrow> nat list" where
  "asking pend = map (\<lambda>e. pending_conversation (fst (snd e))) pend"

definition answering :: "turns \<Rightarrow> nat list" where
  "answering act = map (\<lambda>e. ac_conversation (snd e)) act"

fun is_thread :: "pending \<Rightarrow> bool" where
  "is_thread (Pending_thread c text choice) = True"
| "is_thread (Pending_turn c) = False"

definition active_ok :: "active \<Rightarrow> bool" where
  "active_ok a \<longleftrightarrow> ac_bytes a \<le> max_answer \<and> (case ac_turn a of None \<Rightarrow> True | Some t \<Rightarrow> t \<noteq> [] \<and> length t \<le> 128)"

text \<open>
  \<open>n\<close> is the last number used for a request. A conversation has at most one open request and at most one
  turn, none while its thread is started; a turn runs in the thread of its conversation; at most eight
  conversations are open.
\<close>

definition turns_ok :: "nat \<Rightarrow> (nat \<times> string) list \<Rightarrow> requests \<Rightarrow> turns \<Rightarrow> bool" where
  "turns_ok n ids pend act \<longleftrightarrow>
     hm_ok ids \<and> hm_ok pend \<and> hm_ok act \<and> list_all (\<lambda>e. fst e \<le> n) pend
     \<and> distinct (asking pend) \<and> distinct (answering act)
     \<and> list_all (\<lambda>e. is_thread (fst (snd e)) \<longrightarrow> pending_conversation (fst (snd e)) \<notin> set (answering act)) pend
     \<and> list_all (\<lambda>e. map_of ids (ac_conversation (snd e)) = Some (fst e) \<and> active_ok (snd e)) act
     \<and> card (set (asking pend) \<union> set (answering act)) \<le> 8"

lemma asking_simps [simp]:
  "asking [] = []" "asking (e # pend) = pending_conversation (fst (snd e)) # asking pend"
  by (simp_all add: asking_def)

lemma answering_simps [simp]:
  "answering [] = []" "answering (e # act) = ac_conversation (snd e) # answering act"
  by (simp_all add: answering_def)

lemma pending_for_iff: "pending_for c s \<longleftrightarrow> c \<in> set (asking (br_pending s))"
  by (force simp: pending_for_def list_ex_iff asking_def)

lemma active_for_iff: "active_for c s \<longleftrightarrow> c \<in> set (answering (br_active s))"
  by (force simp: active_for_def list_ex_iff answering_def)

lemma distinct_map_filter_key:
  "distinct (map f l) \<Longrightarrow> map_of l k = Some v \<Longrightarrow> f (k, v) \<notin> f ` set (hm_remove k l)"
proof (induction l)
  case (Cons e l)
  have "f (k, v) \<in> f ` set l" if "map_of l k = Some v"
    using map_of_SomeD [OF that] by (rule imageI)
  with Cons show ?case by (cases e) (auto simp: hm_remove_def split: if_splits)
qed simp

lemma not_asking_removed:
  "distinct (asking pend) \<Longrightarrow> map_of pend k = Some (p, since) \<Longrightarrow> pending_conversation p \<notin> set (asking (hm_remove k pend))"
  using distinct_map_filter_key [of "\<lambda>e. pending_conversation (fst (snd e))" pend k "(p, since)"] by (simp add: asking_def)

lemma set_filter_maps:
  "set (asking (filter P pend)) \<subseteq> set (asking pend)" "set (answering (filter Q act)) \<subseteq> set (answering act)"
  "distinct (asking pend) \<Longrightarrow> distinct (asking (filter P pend))"
  "distinct (answering act) \<Longrightarrow> distinct (answering (filter Q act))"
  by (auto simp: asking_def answering_def distinct_map_filter)

lemma card_le: "finite B \<Longrightarrow> A \<subseteq> B \<Longrightarrow> card B \<le> k \<Longrightarrow> card A \<le> (k::nat)"
  using card_mono [of B A] by simp

lemma turns_ok_empty [simp]: "turns_ok n [] [] []"
  by (simp add: turns_ok_def)

lemma turns_ok_mono: "turns_ok n ids pend act \<Longrightarrow> n \<le> n' \<Longrightarrow> turns_ok n' ids pend act"
  by (auto simp: turns_ok_def list_all_iff)

lemma list_all_filter: "list_all R l \<Longrightarrow> list_all R (filter S l)"
  by (simp add: list_all_iff)

lemma turns_ok_filter:
  assumes "turns_ok n ids pend act"
  shows "turns_ok n ids (filter P pend) (filter Q act)"
proof -
  note sub = set_filter_maps(1) [of P pend] set_filter_maps(2) [of Q act]
  have "set (asking (filter P pend)) \<union> set (answering (filter Q act)) \<subseteq> set (asking pend) \<union> set (answering act)"
    using sub by blast
  then have "card (set (asking (filter P pend)) \<union> set (answering (filter Q act))) \<le> 8"
    by (rule card_le [rotated]) (use assms in \<open>simp_all add: turns_ok_def\<close>)
  moreover have "list_all (\<lambda>e. is_thread (fst (snd e)) \<longrightarrow> pending_conversation (fst (snd e)) \<notin> set (answering (filter Q act))) (filter P pend)"
    using assms subsetD [OF sub(2)] unfolding turns_ok_def list_all_iff set_filter by blast
  ultimately show ?thesis
    using assms unfolding turns_ok_def by (simp add: set_filter_maps list_all_filter)
qed

lemma filter_all: "filter (\<lambda>e. True) l = l"
  by simp

lemma turns_ok_remove:
  assumes "turns_ok n ids pend act"
  shows "turns_ok n ids (hm_remove k pend) act" "turns_ok n ids pend (hm_remove t act)" "turns_ok n ids pend (filter Q act)"
  using turns_ok_filter [OF assms, of "\<lambda>e. fst e \<noteq> k" "\<lambda>e. True"] turns_ok_filter [OF assms, of "\<lambda>e. True" "\<lambda>e. fst e \<noteq> t"]
    turns_ok_filter [OF assms, of "\<lambda>e. True" Q]
  by (simp_all add: hm_remove_def)

text \<open>A conversation that is not open gets a request, and a turn with it.\<close>

lemma turns_ok_request:
  assumes "turns_ok n ids pend act" "pending_conversation p \<notin> set (asking pend)" "pending_conversation p \<notin> set (answering act)"
    and "card (insert (pending_conversation p) (set (asking pend) \<union> set (answering act))) \<le> 8"
  shows "turns_ok (Suc n) ids (hm_put (Suc n) (p, since) pend) act"
proof -
  have k: "hm_remove (Suc n) pend = pend"
    using assms(1) by (auto simp: turns_ok_def hm_remove_def list_all_iff filter_id_conv)
  have put: "hm_put (Suc n) (p, since) pend = (Suc n, p, since) # pend"
    by (simp add: hm_put_def k)
  have "hm_ok (hm_put (Suc n) (p, since) pend)"
    using assms(1) by (simp add: turns_ok_def)
  moreover have "list_all (\<lambda>e. fst e \<le> Suc n) pend"
    using assms(1) by (auto simp: turns_ok_def list_all_iff le_SucI)
  moreover have "card (set (asking (hm_put (Suc n) (p, since) pend)) \<union> set (answering act)) \<le> 8"
    using assms(4) by (simp add: put)
  ultimately show ?thesis
    using assms(1-3) unfolding turns_ok_def put by simp
qed

lemma turns_ok_turn:
  assumes "turns_ok n ids pend act" "c \<notin> set (answering act)" "map_of ids c = Some thread"
    and "list_all (\<lambda>e. is_thread (fst (snd e)) \<longrightarrow> pending_conversation (fst (snd e)) \<noteq> c) pend"
    and "card (insert c (set (asking pend) \<union> set (answering act))) \<le> 8"
  shows "turns_ok n ids pend (hm_put thread (new_active c now) act)"
proof -
  have "set (answering (hm_remove thread act)) \<subseteq> set (answering act)" "distinct (answering (hm_remove thread act))"
    using assms(1) by (simp_all add: hm_remove_def set_filter_maps turns_ok_def)
  moreover from this(1) have "insert c (set (asking pend) \<union> set (answering (hm_remove thread act)))
      \<subseteq> insert c (set (asking pend) \<union> set (answering act))" by blast
  then have "card (insert c (set (asking pend) \<union> set (answering (hm_remove thread act)))) \<le> 8"
    by (rule card_le [rotated]) (use assms(5) in simp_all)
  moreover have "hm_ok (hm_put thread (new_active c now) act)"
    using assms(1) by (simp add: turns_ok_def)
  moreover have "list_all (\<lambda>e. map_of ids (ac_conversation (snd e)) = Some (fst e) \<and> active_ok (snd e))
      (hm_put thread (new_active c now) act)"
    using assms(1,3) by (auto simp: turns_ok_def hm_put_def list_all_iff new_active_def active_ok_def set_hm_remove)
  moreover have "list_all (\<lambda>e. is_thread (fst (snd e)) \<longrightarrow>
      pending_conversation (fst (snd e)) \<notin> set (answering (hm_put thread (new_active c now) act))) pend"
    using assms(1,4) calculation(1) by (auto simp: turns_ok_def hm_put_def list_all_iff new_active_def)
  moreover have "answering (hm_put thread (new_active c now) act) = c # answering (hm_remove thread act)"
    by (simp add: hm_put_def new_active_def)
  ultimately show ?thesis
    using assms(1,2) unfolding turns_ok_def by auto
qed

lemma turns_ok_set:
  assumes "turns_ok n ids pend act" "map_of act thread = Some a" "ac_conversation b = ac_conversation a" "active_ok b"
  shows "turns_ok n ids pend (hm_set thread b act)"
proof -
  have m: "(thread, a) \<in> set act" using assms(2) by (rule map_of_SomeD)
  have same: "answering (hm_set thread b act) = answering act"
    using assms(1) assms(2,3) unfolding answering_def hm_set_def map_map comp_def
    by (intro map_cong) (auto simp: turns_ok_def set_hm_ok)
  have "map_of ids (ac_conversation b) = Some thread"
    using assms(1,3) m by (auto simp: turns_ok_def list_all_iff)
  then have "list_all (\<lambda>e. map_of ids (ac_conversation (snd e)) = Some (fst e) \<and> active_ok (snd e)) (hm_set thread b act)"
    using assms(1,4) by (auto simp: turns_ok_def list_all_iff hm_set_def)
  then show ?thesis
    using assms(1) by (simp add: turns_ok_def same)
qed

lemma turns_ok_ids:
  assumes "turns_ok n ids pend act" "c \<notin> set (answering act)"
  shows "turns_ok n (hm_put c thread ids) pend act" "turns_ok n (hm_remove c ids) pend act"
proof -
  have "ac_conversation (snd e) \<noteq> c" if "e \<in> set act" for e
    using assms(2) that by (auto simp: answering_def)
  then show "turns_ok n (hm_put c thread ids) pend act" "turns_ok n (hm_remove c ids) pend act"
    using assms(1) by (auto simp: turns_ok_def list_all_iff)
qed

end
