(* ===== verification/Bridge_Demo.thy ===== *)
theory Bridge_Demo
  imports Bridge
begin

text \<open>A provider's process that confirms everything, and a conversation with it, by evaluation.\<close>

definition demo_catalog :: json where
  "demo_catalog = JObj [(''models'', JArr [JObj [(''slug'', JStr ''gpt-6.1-sol''), (''display_name'', JStr ''Sol''),
     (''supported_reasoning_levels'', JArr [JObj [(''effort'', JStr ''medium'')]])]])]"

definition bridge_env_demo :: bridge_env where
  "bridge_env_demo = \<lparr>en_package = ''1'', en_workdir = ''room'', en_catalog = demo_catalog, en_own_catalog = (\<lambda>p. p = ''own'')\<rparr>"

definition demo_reply :: "string \<Rightarrow> json \<Rightarrow> json option" where
  "demo_reply n result = Some (JObj [(''id'', JNum n), (''result'', result)])"

definition demo_config :: json where
  "demo_config = JObj [(''forced_login_method'', JStr ''chatgpt''), (''cli_auth_credentials_store'', JStr ''keyring''),
     (''approval_policy'', JStr ''never''), (''sandbox_mode'', JStr ''read-only''), (''web_search'', JStr ''disabled''),
     (''history'', JObj [(''persistence'', JStr ''none'')]), (''model_catalog_json'', JStr ''own''),
     (''features'', JObj ((''skip_host_skill_discovery'', JBool True) # map (\<lambda>f. (f, JBool False)) disabled_features)),
     (''project_doc_max_bytes'', JNum ''0''), (''include_environment_context'', JBool False), (''notify'', JArr [])]"

definition demo_frames :: "json option list" where
  "demo_frames = [demo_reply ''1'' (JObj []), demo_reply ''2'' (JObj [(''config'', demo_config)]),
     demo_reply ''3'' (JObj [(''data'', JArr [])]),
     demo_reply ''4'' (JObj [(''account'', JObj [(''type'', JStr ''chatgpt''), (''planType'', JStr ''plus'')])])]"

definition thread_reply :: "json option" where
  "thread_reply = demo_reply ''5'' (JObj [(''thread'', JObj [(''ephemeral'', JBool True), (''id'', JStr ''t'')])])"

definition turn_reply :: "json option" where
  "turn_reply = demo_reply ''6'' (JObj [(''turn'', JObj [(''id'', JStr ''u'')])])"

definition delta :: "string \<Rightarrow> string \<Rightarrow> json option" where
  "delta turn text = Some (JObj [(''method'', JStr ''item/agentMessage/delta''),
     (''params'', JObj [(''threadId'', JStr ''t''), (''turnId'', JStr turn), (''delta'', JStr text)])])"

definition completed :: "json option" where
  "completed = Some (JObj [(''method'', JStr ''turn/completed''),
     (''params'', JObj [(''threadId'', JStr ''t''), (''turn'', JObj [(''id'', JStr ''u''), (''status'', JStr ''ok'')])])])"

definition demo_process :: "json option list \<Rightarrow> process" where
  "demo_process frames = \<lparr>ps_version = Some ''codex-cli 0.162.0'', ps_spawned = True, ps_piped = True, ps_frames = demo_frames @ frames\<rparr>"

text \<open>A bridge before \<open>run\<close>; its fields other than the provider's are set by \<open>serve\<close>.\<close>

definition idle_bridge :: "process list \<Rightarrow> bridge" where
  "idle_bridge ps =
     \<lparr>pr_frames = [], pr_running = False, pr_next_id = 0, pr_written = [], pr_events = [], pr_faults = [],
      pr_processes = ps, br_now = 0, br_authenticated = False, br_plan = [], br_options = [],
      br_choice = default_choice, br_ids = [], br_pending = [], br_active = [], br_cancelled = [], br_login = None\<rparr>"

definition started :: "json option list \<Rightarrow> bridge" where
  "started fs = (idle_bridge [])\<lparr>pr_frames := fs, pr_running := True, pr_next_id := 4,
     pr_written := [Started (demo_process fs), Request 1 ''initialize'' (initialize_params bridge_env_demo), Initialized,
       Request 2 ''config/read'' (JObj [(''includeLayers'', JBool False)]),
       Request 3 ''mcpServerStatus/list'' (JObj [(''limit'', JNum ''100'')]),
       Request 4 ''account/read'' (JObj [(''refreshToken'', JBool False)])]\<rparr>"

definition demo_account :: json where
  "demo_account = JObj [(''account'', JObj [(''type'', JStr ''chatgpt''), (''planType'', JStr ''plus'')])]"

lemma demo_safe: "safe_config bridge_env_demo demo_config"
  by (simp add: safe_config_def demo_config_def bridge_env_demo_def disabled_features_def as_u64_def parse_digits_def is_ascii_digit_def code_def)

lemma demo_numbers: "as_u64 (JNum ''1'') = Some 1" "as_u64 (JNum ''2'') = Some 2" "as_u64 (JNum ''3'') = Some 3"
  "as_u64 (JNum ''4'') = Some 4" "as_u64 (JNum ''5'') = Some 5" "as_u64 (JNum ''6'') = Some 6"
  "as_u64 (JNum ''7'') = Some 7" "as_u64 (JNum ''8'') = Some 8"
  by (simp_all add: as_u64_def parse_digits_def is_ascii_digit_def code_def)

lemma demo_version: "trim ''codex-cli 0.162.0'' = ''codex-cli 0.162.0''"
  by (rule trim_same [OF refl]) (simp_all add: plain_def code_def)

lemma demo_launched: "launch (idle_bridge (demo_process fs # ps)) =
    (Inr ''0.162.0'', (idle_bridge ps)\<lparr>pr_frames := demo_frames @ fs, pr_running := True, pr_next_id := 0,
       pr_written := [Started (demo_process fs)]\<rparr>)"
  by (simp add: launch_def idle_bridge_def demo_process_def Let_def starts_with_def accepted_version_def
      validated_version_def codex_version_def demo_version)

lemma demo_booted: "bootstrap bridge_env_demo (idle_bridge (demo_process fs # ps)) =
    (Inr (demo_account, ''0.162.0''), (started fs)\<lparr>pr_processes := ps\<rparr>)"
  unfolding bootstrap_def sbind_def demo_launched
  by (simp add: handshake_def at_stage_def smap_error_def rpc_request_def rpc_send_def
      rpc_methods_def rpc_write_def pr_call_def idle_bridge_def started_def demo_frames_def demo_reply_def demo_numbers demo_safe
      sbind_def is_object_def demo_account_def)

lemma demo_booted_last: "bootstrap bridge_env_demo (idle_bridge [demo_process fs]) = (Inr (demo_account, ''0.162.0''), started fs)"
  by (simp add: demo_booted) (simp add: started_def idle_bridge_def)

lemmas provider_steps = rpc_request_def rpc_send_def rpc_methods_def rpc_write_def pr_call_def emit_def rpc_read_def
  sbind_def update_def rpc_deny_def

lemmas bridge_steps = provider_steps serve_conversation_def serve_begin_def agent_ready_def emit_models_def on_prompt_def
  begin_turn_def on_frame_def on_reply_def thread_started_def turn_answered_def bind_turn_def short_id_def on_notice_def
  turn_note_def matches_turn_def active_for_def pending_for_def interrupt_def on_cancel_def on_reset_def
  hm_put_def hm_remove_def hm_set_def new_active_def str_or_def Let_def

lemma demo_models: "catalog bridge_env_demo = [\<lparr>mo_id = ''gpt-6.1-sol'', mo_label = ''Sol'', mo_efforts = [''medium'']\<rparr>]"
  by (simp add: catalog_def bridge_env_demo_def demo_catalog_def model_of_json_def List.map_filter_simps)

lemma demo_resolve: "resolve (catalog bridge_env_demo) default_choice = default_choice"
  by (simp add: resolve_def chosen_model_def demo_models default_choice_def)

lemma demo_plan: "is_chatgpt demo_account" "plan_label demo_account = ''Plus''"
  by (simp_all add: is_chatgpt_def demo_account_def plan_label_def plan_names_def)

definition serving :: "json option list \<Rightarrow> bridge" where
  "serving fs = (started fs)\<lparr>br_authenticated := True, br_plan := ''Plus'', br_options := catalog bridge_env_demo,
     pr_events := [Ready (version_label ''0.162.0'') ''Plus'', Models (catalog bridge_env_demo) default_choice]\<rparr>"

lemma demo_begins: "serve_begin bridge_env_demo ''0.162.0'' demo_account (started fs) = (Inr (), serving fs)"
  by (simp add: bridge_steps demo_resolve demo_plan started_def serving_def idle_bridge_def)

lemma demo_letter [simp]: "code CHR ''t'' = 116"
  by (simp add: code_def)

lemma demo_conversation: "pr_events (snd (serve_loop bridge_env_demo ''0.162.0''
     [(0, Command_ready (Prompt 7 ''q'')), (1, Frame_ready), (2, Frame_ready), (3, Frame_ready), (4, Frame_ready),
      (5, Frame_ready), (6, Commands_closed)]
     (serving [thread_reply, turn_reply, delta ''u'' ''a'', delta ''old'' ''b'', completed])))
   = [Ready (version_label ''0.162.0'') ''Plus'', Models (catalog bridge_env_demo) default_choice, Text_event 7 ''a'', Done 7 None]"
  by (simp add: bridge_steps demo_resolve serving_def started_def idle_bridge_def max_prompt_def max_answer_def
      thread_reply_def turn_reply_def delta_def completed_def demo_reply_def demo_numbers)

text \<open>
  Here a cancelled prompt is sent all the same: \<open>Reset\<close> forgets the cancellation of a conversation whose
  thread is still being started.
\<close>

lemma reset_forgets_cancellation:
  "Request 6 ''turn/start'' (turn_params ''t'' ''q'' default_choice) \<in> set (pr_written (snd
     (serve_loop bridge_env_demo ''0.162.0''
       [(0, Command_ready (Prompt 7 ''q'')), (1, Command_ready (Cancel 7)), (2, Command_ready (Reset 7)), (3, Frame_ready)]
       (serving [thread_reply])))) \<and>
   pr_events (snd (serve_loop bridge_env_demo ''0.162.0''
       [(0, Command_ready (Prompt 7 ''q'')), (1, Command_ready (Cancel 7)), (3, Frame_ready)] (serving [thread_reply])))
     = pr_events (serving []) @ [Done 7 (Some Cancelled_before_start)]"
  by (simp add: bridge_steps demo_resolve serving_def started_def idle_bridge_def max_prompt_def
      thread_reply_def demo_reply_def demo_numbers)

end
