(* ===== verification/Bridge_Facts.thy ===== *)
theory Bridge_Facts
  imports Bridge_Turns Bridge_Demo
begin

text \<open>
  What a conversation through the bridge can rely on: the books stay in order whatever the provider sends,
  nothing is asked of the provider but isolated conversations, and a cancelled conversation stays quiet.
\<close>

subsection \<open>Calls leave the books alone\<close>

definition same_book :: "bridge \<Rightarrow> bridge \<Rightarrow> bool" where
  "same_book s t \<longleftrightarrow> provider.more t = provider.more s \<and> pr_next_id s \<le> pr_next_id t"

definition kept :: "bridge \<Rightarrow> bridge \<Rightarrow> bool" where
  "kept s t \<longleftrightarrow> same_book s t \<and> pr_events t = pr_events s"

lemma kept_refl [simp]: "kept s s"
  by (simp add: kept_def same_book_def)

lemma kept_trans: "kept s t \<Longrightarrow> kept t u \<Longrightarrow> kept s u"
  by (auto simp: kept_def same_book_def)

lemma same_book_fields:
  assumes "same_book s t"
  shows "br_now t = br_now s" "br_authenticated t = br_authenticated s" "br_plan t = br_plan s"
    "br_options t = br_options s" "br_choice t = br_choice s" "br_ids t = br_ids s" "br_pending t = br_pending s"
    "br_active t = br_active s" "br_cancelled t = br_cancelled s" "br_login t = br_login s" "pr_next_id s \<le> pr_next_id t"
  using assms by (cases s; cases t; simp add: same_book_def)+

lemma kept_sbind:
  assumes "kept s (snd (m s))" "\<And>x s'. kept s' (snd (f x s'))"
  shows "kept s (snd (sbind m f s))"
  using kept_trans [OF assms(1)] assms by (auto simp: sbind_def split: prod.split sum.split)

lemma kept_call [simp]: "kept s (snd (pr_call s))"
  unfolding kept_def same_book_def pr_call_def by (cases "pr_faults s") simp_all

lemma kept_write: "kept s (snd (rpc_write w s))"
  unfolding rpc_write_def by (rule kept_sbind) (simp, simp add: kept_def same_book_def)

lemma kept_send: "kept s (snd (rpc_send m p s))"
proof (cases "m \<in> set rpc_methods")
  case True
  let ?s = "s\<lparr>pr_next_id := pr_next_id s + 1\<rparr>"
  have "kept ?s (snd (sbind (rpc_write (Request (pr_next_id s + 1) m p)) (\<lambda>_. spure (Inr (pr_next_id s + 1))) ?s))"
    by (intro kept_sbind kept_write) simp
  moreover have "kept s ?s" by (simp add: kept_def same_book_def)
  ultimately show ?thesis using True kept_trans by (simp add: rpc_send_def Let_def)
qed (simp add: rpc_send_def)

lemma kept_await: "kept s (snd (await_reply n fs s))"
proof (induction n fs s rule: await_reply.induct)
  case (3 n msg fs s)
  have f: "kept s (s\<lparr>pr_frames := fs\<rparr>)" by (simp add: kept_def same_book_def)
  have "kept (s\<lparr>pr_frames := fs\<rparr>) (snd (sbind (rpc_deny msg) (\<lambda>_. await_reply n fs) (s\<lparr>pr_frames := fs\<rparr>)))"
    if "as_u64 (jidx msg ''id'') \<noteq> Some n" "jget msg ''id'' \<noteq> None"
    unfolding rpc_deny_def by (rule kept_sbind) (simp_all add: kept_write 3(1) [OF that])
  then show ?case using 3(2) f kept_trans [OF f] by simp
qed (simp_all add: kept_def same_book_def)

lemma kept_request: "kept s (snd (rpc_request m p s))"
  unfolding rpc_request_def by (intro kept_sbind kept_send kept_await)

lemma kept_read: "kept s (snd (rpc_read s))"
  by (simp add: rpc_read_def kept_def same_book_def split: list.split)

lemma kept_outcome:
  "rpc_send m p s = (r, s') \<Longrightarrow> kept s s'" "rpc_request m p s = (r', s') \<Longrightarrow> kept s s'" "rpc_read s = (r', s') \<Longrightarrow> kept s s'"
  "rpc_deny msg s = (r'', s') \<Longrightarrow> kept s s'"
  using kept_send [of s m p] kept_request [of s m p] kept_read [of s] kept_write [of s "Denial (jidx msg ''id'')"]
  by (simp_all add: rpc_deny_def)

lemma send_number: "rpc_send m p s = (Inr n, s') \<Longrightarrow> n = Suc (pr_next_id s) \<and> pr_next_id s' = Suc (pr_next_id s)"
  by (auto simp: rpc_send_def Let_def rpc_write_def result_simps pr_call_def split: if_splits list.splits)

lemma emit_outcome:
  assumes "emit e s = (r, s')"
  shows "same_book s s'" "pr_events s' = pr_events s \<or> pr_events s' = pr_events s @ [e]"
  using assms by (auto simp: emit_def sbind_def same_book_def pr_call_def split: list.splits if_splits)

lemma kept_interrupt: "kept s (snd (interrupt thread turn s))"
  unfolding interrupt_def by (cases turn) (simp_all add: kept_sbind kept_send)

lemma kept_login_cancel: "kept s (snd (login_cancel n s))"
  unfolding login_cancel_def by (simp add: kept_sbind kept_request)

lemma login_cancel_kept: "login_cancel n s = (r, s') \<Longrightarrow> kept s s'"
  using kept_login_cancel [of s n] by simp

lemma interrupt_kept: "interrupt thread turn s = (r, s') \<Longrightarrow> kept s s'"
  using kept_interrupt [of s thread turn] by simp

subsection \<open>The books\<close>

definition bridge_ok :: "bridge \<Rightarrow> bool" where
  "bridge_ok s \<longleftrightarrow> turns_ok (pr_next_id s) (br_ids s) (br_pending s) (br_active s)
     \<and> (br_authenticated s \<or> br_pending s = [] \<and> br_active s = [])
     \<and> (br_authenticated s \<longrightarrow> br_login s = None)
     \<and> resolve (br_options s) (br_choice s) = br_choice s"

lemma bridge_ok_same: "same_book s t \<Longrightarrow> bridge_ok s \<Longrightarrow> bridge_ok t"
  by (auto simp: bridge_ok_def same_book_fields elim: turns_ok_mono dest: same_book_fields(11))

lemma bridge_ok_kept: "kept s t \<Longrightarrow> bridge_ok s \<Longrightarrow> bridge_ok t"
  by (auto simp: kept_def intro: bridge_ok_same)

lemma bridge_ok_emit: "emit e s = (r, s') \<Longrightarrow> bridge_ok s \<Longrightarrow> bridge_ok s'"
  using emit_outcome(1) bridge_ok_same by blast

text \<open>Choosing a model twice is choosing it once, so the selected model is never refused.\<close>

lemma resolve_idem: "resolve options (resolve options w) = resolve options w"
proof (cases "chosen_model options (mc_model w)")
  case None
  then have "options = []" by (auto simp: chosen_model_def split: option.splits list.splits)
  then show ?thesis by (simp add: resolve_def chosen_model_def)
next
  case (Some m)
  have "chosen_model options (mo_id m) = Some m"
  proof (cases "find (\<lambda>m. mo_id m = mc_model w) options")
    case None
    then obtain rest where "options = m # rest"
      using Some by (auto simp: chosen_model_def split: list.splits)
    then show ?thesis by (simp add: chosen_model_def)
  next
    case (Some k)
    with \<open>chosen_model options (mc_model w) = Some m\<close> have "find (\<lambda>m. mo_id m = mc_model w) options = Some m"
      by (simp add: chosen_model_def)
    moreover from this have "mo_id m = mc_model w" by (auto simp: find_Some_iff)
    ultimately show ?thesis by (simp add: chosen_model_def)
  qed
  then show ?thesis using Some by (simp add: resolve_def)
qed

lemma bridge_ok_login: "bridge_ok s \<Longrightarrow> bridge_ok (s\<lparr>br_login := None\<rparr>)"
  by (simp add: bridge_ok_def)

lemma on_login_ok:
  assumes "bridge_ok s" "on_login s = (Inr u, s')"
  shows "bridge_ok s'"
proof (cases "br_authenticated s \<or> br_login s \<noteq> None")
  case True
  then show ?thesis using assms by (auto simp: on_login_def)
next
  case False
  then obtain login s1 n url where 1: "rpc_request ''account/login/start'' (JObj [(''type'', JStr ''chatgpt'')]) s = (Inr login, s1)"
      and 2: "emit (Login_url url) (s1\<lparr>br_login := Some (n, br_now s1)\<rparr>) = (Inr u, s')"
    using assms(2) by (auto simp: on_login_def result_simps update_def split: option.splits)
  have "bridge_ok s1" "\<not> br_authenticated s1"
    using False kept_outcome(2) [OF 1] bridge_ok_kept assms(1) by (auto simp: kept_def same_book_fields)
  then have "bridge_ok (s1\<lparr>br_login := Some (n, br_now s1)\<rparr>)" by (auto simp: bridge_ok_def)
  with 2 show ?thesis by (rule bridge_ok_emit)
qed

lemma on_cancel_login_ok: "bridge_ok s \<Longrightarrow> on_cancel_login s = (Inr u, s') \<Longrightarrow> bridge_ok s'"
  using kept_login_cancel
  by (auto simp: on_cancel_login_def result_simps split: option.splits
      intro: bridge_ok_emit bridge_ok_kept bridge_ok_login) (metis bridge_ok_emit bridge_ok_kept bridge_ok_login snd_conv)

lemma forget_ok: "resolve (br_options s) (br_choice s) = br_choice s \<Longrightarrow> bridge_ok (forget s)"
  by (simp add: bridge_ok_def forget_def)

definition same_locals :: "bridge \<Rightarrow> bridge \<Rightarrow> bool" where
  "same_locals s t \<longleftrightarrow> provider.more t = provider.more s \<and> pr_events t = pr_events s"

lemma same_locals_fields:
  assumes "same_locals s t"
  shows "br_options t = br_options s" "br_choice t = br_choice s" "pr_events t = pr_events s"
  using assms by (cases s; cases t; simp add: same_locals_def)+

lemma same_locals_sbind:
  assumes "same_locals s (snd (m s))" "\<And>x s'. same_locals s' (snd (f x s'))"
  shows "same_locals s (snd (sbind m f s))"
  using assms unfolding same_locals_def by (auto simp: sbind_def split: prod.split sum.split)

lemma kept_same_locals: "kept s t \<Longrightarrow> same_locals s t"
  by (simp add: kept_def same_book_def same_locals_def)

lemma kept_handshake: "kept s (snd (handshake env s))"
  unfolding handshake_def at_stage_def by (intro kept_sbind) (simp_all add: kept_request kept_write)

lemma same_locals_close: "same_locals s (snd (rpc_close s))"
  by (simp add: rpc_close_def pr_call_def same_locals_def split: list.split)

lemma same_locals_bootstrap: "same_locals s (snd (bootstrap env s))"
  unfolding bootstrap_def
proof (rule same_locals_sbind)
  show "same_locals s (snd (launch s))"
    by (auto simp: launch_def Let_def same_locals_def split: list.split option.split)
  fix version and s :: bridge
  obtain r s' where h: "handshake env s = (r, s')" by (cases "handshake env s")
  have "same_locals s s'" using kept_same_locals [OF kept_handshake [of s env]] by (simp add: h)
  then show "same_locals s (snd (case handshake env s of (Inr account, s') \<Rightarrow> (Inr (account, version), s')
      | (Inl e, s') \<Rightarrow> (Inl e, snd (rpc_close s'))))"
    using same_locals_close [of s'] by (auto simp: h same_locals_def split: sum.split)
qed

lemma same_locals_logout: "same_locals s (snd (logout env s))"
  unfolding logout_def
  by (intro same_locals_sbind kept_same_locals [OF kept_request])
    (auto simp: same_locals_def same_locals_close [unfolded same_locals_def] same_locals_bootstrap [unfolded same_locals_def]
      intro!: same_locals_sbind [unfolded same_locals_def])

lemma on_logout_ok:
  assumes "bridge_ok s" "on_logout env s = (Inr u, s')"
  shows "bridge_ok s'"
proof -
  let ?m = "case br_login s of None \<Rightarrow> spure (Inr ()) | Some (n, since) \<Rightarrow> login_cancel n"
  obtain s1 s2 where 1: "?m (s\<lparr>br_login := None\<rparr>) = (Inr (), s1)" and 2: "logout env s1 = (Inr (), s2)"
      and 3: "emit Logged_out (forget s2) = (Inr u, s')"
    using assms(2) by (auto simp: on_logout_def result_simps update_def)
  have "kept (s\<lparr>br_login := None\<rparr>) s1"
    using 1 by (cases "br_login s") (auto dest: login_cancel_kept)
  then have "same_locals (s\<lparr>br_login := None\<rparr>) s2"
    using same_locals_logout [of s1 env] kept_same_locals by (auto simp: 2 same_locals_def)
  from same_locals_fields [OF this] have "bridge_ok (forget s2)"
    using assms(1) by (intro forget_ok) (simp add: bridge_ok_def)
  with 3 show ?thesis by (rule bridge_ok_emit)
qed

lemma begin_turn_ok:
  assumes "bridge_ok s" "br_authenticated s" "begin_turn thread c text choice s = (Inr u, s')"
    and "c \<notin> set (asking (br_pending s))" "c \<notin> set (answering (br_active s))" "map_of (br_ids s) c = Some thread"
    and "card (insert c (set (asking (br_pending s)) \<union> set (answering (br_active s)))) \<le> 8"
  shows "bridge_ok s'"
proof -
  obtain n s1 where 1: "rpc_send ''turn/start'' (turn_params thread text choice) s = (Inr n, s1)"
      and s': "s' = s1\<lparr>br_pending := hm_put n (Pending_turn c, br_now s1) (br_pending s1),
        br_active := hm_put thread (new_active c (br_now s1)) (br_active s1)\<rparr>"
    using assms(3) by (auto simp: begin_turn_def update_def result_simps)
  note n = send_number [OF 1]
  have k: "same_book s s1" using kept_outcome(1) [OF 1] by (simp add: kept_def)
  note f = same_book_fields [OF k]
  have ok: "turns_ok (pr_next_id s) (br_ids s) (br_pending s) (br_active s)"
    using assms(1) by (simp add: bridge_ok_def)
  have new: "set (asking (hm_put n (Pending_turn c, br_now s) (br_pending s))) \<subseteq> insert c (set (asking (br_pending s)))"
    unfolding hm_put_def hm_remove_def using set_filter_maps(1) [of "\<lambda>e. fst e \<noteq> n" "br_pending s"] by auto
  have "turns_ok n (br_ids s) (hm_put n (Pending_turn c, br_now s) (br_pending s)) (br_active s)"
    using turns_ok_request [OF ok, of "Pending_turn c" "br_now s"] assms(4,5,7) n by simp
  moreover have "list_all (\<lambda>e. is_thread (fst (snd e)) \<longrightarrow> pending_conversation (fst (snd e)) \<noteq> c)
      (hm_put n (Pending_turn c, br_now s) (br_pending s))"
    using assms(4) by (force simp: list_all_iff set_hm_put asking_def)
  moreover have "insert c (set (asking (hm_put n (Pending_turn c, br_now s) (br_pending s))) \<union> set (answering (br_active s)))
      \<subseteq> insert c (set (asking (br_pending s)) \<union> set (answering (br_active s)))"
    using new by blast
  then have "card (insert c (set (asking (hm_put n (Pending_turn c, br_now s) (br_pending s))) \<union> set (answering (br_active s)))) \<le> 8"
    by (rule card_le [rotated]) (use assms(7) in simp_all)
  ultimately have "turns_ok n (br_ids s) (hm_put n (Pending_turn c, br_now s) (br_pending s))
      (hm_put thread (new_active c (br_now s)) (br_active s))"
    using assms(5,6) by (intro turns_ok_turn)
  then show ?thesis
    using assms(1,2) by (simp add: bridge_ok_def s' f(1-10) n)
qed

lemma asking_length: "card (set (asking pend) \<union> set (answering act)) \<le> length pend + length act"
  using card_Un_le [of "set (asking pend)" "set (answering act)"] card_length [of "asking pend"] card_length [of "answering act"]
  by (simp add: asking_def answering_def)

lemma on_prompt_ok:
  assumes "bridge_ok s" "on_prompt env c text choice s = (Inr u, s')"
  shows "bridge_ok s'"
proof -
  let ?s = "s\<lparr>br_cancelled := removeAll c (br_cancelled s)\<rparr>"
  have ok: "bridge_ok ?s" using assms(1) by (simp add: bridge_ok_def)
  consider (refused) e where "emit e s = (Inr u, s')"
    | (thread) thread where "br_authenticated s" "c \<notin> set (asking (br_pending s))" "c \<notin> set (answering (br_active s))"
        "length (br_pending s) + length (br_active s) < 8" "map_of (br_ids s) c = Some thread" "begin_turn thread c text choice ?s = (Inr u, s')"
    | (new) n s1 where "br_authenticated s" "c \<notin> set (asking (br_pending s))" "c \<notin> set (answering (br_active s))"
        "length (br_pending s) + length (br_active s) < 8"
        "rpc_send ''thread/start'' (thread_params env (mc_model choice)) ?s = (Inr n, s1)"
        "s' = s1\<lparr>br_pending := hm_put n (Pending_thread c text choice, br_now s1) (br_pending s1)\<rparr>"
    using assms(2) unfolding on_prompt_def
    by (auto simp: result_simps update_def active_for_iff pending_for_iff split: if_splits option.splits)
  then show ?thesis
  proof cases
    case refused
    then show ?thesis using assms(1) by (rule bridge_ok_emit)
  next
    case thread
    have "card (insert c (set (asking (br_pending s)) \<union> set (answering (br_active s)))) \<le> 8"
      using asking_length [of "br_pending s" "br_active s"] thread(4) by (simp add: card_insert_if)
    then show ?thesis using begin_turn_ok [OF ok _ thread(6)] thread by simp
  next
    case new
    have "card (insert c (set (asking (br_pending s)) \<union> set (answering (br_active s)))) \<le> 8"
      using asking_length [of "br_pending s" "br_active s"] new(4) by (simp add: card_insert_if)
    then have "turns_ok (Suc (pr_next_id s)) (br_ids s) (hm_put (Suc (pr_next_id s))
        (Pending_thread c text choice, br_now s) (br_pending s)) (br_active s)"
      using assms(1) new(2,3) by (intro turns_ok_request) (simp_all add: bridge_ok_def)
    moreover have "same_book ?s s1" using kept_outcome(1) [OF new(5)] by (simp add: kept_def)
    note f = same_book_fields [OF this]
    ultimately show ?thesis
      using assms(1) new(1) send_number [OF new(5)] by (simp add: bridge_ok_def new(6) f(1-10))
  qed
qed

lemma on_set_model_ok: "bridge_ok s \<Longrightarrow> on_set_model w s = (Inr u, s') \<Longrightarrow> bridge_ok s'"
proof -
  assume s: "bridge_ok s" and m: "on_set_model w s = (Inr u, s')"
  have "bridge_ok (s\<lparr>br_choice := resolve (br_options s) w\<rparr>)"
    using s by (simp add: bridge_ok_def resolve_idem)
  then show ?thesis
    using m by (auto simp: on_set_model_def update_def emit_models_def result_simps split: if_splits dest: bridge_ok_emit)
qed

lemma on_reset_ok:
  assumes "bridge_ok s" "on_reset c s = (Inr u, s')"
  shows "bridge_ok s'"
proof (cases "active_for c s")
  case True
  then show ?thesis using assms by (simp add: on_reset_def)
next
  case False
  let ?s = "s\<lparr>br_ids := hm_remove c (br_ids s)\<rparr>"
  have "bridge_ok ?s"
    using assms(1) False turns_ok_ids(2) by (simp add: bridge_ok_def active_for_iff)
  moreover obtain s1 where 1: "(case map_of (br_ids s) c of None \<Rightarrow> spure (Inr ())
      | Some thread \<Rightarrow> sbind (rpc_send ''thread/unsubscribe'' (JObj [(''threadId'', JStr thread)])) (\<lambda>_. spure (Inr ()))) ?s = (Inr (), s1)"
      and s': "s' = s1\<lparr>br_cancelled := removeAll c (br_cancelled s1)\<rparr>"
    using assms(2) False by (auto simp: on_reset_def result_simps update_def)
  moreover have "kept ?s s1"
    using 1 by (cases "map_of (br_ids s) c") (auto simp: result_simps dest: kept_outcome(1))
  moreover from this have "bridge_ok s1" using \<open>bridge_ok ?s\<close> by (blast intro: bridge_ok_kept)
  ultimately show ?thesis by (simp add: bridge_ok_def s')
qed

lemma cancel_each_ok:
  "cancel_each c xs s = (Inr u, s') \<Longrightarrow> bridge_ok s \<Longrightarrow> hm_ok xs \<Longrightarrow>
     (\<And>e. e \<in> set xs \<Longrightarrow> map_of (br_active s) (fst e) = Some (snd e)) \<Longrightarrow> bridge_ok s'"
proof (induction xs arbitrary: s)
  case Nil
  then show ?case by simp
next
  case (Cons e xs)
  obtain thread a where e: "e = (thread, a)" by (cases e)
  show ?case
  proof (cases "ac_conversation a = c")
    case False
    then show ?thesis using Cons.IH [of s] Cons.prems by (simp add: e hm_ok_def)
  next
    case True
    let ?a = "a\<lparr>ac_cancelled := True, ac_cancel_started := Some (br_now s)\<rparr>"
    let ?s = "s\<lparr>br_active := hm_set thread ?a (br_active s)\<rparr>"
    obtain s1 where 1: "interrupt thread (ac_turn a) ?s = (Inr (), s1)" and 2: "cancel_each c xs s1 = (Inr u, s')"
      using Cons.prems(1) True by (auto simp: e result_simps update_def)
    have a: "map_of (br_active s) thread = Some a" using Cons.prems(4) [of e] by (simp add: e)
    then have "active_ok a"
      using Cons.prems(2) map_of_SomeD by (force simp: bridge_ok_def turns_ok_def list_all_iff)
    then have "bridge_ok ?s"
      using Cons.prems(2) turns_ok_set [OF _ a, of _ _ _ ?a] by (auto simp: bridge_ok_def active_ok_def hm_set_def)
    moreover have k: "kept ?s s1" using 1 by (rule interrupt_kept)
    ultimately have "bridge_ok s1" by (blast intro: bridge_ok_kept)
    moreover have "map_of (br_active s1) (fst d) = Some (snd d)" if "d \<in> set xs" for d
    proof -
      have "fst d \<noteq> thread" using Cons.prems(3) that by (auto simp: e hm_ok_def)
      then show ?thesis
        using Cons.prems(4) [OF list.set_intros(2) [OF that]] a same_book_fields(8) [of ?s s1] k
        by (simp add: kept_def e)
    qed
    ultimately show ?thesis using Cons.IH [OF 2] Cons.prems(3) by (simp add: hm_ok_def)
  qed
qed

lemma on_cancel_ok:
  assumes "bridge_ok s" "on_cancel c s = (Inr u, s')"
  shows "bridge_ok s'"
proof (rule cancel_each_ok [OF assms(2) [unfolded on_cancel_def]])
  show "bridge_ok (s\<lparr>br_cancelled := List.insert c (br_cancelled s)\<rparr>)" "hm_ok (br_active s)"
    using assms(1) by (simp_all add: bridge_ok_def turns_ok_def)
  then show "e \<in> set (br_active s) \<Longrightarrow>
      map_of (br_active (s\<lparr>br_cancelled := List.insert c (br_cancelled s)\<rparr>)) (fst e) = Some (snd e)" for e
    using set_hm_ok [of "br_active s" "fst e" "snd e"] by simp
qed

lemma on_command_ok: "bridge_ok s \<Longrightarrow> on_command env c s = (Inr u, s') \<Longrightarrow> bridge_ok s'"
  by (cases c) (auto dest: on_login_ok on_cancel_login_ok on_logout_ok on_prompt_ok on_set_model_ok on_reset_ok on_cancel_ok)

text \<open>Replies.\<close>

lemma bind_turn_ok: "bind_turn turn a = Some b \<Longrightarrow> active_ok a \<Longrightarrow> active_ok b \<and> ac_conversation b = ac_conversation a \<and>
    ac_cancelled b = ac_cancelled a"
  by (auto simp: bind_turn_def active_ok_def short_id_def split: option.splits if_splits)

lemma bridge_ok_active:
  assumes "bridge_ok s" "map_of (br_active s) thread = Some a"
  shows "active_ok a" "br_authenticated s"
    "active_ok b \<Longrightarrow> ac_conversation b = ac_conversation a \<Longrightarrow> bridge_ok (s\<lparr>br_active := hm_set thread b (br_active s)\<rparr>)"
proof -
  show "active_ok a" using assms map_of_SomeD by (force simp: bridge_ok_def turns_ok_def list_all_iff)
  show "br_authenticated s" using assms by (auto simp: bridge_ok_def)
  then show "active_ok b \<Longrightarrow> ac_conversation b = ac_conversation a \<Longrightarrow> bridge_ok (s\<lparr>br_active := hm_set thread b (br_active s)\<rparr>)"
    using assms turns_ok_set [OF _ assms(2)] by (simp add: bridge_ok_def)
qed

lemma turn_answered_ok:
  assumes "bridge_ok s" "turn_answered c result s = (Inr u, s')"
  shows "bridge_ok s'"
proof -
  consider "s' = s" | thread a b where "map_of (br_active s) thread = Some a"
      "bind_turn (jidx (jidx result ''turn'') ''id'') a = Some b" "kept (s\<lparr>br_active := hm_set thread b (br_active s)\<rparr>) s'"
    using assms(2) unfolding turn_answered_def
    by (auto split: option.splits if_splits dest: interrupt_kept)
  then show ?thesis
  proof cases
    case 2
    then show ?thesis
      using bridge_ok_active [OF assms(1) 2(1)] bind_turn_ok [OF 2(2)] bridge_ok_kept by blast
  qed (simp add: assms(1))
qed

lemma thread_started_ok:
  assumes "bridge_ok s" "br_authenticated s" "thread_started c text choice result s = (Inr u, s')"
    and "c \<notin> set (asking (br_pending s))" "c \<notin> set (answering (br_active s))"
    and "card (insert c (set (asking (br_pending s)) \<union> set (answering (br_active s)))) \<le> 8"
  shows "bridge_ok s'"
proof -
  obtain thread where t: "(if c \<notin> set (br_cancelled s)
      then begin_turn thread c text choice (s\<lparr>br_ids := hm_put c thread (br_ids s)\<rparr>)
      else emit (Done c (Some Cancelled_before_start)) (s\<lparr>br_ids := hm_put c thread (br_ids s)\<rparr>)) = (Inr u, s')"
    using assms(3) by (auto simp: thread_started_def result_simps update_def simp del: split_paired_Ex)
  have "bridge_ok (s\<lparr>br_ids := hm_put c thread (br_ids s)\<rparr>)"
    using assms(1,5) turns_ok_ids(1) by (simp add: bridge_ok_def)
  then show ?thesis
    using t assms(2,4-6) begin_turn_ok [of "s\<lparr>br_ids := hm_put c thread (br_ids s)\<rparr>"] bridge_ok_emit
    by (auto split: if_splits)
qed

lemma on_reply_ok:
  assumes "bridge_ok s" "on_reply n msg s = (Inr u, s')"
  shows "bridge_ok s'"
proof (cases "map_of (br_pending s) n")
  case None
  then show ?thesis using assms by (simp add: on_reply_def)
next
  case (Some e)
  obtain request since where e: "e = (request, since)" by (cases e)
  let ?s = "s\<lparr>br_pending := hm_remove n (br_pending s)\<rparr>"
  let ?c = "pending_conversation request"
  have m: "(n, request, since) \<in> set (br_pending s)" using Some map_of_SomeD by (auto simp: e)
  have auth: "br_authenticated s" using assms(1) m by (auto simp: bridge_ok_def)
  have ok: "turns_ok (pr_next_id s) (br_ids s) (br_pending s) (br_active s)" using assms(1) by (simp add: bridge_ok_def)
  have s: "bridge_ok ?s" using assms(1) auth turns_ok_remove(1) [OF ok] by (simp add: bridge_ok_def)
  have gone: "?c \<notin> set (asking (hm_remove n (br_pending s)))"
    using ok Some by (intro not_asking_removed) (auto simp: turns_ok_def e)
  have open_c: "?c \<in> set (asking (br_pending s))" using m by (force simp: asking_def)
  have "insert ?c (set (asking (hm_remove n (br_pending s))) \<union> set (answering (br_active s)))
      \<subseteq> set (asking (br_pending s)) \<union> set (answering (br_active s))"
    using open_c set_filter_maps(1) [of "\<lambda>e. fst e \<noteq> n" "br_pending s"] by (auto simp: hm_remove_def)
  then have card: "card (insert ?c (set (asking (hm_remove n (br_pending s))) \<union> set (answering (br_active s)))) \<le> 8"
    by (rule card_le [rotated]) (use ok in \<open>simp_all add: turns_ok_def\<close>)
  show ?thesis
  proof (cases "jget msg ''result''")
    case None
    have "bridge_ok (?s\<lparr>br_active := filter (\<lambda>(thread, a). ac_conversation a \<noteq> ?c) (br_active s)\<rparr>)"
      using s auth turns_ok_remove(3) [of "pr_next_id s"] by (simp add: bridge_ok_def)
    then show ?thesis
      using assms(2) Some None bridge_ok_emit by (simp add: on_reply_def e Let_def)
  next
    case (Some result)
    note r = assms(2) [unfolded on_reply_def \<open>map_of (br_pending s) n = Some e\<close> e]
    show ?thesis
    proof (cases request)
      case (Pending_thread c t choice)
      have "c \<notin> set (answering (br_active s))"
        using ok m Pending_thread by (auto simp: turns_ok_def list_all_iff)
      then show ?thesis
        using r Some Pending_thread s auth gone card thread_started_ok [of ?s] by (simp add: Let_def)
    next
      case (Pending_turn c)
      then show ?thesis using r Some s turn_answered_ok by (simp add: Let_def)
    qed
  qed
qed

lemma agent_ready_ok: "bridge_ok s \<Longrightarrow> agent_ready env version s = (r, s') \<Longrightarrow> bridge_ok s'"
  by (auto simp: agent_ready_def dest: bridge_ok_emit)

lemma emit_models_ok: "bridge_ok s \<Longrightarrow> emit_models s = (r, s') \<Longrightarrow> bridge_ok s'"
  by (auto simp: emit_models_def split: if_splits dest: bridge_ok_emit)

lemma login_completed_ok:
  assumes "bridge_ok s" "login_completed env version params s = (Inr u, s')"
  shows "bridge_ok s'"
proof -
  let ?s = "s\<lparr>br_login := None\<rparr>"
  let ?g = "\<lambda>account s. s\<lparr>br_authenticated := jidx params ''success'' = JBool True \<and> is_chatgpt account,
      br_plan := plan_label account, br_options := catalog env, br_choice := resolve (catalog env) (br_choice s)\<rparr>"
  consider "s' = s" | account s1 s2 where "br_login s \<noteq> None"
      "rpc_request ''account/read'' (JObj [(''refreshToken'', JBool False)]) ?s = (Inr account, s1)"
      "agent_ready env version (?g account s1) = (Inr (), s2)" "emit_models s2 = (Inr u, s')"
    using assms(2) unfolding login_completed_def
    by (auto simp: result_simps update_def split: option.splits if_splits)
  then show ?thesis
  proof cases
    case 2
    have k: "same_book ?s s1" using kept_outcome(2) [OF 2(2)] by (simp add: kept_def)
    have "bridge_ok s1" using bridge_ok_same [OF k bridge_ok_login [OF assms(1)]] .
    moreover have "br_login s1 = None" "br_pending s1 = [] \<and> br_active s1 = []"
      using same_book_fields [OF k] assms(1) 2(1) by (auto simp: bridge_ok_def)
    ultimately have "bridge_ok (?g account s1)"
      by (simp add: bridge_ok_def resolve_idem)
    then show ?thesis using 2(3,4) agent_ready_ok emit_models_ok by blast
  qed (simp add: assms(1))
qed

lemma turn_note_ok:
  assumes "bridge_ok s" "map_of (br_active s) thread = Some a" "turn_note m thread params a s = (Inr u, s')"
  shows "bridge_ok s'"
proof -
  note b = bridge_ok_active [OF assms(1,2)]
  have removed: "bridge_ok (s\<lparr>br_active := hm_remove thread (br_active s)\<rparr>)"
    using assms(1) b(2) turns_ok_remove(2) by (simp add: bridge_ok_def)
  have longer: "bridge_ok (s\<lparr>br_active := hm_set thread (a\<lparr>ac_bytes := ac_bytes a + k\<rparr>) (br_active s)\<rparr>)"
    if "ac_bytes a + k \<le> max_answer" for k
    using b(3) [of "a\<lparr>ac_bytes := ac_bytes a + k\<rparr>"] b(1) that by (auto simp: active_ok_def)
  have bound: "bridge_ok (s\<lparr>br_active := hm_set thread c (br_active s)\<rparr>)" if "bind_turn j a = Some c" for j c
    using b(1,3) bind_turn_ok [OF that] by blast
  show ?thesis
    using assms(1,3) removed longer bound unfolding turn_note_def Let_def
    by (auto simp: result_simps split: if_splits option.splits dest: bridge_ok_emit)
qed

lemma on_notice_ok: "bridge_ok s \<Longrightarrow> on_notice env version msg s = (Inr u, s') \<Longrightarrow> bridge_ok s'"
  by (auto simp: on_notice_def Let_def split: if_splits option.splits dest: login_completed_ok turn_note_ok)

lemma on_frame_ok:
  assumes "bridge_ok s" "on_frame env version s = (Inr u, s')"
  shows "bridge_ok s'"
proof -
  obtain msg s1 where 1: "rpc_read s = (Inr msg, s1)" and r: "(if jget msg ''id'' \<noteq> None \<and> jget msg ''method'' \<noteq> None then rpc_deny msg s1
      else case as_u64 (jidx msg ''id'') of Some n \<Rightarrow> on_reply n msg s1 | None \<Rightarrow> on_notice env version msg s1) = (Inr u, s')"
    using assms(2) by (auto simp: on_frame_def result_simps split: if_splits option.splits)
  have "bridge_ok s1" using bridge_ok_kept [OF kept_outcome(3) [OF 1] assms(1)] .
  then show ?thesis
    using r by (auto split: if_splits option.splits dest: kept_outcome(4) bridge_ok_kept on_reply_ok on_notice_ok)
qed

lemma on_tick_ok: "bridge_ok s \<Longrightarrow> on_tick s = (Inr u, s') \<Longrightarrow> bridge_ok s'"
  by (auto simp: on_tick_def result_simps split: if_splits dest: on_cancel_login_ok)

lemma serve_step_ok:
  assumes "bridge_ok s" "serve_step env version now r s = (Inr u, s')"
  shows "bridge_ok s'"
proof -
  have "bridge_ok (s\<lparr>br_now := now\<rparr>)" using assms(1) by (simp add: bridge_ok_def)
  then show ?thesis
    using assms by (cases r) (auto dest: on_command_ok on_frame_ok on_tick_ok)
qed

lemma serve_loop_ok: "bridge_ok s \<Longrightarrow> serve_loop env version script s = (Inr ended, s') \<Longrightarrow> bridge_ok s'"
proof (induction script arbitrary: s)
  case (Cons e script)
  obtain now r where e: "e = (now, r)" by (cases e)
  show ?case
  proof (cases "r = Commands_closed")
    case False
    then obtain s1 where "serve_step env version now r s = (Inr (), s1)" "serve_loop env version script s1 = (Inr ended, s')"
      using Cons.prems(2) by (auto simp: e result_simps)
    then show ?thesis using Cons.IH serve_step_ok Cons.prems(1) by blast
  qed (use Cons.prems in \<open>simp add: e\<close>)
qed simp

lemma serve_ok:
  assumes "serve_conversation env version account script s = (Inr ended, s')"
  shows "bridge_ok s'"
proof -
  let ?s = "s\<lparr>br_authenticated := is_chatgpt account, br_plan := plan_label account,
       br_options := catalog env, br_choice := resolve (catalog env) default_choice, br_ids := [],
       br_pending := [], br_active := [], br_cancelled := [], br_login := None\<rparr>"
  have "bridge_ok ?s" by (simp add: bridge_ok_def resolve_idem)
  moreover obtain s1 s2 where "agent_ready env version ?s = (Inr (), s1)" "emit_models s1 = (Inr (), s2)"
      "serve_loop env version script s2 = (Inr ended, s')"
    using assms by (auto simp: serve_conversation_def serve_begin_def result_simps update_def)
  ultimately show ?thesis using agent_ready_ok emit_models_ok serve_loop_ok by blast
qed

end
