(* ===== verification/Bridge_Quiet.thy ===== *)
theory Bridge_Quiet
  imports Bridge_Facts
begin

text \<open>
  A cancelled conversation stays quiet until it is asked again, and the properties of the bridge as a whole.
\<close>

subsection \<open>Quiet conversations\<close>

text \<open>
  Every turn of the conversation is cancelled, and none will start: its thread is not being started, or,
  where that is what \<open>held\<close> relies on, its cancellation is remembered.
\<close>

definition starting_thread :: "nat \<Rightarrow> bridge \<Rightarrow> bool" where
  "starting_thread c s \<longleftrightarrow> list_ex (\<lambda>e. is_thread (fst (snd e)) \<and> pending_conversation (fst (snd e)) = c) (br_pending s)"

definition quiet_conversation :: "bool \<Rightarrow> nat \<Rightarrow> bridge \<Rightarrow> bool" where
  "quiet_conversation held c s \<longleftrightarrow> list_all (\<lambda>e. ac_conversation (snd e) = c \<longrightarrow> ac_cancelled (snd e)) (br_active s)
     \<and> (held \<and> c \<in> set (br_cancelled s) \<or> \<not> starting_thread c s)"

fun shows_text :: "nat \<Rightarrow> event \<Rightarrow> bool" where
  "shows_text c (Text_event d t) \<longleftrightarrow> d = c"
| "shows_text c _ \<longleftrightarrow> False"

definition texts :: "nat \<Rightarrow> bridge \<Rightarrow> event list" where
  "texts c s = filter (shows_text c) (pr_events s)"

definition hush :: "bool \<Rightarrow> nat \<Rightarrow> (bridge, 'e, 'a) action \<Rightarrow> bridge \<Rightarrow> bool" where
  "hush held c m s \<longleftrightarrow> texts c (snd (m s)) = texts c s \<and> (is_ok (fst (m s)) \<longrightarrow> quiet_conversation held c (snd (m s)))"

lemma quiet_same: "same_book s t \<Longrightarrow> quiet_conversation held c s \<Longrightarrow> quiet_conversation held c t"
  by (simp add: quiet_conversation_def starting_thread_def same_book_fields [of s t])

lemma hush_sbind:
  assumes "hush held c m s" "\<And>x s'. m s = (Inr x, s') \<Longrightarrow> quiet_conversation held c s' \<Longrightarrow> hush held c (f x) s'"
  shows "hush held c (sbind m f) s"
  using assms by (cases "m s"; cases "fst (m s)") (auto simp: hush_def sbind_def)

lemma hush_kept: "kept s (snd (m s)) \<Longrightarrow> quiet_conversation held c s \<Longrightarrow> hush held c m s"
  using quiet_same by (auto simp: hush_def kept_def texts_def)

lemma hush_spure [simp]: "quiet_conversation held c s \<Longrightarrow> hush held c (spure r) s"
  by (simp add: hush_def)

lemma hush_update: "quiet_conversation held c (g s) \<Longrightarrow> pr_events (g s) = pr_events s \<Longrightarrow> hush held c (update g) s"
  by (simp add: hush_def update_def texts_def)

lemma hush_emit: "\<not> shows_text c e \<Longrightarrow> quiet_conversation held c s \<Longrightarrow> hush held c (emit e) s"
  using emit_outcome [of e s] quiet_same
  by (cases "emit e s") (auto simp: hush_def texts_def)

lemma hush_after: "hush held c m (g s) \<Longrightarrow> pr_events (g s) = pr_events s \<Longrightarrow> hush held c (\<lambda>s. m (g s)) s"
  by (simp add: hush_def texts_def)

lemma hush_eq: "m s = m' s' \<Longrightarrow> pr_events s' = pr_events s \<Longrightarrow> hush held c m' s' \<Longrightarrow> hush held c m s"
  by (simp add: hush_def texts_def)

lemma hush_now: "quiet_conversation held c s \<Longrightarrow> m s = (r, s) \<Longrightarrow> hush held c m s"
  by (simp add: hush_def)

lemma hush_done: "hush held c (\<lambda>s. (g s, s)) s \<longleftrightarrow> is_ok (g s) \<longrightarrow> quiet_conversation held c s"
  by (simp add: hush_def)

lemma quiet_login [simp]: "quiet_conversation held c (s\<lparr>br_login := l\<rparr>) = quiet_conversation held c s"
  "quiet_conversation held c (s\<lparr>br_now := n\<rparr>) = quiet_conversation held c s" "quiet_conversation held c (s\<lparr>br_choice := w\<rparr>) = quiet_conversation held c s" "quiet_conversation held c (s\<lparr>br_ids := i\<rparr>) = quiet_conversation held c s"
  by (simp_all add: quiet_conversation_def starting_thread_def)

lemma hush_login_cancel: "quiet_conversation held c s \<Longrightarrow> hush held c (login_cancel n) s"
  by (rule hush_kept [OF kept_login_cancel])

lemma hush_request: "quiet_conversation held c s \<Longrightarrow> hush held c (rpc_request m p) s"
  by (rule hush_kept [OF kept_request])

lemma hush_send: "quiet_conversation held c s \<Longrightarrow> hush held c (rpc_send m p) s"
  by (rule hush_kept [OF kept_send])

lemma hush_on_login: "quiet_conversation held c s \<Longrightarrow> hush held c on_login s"
proof (cases "br_authenticated s \<or> br_login s \<noteq> None")
  case True
  then show "quiet_conversation held c s \<Longrightarrow> ?thesis" by (auto simp: hush_def on_login_def)
next
  case False
  assume q: "quiet_conversation held c s"
  have "hush held c (sbind (rpc_request ''account/login/start'' (JObj [(''type'', JStr ''chatgpt'')])) (\<lambda>login.
        case as_str (jidx login ''authUrl'') of
          None \<Rightarrow> spure (Inl ())
        | Some url \<Rightarrow>
            sbind (spure (ensure (valid_login_url url) ())) (\<lambda>_.
            sbind (spure (ensure (jidx login ''type'' = JStr ''chatgpt'') ())) (\<lambda>_.
            sbind (spure (ok_or (short_id (jidx login ''loginId'')) ())) (\<lambda>n.
            sbind (update (\<lambda>s. s\<lparr>br_login := Some (n, br_now s)\<rparr>)) (\<lambda>_. emit (Login_url url))))))) s"
    by (auto intro!: hush_sbind hush_request q hush_update hush_emit split: option.split)
  then show ?thesis using False by (auto simp: hush_def on_login_def)
qed

lemma hush_on_cancel_login: "quiet_conversation held c s \<Longrightarrow> hush held c on_cancel_login s"
proof (cases "br_login s")
  case (Some e)
  assume q: "quiet_conversation held c s"
  obtain n since where e: "e = (n, since)" by (cases e)
  have "hush held c (sbind (login_cancel n) (\<lambda>_. emit Login_required)) (s\<lparr>br_login := None\<rparr>)"
    using q by (intro hush_sbind hush_login_cancel hush_emit) simp_all
  then show ?thesis by (rule hush_eq [rotated 2]) (simp_all add: on_cancel_login_def Some e)
qed (simp add: hush_def on_cancel_login_def)

lemma texts_same_locals: "same_locals s t \<Longrightarrow> texts c t = texts c s"
  by (simp add: same_locals_def texts_def)

lemma hush_on_logout: "quiet_conversation held c s \<Longrightarrow> hush held c (on_logout env) s"
proof -
  assume q: "quiet_conversation held c s"
  let ?m = "case br_login s of None \<Rightarrow> spure (Inr ()) | Some (n, since) \<Rightarrow> login_cancel n"
  have 1: "hush held c ?m (s\<lparr>br_login := None\<rparr>)"
    using q by (auto split: option.split intro!: hush_login_cancel)
  have 2: "hush held c (sbind (logout env) (\<lambda>_. sbind (update forget) (\<lambda>_. emit Logged_out))) t" for t
  proof (cases "logout env t")
    case (Pair r u)
    have "texts c u = texts c t"
      using same_locals_logout [of t env] texts_same_locals by (simp add: Pair)
    moreover have "quiet_conversation held c (forget u)" "texts c (forget u) = texts c u"
      by (simp_all add: quiet_conversation_def starting_thread_def forget_def texts_def)
    moreover have "hush held c (emit Logged_out) (forget u)"
      using \<open>quiet_conversation held c (forget u)\<close> by (intro hush_emit) simp_all
    ultimately show ?thesis
      by (cases r) (simp_all add: hush_def sbind_def Pair update_def)
  qed
  show ?thesis
    by (rule hush_eq [of _ _ _ "s\<lparr>br_login := None\<rparr>"]) (auto simp: on_logout_def intro!: hush_sbind 1 2)
qed

text \<open>Changes of the books that leave the conversation quiet.\<close>

lemma quiet_put_pending: "quiet_conversation held c s \<Longrightarrow> \<not> (is_thread p \<and> pending_conversation p = c) \<Longrightarrow>
    quiet_conversation held c (s\<lparr>br_pending := hm_put n (p, since) (br_pending s)\<rparr>)"
  by (auto simp: quiet_conversation_def starting_thread_def list_all_iff list_ex_iff set_hm_put)

lemma quiet_put_active: "quiet_conversation held c s \<Longrightarrow> (ac_conversation a = c \<Longrightarrow> ac_cancelled a) \<Longrightarrow>
    quiet_conversation held c (s\<lparr>br_active := hm_put thread a (br_active s)\<rparr>)"
  by (auto simp: quiet_conversation_def starting_thread_def list_all_iff list_ex_iff set_hm_put)

lemma quiet_set_active: "quiet_conversation held c s \<Longrightarrow> (ac_conversation a = c \<Longrightarrow> ac_cancelled a) \<Longrightarrow>
    quiet_conversation held c (s\<lparr>br_active := hm_set thread a (br_active s)\<rparr>)"
  by (auto simp: quiet_conversation_def starting_thread_def list_all_iff list_ex_iff hm_set_def)

lemma quiet_remove:
  "quiet_conversation held c s \<Longrightarrow> quiet_conversation held c (s\<lparr>br_pending := hm_remove n (br_pending s)\<rparr>)"
  "quiet_conversation held c s \<Longrightarrow> quiet_conversation held c (s\<lparr>br_active := filter P (br_active s)\<rparr>)"
  "quiet_conversation held c s \<Longrightarrow> quiet_conversation held c (s\<lparr>br_active := hm_remove thread (br_active s)\<rparr>)"
  by (auto simp: quiet_conversation_def starting_thread_def list_all_iff list_ex_iff hm_remove_def)

lemma quiet_uncancel: "quiet_conversation held c s \<Longrightarrow> d \<noteq> c \<Longrightarrow> quiet_conversation held c (s\<lparr>br_cancelled := removeAll d (br_cancelled s)\<rparr>)"
  by (auto simp: quiet_conversation_def starting_thread_def)

lemma quiet_active: "quiet_conversation held c s \<Longrightarrow> map_of (br_active s) thread = Some a \<Longrightarrow> ac_conversation a = c \<Longrightarrow> ac_cancelled a"
  using map_of_SomeD by (force simp: quiet_conversation_def starting_thread_def list_all_iff list_ex_iff)

lemma hush_begin_turn:
  assumes "quiet_conversation held c s" "d \<noteq> c"
  shows "hush held c (begin_turn thread d txt choice) s"
  unfolding begin_turn_def
proof (intro hush_sbind hush_send hush_update assms)
  fix n and s :: bridge
  assume "quiet_conversation held c s"
  then show "quiet_conversation held c (s\<lparr>br_pending := hm_put n (Pending_turn d, br_now s) (br_pending s),
      br_active := hm_put thread (new_active d (br_now s)) (br_active s)\<rparr>)"
    using quiet_put_active [OF quiet_put_pending [of held c s "Pending_turn d" n "br_now s"], of "new_active d (br_now s)" thread] assms(2)
    by (simp add: new_active_def)
qed simp

lemma hush_on_prompt:
  assumes "quiet_conversation held c s" "d \<noteq> c"
  shows "hush held c (on_prompt env d txt choice) s"
proof -
  let ?s = "s\<lparr>br_cancelled := removeAll d (br_cancelled s)\<rparr>"
  have q: "quiet_conversation held c ?s" using assms by (rule quiet_uncancel)
  have "hush held c (case map_of (br_ids s) d of
          Some thread \<Rightarrow> begin_turn thread d txt choice
        | None \<Rightarrow> sbind (rpc_send ''thread/start'' (thread_params env (mc_model choice))) (\<lambda>n.
            update (\<lambda>s. s\<lparr>br_pending := hm_put n (Pending_thread d txt choice, br_now s) (br_pending s)\<rparr>))) ?s"
    using q assms(2)
    by (auto split: option.split intro!: hush_begin_turn hush_sbind hush_send hush_update quiet_put_pending)
  then have "texts c (snd ((case map_of (br_ids s) d of
          Some thread \<Rightarrow> begin_turn thread d txt choice
        | None \<Rightarrow> sbind (rpc_send ''thread/start'' (thread_params env (mc_model choice))) (\<lambda>n.
            update (\<lambda>s. s\<lparr>br_pending := hm_put n (Pending_thread d txt choice, br_now s) (br_pending s)\<rparr>))) ?s)) = texts c s"
    by (simp add: hush_def texts_def)
  moreover have "hush held c (emit (Failed (Some d) f)) s" for f
    using assms(1) by (intro hush_emit) simp_all
  ultimately show ?thesis
    using \<open>hush held c _ ?s\<close> by (auto simp: hush_def on_prompt_def)
qed

lemma hush_emit_models: "quiet_conversation held c s \<Longrightarrow> hush held c emit_models s"
  using hush_emit [of c "Models (br_options s) (br_choice s)" held s] by (simp add: hush_def emit_models_def)

lemma hush_agent_ready: "quiet_conversation held c s \<Longrightarrow> hush held c (agent_ready env version) s"
  using hush_emit [of c "Ready (version_label version) (br_plan s)" held s] hush_emit [of c Login_required held s]
  by (simp add: hush_def agent_ready_def)

lemma hush_on_set_model: "quiet_conversation held c s \<Longrightarrow> hush held c (on_set_model w) s"
  unfolding on_set_model_def by (intro hush_sbind hush_update hush_emit_models) simp_all

lemma quiet_forget_cancel:
  "quiet_conversation held c s \<Longrightarrow> held \<longrightarrow> d \<noteq> c \<Longrightarrow> quiet_conversation held c (s\<lparr>br_cancelled := removeAll d (br_cancelled s)\<rparr>)"
  by (auto simp: quiet_conversation_def starting_thread_def)

lemma hush_on_reset:
  assumes "quiet_conversation held c s" "held \<longrightarrow> d \<noteq> c"
  shows "hush held c (on_reset d) s"
proof (cases "active_for d s")
  case True
  then show ?thesis using assms by (simp add: hush_def on_reset_def)
next
  case False
  have "hush held c (sbind (case map_of (br_ids s) d of
          None \<Rightarrow> spure (Inr ())
        | Some thread \<Rightarrow> sbind (rpc_send ''thread/unsubscribe'' (JObj [(''threadId'', JStr thread)])) (\<lambda>_. spure (Inr ())))
        (\<lambda>_. update (\<lambda>s. s\<lparr>br_cancelled := removeAll d (br_cancelled s)\<rparr>))) (s\<lparr>br_ids := hm_remove d (br_ids s)\<rparr>)"
    using assms by (auto split: option.split intro!: hush_sbind hush_send hush_update quiet_forget_cancel)
  then show ?thesis using False by (simp add: hush_def on_reset_def texts_def)
qed

lemma hush_cancel_each: "quiet_conversation held c s \<Longrightarrow> hush held c (cancel_each d xs) s"
proof (induction xs arbitrary: s)
  case (Cons e xs)
  obtain thread a where e: "e = (thread, a)" by (cases e)
  show ?case
  proof (cases "ac_conversation a = d")
    case True
    show ?thesis
      using Cons.prems by (auto simp: e True intro!: hush_sbind hush_update quiet_set_active hush_kept [OF kept_interrupt] Cons.IH)
  qed (use Cons in \<open>simp add: e\<close>)
qed simp

lemma hush_on_cancel: "quiet_conversation held c s \<Longrightarrow> hush held c (on_cancel d) s"
  by (rule hush_eq [of _ _ _ "s\<lparr>br_cancelled := List.insert d (br_cancelled s)\<rparr>"])
    (auto simp: on_cancel_def quiet_conversation_def starting_thread_def intro!: hush_cancel_each)

lemma hush_on_command:
  assumes "quiet_conversation held c s" "\<And>t. k \<noteq> Prompt c t" "\<And>t w. k \<noteq> Prompt_with_model c t w" "held \<longrightarrow> k \<noteq> Reset c"
  shows "hush held c (on_command env k) s"
proof (cases k)
  case (Prompt d t)
  then have "hush held c (on_prompt env d t (br_choice s)) s" using assms by (intro hush_on_prompt) auto
  then show ?thesis using Prompt by (simp add: hush_def)
qed (use assms in \<open>auto intro: hush_on_login hush_on_cancel_login hush_on_logout hush_on_prompt hush_on_set_model
    hush_on_reset hush_on_cancel\<close>)

lemma hush_thread_started:
  assumes "quiet_conversation held c s" "d = c \<Longrightarrow> held \<and> c \<in> set (br_cancelled s)"
  shows "hush held c (thread_started d txt choice result) s"
proof -
  have inner: "hush held c (\<lambda>s. if d \<notin> set (br_cancelled s) then begin_turn thread d txt choice s
      else emit (Done d (Some Cancelled_before_start)) s) t"
    if "quiet_conversation held c t" "d = c \<Longrightarrow> held \<and> c \<in> set (br_cancelled t)" for thread and t :: bridge
  proof (cases "d \<in> set (br_cancelled t)")
    case True
    then show ?thesis using hush_emit [of c "Done d (Some Cancelled_before_start)" held t] that by (simp add: hush_def)
  next
    case False
    then show ?thesis using hush_begin_turn [of held c t d thread "txt" choice] that by (auto simp: hush_def)
  qed
  show ?thesis
    unfolding thread_started_def
    using assms by (auto intro!: hush_sbind hush_update inner simp: update_def result_simps)
qed

lemma hush_turn_answered:
  assumes "quiet_conversation held c s"
  shows "hush held c (turn_answered d result) s"
proof (cases "map_of (br_ids s) d")
  case (Some thread)
  show ?thesis
  proof (cases "map_of (br_active s) thread")
    case None
    then show ?thesis using assms Some by (simp add: hush_def turn_answered_def)
  next
    case a: (Some a)
    show ?thesis
    proof (cases "bind_turn (jidx (jidx result ''turn'') ''id'') a")
      case None
      then show ?thesis using a Some by (simp add: hush_def turn_answered_def)
    next
      case b: (Some b)
      let ?s = "s\<lparr>br_active := hm_set thread b (br_active s)\<rparr>"
      have "ac_conversation b = c \<Longrightarrow> ac_cancelled b"
        using b quiet_active [OF assms a] by (auto simp: bind_turn_def split: option.splits if_splits)
      then have "quiet_conversation held c ?s" using assms by (rule quiet_set_active [rotated])
      then have "hush held c (if ac_cancelled b then interrupt thread (ac_turn b) else spure (Inr ())) ?s"
        by (auto intro: hush_kept [OF kept_interrupt])
      then show ?thesis
        by (rule hush_eq [rotated 2]) (simp_all add: turn_answered_def Some a b)
    qed
  qed
qed (use assms in \<open>simp add: hush_def turn_answered_def\<close>)

lemma hush_on_reply:
  assumes "quiet_conversation held c s"
  shows "hush held c (on_reply n msg) s"
proof (cases "map_of (br_pending s) n")
  case None
  then show ?thesis using assms by (simp add: hush_def on_reply_def)
next
  case (Some e)
  obtain request since where e: "e = (request, since)" by (cases e)
  have m: "(n, request, since) \<in> set (br_pending s)" using Some map_of_SomeD by (auto simp: e)
  let ?s = "s\<lparr>br_pending := hm_remove n (br_pending s)\<rparr>"
  have q: "quiet_conversation held c ?s" using assms by (rule quiet_remove)
  show ?thesis
  proof (cases "jget msg ''result''")
    case None
    let ?d = "pending_conversation request"
    have "hush held c (emit (Failed (Some ?d) (Provider_failed (failure_message (jidx msg ''error'') (br_plan s)))))
        (?s\<lparr>br_active := filter (\<lambda>(thread, a). ac_conversation a \<noteq> ?d) (br_active s)\<rparr>)"
      using quiet_remove(2) [OF q] by (intro hush_emit) simp_all
    then show ?thesis
      by (rule hush_eq [rotated 2]) (simp_all add: on_reply_def Some e None Let_def)
  next
    case r: (Some result)
    have "hush held c (case request of Pending_thread d t w \<Rightarrow> thread_started d t w result | Pending_turn d \<Rightarrow> turn_answered d result) ?s"
      using q assms m hush_turn_answered
      by (auto split: pending.split intro!: hush_thread_started simp: quiet_conversation_def starting_thread_def list_all_iff list_ex_iff)
    then show ?thesis
      by (rule hush_eq [rotated 2]) (simp_all add: on_reply_def Some e r Let_def split: pending.split)
  qed
qed

lemma hush_login_completed:
  assumes "quiet_conversation held c s"
  shows "hush held c (login_completed env version params) s"
proof -
  have "hush held c (sbind (rpc_request ''account/read'' (JObj [(''refreshToken'', JBool False)])) (\<lambda>account.
            sbind (update (\<lambda>s. s\<lparr>br_authenticated := jidx params ''success'' = JBool True \<and> is_chatgpt account,
              br_plan := plan_label account, br_options := catalog env,
              br_choice := resolve (catalog env) (br_choice s)\<rparr>)) (\<lambda>_.
            sbind (agent_ready env version) (\<lambda>_. emit_models)))) (s\<lparr>br_login := None\<rparr>)"
    using assms
    by (intro hush_sbind hush_request hush_update hush_agent_ready hush_emit_models) (simp_all add: quiet_conversation_def starting_thread_def)
  then show ?thesis
    using assms by (auto simp: login_completed_def hush_def texts_def split: option.splits)
qed

text \<open>The text of an answer is the only thing that could break the silence, and a cancelled turn has none.\<close>

lemma hush_turn_note:
  assumes "quiet_conversation held c s" "map_of (br_active s) thread = Some a"
  shows "hush held c (turn_note m thread params a) s"
proof -
  have cancelled: "ac_conversation a = c \<Longrightarrow> ac_cancelled a" using quiet_active [OF assms] .
  have 1: "hush held c (emit (Done d r)) (s\<lparr>br_active := hm_remove thread (br_active s)\<rparr>)" for d r
    using assms(1) by (intro hush_emit quiet_remove) simp_all
  have 2: "hush held c (emit (Text_event (ac_conversation a) t)) (s\<lparr>br_active := hm_set thread (a\<lparr>ac_bytes := k\<rparr>) (br_active s)\<rparr>)"
    if "\<not> ac_cancelled a" for t k
    using assms(1) cancelled that by (intro hush_emit quiet_set_active) auto
  have 3: "quiet_conversation held c (s\<lparr>br_active := hm_set thread b (br_active s)\<rparr>)" if "bind_turn j a = Some b" for j b
    using assms(1) cancelled that by (intro quiet_set_active) (auto simp: bind_turn_def split: option.splits if_splits)
  have 4: "hush held c (sbind (emit (Blocked d)) (\<lambda>_. spure (Inl ()))) s" for d
    using assms(1) by (intro hush_sbind hush_emit) simp_all
  have none: "hush held c m s" if "m s = (r, s)" for m :: "unit bridge_action" and r
    using assms(1) that by (simp add: hush_def)
  let ?started = "m = ''turn/started''"
  let ?forbidden = "m = ''item/started'' \<and> forbidden_item (str_or [] (jidx (jidx params ''item'') ''type''))"
  let ?delta = "m = ''item/agentMessage/delta'' \<and> \<not> ac_cancelled a \<and> matches_turn (jidx params ''turnId'') a"
  let ?completed = "m = ''turn/completed'' \<and> matches_turn (jidx (jidx params ''turn'') ''id'') a"
  consider (started) ?started | (forbidden) "\<not> ?started" ?forbidden | (delta) "\<not> ?started" "\<not> ?forbidden" ?delta
    | (completed) "\<not> ?started" "\<not> ?forbidden" "\<not> ?delta" ?completed
    | (other) "\<not> ?started" "\<not> ?forbidden" "\<not> ?delta" "\<not> ?completed" by argo
  then show ?thesis
  proof cases
    case started
    show ?thesis
    proof (cases "bind_turn (jidx (jidx params ''turn'') ''id'') a")
      case None
      show ?thesis
        using assms(1) started None by (simp add: hush_def turn_note_def Let_def)
    next
      case (Some b)
      then show ?thesis
        using assms(1) started 3 [OF Some] by (simp add: hush_def turn_note_def Let_def texts_def)
    qed
  next
    case forbidden
    show ?thesis by (rule hush_eq [OF _ _ 4]) (simp_all add: turn_note_def Let_def forbidden)
  next
    case delta
    show ?thesis
    proof (cases "as_str (jidx params ''delta'')")
      case None
      show ?thesis by (rule none) (simp add: turn_note_def Let_def delta None)
    next
      case (Some x)
      have "m \<noteq> ''turn/started''" "m \<noteq> ''item/started''" using delta by auto
      then have e: "turn_note m thread params a s =
          (let s = s\<lparr>br_active := hm_set thread (a\<lparr>ac_bytes := ac_bytes a + length x\<rparr>) (br_active s)\<rparr> in
           if max_answer < ac_bytes a + length x then (Inl (), s) else emit (Text_event (ac_conversation a) x) s)"
        using delta(3) Some by (simp add: turn_note_def Let_def)
      have "\<not> ac_cancelled a" using delta by blast
      from 2 [OF this] show ?thesis
        by (simp add: hush_def e Let_def texts_def)
    qed
  next
    case completed
    then have "\<exists>r. turn_note m thread params a s = emit (Done (ac_conversation a) r) (s\<lparr>br_active := hm_remove thread (br_active s)\<rparr>)"
      by (simp add: turn_note_def Let_def) blast
    then show ?thesis using hush_eq [OF _ _ 1] by fastforce
  next
    case other
    then have "turn_note m thread params a s = (Inr (), s)"
      unfolding turn_note_def Let_def by (simp only: if_False)
    then show ?thesis by (rule none)
  qed
qed

lemma hush_on_notice:
  assumes "quiet_conversation held c s"
  shows "hush held c (on_notice env version msg) s"
proof -
  have "hush held c (\<lambda>s. (Inr (), s)) s" using assms by (simp add: hush_def)
  then show ?thesis
    using hush_login_completed [OF assms, of env version "jidx msg ''params''"] hush_turn_note [OF assms]
    by (auto simp: on_notice_def Let_def hush_def split: option.split)
qed

lemma hush_on_frame:
  assumes "quiet_conversation held c s"
  shows "hush held c (on_frame env version) s"
proof -
  have "hush held c (if jget msg ''id'' \<noteq> None \<and> jget msg ''method'' \<noteq> None then rpc_deny msg
       else (case as_u64 (jidx msg ''id'') of Some n \<Rightarrow> on_reply n msg | None \<Rightarrow> on_notice env version msg)) t"
    if "quiet_conversation held c t" for msg t
  proof -
    have "hush held c (rpc_deny msg) t"
      unfolding rpc_deny_def using that by (intro hush_kept kept_write)
    then show ?thesis
      using hush_on_reply [OF that] hush_on_notice [OF that] by (simp split: option.split)
  qed
  then show ?thesis
    unfolding on_frame_def by (intro hush_sbind hush_kept [OF kept_read] assms)
qed

lemma hush_on_tick:
  assumes "quiet_conversation held c s"
  shows "hush held c on_tick s"
proof -
  have "hush held c (\<lambda>s. if login_expired s then on_cancel_login s else (Inr (), s)) s"
    using hush_on_cancel_login [OF assms] assms by (simp add: hush_def)
  then show ?thesis
    unfolding on_tick_def by (rule hush_sbind) (simp add: hush_done)
qed

text \<open>What could wake a conversation: a prompt, or, where a start is held by the cancellation, a reset.\<close>

fun wakes :: "bool \<Rightarrow> nat \<Rightarrow> ready \<Rightarrow> bool" where
  "wakes held c (Command_ready (Prompt d t)) \<longleftrightarrow> d = c"
| "wakes held c (Command_ready (Prompt_with_model d t w)) \<longleftrightarrow> d = c"
| "wakes held c (Command_ready (Reset d)) \<longleftrightarrow> held \<and> d = c"
| "wakes held c _ \<longleftrightarrow> False"

lemma hush_serve_step:
  assumes "quiet_conversation held c s" "\<not> wakes held c r"
  shows "hush held c (serve_step env version now r) s"
proof -
  have q: "quiet_conversation held c (s\<lparr>br_now := now\<rparr>)" using assms by simp
  show ?thesis
  proof (cases r)
    case (Command_ready k)
    have "hush held c (on_command env k) (s\<lparr>br_now := now\<rparr>)"
      using q assms(2) Command_ready by (intro hush_on_command) auto
    then show ?thesis by (rule hush_eq [rotated 2]) (simp_all add: Command_ready)
  next
    case Frame_ready
    show ?thesis using hush_on_frame [OF q] by (rule hush_eq [rotated 2]) (simp_all add: Frame_ready)
  next
    case Tick_ready
    show ?thesis using hush_on_tick [OF q] by (rule hush_eq [rotated 2]) (simp_all add: Tick_ready)
  qed (use assms in simp)
qed

lemma hush_serve_loop:
  "quiet_conversation held c s \<Longrightarrow> list_all (\<lambda>(now, r). \<not> wakes held c r) script \<Longrightarrow> hush held c (serve_loop env version script) s"
proof (induction script arbitrary: s)
  case (Cons e script)
  obtain now r where e: "e = (now, r)" by (cases e)
  show ?case
  proof (cases "r = Commands_closed")
    case False
    then show ?thesis using Cons by (auto simp: e intro!: hush_sbind hush_serve_step)
  qed (use Cons in \<open>simp add: e hush_def\<close>)
qed simp

text \<open>A cancellation makes its conversation quiet.\<close>

lemma cancel_each_quiets:
  "cancel_each c xs s = (Inr u, s') \<Longrightarrow> c \<in> set (br_cancelled s) \<Longrightarrow>
     (\<And>e. e \<in> set (br_active s) \<Longrightarrow> ac_conversation (snd e) = c \<Longrightarrow> ac_cancelled (snd e) \<or> e \<in> set xs) \<Longrightarrow>
     hm_ok (br_active s) \<Longrightarrow> held \<or> \<not> starting_thread c s \<Longrightarrow> quiet_conversation held c s' \<and> texts c s' = texts c s"
proof (induction xs arbitrary: s)
  case Nil
  then show ?case by (auto simp: quiet_conversation_def list_all_iff)
next
  case (Cons e xs)
  obtain thread a where e: "e = (thread, a)" by (cases e)
  show ?case
  proof (cases "ac_conversation a = c")
    case False
    have "ac_cancelled (snd d) \<or> d \<in> set xs" if "d \<in> set (br_active s)" "ac_conversation (snd d) = c" for d
      using Cons.prems(3) [OF that] that(2) False by (auto simp: e)
    then show ?thesis
      using Cons.prems(1,2,4,5) False by (intro Cons.IH) (simp_all add: e)
  next
    case True
    let ?a = "a\<lparr>ac_cancelled := True, ac_cancel_started := Some (br_now s)\<rparr>"
    let ?s = "s\<lparr>br_active := hm_set thread ?a (br_active s)\<rparr>"
    obtain s1 where 1: "interrupt thread (ac_turn a) ?s = (Inr (), s1)" and 2: "cancel_each c xs s1 = (Inr u, s')"
      using Cons.prems(1) True by (auto simp: e result_simps update_def)
    have k: "same_book ?s s1" "pr_events s1 = pr_events s" using interrupt_kept [OF 1] by (simp_all add: kept_def)
    note f = same_book_fields [OF k(1)]
    have "ac_cancelled (snd d) \<or> d \<in> set xs"
      if "d \<in> set (hm_set thread ?a (br_active s))" "ac_conversation (snd d) = c" for d
    proof (cases "fst d = thread")
      case True
      then have "snd d = ?a" using that(1) by (cases d) (auto simp: hm_set_def split: if_splits)
      then show ?thesis by simp
    next
      case False
      then have "d \<in> set (br_active s)" using that(1) by (auto simp: hm_set_def split: if_splits)
      then show ?thesis using Cons.prems(3) [OF _ that(2)] False by (auto simp: e)
    qed
    moreover have "held \<or> \<not> starting_thread c s1"
      using Cons.prems(5) by (simp add: starting_thread_def f)
    ultimately have "quiet_conversation held c s' \<and> texts c s' = texts c s1"
      using 2 Cons.prems(2,4) by (intro Cons.IH) (simp_all add: f)
    then show ?thesis by (simp add: texts_def k)
  qed
qed

lemma on_cancel_quiets:
  assumes "bridge_ok s" "on_cancel c s = (Inr u, s')"
  shows "quiet_conversation (starting_thread c s) c s' \<and> texts c s' = texts c s"
proof -
  let ?s = "s\<lparr>br_cancelled := List.insert c (br_cancelled s)\<rparr>"
  have "quiet_conversation (starting_thread c s) c s' \<and> texts c s' = texts c ?s"
    using assms(1) by (intro cancel_each_quiets [OF assms(2) [unfolded on_cancel_def]])
      (auto simp: bridge_ok_def turns_ok_def starting_thread_def)
  then show ?thesis by (simp add: texts_def)
qed

lemma cancel_each_events: "pr_events (snd (cancel_each c xs s)) = pr_events s"
proof (induction xs arbitrary: s)
  case (Cons e xs)
  obtain thread a where e: "e = (thread, a)" by (cases e)
  let ?s = "s\<lparr>br_active := hm_set thread (a\<lparr>ac_cancelled := True, ac_cancel_started := Some (br_now s)\<rparr>) (br_active s)\<rparr>"
  obtain r s1 where 1: "interrupt thread (ac_turn a) ?s = (r, s1)" by (cases "interrupt thread (ac_turn a) ?s")
  have "pr_events s1 = pr_events s" using interrupt_kept [OF 1] by (simp add: kept_def)
  then show ?case
    using Cons by (cases r) (simp_all add: e update_def sbind_def 1)
qed simp

lemma cancelled_texts:
  assumes "bridge_ok s" "list_all (\<lambda>(now, r). \<not> wakes (starting_thread c s) c r) script"
    and "serve_loop env version ((now, Command_ready (Cancel c)) # script) s = (r, s')"
  shows "texts c s' = texts c s"
proof -
  let ?s = "s\<lparr>br_now := now\<rparr>"
  have ok: "bridge_ok ?s" using assms(1) by (simp add: bridge_ok_def)
  obtain x s1 where c: "on_cancel c ?s = (x, s1)" by (cases "on_cancel c ?s")
  have events: "texts c s1 = texts c s"
    using cancel_each_events [of c "br_active ?s" "?s\<lparr>br_cancelled := List.insert c (br_cancelled ?s)\<rparr>"] c
    by (simp add: on_cancel_def texts_def)
  show ?thesis
  proof (cases x)
    case (Inl e)
    then show ?thesis using assms(3) events by (simp add: sbind_def c)
  next
    case (Inr u)
    then have "quiet_conversation (starting_thread c s) c s1" using on_cancel_quiets [OF ok] c by (simp add: starting_thread_def)
    moreover have "serve_loop env version script s1 = (r, s')" using assms(3) by (simp add: sbind_def c Inr)
    ultimately show ?thesis
      using hush_serve_loop [OF _ assms(2), of s1 env version] events by (simp add: hush_def)
  qed
qed

subsection \<open>The bridge\<close>

text \<open>
  C14: After a conversation is cancelled, not a byte of an answer reaches the panel under its number until it is
  asked again, whatever the provider sends, whatever else is asked, and whether or not the interruption could
  be written. A reset does not change that, unless the thread of the conversation was still being started
  when it was cancelled: then the silence is promised until the reset, which makes the bridge forget the
  cancellation.
\<close>

theorem cancelled_stays_quiet:
  assumes "serve_conversation env version account before s\<^sub>0 = (Inr False, s)"
    and "list_all (\<lambda>(now, r). \<not> wakes (starting_thread c s) c r) script"
    and "serve_loop env version ((now, Command_ready (Cancel c)) # script) s = (r, s')"
  shows "texts c s' = texts c s"
  using cancelled_texts [OF serve_ok [OF assms(1)] assms(2,3)] .

lemma demo_serve:
  "serve_conversation bridge_env_demo ''0.162.0'' demo_account script (started fs) = serve_loop bridge_env_demo ''0.162.0'' script (serving fs)"
  by (simp add: serve_conversation_def demo_begins)

definition busy_script :: "(nat \<times> ready) list" where
  "busy_script = [(0, Command_ready (Prompt 7 ''q'')), (1, Frame_ready), (2, Frame_ready), (3, Frame_ready)]"

definition late_frames :: "json option list" where
  "late_frames = [thread_reply, turn_reply, delta ''u'' ''a'', delta ''u'' ''late'']"

lemma cancelled_stays_quiet_witness:
  "\<exists>s s'. serve_conversation bridge_env_demo ''0.162.0'' demo_account busy_script (started late_frames) = (Inr False, s) \<and>
     serve_loop bridge_env_demo ''0.162.0'' [(4, Command_ready (Cancel 7)), (5, Command_ready (Reset 7)), (6, Frame_ready)] s = (Inr False, s') \<and>
     texts 7 s = [Text_event 7 ''a''] \<and> texts 7 s' = [Text_event 7 ''a'']"
proof -
  define s where "s = snd (serve_loop bridge_env_demo ''0.162.0'' busy_script (serving late_frames))"
  define s' where "s' = snd (serve_loop bridge_env_demo ''0.162.0'' [(4, Command_ready (Cancel 7)), (5, Command_ready (Reset 7)), (6, Frame_ready)] s)"
  note steps = bridge_steps demo_resolve serving_def started_def idle_bridge_def max_prompt_def max_answer_def
      thread_reply_def turn_reply_def delta_def demo_reply_def demo_numbers busy_script_def late_frames_def
  have 1: "serve_loop bridge_env_demo ''0.162.0'' busy_script (serving late_frames) = (Inr False, s)"
    unfolding s_def by (simp add: steps)
  have t: "texts 7 s = [Text_event 7 ''a'']" unfolding s_def by (simp add: steps texts_def)
  have 2: "serve_loop bridge_env_demo ''0.162.0'' ((4, Command_ready (Cancel 7)) # [(5, Command_ready (Reset 7)), (6, Frame_ready)]) s = (Inr False, s')"
    unfolding s'_def s_def by (simp add: steps)
  have 3: "serve_conversation bridge_env_demo ''0.162.0'' demo_account busy_script (started late_frames) = (Inr False, s)"
    using 1 by (simp add: demo_serve)
  have "\<not> starting_thread 7 s" unfolding s_def by (simp add: steps starting_thread_def)
  then have "texts 7 s' = texts 7 s"
    by (intro cancelled_stays_quiet [OF 3 _ 2]) simp
  then show ?thesis using 2 3 t by (intro exI [of _ s] exI [of _ s']) simp
qed

text \<open>A run is a start, \<open>serve\<close> and a stop.\<close>

lemma run_ok:
  assumes "run env script s = (Inr ended, s')"
  shows "bridge_ok s'"
proof -
  obtain x s1 where 1: "bootstrap env s = (Inr x, s1)"
    using assms by (auto simp: run_def result_simps)
  obtain account version where x: "x = (account, version)" by (cases x)
  obtain y s2 where 2: "serve_conversation env version account script s1 = (y, s2)" by (cases "serve_conversation env version account script s1")
  then obtain b where y: "y = Inr b" using assms by (cases y) (simp_all add: run_def sbind_def 1 x)
  with 2 have v: "serve_conversation env version account script s1 = (Inr b, s2)" by simp
  have c: "(case b of False \<Rightarrow> (Inr False, s2) | True \<Rightarrow> sbind (at_stage Exit_unconfirmed rpc_close) (\<lambda>_. spure (Inr True)) s2) = (Inr ended, s')"
    using assms by (simp add: run_def sbind_def 1 x v split: bool.splits)
  have ok: "bridge_ok s2" using serve_ok [OF v] .
  have "same_book s2 s'"
    using c by (cases b)
      (auto simp: at_stage_def smap_error_Inr result_simps rpc_close_def pr_call_def same_book_def split: if_splits list.splits)
  then show ?thesis using ok by (rule bridge_ok_same)
qed

text \<open>
  C15: Whatever the provider sends and whatever is commanded, while the bridge runs a conversation has at most
  one request and at most one turn open, at most eight conversations are open at all, an answer has at most
  128 KiB, a turn runs in the thread of its conversation, and nothing is open without an authenticated account.
\<close>

theorem bridge_books_in_order:
  assumes "run env script s = (Inr ended, s')"
  shows "distinct (asking (br_pending s')) \<and> distinct (answering (br_active s')) \<and>
    card (set (asking (br_pending s')) \<union> set (answering (br_active s'))) \<le> 8 \<and>
    list_all (\<lambda>(thread, a). map_of (br_ids s') (ac_conversation a) = Some thread \<and> ac_bytes a \<le> 128 * 1024) (br_active s') \<and>
    (br_authenticated s' \<or> br_pending s' = [] \<and> br_active s' = [])"
  using run_ok [OF assms] by (auto simp: bridge_ok_def turns_ok_def active_ok_def max_answer_def list_all_iff)

lemma demo_run_busy:
  "\<exists>s'. run bridge_env_demo busy_script (idle_bridge [demo_process late_frames]) = (Inr False, s') \<and>
     br_active s' = [(''t'', (new_active 7 1)\<lparr>ac_turn := Some ''u'', ac_bytes := 1\<rparr>)]"
proof -
  define s where "s = snd (serve_loop bridge_env_demo ''0.162.0'' busy_script (serving late_frames))"
  note steps = bridge_steps demo_resolve serving_def started_def idle_bridge_def max_prompt_def max_answer_def
      thread_reply_def turn_reply_def delta_def demo_reply_def demo_numbers busy_script_def late_frames_def
  have "serve_loop bridge_env_demo ''0.162.0'' busy_script (serving late_frames) = (Inr False, s)"
    unfolding s_def by (simp add: steps)
  moreover have "br_active s = [(''t'', (new_active 7 1)\<lparr>ac_turn := Some ''u'', ac_bytes := 1\<rparr>)]"
    unfolding s_def by (simp add: steps)
  ultimately show ?thesis
    by (simp add: run_def sbind_def demo_booted_last demo_serve)
qed

lemma bridge_books_in_order_witness:
  "\<exists>s'. run bridge_env_demo busy_script (idle_bridge [demo_process late_frames]) = (Inr False, s') \<and>
     answering (br_active s') = [7] \<and> map_of (br_ids s') 7 = Some ''t''"
proof -
  obtain s' where r: "run bridge_env_demo busy_script (idle_bridge [demo_process late_frames]) = (Inr False, s')"
      and a: "br_active s' = [(''t'', (new_active 7 1)\<lparr>ac_turn := Some ''u'', ac_bytes := 1\<rparr>)]"
    using demo_run_busy by blast
  show ?thesis
    using bridge_books_in_order [OF r] r by (intro exI [of _ s']) (simp add: a new_active_def)
qed

text \<open>
  C13: Everything that is ever written to the provider is a request from the list, a denial or the notice after
  the start; threads are started read-only, ephemeral, without approvals and under the system prompt, turns
  without approvals. And whatever process is in use, the first one or a fresh one after a logout, no thread is
  started and no turn is asked for at it unless it has an accepted version and has confirmed a safe
  configuration and an empty list of MCP servers with no further page.
\<close>

theorem conversations_isolated:
  assumes "run env script s = (r, s')" "pr_written s = []"
  shows "list_all permitted (pr_written s') \<and> isolated env None (pr_written s')"
  using run_shielded [of env s script] assms by (simp add: shielded_def)

text \<open>A conversation, a logout and the login at the fresh process.\<close>

definition logout_frames :: "json option list" where
  "logout_frames = [thread_reply, turn_reply, demo_reply ''7'' (JObj []), demo_reply ''8'' (JObj [(''account'', JNull)])]"

definition fresh_process :: process where
  "fresh_process = \<lparr>ps_version = Some ''codex-cli 0.162.0'', ps_spawned = True, ps_piped = True,
     ps_frames = take 3 demo_frames @ [demo_reply ''4'' (JObj [(''account'', JNull)])]\<rparr>"

definition logout_script :: "(nat \<times> ready) list" where
  "logout_script = [(0, Command_ready (Prompt 7 ''q'')), (1, Frame_ready), (2, Frame_ready), (3, Command_ready Logout)]"

lemma logout_run:
  "\<exists>s'. run bridge_env_demo logout_script (idle_bridge [demo_process logout_frames, fresh_process]) = (Inr False, s') \<and>
     Request 6 ''turn/start'' (turn_params ''t'' ''q'' default_choice) \<in> set (pr_written s') \<and>
     Started fresh_process \<in> set (pr_written s')"
proof -
  define s where "s = (serving logout_frames)\<lparr>pr_processes := [fresh_process]\<rparr>"
  define s' where "s' = snd (serve_loop bridge_env_demo ''0.162.0'' logout_script s)"
  note steps = bridge_steps demo_resolve serving_def started_def idle_bridge_def max_prompt_def
      thread_reply_def turn_reply_def demo_reply_def demo_numbers logout_script_def logout_frames_def
  have begins: "serve_begin bridge_env_demo ''0.162.0'' demo_account ((started logout_frames)\<lparr>pr_processes := [fresh_process]\<rparr>) = (Inr (), s)"
    by (simp add: bridge_steps demo_resolve demo_plan started_def serving_def idle_bridge_def s_def)
  have "launch (s0 :: bridge) = (Inr ''0.162.0'', s0\<lparr>pr_processes := [], pr_frames := ps_frames fresh_process,
      pr_running := True, pr_next_id := 0, pr_written := pr_written s0 @ [Started fresh_process]\<rparr>)"
    if "pr_processes s0 = [fresh_process]" for s0
    using that by (simp add: launch_def fresh_process_def Let_def starts_with_def accepted_version_def
      validated_version_def codex_version_def demo_version)
  note logout_steps = this logout_def on_logout_def bootstrap_def handshake_def at_stage_def smap_error_def rpc_close_def no_account_def
    is_object_def demo_safe forget_def
  have 1: "serve_loop bridge_env_demo ''0.162.0'' logout_script s = (Inr False, s')"
    unfolding s'_def s_def by (simp add: steps logout_steps fresh_process_def demo_frames_def)
  have 2: "Request 6 ''turn/start'' (turn_params ''t'' ''q'' default_choice) \<in> set (pr_written s')"
    "Started fresh_process \<in> set (pr_written s')"
    unfolding s'_def s_def by (simp_all add: steps logout_steps fresh_process_def demo_frames_def)
  have "run bridge_env_demo logout_script (idle_bridge [demo_process logout_frames, fresh_process]) = (Inr False, s')"
    using 1 by (simp add: run_def sbind_def demo_booted serve_conversation_def begins)
  with 2 show ?thesis by blast
qed

theorem conversations_isolated_witness:
  "\<exists>s'. run bridge_env_demo logout_script (idle_bridge [demo_process logout_frames, fresh_process]) = (Inr False, s') \<and>
     Request 6 ''turn/start'' (turn_params ''t'' ''q'' default_choice) \<in> set (pr_written s') \<and>
     Started fresh_process \<in> set (pr_written s') \<and>
     list_all permitted (pr_written s') \<and> isolated bridge_env_demo None (pr_written s')"
proof -
  have "pr_written (idle_bridge [demo_process logout_frames, fresh_process]) = []" by (simp add: idle_bridge_def)
  with logout_run conversations_isolated show ?thesis by blast
qed

end
