(* ===== verification/Bundle.thy ===== *)
theory Bundle
  imports Notebook_Store Analysis "HOL-Library.List_Lexorder" "HOL-Library.Char_ord"
begin

text \<open>
  The plan of a portable investigation, \<open>crates/netlane-ai/src/bundle.rs\<close>: which dumps a notebook and the
  current selection refer to, the manifest that lists them, its validation, and the choice of the sources
  that are copied.
\<close>

definition max_captures :: nat where "max_captures = 128"
definition max_capture_bytes :: nat where "max_capture_bytes = max_dump_bytes"

record source =
  so_path :: folder_path
  so_sha256 :: string
  so_bytes :: nat
  so_packets :: nat
  so_format :: string
  so_provenance :: "string option"

record capture_entry =
  en_file :: string
  en_sha256 :: string
  en_bytes :: nat
  en_packets :: nat
  en_format :: string
  en_provenance :: "string option"

record inputs =
  in_problem :: string
  in_question :: string

record manifest =
  mf_schema :: nat
  mf_captures :: "capture_entry list"
  mf_current :: evidence
  mf_inputs :: inputs

datatype bundle_error =
    Notebook_rejected notebook_error | Context_rejected evidence_error | Inputs_too_long
  | Capture_count | Capture_metadata | Capture_name | Budget_overflow | Budget_exceeded
  | References_differ | Dump_missing | Context_differs | Too_many_sources | Source_duplicated
  | Dump_unavailable string

definition capture_extension :: "string \<Rightarrow> string" where
  "capture_extension format = (if format = ''PCAP'' then ''pcap'' else ''pcapng'')"

definition source_entry :: "source \<Rightarrow> capture_entry" where
  "source_entry s =
     (let hash = to_ascii_lowercase (so_sha256 s) in
      \<lparr>en_file = ''captures/'' @ hash @ ''.'' @ capture_extension (so_format s), en_sha256 = hash,
       en_bytes = so_bytes s, en_packets = so_packets s, en_format = so_format s, en_provenance = so_provenance s\<rparr>)"

definition inputs_validate :: "inputs \<Rightarrow> bundle_error + unit" where
  "inputs_validate i = ensure (length (in_problem i) \<le> max_problem_bytes \<and> length (in_question i) \<le> 4096) Inputs_too_long"

definition contexts :: "notebook \<Rightarrow> evidence \<Rightarrow> evidence list" where
  "contexts book current =
     map (\<lambda>t. dr_context (tn_draft t)) (nb_turns book) @ map nt_context (nb_notes book) @ [current]"

definition context_hashes :: "evidence \<Rightarrow> string list" where
  "context_hashes c = to_ascii_lowercase (cx_sha256 c) #
     (case cx_analysis c of
        None \<Rightarrow> []
      | Some a \<Rightarrow> (case ae_baseline_sha256 a of None \<Rightarrow> [] | Some h \<Rightarrow> [to_ascii_lowercase h]))"

text \<open>The set of the hashes, in the order of their bytes.\<close>

definition required :: "notebook \<Rightarrow> evidence \<Rightarrow> string list" where
  "required book current = sorted_list_of_set (set (concat (map context_hashes (contexts book current))))"

definition lower_hash :: "string \<Rightarrow> bool" where
  "lower_hash s \<longleftrightarrow> length s = 64 \<and> list_all (\<lambda>c. is_ascii_hexdigit c \<and> \<not> is_ascii_upper c) s"

definition entry_ok :: "capture_entry \<Rightarrow> bool" where
  "entry_ok e \<longleftrightarrow> lower_hash (en_sha256 e) \<and> en_format e \<in> {''PCAP'', ''PCAPNG''} \<and> 0 < en_bytes e
     \<and> en_bytes e \<le> max_capture_bytes \<and> en_packets e \<le> max_dump_records
     \<and> (case en_provenance e of None \<Rightarrow> True | Some p \<Rightarrow> length p \<le> 4096)"

text \<open>The entry as a source without a path.\<close>

definition entry_source :: "capture_entry \<Rightarrow> source" where
  "entry_source e = \<lparr>so_path = [], so_sha256 = en_sha256 e, so_bytes = en_bytes e, so_packets = en_packets e,
     so_format = en_format e, so_provenance = en_provenance e\<rparr>"

fun check_entries :: "capture_entry list \<Rightarrow> string list \<Rightarrow> nat \<Rightarrow> bundle_error + (string list \<times> nat)" where
  "check_entries [] hashes bytes = Inr (hashes, bytes)"
| "check_entries (e # es) hashes bytes =
     rbind (ensure (entry_ok e \<and> en_sha256 e \<notin> set hashes) Capture_metadata) (\<lambda>_.
     rbind (ensure (en_file e = en_file (source_entry (entry_source e))) Capture_name) (\<lambda>_.
     rbind (ensure (bytes + en_bytes e < 2 ^ 64) Budget_overflow) (\<lambda>_.
       check_entries es (en_sha256 e # hashes) (bytes + en_bytes e))))"

definition check_context :: "capture_entry list \<Rightarrow> evidence \<Rightarrow> bundle_error + unit" where
  "check_context captures c =
     rbind (ok_or (find (\<lambda>e. eq_ignore_ascii_case (en_sha256 e) (cx_sha256 c)) captures) Dump_missing) (\<lambda>e.
       ensure (en_packets e = cx_total_packets c \<and> en_format e = cx_format c) Context_differs)"

definition bundle_validate ::
    "evidence_json \<Rightarrow> notebook \<Rightarrow> evidence \<Rightarrow> capture_entry list \<Rightarrow> bundle_error + nat" where
  "bundle_validate ej book current captures =
     rbind (map_sum Notebook_rejected id (notebook_validate ej book)) (\<lambda>_.
     rbind (map_sum Context_rejected id (context_validate ej current)) (\<lambda>_.
     rbind (ensure (captures \<noteq> [] \<and> length captures \<le> max_captures) Capture_count) (\<lambda>_.
     rbind (check_entries captures [] 0) (\<lambda>(hashes, bytes).
     rbind (ensure (bytes \<le> max_capture_bytes) Budget_exceeded) (\<lambda>_.
     rbind (ensure (set hashes = set (required book current)) References_differ) (\<lambda>_.
     rbind (check_all (check_context captures) (contexts book current)) (\<lambda>_. Inr bytes)))))))"

fun unique_sources :: "source list \<Rightarrow> (string \<times> source) list \<Rightarrow> bundle_error + (string \<times> source) list" where
  "unique_sources [] m = Inr m"
| "unique_sources (s # ss) m =
     rbind (ensure (map_of m (to_ascii_lowercase (so_sha256 s)) = None) Source_duplicated) (\<lambda>_.
       unique_sources ss (bt_put (to_ascii_lowercase (so_sha256 s)) s m))"

fun select_sources :: "string list \<Rightarrow> (string \<times> source) list \<Rightarrow> bundle_error + source list" where
  "select_sources [] m = Inr []"
| "select_sources (h # hs) m =
     rbind (ok_or (map_of m h) (Dump_unavailable h)) (\<lambda>s.
     rbind (select_sources hs (bt_remove h m)) (\<lambda>ss. Inr (s # ss)))"

definition bundle_plan :: "evidence_json \<Rightarrow> notebook \<Rightarrow> evidence \<Rightarrow> source list \<Rightarrow> bundle_error + source list" where
  "bundle_plan ej book current sources =
     rbind (ensure (length sources \<le> max_captures) Too_many_sources) (\<lambda>_.
     rbind (unique_sources sources []) (\<lambda>unique.
     rbind (select_sources (required book current) unique) (\<lambda>selected.
     rbind (bundle_validate ej book current (map source_entry selected)) (\<lambda>_. Inr selected))))"

end
