(* ===== verification/Bundle_Store.thy ===== *)
theory Bundle_Store
  imports Bundle Lookup
begin

text \<open>
  Saving and opening a portable investigation, \<open>crates/netlane-ai/src/bundle.rs\<close>: a new folder with the
  notebook, the reports of its turns and a verified copy of every dump it refers to, and the manifest
  \<open>bundle.json\<close> last. Every call of the file system takes the next entry of the script of faults; so does
  every look at the flag that cancels, where a fault means cancelled, and the second look at a file's
  metadata, where it means that the file has changed. What \<open>serde_json\<close> writes and reads and SHA-256 are
  parameters, and \<open>bn_taken\<close> says how far a dump had been copied when its analysis failed.
\<close>

definition max_manifest_bytes :: nat where "max_manifest_bytes = 512 * 1024"
definition max_report_bytes :: nat where "max_report_bytes = 2 * 1024 * 1024"

datatype bundle_failure =
    Planning_failed bundle_error | Store_refused store_error | Notebook_unsaved save_error
  | Report_unsaved save_error | Notebook_unloaded load_error | Dump_rejected reader_error
  | Packet_unrecovered lookup_error | Cancelled | Path_not_absolute | Path_component_refused | No_parent
  | Length_differs | Length_over_limit | Source_differs | Copy_differs | Destination_taken
  | Report_receipt_invalid | Report_receipt_differs | Report_too_long | Report_differs | Report_hash_differs
  | Manifest_unwritable | Manifest_too_large | Manifest_invalid | Manifest_incompatible | Manifest_changed
  | Notebook_changed | Current_dump_missing

record bundle_env =
  bn_paths :: path_view
  bn_json :: evidence_json
  bn_book :: book_text
  bn_report :: report_text
  bn_parse_report :: "string \<Rightarrow> report_receipt option"
  bn_manifest :: "manifest \<Rightarrow> string option"
  bn_parse_manifest :: "string \<Rightarrow> manifest option"
  bn_compact :: "notebook \<Rightarrow> string option"
  bn_sha :: "u8 list \<Rightarrow> string"
  bn_cancel :: "nat \<Rightarrow> bool"
  bn_stopped :: bool
  bn_chunk :: "nat \<Rightarrow> nat"
  bn_taken :: "string \<Rightarrow> nat"

type_synonym 'a bundling = "(store, bundle_failure, 'a) action"

definition file_octets :: "string \<Rightarrow> u8 list" where
  "file_octets s = map (\<lambda>c. of_nat (code c)) s"

definition format_label :: "capture_format \<Rightarrow> string" where
  "format_label f = (case f of Pcap \<Rightarrow> ''PCAP'' | PcapNg \<Rightarrow> ''PCAPNG'')"

subsection \<open>Local paths and bounded files\<close>

definition io_step :: "'a store_action \<Rightarrow> 'a bundling" where
  "io_step m = smap_error Store_refused m"

definition check_cancel :: "unit bundling" where
  "check_cancel = smap_error (\<lambda>_. Cancelled) st_call"

definition component_ok :: "string \<Rightarrow> bool" where
  "component_ok c \<longleftrightarrow> CHR '':'' \<notin> set c \<and> c \<noteq> ''..''"

definition local_path :: "bundle_env \<Rightarrow> folder_path \<Rightarrow> bool \<Rightarrow> unit bundling" where
  "local_path env p directory =
     (let text = pv_text (bn_paths env) p in
      sbind (spure (ensure (pv_absolute (bn_paths env) p \<and> \<not> prefix [CHR 0x5C, CHR 0x5C] text
        \<and> \<not> prefix ''//'' text) Path_not_absolute)) (\<lambda>_.
      sbind (spure (ensure (list_all component_ok p) Path_component_refused)) (\<lambda>_.
      sbind (io_step (plain_path p directory)) (\<lambda>_.
        io_step (plain_paths (tl (path_ancestors p)))))))"

definition file_length :: "folder_path \<Rightarrow> nat store_action" where
  "file_length p = sbind st_call (\<lambda>_ s.
     case st_entries s p of Some (File bytes) \<Rightarrow> (Inr (length bytes), s) | _ \<Rightarrow> (Inl Call_failed, s))"

definition bounded_file :: "bundle_env \<Rightarrow> folder_path \<Rightarrow> nat \<Rightarrow> string bundling" where
  "bounded_file env p limit =
     sbind (local_path env p False) (\<lambda>_.
     sbind (io_step st_call) (\<lambda>_.
     sbind (io_step (file_length p)) (\<lambda>before.
     sbind (spure (ensure (before \<le> limit) Length_over_limit)) (\<lambda>_.
     sbind (io_step (read_all p)) (\<lambda>content.
     sbind (io_step (file_length p)) (\<lambda>after.
       let bytes = take (limit + 1) content in
       sbind (spure (ensure (length bytes \<le> limit \<and> length bytes = before \<and> before = after) Length_differs))
         (\<lambda>_. spure (Inr bytes))))))))"

subsection \<open>Dumps\<close>

definition dump_matches :: "scan \<Rightarrow> capture_entry \<Rightarrow> bool" where
  "dump_matches sc e \<longleftrightarrow> eq_ignore_ascii_case (cf_sha256 (sc_capture sc)) (en_sha256 e)
     \<and> cf_file_bytes (sc_capture sc) = en_bytes e \<and> cf_total (sc_capture sc) = en_packets e
     \<and> format_label (cf_format (sc_capture sc)) = en_format e"

definition hash_file :: "bundle_env \<Rightarrow> folder_path \<Rightarrow> capture_entry \<Rightarrow> unit bundling" where
  "hash_file env p e =
     sbind (local_path env p False) (\<lambda>_.
     sbind (io_step st_call) (\<lambda>_.
     sbind check_cancel (\<lambda>_.
     sbind (io_step (read_all p)) (\<lambda>content.
       spure (ensure (length content = en_bytes e \<and> bn_sha env (file_octets content) = en_sha256 e) Copy_differs)))))"

definition target_of :: "folder_path \<Rightarrow> capture_entry \<Rightarrow> folder_path" where
  "target_of root e = root @ split_on CHR ''/'' (en_file e)"

definition part_of :: "folder_path \<Rightarrow> folder_path" where
  "part_of p = butlast p @ [last p @ ''.part'']"

text \<open>\<open>Copying\<close>: the analysis reads through a reader that writes what it has read.\<close>

definition copy_reading :: "bundle_env \<Rightarrow> folder_path \<Rightarrow> folder_path \<Rightarrow> scan bundling" where
  "copy_reading env p part =
     sbind (io_step (read_all p)) (\<lambda>content.
       case read_dump (bn_sha env) (bn_cancel env) (bn_chunk env) (file_octets content) of
         Inl e \<Rightarrow> sbind (io_step (write_file part (take (bn_taken env content) content)))
           (\<lambda>_. spure (Inl (Dump_rejected e)))
       | Inr sc \<Rightarrow> sbind (io_step (write_file part content)) (\<lambda>_. spure (Inr sc)))"

definition vacant :: "folder_path \<Rightarrow> bool bundling" where
  "vacant p = io_step (sbind st_call (\<lambda>_ s. (Inr (st_entries s p = None), s)))"

definition copy_source :: "bundle_env \<Rightarrow> folder_path \<Rightarrow> source \<Rightarrow> unit bundling" where
  "copy_source env root src =
     (let e = source_entry src; target = target_of root e; part = part_of target in
      sbind check_cancel (\<lambda>_.
      sbind (local_path env (so_path src) False) (\<lambda>_.
      sbind (io_step st_call) (\<lambda>_.
      sbind (io_step (file_length (so_path src))) (\<lambda>before.
      sbind (spure (ensure (before = so_bytes src) Length_differs)) (\<lambda>_.
      sbind (io_step (create_file part)) (\<lambda>_.
      sbind (copy_reading env (so_path src) part) (\<lambda>sc.
      sbind (io_step (file_length (so_path src))) (\<lambda>after.
      sbind (spure (ensure (before = after \<and> dump_matches sc e) Source_differs)) (\<lambda>_.
      sbind (io_step st_call) (\<lambda>_.
      sbind (hash_file env part e) (\<lambda>_.
      sbind check_cancel (\<lambda>_.
      sbind (vacant target) (\<lambda>free.
      sbind (spure (ensure free Destination_taken)) (\<lambda>_.
        io_step (rename_file part target))))))))))))))))"

fun copy_sources :: "bundle_env \<Rightarrow> folder_path \<Rightarrow> source list \<Rightarrow> unit bundling" where
  "copy_sources env root [] = spure (Inr ())"
| "copy_sources env root (src # srcs) = sbind (copy_source env root src) (\<lambda>_. copy_sources env root srcs)"

subsection \<open>Reports\<close>

text \<open>\<open>turn-{:04}\<close>\<close>

definition four_digits :: "string \<Rightarrow> string" where
  "four_digits d = replicate (4 - length d) CHR ''0'' @ d"

definition turn_folder :: "folder_path \<Rightarrow> turn \<Rightarrow> folder_path" where
  "turn_folder root t = root @ [''reports'', ''turn-'' @ four_digits (dec (tn_id t))]"

definition report_matches :: "report_receipt \<Rightarrow> turn \<Rightarrow> bool" where
  "report_matches r t \<longleftrightarrow> rr_schema r = 1 \<and> length (rr_files r) = 3
     \<and> rr_source_sha256 r = cx_sha256 (dr_context (tn_draft t))
     \<and> rr_investigation_id r = cx_investigation_id (dr_context (tn_draft t))
     \<and> rr_references_checked r = (dr_response (tn_draft t) \<noteq> None)
     \<and> rr_packet_numbers r = map pe_number (cx_packets (dr_context (tn_draft t)))"

definition listed_once :: "report_text \<Rightarrow> report_receipt \<Rightarrow> string \<Rightarrow> string \<Rightarrow> bool" where
  "listed_once rt r name actual \<longleftrightarrow>
     length (filter (\<lambda>f. fh_file f = name \<and> fh_bytes f = length actual \<and> fh_sha256 f = rt_sha rt actual) (rr_files r)) = 1"

fun verify_files ::
    "bundle_env \<Rightarrow> folder_path \<Rightarrow> report_receipt \<Rightarrow> (string \<times> string) list \<Rightarrow> unit bundling" where
  "verify_files env directory r [] = spure (Inr ())"
| "verify_files env directory r ((name, expected) # files) =
     sbind (spure (ensure (length expected \<le> max_report_bytes) Report_too_long)) (\<lambda>_.
     sbind (bounded_file env (directory @ [name]) max_report_bytes) (\<lambda>actual.
     sbind (spure (ensure (actual = expected) Report_differs)) (\<lambda>_.
     sbind (spure (ensure (listed_once (bn_report env) r name actual) Report_hash_differs)) (\<lambda>_.
       verify_files env directory r files))))"

definition verify_report :: "bundle_env \<Rightarrow> folder_path \<Rightarrow> turn \<Rightarrow> unit bundling" where
  "verify_report env root t =
     sbind check_cancel (\<lambda>_.
     sbind (bounded_file env (turn_folder root t @ [''receipt.json'']) (64 * 1024)) (\<lambda>bytes.
     sbind (spure (ok_or (bn_parse_report env bytes) Report_receipt_invalid)) (\<lambda>r.
     sbind (spure (ensure (report_matches r t) Report_receipt_differs)) (\<lambda>_.
     sbind (spure (map_sum Report_unsaved id (report_files (bn_report env) (bn_json env) (tn_draft t)))) (\<lambda>files.
       verify_files env (turn_folder root t) r files)))))"

fun each_turn :: "(turn \<Rightarrow> unit bundling) \<Rightarrow> turn list \<Rightarrow> unit bundling" where
  "each_turn f [] = spure (Inr ())"
| "each_turn f (t # ts) = sbind (f t) (\<lambda>_. each_turn f ts)"

definition verify_reports :: "bundle_env \<Rightarrow> folder_path \<Rightarrow> notebook \<Rightarrow> unit bundling" where
  "verify_reports env root book =
     sbind (local_path env (root @ [''reports'']) True) (\<lambda>_.
       each_turn (verify_report env root) (filter has_report (nb_turns book)))"

definition save_report :: "bundle_env \<Rightarrow> folder_path \<Rightarrow> turn \<Rightarrow> unit bundling" where
  "save_report env root t =
     sbind check_cancel (\<lambda>_.
     sbind (smap_error Report_unsaved
         (draft_save (bn_paths env) (bn_report env) (bn_json env) (tn_draft t) (turn_folder root t))) (\<lambda>_.
       spure (Inr ())))"

subsection \<open>Saving\<close>

definition manifest_of :: "evidence \<Rightarrow> inputs \<Rightarrow> source list \<Rightarrow> manifest" where
  "manifest_of current inputs selected =
     \<lparr>mf_schema = 1, mf_captures = map source_entry selected, mf_current = current, mf_inputs = inputs\<rparr>"

definition planned_step :: "bundle_error + 'a \<Rightarrow> 'a bundling" where
  "planned_step m = spure (map_sum Planning_failed id m)"

text \<open>The contents of the new folder, up to the manifest.\<close>

definition bundle_contents :: "bundle_env \<Rightarrow> folder_path \<Rightarrow> notebook \<Rightarrow> source list \<Rightarrow> unit bundling" where
  "bundle_contents env directory book selected =
     sbind (io_step (create_dir directory)) (\<lambda>_.
     sbind (io_step (create_dir (directory @ [''captures'']))) (\<lambda>_.
     sbind (smap_error Notebook_unsaved (notebook_save (bn_book env) (bn_json env) book (directory @ [''notebook'']))) (\<lambda>_.
     sbind (io_step (create_dir (directory @ [''reports'']))) (\<lambda>_.
     sbind (each_turn (save_report env directory) (filter has_report (nb_turns book))) (\<lambda>_.
     sbind (verify_reports env directory book) (\<lambda>_.
     sbind (copy_sources env directory selected) (\<lambda>_.
       check_cancel)))))))"

definition bundle_save ::
    "bundle_env \<Rightarrow> folder_path \<Rightarrow> notebook \<Rightarrow> evidence \<Rightarrow> source list \<Rightarrow> inputs \<Rightarrow> manifest bundling" where
  "bundle_save env directory book current sources inputs =
     sbind (planned_step (inputs_validate inputs)) (\<lambda>_.
     sbind (planned_step (bundle_plan (bn_json env) book current sources)) (\<lambda>selected.
     sbind check_cancel (\<lambda>_.
     sbind (spure (ensure (directory \<noteq> []) No_parent)) (\<lambda>_.
     sbind (local_path env (butlast directory) True) (\<lambda>_.
     sbind (spure (ensure (pv_absolute (bn_paths env) directory) Path_not_absolute)) (\<lambda>_.
     sbind (spure (ensure (list_all component_ok directory) Path_component_refused)) (\<lambda>_.
     sbind (bundle_contents env directory book selected) (\<lambda>_.
     sbind (spure (ok_or (bn_manifest env (manifest_of current inputs selected)) Manifest_unwritable)) (\<lambda>data.
     sbind (spure (ensure (length data \<le> max_manifest_bytes) Manifest_too_large)) (\<lambda>_.
     sbind (io_step (publish directory ''bundle.json'' data)) (\<lambda>_.
       spure (Inr (manifest_of current inputs selected)))))))))))))"

definition last_inputs :: "notebook \<Rightarrow> inputs" where
  "last_inputs book = (if nb_turns book = [] then \<lparr>in_problem = [], in_question = []\<rparr>
     else let d = tn_draft (last (nb_turns book)) in \<lparr>in_problem = dr_problem d, in_question = dr_question d\<rparr>)"

definition bundle_save_last ::
    "bundle_env \<Rightarrow> folder_path \<Rightarrow> notebook \<Rightarrow> evidence \<Rightarrow> source list \<Rightarrow> manifest bundling" where
  "bundle_save_last env directory book current sources =
     bundle_save env directory book current sources (last_inputs book)"

subsection \<open>Opening\<close>

text \<open>The dump at a path, analysed while its size stays that of the entry.\<close>

definition open_dump :: "bundle_env \<Rightarrow> folder_path \<Rightarrow> capture_entry \<Rightarrow> scan bundling" where
  "open_dump env p e =
     sbind (io_step st_call) (\<lambda>_.
     sbind (io_step (file_length p)) (\<lambda>before.
     sbind (spure (ensure (before = en_bytes e) Length_differs)) (\<lambda>_.
     sbind (io_step (read_all p)) (\<lambda>content.
     sbind (spure (map_sum Dump_rejected id
         (read_dump (bn_sha env) (bn_cancel env) (bn_chunk env) (file_octets content)))) (\<lambda>sc.
     sbind (io_step (file_length p)) (\<lambda>after.
     sbind (spure (ensure (before = after \<and> dump_matches sc e) Source_differs)) (\<lambda>_.
       spure (Inr sc))))))))"

definition read_source :: "bundle_env \<Rightarrow> source \<Rightarrow> scan bundling" where
  "read_source env src =
     sbind check_cancel (\<lambda>_.
     sbind (local_path env (so_path src) False) (\<lambda>_.
     sbind (spure (ensure (so_bytes src \<le> max_capture_bytes) Length_over_limit)) (\<lambda>_.
     sbind (open_dump env (so_path src) ((source_entry src)\<lparr>en_sha256 := so_sha256 src\<rparr>)) (\<lambda>sc.
     sbind check_cancel (\<lambda>_. spure (Inr sc))))))"

text \<open>\<open>Source::new\<close>\<close>

definition source_new :: "folder_path \<Rightarrow> capture_file \<Rightarrow> source" where
  "source_new p c = \<lparr>so_path = p, so_sha256 = cf_sha256 c, so_bytes = cf_file_bytes c, so_packets = cf_total c,
     so_format = format_label (cf_format c), so_provenance = None\<rparr>"

text \<open>What the loop over the entries has found: the sources, the current dump with its path, the baseline.\<close>

record found_dumps =
  fd_sources :: "source list"
  fd_active :: "(scan \<times> folder_path) option"
  fd_baseline :: "dump_report option"

definition add_dump :: "evidence \<Rightarrow> folder_path \<Rightarrow> capture_entry \<Rightarrow> scan \<Rightarrow> found_dumps \<Rightarrow> found_dumps" where
  "add_dump current p e sc fd =
     (let is_baseline = (case Option.bind (cx_analysis current) ae_baseline_sha256 of
            None \<Rightarrow> False | Some h \<Rightarrow> eq_ignore_ascii_case h (en_sha256 e)) in
      \<lparr>fd_sources = fd_sources fd @ [(source_new p (sc_capture sc))\<lparr>so_provenance := en_provenance e\<rparr>],
       fd_active = (if eq_ignore_ascii_case (cx_sha256 current) (en_sha256 e) then Some (sc, p) else fd_active fd),
       fd_baseline = (if is_baseline then Some (sc_report sc) else fd_baseline fd)\<rparr>)"

fun open_dumps ::
    "bundle_env \<Rightarrow> folder_path \<Rightarrow> evidence \<Rightarrow> capture_entry list \<Rightarrow> found_dumps \<Rightarrow> found_dumps bundling" where
  "open_dumps env directory current [] fd = spure (Inr fd)"
| "open_dumps env directory current (e # es) fd =
     sbind check_cancel (\<lambda>_.
     sbind (local_path env (target_of directory e) False) (\<lambda>_.
     sbind (open_dump env (target_of directory e) e) (\<lambda>sc.
       open_dumps env directory current es (add_dump current (target_of directory e) e sc fd))))"

definition recover_selection ::
    "bundle_env \<Rightarrow> scan \<times> folder_path \<Rightarrow> nat \<Rightarrow> recovered_packet option bundling" where
  "recover_selection env = (\<lambda>(sc, p) number.
     if \<exists>k \<in> set (cf_packets (sc_capture sc)). p_number k = number then spure (Inr None)
     else
       sbind (local_path env p False) (\<lambda>_.
       sbind (io_step st_call) (\<lambda>_.
       sbind (io_step (file_length p)) (\<lambda>before.
       sbind (spure (map_sum Packet_unrecovered id (anchor_new (sc_capture sc) number))) (\<lambda>an.
       sbind (io_step (read_all p)) (\<lambda>content.
       sbind (spure (map_sum Packet_unrecovered id
           (read_packet (bn_sha env) (bn_cancel env) (bn_stopped env) (bn_chunk env) \<lparr>pg_bytes = 0, pg_packets = 0, pg_resets = 0\<rparr> an
             (file_octets content)))) (\<lambda>r.
       sbind (io_step (file_length p)) (\<lambda>after.
       sbind (spure (ensure (before = after) Length_differs)) (\<lambda>_. spure (Inr (Some r)))))))))))"

record opened =
  op_notebook :: notebook
  op_current :: evidence
  op_sources :: "source list"
  op_scan :: "scan \<times> folder_path"
  op_baseline :: "dump_report option"
  op_recovered :: "recovered_packet option"
  op_inputs :: inputs

definition load_book :: "bundle_env \<Rightarrow> folder_path \<Rightarrow> notebook bundling" where
  "load_book env directory =
     smap_error Notebook_unloaded (notebook_load (bn_paths env) (bn_book env) (bn_json env) (directory @ [''notebook'']))"

text \<open>The manifest's list of dumps is read by a visitor that gives up after 128 of them.\<close>

definition read_manifest :: "bundle_env \<Rightarrow> string \<Rightarrow> bundle_failure + manifest" where
  "read_manifest env data =
     rbind (ok_or (bn_parse_manifest env data) Manifest_invalid) (\<lambda>m.
     rbind (ensure (bounded_seq max_captures [] (mf_captures m) \<noteq> None) Manifest_invalid) (\<lambda>_.
     rbind (ensure (mf_schema m = 1) Manifest_incompatible) (\<lambda>_.
     rbind (map_sum Planning_failed id (inputs_validate (mf_inputs m))) (\<lambda>_. Inr m))))"

definition bundle_load :: "bundle_env \<Rightarrow> folder_path \<Rightarrow> opened bundling" where
  "bundle_load env directory =
     sbind check_cancel (\<lambda>_.
     sbind (local_path env directory True) (\<lambda>_.
     sbind (local_path env (directory @ [''bundle.json'']) False) (\<lambda>_.
     sbind (bounded_file env (directory @ [''bundle.json'']) max_manifest_bytes) (\<lambda>data.
     sbind (spure (read_manifest env data)) (\<lambda>m.
     sbind (load_book env directory) (\<lambda>book.
     sbind (verify_reports env directory book) (\<lambda>_.
     sbind (planned_step (bundle_validate (bn_json env) book (mf_current m) (mf_captures m))) (\<lambda>_.
     sbind (open_dumps env directory (mf_current m) (mf_captures m)
         \<lparr>fd_sources = [], fd_active = None, fd_baseline = None\<rparr>) (\<lambda>fd.
     sbind (spure (ok_or (fd_active fd) Current_dump_missing)) (\<lambda>active.
     sbind (recover_selection env active (pe_number (hd (cx_packets (mf_current m))))) (\<lambda>recovered.
     sbind check_cancel (\<lambda>_.
     sbind (bounded_file env (directory @ [''bundle.json'']) max_manifest_bytes) (\<lambda>again.
     sbind (spure (ensure (again = data) Manifest_changed)) (\<lambda>_.
     sbind (load_book env directory) (\<lambda>reread.
     sbind (spure (ok_or (bn_compact env reread) Manifest_unwritable)) (\<lambda>x.
     sbind (spure (ok_or (bn_compact env book) Manifest_unwritable)) (\<lambda>y.
     sbind (spure (ensure (x = y) Notebook_changed)) (\<lambda>_.
       spure (Inr \<lparr>op_notebook = book, op_current = mf_current m, op_sources = fd_sources fd, op_scan = active,
         op_baseline = fd_baseline fd, op_recovered = recovered, op_inputs = mf_inputs m\<rparr>)))))))))))))))))))"

end
