(* ===== verification/Bundle_Facts.thy ===== *)
theory Bundle_Facts
  imports Bundle Notebook_Store_Facts
begin

text \<open>
  What the plan of a portable investigation guarantees: exactly the dumps that are referred to, each of them
  once, and each context matched with its dump.
\<close>

subsection \<open>Validation\<close>

lemma check_entries_Inr:
  "check_entries es hashes bytes = Inr (hs, n) \<Longrightarrow>
     hs = rev (map en_sha256 es) @ hashes \<and> n = bytes + sum_list (map en_bytes es) \<and>
     list_all (\<lambda>e. entry_ok e \<and> en_file e = en_file (source_entry (entry_source e))) es \<and>
     (distinct hashes \<longrightarrow> distinct (rev (map en_sha256 es) @ hashes))"
proof (induction es arbitrary: hashes bytes)
  case (Cons e es)
  then have "check_entries es (en_sha256 e # hashes) (bytes + en_bytes e) = Inr (hs, n)"
      "entry_ok e" "en_sha256 e \<notin> set hashes" "en_file e = en_file (source_entry (entry_source e))"
    by (auto simp: result_simps)
  with Cons.IH [of "en_sha256 e # hashes" "bytes + en_bytes e"] show ?case by auto
qed simp

text \<open>What a validated list of captures is to a notebook and a selection.\<close>

definition covers :: "capture_entry list \<Rightarrow> evidence \<Rightarrow> bool" where
  "covers captures c \<longleftrightarrow> list_ex (\<lambda>e. eq_ignore_ascii_case (en_sha256 e) (cx_sha256 c) \<and>
     en_packets e = cx_total_packets c \<and> en_format e = cx_format c) captures"

lemma check_context_Inr: "check_context captures c = Inr () \<Longrightarrow> covers captures c"
proof -
  assume "check_context captures c = Inr ()"
  then obtain e where "find (\<lambda>e. eq_ignore_ascii_case (en_sha256 e) (cx_sha256 c)) captures = Some e"
      "en_packets e = cx_total_packets c" "en_format e = cx_format c"
    by (auto simp: check_context_def result_simps)
  moreover from this(1) have "e \<in> set captures" "eq_ignore_ascii_case (en_sha256 e) (cx_sha256 c)"
    by (auto simp: find_Some_iff)
  ultimately show ?thesis by (auto simp: covers_def list_ex_iff)
qed

lemma bundle_validate_Inr:
  assumes "bundle_validate ej book current captures = Inr bytes"
  shows "notebook_validate ej book = Inr ()" "context_validate ej current = Inr ()"
    "distinct (map en_sha256 captures)" "set (map en_sha256 captures) = set (required book current)"
    "bytes = sum_list (map en_bytes captures)" "bytes \<le> max_capture_bytes" "captures \<noteq> []" "length captures \<le> max_captures"
    "list_all entry_ok captures" "list_all (covers captures) (contexts book current)"
proof -
  obtain hs where e: "check_entries captures [] 0 = Inr (hs, bytes)"
      and o1: "notebook_validate ej book = Inr ()" "context_validate ej current = Inr ()" "captures \<noteq> []"
        "length captures \<le> max_captures" "bytes \<le> max_capture_bytes" "set hs = set (required book current)"
      and c: "\<And>c. c \<in> set (contexts book current) \<Longrightarrow> check_context captures c = Inr ()"
    using assms
    by (cases "notebook_validate ej book"; cases "context_validate ej current") (auto simp: bundle_validate_def result_simps)
  note ce = check_entries_Inr [OF e]
  show "notebook_validate ej book = Inr ()" "context_validate ej current = Inr ()" "captures \<noteq> []"
    "length captures \<le> max_captures" "bytes \<le> max_capture_bytes"
    using o1 by blast+
  show "distinct (map en_sha256 captures)" "set (map en_sha256 captures) = set (required book current)"
    "bytes = sum_list (map en_bytes captures)"
    using ce o1(6) by auto
  show "list_all entry_ok captures" using ce by (simp add: list_all_iff)
  show "list_all (covers captures) (contexts book current)"
    using c check_context_Inr by (simp add: list_all_iff)
qed

subsection \<open>The plan\<close>

abbreviation source_key :: "source \<Rightarrow> string" where
  "source_key s \<equiv> to_ascii_lowercase (so_sha256 s)"

lemma unique_sources_Inr:
  "unique_sources ss m = Inr m' \<longleftrightarrow>
     distinct (map source_key ss) \<and> list_all (\<lambda>s. map_of m (source_key s) = None) ss
       \<and> m' = fold (\<lambda>s m. bt_put (source_key s) s m) ss m"
proof (induction ss arbitrary: m)
  case (Cons s ss)
  show ?case
    using imageI [of _ "set ss" source_key] by (auto simp: result_simps Cons.IH list_all_iff split: if_splits) (metis imageI)
qed auto

lemma map_of_fold_put:
  "map_of (fold (\<lambda>s m. bt_put (source_key s) s m) ss m) h =
     (case find (\<lambda>s. source_key s = h) (rev ss) of Some s \<Rightarrow> Some s | None \<Rightarrow> map_of m h)"
proof (induction ss rule: rev_induct)
  case (snoc s ss)
  then show ?case by simp
qed simp

lemma find_unique:
  "distinct (map f ss) \<Longrightarrow> find (\<lambda>s. f s = h) (rev ss) = Some s \<longleftrightarrow> s \<in> set ss \<and> f s = h"
proof -
  assume d: "distinct (map f ss)"
  have "find (\<lambda>s. f s = h) xs = Some s \<longleftrightarrow> s \<in> set xs \<and> f s = h" if "distinct (map f xs)" for xs
    using that by (induction xs) auto
  then show ?thesis using d by (simp add: rev_map [symmetric])
qed

lemma select_sources_Inr:
  "distinct hs \<Longrightarrow> select_sources hs m = Inr ss \<longleftrightarrow> map Some ss = map (map_of m) hs"
proof (induction hs arbitrary: m ss)
  case (Cons h hs)
  have "map_of (bt_remove h m) k = map_of m k" if "k \<in> set hs" for k
    using Cons.prems that by (auto simp: map_of_bt_remove)
  then have "map (map_of (bt_remove h m)) hs = map (map_of m) hs" by simp
  then show ?case
    using Cons by (cases ss) (auto simp: result_simps)
qed auto

lemma keys_required: "distinct (required book current)"
  by (simp add: required_def)

lemma map_Some_keys:
  assumes "distinct (map f sources)"
  shows "map Some sel = map (\<lambda>h. find (\<lambda>s. f s = h) (rev sources)) hs \<longleftrightarrow> set sel \<subseteq> set sources \<and> map f sel = hs"
proof (induction sel arbitrary: hs)
  case (Cons s sel)
  show ?case
  proof (cases hs)
    case (Cons h hs')
    have "Some s = find (\<lambda>s. f s = h) (rev sources) \<longleftrightarrow> s \<in> set sources \<and> f s = h"
      using find_unique [OF assms, of h s] by auto
    then show ?thesis using Cons.IH [of hs'] by (auto simp: Cons)
  qed simp
qed auto

text \<open>
  C34: A plan is made exactly when there are at most 128 sources with different hashes, among them one for every
  dump that a turn, a note or the selection refers to, as its capture or its baseline; the plan is those
  sources and no other, in the order of their hashes, and their entries validate.
\<close>

theorem bundle_plan_iff:
  "bundle_plan ej book current sources = Inr selected \<longleftrightarrow>
     length sources \<le> 128 \<and> distinct (map source_key sources) \<and> set selected \<subseteq> set sources \<and>
     map source_key selected = required book current \<and>
     is_ok (bundle_validate ej book current (map source_entry selected))"
proof (cases "distinct (map source_key sources)")
  case False
  then show ?thesis by (auto simp: bundle_plan_def result_simps unique_sources_Inr)
next
  case True
  let ?m = "fold (\<lambda>s m. bt_put (source_key s) s m) sources []"
  have u: "unique_sources sources [] = Inr ?m"
    using True by (simp add: unique_sources_Inr list_all_iff)
  have "map_of ?m = (\<lambda>h. find (\<lambda>s. source_key s = h) (rev sources))"
    by (rule ext) (simp add: map_of_fold_put split: option.split)
  then have "select_sources (required book current) ?m = Inr ss \<longleftrightarrow>
      set ss \<subseteq> set sources \<and> map source_key ss = required book current" for ss
    using select_sources_Inr [OF keys_required, of book current ?m ss] map_Some_keys [OF True, of ss "required book current"]
    by simp
  then show ?thesis
    using True by (auto simp: bundle_plan_def result_simps u max_captures_def is_ok_iff)
qed

text \<open>
  A validated manifest is complete: its captures are different ones, each of them well-formed, at most 64 GiB
  together, and every context of the notebook and the current one finds its dump among them, with the
  same number of packets and the same format; their baselines are there as well.
\<close>

theorem bundle_validate_complete:
  assumes "bundle_validate ej book current captures = Inr bytes"
  shows "distinct (map en_sha256 captures) \<and> list_all entry_ok captures \<and> bytes = sum_list (map en_bytes captures) \<and>
    bytes \<le> 64 * 2 ^ 30 \<and>
    list_all (\<lambda>c. covers captures c \<and> set (context_hashes c) \<subseteq> set (map en_sha256 captures)) (contexts book current)"
proof -
  note v = bundle_validate_Inr [OF assms]
  have "set (context_hashes c) \<subseteq> set (map en_sha256 captures)" if "c \<in> set (contexts book current)" for c
    unfolding v(4) required_def using that by auto
  then show ?thesis
    using v by (auto simp: list_all_iff max_capture_bytes_def max_dump_bytes_def)
qed

subsection \<open>A bundle\<close>

definition small_source :: source where
  "small_source = \<lparr>so_path = [''d'', ''x.pcap''], so_sha256 = replicate 64 CHR ''A'', so_bytes = 195,
     so_packets = cx_total_packets (sample_evidence [3]), so_format = ''PCAP'', so_provenance = None\<rparr>"

lemma small_required: "required small_book (sample_evidence [3]) = [replicate 64 CHR ''a'']"
proof -
  have "ascii_lower CHR ''A'' = CHR ''a''" by code_simp
  then show ?thesis
    by (simp add: required_def contexts_def context_hashes_def small_book_def sample_note_def sample_evidence_def
        to_ascii_lowercase_def)
qed

lemma small_bundle: "bundle_validate terse_json small_book (sample_evidence [3]) [source_entry small_source] = Inr 195"
proof -
  have low: "ascii_lower CHR ''A'' = CHR ''a''" "ascii_lower CHR ''a'' = CHR ''a''"
    by code_simp+
  have e: "source_entry small_source = \<lparr>en_file = ''captures/'' @ replicate 64 CHR ''a'' @ ''.pcap'', en_sha256 = replicate 64 CHR ''a'',
      en_bytes = 195, en_packets = cx_total_packets (sample_evidence [3]), en_format = ''PCAP'', en_provenance = None\<rparr>"
    by (simp add: source_entry_def small_source_def to_ascii_lowercase_def low capture_extension_def Let_def)
  have "context_validate terse_json (sample_evidence [3]) = Inr ()"
    using sample_evidence_valid [of "[3]"] by simp
  moreover have "lower_hash (replicate 64 CHR ''a'')"
    by (simp add: lower_hash_def list_all_iff is_ascii_hexdigit_def is_ascii_upper_def code_def)
  then have "check_entries [source_entry small_source] [] 0 = Inr ([replicate 64 CHR ''a''], 195)"
    by (simp add: small_source_def entry_ok_def entry_source_def source_entry_def Let_def to_ascii_lowercase_def low capture_extension_def
        max_capture_bytes_def max_dump_bytes_def max_dump_records_def sample_evidence_def)
  moreover have "check_context [source_entry small_source] c = Inr ()" if "c \<in> set (contexts small_book (sample_evidence [3]))" for c
    using that by (simp add: check_context_def e contexts_def small_book_def sample_note_def sample_evidence_def
        eq_ignore_ascii_case_def low)
  then have "check_all (check_context [source_entry small_source]) (contexts small_book (sample_evidence [3])) = Inr ()"
    by (simp add: check_all_eq_Inr)
  ultimately show ?thesis
    using small_book_valid small_required
    by (simp add: bundle_validate_def max_captures_def max_capture_bytes_def max_dump_bytes_def)
qed

lemma bundle_validate_complete_witness:
  "bundle_validate terse_json small_book (sample_evidence [3]) [source_entry small_source] = Inr 195 \<and>
   covers [source_entry small_source] (sample_evidence [3])"
  using bundle_validate_complete [OF small_bundle] small_bundle by (simp add: contexts_def)

end
