(* ===== verification/Bundle_Store_Facts.thy ===== *)
theory Bundle_Store_Facts
  imports Bundle_Store Bundle_Facts Notebook_Store_Facts
begin

text \<open>
  A manifest in a saved folder vouches for all of it: wherever a save fails there is none, and beside a
  manifest lie the notebook and every dump it names, complete and verified. What is opened has been checked
  against the manifest, and opening changes nothing.
\<close>

subsection \<open>What the operations leave alone\<close>

text \<open>An operation keeps a path when the entry there is the same afterwards, whatever its result.\<close>

definition keeps :: "folder_path \<Rightarrow> (store, 'e, 'a) action \<Rightarrow> bool" where
  "keeps p m \<longleftrightarrow> (\<forall>s r t. m s = (r, t) \<longrightarrow> st_entries t p = st_entries s p)"

lemma keepsI: "(\<And>s r t. m s = (r, t) \<Longrightarrow> st_entries t p = st_entries s p) \<Longrightarrow> keeps p m"
  unfolding keeps_def by blast

lemma keepsD: "keeps p m \<Longrightarrow> m s = (r, t) \<Longrightarrow> st_entries t p = st_entries s p"
  unfolding keeps_def by blast

lemma keeps_bind:
  assumes "keeps p m" "\<And>x. keeps p (f x)"
  shows "keeps p (sbind m f)"
proof (rule keepsI)
  fix s r t
  assume a: "sbind m f s = (r, t)"
  obtain r1 s1 where m: "m s = (r1, s1)" by (cases "m s")
  note k = keepsD [OF assms(1) m]
  show "st_entries t p = st_entries s p"
  proof (cases r1)
    case (Inr x)
    then have "f x s1 = (r, t)" using a m by simp
    then show ?thesis using k keepsD [OF assms(2)] by metis
  qed (use a m k in simp)
qed

lemma keeps_spure: "keeps p (spure r)"
  by (auto intro: keepsI)

lemma keeps_smap: "keeps p m \<Longrightarrow> keeps p (smap_error g m)"
  by (rule keepsI) (auto elim!: smap_error_cases dest: keepsD)

lemma keeps_cases:
  "\<lbrakk>keeps p m; keeps p m'\<rbrakk> \<Longrightarrow> keeps p (if c then m else m')"
  "\<lbrakk>\<And>x. keeps p (f x); \<And>y. keeps p (g y)\<rbrakk> \<Longrightarrow> keeps p (case z of Inl x \<Rightarrow> f x | Inr y \<Rightarrow> g y)"
  by (simp_all split: sum.split)

lemma keeps_calls:
  "keeps p st_call" "keeps p (plain_path q k)" "keeps p (read_all q)" "keeps p (file_length q)" "keeps p (plain_paths qs)"
  "keeps p (io_step (plain_path q k))" "keeps p (io_step (read_all q))" "keeps p (io_step (file_length q))"
  "keeps p (io_step st_call)" "keeps p (io_step (plain_paths qs))" "keeps p check_cancel"
proof -
  have look: "keeps p (\<lambda>s. (h s, s))" for h :: "store \<Rightarrow> 'e + 'a"
    by (rule keepsI) simp
  show call: "keeps p st_call" by (rule keepsI) (simp add: st_call_entries)
  have len: "file_length q = sbind st_call (\<lambda>_ s.
      (case st_entries s q of Some (File bytes) \<Rightarrow> Inr (length bytes) | _ \<Rightarrow> Inl Call_failed, s))"
    unfolding file_length_def by (rule arg_cong [of _ _ "sbind st_call"]) (auto simp: fun_eq_iff split: option.split entry.split)
  show plain: "keeps p (plain_path q k)" for q k by (rule keepsI) (simp add: plain_path_entries)
  show read: "keeps p (read_all q)" by (rule keepsI) (simp add: read_all_cases(1))
  show len: "keeps p (file_length q)" unfolding len by (intro keeps_bind call look)
  show plains: "keeps p (plain_paths qs)" by (rule keepsI) (simp add: plain_paths_entries)
  show "keeps p (io_step (plain_path q k))" "keeps p (io_step (read_all q))" "keeps p (io_step (file_length q))"
    "keeps p (io_step st_call)" "keeps p (io_step (plain_paths qs))" "keeps p check_cancel"
    unfolding io_step_def check_cancel_def by (intro keeps_smap call plain read len plains)+
qed

lemma keeps_local: "keeps p (local_path env q d)"
  unfolding local_path_def Let_def by (intro keeps_bind keeps_spure keeps_calls)

lemma keeps_bounded: "keeps p (bounded_file env q n)"
  unfolding bounded_file_def Let_def by (intro keeps_bind keeps_spure keeps_calls keeps_local)

lemma keeps_hash: "keeps p (hash_file env q e)"
  unfolding hash_file_def by (intro keeps_bind keeps_spure keeps_calls keeps_local)

lemma keeps_each: "(\<And>t. t \<in> set ts \<Longrightarrow> keeps p (f t)) \<Longrightarrow> keeps p (each_turn f ts)"
  by (induction ts) (simp_all only: each_turn.simps keeps_spure list.set insert_iff keeps_bind simp_thms)

lemma keeps_verify: "keeps p (verify_reports env root book)"
proof -
  have files: "keeps p (verify_files env d r fs)" for d r fs
  proof (induction fs)
    case (Cons f fs)
    then show ?case
      by (cases f) (simp only: verify_files.simps, intro keeps_bind keeps_spure keeps_bounded, simp)
  qed (simp only: verify_files.simps keeps_spure)
  show ?thesis
    unfolding verify_reports_def verify_report_def
    by (intro keeps_bind keeps_local keeps_each keeps_spure keeps_calls keeps_bounded files)
qed

lemma keeps_open_dump: "keeps p (open_dump env q e)"
  unfolding open_dump_def by (intro keeps_bind keeps_spure keeps_calls)

lemma keeps_load_book: "keeps p (load_book env q)"
proof -
  have limited: "keeps p (read_limited q n)" for q n by (rule keepsI) (simp add: read_limited_keeps)
  have entries: "keeps p (load_entries bk d fs st)" for bk d fs st
  proof (induction fs arbitrary: st)
    case (Cons f fs)
    show ?case
      unfolding load_entries.simps load_entry_def
      by (cases st) (simp only: prod.case, intro keeps_bind keeps_spure keeps_smap limited keeps_cases Cons)
  qed (simp only: load_entries.simps keeps_spure)
  have split: "keeps p (case z of (x, y) \<Rightarrow> f x y)" if "\<And>x y. keeps p (f x y)"
    for z :: "'x \<times> 'y" and f :: "'x \<Rightarrow> 'y \<Rightarrow> (store, load_error, notebook) action"
    using that by (simp split: prod.split)
  show ?thesis
    unfolding load_book_def notebook_load_def
    by (intro keeps_bind keeps_spure keeps_smap limited entries split keeps_calls)
qed

lemma keeps_load: "keeps p (bundle_load env directory)"
proof -
  have dumps: "keeps p (open_dumps env d c es fd)" for d c es fd
  proof (induction es arbitrary: fd)
    case (Cons e es)
    then show ?case
      unfolding open_dumps.simps by (intro keeps_bind keeps_calls keeps_local keeps_open_dump)
  qed (simp only: open_dumps.simps keeps_spure)
  have recover: "keeps p (recover_selection env a n)" for a n
    unfolding recover_selection_def
    by (cases a) (simp only: prod.case, intro keeps_cases keeps_bind keeps_spure keeps_calls keeps_local)
  show ?thesis
    unfolding bundle_load_def planned_step_def
    by (intro keeps_bind keeps_spure keeps_calls keeps_local keeps_bounded keeps_load_book keeps_verify dumps recover)
qed

subsection \<open>Copies\<close>

lemma io_step_Inr: "io_step m s = (Inr x, t) \<longleftrightarrow> m s = (Inr x, t)"
  by (auto simp: io_step_def smap_error_def split: prod.splits sum.splits)

lemma split_on_captures:
  "\<exists>x xs. split_on CHR ''/'' (''captures/'' @ rest) = ''captures'' # x # xs"
  by (cases "split_on CHR ''/'' rest") (auto simp: split_on_nonempty)

lemma target_below: "\<exists>x xs. target_of root (source_entry src) = root @ ''captures'' # x # xs"
  using split_on_captures by (simp add: target_of_def source_entry_def Let_def)

lemma part_below: "\<exists>x xs. part_of (target_of root (source_entry src)) = root @ ''captures'' # x # xs"
proof -
  obtain x xs where t: "target_of root (source_entry src) = root @ ''captures'' # x # xs"
    using target_below by blast
  show ?thesis by (cases xs rule: rev_cases) (auto simp: t part_of_def butlast_append)
qed

lemma part_apart: "p \<noteq> [] \<Longrightarrow> part_of p \<noteq> p"
  by (cases p rule: rev_cases) (auto simp: part_of_def)

lemma keeps_write: "p \<noteq> q \<Longrightarrow> keeps p (write_file q b)"
  by (rule keepsI) (auto elim!: write_file_cases)

lemma keeps_create: "p \<noteq> q \<Longrightarrow> keeps p (create_file q)" "p \<noteq> q \<Longrightarrow> keeps p (create_dir q)"
  by (rule keepsI, auto elim!: create_file_cases create_dir_cases)+

lemma keeps_rename: "p \<noteq> q \<Longrightarrow> p \<noteq> q' \<Longrightarrow> keeps p (rename_file q q')"
  by (rule keepsI) (auto elim!: rename_file_cases)

lemma keeps_vacant: "keeps p (vacant q)"
  unfolding vacant_def io_step_def by (intro keeps_smap keeps_bind keeps_calls) (auto intro: keepsI)

lemma keeps_copy:
  assumes "p \<noteq> target_of root (source_entry src)" "p \<noteq> part_of (target_of root (source_entry src))"
  shows "keeps p (copy_source env root src)"
proof -
  have lift: "keeps p m \<Longrightarrow> keeps p (io_step m)" for m :: "'x store_action"
    unfolding io_step_def by (rule keeps_smap)
  show ?thesis
    unfolding copy_source_def copy_reading_def Let_def
    by (intro keeps_bind keeps_spure keeps_calls keeps_local keeps_hash keeps_vacant keeps_cases lift
        keeps_create keeps_write keeps_rename assms)
qed

text \<open>A copy that succeeds is the original, and it is what the reference says; nothing else is changed.\<close>

definition verified_copy :: "bundle_env \<Rightarrow> capture_entry \<Rightarrow> string \<Rightarrow> bool" where
  "verified_copy env e content \<longleftrightarrow> length content = en_bytes e \<and> bn_sha env (file_octets content) = en_sha256 e
     \<and> (\<exists>sc. read_dump (bn_sha env) (bn_cancel env) (bn_chunk env) (file_octets content) = Inr sc \<and> dump_matches sc e)"

lemma file_length_Inr:
  assumes "file_length p s = (Inr n, t)"
  shows "\<exists>content. st_entries s p = Some (File content) \<and> n = length content"
proof -
  obtain u s1 where c: "st_call s = (Inr u, s1)"
      "(case st_entries s1 p of Some (File bytes) \<Rightarrow> (Inr (length bytes), s1) | _ \<Rightarrow> (Inl Call_failed, s1)) = (Inr n, t)"
    using assms unfolding file_length_def sbind_eq_Inr by blast
  then show ?thesis
    using st_call_entries [OF c(1)] by (cases "st_entries s1 p"; cases "the (st_entries s1 p)") auto
qed

lemma bounded_file_Inr:
  assumes "bounded_file env p limit s = (Inr bytes, t)"
  shows "st_entries s p = Some (File bytes)"
proof -
  obtain u1 s1 u2 s2 before s3 u4 s4 content s5 after s6 where
    a: "local_path env p False s = (Inr u1, s1)" "io_step st_call s1 = (Inr u2, s2)"
      "io_step (file_length p) s2 = (Inr before, s3)" "spure (ensure (before \<le> limit) Length_over_limit) s3 = (Inr u4, s4)"
    and r: "io_step (read_all p) s4 = (Inr content, s5)"
    and e: "bytes = take (limit + 1) content" "length bytes \<le> limit"
    using assms unfolding bounded_file_def Let_def sbind_eq_Inr by (auto simp: ensure_eq_Inr)
  have "st_entries s4 p = st_entries s p"
    using keepsD [OF keeps_local a(1)] keepsD [OF keeps_calls(9) a(2)] keepsD [OF keeps_calls(8) a(3)] a(4) by simp
  moreover have "st_entries s4 p = Some (File content)"
    using read_all_cases(2) [OF _ refl] r unfolding io_step_Inr by blast
  moreover have "bytes = content" using e by (simp add: min_def split: if_splits)
  ultimately show ?thesis by simp
qed

lemma hash_file_Inr:
  assumes "hash_file env p e s = (Inr u, t)"
  shows "st_entries t = st_entries s \<and> (\<exists>content. st_entries s p = Some (File content) \<and> length content = en_bytes e
    \<and> bn_sha env (file_octets content) = en_sha256 e)"
proof -
  have "st_entries t q = st_entries s q" for q using keepsD [OF keeps_hash assms] .
  moreover obtain x s1 y s2 z s3 content where
      a: "local_path env p False s = (Inr x, s1)" "io_step st_call s1 = (Inr y, s2)" "check_cancel s2 = (Inr z, s3)"
      and r: "read_all p s3 = (Inr content, t)"
      and c: "length content = en_bytes e" "bn_sha env (file_octets content) = en_sha256 e"
    using assms by (auto simp: hash_file_def sbind_eq_Inr io_step_Inr ensure_eq_Inr)
  have "st_entries s3 p = st_entries s p"
    using keepsD [OF keeps_local a(1)] keepsD [OF keeps_calls(9) a(2)] keepsD [OF keeps_calls(11) a(3)] by simp
  ultimately have "st_entries s p = Some (File content)" "st_entries t = st_entries s"
    using read_all_cases(2) [OF r refl] by (simp_all add: fun_eq_iff)
  then show ?thesis using c by blast
qed

lemma copy_source_Inr:
  assumes "copy_source env root src s = (Inr u, t)"
  shows "\<exists>content. st_entries s (target_of root (source_entry src)) = None
    \<and> st_entries s (part_of (target_of root (source_entry src))) = None
    \<and> st_entries t (target_of root (source_entry src)) = Some (File content)
    \<and> st_entries s (so_path src) = Some (File content) \<and> verified_copy env (source_entry src) content"
proof -
  let ?e = "source_entry src" let ?q = "target_of root ?e" let ?p = "part_of ?q"
  obtain x1 s1 x2 s2 x3 s3 before s4 x5 s5 sc s6 after s7 x8 s8 x9 s9 x10 s10 s11 where
    a: "check_cancel s = (Inr x1, s1)" "local_path env (so_path src) False s1 = (Inr x2, s2)"
      "io_step st_call s2 = (Inr x3, s3)" "io_step (file_length (so_path src)) s3 = (Inr before, s4)"
    and c: "create_file ?p s4 = (Inr x5, s5)"
    and w: "copy_reading env (so_path src) ?p s5 = (Inr sc, s6)"
    and b: "io_step (file_length (so_path src)) s6 = (Inr after, s7)" "dump_matches sc ?e"
      "io_step st_call s7 = (Inr x8, s8)"
    and h: "hash_file env ?p ?e s8 = (Inr x9, s9)"
    and d: "check_cancel s9 = (Inr x10, s10)" "vacant ?q s10 = (Inr True, s11)"
    and n: "rename_file ?p ?q s11 = (Inr u, t)"
    using assms unfolding copy_source_def Let_def sbind_eq_Inr spure_apply prod.inject ensure_eq_Inr io_step_Inr
    by auto
  have ne: "?p \<noteq> ?q" by (rule part_apart) (use target_below [of root src] in auto)
  have s4: "st_entries s4 p = st_entries s p" for p
    using keepsD [OF keeps_calls(11) a(1)] keepsD [OF keeps_local a(2)] keepsD [OF keeps_calls(9) a(3)]
      keepsD [OF keeps_calls(8) a(4)] by simp
  have s5: "st_entries s4 ?p = None" "st_entries s5 = (st_entries s4)(?p \<mapsto> File [])"
    using c by (auto elim!: create_file_cases)
  obtain content s51 where r: "read_all (so_path src) s5 = (Inr content, s51)"
      and sc: "read_dump (bn_sha env) (bn_cancel env) (bn_chunk env) (file_octets content) = Inr sc"
      and wr: "write_file ?p content s51 = (Inr (), s6)"
  proof -
    obtain content s51 where r: "read_all (so_path src) s5 = (Inr content, s51)"
        and rest: "(case read_dump (bn_sha env) (bn_cancel env) (bn_chunk env) (file_octets content) of
           Inl e \<Rightarrow> sbind (io_step (write_file ?p (take (bn_taken env content) content))) (\<lambda>_. spure (Inl (Dump_rejected e)))
         | Inr sc \<Rightarrow> sbind (io_step (write_file ?p content)) (\<lambda>_. spure (Inr sc))) s51 = (Inr sc, s6)"
      using w unfolding copy_reading_def sbind_eq_Inr io_step_Inr by blast
    then show ?thesis
      by (intro that [OF r])
        (cases "read_dump (bn_sha env) (bn_cancel env) (bn_chunk env) (file_octets content)";
          auto simp: sbind_eq_Inr io_step_Inr)+
  qed
  note rd = read_all_cases [OF r]
  have s6: "st_entries s6 = (st_entries s5)(?p \<mapsto> File content)"
    using wr rd(1) by (auto elim!: write_file_cases)
  have s8: "st_entries s8 p = st_entries s6 p" for p
    using keepsD [OF keeps_calls(8) b(1)] keepsD [OF keeps_calls(9) b(3)] by simp
  note hash = hash_file_Inr [OF h]
  have s11: "st_entries s11 p = st_entries s9 p" for p
    using keepsD [OF keeps_calls(11) d(1)] keepsD [OF keeps_vacant d(2)] by simp
  have part: "st_entries s11 ?p = Some (File content)" using s11 hash s8 s6 by simp
  have new: "st_entries t ?q = Some (File content)"
    using n ne part by (auto elim!: rename_file_cases)
  have free: "st_entries s ?q = None"
  proof -
    obtain y s12 where "st_call s10 = (Inr y, s12)" "st_entries s12 ?q = None"
      using d(2) by (auto simp: vacant_def io_step_Inr sbind_eq_Inr)
    then have "st_entries s10 ?q = None" using st_call_entries by metis
    then have "st_entries s9 ?q = None" using keepsD [OF keeps_calls(11) d(1)] by metis
    then show ?thesis using hash s8 s6 s5 s4 ne by simp
  qed
  have "so_path src \<noteq> ?p"
  proof
    assume "so_path src = ?p"
    then obtain bytes where "st_entries s3 ?p = Some (File bytes)"
      using file_length_Inr [OF a(4) [unfolded io_step_Inr]] by auto
    then show False using s5(1) keepsD [OF keeps_calls(8) a(4)] by simp
  qed
  then have "st_entries s (so_path src) = Some (File content)"
    using rd(2) [OF refl] s5(2) s4 by simp
  moreover have "verified_copy env ?e content"
    using hash s8 s6 sc b(2) by (auto simp: verified_copy_def)
  ultimately show ?thesis using new free s5(1) s4 by auto
qed

lemma copy_sources_keep:
  assumes "\<And>src. src \<in> set srcs \<Longrightarrow> p \<noteq> target_of root (source_entry src) \<and> p \<noteq> part_of (target_of root (source_entry src))"
  shows "keeps p (copy_sources env root srcs)"
  using assms
  by (induction srcs) (simp_all only: copy_sources.simps keeps_spure keeps_bind keeps_copy list.set insert_iff simp_thms)

lemma copy_sources_Inr:
  "copy_sources env root srcs s = (Inr u, t) \<Longrightarrow> src \<in> set srcs \<Longrightarrow>
     \<exists>content. st_entries t (target_of root (source_entry src)) = Some (File content)
       \<and> verified_copy env (source_entry src) content"
proof (induction srcs arbitrary: s)
  case (Cons x xs)
  obtain v s1 where c: "copy_source env root x s = (Inr v, s1)" "copy_sources env root xs s1 = (Inr u, t)"
    using Cons.prems(1) by (auto simp: sbind_eq_Inr)
  show ?case
  proof (cases "src \<in> set xs")
    case False
    obtain content where x: "st_entries s1 (target_of root (source_entry x)) = Some (File content)"
        "verified_copy env (source_entry x) content"
      using copy_source_Inr [OF c(1)] by blast
    have "st_entries t p = st_entries s1 p" if "st_entries s1 p \<noteq> None" for p
      using c(2) that
    proof (induction xs arbitrary: s1)
      case (Cons y ys)
      obtain w s2 where d: "copy_source env root y s1 = (Inr w, s2)" "copy_sources env root ys s2 = (Inr u, t)"
        using Cons.prems(1) by (auto simp: sbind_eq_Inr)
      have "p \<noteq> target_of root (source_entry y)" "p \<noteq> part_of (target_of root (source_entry y))"
        using copy_source_Inr [OF d(1)] Cons.prems(2) by auto
      then have "st_entries s2 p = st_entries s1 p" using keepsD [OF keeps_copy d(1)] by blast
      then show ?case using Cons.IH [OF d(2)] Cons.prems(2) by simp
    qed simp
    then show ?thesis using x False Cons.prems(2) by auto
  qed (use Cons.IH [OF c(2)] in simp)
qed simp

subsection \<open>The manifest vouches for the folder\<close>

definition manifest_path :: "folder_path \<Rightarrow> folder_path" where
  "manifest_path d = d @ [''bundle.json'']"

lemma keeps_below: "(\<And>s r t. m s = (r, t) \<Longrightarrow> only_below d s t) \<Longrightarrow> \<not> prefix d p \<Longrightarrow> keeps p m"
  by (rule keepsI) (auto simp: only_below_def)

lemma notebook_save_files:
  assumes "notebook_save bk ej nb d s = (Inr x, t)"
  shows "\<exists>files b. book_files bk ej nb = Inr files \<and> st_entries t (receipt_path d) = Some (File b)
    \<and> list_all (\<lambda>(n, data). st_entries t (d @ [n]) = Some (File data)) files"
proof -
  obtain files where f: "book_files bk ej nb = Inr files"
      "sbind (smap_error Store_failed (folder_save d files (bk_receipt bk (book_receipt_of bk nb files))))
        (\<lambda>_. spure (Inr (book_receipt_of bk nb files))) s = (Inr x, t)"
    using assms by (auto simp: notebook_save_def sbind_eq_Inr)
  then have "separate_names (''receipt.json'' # map fst files)"
    using separate_report_names(2) by (auto simp: book_files_def result_simps)
  from folder_step(3) [OF f(2) this] f(1) show ?thesis by auto
qed

lemma keeps_notebook_save:
  assumes "\<not> prefix d p"
  shows "keeps p (notebook_save bk ej nb d)"
proof (rule keepsI)
  fix s r t
  assume a: "notebook_save bk ej nb d s = (r, t)"
  show "st_entries t p = st_entries s p"
  proof (cases "book_files bk ej nb")
    case (Inr files)
    then have f: "sbind (smap_error Store_failed (folder_save d files (bk_receipt bk (book_receipt_of bk nb files))))
        (\<lambda>_. spure (Inr (book_receipt_of bk nb files))) s = (r, t)"
      using a by (simp add: notebook_save_def)
    have "separate_names (''receipt.json'' # map fst files)"
      using Inr separate_report_names(2) by (auto simp: book_files_def result_simps)
    from folder_step(1) [OF f this] show ?thesis using assms by (simp add: only_below_def)
  qed (use a in \<open>auto simp: notebook_save_def\<close>)
qed

lemma keeps_draft_save:
  assumes "\<not> prefix d p"
  shows "keeps p (draft_save pv rt ej dr d)"
proof (rule keepsI)
  fix s r t
  assume "draft_save pv rt ej dr d s = (r, t)"
  then show "st_entries t p = st_entries s p"
  proof (cases rule: draft_save_cases)
    case (late md html json)
    from folder_step(1) [OF late(4) report_entries_separate] show ?thesis
      using assms by (simp add: only_below_def)
  qed simp
qed

text \<open>Paths in the new folder that only the step that is meant to write them writes.\<close>

lemma keeps_reports:
  assumes "\<And>x. p \<noteq> d @ ''reports'' # x"
  shows "keeps p (io_step (create_dir (d @ [''reports''])))" "keeps p (each_turn (save_report env d) ts)"
proof -
  show "keeps p (io_step (create_dir (d @ [''reports''])))"
    unfolding io_step_def by (intro keeps_smap keeps_create) (use assms [of "[]"] in simp)
  have "\<not> prefix (turn_folder d t) p" for t
    using assms by (auto simp: turn_folder_def prefix_def)
  then show "keeps p (each_turn (save_report env d) ts)"
    unfolding save_report_def by (intro keeps_each keeps_bind keeps_calls keeps_smap keeps_draft_save keeps_spure)
qed

lemma keeps_copies:
  assumes "\<And>x. p \<noteq> d @ ''captures'' # x"
  shows "keeps p (copy_sources env d srcs)"
  by (rule copy_sources_keep) (metis assms target_below part_below)

lemma bundle_contents_manifest: "keeps (manifest_path d) (bundle_contents env d book selected)"
proof -
  have lift: "keeps p m \<Longrightarrow> keeps p (io_step m)" for p and m :: "'x store_action"
    unfolding io_step_def by (rule keeps_smap)
  have apart: "manifest_path d \<noteq> d" "manifest_path d \<noteq> d @ [''captures'']" "\<not> prefix (d @ [''notebook'']) (manifest_path d)"
    "manifest_path d \<noteq> d @ ''reports'' # x" "manifest_path d \<noteq> d @ ''captures'' # x" for x
    by (auto simp: manifest_path_def prefix_def)
  show ?thesis
    unfolding bundle_contents_def
    by (intro keeps_bind lift keeps_create keeps_smap keeps_notebook_save keeps_reports keeps_verify keeps_copies keeps_calls apart)
qed

text \<open>What lies in the folder beside its manifest.\<close>

definition folder_complete ::
    "bundle_env \<Rightarrow> folder_path \<Rightarrow> notebook \<Rightarrow> source list \<Rightarrow> (folder_path \<Rightarrow> entry option) \<Rightarrow> bool" where
  "folder_complete env d book selected entries \<longleftrightarrow>
     (\<exists>files b. book_files (bn_book env) (bn_json env) book = Inr files
        \<and> entries (receipt_path (d @ [''notebook''])) = Some (File b)
        \<and> list_all (\<lambda>(n, data). entries (d @ [''notebook'', n]) = Some (File data)) files)
     \<and> (\<forall>src \<in> set selected. \<exists>content. entries (target_of d (source_entry src)) = Some (File content)
          \<and> verified_copy env (source_entry src) content)"

lemma bundle_contents_Inr:
  assumes "bundle_contents env d book selected s = (Inr u, t)"
  shows "folder_complete env d book selected (st_entries t)"
proof -
  obtain x1 s1 x2 s2 nb s3 x4 s4 x5 s5 x6 s6 x7 s7 where
    n: "smap_error Notebook_unsaved (notebook_save (bn_book env) (bn_json env) book (d @ [''notebook''])) s2 = (Inr nb, s3)"
    and a: "io_step (create_dir (d @ [''reports''])) s3 = (Inr x4, s4)"
      "each_turn (save_report env d) (filter has_report (nb_turns book)) s4 = (Inr x5, s5)"
      "verify_reports env d book s5 = (Inr x6, s6)"
    and c: "copy_sources env d selected s6 = (Inr x7, s7)" "check_cancel s7 = (Inr u, t)"
    using assms unfolding bundle_contents_def sbind_eq_Inr by blast
  have "notebook_save (bn_book env) (bn_json env) book (d @ [''notebook'']) s2 = (Inr nb, s3)"
    using n by (elim smap_error_cases) simp_all
  from notebook_save_files [OF this] obtain files b where
    f: "book_files (bn_book env) (bn_json env) book = Inr files" "st_entries s3 (receipt_path (d @ [''notebook''])) = Some (File b)"
      "list_all (\<lambda>(n, data). st_entries s3 (d @ [''notebook'', n]) = Some (File data)) files"
    by auto
  have "st_entries t (d @ ''notebook'' # x) = st_entries s3 (d @ ''notebook'' # x)" for x
  proof -
    have apart: "d @ ''notebook'' # x \<noteq> d @ ''reports'' # y" "d @ ''notebook'' # x \<noteq> d @ ''captures'' # y" for y by simp_all
    show ?thesis
      using keepsD [OF keeps_reports(1) [OF apart(1)] a(1)] keepsD [OF keeps_reports(2) [OF apart(1)] a(2)]
        keepsD [OF keeps_verify a(3)] keepsD [OF keeps_copies [OF apart(2)] c(1)] keepsD [OF keeps_calls(11) c(2)] by simp
  qed
  moreover have "st_entries t p = st_entries s7 p" for p using keepsD [OF keeps_calls(11) c(2)] .
  ultimately show ?thesis
    unfolding folder_complete_def using f copy_sources_Inr [OF c(1)] by (auto simp: receipt_path_def)
qed

lemma folder_complete_cong:
  assumes "\<And>x. f (d @ ''notebook'' # x) = g (d @ ''notebook'' # x)" "\<And>x. f (d @ ''captures'' # x) = g (d @ ''captures'' # x)"
  shows "folder_complete env d book selected f = folder_complete env d book selected g"
proof -
  have "f (target_of d (source_entry src)) = g (target_of d (source_entry src))" for src
    using target_below [of d src] assms(2) by auto
  then show ?thesis using assms(1) by (simp add: folder_complete_def receipt_path_def)
qed

text \<open>An operation withholds a path when the entry there is the same wherever it fails.\<close>

definition withholds :: "folder_path \<Rightarrow> (store, 'e, 'a) action \<Rightarrow> bool" where
  "withholds p m \<longleftrightarrow> (\<forall>s e t. m s = (Inl e, t) \<longrightarrow> st_entries t p = st_entries s p)"

lemma withholds_bind:
  assumes "keeps p m" "\<And>x. withholds p (f x)"
  shows "withholds p (sbind m f)"
  unfolding withholds_def
proof (intro allI impI)
  fix s e t
  assume "sbind m f s = (Inl e, t)"
  then consider "m s = (Inl e, t)" | x s1 where "m s = (Inr x, s1)" "f x s1 = (Inl e, t)"
    unfolding sbind_eq_Inl by blast
  then show "st_entries t p = st_entries s p"
  proof cases
    case 2
    then show ?thesis using keepsD [OF assms(1) 2(1)] assms(2) unfolding withholds_def by metis
  qed (rule keepsD [OF assms(1)])
qed

lemma withholds_manifest: "withholds (manifest_path d) (bundle_save env d book current sources inputs)"
proof -
  have publish: "withholds (manifest_path d) (sbind (io_step (publish d ''bundle.json'' data)) (\<lambda>_. spure (Inr x)))"
    for data and x :: manifest
    unfolding withholds_def
  proof (intro allI impI)
    fix s e t
    assume "sbind (io_step (publish d ''bundle.json'' data)) (\<lambda>_. spure (Inr x)) s = (Inl e, t)"
    then obtain e' where "publish d ''bundle.json'' data s = (Inl e', t)"
      by (auto simp: sbind_eq_Inl io_step_def elim: smap_error_cases)
    from publish_outcome(1) [OF this _ refl, of "manifest_path d"]
    show "st_entries t (manifest_path d) = st_entries s (manifest_path d)" by (simp add: manifest_path_def)
  qed
  show ?thesis
    unfolding bundle_save_def planned_step_def
    by (intro withholds_bind keeps_spure keeps_calls keeps_local bundle_contents_manifest publish)
qed

lemma bundle_save_Inr:
  assumes "bundle_save env d book current sources inputs s = (Inr m, t)"
  shows "\<exists>selected data s1. bundle_plan (bn_json env) book current sources = Inr selected
    \<and> m = manifest_of current inputs selected \<and> bn_manifest env m = Some data
    \<and> folder_complete env d book selected (st_entries s1) \<and> publish d ''bundle.json'' data s1 = (Inr (), t)"
proof -
  obtain selected data sa sb sc sd v se sf sg sh si u where
    plan: "planned_step (bundle_plan (bn_json env) book current sources) sa = (Inr selected, sb)"
    and contents: "bundle_contents env d book selected sc = (Inr v, sd)"
    and data: "spure (ok_or (bn_manifest env (manifest_of current inputs selected)) Manifest_unwritable) sd = (Inr data, se)"
    and fits: "spure (ensure (length data \<le> max_manifest_bytes) Manifest_too_large) se = (Inr u, sf)"
    and publish: "io_step (publish d ''bundle.json'' data) sf = (Inr sg, sh)"
    and result: "spure (Inr (manifest_of current inputs selected)) sh = (Inr m :: bundle_failure + manifest, t)"
    using assms unfolding bundle_save_def sbind_eq_Inr by (elim exE conjE) (rule that; assumption)
  have "bundle_plan (bn_json env) book current sources = Inr selected"
    using plan by (cases "bundle_plan (bn_json env) book current sources") (simp_all add: planned_step_def)
  then show ?thesis
    using bundle_contents_Inr [OF contents] data fits publish result by (auto simp: io_step_Inr ok_or_eq_Inr)
qed

text \<open>
  C18: Saving an investigation writes its manifest last. Wherever the save fails, or is cancelled, there is no
  manifest in the folder. Where there is one, the save has succeeded, it is the manifest of the planned
  sources, and beside it lie the notebook with its receipt and, for each source, a copy with the length, the
  hash, the packets and the format of its entry.
\<close>

theorem bundle_manifest_vouches:
  assumes "bundle_save env d book current sources inputs s = (r, t)" "st_entries s (manifest_path d) = None"
  shows "if st_entries t (manifest_path d) = None then \<not> is_ok r
    else \<exists>selected data. bundle_plan (bn_json env) book current sources = Inr selected
      \<and> r = Inr (manifest_of current inputs selected) \<and> bn_manifest env (manifest_of current inputs selected) = Some data
      \<and> st_entries t (manifest_path d) = Some (File data) \<and> folder_complete env d book selected (st_entries t)"
proof (cases r)
  case (Inl e)
  then have "st_entries t (manifest_path d) = None"
    using withholds_manifest assms unfolding withholds_def by metis
  then show ?thesis using Inl by simp
next
  case (Inr m)
  obtain selected data s1 where m: "bundle_plan (bn_json env) book current sources = Inr selected"
      "m = manifest_of current inputs selected" "bn_manifest env m = Some data"
      "folder_complete env d book selected (st_entries s1)" "publish d ''bundle.json'' data s1 = (Inr (), t)"
    using bundle_save_Inr [OF assms(1) [unfolded Inr]] by blast
  have other: "st_entries t p = (if p = manifest_path d then Some (File data) else st_entries s1 p)"
    if "p \<noteq> d @ [''bundle.json'' @ ''.part'']" for p
    using publish_outcome(2) [OF m(5) that refl] by (simp add: manifest_path_def)
  have "folder_complete env d book selected (st_entries t) = folder_complete env d book selected (st_entries s1)"
    by (rule folder_complete_cong) (simp_all add: other manifest_path_def)
  moreover have "st_entries t (manifest_path d) = Some (File data)"
    using other [of "manifest_path d"] by (simp add: manifest_path_def)
  ultimately show ?thesis using m(1-4) Inr by simp
qed

subsection \<open>Opening\<close>

definition dump_opened :: "bundle_env \<Rightarrow> (folder_path \<Rightarrow> entry option) \<Rightarrow> folder_path \<Rightarrow> capture_entry \<Rightarrow> scan \<Rightarrow> bool" where
  "dump_opened env entries p e sc \<longleftrightarrow> (\<exists>content. entries p = Some (File content) \<and> length content = en_bytes e
     \<and> read_dump (bn_sha env) (bn_cancel env) (bn_chunk env) (file_octets content) = Inr sc \<and> dump_matches sc e)"

lemma open_dump_Inr:
  assumes "open_dump env p e s = (Inr sc, t)"
  shows "dump_opened env (st_entries s) p e sc"
proof -
  obtain u s1 before s2 v s3 content s4 s5 after s6 w where
    a: "io_step st_call s = (Inr u, s1)" "io_step (file_length p) s1 = (Inr before, s2)"
    and n: "spure (ensure (before = en_bytes e) Length_differs) s2 = (Inr v, s3)"
    and r: "io_step (read_all p) s3 = (Inr content, s4)"
    and sc: "spure (map_sum Dump_rejected id (read_dump (bn_sha env) (bn_cancel env) (bn_chunk env) (file_octets content))) s4
      = (Inr sc, s5)"
    and d: "spure (ensure (before = after \<and> dump_matches sc e) Source_differs) s6 = (Inr w, t)"
    using assms unfolding open_dump_def sbind_eq_Inr by auto
  have "st_entries s1 p = st_entries s p" using keepsD [OF keeps_calls(9) a(1)] .
  moreover obtain c where "st_entries s1 p = Some (File c)" "before = length c"
    using file_length_Inr a(2) unfolding io_step_Inr by blast
  moreover have "s3 = s2" "before = en_bytes e" using n by (simp_all add: ensure_eq_Inr)
  moreover have "st_entries s2 p = st_entries s1 p" using keepsD [OF keeps_calls(8) a(2)] .
  moreover have "st_entries s3 p = Some (File content)"
    using read_all_cases(2) [OF _ refl] r unfolding io_step_Inr by blast
  moreover have "read_dump (bn_sha env) (bn_cancel env) (bn_chunk env) (file_octets content) = Inr sc"
    using sc by (cases "read_dump (bn_sha env) (bn_cancel env) (bn_chunk env) (file_octets content)") simp_all
  ultimately show ?thesis using d by (simp add: dump_opened_def ensure_eq_Inr)
qed

lemma open_dumps_Inr:
  assumes "open_dumps env d current es fd s = (Inr fd', t)"
  shows "list_all (\<lambda>e. \<exists>sc. dump_opened env (st_entries s) (target_of d e) e sc) es
    \<and> map so_path (fd_sources fd') = map so_path (fd_sources fd) @ map (target_of d) es
    \<and> (fd_active fd' = fd_active fd \<or> (\<exists>e sc. e \<in> set es \<and> fd_active fd' = Some (sc, target_of d e)
         \<and> eq_ignore_ascii_case (cx_sha256 current) (en_sha256 e) \<and> dump_opened env (st_entries s) (target_of d e) e sc))"
  using assms
proof (induction es arbitrary: fd s)
  case (Cons e es)
  obtain u s1 v s2 sc s3 where
    a: "check_cancel s = (Inr u, s1)" "local_path env (target_of d e) False s1 = (Inr v, s2)"
    and o: "open_dump env (target_of d e) e s2 = (Inr sc, s3)"
    and r: "open_dumps env d current es (add_dump current (target_of d e) e sc fd) s3 = (Inr fd', t)"
    using Cons.prems unfolding open_dumps.simps sbind_eq_Inr by blast
  have "st_entries s2 p = st_entries s p" for p using keepsD [OF keeps_calls(11) a(1)] keepsD [OF keeps_local a(2)] by simp
  then have s2: "st_entries s2 = st_entries s" by blast
  have "st_entries s3 p = st_entries s2 p" for p using keepsD [OF keeps_open_dump o] .
  then have s3: "st_entries s3 = st_entries s" using s2 by auto
  let ?fd = "add_dump current (target_of d e) e sc fd"
  have opened: "dump_opened env (st_entries s) (target_of d e) e sc" using open_dump_Inr [OF o] s2 by simp
  have paths: "map so_path (fd_sources ?fd) = map so_path (fd_sources fd) @ [target_of d e]"
    by (simp add: add_dump_def source_new_def Let_def)
  have first: "fd_active ?fd = fd_active fd \<or> fd_active ?fd = Some (sc, target_of d e)
      \<and> eq_ignore_ascii_case (cx_sha256 current) (en_sha256 e)"
    by (simp add: add_dump_def Let_def)
  note ih = Cons.IH [OF r, unfolded s3]
  have "fd_active fd' = fd_active fd \<or> (\<exists>e' sc'. e' \<in> set (e # es) \<and> fd_active fd' = Some (sc', target_of d e')
      \<and> eq_ignore_ascii_case (cx_sha256 current) (en_sha256 e') \<and> dump_opened env (st_entries s) (target_of d e') e' sc')"
  proof -
    from ih have "fd_active fd' = fd_active ?fd \<or> (\<exists>e' sc'. e' \<in> set es \<and> fd_active fd' = Some (sc', target_of d e')
      \<and> eq_ignore_ascii_case (cx_sha256 current) (en_sha256 e') \<and> dump_opened env (st_entries s) (target_of d e') e' sc')"
      by blast
    then show ?thesis
    proof (elim disjE)
      assume "fd_active fd' = fd_active ?fd"
      then show ?thesis using first opened by (elim disjE) (simp, rule disjI2, rule exI [of _ e], rule exI [of _ sc], simp)
    qed (simp only: list.set insert_iff, blast)
  qed
  then show ?case using ih opened paths by auto
qed simp

text \<open>
  Opening an investigation changes no file. What is opened is what the manifest says: it validates
  against the notebook, every dump it names lies in the folder with the length, hash, packets and format of
  its entry, and the dump that is shown is that of the current context.
\<close>

theorem bundle_load_checked:
  assumes "bundle_load env d s = (Inr op, t)"
  shows "st_entries t = st_entries s \<and> (\<exists>data m n.
    st_entries s (manifest_path d) = Some (File data) \<and> read_manifest env data = Inr m
    \<and> op_current op = mf_current m \<and> op_inputs op = mf_inputs m
    \<and> bundle_validate (bn_json env) (op_notebook op) (mf_current m) (mf_captures m) = Inr n
    \<and> list_all (\<lambda>e. \<exists>sc. dump_opened env (st_entries s) (target_of d e) e sc) (mf_captures m)
    \<and> map so_path (op_sources op) = map (target_of d) (mf_captures m)
    \<and> (\<exists>e \<in> set (mf_captures m). eq_ignore_ascii_case (cx_sha256 (mf_current m)) (en_sha256 e)
         \<and> snd (op_scan op) = target_of d e \<and> dump_opened env (st_entries s) (target_of d e) e (fst (op_scan op))))"
proof -
  let ?empty = "\<lparr>fd_sources = [], fd_active = None, fd_baseline = None\<rparr>"
  obtain u1 s1 u2 s2 u3 s3 data s4 m s5 book s6 u4 s7 n s8 fd s9 active s10 recovered where
    a: "check_cancel s = (Inr u1, s1)" "local_path env d True s1 = (Inr u2, s2)"
      "local_path env (d @ [''bundle.json'']) False s2 = (Inr u3, s3)"
    and data: "bounded_file env (d @ [''bundle.json'']) max_manifest_bytes s3 = (Inr data, s4)"
    and m: "spure (read_manifest env data) s4 = (Inr m, s5)"
    and b: "load_book env d s5 = (Inr book, s6)" "verify_reports env d book s6 = (Inr u4, s7)"
    and v: "planned_step (bundle_validate (bn_json env) book (mf_current m) (mf_captures m)) s7 = (Inr n, s8)"
    and dumps: "open_dumps env d (mf_current m) (mf_captures m) ?empty s8 = (Inr fd, s9)"
    and active: "spure (ok_or (fd_active fd) Current_dump_missing) s9 = (Inr active, s10)"
    and op: "op = \<lparr>op_notebook = book, op_current = mf_current m, op_sources = fd_sources fd, op_scan = active,
         op_baseline = fd_baseline fd, op_recovered = recovered, op_inputs = mf_inputs m\<rparr>"
    using assms unfolding bundle_load_def sbind_eq_Inr by auto
  have "st_entries s3 p = st_entries s p" for p
    using keepsD [OF keeps_calls(11) a(1)] keepsD [OF keeps_local a(2)] keepsD [OF keeps_local a(3)] by simp
  then have s3: "st_entries s3 = st_entries s" by blast
  have "st_entries s8 p = st_entries s3 p" for p
    using keepsD [OF keeps_bounded data] m keepsD [OF keeps_load_book b(1)] keepsD [OF keeps_verify b(2)] v
    by (simp add: planned_step_def)
  then have s8: "st_entries s8 = st_entries s" using s3 by auto
  have content: "st_entries s (manifest_path d) = Some (File data)"
    using bounded_file_Inr [OF data] s3 by (simp add: manifest_path_def)
  have valid: "bundle_validate (bn_json env) book (mf_current m) (mf_captures m) = Inr n" "read_manifest env data = Inr m"
    using v m by (cases "bundle_validate (bn_json env) book (mf_current m) (mf_captures m)"; simp add: planned_step_def)+
  have "st_entries t p = st_entries s p" for p using keepsD [OF keeps_load assms] .
  moreover note open_dumps_Inr [OF dumps, unfolded s8]
  moreover have "fd_active fd = Some active" using active by (simp add: ok_or_eq_Inr)
  ultimately show ?thesis using content valid op by (intro conjI exI [of _ data] exI [of _ m] exI [of _ n]) auto
qed

end
