(* ===== verification/Bundle_Demo.thy ===== *)
theory Bundle_Demo
  imports Bundle_Store_Facts Segment_Reads
begin

text \<open>
  An investigation is saved: a disk on which nothing fails, a notebook with one note, and a dump of nine empty
  packets.
\<close>

subsection \<open>Where nothing fails\<close>

definition open_paths :: path_view where
  "open_paths = \<lparr>pv_absolute = (\<lambda>p. True), pv_text = concat\<rparr>"

definition reachable :: "folder_path \<Rightarrow> store \<Rightarrow> bool" where
  "reachable p s \<longleftrightarrow> list_all component_ok p \<and> \<not> prefix [CHR 0x5C, CHR 0x5C] (concat p) \<and> \<not> prefix ''//'' (concat p)
     \<and> list_all (\<lambda>q. st_entries s q = Some Directory) (tl (path_ancestors p))"

lemma local_path_calm:
  assumes "st_faults s = []" "bn_paths env = open_paths" "reachable p s"
    and "if k then st_entries s p = Some Directory else \<exists>c. st_entries s p = Some (File c)"
  shows "local_path env p k s = (Inr (), s)"
proof -
  have "plain_path p k s = (Inr (), s)"
    using assms(1,4) by (auto simp: plain_path_def st_call_calm sbind_def split: if_splits)
  moreover have "plain_paths (tl (path_ancestors p)) s = (Inr (), s)"
    using assms(1,3) by (intro plain_paths_calm) (simp_all add: reachable_def)
  ultimately show ?thesis
    using assms(2,3) by (simp add: local_path_def reachable_def open_paths_def io_step_def smap_error_def sbind_def Let_def)
qed

lemma calls_calm:
  assumes "st_faults s = []"
  shows "check_cancel s = (Inr (), s)" "io_step st_call s = (Inr (), s)"
    "st_entries s p = Some (File c) \<Longrightarrow> io_step (file_length p) s = (Inr (length c), s)"
    "st_entries s p = Some (File c) \<Longrightarrow> io_step (read_all p) s = (Inr c, s)"
    "vacant p s = (Inr (st_entries s p = None), s)"
  by (simp_all add: check_cancel_def io_step_def smap_error_def st_call_calm assms file_length_def read_all_def
      vacant_def sbind_def)

lemma create_calm:
  assumes "st_faults s = []" "free_name p s"
  shows "io_step (create_dir p) s = (Inr (), put_entry p (Some Directory) s)"
    "io_step (create_file p) s = (Inr (), put_entry p (Some (File [])) s)"
  using assms by (simp_all add: io_step_def smap_error_def create_dir_def create_file_def st_call_calm sbind_def)

lemma bounded_file_calm:
  assumes "st_faults s = []" "bn_paths env = open_paths" "reachable p s" "st_entries s p = Some (File c)" "length c \<le> n"
  shows "bounded_file env p n s = (Inr c, s)"
  using assms local_path_calm [OF assms(1-3), of False]
  by (simp add: bounded_file_def calls_calm sbind_def Let_def)

lemma copy_source_calm:
  fixes env root src
  defines "e \<equiv> source_entry src"
  defines "q \<equiv> target_of root e"
  assumes calm: "st_faults s = []" "bn_paths env = open_paths"
    and source: "reachable (so_path src) s" "st_entries s (so_path src) = Some (File content)" "verified_copy env e content"
    and room: "st_entries s q = None" "free_name (part_of q) s" "reachable (part_of q) s"
  shows "\<exists>t. copy_source env root src s = (Inr (), t) \<and> st_faults t = []"
proof -
  let ?p = "part_of q"
  define s1 where "s1 = put_entry ?p (Some (File [])) s"
  define s2 where "s2 = put_entry ?p (Some (File content)) s1"
  have f: "st_faults s1 = []" "st_faults s2 = []" by (simp_all add: s1_def s2_def calm)
  have ne: "?p \<noteq> q" unfolding q_def e_def by (rule part_apart) (use target_below [of root src] in auto)
  have "?p \<noteq> so_path src" using room(2) source(2) by (auto simp: free_name_def)
  then have src: "st_entries s1 (so_path src) = Some (File content)" "st_entries s2 (so_path src) = Some (File content)"
    using source(2) by (simp_all add: s1_def s2_def)
  obtain sc where sc: "read_dump (bn_sha env) (bn_cancel env) (bn_chunk env) (file_octets content) = Inr sc" "dump_matches sc e"
      and same: "length content = en_bytes e" "bn_sha env (file_octets content) = en_sha256 e"
    using source(3) by (auto simp: verified_copy_def)
  have written: "io_step (write_file ?p content) s1 = (Inr (), s2)"
    by (simp add: io_step_def smap_error_def write_file_def st_fault_def f s2_def)
  have ce: "copy_reading env (so_path src) ?p s1 = (Inr sc, s2)"
    using calls_calm(4) [OF f(1) src(1)] written by (simp add: copy_reading_def sbind_def sc)
  have reach: "reachable ?p s2" using room(2,3) by (auto simp: reachable_def list_all_iff s2_def s1_def free_name_def)
  have part: "st_entries s2 ?p = Some (File content)" by (simp add: s2_def)
  have hash: "hash_file env ?p e s2 = (Inr (), s2)"
    using local_path_calm [OF f(2) calm(2) reach, of False] calls_calm(4) [OF f(2) part] same part
    by (simp add: hash_file_def sbind_def calls_calm(1,2) [OF f(2)])
  have free: "st_entries s2 q = None" using room(1) ne by (simp add: s2_def s1_def)
  have ren: "io_step (rename_file ?p q) s2 = (Inr (), put_entry ?p None (put_entry q (Some (File content)) s2))"
    using free by (simp add: io_step_def smap_error_def rename_file_def sbind_def st_call_calm f) (simp add: s2_def)
  have len: "so_bytes src = length content" using same by (simp add: e_def source_entry_def Let_def)
  have "copy_source env root src s = (Inr (), put_entry ?p None (put_entry q (Some (File content)) s2))"
    unfolding copy_source_def Let_def
    using local_path_calm [OF calm source(1), of False] source(2) create_calm(2) [OF calm(1) room(2)]
    by (simp add: sbind_def calls_calm(1,2,3) [OF calm(1)] len ce calls_calm(1,2,3,5) [OF f(2)] src sc hash free ren
        flip: e_def q_def s1_def)
  then show ?thesis by (simp add: f)
qed

subsection \<open>The dump\<close>

text \<open>A classic PCAP keeps its format.\<close>

lemma retain_format: "retain env i off t n bs (c, inp) = Inr (c', inp') \<Longrightarrow> cf_format c' = cf_format c"
  by (auto simp: retain_def retain_packet_def Let_def result_simps split: if_splits)

lemma pcap_record_format: "pcap_record env ph off h (c, inp) = Inr (c', inp') \<Longrightarrow> cf_format c' = cf_format c"
  by (auto simp: pcap_record_def Let_def result_simps dest: retain_format)

lemma pcap_loop_format: "pcap_loop env ph ci = Inr ci' \<Longrightarrow> cf_format (fst ci') = cf_format (fst ci)"
proof (induction env ph ci arbitrary: ci' rule: pcap_loop.induct)
  case (1 env ph c inp)
  obtain h i2 where n: "input_next env 16 inp = Inr (h, i2)"
    using "1.prems" by (auto simp: pcap_loop.simps [of env ph c inp] split: sum.splits)
  show ?case
  proof (cases h)
    case None
    then show ?thesis using "1.prems" n by (auto simp: pcap_loop.simps [of env ph c inp])
  next
    case (Some g)
    then obtain c2 i3 where r: "pcap_record env ph (in_count inp) g (c, i2) = Inr (c2, i3)"
        and l: "pcap_loop env ph (c2, i3) = Inr ci'"
      using "1.prems" n by (auto simp: pcap_loop.simps [of env ph c inp] split: sum.splits)
    have "cf_format (fst ci') = cf_format c2"
      using "1.IH" [OF n _ Some r refl l] by simp
    then show ?thesis using pcap_record_format [OF r] by simp
  qed
qed

lemma read_pcap_format: "read_pcap env magic (c, inp) = Inr (c', inp') \<Longrightarrow> cf_format c' = cf_format c"
  by (auto simp: read_pcap_def pcap_start_def Let_def result_simps dest!: pcap_loop_format)

lemma read_dump_format:
  assumes "read_dump sha cancel chunk (magic @ rest) = Inr sc" "length magic = 4" "magic \<noteq> ng_magic"
  shows "cf_format (sc_capture sc) = Pcap"
proof -
  obtain c a where r: "read_with sha (analyzer_env cancel chunk) (magic @ rest) analyzer_initial = Inr (c, a)"
      "sc = finish_scan c a"
    using assms(1) by (auto simp: read_dump_def result_simps)
  obtain g i where g: "input_exact (analyzer_env cancel chunk) 4
      \<lparr>unread = magic @ rest, in_count = 0, in_sink = analyzer_initial\<rparr> = Inr (g, i)"
    using r(1) by (auto simp: read_with_def result_simps)
  have "read_exact (analyzer_env cancel chunk) 4 \<lparr>unread = magic @ rest, in_count = 0, in_sink = analyzer_initial\<rparr> = Inr (g, i)"
    using g by (auto simp: input_exact_def split: sum.splits if_splits)
  from read_exact_unread [OF this] assms(2) have "g = magic" by (auto simp: append_eq_append_conv)
  then have "cf_format c = cf_format (empty_capture Pcap)"
    using r(1) g assms(3) by (auto simp: read_with_def result_simps dest!: read_pcap_format)
  then show ?thesis by (simp add: r(2) finish_scan_def Let_def empty_capture_def)
qed

text \<open>A dump as the collection writes it, of nine packets.\<close>

definition nine_dump :: "u8 list" where
  "nine_dump = segment_data calm_env sample_options (replicate 9 sample_record)"

lemma nine_reads:
  "\<exists>sc. read_dump sha (\<lambda>_. False) chunk nine_dump = Inr sc \<and> cf_total (sc_capture sc) = 9
     \<and> cf_format (sc_capture sc) = Pcap \<and> cf_file_bytes (sc_capture sc) = 195 \<and> cf_sha256 (sc_capture sc) = sha nine_dump"
proof -
  have n: "length nine_dump = 195"
    by (simp add: nine_dump_def segment_data_def records_bytes_def length_concat sum_list_replicate sample_record_def)
  have v: "0 < opt_snaplen sample_options" "opt_snaplen sample_options \<le> 65535" using validated [OF sample_options_ok] by auto
  have rec: "valid_record (opt_snaplen sample_options) sample_record"
    by (simp add: valid_record_def sample_record_def sample_options_def options_default_def)
  have "\<exists>c s'. read_with sha (analyzer_env (\<lambda>_. False) chunk) nine_dump analyzer_initial = Inr (c, s') \<and>
      cf_total c = length (replicate 9 sample_record) \<and> cf_file_bytes c = length nine_dump \<and> cf_sha256 c = sha nine_dump"
    unfolding nine_dump_def
  proof (rule analysis.read_with_at)
    show "analyzer_fits analyzer_initial" by (simp add: analyzer_fits_def analyzer_initial_def windows_fit_def)
    show "list_all (valid_record (opt_snaplen sample_options)) (replicate 9 sample_record)"
      using rec by (simp add: list_all_iff)
    show "length (segment_data calm_env sample_options (replicate 9 sample_record)) \<le> l_bytes (env_limits (analyzer_env (\<lambda>_. False) chunk))"
      using n unfolding nine_dump_def by (simp add: analyzer_env_def max_dump_bytes_def del: length_segment_data)
  qed (use v in \<open>simp_all add: calm_env_def analyzer_env_def max_dump_records_def\<close>)
  then obtain c s' where c: "read_with sha (analyzer_env (\<lambda>_. False) chunk) nine_dump analyzer_initial = Inr (c, s')"
      "cf_total c = 9" "cf_file_bytes c = 195" "cf_sha256 c = sha nine_dump"
    using n by auto
  then have r: "read_dump sha (\<lambda>_. False) chunk nine_dump = Inr (finish_scan c s')" by (simp add: read_dump_def)
  have "nine_dump = le_bytes 4 0xa1b2c3d4 @ drop 4 nine_dump"
    by (simp add: nine_dump_def segment_data_def segment_header_def)
  moreover have "le_bytes 4 0xa1b2c3d4 \<noteq> ng_magic" by (simp add: le_bytes_4 ng_magic_def)
  ultimately have "cf_format (sc_capture (finish_scan c s')) = Pcap"
    using read_dump_format [of sha "\<lambda>_. False" chunk "le_bytes 4 0xa1b2c3d4" "drop 4 nine_dump"] r by simp
  then show ?thesis using r c by (simp add: finish_scan_def Let_def)
qed

lemma file_octets_chars: "file_octets (map (\<lambda>b. char_of (unat b)) bs) = bs"
proof -
  have "of_nat (code (char_of (unat b))) = b" for b :: u8
  proof -
    have "unat b < 2 ^ LENGTH(8)" by (rule unsigned_less)
    then have "unat b mod 256 = unat b" by simp
    then show ?thesis by (simp add: code_def)
  qed
  then show ?thesis by (simp add: file_octets_def comp_def)
qed

subsection \<open>The save\<close>

definition dump_bytes :: string where
  "dump_bytes = map (\<lambda>b. char_of (unat b)) nine_dump"

text \<open>A disk with a root, a directory \<open>d\<close> and the dump in it.\<close>

definition dump_disk :: store where
  "dump_disk = \<lparr>st_entries = [[] \<mapsto> Directory, [''d''] \<mapsto> Directory, [''d'', ''x.pcap''] \<mapsto> File dump_bytes], st_faults = []\<rparr>"

definition demo_bundle :: bundle_env where
  "demo_bundle = \<lparr>bn_paths = open_paths, bn_json = terse_json, bn_book = small_text, bn_report = draft_text,
     bn_parse_report = (\<lambda>_. None), bn_manifest = (\<lambda>_. Some ''m''), bn_parse_manifest = (\<lambda>_. None),
     bn_compact = (\<lambda>_. Some ''{}''), bn_sha = (\<lambda>_. replicate 64 CHR ''a''), bn_cancel = (\<lambda>_. False),
     bn_stopped = False, bn_chunk = (\<lambda>_. 100), bn_taken = length\<rparr>"

definition demo_inputs :: inputs where
  "demo_inputs = \<lparr>in_problem = [], in_question = []\<rparr>"

lemma small_entry:
  "source_entry small_source = \<lparr>en_file = ''captures/'' @ replicate 64 CHR ''a'' @ ''.pcap'', en_sha256 = replicate 64 CHR ''a'',
     en_bytes = 195, en_packets = 9, en_format = ''PCAP'', en_provenance = None\<rparr>"
proof -
  have "ascii_lower CHR ''A'' = CHR ''a''" by code_simp
  then show ?thesis
    by (simp add: source_entry_def small_source_def to_ascii_lowercase_def capture_extension_def sample_evidence_def Let_def)
qed

lemma small_copy_verified: "verified_copy demo_bundle (source_entry small_source) dump_bytes"
proof -
  obtain sc where "read_dump (\<lambda>_. replicate 64 CHR ''a'') (\<lambda>_. False) (\<lambda>_. 100) nine_dump = Inr sc"
      "cf_total (sc_capture sc) = 9" "cf_format (sc_capture sc) = Pcap" "cf_file_bytes (sc_capture sc) = 195"
      "cf_sha256 (sc_capture sc) = replicate 64 CHR ''a''"
    using nine_reads [of "\<lambda>_. replicate 64 CHR ''a''" "\<lambda>_. 100"] by blast
  moreover have "length dump_bytes = 195"
    by (simp add: dump_bytes_def nine_dump_def segment_data_def records_bytes_def length_concat sum_list_replicate sample_record_def)
  ultimately show ?thesis
    by (simp add: verified_copy_def small_entry demo_bundle_def dump_bytes_def file_octets_chars dump_matches_def
        format_label_def eq_ignore_ascii_case_def)
qed

lemma small_plan: "bundle_plan terse_json small_book (sample_evidence [3]) [small_source] = Inr [small_source]"
proof -
  have low: "to_ascii_lowercase (so_sha256 small_source) = replicate 64 CHR ''a''"
    using small_entry by (simp add: source_entry_def Let_def)
  then show ?thesis
    using small_bundle by (simp add: bundle_plan_def max_captures_def small_required)
qed

text \<open>The new folder up to its notebook and the empty directory of reports.\<close>

definition folder_entries :: "folder_path \<Rightarrow> entry option" where
  "folder_entries = (st_entries dump_disk)([''c''] \<mapsto> Directory, [''c'', ''captures''] \<mapsto> Directory, [''c'', ''reports''] \<mapsto> Directory)"

lemma folder_prepared:
  obtains s1 s2 s3 s4 nb where
    "io_step (create_dir [''c'']) dump_disk = (Inr (), s1)"
    "io_step (create_dir [''c'', ''captures'']) s1 = (Inr (), s2)"
    "notebook_save small_text terse_json small_book [''c'', ''notebook''] s2 = (Inr nb, s3)"
    "io_step (create_dir [''c'', ''reports'']) s3 = (Inr (), s4)"
    "st_faults s4 = []" "\<And>p. \<not> prefix [''c'', ''notebook''] p \<Longrightarrow> st_entries s4 p = folder_entries p"
proof -
  define s1 where "s1 = put_entry [''c''] (Some Directory) dump_disk"
  define s2 where "s2 = put_entry [''c'', ''captures''] (Some Directory) s1"
  have f: "st_faults dump_disk = []" "st_faults s1 = []" "st_faults s2 = []" by (simp_all add: dump_disk_def s1_def s2_def)
  have 1: "io_step (create_dir [''c'']) dump_disk = (Inr (), s1)"
    using create_calm(1) [OF f(1), of "[''c'']"] by (simp add: free_name_def dump_disk_def s1_def)
  have 2: "io_step (create_dir [''c'', ''captures'']) s1 = (Inr (), s2)"
    using create_calm(1) [OF f(2), of "[''c'', ''captures'']"] by (simp add: free_name_def dump_disk_def s1_def s2_def)
  have "free_name [''c'', ''notebook''] s2" by (simp add: free_name_def dump_disk_def s1_def s2_def)
  moreover have "st_entries s2 p = None" if "strict_prefix [''c'', ''notebook''] p" for p
    using that by (auto simp: dump_disk_def s1_def s2_def strict_prefix_def prefix_def)
  ultimately obtain nb s3 where 3: "notebook_save small_text terse_json small_book [''c'', ''notebook''] s2 = (Inr nb, s3)"
      and f3: "st_faults s3 = []"
    using small_book_saves [OF f(3), of "[''c'', ''notebook'']"] by metis
  have same: "st_entries s3 p = st_entries s2 p" if "\<not> prefix [''c'', ''notebook''] p" for p
    using keepsD [OF keeps_notebook_save [OF that] 3] .
  define s4 where "s4 = put_entry [''c'', ''reports''] (Some Directory) s3"
  have "free_name [''c'', ''reports''] s3"
    by (simp add: free_name_def same) (simp add: dump_disk_def s1_def s2_def)
  then have 4: "io_step (create_dir [''c'', ''reports'']) s3 = (Inr (), s4)"
    using create_calm(1) [OF f3] by (simp add: s4_def)
  have "st_entries s4 p = folder_entries p" if "\<not> prefix [''c'', ''notebook''] p" for p
    by (simp add: s4_def same [OF that] s2_def s1_def folder_entries_def)
  with 1 2 3 4 show ?thesis using that f3 by (simp add: s4_def)
qed

lemma demo_saves: "\<exists>t. bundle_save demo_bundle [''c''] small_book (sample_evidence [3]) [small_source] demo_inputs dump_disk
   = (Inr (manifest_of (sample_evidence [3]) demo_inputs [small_source]), t)"
proof -
  let ?env = demo_bundle
  obtain s1 s2 s3 s4 nb where s:
    "io_step (create_dir [''c'']) dump_disk = (Inr (), s1)"
    "io_step (create_dir [''c'', ''captures'']) s1 = (Inr (), s2)"
    "notebook_save small_text terse_json small_book [''c'', ''notebook''] s2 = (Inr nb, s3)"
    "io_step (create_dir [''c'', ''reports'']) s3 = (Inr (), s4)"
    and f4: "st_faults s4 = []" and e4: "\<And>p. \<not> prefix [''c'', ''notebook''] p \<Longrightarrow> st_entries s4 p = folder_entries p"
    using folder_prepared by metis
  have paths: "bn_paths ?env = open_paths" by (simp add: demo_bundle_def)
  have target: "target_of [''c''] (source_entry small_source) = [''c'', ''captures'', replicate 64 CHR ''a'' @ ''.pcap'']"
    by (simp add: target_of_def small_entry split_on_no_sep)
  then have part: "part_of (target_of [''c''] (source_entry small_source)) = [''c'', ''captures'', (replicate 64 CHR ''a'' @ ''.pcap'') @ ''.part'']"
    by (simp only: part_of_def) simp
  have reach: "reachable (so_path small_source) s4" "reachable [''c'', ''captures'', (replicate 64 CHR ''a'' @ ''.pcap'') @ ''.part''] s4"
      "reachable [''c'', ''reports''] s4" "reachable [] dump_disk"
    by (simp_all add: reachable_def e4 folder_entries_def dump_disk_def small_source_def component_ok_def path_ancestors_def)
  have source_path: "so_path small_source = [''d'', ''x.pcap'']" by (simp add: small_source_def)
  have "\<exists>t. copy_source ?env [''c''] small_source s4 = (Inr (), t) \<and> st_faults t = []"
    by (rule copy_source_calm [OF f4 paths reach(1) _ small_copy_verified])
      (use reach(2) in \<open>simp_all add: target part_of_def source_path e4 folder_entries_def dump_disk_def free_name_def\<close>)
  then obtain s5 where s5: "copy_source ?env [''c''] small_source s4 = (Inr (), s5)" "st_faults s5 = []" by blast
  have e5: "st_entries s5 p = folder_entries p" if "\<not> prefix [''c'', ''notebook''] p" "\<And>x. p \<noteq> [''c''] @ ''captures'' # x" for p
  proof -
    have "keeps p (copy_source ?env [''c''] small_source)"
      using that(2) [of "[replicate 64 CHR ''a'' @ ''.pcap'']"] that(2) [of "[(replicate 64 CHR ''a'' @ ''.pcap'') @ ''.part'']"]
      by (intro keeps_copy) (simp_all add: target part_of_def)
    then show ?thesis using keepsD s5(1) e4 [OF that(1)] by metis
  qed
  have free: "st_entries s5 [''c''] = Some Directory" "st_entries s5 ([''c''] @ [''bundle.json'']) = None"
      "st_entries s5 ([''c''] @ [''bundle.json'' @ ''.part'']) = None"
    by (simp_all add: e5 folder_entries_def dump_disk_def)
  obtain s6 where s6: "publish [''c''] ''bundle.json'' ''m'' s5 = (Inr (), s6)"
    using publish_calm [OF s5(2) free] by metis
  have reports: "verify_reports ?env [''c''] small_book s4 = (Inr (), s4)"
    using local_path_calm [OF f4 paths reach(3), of True]
    by (simp add: verify_reports_def sbind_def small_book_def e4 folder_entries_def)
  have demo_parts: "bn_book ?env = small_text" "bn_json ?env = terse_json" "nb_turns small_book = []"
    by (simp_all add: demo_bundle_def small_book_def)
  have contents: "bundle_contents ?env [''c''] small_book [small_source] dump_disk = (Inr (), s5)"
    by (simp add: bundle_contents_def sbind_def s s5 reports calls_calm(1) [OF s5(2)] smap_error_def demo_parts)
  have calm0: "st_faults dump_disk = []" by (simp add: dump_disk_def)
  have "local_path ?env [] True dump_disk = (Inr (), dump_disk)"
    using local_path_calm [OF calm0 paths reach(4), of True] by (simp add: dump_disk_def)
  moreover have "bundle_plan (bn_json ?env) small_book (sample_evidence [3]) [small_source] = Inr [small_source]"
    using small_plan by (simp add: demo_bundle_def)
  moreover have "io_step (publish [''c''] ''bundle.json'' ''m'') s5 = (Inr (), s6)" using s6 by (simp add: io_step_Inr)
  moreover have "inputs_validate demo_inputs = Inr ()" by (simp add: inputs_validate_def demo_inputs_def)
  moreover have "bn_manifest ?env m = Some ''m''" for m by (simp add: demo_bundle_def)
  ultimately show ?thesis
    by (simp add: bundle_save_def planned_step_def sbind_def calls_calm(1) [OF calm0] contents paths open_paths_def
        component_ok_def max_manifest_bytes_def)
qed

theorem bundle_manifest_vouches_witness:
  "\<exists>t data. bundle_save demo_bundle [''c''] small_book (sample_evidence [3]) [small_source] demo_inputs dump_disk
      = (Inr (manifest_of (sample_evidence [3]) demo_inputs [small_source]), t)
    \<and> st_entries t (manifest_path [''c'']) = Some (File data)
    \<and> folder_complete demo_bundle [''c''] small_book [small_source] (st_entries t)"
proof -
  obtain t where t: "bundle_save demo_bundle [''c''] small_book (sample_evidence [3]) [small_source] demo_inputs dump_disk
      = (Inr (manifest_of (sample_evidence [3]) demo_inputs [small_source]), t)"
    using demo_saves by blast
  have "st_entries dump_disk (manifest_path [''c'']) = None" by (simp add: dump_disk_def manifest_path_def)
  moreover have "bundle_plan (bn_json demo_bundle) small_book (sample_evidence [3]) [small_source] = Inr [small_source]"
    using small_plan by (simp add: demo_bundle_def)
  ultimately show ?thesis
    using bundle_manifest_vouches [OF t] t by (auto split: if_splits)
qed

end
