(* ===== verification/Probe.thy ===== *)
theory Probe
  imports Json Effects Model
begin

text \<open>
  The probe of the provider's program, \<open>crates/netlane-ai/src/protocol.rs\<close> and \<open>codex.rs\<close>: where the program
  is looked for, the bounded lines that are read from it, the few methods it can be asked, and the conversation
  that checks its configuration and lists its models. What arrives is the list of the chunks that
  \<open>fill_buf\<close> gives (\<open>None\<close>: the read fails; an empty chunk, or none left: the pipe is closed); what is written
  is a log, and a script of faults lets any write fail. How a JSON value is parsed and rendered are
  parameters (\<open>serde_json\<close>), and so is the disk.
\<close>

subsection \<open>Lines\<close>

definition max_frame_bytes :: nat where "max_frame_bytes = 1024 * 1024"

definition line_end :: char where "line_end = char_of (10::nat)"

datatype probe_error =
    Connection_closed | Reading_failed | Reply_too_large | Frame_invalid | Writing_failed | Request_too_large
  | Method_refused | Server_request | Reply_mismatch | Query_refused int | No_result | Too_many_notices
  | No_bridge_config | Feature_unconfirmed string | Skills_unconfirmed | Mcp_servers_present
  | Catalog_invalid | Catalog_too_large | Model_unnamed | Model_name_too_long | Cursor_invalid | Too_many_pages

record probe_io =
  io_chunks :: "string option list"
  io_partial :: string
  io_next_id :: nat
  io_written :: "json list"
  io_faults :: "bool list"

type_synonym 'a probing = "(probe_io, probe_error, 'a) action"

text \<open>
  One turn of the loop of \<open>JsonLines::next\<close> takes a chunk up to its first line end; what is left of it is the
  next chunk.
\<close>

definition line_take :: "string \<Rightarrow> nat" where
  "line_take chunk = (let n = length (takeWhile (\<lambda>c. c \<noteq> line_end) chunk) in
     if n < length chunk then n + 1 else length chunk)"

definition consume :: "nat \<Rightarrow> string \<Rightarrow> string option list \<Rightarrow> string option list" where
  "consume n chunk rest = (if n < length chunk then Some (drop n chunk) # rest else rest)"

fun next_bytes :: "string option list \<Rightarrow> string \<Rightarrow> (probe_error + string) \<times> string option list \<times> string" where
  "next_bytes [] partial = (Inl Connection_closed, [], partial)"
| "next_bytes (None # rest) partial = (Inl Reading_failed, rest, partial)"
| "next_bytes (Some chunk # rest) partial =
     (if chunk = [] then (Inl Connection_closed, rest, partial)
      else let n = line_take chunk in
        if max_frame_bytes < length partial + n then (Inl Reply_too_large, Some chunk # rest, partial)
        else let partial = partial @ take n chunk in
          if line_end \<in> set chunk then (Inr partial, consume n chunk rest, [])
          else next_bytes rest partial)"

definition json_next :: "(string \<Rightarrow> json option) \<Rightarrow> json probing" where
  "json_next parse s = (case next_bytes (io_chunks s) (io_partial s) of (r, chunks, partial) \<Rightarrow>
     (rbind r (\<lambda>bytes. ok_or (parse bytes) Frame_invalid), s\<lparr>io_chunks := chunks, io_partial := partial\<rparr>))"

subsection \<open>Requests\<close>

text \<open>A number with a sign that is an integer of 64 bits; \<open>-0\<close> is a floating-point number.\<close>

definition as_i64 :: "json \<Rightarrow> int option" where
  "as_i64 j = (case j of
     JNum (c # t) \<Rightarrow>
       if c = CHR ''-'' then (case parse_digits t of
           Some n \<Rightarrow> if 0 < n \<and> n \<le> 2 ^ 63 then Some (- int n) else None | None \<Rightarrow> None)
       else (case parse_digits (c # t) of
           Some n \<Rightarrow> if n < 2 ^ 63 then Some (int n) else None | None \<Rightarrow> None)
   | _ \<Rightarrow> None)"

record codec =
  cd_parse :: "string \<Rightarrow> json option"
  cd_render :: "json \<Rightarrow> string"

definition io_fault :: "unit probing" where
  "io_fault s = (case io_faults s of
     [] \<Rightarrow> (Inr (), s)
   | f # fs \<Rightarrow> (if f then Inl Writing_failed else Inr (), s\<lparr>io_faults := fs\<rparr>))"

definition probe_write :: "codec \<Rightarrow> json \<Rightarrow> unit probing" where
  "probe_write cd v =
     sbind (spure (ensure (length (cd_render cd v) < max_frame_bytes) Request_too_large)) (\<lambda>_.
     sbind io_fault (\<lambda>_ s. (Inr (), s\<lparr>io_written := io_written s @ [v]\<rparr>)))"

definition probe_methods :: "string list" where
  "probe_methods = [''initialize'', ''account/read'', ''model/list'', ''config/read'', ''mcpServerStatus/list'']"

definition metadata_request :: "nat \<Rightarrow> string \<Rightarrow> json \<Rightarrow> json" where
  "metadata_request n m params = JObj [(''id'', JNum (dec n)), (''method'', JStr m), (''params'', params)]"

definition probe_denial :: "json \<Rightarrow> json" where
  "probe_denial request_id =
     JObj [(''error'', JObj [(''code'', JNum ''-32601''),
         (''message'', JStr (''NetLane n'' @ byte_string [195, 163] @ ''o executa solicita'' @
     byte_string [195, 167, 195, 181] @ ''es do servidor.''))]),
       (''id'', request_id)]"

definition probe_notice :: json where "probe_notice = JObj [(''method'', JStr ''initialized'')]"

text \<open>A frame that answers request \<open>n\<close>, or says why not.\<close>

definition probe_reply :: "nat \<Rightarrow> json \<Rightarrow> probe_error + json" where
  "probe_reply n frame =
     rbind (ensure (Option.bind (jget frame ''id'') as_u64 = Some n) Reply_mismatch) (\<lambda>_.
       case jget frame ''error'' of
         Some e \<Rightarrow> Inl (Query_refused (case Option.bind (jget e ''code'') as_i64 of None \<Rightarrow> -1 | Some c \<Rightarrow> c))
       | None \<Rightarrow> ok_or (jget frame ''result'') No_result)"

primrec probe_await :: "codec \<Rightarrow> nat \<Rightarrow> nat \<Rightarrow> json probing" where
  "probe_await cd n 0 = spure (Inl Too_many_notices)"
| "probe_await cd n (Suc k) =
     sbind (json_next (cd_parse cd)) (\<lambda>frame.
       if jget frame ''method'' \<noteq> None
       then (case jget frame ''id'' of
           Some request_id \<Rightarrow> sbind (probe_write cd (probe_denial request_id)) (\<lambda>_. spure (Inl Server_request))
         | None \<Rightarrow> probe_await cd n k)
       else spure (probe_reply n frame))"

definition probe_call :: "codec \<Rightarrow> string \<Rightarrow> json \<Rightarrow> json probing" where
  "probe_call cd m params =
     sbind (spure (ensure (m \<in> set probe_methods) Method_refused)) (\<lambda>_ s.
       let n = io_next_id s + 1 in
       sbind (probe_write cd (metadata_request n m params)) (\<lambda>_. probe_await cd n 256) (s\<lparr>io_next_id := n\<rparr>))"

subsection \<open>The conversation\<close>

record probe_model =
  pm_id :: string
  pm_name :: string
  pm_default :: bool

record probe_state =
  pb_done :: bool
  pb_connected :: bool
  pb_authenticated :: bool
  pb_models :: "probe_model list"
  pb_detail :: string

definition confirmed_off :: "string list" where
  "confirmed_off =
     [''shell_tool'', ''unified_exec'', ''hooks'', ''apps'', ''multi_agent'', ''browser_use'', ''computer_use'',
      ''view_image'', ''code_mode_host'', ''daemon_auto_start'']"

definition launch_arguments :: "string list" where
  "launch_arguments =
     [''--strict-config''] @ concat (map (\<lambda>f. [''--disable'', f]) confirmed_off) @
     concat (map (\<lambda>v. [''-c'', v])
       [''project_doc_max_bytes=0'', ''features.skip_host_skill_discovery=true'',
        (''history.persistence='' @ byte_string [34] @ ''none'' @ byte_string [34]), (''web_search='' @ byte_string [34] @ ''disabled'' @ byte_string [34])]) @
     [''app-server'', ''--listen'', ''stdio://'']"

definition check_config :: "json \<Rightarrow> probe_error + unit" where
  "check_config config =
     rbind (ok_or (Option.bind (jget config ''config'') (\<lambda>c. jget c ''features'')) No_bridge_config) (\<lambda>features.
     rbind (check_all (\<lambda>key. ensure (Option.bind (jget features key) as_bool = Some False) (Feature_unconfirmed key))
         confirmed_off) (\<lambda>_.
       ensure (Option.bind (jget features ''skip_host_skill_discovery'') as_bool = Some True) Skills_unconfirmed))"

definition check_servers :: "json \<Rightarrow> probe_error + unit" where
  "check_servers servers =
     ensure (Option.bind (jget servers ''data'') as_array = Some [] \<and> jidx servers ''nextCursor'' = JNull)
       Mcp_servers_present"

definition catalog_model :: "json \<Rightarrow> probe_error + probe_model" where
  "catalog_model entry =
     rbind (ok_or (Option.bind (case jget entry ''model'' of None \<Rightarrow> jget entry ''id'' | Some v \<Rightarrow> Some v) as_str)
         Model_unnamed) (\<lambda>i.
       let name = (case Option.bind (jget entry ''displayName'') as_str of None \<Rightarrow> i | Some d \<Rightarrow> d) in
       rbind (ensure (length i \<le> 128 \<and> length name \<le> 256) Model_name_too_long) (\<lambda>_.
         Inr \<lparr>pm_id = i, pm_name = name,
           pm_default = Option.bind (jget entry ''isDefault'') as_bool = Some True\<rparr>))"

definition catalog_page :: "probe_model list \<Rightarrow> json \<Rightarrow> probe_error + probe_model list" where
  "catalog_page models page =
     rbind (ok_or (Option.bind (jget page ''data'') as_array) Catalog_invalid) (\<lambda>entries.
     rbind (ensure (length entries \<le> 100 \<and> length models + length entries \<le> 100) Catalog_too_large) (\<lambda>_.
     rbind (collect_r catalog_model entries) (\<lambda>found. Inr (models @ found))))"

definition page_params :: "json \<Rightarrow> json" where
  "page_params cursor = JObj [(''cursor'', cursor), (''includeHidden'', JBool False), (''limit'', JNum ''20'')]"

primrec catalog_pages :: "codec \<Rightarrow> nat \<Rightarrow> json \<Rightarrow> probe_model list \<Rightarrow> probe_model list probing" where
  "catalog_pages cd 0 cursor models = spure (Inl Too_many_pages)"
| "catalog_pages cd (Suc k) cursor models =
     sbind (probe_call cd ''model/list'' (page_params cursor)) (\<lambda>page.
     sbind (spure (catalog_page models page)) (\<lambda>models.
       let cursor = jidx page ''nextCursor'' in
       if cursor = JNull then spure (Inr models)
       else sbind (spure (ensure (case as_str cursor of None \<Rightarrow> False | Some c \<Rightarrow> length c \<le> 1024) Cursor_invalid))
         (\<lambda>_. catalog_pages cd k cursor models)))"

definition client_params :: "string \<Rightarrow> json" where
  "client_params version =
     JObj [(''capabilities'', JObj [(''experimentalApi'', JBool False)]),
       (''clientInfo'', JObj [(''name'', JStr ''netlane_diagnostics''), (''title'', JStr ''NetLane''),
         (''version'', JStr version)])]"

definition metadata :: "codec \<Rightarrow> string \<Rightarrow> probe_state probing" where
  "metadata cd version =
     sbind (probe_call cd ''initialize'' (client_params version)) (\<lambda>_.
     sbind (probe_write cd probe_notice) (\<lambda>_.
     sbind (probe_call cd ''config/read'' (JObj [(''includeLayers'', JBool False)])) (\<lambda>config.
     sbind (spure (check_config config)) (\<lambda>_.
     sbind (probe_call cd ''mcpServerStatus/list'' (JObj [(''limit'', JNum ''100'')])) (\<lambda>servers.
     sbind (spure (check_servers servers)) (\<lambda>_.
     sbind (probe_call cd ''account/read'' (JObj [(''refreshToken'', JBool False)])) (\<lambda>account.
       let authenticated = (jidx account ''account'' \<noteq> JNull) in
       sbind (catalog_pages cd 5 JNull []) (\<lambda>models.
         spure (Inr \<lparr>pb_done = True, pb_connected = True, pb_authenticated = authenticated, pb_models = models,
           pb_detail = (if authenticated
             then (''Ponte verificada. Conta presente no perfil pr'' @ byte_string [195, 179] @
     ''prio do NetLane.'')
             else (''Ponte verificada. O perfil pr'' @ byte_string [195, 179] @ ''prio do NetLane ainda n'' @
     byte_string [195, 163] @ ''o tem uma conta conectada.''))\<rparr>)))))))))"

subsection \<open>Finding the program\<close>

definition is_lexically_local :: "string \<Rightarrow> bool" where
  "is_lexically_local path \<longleftrightarrow>
     3 \<le> length path \<and> is_ascii_alphabetic (path ! 0) \<and> path ! 1 = CHR '':'' \<and> is_separator (path ! 2)
     \<and> CHR '':'' \<notin> set (drop 2 path) \<and> char_of (0::nat) \<notin> set path"

text \<open>
  \<open>Path::extension\<close> of a local path: the components after the drive's root, without the empty ones and those
  that are a point; the name is the last, unless it is \<open>..\<close>.
\<close>

definition path_parts :: "string \<Rightarrow> string list" where
  "path_parts path =
     filter (\<lambda>c. c \<noteq> [] \<and> c \<noteq> ''.'')
       (split_on CHR ''/'' (map (\<lambda>c. if c = CHR 0x5C then CHR ''/'' else c) (drop 3 path)))"

definition path_extension :: "string \<Rightarrow> string option" where
  "path_extension path =
     (if path_parts path = [] \<or> last (path_parts path) = ''..'' then None
      else case split_once CHR ''.'' (rev (last (path_parts path))) of
        None \<Rightarrow> None
      | Some (ext, stem) \<Rightarrow> if stem = [] then None else Some (rev ext))"

datatype executable_error = Remote_or_device | Not_installed

definition char_boundary :: "string \<Rightarrow> nat \<Rightarrow> bool" where
  "char_boundary s n \<longleftrightarrow> n = length s \<or> n < length s \<and> \<not> (128 \<le> code (s ! n) \<and> code (s ! n) < 192)"

definition validate_executable :: "(string \<Rightarrow> bool) \<Rightarrow> string \<Rightarrow> executable_error + unit" where
  "validate_executable is_file path =
     rbind (ensure (\<not> starts_with [CHR 0x5C, CHR 0x5C] path \<and> \<not> starts_with ''//'' path
         \<and> \<not> (char_boundary path 2 \<and> CHR '':'' \<in> set (drop 2 path))) Remote_or_device) (\<lambda>_.
       ensure (is_lexically_local path
         \<and> (case path_extension path of None \<Rightarrow> False | Some e \<Rightarrow> eq_ignore_ascii_case e ''exe'')
         \<and> is_file path) Not_installed)"

text \<open>\<open>Path::join\<close> of a local path with a relative one.\<close>

definition join :: "string \<Rightarrow> string \<Rightarrow> string" where
  "join dir rest = (if dir \<noteq> [] \<and> is_separator (last dir) then dir @ rest else dir @ CHR 0x5C # rest)"

record probe_disk =
  dk_is_file :: "string \<Rightarrow> bool"
  dk_size :: "string \<Rightarrow> nat option"
  dk_read :: "string \<Rightarrow> string option"

definition max_package_bytes :: nat where "max_package_bytes = 16 * 1024"

text \<open>The manifest of the installed package: a small file whose JSON has the name of the package.\<close>

definition package_found :: "(string \<Rightarrow> json option) \<Rightarrow> probe_disk \<Rightarrow> string \<Rightarrow> bool" where
  "package_found parse d package \<longleftrightarrow>
     dk_is_file d package
     \<and> (case dk_size d package of None \<Rightarrow> False | Some n \<Rightarrow> n \<le> max_package_bytes)
     \<and> (case dk_read d package of
          None \<Rightarrow> False
        | Some data \<Rightarrow> length data \<le> max_package_bytes \<and>
            (case parse data of
               None \<Rightarrow> False
             | Some j \<Rightarrow> Option.bind (jget j ''name'') as_str = Some ''@openai/codex''))"

definition native_candidates :: "bool \<Rightarrow> string \<Rightarrow> string list" where
  "native_candidates arm directory =
     (let triple = (if arm then ''aarch64-pc-windows-msvc'' else ''x86_64-pc-windows-msvc'');
          platform = (if arm then ''codex-win32-arm64'' else ''codex-win32-x64'');
          root = join directory ''node_modules/@openai/codex'';
          vendored = ''node_modules/@openai/'' @ platform @ ''/vendor'' in
      [join (join (join vendor triple) folder) ''codex.exe''.
         vendor \<leftarrow> [join root vendored, join directory vendored, join root ''vendor''],
         folder \<leftarrow> [''bin'', ''codex'']])"

definition discover_at :: "(string \<Rightarrow> json option) \<Rightarrow> bool \<Rightarrow> probe_disk \<Rightarrow> string \<Rightarrow> string option" where
  "discover_at parse arm d directory =
     (if \<not> is_lexically_local directory then None
      else let direct = join directory ''codex.exe'' in
        if is_ok (validate_executable (dk_is_file d) direct) then Some direct
        else if package_found parse d (join (join directory ''node_modules/@openai/codex'') ''package.json'')
        then find (\<lambda>native. is_ok (validate_executable (dk_is_file d) native)) (native_candidates arm directory)
        else None)"

fun first_some :: "('a \<Rightarrow> 'b option) \<Rightarrow> 'a list \<Rightarrow> 'b option" where
  "first_some f [] = None"
| "first_some f (x # xs) = (case f x of None \<Rightarrow> first_some f xs | Some y \<Rightarrow> Some y)"

definition discover_in :: "(string \<Rightarrow> json option) \<Rightarrow> bool \<Rightarrow> probe_disk \<Rightarrow> string list \<Rightarrow> string option" where
  "discover_in parse arm d directories = first_some (discover_at parse arm d) (take 64 directories)"

subsection \<open>The process\<close>

text \<open>
  \<open>probe\<close> checks the program before it touches anything, makes the two folders, starts the process, and
  talks until an answer, thirty seconds or a cancellation; whatever came of it, the process is killed and its
  exit awaited. What each of these gives is a parameter, as is the conversation's result.
\<close>

datatype talk = Answered "probe_error + probe_state" | Timed_out | Talk_cancelled

datatype probe_failure =
    Refused_program executable_error | Folder_failed | Start_failed | Query_failed probe_error | Query_timed_out
  | Query_cancelled | Kill_failed | Exit_not_confirmed | Exit_unknown

record probe_host =
  ph_disk :: probe_disk
  ph_create :: "string \<Rightarrow> bool"
  ph_spawn :: bool
  ph_talk :: talk
  ph_kill :: bool
  ph_exit :: "bool option"

definition talk_result :: "talk \<Rightarrow> probe_failure + probe_state" where
  "talk_result k = (case k of
     Answered (Inl e) \<Rightarrow> Inl (Query_failed e) | Answered (Inr st) \<Rightarrow> Inr st
   | Timed_out \<Rightarrow> Inl Query_timed_out | Talk_cancelled \<Rightarrow> Inl Query_cancelled)"

definition probe :: "probe_host \<Rightarrow> string \<Rightarrow> string \<Rightarrow> probe_failure + probe_state" where
  "probe h executable profile =
     rbind (case validate_executable (dk_is_file (ph_disk h)) executable of
         Inl e \<Rightarrow> Inl (Refused_program e) | Inr u \<Rightarrow> Inr u) (\<lambda>_.
     rbind (ensure (ph_create h (join profile ''codex-bridge/codex-home'')) Folder_failed) (\<lambda>_.
     rbind (ensure (ph_create h (join profile ''codex-bridge/empty-room'')) Folder_failed) (\<lambda>_.
     rbind (ensure (ph_spawn h) Start_failed) (\<lambda>_.
     rbind (ensure (ph_kill h) Kill_failed) (\<lambda>_.
     rbind (ok_or (ph_exit h) Exit_not_confirmed) (\<lambda>ended.
     rbind (ensure ended Exit_unknown) (\<lambda>_.
       talk_result (ph_talk h))))))))"

text \<open>The start of a probe (whether a path is absolute is a parameter), and what its thread leaves in the shared state; \<open>shown\<close> is the text of an error.\<close>

definition probe_started :: probe_state where
  "probe_started = \<lparr>pb_done = False, pb_connected = False, pb_authenticated = False, pb_models = [],
     pb_detail = (''Verificando conex'' @ byte_string [195, 163] @ ''o com Codex'' @ byte_string [226, 128, 166])\<rparr>"

datatype start_error = Start_refused executable_error | Profile_relative

definition probe_start ::
    "(string \<Rightarrow> bool) \<Rightarrow> (string \<Rightarrow> bool) \<Rightarrow> string \<Rightarrow> string \<Rightarrow> start_error + probe_state" where
  "probe_start is_file is_absolute executable profile =
     rbind (case validate_executable is_file executable of Inl e \<Rightarrow> Inl (Start_refused e) | Inr u \<Rightarrow> Inr u) (\<lambda>_.
     rbind (ensure (is_absolute profile) Profile_relative) (\<lambda>_. Inr probe_started))"

definition probe_finished :: "('e \<Rightarrow> string) \<Rightarrow> 'e + probe_state \<Rightarrow> probe_state \<Rightarrow> probe_state" where
  "probe_finished shown r st =
     (case r of
        Inr found \<Rightarrow> found
      | Inl e \<Rightarrow> st\<lparr>pb_detail := (''N'' @ byte_string [195, 163] @ ''o foi poss'' @ byte_string [195, 173] @ ''vel verificar: '') @ shown e\<rparr>)\<lparr>pb_done := True\<rparr>"

end
