(* ===== verification/Provider_Facts.thy ===== *)
theory Provider_Facts
  imports Provider
begin

text \<open>
  Which versions of the provider's program are run, and that its frames survive whatever \<open>select!\<close> does to
  the reader.
\<close>

subsection \<open>Versions\<close>

lemma split_once_first: "d \<notin> set a \<Longrightarrow> split_once d (a @ d # b) = Some (a, b)"
  by (induction a) auto

lemma split_once_iff: "split_once d s = Some (a, b) \<longleftrightarrow> s = a @ d # b \<and> d \<notin> set a"
  using split_once_Some [of d s a b] split_once_first [of d a b] by blast

lemma rsplit_dot_Some:
  "rsplit_dot v = Some (series, patch) \<longleftrightarrow> v = series @ CHR ''.'' # patch \<and> CHR ''.'' \<notin> set patch"
proof -
  have "rsplit_dot v = Some (series, patch) \<longleftrightarrow> split_once CHR ''.'' (rev v) = Some (rev patch, rev series)"
    by (auto simp: rsplit_dot_def)
  also have "\<dots> \<longleftrightarrow> rev v = rev patch @ CHR ''.'' # rev series \<and> CHR ''.'' \<notin> set patch"
    by (simp add: split_once_iff)
  also have "rev v = rev patch @ CHR ''.'' # rev series \<longleftrightarrow> v = series @ CHR ''.'' # patch"
    by (metis append.assoc append_Cons append_Nil rev.simps(2) rev_append rev_rev_ident)
  finally show ?thesis .
qed

lemma digits_no_dot: "list_all is_ascii_digit patch \<Longrightarrow> CHR ''.'' \<notin> set patch"
  by (auto simp: list_all_iff is_ascii_digit_def code_def)

text \<open>
  Exactly the patch releases of the validated series are accepted: its two numbers, and a patch of one to four
  decimal digits.
\<close>

theorem accepted_version_iff:
  "accepted_version v \<longleftrightarrow>
     (\<exists>patch. v = ''0.162.'' @ patch \<and> 1 \<le> length patch \<and> length patch \<le> 4 \<and> list_all is_ascii_digit patch)"
proof -
  have series: "rsplit_dot codex_version = Some (''0.162'', ''0'')"
    by (simp add: rsplit_dot_Some codex_version_def)
  have digits: "list_all is_ascii_digit ''0''" "list_all is_ascii_digit ''1''"
    by (simp_all add: is_ascii_digit_def code_def)
  have validated: "\<exists>patch. v = ''0.162.'' @ patch \<and> 1 \<le> length patch \<and> length patch \<le> 4 \<and> list_all is_ascii_digit patch"
    if "validated_version v"
    using that digits unfolding validated_version_def codex_version_def
    by (elim insertE emptyE) (rule exI [of _ "''0''"], simp, rule exI [of _ "''1''"], simp)
  show ?thesis
  proof
    assume "accepted_version v"
    then consider "validated_version v"
      | patch where "rsplit_dot v = Some (''0.162'', patch)" "patch \<noteq> []" "length patch \<le> 4" "list_all is_ascii_digit patch"
      unfolding accepted_version_def series by (auto split: option.splits)
    then show "\<exists>patch. v = ''0.162.'' @ patch \<and> 1 \<le> length patch \<and> length patch \<le> 4 \<and> list_all is_ascii_digit patch"
    proof cases
      case 2
      then show ?thesis by (intro exI [of _ patch]) (simp add: rsplit_dot_Some Suc_leI)
    qed (rule validated)
  next
    assume "\<exists>patch. v = ''0.162.'' @ patch \<and> 1 \<le> length patch \<and> length patch \<le> 4 \<and> list_all is_ascii_digit patch"
    then obtain patch where v: "v = ''0.162.'' @ patch" and n: "1 \<le> length patch"
        and q: "length patch \<le> 4" "list_all is_ascii_digit patch"
      by (elim exE conjE)
    have p: "v = ''0.162.'' @ patch" "patch \<noteq> []" "length patch \<le> 4" "list_all is_ascii_digit patch"
      using v n q by (simp_all only:) auto
    then have "rsplit_dot v = Some (''0.162'', patch)"
      by (simp add: rsplit_dot_Some digits_no_dot)
    then show "accepted_version v" using p by (simp add: accepted_version_def series)
  qed
qed

subsection \<open>Frames\<close>

text \<open>Reading again and again, until a read is not dropped.\<close>

lemma read_until_shorter: "read_until n src = (bytes, True, rest) \<Longrightarrow> length rest < length src"
  by (induction n src arbitrary: bytes rest rule: read_until.induct) (auto split: if_splits prod.splits)

function next_frame ::
    "(string \<Rightarrow> json option) \<Rightarrow> char option list \<Rightarrow> string \<Rightarrow> json option \<times> char option list" where
  "next_frame parse src buffer =
     (case read_json_frame parse src buffer of
        (Dropped, rest, buffer') \<Rightarrow> next_frame parse rest buffer'
      | (Unreadable, rest, buffer') \<Rightarrow> (None, rest)
      | (Frame j, rest, buffer') \<Rightarrow> (Some j, rest))"
  by pat_completeness auto
termination
  by (relation "measure (\<lambda>(parse, src, buffer). length src)")
    (auto simp: read_json_frame_def Let_def dest!: read_until_shorter split: prod.splits if_splits option.splits)

declare next_frame.simps [simp del]

definition arrived :: "char option list \<Rightarrow> string" where
  "arrived src = List.map_filter (\<lambda>x. x) src"

lemma arrived_simps [simp]: "arrived [] = []" "arrived (None # src) = arrived src" "arrived (Some c # src) = c # arrived src"
  by (simp_all add: arrived_def List.map_filter_simps)

text \<open>The line at the start of what has arrived, when it ends within \<open>n\<close> bytes.\<close>

definition line_within :: "nat \<Rightarrow> string \<Rightarrow> string option" where
  "line_within n s = (case split_once newline_byte s of
     Some (l, r) \<Rightarrow> if length l < n then Some (l @ [newline_byte]) else None | None \<Rightarrow> None)"

lemma read_until_read:
  "read_until n src = (bytes, dropped, rest) \<Longrightarrow>
     arrived src = bytes @ arrived rest \<and> length bytes \<le> n \<and> newline_byte \<notin> set (butlast bytes) \<and>
     (dropped \<longrightarrow> newline_byte \<notin> set bytes \<and> length bytes < n) \<and>
     (\<not> dropped \<longrightarrow> newline_byte \<in> set bytes \<or> length bytes = n \<or> rest = [])"
proof (induction n src arbitrary: bytes rest rule: read_until.induct)
  case (4 n c src)
  show ?case
  proof (cases "c = newline_byte")
    case False
    then obtain bs where "read_until n src = (bs, dropped, rest)" "bytes = c # bs"
      using 4(2) by (auto split: prod.splits)
    then show ?thesis using 4(1) [OF False, of bs rest] False by auto
  qed (use 4(2) in auto)
qed auto

lemma line_within_ends:
  assumes "newline_byte \<notin> set l"
  shows "line_within n (l @ newline_byte # r) = (if length l < n then Some (l @ [newline_byte]) else None)"
proof -
  have "split_once newline_byte (l @ newline_byte # r) = Some (l, r)"
    using assms by (simp add: split_once_iff)
  then show ?thesis by (simp add: line_within_def)
qed

lemma line_within_none:
  assumes "newline_byte \<notin> set p" "n \<le> length p \<or> s = []"
  shows "line_within n (p @ s) = None"
proof (cases "split_once newline_byte (p @ s)")
  case (Some lr)
  obtain l r where lr: "lr = (l, r)" by (cases lr)
  then have e: "p @ s = l @ newline_byte # r" using Some by (simp add: split_once_iff)
  have "length p \<le> length l"
  proof (rule ccontr)
    assume "\<not> length p \<le> length l"
    then have "(p @ s) ! length l \<in> set p" by (simp add: nth_append)
    then show False using assms(1) e by simp
  qed
  moreover have "s \<noteq> []"
    using assms(1) e by (cases s) (auto dest: arg_cong [where f = set])
  ultimately show ?thesis using assms(2) Some lr by (simp add: line_within_def)
qed (simp add: line_within_def)

lemma next_frame_line:
  "newline_byte \<notin> set buffer \<Longrightarrow> length buffer \<le> max_line \<Longrightarrow>
     fst (next_frame parse src buffer) = Option.bind (line_within max_line (buffer @ arrived src)) parse"
proof (induction parse src buffer rule: next_frame.induct)
  case (1 parse src buffer)
  obtain bytes dropped rest where u: "read_until (max_line + 1 - length buffer) src = (bytes, dropped, rest)"
    by (cases "read_until (max_line + 1 - length buffer) src")
  note r = read_until_read [OF u]
  let ?b = "buffer @ bytes"
  have all: "buffer @ arrived src = ?b @ arrived rest" using r by simp
  show ?case
  proof (cases dropped)
    case True
    then have f: "read_json_frame parse src buffer = (Dropped, rest, ?b)"
      using 1(3) u by (simp add: read_json_frame_def Let_def)
    have "fst (next_frame parse rest ?b) = Option.bind (line_within max_line (?b @ arrived rest)) parse"
      using r True 1(2,3) by (intro 1(1) [OF f [symmetric]]) auto
    then show ?thesis using f all by (subst next_frame.simps) simp
  next
    case False
    consider (line) l where "bytes = l @ [newline_byte]" "newline_byte \<notin> set l"
      | (long) "newline_byte \<notin> set bytes" "length ?b = max_line + 1" | (ended) "newline_byte \<notin> set bytes" "rest = []"
    proof (cases "newline_byte \<in> set bytes")
      case True
      then have "bytes = butlast bytes @ [last bytes]" by (cases bytes rule: rev_cases) auto
      moreover from this True r have "last bytes = newline_byte" by (metis in_set_butlastD in_set_conv_decomp_last rotate1.simps(2) set_rotate1 set_ConsD)
      ultimately show ?thesis using r line [of "butlast bytes"] by simp
    next
      case no: False
      then show ?thesis using r False 1(3) long ended by auto
    qed
    then show ?thesis
    proof cases
      case line
      let ?l = "buffer @ l"
      have "read_json_frame parse src buffer = (if max_line < length ?l + 1 then (Unreadable, rest, ?b)
          else (case parse ?b of None \<Rightarrow> Unreadable | Some j \<Rightarrow> Frame j, rest, []))"
        using 1(3) u False line by (simp add: read_json_frame_def Let_def)
      moreover have "line_within max_line (?b @ arrived rest) = (if length ?l < max_line then Some ?b else None)"
        using line_within_ends [of ?l max_line "arrived rest"] 1(2) line by simp
      ultimately show ?thesis
        unfolding all by (subst next_frame.simps) (auto split: option.split)
    next
      case long
      then have "read_json_frame parse src buffer = (Unreadable, rest, ?b)"
        using 1(3) u False by (simp add: read_json_frame_def Let_def)
      then show ?thesis
        unfolding all using line_within_none [of ?b max_line "arrived rest"] 1(2) long by (subst next_frame.simps) simp
    next
      case ended
      have "?b = [] \<or> last ?b \<noteq> newline_byte"
        using ended(1) 1(2) last_in_set [of ?b] by (cases "?b = []") auto
      then have "read_json_frame parse src buffer = (Unreadable, rest, ?b)"
        using 1(3) u False by (auto simp: read_json_frame_def Let_def)
      then show ?thesis
        unfolding all using line_within_none [of ?b max_line "[]"] 1(2) ended by (subst next_frame.simps) simp
    qed
  qed
qed

text \<open>
  C16: However often, and wherever, a read is dropped for a command or the timer, the next frame is the line with
  which the bytes that arrive begin, if it has at most 256 KiB with its end; otherwise the conversation ends.
\<close>

theorem frame_survives_cancellation:
  "fst (next_frame parse src []) = Option.bind (line_within (256 * 1024) (arrived src)) parse"
  using next_frame_line [of "[]" parse src] by (simp add: max_line_def)

end
