(* ===== verification/Probe_Facts.thy ===== *)
theory Probe_Facts
  imports Probe Provider_Facts
begin

text \<open>
  What the probe of the provider's program guarantees: however the pipe cuts what arrives, the same lines are
  read and the same conversation is had; nothing is asked about the account before the process has confirmed
  its restrictions; and the search never looks at a path that is not on a local drive.
\<close>

subsection \<open>Lines\<close>

text \<open>What a list of chunks brings, until the pipe ends or fails, and how it ends.\<close>

fun incoming :: "string option list \<Rightarrow> string \<times> probe_error" where
  "incoming [] = ([], Connection_closed)"
| "incoming (None # rest) = ([], Reading_failed)"
| "incoming (Some chunk # rest) =
     (if chunk = [] then ([], Connection_closed) else (chunk @ fst (incoming rest), snd (incoming rest)))"

definition line_of :: "string \<times> probe_error \<Rightarrow> probe_error + string" where
  "line_of b = (case split_once line_end (fst b) of
     Some (l, r) \<Rightarrow> if length l < max_frame_bytes then Inr (l @ [line_end]) else Inl Reply_too_large
   | None \<Rightarrow> if length (fst b) \<le> max_frame_bytes then Inl (snd b) else Inl Reply_too_large)"

lemma split_once_absent: "d \<notin> set s \<Longrightarrow> split_once d s = None"
  by (induction s) auto

lemma line_take_split:
  "line_end \<in> set chunk \<Longrightarrow> \<exists>l r. chunk = l @ line_end # r \<and> line_end \<notin> set l \<and> line_take chunk = length l + 1"
  "line_end \<notin> set chunk \<Longrightarrow> line_take chunk = length chunk"
proof -
  assume "line_end \<in> set chunk"
  then obtain l r where c: "chunk = l @ line_end # r" "line_end \<notin> set l" by (meson split_list_first)
  then have "takeWhile (\<lambda>c. c \<noteq> line_end) chunk = l" by (auto simp: takeWhile_append)
  then show "\<exists>l r. chunk = l @ line_end # r \<and> line_end \<notin> set l \<and> line_take chunk = length l + 1"
    using c by (intro exI [of _ l] exI [of _ r]) (simp add: line_take_def Let_def)
next
  assume "line_end \<notin> set chunk"
  then have "takeWhile (\<lambda>c. c \<noteq> line_end) chunk = chunk" by (auto simp: takeWhile_eq_all_conv)
  then show "line_take chunk = length chunk" by (simp only: line_take_def Let_def) simp
qed

lemma incoming_consume:
  "chunk \<noteq> [] \<Longrightarrow> n \<le> length chunk \<Longrightarrow> incoming (consume n chunk rest) = (drop n chunk @ fst (incoming rest), snd (incoming rest))"
  by (auto simp: consume_def)

lemma next_bytes_line:
  assumes "line_end \<notin> set partial" "length partial \<le> max_frame_bytes"
    and "next_bytes chunks partial = (r, chunks', partial')"
  shows "r = line_of (partial @ fst (incoming chunks), snd (incoming chunks)) \<and>
    (\<forall>l. r = Inr l \<longrightarrow> partial' = [] \<and> l \<noteq> [] \<and> last l = line_end \<and> line_end \<notin> set (butlast l) \<and>
       partial @ fst (incoming chunks) = l @ fst (incoming chunks') \<and> snd (incoming chunks') = snd (incoming chunks))"
  using assms
proof (induction chunks partial rule: next_bytes.induct)
  case (3 chunk rest partial)
  let ?b = "partial @ fst (incoming (Some chunk # rest))"
  show ?case
  proof (cases "chunk = []")
    case False
    show ?thesis
    proof (cases "line_end \<in> set chunk")
      case True
      then obtain l q where c: "chunk = l @ line_end # q" "line_end \<notin> set l" "line_take chunk = length l + 1"
        using line_take_split(1) by blast
      have s: "split_once line_end ?b = Some (partial @ l, q @ fst (incoming rest))"
        using split_once_first [of line_end "partial @ l"] c 3(2) by simp
      show ?thesis
        using 3(4) s c False incoming_consume [of chunk "length l + 1" rest]
        by (cases "max_frame_bytes < length partial + line_take chunk") (auto simp: line_of_def Let_def butlast_append 3(2))
    next
      case no: False
      note n = line_take_split(2) [OF no]
      show ?thesis
      proof (cases "max_frame_bytes < length partial + length chunk")
        case True
        have long: "line_of (?b, e) = Inl Reply_too_large" for e
        proof (cases "split_once line_end ?b")
          case (Some lr)
          then obtain l q where "?b = l @ line_end # q" "lr = (l, q)" by (cases lr) (auto dest: split_once_Some)
          moreover have "line_end \<notin> set (partial @ chunk)" using no 3(2) by simp
          then have "length (partial @ chunk) \<le> length l"
            using \<open>?b = l @ line_end # q\<close> False
            by (metis append.assoc fst_conv incoming.simps(3) in_set_conv_nth length_append not_le nth_append nth_append_length)
          ultimately show ?thesis using Some True by (simp add: line_of_def)
        qed (use True False in \<open>simp add: line_of_def\<close>)
        have "r = Inl Reply_too_large" using 3(4) True n False by simp
        then show ?thesis unfolding long by simp
      next
        case fits: False
        show ?thesis
          using 3(1) [OF False refl _ refl no] 3(2,3,4) n fits False no by simp
      qed
    qed
  qed (use 3 in \<open>auto simp: line_of_def split_once_absent\<close>)
qed (auto simp: line_of_def split_once_absent)

text \<open>What is still to come in a state.\<close>

definition to_come :: "probe_io \<Rightarrow> string \<times> probe_error" where
  "to_come s = (io_partial s @ fst (incoming (io_chunks s)), snd (incoming (io_chunks s)))"

definition whole_lines :: "probe_io \<Rightarrow> bool" where
  "whole_lines s \<longleftrightarrow> io_partial s = []"

lemma json_next_line:
  assumes "whole_lines s" "json_next parse s = (r, t)"
  shows "r = rbind (line_of (to_come s)) (\<lambda>l. ok_or (parse l) Frame_invalid) \<and>
    io_written t = io_written s \<and> io_next_id t = io_next_id s \<and> io_faults t = io_faults s \<and>
    (\<forall>j. r = Inr j \<longrightarrow> whole_lines t \<and> (\<exists>l. parse (l @ [line_end]) = Some j \<and> line_end \<notin> set l \<and>
       fst (to_come s) = l @ line_end # fst (to_come t) \<and> snd (to_come t) = snd (to_come s)))"
proof -
  obtain q chunks partial where n: "next_bytes (io_chunks s) [] = (q, chunks, partial)"
    by (cases "next_bytes (io_chunks s) []")
  note f = next_bytes_line [OF _ _ n, simplified]
  have r: "r = rbind q (\<lambda>b. ok_or (parse b) Frame_invalid)" "t = s\<lparr>io_chunks := chunks, io_partial := partial\<rparr>"
    using assms n by (simp_all add: json_next_def whole_lines_def)
  have "\<exists>l. parse (l @ [line_end]) = Some j \<and> line_end \<notin> set l \<and>
       fst (to_come s) = l @ line_end # fst (to_come t) \<and> snd (to_come t) = snd (to_come s)" if j: "r = Inr j" for j
  proof -
    obtain b where b: "q = Inr b" "parse b = Some j" using j r(1) by (cases q) (simp_all add: ok_or_eq_Inr)
    have "b = butlast b @ [line_end]" using f b by (metis append_butlast_last_id)
    then show ?thesis using f b r assms by (intro exI [of _ "butlast b"]) (auto simp: to_come_def whole_lines_def append_Cons [symmetric] simp del: append_Cons)
  qed
  moreover have "whole_lines t" if "r = Inr j" for j using that r f by (auto simp: result_simps whole_lines_def)
  moreover have "q = line_of (to_come s)" using f assms by (simp add: to_come_def whole_lines_def)
  ultimately show ?thesis using r by simp
qed

subsection \<open>The same conversation however the pipe cuts it\<close>

definition alike :: "probe_io \<Rightarrow> probe_io \<Rightarrow> bool" where
  "alike s t \<longleftrightarrow> whole_lines s \<and> whole_lines t \<and> to_come s = to_come t \<and> io_next_id s = io_next_id t
     \<and> io_written s = io_written t \<and> io_faults s = io_faults t"

text \<open>Alike states give the same result and the same log, and alike states where it goes on.\<close>

definition chunk_blind :: "'a probing \<Rightarrow> bool" where
  "chunk_blind m \<longleftrightarrow> (\<forall>s t r s' q t'. alike s t \<longrightarrow> m s = (r, s') \<longrightarrow> m t = (q, t') \<longrightarrow>
     r = q \<and> io_written s' = io_written t' \<and> (is_ok r \<longrightarrow> alike s' t'))"

lemma chunk_blindI:
  assumes "\<And>s t r s' q t'. alike s t \<Longrightarrow> m s = (r, s') \<Longrightarrow> m t = (q, t') \<Longrightarrow>
     r = q \<and> io_written s' = io_written t' \<and> (is_ok r \<longrightarrow> alike s' t')"
  shows "chunk_blind m"
  unfolding chunk_blind_def by (intro allI impI) (rule assms)

lemma chunk_blind_spure [intro]: "chunk_blind (spure r)"
  by (auto simp: chunk_blind_def alike_def)

lemma chunk_blind_bind [intro]:
  assumes "chunk_blind m" "\<And>x. chunk_blind (f x)"
  shows "chunk_blind (sbind m f)"
proof (rule chunk_blindI)
  fix s t r s' q t'
  assume a: "alike s t" "sbind m f s = (r, s')" "sbind m f t = (q, t')"
  obtain r1 s1 where m: "m s = (r1, s1)" by (cases "m s")
  obtain q1 t1 where n: "m t = (q1, t1)" by (cases "m t")
  from assms(1) a(1) m n have 1: "r1 = q1" "io_written s1 = io_written t1" "is_ok r1 \<longrightarrow> alike s1 t1"
    unfolding chunk_blind_def by blast+
  show "r = q \<and> io_written s' = io_written t' \<and> (is_ok r \<longrightarrow> alike s' t')"
  proof (cases r1)
    case (Inl e)
    then show ?thesis using m n 1 a(2,3) by auto
  next
    case (Inr x)
    then have "f x s1 = (r, s')" "f x t1 = (q, t')" "alike s1 t1" using m n 1 a(2,3) by auto
    then show ?thesis using assms(2) [of x] unfolding chunk_blind_def by blast
  qed
qed

lemma chunk_blind_cases:
  "\<lbrakk>chunk_blind m; chunk_blind m'\<rbrakk> \<Longrightarrow> chunk_blind (if c then m else m')"
  "\<lbrakk>chunk_blind m; \<And>x. chunk_blind (f x)\<rbrakk> \<Longrightarrow> chunk_blind (case z of None \<Rightarrow> m | Some x \<Rightarrow> f x)"
  by (simp_all split: option.split)

lemma chunk_blind_step:
  assumes "\<And>s t r s'. alike s t \<Longrightarrow> m s = (r, s') \<Longrightarrow> \<exists>t'. m t = (r, t') \<and> alike s' t'"
  shows "chunk_blind m"
proof (rule chunk_blindI)
  fix s t r s' q t'
  assume a: "alike s t" "m s = (r, s')" "m t = (q, t')"
  from assms [OF a(1,2)] obtain t2 where t2: "m t = (r, t2)" "alike s' t2" by blast
  then show "r = q \<and> io_written s' = io_written t' \<and> (is_ok r \<longrightarrow> alike s' t')"
    using a(3) by (simp add: alike_def)
qed

lemma chunk_blind_json_next [intro]: "chunk_blind (json_next parse)"
proof (rule chunk_blindI)
  fix s t r s' q t'
  assume a: "alike s t" "json_next parse s = (r, s')" "json_next parse t = (q, t')"
  note s = json_next_line [OF _ a(2)] and t = json_next_line [OF _ a(3)]
  have w: "whole_lines s" "whole_lines t" "to_come s = to_come t" using a(1) by (auto simp: alike_def)
  have rq: "r = q" using s t w by simp
  have "alike s' t'" if "is_ok r"
  proof -
    obtain j where "r = Inr j" using \<open>is_ok r\<close> by (auto simp: is_ok_iff)
    then have j: "r = Inr j" "q = Inr j" using rq by simp_all
    obtain l1 where l1: "line_end \<notin> set l1" "fst (to_come s) = l1 @ line_end # fst (to_come s')"
        "snd (to_come s') = snd (to_come s)" using s w j by blast
    obtain l2 where l2: "line_end \<notin> set l2" "fst (to_come t) = l2 @ line_end # fst (to_come t')"
        "snd (to_come t') = snd (to_come t)" using t w j by blast
    have "split_once line_end (fst (to_come s)) = Some (l1, fst (to_come s'))"
      "split_once line_end (fst (to_come t)) = Some (l2, fst (to_come t'))"
      using l1 l2 by (simp_all add: split_once_iff)
    then have "to_come s' = to_come t'" using w l1 l2 by (auto intro: prod_eqI)
    moreover have "whole_lines s'" "whole_lines t'" using s t w j by blast+
    ultimately show ?thesis using s t w a(1) by (simp add: alike_def)
  qed
  then show "r = q \<and> io_written s' = io_written t' \<and> (is_ok r \<longrightarrow> alike s' t')"
    using rq s t w a(1) by (auto simp: alike_def)
qed

lemma chunk_blind_write [intro]: "chunk_blind (probe_write cd v)"
  unfolding probe_write_def
proof (intro chunk_blind_bind chunk_blind_spure)
  show "chunk_blind io_fault"
    by (rule chunk_blind_step) (auto simp: io_fault_def alike_def whole_lines_def to_come_def split: list.splits)
  show "chunk_blind (\<lambda>s. (Inr (), s\<lparr>io_written := io_written s @ [v]\<rparr>))" for x :: unit
    by (rule chunk_blind_step) (auto simp: alike_def whole_lines_def to_come_def)
qed

lemma chunk_blind_await [intro]: "chunk_blind (probe_await cd n k)"
proof (induction k)
  case (Suc k)
  then show ?case
    unfolding probe_await.simps by (intro chunk_blind_bind chunk_blind_json_next chunk_blind_cases chunk_blind_write chunk_blind_spure)
qed (unfold probe_await.simps, rule chunk_blind_spure)

lemma chunk_blind_call [intro]: "chunk_blind (probe_call cd m params)"
proof -
  have numbered: "chunk_blind (\<lambda>s. let n = io_next_id s + 1 in f n (s\<lparr>io_next_id := n\<rparr>))"
    if f: "\<And>n. chunk_blind (f n)" for f :: "nat \<Rightarrow> json probing"
  proof (rule chunk_blindI)
    fix s t r s' q t'
    assume a: "alike s t" "(let n = io_next_id s + 1 in f n (s\<lparr>io_next_id := n\<rparr>)) = (r, s')"
      "(let n = io_next_id t + 1 in f n (t\<lparr>io_next_id := n\<rparr>)) = (q, t')"
    have "alike (s\<lparr>io_next_id := io_next_id s + 1\<rparr>) (t\<lparr>io_next_id := io_next_id s + 1\<rparr>)" "io_next_id t = io_next_id s"
      using a(1) by (auto simp: alike_def whole_lines_def to_come_def)
    then show "r = q \<and> io_written s' = io_written t' \<and> (is_ok r \<longrightarrow> alike s' t')"
      using f [of "io_next_id s + 1"] a(2,3) unfolding chunk_blind_def Let_def by metis
  qed
  show ?thesis
    unfolding probe_call_def
    by (intro chunk_blind_bind chunk_blind_spure numbered chunk_blind_write chunk_blind_await)
qed

lemma chunk_blind_pages [intro]: "chunk_blind (catalog_pages cd k cursor models)"
proof (induction k arbitrary: cursor models)
  case (Suc k)
  then show ?case
    unfolding catalog_pages.simps Let_def by (intro chunk_blind_bind chunk_blind_call chunk_blind_cases chunk_blind_spure)
qed (unfold catalog_pages.simps, rule chunk_blind_spure)

lemma chunk_blind_metadata: "chunk_blind (metadata cd version)"
  unfolding metadata_def Let_def by (intro chunk_blind_bind chunk_blind_call chunk_blind_write chunk_blind_spure chunk_blind_pages)

text \<open>
  However the pipe cuts what arrives into chunks, the conversation has the same outcome, and what is asked on the
  way is the same.
\<close>

theorem probe_chunks_irrelevant:
  assumes "to_come s = to_come t" "io_partial s = []" "io_partial t = []"
    and "io_next_id s = io_next_id t" "io_written s = io_written t" "io_faults s = io_faults t"
  shows "fst (metadata cd version s) = fst (metadata cd version t)
    \<and> io_written (snd (metadata cd version s)) = io_written (snd (metadata cd version t))"
proof -
  have "alike s t" using assms by (simp add: alike_def whole_lines_def)
  then show ?thesis
    using chunk_blind_metadata [of cd version] unfolding chunk_blind_def by (metis prod.collapse)
qed

subsection \<open>What is asked, and when\<close>

text \<open>The bytes \<open>b'\<close> are what is left of \<open>b\<close> after some whole lines; a frame that \<open>b\<close> brings is one of its lines.\<close>

definition later :: "string \<Rightarrow> string \<Rightarrow> bool" where
  "later b b' \<longleftrightarrow> b' = b \<or> (\<exists>pre. b = pre @ line_end # b')"

definition frame_sent :: "codec \<Rightarrow> string \<Rightarrow> json \<Rightarrow> bool" where
  "frame_sent cd b f \<longleftrightarrow> (\<exists>l rest. later b (l @ line_end # rest) \<and> line_end \<notin> set l
     \<and> cd_parse cd (l @ [line_end]) = Some f)"

definition reply_sent :: "codec \<Rightarrow> string \<Rightarrow> nat \<Rightarrow> json \<Rightarrow> bool" where
  "reply_sent cd b n x \<longleftrightarrow> (\<exists>f. frame_sent cd b f \<and> Option.bind (jget f ''id'') as_u64 = Some n
     \<and> jget f ''error'' = None \<and> jget f ''result'' = Some x)"

lemma later_trans: "later a b \<Longrightarrow> later b c \<Longrightarrow> later a c"
  unfolding later_def by (metis append.assoc append_Cons)

lemma later_refl [simp]: "later b b"
  by (simp add: later_def)

lemma frame_sent_later: "frame_sent cd b f \<Longrightarrow> later a b \<Longrightarrow> frame_sent cd a f"
  unfolding frame_sent_def by (blast intro: later_trans)

lemma reply_sent_later: "reply_sent cd b n x \<Longrightarrow> later a b \<Longrightarrow> reply_sent cd a n x"
  unfolding reply_sent_def by (blast intro: frame_sent_later)

lemma json_next_sent:
  assumes "json_next (cd_parse cd) s = (Inr f, t)" "whole_lines s"
  shows "whole_lines t \<and> io_written t = io_written s \<and> io_next_id t = io_next_id s
    \<and> frame_sent cd (fst (to_come s)) f \<and> later (fst (to_come s)) (fst (to_come t))"
proof -
  note n = json_next_line [OF assms(2,1)]
  then obtain l where l: "cd_parse cd (l @ [line_end]) = Some f" "line_end \<notin> set l"
      "fst (to_come s) = l @ line_end # fst (to_come t)" by blast
  then have "frame_sent cd (fst (to_come s)) f" "later (fst (to_come s)) (fst (to_come t))"
    unfolding frame_sent_def later_def by auto
  then show ?thesis using n by simp
qed

lemma probe_write_frame:
  "probe_write cd v s = (r, t) \<Longrightarrow>
     io_written t = io_written s @ (if is_ok r then [v] else []) \<and> to_come t = to_come s
     \<and> whole_lines t = whole_lines s \<and> io_next_id t = io_next_id s"
  by (auto simp: probe_write_def sbind_def io_fault_def ensure_def to_come_def whole_lines_def
      split: if_splits list.splits sum.splits prod.splits)

lemma json_next_log: "json_next parse s = (r, t) \<Longrightarrow> io_written t = io_written s"
  by (auto simp: json_next_def split: prod.splits)

text \<open>Everything that an operation writes satisfies a predicate.\<close>

definition writes :: "(json \<Rightarrow> bool) \<Rightarrow> 'a probing \<Rightarrow> bool" where
  "writes P m \<longleftrightarrow> (\<forall>s r t. m s = (r, t) \<longrightarrow> (\<exists>ws. io_written t = io_written s @ ws \<and> list_all P ws))"

lemma writes_spure: "writes P (spure r)"
  by (simp add: writes_def)

lemma writes_json_next: "writes P (json_next parse)"
  by (auto simp: writes_def dest: json_next_log)

lemma writes_write: "P v \<Longrightarrow> writes P (probe_write cd v)"
  by (auto simp: writes_def dest: probe_write_frame)

lemma writes_bind:
  assumes "writes P m" "\<And>x. writes P (f x)"
  shows "writes P (sbind m f)"
  unfolding writes_def
proof (intro allI impI)
  fix s r t
  assume a: "sbind m f s = (r, t)"
  obtain r1 s1 where m: "m s = (r1, s1)" by (cases "m s")
  then obtain ws where ws: "io_written s1 = io_written s @ ws" "list_all P ws"
    using assms(1) unfolding writes_def by blast
  show "\<exists>ws. io_written t = io_written s @ ws \<and> list_all P ws"
  proof (cases r1)
    case (Inr x)
    then have "f x s1 = (r, t)" using a m by simp
    then obtain vs where "io_written t = io_written s1 @ vs" "list_all P vs"
      using assms(2) [of x] unfolding writes_def by blast
    then show ?thesis using ws by (intro exI [of _ "ws @ vs"]) simp
  qed (use a m ws in auto)
qed

lemma writes_cases:
  "\<lbrakk>writes P m; writes P m'\<rbrakk> \<Longrightarrow> writes P (if c then m else m')"
  "\<lbrakk>writes P m; \<And>x. writes P (f x)\<rbrakk> \<Longrightarrow> writes P (case z of None \<Rightarrow> m | Some x \<Rightarrow> f x)"
  by (simp_all split: option.split)

lemma writes_await:
  assumes "\<And>i. P (probe_denial i)"
  shows "writes P (probe_await cd n k)"
proof (induction k)
  case (Suc k)
  then show ?case
    unfolding probe_await.simps
    by (intro writes_bind writes_json_next writes_cases writes_write writes_spure assms)
qed (unfold probe_await.simps, rule writes_spure)

lemma writes_call:
  assumes "\<And>i. P (probe_denial i)" "\<And>n. m \<in> set probe_methods \<Longrightarrow> P (metadata_request n m params)"
  shows "writes P (probe_call cd m params)"
proof (cases "m \<in> set probe_methods")
  case True
  have numbered: "writes P (\<lambda>s. let n = io_next_id s + 1 in f n (s\<lparr>io_next_id := n\<rparr>))"
    if "\<And>n. writes P (f n)" for f :: "nat \<Rightarrow> json probing"
    using that unfolding writes_def Let_def by fastforce
  then show ?thesis
    unfolding probe_call_def
    by (intro writes_bind writes_spure numbered writes_write writes_await assms True)
next
  case False
  then have "probe_call cd m params s = (Inl Method_refused, s)" for s
    by (simp add: probe_call_def sbind_def)
  then show ?thesis by (simp add: writes_def)
qed

lemma probe_call_reply:
  assumes "probe_call cd m params s = (Inr x, t)" "whole_lines s"
  shows "whole_lines t \<and> io_next_id t = Suc (io_next_id s) \<and> later (fst (to_come s)) (fst (to_come t))
    \<and> reply_sent cd (fst (to_come s)) (Suc (io_next_id s)) x"
proof -
  have await: "whole_lines t \<and> io_next_id t = io_next_id s \<and> later (fst (to_come s)) (fst (to_come t))
      \<and> reply_sent cd (fst (to_come s)) n x" if "probe_await cd n k s = (Inr x, t)" "whole_lines s" for n k s
    using that
  proof (induction k arbitrary: s)
    case (Suc k)
    obtain f s1 where f: "json_next (cd_parse cd) s = (Inr f, s1)"
      and rest: "(if jget f ''method'' \<noteq> None
         then (case jget f ''id'' of
             Some request_id \<Rightarrow> sbind (probe_write cd (probe_denial request_id)) (\<lambda>_. spure (Inl Server_request))
           | None \<Rightarrow> probe_await cd n k)
         else spure (probe_reply n f)) s1 = (Inr x, t)"
      using Suc(2) by (auto simp only: probe_await.simps sbind_eq_Inr)
    note g = json_next_sent [OF f Suc(3)]
    show ?case
    proof (cases "jget f ''method'' = None")
      case True
      then have "t = s1" "probe_reply n f = Inr x" using rest by simp_all
      then have "reply_sent cd (fst (to_come s)) n x"
        using g by (auto simp: reply_sent_def probe_reply_def result_simps split: option.splits)
      then show ?thesis using g \<open>t = s1\<close> by simp
    next
      case False
      then have "probe_await cd n k s1 = (Inr x, t)"
        using rest by (cases "jget f ''id''") (auto simp: result_simps)
      then show ?thesis using Suc(1) g later_trans reply_sent_later by metis
    qed
  qed simp
  let ?s = "s\<lparr>io_next_id := io_next_id s + 1\<rparr>"
  obtain u s1 where w: "probe_write cd (metadata_request (io_next_id s + 1) m params) ?s = (Inr u, s1)"
    and a: "probe_await cd (io_next_id s + 1) 256 s1 = (Inr x, t)"
    using assms(1) by (auto simp only: probe_call_def sbind_eq_Inr Let_def spure_apply prod.inject)
  have "to_come ?s = to_come s" "whole_lines ?s" using assms(2) by (simp_all add: to_come_def whole_lines_def)
  then show ?thesis using await [OF a] probe_write_frame [OF w] by simp
qed

end
