(* ===== verification/Probe_Checks.thy ===== *)
theory Probe_Checks
  imports Probe_Facts
begin

text \<open>
  The probe's order and limits: the account and the models are asked for only after the process has confirmed
  its restrictions, what a successful probe reports is bounded, and the search for the program depends on
  nothing but local drives.
\<close>

subsection \<open>Restrictions first\<close>

lemma sbind_assoc: "sbind (sbind m f) g = sbind m (\<lambda>x. sbind (f x) g)"
  by (rule ext) (auto simp: sbind_def split: prod.split sum.split)

definition vetted :: "codec \<Rightarrow> string \<Rightarrow> unit probing" where
  "vetted cd version =
     sbind (probe_call cd ''initialize'' (client_params version)) (\<lambda>_.
     sbind (probe_write cd probe_notice) (\<lambda>_.
     sbind (probe_call cd ''config/read'' (JObj [(''includeLayers'', JBool False)])) (\<lambda>config.
     sbind (spure (check_config config)) (\<lambda>_.
     sbind (probe_call cd ''mcpServerStatus/list'' (JObj [(''limit'', JNum ''100'')])) (\<lambda>servers.
       spure (check_servers servers))))))"

lemma metadata_split: "\<exists>f. metadata cd version = sbind (vetted cd version) (\<lambda>_. f)"
  unfolding metadata_def vetted_def sbind_assoc by blast

definition asks_no_account :: "json \<Rightarrow> bool" where
  "asks_no_account w \<longleftrightarrow> (\<forall>n m p. w = metadata_request n m p \<longrightarrow> m \<noteq> ''account/read'' \<and> m \<noteq> ''model/list'')"

lemma asks_no_account_simps [simp]:
  "asks_no_account (probe_denial i)" "asks_no_account probe_notice"
  "asks_no_account (metadata_request n m p) \<longleftrightarrow> m \<noteq> ''account/read'' \<and> m \<noteq> ''model/list''"
  by (auto simp: asks_no_account_def probe_denial_def probe_notice_def metadata_request_def)

lemma vetted_writes: "writes asks_no_account (vetted cd version)"
  unfolding vetted_def by (intro writes_bind writes_call writes_write writes_spure) simp_all

lemma vetted_confirms:
  assumes "vetted cd version s = (Inr u, t)" "whole_lines s" "io_next_id s = 0"
  shows "\<exists>config servers. reply_sent cd (fst (to_come s)) 2 config \<and> check_config config = Inr ()
    \<and> reply_sent cd (fst (to_come s)) 3 servers \<and> check_servers servers = Inr ()"
proof -
  obtain x s1 y s2 config s3 servers v w where
    1: "probe_call cd ''initialize'' (client_params version) s = (Inr x, s1)" and
    2: "probe_write cd probe_notice s1 = (Inr y, s2)" and
    3: "probe_call cd ''config/read'' (JObj [(''includeLayers'', JBool False)]) s2 = (Inr config, s3)" and
    4: "check_config config = Inr v" and
    5: "probe_call cd ''mcpServerStatus/list'' (JObj [(''limit'', JNum ''100'')]) s3 = (Inr servers, t)" and
    6: "check_servers servers = Inr w"
    using assms(1) unfolding vetted_def sbind_eq_Inr spure_apply prod.inject by blast
  note a = probe_call_reply [OF 1 assms(2)]
  note b = probe_write_frame [OF 2]
  have "whole_lines s2" using a b by simp
  note c = probe_call_reply [OF 3 this]
  note d = probe_call_reply [OF 5 conjunct1 [OF c]]
  have "io_next_id s2 = 1" "io_next_id s3 = 2" using a b c assms(3) by simp_all
  moreover have "later (fst (to_come s)) (fst (to_come s2))" "later (fst (to_come s)) (fst (to_come s3))"
    using a b c later_trans by auto
  moreover have "check_config config = Inr ()" "check_servers servers = Inr ()" using 4 6 by simp_all
  ultimately show ?thesis using c d by (metis Suc_1 eval_nat_numeral(3) reply_sent_later)
qed

lemma check_config_Inr:
  "check_config config = Inr () \<longleftrightarrow>
     (\<exists>features. Option.bind (jget config ''config'') (\<lambda>c. jget c ''features'') = Some features
       \<and> (\<forall>key \<in> set confirmed_off. jget features key = Some (JBool False))
       \<and> jget features ''skip_host_skill_discovery'' = Some (JBool True))"
proof -
  have "Option.bind x as_bool = Some b \<longleftrightarrow> x = Some (JBool b)" for x b
    by (cases x; cases "the x") (auto simp: as_bool_def)
  then show ?thesis by (auto simp: check_config_def result_simps)
qed

text \<open>
  C17: The probe asks for the account, or for the models, only of a process that has answered the earlier
  requests with a configuration in which every tool is switched off and the personal skills are not searched,
  and with an empty list of MCP servers.
\<close>

theorem probe_confirms_first:
  assumes "metadata cd version s = (r, t)" "io_partial s = []" "io_next_id s = 0" "io_written s = []"
    and "metadata_request n m params \<in> set (io_written t)" "m = ''account/read'' \<or> m = ''model/list''"
  shows "\<exists>config servers features.
    reply_sent cd (fst (to_come s)) 2 config \<and> reply_sent cd (fst (to_come s)) 3 servers
    \<and> Option.bind (jget config ''config'') (\<lambda>c. jget c ''features'') = Some features
    \<and> (\<forall>key \<in> set confirmed_off. jget features key = Some (JBool False))
    \<and> jget features ''skip_host_skill_discovery'' = Some (JBool True)
    \<and> jget servers ''data'' = Some (JArr []) \<and> jidx servers ''nextCursor'' = JNull"
proof -
  obtain f where f: "metadata cd version = sbind (vetted cd version) (\<lambda>_. f)" using metadata_split by blast
  obtain q s1 where v: "vetted cd version s = (q, s1)" by (cases "vetted cd version s")
  have "list_all asks_no_account (io_written s1)"
    using vetted_writes v assms(4) unfolding writes_def by fastforce
  moreover have "\<not> asks_no_account (metadata_request n m params)" using assms(6) by auto
  ultimately have "metadata_request n m params \<notin> set (io_written s1)" by (auto simp: list_all_iff)
  then obtain u where "q = Inr u" using assms(1,5) f v by (cases q) auto
  then obtain config servers where c: "reply_sent cd (fst (to_come s)) 2 config" "check_config config = Inr ()"
      "reply_sent cd (fst (to_come s)) 3 servers" "check_servers servers = Inr ()"
    using vetted_confirms [of cd version s u s1] v assms(2,3) by (auto simp: whole_lines_def)
  have "Option.bind x as_array = Some [] \<longleftrightarrow> x = Some (JArr [])" for x
    by (cases x) (auto simp: as_array_Some)
  then have "jget servers ''data'' = Some (JArr [])" "jidx servers ''nextCursor'' = JNull"
    using c(4) by (simp_all add: check_servers_def result_simps)
  then show ?thesis using c by (auto simp: check_config_Inr)
qed

text \<open>A conversation that goes well, which the pipe cuts inside a line.\<close>

definition demo_config :: json where
  "demo_config = JObj [(''config'', JObj [(''features'',
     JObj ((''skip_host_skill_discovery'', JBool True) # map (\<lambda>key. (key, JBool False)) confirmed_off))])]"

definition demo_result :: "char \<Rightarrow> nat \<times> json" where
  "demo_result c =
     (if c = CHR ''1'' then (1, JObj []) else if c = CHR ''2'' then (2, demo_config)
      else if c = CHR ''3'' then (3, JObj [(''data'', JArr [])]) else if c = CHR ''4'' then (4, JObj [])
      else (5, JObj [(''data'', JArr [])]))"

definition demo_codec :: codec where
  "demo_codec = \<lparr>cd_parse = (\<lambda>line. case demo_result (hd line) of (n, result) \<Rightarrow>
     Some (JObj [(''id'', JNum (dec n)), (''result'', result)])), cd_render = (\<lambda>_. [])\<rparr>"

definition demo_io :: "string \<Rightarrow> nat \<Rightarrow> json list \<Rightarrow> probe_io" where
  "demo_io replies n ws = \<lparr>io_chunks = map (\<lambda>c. Some [c, line_end]) replies, io_partial = [], io_next_id = n,
     io_written = ws, io_faults = []\<rparr>"

lemma demo_io_update: "demo_io replies n ws\<lparr>io_next_id := k\<rparr> = demo_io replies k ws"
  "io_next_id (demo_io replies n ws) = n"
  by (simp_all add: demo_io_def)

lemma demo_write: "probe_write demo_codec v (demo_io replies n ws) = (Inr (), demo_io replies n (ws @ [v]))"
  by (simp add: probe_write_def sbind_def io_fault_def max_frame_bytes_def demo_codec_def demo_io_def)

lemma demo_await:
  assumes "c \<noteq> line_end" "demo_result c = (n, x)" "n < 2 ^ 64"
  shows "probe_await demo_codec n 256 (demo_io (c # replies) k ws) = (Inr x, demo_io replies k ws)"
proof -
  have "line_take [c, line_end] = 2" using assms(1) by (simp add: line_take_def)
  then have read: "json_next (cd_parse demo_codec) (demo_io (c # replies) k ws)
      = (Inr (JObj [(''id'', JNum (dec n)), (''result'', x)]), demo_io replies k ws)"
    using assms by (simp add: json_next_def max_frame_bytes_def demo_codec_def demo_io_def consume_def)
  have reply: "probe_reply n (JObj [(''id'', JNum (dec n)), (''result'', x)]) = Inr x"
    using as_u64_dec [OF assms(3)] by (simp add: probe_reply_def)
  have more: "(256::nat) = Suc 255" by simp
  show ?thesis unfolding more probe_await.simps using reply by (simp add: sbind_def read)
qed

lemma demo_call:
  assumes "m \<in> set probe_methods" "c \<noteq> line_end" "demo_result c = (Suc n, x)" "Suc n < 2 ^ 64"
  shows "probe_call demo_codec m params (demo_io (c # replies) n ws)
     = (Inr x, demo_io replies (Suc n) (ws @ [metadata_request (Suc n) m params]))"
  using assms(1) demo_await [OF assms(2-4)]
  by (simp add: probe_call_def Let_def sbind_def demo_write demo_io_update)

lemma demo_checks: "check_config demo_config = Inr ()" "check_servers (JObj [(''data'', JArr [])]) = Inr ()"
  "catalog_page [] (JObj [(''data'', JArr [])]) = Inr []"
proof -
  have "map_of (map (\<lambda>key. (key, JBool False)) confirmed_off) key = Some (JBool False)" if "key \<in> set confirmed_off" for key
    using that by (simp add: map_of_map_restrict)
  moreover have "''skip_host_skill_discovery'' \<notin> set confirmed_off" by (simp add: confirmed_off_def)
  ultimately show "check_config demo_config = Inr ()" unfolding check_config_Inr demo_config_def by auto
  show "check_servers (JObj [(''data'', JArr [])]) = Inr ()" by (simp add: check_servers_def)
  show "catalog_page [] (JObj [(''data'', JArr [])]) = Inr []" by (simp add: catalog_page_def)
qed

lemma demo_pages:
  "catalog_pages demo_codec 5 JNull [] (demo_io ''5'' 4 ws)
     = (Inr [], demo_io [] 5 (ws @ [metadata_request 5 ''model/list'' (page_params JNull)]))"
proof -
  have "CHR ''5'' \<noteq> line_end" by (simp add: line_end_def char_of_def)
  from demo_call [of "''model/list''" _ 4, OF _ this] have call:
    "probe_call demo_codec ''model/list'' (page_params JNull) (demo_io ''5'' 4 ws)
       = (Inr (JObj [(''data'', JArr [])]), demo_io [] 5 (ws @ [metadata_request 5 ''model/list'' (page_params JNull)]))"
    by (simp add: probe_methods_def demo_result_def)
  have more: "(5::nat) = Suc 4" by simp
  show ?thesis
    unfolding more catalog_pages.simps by (simp add: sbind_def call demo_checks)
qed

lemma demo_metadata:
  "\<exists>st t. metadata demo_codec [] (demo_io ''12345'' 0 []) = (Inr st, t)
     \<and> metadata_request 4 ''account/read'' (JObj [(''refreshToken'', JBool False)]) \<in> set (io_written t)"
proof -
  have ends: "CHR ''1'' \<noteq> line_end" "CHR ''2'' \<noteq> line_end" "CHR ''3'' \<noteq> line_end" "CHR ''4'' \<noteq> line_end"
    by (simp_all add: line_end_def char_of_def)
  have calls:
    "probe_call demo_codec ''initialize'' p (demo_io (CHR ''1'' # rs) 0 ws) = (Inr (JObj []), demo_io rs 1 (ws @ [metadata_request 1 ''initialize'' p]))"
    "probe_call demo_codec ''config/read'' p (demo_io (CHR ''2'' # rs) 1 ws) = (Inr demo_config, demo_io rs 2 (ws @ [metadata_request 2 ''config/read'' p]))"
    "probe_call demo_codec ''mcpServerStatus/list'' p (demo_io (CHR ''3'' # rs) 2 ws)
       = (Inr (JObj [(''data'', JArr [])]), demo_io rs 3 (ws @ [metadata_request 3 ''mcpServerStatus/list'' p]))"
    "probe_call demo_codec ''account/read'' p (demo_io (CHR ''4'' # rs) 3 ws) = (Inr (JObj []), demo_io rs 4 (ws @ [metadata_request 4 ''account/read'' p]))"
    for p rs ws
    using demo_call [OF _ ends(1), of "''initialize''" 0] demo_call [OF _ ends(2), of "''config/read''" 1]
      demo_call [OF _ ends(3), of "''mcpServerStatus/list''" 2] demo_call [OF _ ends(4), of "''account/read''" 3]
    by (simp_all add: probe_methods_def demo_result_def numeral_2_eq_2 [symmetric])
  show ?thesis
    unfolding metadata_def sbind_def calls demo_write demo_checks spure_apply prod.case sum.case Let_def demo_pages
    by (simp add: demo_io_def)
qed

theorem probe_confirms_first_witness:
  "\<exists>st t config servers features.
     metadata demo_codec [] (demo_io ''12345'' 0 []) = (Inr st, t)
     \<and> reply_sent demo_codec (fst (to_come (demo_io ''12345'' 0 []))) 2 config
     \<and> reply_sent demo_codec (fst (to_come (demo_io ''12345'' 0 []))) 3 servers
     \<and> Option.bind (jget config ''config'') (\<lambda>c. jget c ''features'') = Some features
     \<and> (\<forall>key \<in> set confirmed_off. jget features key = Some (JBool False))"
proof -
  obtain st t where m: "metadata demo_codec [] (demo_io ''12345'' 0 []) = (Inr st, t)"
      "metadata_request 4 ''account/read'' (JObj [(''refreshToken'', JBool False)]) \<in> set (io_written t)"
    using demo_metadata by blast
  have start: "io_partial (demo_io ''12345'' 0 []) = []" "io_next_id (demo_io ''12345'' 0 []) = 0"
    "io_written (demo_io ''12345'' 0 []) = []" by (simp_all add: demo_io_def)
  show ?thesis using probe_confirms_first [OF m(1) start m(2)] m(1) by blast
qed

subsection \<open>Limits of the answer\<close>

definition model_bounded :: "probe_model \<Rightarrow> bool" where
  "model_bounded m \<longleftrightarrow> length (pm_id m) \<le> 128 \<and> length (pm_name m) \<le> 256"

lemma catalog_model_bounded: "catalog_model e = Inr m \<Longrightarrow> model_bounded m"
  by (auto simp: catalog_model_def model_bounded_def result_simps Let_def)

lemma catalog_page_bounded:
  assumes "catalog_page models page = Inr found" "list_all model_bounded models"
  shows "list_all model_bounded found \<and> length found \<le> 100"
proof -
  obtain entries new where e: "length models + length entries \<le> 100" "collect_r catalog_model entries = Inr new"
      "found = models @ new"
    using assms(1) by (auto simp: catalog_page_def result_simps)
  have "list_all model_bounded new"
    unfolding list_all_iff
  proof
    fix m
    assume "m \<in> set new"
    moreover have "catalog_model ` set entries = Inr ` set new"
      using e(2) by (metis collect_r_Inr_iff list.set_map)
    ultimately have "Inr m \<in> catalog_model ` set entries" by simp
    then show "model_bounded m" using catalog_model_bounded by (metis imageE)
  qed
  then show ?thesis using e assms(2) collect_r_length [OF e(2)] by simp
qed

lemma catalog_pages_bounded:
  "catalog_pages cd k cursor models s = (Inr found, t) \<Longrightarrow> list_all model_bounded models \<Longrightarrow>
     list_all model_bounded found \<and> length found \<le> 100"
proof (induction k arbitrary: cursor models s)
  case (Suc k)
  obtain page s1 ms where p: "catalog_page models page = Inr ms"
      and rest: "ms = found \<or> (\<exists>cursor s2. catalog_pages cd k cursor ms s2 = (Inr found, t))"
    using Suc(2) by (auto simp: Let_def sbind_eq_Inr split: if_splits)
  note b = catalog_page_bounded [OF p Suc(3)]
  then show ?case using rest Suc(1) by blast
qed simp

theorem probe_answer_bounded:
  assumes "metadata cd version s = (Inr st, t)"
  shows "pb_done st \<and> pb_connected st \<and> length (pb_models st) \<le> 100
    \<and> (\<forall>m \<in> set (pb_models st). length (pm_id m) \<le> 128 \<and> length (pm_name m) \<le> 256)"
proof -
  obtain s1 found b d where "catalog_pages cd 5 JNull [] s1 = (Inr found, t)"
      "st = \<lparr>pb_done = True, pb_connected = True, pb_authenticated = b, pb_models = found, pb_detail = d\<rparr>"
    using assms by (auto simp only: metadata_def Let_def sbind_eq_Inr spure_apply prod.inject sum.inject)
  then show ?thesis
    using catalog_pages_bounded [of cd 5 JNull "[]"] by (simp add: list_all_iff model_bounded_def)
qed

subsection \<open>Only local drives\<close>

lemma local_join:
  assumes "is_lexically_local dir" "CHR '':'' \<notin> set rest" "char_of (0::nat) \<notin> set rest"
  shows "is_lexically_local (join dir rest)"
proof -
  obtain a b c r where "dir = a # b # c # r"
    using assms(1) by (auto simp: is_lexically_local_def numeral_3_eq_3 Suc_le_length_iff)
  then have "(dir @ x) ! 0 = dir ! 0" "(dir @ x) ! 1 = dir ! 1" "(dir @ x) ! 2 = dir ! 2"
    "drop 2 (dir @ x) = drop 2 dir @ x" for x by simp_all
  then show ?thesis using assms by (auto simp: join_def is_lexically_local_def char_of_def)
qed

lemma validate_executable_Inr:
  "validate_executable is_file p = Inr () \<Longrightarrow> is_lexically_local p \<and> is_file p
     \<and> (\<exists>e. path_extension p = Some e \<and> eq_ignore_ascii_case e ''exe'')"
  by (auto simp: validate_executable_def result_simps split: option.splits)

lemma validate_executable_local:
  "(is_lexically_local p \<Longrightarrow> f p = g p) \<Longrightarrow> validate_executable f p = validate_executable g p"
  by (auto simp: validate_executable_def ensure_def)

lemma first_some_cong: "(\<And>x. f x = g x) \<Longrightarrow> first_some f xs = first_some g xs"
  by (induction xs) (auto split: option.split)

lemma first_some_Some: "first_some f xs = Some y \<Longrightarrow> \<exists>x \<in> set xs. f x = Some y"
  by (induction xs) (auto split: option.splits)

text \<open>
  Whatever the directories of the search path are, the disk is asked about no path that is not on a local drive:
  two disks that agree on those paths give the same program. The program that is found is a native executable
  on a local drive, and a file.
\<close>

theorem discovery_stays_local:
  assumes "\<And>p. is_lexically_local p \<Longrightarrow>
      dk_is_file d p = dk_is_file e p \<and> dk_size d p = dk_size e p \<and> dk_read d p = dk_read e p"
  shows "discover_in parse arm d directories = discover_in parse arm e directories"
proof -
  have valid: "validate_executable (dk_is_file d) p = validate_executable (dk_is_file e) p" for p
    using assms by (intro validate_executable_local) simp
  have "discover_at parse arm d dir = discover_at parse arm e dir" for dir
  proof (cases "is_lexically_local dir")
    case True
    have "is_lexically_local (join (join dir ''node_modules/@openai/codex'') ''package.json'')"
      by (intro local_join True) (simp_all add: char_of_def)
    then show ?thesis
      using assms by (simp add: discover_at_def package_found_def valid Let_def)
  qed (simp add: discover_at_def)
  then show ?thesis unfolding discover_in_def by (rule first_some_cong)
qed

theorem discovered_program_valid:
  assumes "discover_in parse arm d directories = Some p"
  shows "is_lexically_local p \<and> dk_is_file d p
    \<and> (\<exists>e. path_extension p = Some e \<and> eq_ignore_ascii_case e ''exe'')"
proof -
  obtain dir where "discover_at parse arm d dir = Some p"
    using assms first_some_Some unfolding discover_in_def by metis
  then have "is_ok (validate_executable (dk_is_file d) p)"
    by (auto simp: discover_at_def Let_def split: if_splits dest: find_SomeD)
  then show ?thesis using validate_executable_Inr [of "dk_is_file d" p] by (auto simp: is_ok_iff)
qed

text \<open>A probe that succeeds ran a local program and saw its process end.\<close>

theorem probe_leaves_no_process:
  assumes "probe h executable profile = Inr st"
  shows "is_lexically_local executable \<and> ph_kill h \<and> ph_exit h = Some True \<and> ph_talk h = Answered (Inr st)"
  using assms validate_executable_Inr [of "dk_is_file (ph_disk h)" executable]
  by (auto simp: probe_def result_simps talk_result_def split: sum.splits talk.splits)

end
