(* ===== verification/Spec2Isabelle.thy ===== *)
theory Spec2Isabelle
  imports Round_Trip Lookup Handover Quality_Facts Targets Journal_Store Panel_Facts Segment_Reads Notebook_Store_Facts
    Bridge_Quiet Bundle_Demo Probe_Checks
begin

text \<open>
  NetLane is a Windows program in Rust (crates under \<open>src/crates\<close>) that routes programs through chosen
  network adapters, captures and inspects traffic, and prepares reviewed evidence for an assistant. This
  library models its own logic as executable definitions, one theory per component, and proves what makes
  each component correct. Everything that is not in the repository's Rust (the kernel's filtering platform,
  the file system, \<open>netsh\<close>, SHA-256, the text that Serde writes and reads, clocks) is an argument of the
  definitions that use it, and a law it is relied on for is a named hypothesis.

  \<^bold>\<open>Common ground.\<close> \<open>Prelude\<close>: results as sums, \<open>Inl\<close> an error and \<open>Inr\<close> a value, with \<open>rbind\<close> for
  Rust's question mark; the collection \<open>result_simps\<close> of inversion rules. \<open>Effects\<close>: the same for
  operations that act on a state (\<open>sbind\<close>), a failing one leaving the state it reached. \<open>Utf8\<close>,
  \<open>Chars\<close> and \<open>Text\<close>: Rust's \<open>char\<close> and \<open>str\<close> over lists of bytes. \<open>Btree\<close>: \<open>BTreeMap\<close> as a
  sorted association list.

  \<^bold>\<open>Routing.\<close> The panel keeps policies (\<open>Model\<close>, from \<open>netlane-core/src/model.rs\<close>) and plans rules from
  them and the adapters (\<open>Planning\<close>). The elevated agent applies the rules through a session of the Windows
  Filtering Platform: \<open>Engine\<close> is the transactional application over the trait \<open>PolicySession\<close> (a
  locale with its laws), \<open>Wfp\<close> the session itself and the proof that it has these laws when the platform's
  entry points do what Microsoft documents. \<open>Flags\<close> is the guard that switches route policies on and off
  through \<open>netsh\<close>. \<open>Protocol\<close> has the messages and frames between the two processes, \<open>Session\<close> and
  \<open>Session_Facts\<close> the agent's loop, \<open>Panel\<close> and \<open>Panel_Facts\<close> the controller that speaks to it. The
  lemmas go from the platform upwards: after any history an \<open>Ok\<close> of the engine means that exactly the
  planned effects are enforced, a failure leaves the old ones or poisons the engine; the session reports what
  is enforced; a cleanup that the panel confirms has happened.

  \<^bold>\<open>Default connection.\<close> \<open>Priority\<close> plans interface metrics, applies them with rollback over the trait
  \<open>Settings\<close> and keeps the journal (\<open>netlane-core/src/default_connection.rs\<close>); \<open>Priority_Facts\<close> and
  \<open>Priority_Apply\<close> show that the plan makes the chosen interface the default, that a success and a
  confirmed rollback tell the truth, and that the journal keeps the originals. \<open>Handover\<close> is the exchange
  between panel and elevated component (\<open>netlane-agent/src/default_connection.rs\<close>), shown to reach what was
  prepared over any settings with the laws of the locale \<open>settings_store\<close>; \<open>Journal_Store\<close> the journal's
  file.

  \<^bold>\<open>Files.\<close> \<open>Persistence\<close> models bounded reads, locks, atomic writes and the policy file of
  \<open>netlane-core/src/persistence.rs\<close> over a disk on which every call may fail or half succeed;
  \<open>Persistence_Facts\<close> shows what is on the disk after every such failure: never a part of the new
  contents, and with a backup the old ones under one name or the other. What \<open>ReplaceFileW\<close> leaves when it
  fails is the documented minimum (the locale \<open>replacing_os\<close>).

  \<^bold>\<open>Quality.\<close> \<open>Quality\<close> and \<open>Targets\<close> have the targets, windows, ratings and the monitor of
  \<open>netlane-core/src/quality.rs\<close>; \<open>Quality_Facts\<close> runs the monitor against its workers as a step relation
  and shows that nothing stale is accepted.

  \<^bold>\<open>Capture files.\<close> \<open>Decode\<close> summarises a frame, \<open>Reader\<close> is the bounded PCAP and PCAPNG reader over any
  source of bytes, with a sink for the packets (\<open>Sink\<close>), \<open>Export\<close> writes a selection in both formats and
  \<open>Round_Trip\<close> shows that the reader gives it back. \<open>Analysis\<close>, \<open>Analysis_Facts\<close> and \<open>Dump\<close> are the
  sink that counts and samples a whole dump. \<open>Delivered\<close> shows that every sink is handed the same packets
  of a file; \<open>Lookup\<close> recovers one of them by its anchor.

  \<^bold>\<open>Continuous collection\<close> (\<open>netlane-capture/src/collection.rs\<close>). \<open>Batch\<close> has the data, the default poll
  and the options; \<open>Pipe\<close> the reading thread, its buffers and its channel, as steps interleaved in any
  order with the writer; \<open>Collector\<close> the writing loop; \<open>Publish\<close> the workers and the publication;
  \<open>Segment_Reads\<close> joins the collection with the analysis. The lemmas follow the packets: each is delivered,
  queued or counted as dropped; the segments hold a prefix of what was delivered; publication is in capture
  order; the receipt accounts for everything; the analysis accepts every segment.

  \<^bold>\<open>Assistant\<close> (\<open>netlane-ai\<close>). \<open>Evidence\<close> is the reviewed context and the citation check, \<open>Report\<close> the
  Markdown and HTML of a draft, \<open>Notebook\<close> the turns and notes of an investigation, \<open>Folder\<close> and
  \<open>Notebook_Store\<close> what is saved and loaded. The lemmas show that an answer passes only with citations of
  the context, that no inserted text becomes markup, that a notebook always validates, and that a receipt
  vouches for its folder. The conversation itself is \<open>Provider\<close>, the requests to the provider's process
  and its isolated start, and \<open>Bridge\<close>, the loop over commands, frames and timer (\<open>bridge.rs\<close>; \<open>Json\<close> has
  the reading of JSON values they share). \<open>Provider_Facts\<close> shows which versions are run and that no frame is
  lost to a cancelled read; \<open>Bridge_Asks\<close> what may be written at all and what each process, the
  first and those after a logout, must have confirmed before (the log of what is written has also where a
  process was started);
  \<open>Bridge_Turns\<close> and \<open>Bridge_Facts\<close> that the books of threads, requests and turns stay in order;
  \<open>Bridge_Quiet\<close> that a cancelled conversation stays quiet until it is asked again; \<open>Bridge_Demo\<close> runs one conversation.
  \<open>Bundle\<close> and \<open>Bundle_Facts\<close> plan a portable investigation (\<open>bundle.rs\<close>): exactly the
  dumps that are referred to, each matched with its contexts. \<open>Bundle_Store\<close> saves and opens it;
  \<open>Bundle_Store_Facts\<close> shows that a manifest vouches for its folder and that opening changes nothing;
  \<open>Bundle_Demo\<close> saves one.
  \<open>Probe\<close> is the query of the provider's program
  (\<open>protocol.rs\<close>, \<open>codex.rs\<close>): the search for it, its lines, the five requests, the checks before the
  account is read; \<open>Probe_Facts\<close> shows that the chunks of the pipe do not matter, \<open>Probe_Checks\<close> that
  nothing is asked of an unrestricted process and that only local drives are looked at.

  \<^bold>\<open>Bounds and fuel.\<close> A loop over input recurses on the input or on what is left of it, with its
  termination proved. Where Rust loops until an external source ends (reads, polls, sessions), the model
  consumes a finite script of what the source does and says what holds after any script. One loop carries
  fuel: the coarsening of time windows in \<open>Analysis\<close>, 64 doublings of a 64-bit interval, which
  \<open>coarsen_fuel\<close> shows is never what stops it. Integers whose overflow matters are words
  (packet fields, driver counters, saturating totals); lengths and indices are \<open>nat\<close>.

  \<^bold>\<open>Not modelled.\<close> The desktop interface (\<open>netlane-app\<close>), which renders with GPUI and forwards
  commands to the modelled components; the bindings of \<open>netlane-windows\<close> to Win32, Npcap, WMI and PowerShell, which
  translate calls; start-up, tray and icons;
  \<open>main.rs\<close> of the agent, argument parsing and the launch; the quality assurance binary of
  \<open>netlane-capture\<close>; floating-point figures (traffic rates, the comparison of two reports, latency labels), which
  HOL's reals would misstate; scripts and packaging.
\<close>

end
